(* ===== verification/Prelude.thy ===== *)
theory Prelude
  imports Main "HOL-Library.Word" "HOL-Library.AList" "HOL-Library.Sublist" "HOL-Library.Multiset"
begin

text \<open>
  What every component shares. JavaScript strings are sequences of UTF-16 code units
  (\<open>jstr\<close>), so a length, an offset or a slice counts what the source counts. A
  JavaScript \<open>Map\<close> is an association list in insertion order: \<open>AList.update\<close>
  overwrites in place or appends, exactly as \<open>Map.prototype.set\<close> does. A call that may
  throw returns \<open>error + 'a\<close>, and \<open>rbind\<close> runs the rest of the function only when
  no error was thrown. The collections \<open>js_simps\<close>, \<open>map_simps\<close> and
  \<open>queue_simps\<close> carry the automation of the component theories.
\<close>

named_theorems js_simps "facts on JavaScript strings and truthiness"
named_theorems map_simps "facts on insertion-ordered maps"
named_theorems queue_simps "facts on arrays read and updated by index"

section \<open>Strings\<close>

type_synonym jstr = "16 word list"

text \<open>The code units of an ASCII literal of the source.\<close>

definition js :: "string \<Rightarrow> jstr" where
  "js s = map (\<lambda>c. word_of_nat (of_char c)) s"

lemma of_char_16_inject [simp]:
  "(word_of_nat (of_char c) :: 16 word) = word_of_nat (of_char d) \<longleftrightarrow> c = d"
proof
  assume eq: "(word_of_nat (of_char c) :: 16 word) = word_of_nat (of_char d)"
  have bound: "of_char e < (65536 :: nat)" for e :: char
    using nat_of_char_less_256 [of e] by linarith
  have "unat (word_of_nat (of_char c) :: 16 word) = unat (word_of_nat (of_char d) :: 16 word)"
    using eq by simp
  then have "(of_char c :: nat) = of_char d"
    using bound by (simp add: unat_of_nat)
  then show "c = d" by simp
qed simp

lemma js_inject [simp, js_simps]: "js s = js t \<longleftrightarrow> s = t"
proof -
  have "inj (\<lambda>c. word_of_nat (of_char c) :: 16 word)"
    by (rule injI) simp
  then show ?thesis
    by (simp add: js_def inj_map_eq_map)
qed

lemma js_Nil [simp, js_simps]: "js [] = []"
  by (simp add: js_def)

lemma js_eq_Nil [simp, js_simps]: "js s = [] \<longleftrightarrow> s = []" "[] = js s \<longleftrightarrow> s = []"
  by (auto simp: js_def)

text \<open>The empty string is the only falsy string, and \<open>undefined\<close> is falsy.\<close>

definition truthy_str :: "jstr \<Rightarrow> bool" where
  "truthy_str s \<longleftrightarrow> s \<noteq> []"

definition truthy :: "jstr option \<Rightarrow> bool" where
  "truthy x = (case x of None \<Rightarrow> False | Some s \<Rightarrow> truthy_str s)"

lemma truthy_simps [simp, js_simps]:
  "\<not> truthy None" "truthy (Some s) \<longleftrightarrow> s \<noteq> []" "truthy_str s \<longleftrightarrow> s \<noteq> []"
  by (simp_all add: truthy_def truthy_str_def)

section \<open>Results of calls that may throw\<close>

definition rbind :: "'e + 'a \<Rightarrow> ('a \<Rightarrow> 'e + 'b) \<Rightarrow> 'e + 'b" where
  "rbind m f = (case m of Inl e \<Rightarrow> Inl e | Inr x \<Rightarrow> f x)"

definition rcheck :: "bool \<Rightarrow> 'e \<Rightarrow> 'e + unit" where
  "rcheck b e = (if b then Inr () else Inl e)"

definition is_ok :: "'e + 'a \<Rightarrow> bool" where
  "is_ok m = (case m of Inl _ \<Rightarrow> False | Inr _ \<Rightarrow> True)"

lemma rbind_simps [simp]: "rbind (Inl e) f = Inl e" "rbind (Inr x) f = f x"
  by (simp_all add: rbind_def)

lemma rcheck_simps [simp]: "rcheck True e = Inr ()" "rcheck False e = Inl e"
  by (simp_all add: rcheck_def)

lemma is_ok_simps [simp]: "\<not> is_ok (Inl e)" "is_ok (Inr x)"
  by (simp_all add: is_ok_def)

lemma rbind_eq_Inr [simp]: "rbind m f = Inr y \<longleftrightarrow> (\<exists>x. m = Inr x \<and> f x = Inr y)"
  by (cases m) auto

lemma rcheck_eq_Inr [simp]: "rcheck b e = Inr u \<longleftrightarrow> b"
  by (simp add: rcheck_def)

lemma rbind_assoc: "rbind (rbind m f) g = rbind m (\<lambda>x. rbind (f x) g)"
  by (cases m) simp_all

lemma rbind_Inr_right [simp]: "rbind m Inr = m"
  by (cases m) simp_all

lemma rbind_cong [fundef_cong]:
  "m = m' \<Longrightarrow> (\<And>x. m' = Inr x \<Longrightarrow> f x = g x) \<Longrightarrow> rbind m f = rbind m' g"
  by (cases m) auto

text \<open>A loop whose body may throw: it stops at the first error.\<close>

fun rfold :: "('x \<Rightarrow> 'a \<Rightarrow> 'e + 'a) \<Rightarrow> 'x list \<Rightarrow> 'a \<Rightarrow> 'e + 'a" where
  "rfold f [] a = Inr a"
| "rfold f (x # xs) a = rbind (f x a) (rfold f xs)"

lemma rfold_append: "rfold f (xs @ ys) a = rbind (rfold f xs a) (rfold f ys)"
proof (induction xs arbitrary: a)
  case (Cons x xs)
  have "rfold f (xs @ ys) = (\<lambda>b. rbind (rfold f xs b) (rfold f ys))"
    using Cons.IH by (rule ext)
  then show ?case by (simp add: rbind_assoc)
qed simp

lemma rfold_Nil_eq: "rfold f [] = Inr"
  by (rule ext) simp

lemma rfold_single: "rfold f [x] = f x"
  by (rule ext) (simp add: rfold_Nil_eq)

lemma rfold_two: "rfold f [x, y] = (\<lambda>a. rbind (f x a) (f y))"
  by (rule ext) (simp add: rfold_single)

lemma rfold_snoc: "rfold f (xs @ [x]) a = rbind (rfold f xs a) (f x)"
  by (simp add: rfold_append rfold_single)

section \<open>Insertion-ordered maps\<close>

abbreviation map_set :: "'k \<Rightarrow> 'v \<Rightarrow> ('k \<times> 'v) list \<Rightarrow> ('k \<times> 'v) list" where
  "map_set \<equiv> AList.update"

abbreviation map_del :: "'k \<Rightarrow> ('k \<times> 'v) list \<Rightarrow> ('k \<times> 'v) list" where
  "map_del \<equiv> AList.delete"

abbreviation map_keys :: "('k \<times> 'v) list \<Rightarrow> 'k list" where
  "map_keys m \<equiv> map fst m"

definition map_has :: "'k \<Rightarrow> ('k \<times> 'v) list \<Rightarrow> bool" where
  "map_has k m \<longleftrightarrow> map_of m k \<noteq> None"

lemma map_of_map_set [simp, map_simps]: "map_of (map_set k v m) = (map_of m)(k \<mapsto> v)"
  by (rule update_conv')

lemma map_of_map_del [simp, map_simps]: "map_of (map_del k m) = (map_of m)(k := None)"
  by (rule delete_conv')

lemma map_has_iff [map_simps]: "map_has k m \<longleftrightarrow> k \<in> set (map_keys m)"
  by (simp add: map_has_def map_of_eq_None_iff)

lemma map_key_in: "map_of m k = Some v \<Longrightarrow> k \<in> set (map_keys m)"
  by (metis map_has_def map_has_iff option.distinct(1))

lemma map_key_out: "map_of m k = None \<Longrightarrow> k \<notin> set (map_keys m)"
  by (metis map_has_def map_has_iff)

lemma keys_map_set [map_simps]:
  "map_keys (map_set k v m) = (if k \<in> set (map_keys m) then map_keys m else map_keys m @ [k])"
  by (induction m) auto

lemma keys_map_del [map_simps]: "map_keys (map_del k m) = filter (\<lambda>x. x \<noteq> k) (map_keys m)"
  by (induction m) (auto simp: AList.delete_eq)

lemma distinct_map_set [map_simps]:
  "distinct (map_keys m) \<Longrightarrow> distinct (map_keys (map_set k v m))"
  by (rule distinct_update)

lemma distinct_map_del [map_simps]:
  "distinct (map_keys m) \<Longrightarrow> distinct (map_keys (map_del k m))"
  by (simp add: keys_map_del)

lemma map_set_set [simp, map_simps]: "map_set k v (map_set k w m) = map_set k v m"
  by (induction m) auto

lemma map_set_same [map_simps]: "map_of m k = Some v \<Longrightarrow> map_set k v m = m"
  by (induction m) (auto split: if_splits)

lemma map_set_new [map_simps]: "map_of m k = None \<Longrightarrow> map_set k v m = m @ [(k, v)]"
  by (induction m) (auto split: if_splits)

text \<open>An ordered map is determined by its key order and its lookup function.\<close>

lemma map_by_keys:
  "distinct (map_keys m) \<Longrightarrow> map (\<lambda>k. (k, the (map_of m k))) (map_keys m) = m"
proof (induction m)
  case (Cons p m)
  have new: "fst p \<notin> set (map_keys m)" using Cons.prems by simp
  have "map (\<lambda>k. (k, the (map_of (p # m) k))) (map_keys m)
      = map (\<lambda>k. (k, the (map_of m k))) (map_keys m)"
  proof (rule map_cong [OF refl])
    fix k assume "k \<in> set (map_keys m)"
    with new have "k \<noteq> fst p" by blast
    then show "(k, the (map_of (p # m) k)) = (k, the (map_of m k))" by (cases p) simp
  qed
  also have "\<dots> = m" using Cons by simp
  finally show ?case by (cases p) simp
qed simp

lemma map_eqI:
  assumes "distinct (map_keys m)" and "map_keys m = map_keys n" and "map_of m = map_of n"
  shows "m = n"
  using map_by_keys [of m] map_by_keys [of n] assms by simp

section \<open>Arrays\<close>

text \<open>\<open>findIndex\<close>: the first index whose element satisfies the predicate, or -1.\<close>

definition find_index :: "('a \<Rightarrow> bool) \<Rightarrow> 'a list \<Rightarrow> int" where
  "find_index P xs =
     (let n = length (takeWhile (\<lambda>x. \<not> P x) xs) in if n < length xs then int n else -1)"

text \<open>\<open>xs.splice(i, 1)\<close> for an index in range: the array without that element.\<close>

definition remove_at :: "nat \<Rightarrow> 'a list \<Rightarrow> 'a list" where
  "remove_at i xs = take i xs @ drop (Suc i) xs"

lemma find_index_Nil [simp, queue_simps]: "find_index P [] = -1"
  by (simp add: find_index_def)

lemma find_index_Cons [queue_simps]:
  "find_index P (x # xs) =
     (if P x then 0 else if find_index P xs = -1 then -1 else find_index P xs + 1)"
  by (auto simp: find_index_def Let_def)

lemma find_index_ge: "-1 \<le> find_index P xs"
  by (simp add: find_index_def Let_def)

lemma find_index_none [queue_simps]: "find_index P xs = -1 \<longleftrightarrow> (\<forall>x \<in> set xs. \<not> P x)"
  by (induction xs) (use find_index_ge [of P] in \<open>auto simp: find_index_Cons, smt (verit)\<close>)

lemma find_index_neg_iff: "find_index P xs < 0 \<longleftrightarrow> (\<forall>x \<in> set xs. \<not> P x)"
  using find_index_none [of P xs] find_index_ge [of P xs] by linarith

lemma find_index_nonneg_iff [queue_simps]: "0 \<le> find_index P xs \<longleftrightarrow> (\<exists>x \<in> set xs. P x)"
  using find_index_neg_iff [of P xs] by (meson linorder_not_le)

lemma find_index_less: "find_index P xs < int (length xs) \<or> xs = []"
  by (auto simp: find_index_def Let_def)

lemma find_index_nth:
  assumes "0 \<le> find_index P xs"
  shows "nat (find_index P xs) < length xs" and "P (xs ! nat (find_index P xs))"
proof -
  let ?n = "length (takeWhile (\<lambda>x. \<not> P x) xs)"
  have n: "?n < length xs" "find_index P xs = int ?n"
    using assms by (auto simp: find_index_def Let_def split: if_splits)
  then show "nat (find_index P xs) < length xs" by simp
  show "P (xs ! nat (find_index P xs))"
    using nth_length_takeWhile [OF n(1)] n(2) by simp
qed

lemma find_index_first: "j < nat (find_index P xs) \<Longrightarrow> \<not> P (xs ! j)"
  unfolding find_index_def Let_def
  by (auto split: if_splits) (metis nth_mem set_takeWhileD takeWhile_nth)

lemma length_remove_at [simp, queue_simps]:
  "i < length xs \<Longrightarrow> length (remove_at i xs) = length xs - 1"
  by (simp add: remove_at_def)

lemma set_remove_at: "set (remove_at i xs) \<subseteq> set xs"
  by (auto simp: remove_at_def dest: in_set_takeD in_set_dropD)

lemma map_remove_at [queue_simps]: "map f (remove_at i xs) = remove_at i (map f xs)"
  by (simp add: remove_at_def take_map drop_map)

lemma remove_at_Cons [simp, queue_simps]:
  "remove_at 0 (x # xs) = xs" "remove_at (Suc i) (x # xs) = x # remove_at i xs"
  by (simp_all add: remove_at_def)

text \<open>Removing the first match of a predicate leaves every other element in its order.\<close>

lemma remove_first_distinct:
  assumes "0 \<le> find_index (\<lambda>x. f x = k) xs" and "distinct (map f xs)"
  shows "remove_at (nat (find_index (\<lambda>x. f x = k) xs)) xs = filter (\<lambda>x. f x \<noteq> k) xs"
  using assms
proof (induction xs)
  case (Cons x xs)
  show ?case
  proof (cases "f x = k")
    case True
    from Cons.prems(2) have "f x \<notin> f ` set xs" by simp
    with True have "\<forall>y \<in> set xs. f y \<noteq> k" by (metis image_eqI)
    then show ?thesis using True by (simp add: find_index_Cons)
  next
    case False
    with Cons.prems have ge: "0 \<le> find_index (\<lambda>x. f x = k) xs"
      by (auto simp: find_index_Cons split: if_splits)
    then have "nat (find_index (\<lambda>x. f x = k) xs + 1) = Suc (nat (find_index (\<lambda>x. f x = k) xs))"
      by simp
    with False ge Cons show ?thesis by (simp add: find_index_Cons)
  qed
qed simp

lemma mset_remove_at:
  "i < length xs \<Longrightarrow> mset (remove_at i xs) = mset xs - {#xs ! i#}"
proof (induction xs arbitrary: i)
  case (Cons x xs)
  then show ?case by (cases i) (auto simp: nth_mem add_mset_commute)
qed simp

text \<open>\<open>xs[findIndex(P)] = f(xs[findIndex(P)])\<close>: the first match is rewritten in place.\<close>

fun map_first :: "('a \<Rightarrow> bool) \<Rightarrow> ('a \<Rightarrow> 'a) \<Rightarrow> 'a list \<Rightarrow> 'a list" where
  "map_first P f [] = []"
| "map_first P f (x # xs) = (if P x then f x # xs else x # map_first P f xs)"

lemma length_map_first [simp, queue_simps]: "length (map_first P f xs) = length xs"
  by (induction xs) auto

lemma find_map_first [queue_simps]:
  "(\<And>x. P x \<Longrightarrow> P (f x)) \<Longrightarrow> List.find P (map_first P f xs) = map_option f (List.find P xs)"
  by (induction xs) auto

lemma map_first_map_first [queue_simps]:
  "(\<And>x. P x \<Longrightarrow> P (f x)) \<Longrightarrow> map_first P g (map_first P f xs) = map_first P (g \<circ> f) xs"
  by (induction xs) auto

lemma map_first_none [queue_simps]: "List.find P xs = None \<Longrightarrow> map_first P f xs = xs"
  by (induction xs) (auto split: if_splits)

lemma map_first_cong:
  "List.find P xs = Some x \<Longrightarrow> f x = g x \<Longrightarrow> map_first P f xs = map_first P g xs"
  by (induction xs) (auto split: if_splits)

lemma find_some: "List.find P xs = Some x \<Longrightarrow> P x \<and> x \<in> set xs"
  by (induction xs) (auto split: if_splits)

lemma map_map_first [queue_simps]:
  "(\<And>x. P x \<Longrightarrow> g (f x) = g x) \<Longrightarrow> map g (map_first P f xs) = map g xs"
  by (induction xs) auto

end
