(* ===== verification/JsValue.thy ===== *)
theory JsValue
  imports Prelude
begin

text \<open>
  JavaScript values as the transcript stores them: \<open>TranscriptJson\<close> of
  shared/sessionTranscript.ts. An integral number is \<open>JNum\<close>; a number with a fraction is
  \<open>JFloat s e\<close>, the decimal \<open>s * 10^e\<close> that \<open>Number::toString\<close> renders. An object is its own properties in insertion order; a property whose value is
  \<open>undefined\<close> is absent. \<open>structuredClone\<close> is the identity, because values are immutable
  here.
\<close>

section \<open>Values\<close>

datatype json =
    JNull
  | JBool bool
  | JNum int
  | JFloat int int
  | JStr jstr
  | JArr "json list"
  | JObj "(jstr \<times> json) list"

type_synonym jobj = "(jstr \<times> json) list"

definition oget :: "jobj \<Rightarrow> jstr \<Rightarrow> json option" where
  "oget obj k = map_of obj k"

definition oset :: "jstr \<Rightarrow> json \<Rightarrow> jobj \<Rightarrow> jobj" where
  "oset k v obj = map_set k v obj"

definition odel :: "jstr \<Rightarrow> jobj \<Rightarrow> jobj" where
  "odel k obj = map_del k obj"

definition ohas :: "jobj \<Rightarrow> jstr \<Rightarrow> bool" where
  "ohas obj k \<longleftrightarrow> oget obj k \<noteq> None"

text \<open>\<open>{ ...a, ...b }\<close>: the properties of \<open>b\<close> are set on \<open>a\<close> one by one.\<close>

fun ospread :: "jobj \<Rightarrow> jobj \<Rightarrow> jobj" where
  "ospread a [] = a"
| "ospread a ((k, v) # b) = ospread (oset k v a) b"

text \<open>The source's \<open>object\<close> helper: an object that is not null and not an array.\<close>

definition as_object :: "json option \<Rightarrow> jobj option" where
  "as_object v = (case v of Some (JObj obj) \<Rightarrow> Some obj | _ \<Rightarrow> None)"

definition as_array :: "json option \<Rightarrow> json list option" where
  "as_array v = (case v of Some (JArr xs) \<Rightarrow> Some xs | _ \<Rightarrow> None)"

definition as_string :: "json option \<Rightarrow> jstr option" where
  "as_string v = (case v of Some (JStr s) \<Rightarrow> Some s | _ \<Rightarrow> None)"

text \<open>\<open>String(x)\<close>.\<close>

fun dec_nat :: "nat \<Rightarrow> jstr" where
  "dec_nat n = (if n < 10 then [word_of_nat (48 + n)]
                else dec_nat (n div 10) @ [word_of_nat (48 + n mod 10)])"

declare dec_nat.simps [simp del]

definition dec_int :: "int \<Rightarrow> jstr" where
  "dec_int i = (if i < 0 then js ''-'' @ dec_nat (nat (- i)) else dec_nat (nat i))"

fun join_with :: "jstr \<Rightarrow> jstr list \<Rightarrow> jstr" where
  "join_with sep [] = []"
| "join_with sep [s] = s"
| "join_with sep (s # ss) = s @ sep @ join_with sep ss"

text \<open>
  \<open>Number::toString\<close> of \<open>s * 10^e\<close>: with \<open>k\<close> digits, the decimal point comes after the first
  \<open>n = k + e\<close> of them; far from zero the exponent form is used.
\<close>

definition float_text :: "int \<Rightarrow> int \<Rightarrow> jstr" where
  "float_text s e =
     (let digits = dec_nat (nat \<bar>s\<bar>); k = int (length digits); n = k + e;
          sign = (if s < 0 then js ''-'' else []);
          power = js ''e'' @ (if 0 < n then js ''+'' else []) @ dec_int (n - 1)
      in sign @
        (if k \<le> n \<and> n \<le> 21 then digits @ replicate (nat (n - k)) 0x30
         else if 0 < n \<and> n \<le> 21 then take (nat n) digits @ js ''.'' @ drop (nat n) digits
         else if -6 < n \<and> n \<le> 0 then js ''0.'' @ replicate (nat (- n)) 0x30 @ digits
         else if k = 1 then digits @ power
         else take 1 digits @ js ''.'' @ drop 1 digits @ power))"

fun json_string :: "json \<Rightarrow> jstr" where
  "json_string JNull = js ''null''"
| "json_string (JBool b) = (if b then js ''true'' else js ''false'')"
| "json_string (JNum i) = dec_int i"
| "json_string (JFloat s e) = float_text s e"
| "json_string (JStr s) = s"
| "json_string (JArr xs) =
     join_with (js '','') (map (\<lambda>x. if x = JNull then [] else json_string x) xs)"
| "json_string (JObj _) = js ''[object Object]''"

definition js_String :: "json option \<Rightarrow> jstr" where
  "js_String v = (case v of None \<Rightarrow> js ''undefined'' | Some x \<Rightarrow> json_string x)"

text \<open>Truthiness of a parsed value.\<close>

definition json_truthy :: "json option \<Rightarrow> bool" where
  "json_truthy v =
     (case v of None \<Rightarrow> False | Some JNull \<Rightarrow> False | Some (JBool b) \<Rightarrow> b
      | Some (JNum i) \<Rightarrow> i \<noteq> 0 | Some (JStr s) \<Rightarrow> s \<noteq> [] | Some _ \<Rightarrow> True)"

text \<open>\<open>Number.isSafeInteger(x)\<close>.\<close>

definition safe_integer :: "json option \<Rightarrow> bool" where
  "safe_integer v = (case v of Some (JNum i) \<Rightarrow> \<bar>i\<bar> \<le> 2 ^ 53 - 1 | _ \<Rightarrow> False)"

section \<open>Facts on objects\<close>

lemma oget_simps [simp, js_simps]:
  "oget [] k = None"
  "oget ((k', v) # obj) k = (if k = k' then Some v else oget obj k)"
  "oget (oset k v obj) k' = (if k = k' then Some v else oget obj k')"
  "oget (odel k obj) k' = (if k = k' then None else oget obj k')"
  by (auto simp: oget_def oset_def odel_def)

lemma oset_oset [simp, js_simps]: "oset k v (oset k w obj) = oset k v obj"
  by (simp add: oset_def)

lemma oset_same [js_simps]: "oget obj k = Some v \<Longrightarrow> oset k v obj = obj"
  by (simp add: oget_def oset_def map_set_same)

lemma as_object_simps [simp, js_simps]:
  "as_object None = None" "as_object (Some (JObj obj)) = Some obj"
  "as_object (Some (JArr xs)) = None" "as_object (Some JNull) = None"
  "as_object (Some (JBool b)) = None" "as_object (Some (JNum i)) = None"
  "as_object (Some (JFloat m e)) = None" "as_object (Some (JStr s)) = None"
  by (simp_all add: as_object_def)

lemma as_array_simps [simp, js_simps]:
  "as_array None = None" "as_array (Some (JArr xs)) = Some xs"
  "as_array (Some (JObj obj)) = None" "as_array (Some JNull) = None"
  "as_array (Some (JBool b)) = None" "as_array (Some (JNum i)) = None"
  "as_array (Some (JFloat m e)) = None" "as_array (Some (JStr s)) = None"
  by (simp_all add: as_array_def)

lemma as_string_simps [simp, js_simps]:
  "as_string None = None" "as_string (Some (JStr s)) = Some s"
  "as_string (Some (JObj obj)) = None" "as_string (Some JNull) = None"
  "as_string (Some (JBool b)) = None" "as_string (Some (JNum i)) = None"
  "as_string (Some (JFloat m e)) = None" "as_string (Some (JArr xs)) = None"
  by (simp_all add: as_string_def)

lemma as_object_eq_Some: "as_object v = Some obj \<longleftrightarrow> v = Some (JObj obj)"
  by (auto simp: as_object_def split: option.splits json.splits)

lemma as_array_eq_Some: "as_array v = Some xs \<longleftrightarrow> v = Some (JArr xs)"
  by (auto simp: as_array_def split: option.splits json.splits)

lemma as_string_eq_Some: "as_string v = Some s \<longleftrightarrow> v = Some (JStr s)"
  by (auto simp: as_string_def split: option.splits json.splits)

lemma oget_ospread: "oget (ospread a b) k = (case map_of (rev b) k of Some v \<Rightarrow> Some v | None \<Rightarrow> oget a k)"
  by (induction a b rule: ospread.induct) (auto simp: map_add_def split: option.splits)

end
