(* ===== verification/Transcript.thy ===== *)
theory Transcript
  imports JsValue
begin

text \<open>
  The product transcript of shared/sessionTranscript.ts: messages and turns held in display
  order, the eleven named content operations, and the batch that applies several operations
  and undoes all of them when one is refused. Live state, cold reads and the user interface
  share these operations.
\<close>

section \<open>Data\<close>

datatype role = User | Assistant

datatype turn_status = Running | Complete | Stopped | Failed | Interrupted

text \<open>A content block: its identity and type, and every other property in order.\<close>

record tblock =
  b_id :: jstr
  b_type :: jstr
  b_fields :: jobj

datatype content = CText jstr | CBlocks "tblock list"

text \<open>\<open>m_details\<close> holds the optional properties (\<open>TranscriptMessageDetails\<close>).\<close>

record tmessage =
  m_id :: jstr
  m_role :: role
  m_timestamp :: jstr
  m_content :: content
  m_details :: jobj

text \<open>\<open>t_collaboration\<close> is \<open>origin === 'collaboration'\<close>.\<close>

record turn =
  t_id :: jstr
  t_root :: "jstr option"
  t_collaboration :: bool
  t_started :: jstr
  t_status :: turn_status
  t_usage :: "json option"
  t_duration :: "json option"

datatype text_field = FText | FThinking | FInputJson | FResult

record text_target =
  tg_message :: jstr
  tg_block :: "jstr option"
  tg_subagent :: "jstr option"
  tg_field :: text_field

datatype update_target = OnBlock | OnTool

datatype operation =
    MessageCreate tmessage
  | MessageUpdate jstr jobj "jstr list"
  | ContentConfirm jstr content
  | BlockUpsert jstr tblock
  | BlocksRemove jstr "jstr list"
  | BlockUpdate jstr jstr update_target "jstr option" jobj
  | SubagentsRemove jstr jstr "jstr list"
  | SubagentUpsert jstr jstr jobj
  | TextAppend text_target nat jstr
  | MessagesRemove "jstr list"
  | TurnUpdate turn

record projection =
  messages :: "(jstr \<times> tmessage) list"
  turns :: "(jstr \<times> turn) list"

definition create_projection :: projection where
  "create_projection = \<lparr>messages = [], turns = []\<rparr>"

text \<open>One constructor per \<open>TranscriptContentError\<close> the source throws.\<close>

datatype content_error =
    UnknownMessage jstr
  | TextTargetNoBlock
  | UnknownBlock jstr
  | TextTargetNotTool
  | UnknownNestedTool jstr
  | AppendTargetNotText
  | DuplicateMessage jstr
  | BlockOverPlainText
  | NestedRemovalNoBlock
  | NestedRemovalNoCalls
  | NestedCallNoBlock
  | NestedCallNoTool
  | BlockRemovalNoBlocks
  | BlockUpdateNoBlock
  | UnknownUpdateBlock
  | BlockIdentity
  | ToolUpdateNoTool
  | ToolUpdateNoNested
  | ToolUpdateUnknownNested
  | NonContiguousText

section \<open>Reading text\<close>

fun field_key :: "text_field \<Rightarrow> jstr" where
  "field_key FText = js ''text''"
| "field_key FThinking = js ''thinking''"
| "field_key FInputJson = js ''inputJson''"
| "field_key FResult = js ''result''"

definition require_message :: "projection \<Rightarrow> jstr \<Rightarrow> content_error + tmessage" where
  "require_message p mid =
     (case map_of (messages p) mid of None \<Rightarrow> Inl (UnknownMessage mid) | Some m \<Rightarrow> Inr m)"

text \<open>\<open>object(call)?.id === id\<close>.\<close>

definition call_has_id :: "jstr \<Rightarrow> json \<Rightarrow> bool" where
  "call_has_id cid call =
     (case as_object (Some call) of None \<Rightarrow> False | Some obj \<Rightarrow> oget obj (js ''id'') = Some (JStr cid))"

definition block_tool :: "tblock \<Rightarrow> jobj option" where
  "block_tool b = as_object (oget (b_fields b) (js ''tool''))"

definition tool_calls :: "jobj \<Rightarrow> json list option" where
  "tool_calls tool = as_array (oget tool (js ''subagentCalls''))"

definition find_block :: "jstr \<Rightarrow> tblock list \<Rightarrow> tblock option" where
  "find_block bid = List.find (\<lambda>b. b_id b = bid)"

text \<open>The part of \<open>textContainer\<close> after the block is found.\<close>

definition block_container :: "tblock \<Rightarrow> text_target \<Rightarrow> content_error + jobj" where
  "block_container b tg =
     (if tg_field tg = FText \<or> tg_field tg = FThinking then Inr (b_fields b)
      else case block_tool b of
        None \<Rightarrow> Inl TextTargetNotTool
      | Some tool \<Rightarrow>
          (if \<not> truthy (tg_subagent tg) then Inr tool
           else let cid = the (tg_subagent tg) in
             case tool_calls tool of
               None \<Rightarrow> Inl (UnknownNestedTool cid)
             | Some calls \<Rightarrow>
                 (case List.find (call_has_id cid) calls of
                    Some (JObj call) \<Rightarrow> Inr call
                  | _ \<Rightarrow> Inl (UnknownNestedTool cid))))"

definition text_container :: "tmessage \<Rightarrow> text_target \<Rightarrow> content_error + jobj" where
  "text_container m tg =
     (case m_content m of
        CText _ \<Rightarrow> Inl TextTargetNoBlock
      | CBlocks blocks \<Rightarrow>
          (if \<not> truthy (tg_block tg) then Inl TextTargetNoBlock
           else let bid = the (tg_block tg) in
             case find_block bid blocks of
               None \<Rightarrow> Inl (UnknownBlock bid)
             | Some b \<Rightarrow> block_container b tg))"

definition get_transcript_text :: "projection \<Rightarrow> text_target \<Rightarrow> content_error + jstr" where
  "get_transcript_text p tg =
     rbind (require_message p (tg_message tg)) (\<lambda>m.
       case (truthy (tg_block tg), tg_field tg, m_content m) of
         (False, FText, CText s) \<Rightarrow> Inr s
       | _ \<Rightarrow> rbind (text_container m tg) (\<lambda>c.
           case oget c (field_key (tg_field tg)) of
             None \<Rightarrow> Inr []
           | Some (JStr s) \<Rightarrow> Inr s
           | Some _ \<Rightarrow> Inl AppendTargetNotText))"

section \<open>Operations\<close>

text \<open>Replace one message: \<open>requireMessage\<close>, a new value, \<open>messages.set(message.id, \<dots>)\<close>.\<close>

definition with_message ::
    "projection \<Rightarrow> jstr \<Rightarrow> (tmessage \<Rightarrow> content_error + tmessage) \<Rightarrow> content_error + projection" where
  "with_message p mid f =
     rbind (require_message p mid) (\<lambda>m. rbind (f m) (\<lambda>m'.
       Inr (p\<lparr>messages := map_set (m_id m) m' (messages p)\<rparr>)))"

definition apply_message_create :: "projection \<Rightarrow> tmessage \<Rightarrow> content_error + projection" where
  "apply_message_create p m =
     (if map_has (m_id m) (messages p) then Inl (DuplicateMessage (m_id m))
      else Inr (p\<lparr>messages := map_set (m_id m) m (messages p)\<rparr>))"

definition apply_message_update ::
    "projection \<Rightarrow> jstr \<Rightarrow> jobj \<Rightarrow> jstr list \<Rightarrow> content_error + projection" where
  "apply_message_update p mid details clear =
     with_message p mid (\<lambda>m. Inr (m\<lparr>m_details := fold odel clear (ospread (m_details m) details)\<rparr>))"

definition apply_content_confirm :: "projection \<Rightarrow> jstr \<Rightarrow> content \<Rightarrow> content_error + projection" where
  "apply_content_confirm p mid c = with_message p mid (\<lambda>m. Inr (m\<lparr>m_content := c\<rparr>))"

definition upsert_block :: "tblock \<Rightarrow> tblock list \<Rightarrow> tblock list" where
  "upsert_block b blocks =
     (if find_index (\<lambda>c. b_id c = b_id b) blocks < 0 then blocks @ [b]
      else map_first (\<lambda>c. b_id c = b_id b) (\<lambda>_. b) blocks)"

definition apply_block_upsert :: "projection \<Rightarrow> jstr \<Rightarrow> tblock \<Rightarrow> content_error + projection" where
  "apply_block_upsert p mid b =
     with_message p mid (\<lambda>m. case m_content m of
       CText s \<Rightarrow> if s \<noteq> [] then Inl BlockOverPlainText
                  else Inr (m\<lparr>m_content := CBlocks (upsert_block b [])\<rparr>)
     | CBlocks blocks \<Rightarrow> Inr (m\<lparr>m_content := CBlocks (upsert_block b blocks)\<rparr>))"

text \<open>\<open>removed.has(String(object(call)?.id))\<close>.\<close>

definition call_removed :: "jstr list \<Rightarrow> json \<Rightarrow> bool" where
  "call_removed ids call \<longleftrightarrow>
     js_String (case as_object (Some call) of None \<Rightarrow> None | Some obj \<Rightarrow> oget obj (js ''id'')) \<in> set ids"

definition apply_subagents_remove ::
    "projection \<Rightarrow> jstr \<Rightarrow> jstr \<Rightarrow> jstr list \<Rightarrow> content_error + projection" where
  "apply_subagents_remove p mid bid ids =
     with_message p mid (\<lambda>m. case m_content m of
       CText _ \<Rightarrow> Inl NestedRemovalNoBlock
     | CBlocks blocks \<Rightarrow>
         (case find_block bid blocks of
            None \<Rightarrow> Inl NestedRemovalNoCalls
          | Some b \<Rightarrow>
            (case block_tool b of
               None \<Rightarrow> Inl NestedRemovalNoCalls
             | Some tool \<Rightarrow>
               (case tool_calls tool of
                  None \<Rightarrow> Inl NestedRemovalNoCalls
                | Some calls \<Rightarrow>
                    let tool' = oset (js ''subagentCalls'') (JArr (filter (\<lambda>c. \<not> call_removed ids c) calls)) tool;
                        updated = b\<lparr>b_fields := oset (js ''tool'') (JObj tool') (b_fields b)\<rparr>
                    in Inr (m\<lparr>m_content := CBlocks (map (\<lambda>c. if b_id c = bid then updated else c) blocks)\<rparr>)))))"

definition upsert_call :: "jobj \<Rightarrow> json list \<Rightarrow> json list" where
  "upsert_call call calls =
     (let same = (\<lambda>c. case as_object (Some c) of
                        None \<Rightarrow> False | Some obj \<Rightarrow> oget obj (js ''id'') = oget call (js ''id''))
      in if find_index same calls < 0 then calls @ [JObj call]
         else map_first same (\<lambda>_. JObj call) calls)"

definition apply_subagent_upsert ::
    "projection \<Rightarrow> jstr \<Rightarrow> jstr \<Rightarrow> jobj \<Rightarrow> content_error + projection" where
  "apply_subagent_upsert p mid bid call =
     with_message p mid (\<lambda>m. case m_content m of
       CText _ \<Rightarrow> Inl NestedCallNoBlock
     | CBlocks blocks \<Rightarrow>
         (case find_block bid blocks of
            None \<Rightarrow> Inl NestedCallNoTool
          | Some b \<Rightarrow>
            (case block_tool b of
               None \<Rightarrow> Inl NestedCallNoTool
             | Some tool \<Rightarrow>
                 let calls = (case tool_calls tool of None \<Rightarrow> [] | Some cs \<Rightarrow> cs);
                     tool' = oset (js ''subagentCalls'') (JArr (upsert_call call calls)) tool
                 in Inr (m\<lparr>m_content := CBlocks (map_first (\<lambda>c. b_id c = bid)
                      (\<lambda>c. c\<lparr>b_fields := oset (js ''tool'') (JObj tool') (b_fields c)\<rparr>) blocks)\<rparr>))))"

definition apply_blocks_remove ::
    "projection \<Rightarrow> jstr \<Rightarrow> jstr list \<Rightarrow> content_error + projection" where
  "apply_blocks_remove p mid ids =
     with_message p mid (\<lambda>m. case m_content m of
       CText _ \<Rightarrow> Inl BlockRemovalNoBlocks
     | CBlocks blocks \<Rightarrow> Inr (m\<lparr>m_content := CBlocks (filter (\<lambda>b. b_id b \<notin> set ids) blocks)\<rparr>))"

text \<open>The new value of the block of a \<open>block-update\<close>.\<close>

definition updated_block ::
    "update_target \<Rightarrow> jstr option \<Rightarrow> jobj \<Rightarrow> tblock \<Rightarrow> content_error + tblock" where
  "updated_block target sub details b =
     (case target of
        OnBlock \<Rightarrow> Inr (b\<lparr>b_fields := ospread (b_fields b) details\<rparr>)
      | OnTool \<Rightarrow>
          (case block_tool b of
             None \<Rightarrow> Inl ToolUpdateNoTool
           | Some tool \<Rightarrow>
               if \<not> truthy sub
               then Inr (b\<lparr>b_fields := oset (js ''tool'') (JObj (ospread tool details)) (b_fields b)\<rparr>)
               else let cid = the sub in
                 (case tool_calls tool of
                    None \<Rightarrow> Inl ToolUpdateNoNested
                  | Some calls \<Rightarrow>
                      if \<not> list_ex (call_has_id cid) calls then Inl ToolUpdateUnknownNested
                      else let calls' = map (\<lambda>c. if call_has_id cid c
                               then (case c of JObj obj \<Rightarrow> JObj (ospread obj details) | _ \<Rightarrow> c)
                               else c) calls
                        in Inr (b\<lparr>b_fields := oset (js ''tool'')
                             (JObj (oset (js ''subagentCalls'') (JArr calls') tool)) (b_fields b)\<rparr>))))"

definition apply_block_update ::
    "projection \<Rightarrow> jstr \<Rightarrow> jstr \<Rightarrow> update_target \<Rightarrow> jstr option \<Rightarrow> jobj \<Rightarrow> content_error + projection" where
  "apply_block_update p mid bid target sub details =
     with_message p mid (\<lambda>m. case m_content m of
       CText _ \<Rightarrow> Inl BlockUpdateNoBlock
     | CBlocks blocks \<Rightarrow>
         (case find_block bid blocks of
            None \<Rightarrow> Inl UnknownUpdateBlock
          | Some b \<Rightarrow>
              if ohas details (js ''id'') \<or> ohas details (js ''type'') \<or> ohas details (js ''tool'')
              then Inl BlockIdentity
              else rbind (updated_block target sub details b) (\<lambda>b'.
                Inr (m\<lparr>m_content := CBlocks (map_first (\<lambda>c. b_id c = bid) (\<lambda>_. b') blocks)\<rparr>))))"

text \<open>Write the text of a target that \<open>textContainer\<close> found.\<close>

definition set_block_text :: "text_target \<Rightarrow> jstr \<Rightarrow> tblock \<Rightarrow> tblock" where
  "set_block_text tg s b =
     (let key = field_key (tg_field tg) in
      if tg_field tg = FText \<or> tg_field tg = FThinking
      then b\<lparr>b_fields := oset key (JStr s) (b_fields b)\<rparr>
      else case block_tool b of
        None \<Rightarrow> b
      | Some tool \<Rightarrow>
          (let tool' =
             (case (truthy (tg_subagent tg), tool_calls tool) of
                (True, Some calls) \<Rightarrow>
                  oset (js ''subagentCalls'') (JArr (map_first (call_has_id (the (tg_subagent tg)))
                    (\<lambda>c. case c of JObj obj \<Rightarrow> JObj (oset key (JStr s) obj) | _ \<Rightarrow> c) calls)) tool
              | _ \<Rightarrow> oset key (JStr s) tool)
           in b\<lparr>b_fields := oset (js ''tool'') (JObj tool') (b_fields b)\<rparr>))"

definition set_message_text :: "text_target \<Rightarrow> jstr \<Rightarrow> tmessage \<Rightarrow> tmessage" where
  "set_message_text tg s m =
     (if \<not> truthy (tg_block tg) then m\<lparr>m_content := CText s\<rparr>
      else case m_content m of
        CText _ \<Rightarrow> m
      | CBlocks blocks \<Rightarrow> m\<lparr>m_content :=
          CBlocks (map_first (\<lambda>c. b_id c = the (tg_block tg)) (set_block_text tg s) blocks)\<rparr>)"

definition apply_text_append :: "projection \<Rightarrow> text_target \<Rightarrow> nat \<Rightarrow> jstr \<Rightarrow> content_error + projection" where
  "apply_text_append p tg offset text =
     rbind (get_transcript_text p tg) (\<lambda>previous.
       if offset \<noteq> length previous then Inl NonContiguousText
       else with_message p (tg_message tg) (\<lambda>m. Inr (set_message_text tg (previous @ text) m)))"

definition apply_messages_remove :: "projection \<Rightarrow> jstr list \<Rightarrow> projection" where
  "apply_messages_remove p ids =
     \<lparr>messages = filter (\<lambda>(k, _). k \<notin> set ids) (messages p),
      turns = filter (\<lambda>(_, t). \<not> (case t_root t of None \<Rightarrow> False | Some r \<Rightarrow> r \<in> set ids)) (turns p)\<rparr>"

definition apply_turn_update :: "projection \<Rightarrow> turn \<Rightarrow> projection" where
  "apply_turn_update p t = p\<lparr>turns := map_set (t_id t) t (turns p)\<rparr>"

fun apply_operation :: "operation \<Rightarrow> projection \<Rightarrow> content_error + projection" where
  "apply_operation (MessageCreate m) p = apply_message_create p m"
| "apply_operation (MessageUpdate mid details clear) p = apply_message_update p mid details clear"
| "apply_operation (ContentConfirm mid c) p = apply_content_confirm p mid c"
| "apply_operation (BlockUpsert mid b) p = apply_block_upsert p mid b"
| "apply_operation (SubagentsRemove mid bid ids) p = apply_subagents_remove p mid bid ids"
| "apply_operation (SubagentUpsert mid bid call) p = apply_subagent_upsert p mid bid call"
| "apply_operation (BlocksRemove mid ids) p = apply_blocks_remove p mid ids"
| "apply_operation (BlockUpdate mid bid target sub details) p =
     apply_block_update p mid bid target sub details"
| "apply_operation (TextAppend tg offset text) p = apply_text_append p tg offset text"
| "apply_operation (MessagesRemove ids) p = Inr (apply_messages_remove p ids)"
| "apply_operation (TurnUpdate t) p = Inr (apply_turn_update p t)"

section \<open>Batches\<close>

fun operation_ids :: "operation \<Rightarrow> jstr list" where
  "operation_ids (MessageCreate m) = [m_id m]"
| "operation_ids (MessagesRemove ids) = ids"
| "operation_ids (TurnUpdate t) = []"
| "operation_ids (MessageUpdate mid _ _) = [mid]"
| "operation_ids (ContentConfirm mid _) = [mid]"
| "operation_ids (BlockUpsert mid _) = [mid]"
| "operation_ids (BlocksRemove mid _) = [mid]"
| "operation_ids (BlockUpdate mid _ _ _ _) = [mid]"
| "operation_ids (SubagentsRemove mid _ _) = [mid]"
| "operation_ids (SubagentUpsert mid _ _) = [mid]"
| "operation_ids (TextAppend tg _ _) = [tg_message tg]"

fun is_removal :: "operation \<Rightarrow> bool" where
  "is_removal (MessagesRemove _) = True"
| "is_removal _ = False"

text \<open>Turn ids an operation may change: those it names, and those it drops with their root.\<close>

fun operation_turn_ids :: "projection \<Rightarrow> operation \<Rightarrow> jstr list" where
  "operation_turn_ids p (TurnUpdate t) = [t_id t]"
| "operation_turn_ids p (MessagesRemove ids) =
     map fst (filter (\<lambda>(_, t). case t_root t of None \<Rightarrow> False | Some r \<Rightarrow> r \<in> set ids) (turns p))"
| "operation_turn_ids p _ = []"

text \<open>Remember the value of each id before the batch, the first time it is named.\<close>

definition remember :: "('k \<times> 'v) list \<Rightarrow> 'k list \<Rightarrow> ('k \<times> 'v option) list \<Rightarrow> ('k \<times> 'v option) list" where
  "remember m = fold (\<lambda>k acc. if map_has k acc then acc else map_set k (map_of m k) acc)"

definition prior_messages :: "projection \<Rightarrow> operation list \<Rightarrow> (jstr \<times> tmessage option) list" where
  "prior_messages p ops = fold (\<lambda>op. remember (messages p) (operation_ids op)) ops []"

definition prior_turns :: "projection \<Rightarrow> operation list \<Rightarrow> (jstr \<times> turn option) list" where
  "prior_turns p ops = fold (\<lambda>op. remember (turns p) (operation_turn_ids p op)) ops []"

definition restore :: "('k \<times> 'v option) list \<Rightarrow> ('k \<times> 'v) list \<Rightarrow> ('k \<times> 'v) list" where
  "restore = fold (\<lambda>(k, v) m. case v of None \<Rightarrow> map_del k m | Some x \<Rightarrow> map_set k x m)"

text \<open>The \<open>catch\<close> branch of \<open>applyTranscriptBatch\<close>.\<close>

definition rollback :: "projection \<Rightarrow> operation list \<Rightarrow> projection \<Rightarrow> projection" where
  "rollback p ops q =
     (let ms = restore (prior_messages p ops) (messages q);
          ms' = (if list_ex is_removal ops
                 then map (\<lambda>k. (k, the (map_of ms k))) (map_keys (messages p)) else ms)
      in \<lparr>messages = ms', turns = restore (prior_turns p ops) (turns q)\<rparr>)"

fun run_operations :: "operation list \<Rightarrow> projection \<Rightarrow> projection \<times> content_error option" where
  "run_operations [] p = (p, None)"
| "run_operations (op # ops) p =
     (case apply_operation op p of Inl e \<Rightarrow> (p, Some e) | Inr p' \<Rightarrow> run_operations ops p')"

definition apply_batch :: "operation list \<Rightarrow> projection \<Rightarrow> projection \<times> content_error option" where
  "apply_batch ops p =
     (case run_operations ops p of
        (q, None) \<Rightarrow> (q, None)
      | (q, Some e) \<Rightarrow> (rollback p ops q, Some e))"

section \<open>Well-formed projections\<close>

text \<open>Every entry is stored under its own id, and no id is stored twice.\<close>

definition keyed_by :: "('v \<Rightarrow> 'k) \<Rightarrow> ('k \<times> 'v) list \<Rightarrow> bool" where
  "keyed_by f m \<longleftrightarrow> distinct (map_keys m) \<and> list_all (\<lambda>(k, v). f v = k) m"

definition wf_projection :: "projection \<Rightarrow> bool" where
  "wf_projection p \<longleftrightarrow> keyed_by m_id (messages p) \<and> keyed_by t_id (turns p)"

lemma keyed_by_lookup: "keyed_by f m \<Longrightarrow> map_of m k = Some v \<Longrightarrow> f v = k"
  by (auto simp: keyed_by_def list_all_iff dest!: map_of_SomeD)

lemma list_all_map_set:
  "list_all P m \<Longrightarrow> P (k, v) \<Longrightarrow> list_all P (map_set k v m)"
  by (induction m) auto

lemma keyed_by_set: "keyed_by f m \<Longrightarrow> f v = k \<Longrightarrow> keyed_by f (map_set k v m)"
  by (auto simp: keyed_by_def distinct_map_set intro!: list_all_map_set)

lemma keyed_by_filter: "keyed_by f m \<Longrightarrow> keyed_by f (filter P m)"
  by (auto simp: keyed_by_def list_all_iff distinct_map_filter)

lemma wf_create: "wf_projection create_projection"
  by (simp add: wf_projection_def create_projection_def keyed_by_def)

lemma require_message_eq [simp]:
  "require_message p mid = Inr m \<longleftrightarrow> map_of (messages p) mid = Some m"
  by (auto simp: require_message_def split: option.splits)

text \<open>
  Every operation on one message is \<open>with_message\<close> with a function that keeps the message's
  id; the bundle below rewrites each of them to that form.
\<close>

definition keeps_id :: "(tmessage \<Rightarrow> content_error + tmessage) \<Rightarrow> bool" where
  "keeps_id f \<longleftrightarrow> (\<forall>m m'. f m = Inr m' \<longrightarrow> m_id m' = m_id m)"

lemma with_message_shape:
  assumes "wf_projection p" and "with_message p mid f = Inr q" and "keeps_id f"
  shows "\<exists>m. m_id m = mid \<and> mid \<in> set (map_keys (messages p))
    \<and> q = p\<lparr>messages := map_set mid m (messages p)\<rparr>"
proof -
  obtain m m' where m: "map_of (messages p) mid = Some m" and f: "f m = Inr m'"
    and q: "q = p\<lparr>messages := map_set (m_id m) m' (messages p)\<rparr>"
    using assms(2) by (auto simp: with_message_def)
  have "m_id m = mid"
    using assms(1) m by (auto simp: wf_projection_def dest: keyed_by_lookup)
  moreover have "mid \<in> set (map_keys (messages p))"
    using m by (metis map_has_def map_has_iff option.distinct(1))
  ultimately show ?thesis using f q assms(3) unfolding keeps_id_def by metis
qed

lemma m_id_set_message_text [simp]: "m_id (set_message_text tg s m) = m_id m"
  by (simp add: set_message_text_def split: content.split)

text \<open>An operation on one message puts a value with the same id in that message's place.\<close>

definition edits_message :: "jstr \<Rightarrow> projection \<Rightarrow> projection \<Rightarrow> bool" where
  "edits_message mid p q \<longleftrightarrow>
     (\<exists>m. m_id m = mid \<and> q = p\<lparr>messages := map_set mid m (messages p)\<rparr>)"

lemma with_message_edits:
  "wf_projection p \<Longrightarrow> with_message p mid f = Inr q \<Longrightarrow> keeps_id f \<Longrightarrow> edits_message mid p q"
  using with_message_shape unfolding edits_message_def by blast

lemma edits_create: "apply_message_create p m = Inr q \<Longrightarrow> edits_message (m_id m) p q"
  by (auto simp: apply_message_create_def edits_message_def split: if_splits)

named_theorems edit_defs "operations written as one message edit"

declare apply_message_update_def [edit_defs] apply_content_confirm_def [edit_defs]
  apply_block_upsert_def [edit_defs] apply_subagents_remove_def [edit_defs]
  apply_subagent_upsert_def [edit_defs] apply_blocks_remove_def [edit_defs]
  apply_block_update_def [edit_defs]

lemma edits_text_append:
  assumes "wf_projection p" and "apply_text_append p tg offset text = Inr q"
  shows "edits_message (tg_message tg) p q"
proof -
  obtain s where "with_message p (tg_message tg) (\<lambda>m. Inr (set_message_text tg s m)) = Inr q"
    using assms(2) by (auto simp: apply_text_append_def split: if_splits)
  then show ?thesis
    using assms(1) by (rule_tac with_message_edits) (auto simp: keeps_id_def)
qed

lemma edits_operation:
  assumes wf: "wf_projection p" and step: "apply_operation op p = Inr q"
    and "\<not> is_removal op" and "\<And>t. op \<noteq> TurnUpdate t"
  shows "\<exists>mid. operation_ids op = [mid] \<and> edits_message mid p q"
proof (cases op)
  case (MessageCreate m)
  with step show ?thesis by (simp add: edits_create)
next
  case (TextAppend tg offset str)
  with step wf show ?thesis by (simp add: edits_text_append)
qed (insert assms, auto simp: edit_defs keeps_id_def Let_def
      elim!: with_message_edits split: content.splits option.splits if_splits)

lemma wf_apply_operation:
  assumes wf: "wf_projection p" and step: "apply_operation op p = Inr q"
  shows "wf_projection q"
proof -
  consider (remove) ids where "op = MessagesRemove ids" | (turn) t where "op = TurnUpdate t"
    | (message) mid where "edits_message mid p q"
    using edits_operation [OF wf step] by (cases op) auto
  then show ?thesis
  proof cases
    case remove
    with step wf show ?thesis
      by (auto simp: wf_projection_def apply_messages_remove_def keyed_by_filter)
  next
    case turn
    with step wf show ?thesis
      by (auto simp: wf_projection_def apply_turn_update_def keyed_by_set)
  next
    case message
    with wf show ?thesis by (auto simp: edits_message_def wf_projection_def keyed_by_set)
  qed
qed

lemma wf_run_operations: "wf_projection p \<Longrightarrow> wf_projection (fst (run_operations ops p))"
  by (induction ops arbitrary: p) (auto split: sum.splits dest: wf_apply_operation)

lemma run_operations_rfold:
  "run_operations ops p = (q, None) \<longleftrightarrow> rfold apply_operation ops p = Inr q"
  by (induction ops arbitrary: p) (auto split: sum.splits)

section \<open>A sample projection\<close>

definition sample_message :: tmessage where
  "sample_message = \<lparr>m_id = js ''m1'', m_role = Assistant, m_timestamp = js ''t'',
     m_content = CBlocks
       [\<lparr>b_id = js ''b1'', b_type = js ''text'', b_fields = [(js ''text'', JStr (js ''hi''))]\<rparr>,
        \<lparr>b_id = js ''b2'', b_type = js ''tool_use'', b_fields = [(js ''tool'', JObj
           [(js ''inputJson'', JStr (js ''{}'')),
            (js ''subagentCalls'', JArr [JObj [(js ''id'', JStr (js ''c1'')), (js ''result'', JStr (js ''ok''))]])])]\<rparr>],
     m_details = []\<rparr>"

definition sample_projection :: projection where
  "sample_projection = \<lparr>messages = [(js ''m1'', sample_message)],
     turns = [(js ''t1'', \<lparr>t_id = js ''t1'', t_root = Some (js ''m1''), t_collaboration = False,
       t_started = js ''t'', t_status = Complete, t_usage = None, t_duration = None\<rparr>)]\<rparr>"

lemma wf_sample: "wf_projection sample_projection"
  by (simp add: sample_projection_def sample_message_def wf_projection_def keyed_by_def)

end
