(* ===== verification/TranscriptBatch.thy ===== *)
theory TranscriptBatch
  imports Transcript
begin

text \<open>
  \<open>applyTranscriptBatch\<close> is atomic: a refused batch leaves every message in its place and
  every turn with its value. The proof follows the source: the values remembered before the
  batch cover whatever the operations can touch, and restoring them undoes the touched part.
\<close>

section \<open>Remembering and restoring\<close>

lemma remember_lookup:
  "map_of (remember m ks acc) k =
     (if map_of acc k \<noteq> None then map_of acc k
      else if k \<in> set ks then Some (map_of m k) else None)"
  unfolding remember_def
  by (induction ks arbitrary: acc) (auto simp: map_has_def)

lemma remember_distinct: "distinct (map_keys acc) \<Longrightarrow> distinct (map_keys (remember m ks acc))"
  unfolding remember_def
  by (induction ks arbitrary: acc) (auto simp: distinct_map_set)

lemma remember_all_lookup:
  "map_of (fold (\<lambda>op. remember m (f op)) ops acc) k =
     (if map_of acc k \<noteq> None then map_of acc k
      else if \<exists>op \<in> set ops. k \<in> set (f op) then Some (map_of m k) else None)"
  by (induction ops arbitrary: acc) (auto simp: remember_lookup)

lemma remember_all_distinct:
  "distinct (map_keys acc) \<Longrightarrow> distinct (map_keys (fold (\<lambda>op. remember m (f op)) ops acc))"
  by (induction ops arbitrary: acc) (auto simp: remember_distinct)

lemma prior_messages_lookup:
  "map_of (prior_messages p ops) k =
     (if \<exists>op \<in> set ops. k \<in> set (operation_ids op) then Some (map_of (messages p) k) else None)"
  by (simp add: prior_messages_def remember_all_lookup)

lemma prior_turns_lookup:
  "map_of (prior_turns p ops) k =
     (if \<exists>op \<in> set ops. k \<in> set (operation_turn_ids p op) then Some (map_of (turns p) k) else None)"
  by (simp add: prior_turns_def remember_all_lookup)

lemma restore_Cons:
  "restore ((k, v) # prior) m =
     restore prior (case v of None \<Rightarrow> map_del k m | Some x \<Rightarrow> map_set k x m)"
  by (simp add: restore_def)

lemma restore_Nil [simp]: "restore [] m = m"
  by (simp add: restore_def)

lemma restore_lookup:
  "distinct (map_keys prior) \<Longrightarrow>
   map_of (restore prior m) k = (case map_of prior k of None \<Rightarrow> map_of m k | Some v \<Rightarrow> v)"
proof (induction prior arbitrary: m)
  case (Cons kv prior)
  obtain k' v where kv: "kv = (k', v)" by (cases kv)
  have "map_of prior k' = None"
    using Cons.prems kv by (simp add: map_of_eq_None_iff)
  then show ?case
    using Cons kv by (auto simp: restore_Cons split: option.splits)
qed simp

lemma restore_distinct: "distinct (map_keys m) \<Longrightarrow> distinct (map_keys (restore prior m))"
proof (induction prior arbitrary: m)
  case (Cons kv prior)
  then show ?case
    by (cases kv) (auto simp: restore_Cons distinct_map_set distinct_map_del split: option.split)
qed simp

text \<open>Restoring ids that are still present keeps the key order and drops the deleted ones.\<close>

lemma restore_keys:
  assumes "distinct (map_keys prior)"
    and "\<And>k x. (k, Some x) \<in> set prior \<Longrightarrow> k \<in> set (map_keys m)"
  shows "map_keys (restore prior m) = filter (\<lambda>k. (k, None) \<notin> set prior) (map_keys m)"
  using assms
proof (induction prior arbitrary: m)
  case (Cons kv prior)
  obtain k v where kv: "kv = (k, v)" by (cases kv)
  have notin: "(k, w) \<notin> set prior" for w
    using Cons.prems(1) kv by (auto simp: rev_image_eqI)
  show ?case
  proof (cases v)
    case None
    have present: "j \<in> set (map_keys (map_del k m))" if "(j, Some x) \<in> set prior" for j x
      using Cons.prems(2) [of j x] that kv notin by (auto simp: keys_map_del)
    have "map_keys (restore prior (map_del k m))
        = filter (\<lambda>j. (j, None) \<notin> set prior) (map_keys (map_del k m))"
      using Cons.IH [of "map_del k m"] Cons.prems(1) kv present by auto
    also have "\<dots> = filter (\<lambda>j. (j, None) \<notin> set (kv # prior)) (map_keys m)"
      unfolding keys_map_del filter_filter using None kv by (intro filter_cong) auto
    finally show ?thesis using None kv by (simp add: restore_Cons)
  next
    case (Some x)
    have k: "k \<in> set (map_keys m)" using Cons.prems(2) [of k x] Some kv by simp
    then have keys: "map_keys (map_set k x m) = map_keys m" by (simp add: keys_map_set)
    have "map_keys (restore prior (map_set k x m))
        = filter (\<lambda>j. (j, None) \<notin> set prior) (map_keys (map_set k x m))"
      by (rule Cons.IH) (use Cons.prems kv keys in auto)
    with Some kv keys show ?thesis by (simp add: restore_Cons)
  qed
qed simp

section \<open>What a run of operations can touch\<close>

lemma edits_lookup:
  "edits_message mid p q \<Longrightarrow> k \<noteq> mid \<Longrightarrow> map_of (messages q) k = map_of (messages p) k"
  by (auto simp: edits_message_def)

lemma edits_keys:
  "edits_message mid p q \<Longrightarrow> map_keys (messages q) =
     (if mid \<in> set (map_keys (messages p)) then map_keys (messages p) else map_keys (messages p) @ [mid])"
  unfolding edits_message_def by (elim exE conjE) (simp add: keys_map_set)

lemma map_of_filter_keys:
  "distinct (map_keys m) \<Longrightarrow>
   map_of (filter P m) k = (case map_of m k of None \<Rightarrow> None | Some v \<Rightarrow> if P (k, v) then Some v else None)"
  by (induction m) (auto split: option.splits dest: map_of_SomeD intro: rev_image_eqI)

lemma operation_messages_frame:
  assumes "wf_projection p" and "apply_operation op p = Inr q" and "k \<notin> set (operation_ids op)"
  shows "map_of (messages q) k = map_of (messages p) k"
proof -
  consider (remove) ids where "op = MessagesRemove ids" | (turn) t where "op = TurnUpdate t"
    | (edit) mid where "operation_ids op = [mid]" "edits_message mid p q"
    using edits_operation [OF assms(1,2)] by (cases op) auto
  then show ?thesis
  proof cases
    case remove
    with assms show ?thesis
      by (auto simp: apply_messages_remove_def wf_projection_def keyed_by_def map_of_filter_keys
        split: option.split)
  next
    case turn
    with assms show ?thesis by (auto simp: apply_turn_update_def)
  next
    case edit
    with assms show ?thesis by (simp add: edits_lookup)
  qed
qed

lemma operation_messages_keys:
  assumes "wf_projection p" and "apply_operation op p = Inr q" and "\<not> is_removal op"
  shows "\<exists>new. map_keys (messages q) = map_keys (messages p) @ new
    \<and> set new \<subseteq> set (operation_ids op)"
proof (cases "\<exists>t. op = TurnUpdate t")
  case True
  with assms show ?thesis by (auto simp: apply_turn_update_def)
next
  case False
  then obtain mid where "operation_ids op = [mid]" "edits_message mid p q"
    using edits_operation [OF assms] by auto
  then show ?thesis by (auto simp: edits_keys)
qed

lemma run_messages_frame:
  assumes "wf_projection p" and "\<forall>op \<in> set ops. k \<notin> set (operation_ids op)"
  shows "map_of (messages (fst (run_operations ops p))) k = map_of (messages p) k"
  using assms
proof (induction ops arbitrary: p)
  case (Cons op ops)
  then show ?case
    by (auto split: sum.split simp: operation_messages_frame wf_apply_operation)
qed simp

lemma run_messages_keys:
  assumes "wf_projection p" and "\<not> list_ex is_removal ops"
  shows "\<exists>new. map_keys (messages (fst (run_operations ops p))) = map_keys (messages p) @ new
    \<and> set new \<subseteq> (\<Union>op \<in> set ops. set (operation_ids op))"
  using assms
proof (induction ops arbitrary: p)
  case (Cons op ops)
  show ?case
  proof (cases "apply_operation op p")
    case (Inr q)
    obtain new1 where new1: "map_keys (messages q) = map_keys (messages p) @ new1"
      "set new1 \<subseteq> set (operation_ids op)"
      using operation_messages_keys [of p op q] Cons.prems Inr by auto
    obtain new2 where "map_keys (messages (fst (run_operations ops q))) = map_keys (messages q) @ new2"
      "set new2 \<subseteq> (\<Union>op \<in> set ops. set (operation_ids op))"
      using Cons.IH [of q] Cons.prems Inr by (auto simp: wf_apply_operation)
    with new1 Inr show ?thesis by auto
  qed auto
qed simp

text \<open>
  Turns: what an operation drops at a later state of the batch was either there at the start,
  with the same value, or was named by an earlier operation.
\<close>

lemma operation_turns_frame:
  assumes wf: "wf_projection q" and step: "apply_operation op q = Inr q'"
    and same: "map_of (turns q) k = map_of (turns p) k" and wfp: "wf_projection p"
    and "k \<notin> set (operation_turn_ids p op)"
  shows "map_of (turns q') k = map_of (turns p) k"
proof -
  consider (remove) ids where "op = MessagesRemove ids" | (turn) t where "op = TurnUpdate t"
    | (edit) mid where "edits_message mid q q'"
    using edits_operation [OF wf step] by (cases op) auto
  then show ?thesis
  proof cases
    case remove
    have dist: "distinct (map_keys (turns q))" using wf by (simp add: wf_projection_def keyed_by_def)
    have "\<not> (case t_root t of None \<Rightarrow> False | Some r \<Rightarrow> r \<in> set ids)" if "map_of (turns q) k = Some t" for t
    proof
      assume rooted: "case t_root t of None \<Rightarrow> False | Some r \<Rightarrow> r \<in> set ids"
      have "(k, t) \<in> set (turns p)" using same that by (simp add: map_of_SomeD)
      with rooted have "k \<in> set (operation_turn_ids p op)" using remove by force
      with assms(5) show False by simp
    qed
    with remove step same dist show ?thesis
      by (auto simp: apply_messages_remove_def map_of_filter_keys split: option.splits)
  next
    case turn
    with step same assms(5) show ?thesis by (auto simp: apply_turn_update_def)
  next
    case edit
    with same show ?thesis by (auto simp: edits_message_def)
  qed
qed

lemma run_turns_frame:
  assumes "wf_projection p" and "wf_projection q" and "map_of (turns q) k = map_of (turns p) k"
    and "\<forall>op \<in> set ops. k \<notin> set (operation_turn_ids p op)"
  shows "map_of (turns (fst (run_operations ops q))) k = map_of (turns p) k"
  using assms
proof (induction ops arbitrary: q)
  case (Cons op ops)
  show ?case
  proof (cases "apply_operation op q")
    case (Inl e)
    with Cons.prems show ?thesis by simp
  next
    case (Inr q')
    have "map_of (turns q') k = map_of (turns p) k"
      using operation_turns_frame [OF Cons.prems(2) Inr Cons.prems(3,1)] Cons.prems(4) by simp
    with Cons.IH [of q'] Cons.prems Inr show ?thesis by (simp add: wf_apply_operation)
  qed
qed simp

section \<open>Atomicity\<close>

lemma rollback_messages_lookup:
  assumes "wf_projection p"
  shows "map_of (restore (prior_messages p ops) (messages (fst (run_operations ops p)))) = map_of (messages p)"
proof
  fix k
  have "distinct (map_keys (prior_messages p ops))"
    unfolding prior_messages_def by (rule remember_all_distinct) simp
  then show "map_of (restore (prior_messages p ops) (messages (fst (run_operations ops p)))) k
      = map_of (messages p) k"
    using run_messages_frame [OF assms, of ops k]
    by (auto simp: restore_lookup prior_messages_lookup)
qed

lemma rollback_turns_lookup:
  assumes "wf_projection p"
  shows "map_of (restore (prior_turns p ops) (turns (fst (run_operations ops p)))) = map_of (turns p)"
proof
  fix k
  have "distinct (map_keys (prior_turns p ops))"
    unfolding prior_turns_def by (rule remember_all_distinct) simp
  then show "map_of (restore (prior_turns p ops) (turns (fst (run_operations ops p)))) k
      = map_of (turns p) k"
    using run_turns_frame [OF assms assms, of k ops]
    by (auto simp: restore_lookup prior_turns_lookup)
qed

lemma prior_messages_distinct: "distinct (map_keys (prior_messages p ops))"
  unfolding prior_messages_def by (rule remember_all_distinct) simp

lemma rollback_messages_keys:
  assumes wf: "wf_projection p" and no_removal: "\<not> list_ex is_removal ops"
  shows "map_keys (restore (prior_messages p ops) (messages (fst (run_operations ops p))))
    = map_keys (messages p)"
proof -
  obtain new where keys: "map_keys (messages (fst (run_operations ops p))) = map_keys (messages p) @ new"
    and new: "set new \<subseteq> (\<Union>op \<in> set ops. set (operation_ids op))"
    using run_messages_keys [OF wf no_removal] by blast
  have dist: "distinct (map_keys (messages p) @ new)"
    using wf_run_operations [OF wf, of ops] keys by (simp add: wf_projection_def keyed_by_def)
  have prior: "(k, v) \<in> set (prior_messages p ops) \<longleftrightarrow>
      (\<exists>op \<in> set ops. k \<in> set (operation_ids op)) \<and> v = map_of (messages p) k" for k v
  proof -
    have "(k, v) \<in> set (prior_messages p ops) \<longleftrightarrow> map_of (prior_messages p ops) k = Some v"
      by (simp add: prior_messages_distinct)
    then show ?thesis by (auto simp only: prior_messages_lookup split: if_splits)
  qed
  have present: "k \<in> set (map_keys (messages (fst (run_operations ops p))))"
    if "(k, Some x) \<in> set (prior_messages p ops)" for k x
  proof -
    have "map_of (messages p) k = Some x" using that prior by simp
    then have "k \<in> set (map_keys (messages p))" by (rule map_key_in)
    with keys show ?thesis by simp
  qed
  have "filter (\<lambda>k. (k, None) \<notin> set (prior_messages p ops)) (map_keys (messages p)) = map_keys (messages p)"
    by (rule filter_True) (use prior in \<open>metis map_key_out\<close>)
  moreover have "filter (\<lambda>k. (k, None) \<notin> set (prior_messages p ops)) new = []"
  proof -
    have "(k, None) \<in> set (prior_messages p ops)" if "k \<in> set new" for k
    proof -
      have "k \<notin> set (map_keys (messages p))" using that dist by auto
      then have "map_of (messages p) k = None" by (metis map_key_in not_None_eq)
      with that new show ?thesis unfolding prior by auto
    qed
    then show ?thesis by (simp add: filter_empty_conv)
  qed
  ultimately show ?thesis
    using restore_keys [OF prior_messages_distinct present] keys by simp
qed

lemma rollback_messages:
  assumes "wf_projection p"
  shows "messages (rollback p ops (fst (run_operations ops p))) = messages p"
proof (cases "list_ex is_removal ops")
  case True
  then show ?thesis
    using rollback_messages_lookup [OF assms, of ops] map_by_keys [of "messages p"] assms
    by (simp add: rollback_def Let_def wf_projection_def keyed_by_def)
next
  case False
  have "restore (prior_messages p ops) (messages (fst (run_operations ops p))) = messages p"
  proof (rule map_eqI)
    show "distinct (map_keys (restore (prior_messages p ops) (messages (fst (run_operations ops p)))))"
      using wf_run_operations [OF assms, of ops]
      by (intro restore_distinct) (simp add: wf_projection_def keyed_by_def)
  qed (use rollback_messages_lookup [OF assms] rollback_messages_keys [OF assms False] in simp_all)
  with False show ?thesis by (simp add: rollback_def Let_def)
qed

text \<open>Same messages in the same order, and every turn with the same value.\<close>

definition same_transcript :: "projection \<Rightarrow> projection \<Rightarrow> bool" where
  "same_transcript p q \<longleftrightarrow> messages p = messages q \<and> map_of (turns p) = map_of (turns q)"

lemma rollback_same:
  "wf_projection p \<Longrightarrow> same_transcript (rollback p ops (fst (run_operations ops p))) p"
  using rollback_messages [of p ops] rollback_turns_lookup [of p ops]
  by (simp add: same_transcript_def) (simp add: rollback_def Let_def)

lemma apply_batch_rollback:
  "apply_batch ops p = (q, Some e) \<Longrightarrow> q = rollback p ops (fst (run_operations ops p))"
  by (auto simp: apply_batch_def split: prod.splits option.splits)

text \<open>
  C1. A refused batch exposes nothing: after an error the messages are exactly the messages
  before the batch, in the same display order, and every turn has the value it had before.
\<close>

theorem apply_batch_atomic:
  assumes "wf_projection p" and "apply_batch ops p = (q, Some e)"
  shows "messages q = messages p \<and> map_of (turns q) = map_of (turns p)"
  using rollback_same [OF assms(1), of ops] apply_batch_rollback [OF assms(2)]
  by (simp add: same_transcript_def)

definition sample_refused :: "operation list" where
  "sample_refused =
     [MessageCreate (sample_message\<lparr>m_id := js ''m2''\<rparr>), MessagesRemove [js ''m1''],
      ContentConfirm (js ''m9'') (CText [])]"

lemma sample_refused_batch:
  "apply_batch sample_refused sample_projection =
     (rollback sample_projection sample_refused (fst (run_operations sample_refused sample_projection)),
      Some (UnknownMessage (js ''m9'')))"
  by (simp add: apply_batch_def sample_refused_def sample_projection_def apply_message_create_def
      map_has_def apply_messages_remove_def edit_defs with_message_def require_message_def sample_message_def)

theorem apply_batch_atomic_witness:
  "\<exists>q. apply_batch sample_refused sample_projection = (q, Some (UnknownMessage (js ''m9'')))
     \<and> messages q = messages sample_projection"
  using apply_batch_atomic [OF wf_sample sample_refused_batch] sample_refused_batch by blast

text \<open>
  The order of the turns is not restored: a turn that the batch dropped with its root message
  comes back at the end.
\<close>

definition sample_two_turns :: projection where
  "sample_two_turns = sample_projection\<lparr>turns := turns sample_projection @
     [(js ''t2'', \<lparr>t_id = js ''t2'', t_root = None, t_collaboration = True, t_started = js ''t'',
       t_status = Running, t_usage = None, t_duration = None\<rparr>)]\<rparr>"

lemma refused_batch_turn_order:
  "wf_projection sample_two_turns
   \<and> snd (apply_batch [MessagesRemove [js ''m1''], ContentConfirm (js ''m9'') (CText [])] sample_two_turns)
      = Some (UnknownMessage (js ''m9''))
   \<and> map_keys (turns sample_two_turns) = [js ''t1'', js ''t2'']
   \<and> map_keys (turns (fst (apply_batch [MessagesRemove [js ''m1''], ContentConfirm (js ''m9'') (CText [])]
        sample_two_turns))) = [js ''t2'', js ''t1'']"
  by (simp add: sample_two_turns_def sample_projection_def sample_message_def wf_projection_def keyed_by_def
      apply_batch_def rollback_def restore_def prior_turns_def prior_messages_def remember_def map_has_def
      apply_messages_remove_def edit_defs with_message_def require_message_def)

end
