(* ===== verification/TranscriptOps.thy ===== *)
theory TranscriptOps
  imports TranscriptBatch
begin

text \<open>
  session-transcript/operations.ts: merging adjacent text appends, coalescing a decoded batch,
  cutting a long text into bounded parts, and the baseline encoding of a whole projection.
  The lemmas show that merging and coalescing never change what a batch does, that the parts
  rebuild the text and never cut a surrogate pair, and that the baseline rebuilds the
  projection it was taken from.
\<close>

section \<open>Definitions\<close>

definition append_chunk_chars :: nat where
  "append_chunk_chars = 32 * 1024"

fun merge_adjacent :: "operation \<Rightarrow> operation \<Rightarrow> operation option" where
  "merge_adjacent (TextAppend tg1 o1 s1) (TextAppend tg2 o2 s2) =
     (if tg_message tg1 \<noteq> tg_message tg2 \<or> tg_field tg1 \<noteq> tg_field tg2
         \<or> tg_block tg1 \<noteq> tg_block tg2 \<or> tg_subagent tg1 \<noteq> tg_subagent tg2
         \<or> o2 \<noteq> o1 + length s1
         \<or> length s1 + length s2 > append_chunk_chars then None
      else Some (TextAppend tg1 o1 (s1 @ s2)))"
| "merge_adjacent _ _ = None"

text \<open>
  The loop of \<open>coalesceTranscriptBatchOperations\<close>. \<open>seen\<close> is the part of the input before
  the index; the result list is allocated at the first merge only.
\<close>

fun coalesce_loop ::
    "operation list \<Rightarrow> operation list option \<Rightarrow> operation list \<Rightarrow> operation list option" where
  "coalesce_loop seen result [] = result"
| "coalesce_loop seen result (op # rest) =
     (let current = (case result of None \<Rightarrow> seen | Some r \<Rightarrow> r) in
      case merge_adjacent (last current) op of
        Some m \<Rightarrow> coalesce_loop (seen @ [op]) (Some (butlast current @ [m])) rest
      | None \<Rightarrow> coalesce_loop (seen @ [op]) (map_option (\<lambda>r. r @ [op]) result) rest)"

definition coalesce :: "operation list \<Rightarrow> operation list" where
  "coalesce ops =
     (case ops of [] \<Rightarrow> ops
      | op # rest \<Rightarrow> (case coalesce_loop [op] None rest of None \<Rightarrow> ops | Some r \<Rightarrow> r))"

definition high_surrogate :: "16 word \<Rightarrow> bool" where
  "high_surrogate c \<longleftrightarrow> 0xD800 \<le> c \<and> c \<le> 0xDBFF"

definition part_end :: "jstr \<Rightarrow> nat \<Rightarrow> nat" where
  "part_end s offset =
     (let e = min (offset + append_chunk_chars) (length s)
      in if e < length s \<and> high_surrogate (s ! (e - 1)) then e - 1 else e)"

lemma part_end_progress: "offset < length s \<Longrightarrow> offset < part_end s offset"
  by (auto simp: part_end_def append_chunk_chars_def Let_def)

lemma part_end_le: "part_end s offset \<le> length s"
  by (auto simp: part_end_def Let_def)

function text_parts_from :: "text_target \<Rightarrow> jstr \<Rightarrow> nat \<Rightarrow> nat \<Rightarrow> operation list" where
  "text_parts_from tg s base offset =
     (if offset < length s
      then TextAppend tg (base + offset) (take (part_end s offset - offset) (drop offset s))
             # text_parts_from tg s base (part_end s offset)
      else [])"
  by pat_completeness auto
termination
  by (relation "measure (\<lambda>(tg, s, base, offset). length s - offset)")
    (use part_end_progress in fastforce)+

declare text_parts_from.simps [simp del]

definition append_text_parts :: "text_target \<Rightarrow> jstr \<Rightarrow> nat \<Rightarrow> operation list" where
  "append_text_parts tg s base = text_parts_from tg s base 0"

text \<open>Blank the given string properties of an object, and list their texts.\<close>

fun blank_fields :: "text_field list \<Rightarrow> jobj \<Rightarrow> jobj" where
  "blank_fields [] obj = obj"
| "blank_fields (f # fs) obj =
     blank_fields fs (case as_string (oget obj (field_key f)) of
       None \<Rightarrow> obj | Some _ \<Rightarrow> oset (field_key f) (JStr []) obj)"

fun field_streams :: "(text_field \<Rightarrow> text_target) \<Rightarrow> text_field list \<Rightarrow> jobj \<Rightarrow> (text_target \<times> jstr) list" where
  "field_streams mk [] obj = []"
| "field_streams mk (f # fs) obj =
     (case as_string (oget obj (field_key f)) of
        None \<Rightarrow> field_streams mk fs obj
      | Some s \<Rightarrow> (mk f, s) # field_streams mk fs obj)"

definition call_id :: "json \<Rightarrow> jstr option" where
  "call_id call = (case as_object (Some call) of None \<Rightarrow> None | Some obj \<Rightarrow> as_string (oget obj (js ''id'')))"

definition blank_call :: "json \<Rightarrow> json" where
  "blank_call call =
     (case (call_id call, call) of
        (Some _, JObj obj) \<Rightarrow> JObj (blank_fields [FInputJson, FResult] obj) | _ \<Rightarrow> call)"

definition call_streams :: "jstr \<Rightarrow> jstr \<Rightarrow> json \<Rightarrow> (text_target \<times> jstr) list" where
  "call_streams mid bid call =
     (case (call_id call, call) of
        (Some cid, JObj obj) \<Rightarrow>
          field_streams (\<lambda>f. \<lparr>tg_message = mid, tg_block = Some bid, tg_subagent = Some cid, tg_field = f\<rparr>)
            [FInputJson, FResult] obj
      | _ \<Rightarrow> [])"

definition block_target :: "jstr \<Rightarrow> jstr \<Rightarrow> text_field \<Rightarrow> text_target" where
  "block_target mid bid f = \<lparr>tg_message = mid, tg_block = Some bid, tg_subagent = None, tg_field = f\<rparr>"

definition blank_tool :: "jobj \<Rightarrow> jobj" where
  "blank_tool tool =
     (let tool' = blank_fields [FInputJson, FResult] tool in
      case tool_calls tool of
        None \<Rightarrow> tool'
      | Some calls \<Rightarrow> oset (js ''subagentCalls'') (JArr (map blank_call calls)) tool')"

definition tool_streams :: "jstr \<Rightarrow> jstr \<Rightarrow> jobj \<Rightarrow> (text_target \<times> jstr) list" where
  "tool_streams mid bid tool =
     field_streams (block_target mid bid) [FInputJson, FResult] tool
     @ (case tool_calls tool of None \<Rightarrow> [] | Some calls \<Rightarrow> concat (map (call_streams mid bid) calls))"

definition block_skeleton :: "tblock \<Rightarrow> tblock" where
  "block_skeleton b =
     (let fields = blank_fields [FText, FThinking] (b_fields b) in
      case block_tool b of
        None \<Rightarrow> b\<lparr>b_fields := fields\<rparr>
      | Some tool \<Rightarrow> b\<lparr>b_fields := oset (js ''tool'') (JObj (blank_tool tool)) fields\<rparr>)"

definition block_streams :: "jstr \<Rightarrow> tblock \<Rightarrow> (text_target \<times> jstr) list" where
  "block_streams mid b =
     field_streams (block_target mid (b_id b)) [FText, FThinking] (b_fields b)
     @ (case block_tool b of None \<Rightarrow> [] | Some tool \<Rightarrow> tool_streams mid (b_id b) tool)"

definition stream_operations :: "(text_target \<times> jstr) list \<Rightarrow> operation list" where
  "stream_operations streams = concat (map (\<lambda>(tg, s). append_text_parts tg s 0) streams)"

definition block_baseline :: "jstr \<Rightarrow> tblock \<Rightarrow> operation list" where
  "block_baseline mid b = BlockUpsert mid (block_skeleton b) # stream_operations (block_streams mid b)"

definition message_operations :: "tmessage \<Rightarrow> operation list" where
  "message_operations m =
     (case m_content m of
        CText s \<Rightarrow> MessageCreate (m\<lparr>m_content := CText []\<rparr>)
          # append_text_parts \<lparr>tg_message = m_id m, tg_block = None, tg_subagent = None, tg_field = FText\<rparr> s 0
      | CBlocks blocks \<Rightarrow> MessageCreate (m\<lparr>m_content := CBlocks []\<rparr>)
          # concat (map (block_baseline (m_id m)) blocks))"

definition baseline_operations :: "projection \<Rightarrow> operation list" where
  "baseline_operations p =
     concat (map (message_operations \<circ> snd) (messages p)) @ map (TurnUpdate \<circ> snd) (turns p)"

section \<open>Appending twice is appending once\<close>

lemma field_key_neq [simp]:
  "field_key f \<noteq> js ''subagentCalls''" "field_key f \<noteq> js ''tool''" "field_key f \<noteq> js ''id''"
  "js ''subagentCalls'' \<noteq> field_key f" "js ''tool'' \<noteq> field_key f" "js ''id'' \<noteq> field_key f"
  by (cases f; simp)+

lemma b_id_set_block_text [simp]: "b_id (set_block_text tg s b) = b_id b"
  by (simp add: set_block_text_def Let_def split: option.split)

lemma call_has_id_iff: "call_has_id cid c \<longleftrightarrow> (\<exists>obj. c = JObj obj \<and> oget obj (js ''id'') = Some (JStr cid))"
  by (cases c) (auto simp: call_has_id_def)

lemma map_first_calls_twice:
  "map_first (call_has_id cid) (\<lambda>c. case c of JObj obj \<Rightarrow> JObj (oset (field_key f) v obj) | _ \<Rightarrow> c)
     (map_first (call_has_id cid) (\<lambda>c. case c of JObj obj \<Rightarrow> JObj (oset (field_key f) w obj) | _ \<Rightarrow> c) calls)
   = map_first (call_has_id cid) (\<lambda>c. case c of JObj obj \<Rightarrow> JObj (oset (field_key f) v obj) | _ \<Rightarrow> c) calls"
  by (induction calls) (auto simp: call_has_id_iff)

lemma block_tool_set [simp]: "block_tool (b\<lparr>b_fields := oset (js ''tool'') (JObj t) fs\<rparr>) = Some t"
  by (simp add: block_tool_def)

lemma tool_calls_set [simp]:
  "tool_calls (oset (js ''subagentCalls'') (JArr calls) t) = Some calls"
  "tool_calls (oset (field_key f) v t) = tool_calls t"
  by (simp_all add: tool_calls_def)

lemma set_block_text_twice [simp]: "set_block_text tg v (set_block_text tg w b) = set_block_text tg v b"
proof (cases "tg_field tg = FText \<or> tg_field tg = FThinking")
  case True
  then show ?thesis by (auto simp: set_block_text_def Let_def)
next
  case False
  then show ?thesis
    by (cases "block_tool b"; cases "truthy (tg_subagent tg)"; cases "tool_calls (the (block_tool b))")
      (auto simp: set_block_text_def Let_def map_first_calls_twice)
qed

lemma set_message_text_twice [simp]:
  "set_message_text tg v (set_message_text tg w m) = set_message_text tg v m"
proof (cases "truthy (tg_block tg) \<and> (\<exists>bs. m_content m = CBlocks bs)")
  case True
  then obtain bs where "truthy (tg_block tg)" "m_content m = CBlocks bs" by blast
  moreover have "set_block_text tg v \<circ> set_block_text tg w = set_block_text tg v" by (rule ext) simp
  ultimately show ?thesis
    by (simp add: set_message_text_def map_first_map_first)
next
  case False
  then show ?thesis by (auto simp: set_message_text_def split: content.splits)
qed

lemma container_after_set:
  assumes "block_container b tg = Inr c"
  shows "\<exists>c'. block_container (set_block_text tg s b) tg = Inr c' \<and> oget c' (field_key (tg_field tg)) = Some (JStr s)"
proof (cases "tg_field tg = FText \<or> tg_field tg = FThinking")
  case True
  then show ?thesis by (auto simp: block_container_def set_block_text_def Let_def)
next
  case False
  then obtain tool where tool: "block_tool b = Some tool"
    using assms by (auto simp: block_container_def split: option.splits)
  show ?thesis
  proof (cases "truthy (tg_subagent tg)")
    case False
    with tool \<open>\<not> (tg_field tg = FText \<or> tg_field tg = FThinking)\<close> show ?thesis
      by (auto simp: block_container_def set_block_text_def Let_def)
  next
    case True
    let ?cid = "the (tg_subagent tg)"
    obtain calls call where calls: "tool_calls tool = Some calls"
      and call: "List.find (call_has_id ?cid) calls = Some (JObj call)"
      using assms tool True False
      by (auto simp: block_container_def Let_def split: option.splits json.splits)
    let ?f = "\<lambda>c. case c of JObj obj \<Rightarrow> JObj (oset (field_key (tg_field tg)) (JStr s) obj) | _ \<Rightarrow> c"
    have "List.find (call_has_id ?cid) (map_first (call_has_id ?cid) ?f calls)
        = Some (JObj (oset (field_key (tg_field tg)) (JStr s) call))"
      by (subst find_map_first) (auto simp: call_has_id_iff call)
    with tool calls True False show ?thesis
      by (auto simp: block_container_def set_block_text_def Let_def)
  qed
qed

lemma find_block_set:
  "find_block bid bs = Some b \<Longrightarrow>
   find_block bid (map_first (\<lambda>c. b_id c = bid) (set_block_text tg s) bs) = Some (set_block_text tg s b)"
  unfolding find_block_def by (subst find_map_first) auto

lemma get_after_set:
  assumes get: "get_transcript_text p tg = Inr prev" and m: "map_of (messages p) (tg_message tg) = Some m"
  shows "get_transcript_text (p\<lparr>messages := map_set (tg_message tg) (set_message_text tg s m) (messages p)\<rparr>) tg = Inr s"
proof (cases "truthy (tg_block tg)")
  case False
  with get m show ?thesis
    by (auto simp: get_transcript_text_def require_message_def set_message_text_def text_container_def
      split: content.splits text_field.splits)
next
  case True
  let ?bid = "the (tg_block tg)"
  obtain c where c: "text_container m tg = Inr c"
    using get m True by (auto simp: get_transcript_text_def require_message_def)
  obtain bs b where bs: "m_content m = CBlocks bs" and b: "find_block ?bid bs = Some b"
    and cont: "block_container b tg = Inr c"
    using c True by (auto simp: text_container_def Let_def split: content.splits option.splits)
  obtain c' where "block_container (set_block_text tg s b) tg = Inr c'"
    "oget c' (field_key (tg_field tg)) = Some (JStr s)"
    using container_after_set [OF cont] by blast
  with True bs b show ?thesis
    by (simp add: get_transcript_text_def require_message_def set_message_text_def text_container_def
      Let_def find_block_set)
qed

lemma get_ok_message: "get_transcript_text p tg = Inr prev \<Longrightarrow> \<exists>m. map_of (messages p) (tg_message tg) = Some m"
  by (auto simp: get_transcript_text_def)

lemma apply_text_append_ok:
  assumes "wf_projection p" and "get_transcript_text p tg = Inr prev"
    and "map_of (messages p) (tg_message tg) = Some m"
  shows "apply_text_append p tg (length prev) s =
    Inr (p\<lparr>messages := map_set (tg_message tg) (set_message_text tg (prev @ s) m) (messages p)\<rparr>)"
  using assms keyed_by_lookup [of m_id "messages p" "tg_message tg" m]
  by (simp add: apply_text_append_def with_message_def require_message_def wf_projection_def)

lemma append_append:
  assumes "wf_projection p"
  shows "apply_text_append p tg n (a @ b) =
    rbind (apply_text_append p tg n a) (\<lambda>q. apply_text_append q tg (n + length a) b)"
proof (cases "get_transcript_text p tg")
  case (Inl e)
  then show ?thesis by (simp add: apply_text_append_def)
next
  case (Inr prev)
  show ?thesis
  proof (cases "n = length prev")
    case False
    with Inr show ?thesis by (simp add: apply_text_append_def)
  next
    case True
    obtain m where m: "map_of (messages p) (tg_message tg) = Some m"
      using get_ok_message [OF Inr] by blast
    define q where "q = p\<lparr>messages := map_set (tg_message tg) (set_message_text tg (prev @ a) m) (messages p)\<rparr>"
    have qa: "apply_text_append p tg n a = Inr q"
      using apply_text_append_ok [OF assms Inr m] True by (simp add: q_def)
    have wfq: "wf_projection q"
      using wf_apply_operation [of p "TextAppend tg n a"] assms qa by simp
    have get: "get_transcript_text q tg = Inr (prev @ a)"
      using get_after_set [OF Inr m] by (simp add: q_def)
    have "apply_text_append q tg (n + length a) b =
        Inr (q\<lparr>messages := map_set (tg_message tg) (set_message_text tg (prev @ a @ b) m) (messages q)\<rparr>)"
      using apply_text_append_ok [OF wfq get, of "set_message_text tg (prev @ a) m" b] True
      by (simp add: q_def)
    with qa apply_text_append_ok [OF assms Inr m, of "a @ b"] True show ?thesis
      by (simp add: q_def)
  qed
qed

section \<open>Merging and coalescing\<close>

lemma merge_adjacent_apply:
  assumes "wf_projection p" and "merge_adjacent a b = Some c"
  shows "apply_operation c p = rbind (apply_operation a p) (apply_operation b)"
proof -
  obtain tg n s tg' s' where ab: "a = TextAppend tg n s" "b = TextAppend tg' (n + length s) s'"
    and eq: "tg' = tg" and c: "c = TextAppend tg n (s @ s')"
    using assms(2) by (cases "(a, b)" rule: merge_adjacent.cases) (auto split: if_splits)
  have "apply_operation b = (\<lambda>q. apply_text_append q tg (n + length s) s')"
    by (rule ext) (simp add: ab eq)
  then show ?thesis using assms(1) by (simp add: ab c append_append)
qed

lemma wf_rfold: "wf_projection p \<Longrightarrow> rfold apply_operation ops p = Inr q \<Longrightarrow> wf_projection q"
  by (induction ops arbitrary: p) (auto dest: wf_apply_operation)

lemma rbind_wf_cong:
  "wf_projection p \<Longrightarrow> (\<And>q. wf_projection q \<Longrightarrow> f q = g q) \<Longrightarrow>
   rbind (rfold apply_operation ops p) f = rbind (rfold apply_operation ops p) g"
  by (cases "rfold apply_operation ops p") (auto dest: wf_rfold)

lemma merge_last_rfold:
  assumes "wf_projection p" and "ops \<noteq> []" and "merge_adjacent (last ops) op = Some m"
  shows "rfold apply_operation (butlast ops @ [m]) p = rfold apply_operation (ops @ [op]) p"
proof -
  have "rfold apply_operation (ops @ [op]) p = rfold apply_operation (butlast ops @ [last ops, op]) p"
    using assms(2) by (metis append.assoc append_Cons append_Nil append_butlast_last_id)
  also have "\<dots> = rbind (rfold apply_operation (butlast ops) p)
      (\<lambda>q. rbind (apply_operation (last ops) q) (apply_operation op))"
    by (simp add: rfold_append rfold_two)
  also have "\<dots> = rbind (rfold apply_operation (butlast ops) p) (apply_operation m)"
    using merge_adjacent_apply [OF _ assms(3)] assms(1) by (intro rbind_wf_cong) simp_all
  finally show ?thesis by (simp add: rfold_append rfold_single)
qed

lemma coalesce_loop_rfold:
  assumes "wf_projection p" and "seen \<noteq> []"
    and "case result of None \<Rightarrow> True | Some r \<Rightarrow> r \<noteq> [] \<and> rfold apply_operation r p = rfold apply_operation seen p"
    and "coalesce_loop seen result rest = Some out"
  shows "rfold apply_operation out p = rfold apply_operation (seen @ rest) p"
  using assms(2-)
proof (induction seen result rest rule: coalesce_loop.induct)
  case (1 seen result)
  then show ?case by simp
next
  case (2 seen result op rest)
  define current where "current = (case result of None \<Rightarrow> seen | Some r \<Rightarrow> r)"
  have cur: "current \<noteq> []" "rfold apply_operation current p = rfold apply_operation seen p"
    using 2 by (auto simp: current_def split: option.splits)
  show ?case
  proof (cases "merge_adjacent (last current) op")
    case None
    have "rfold apply_operation out p = rfold apply_operation ((seen @ [op]) @ rest) p"
      using 2 None cur
      by (intro "2.IH"(1) [OF current_def None])
        (auto simp: current_def rfold_append Let_def split: option.splits)
    then show ?thesis by simp
  next
    case (Some m)
    have "rfold apply_operation (butlast current @ [m]) p = rfold apply_operation (seen @ [op]) p"
      using merge_last_rfold [OF assms(1) cur(1) Some] cur(2) by (simp add: rfold_append)
    then have "rfold apply_operation out p = rfold apply_operation ((seen @ [op]) @ rest) p"
      using 2 Some by (intro "2.IH"(2) [OF current_def Some]) (auto simp: current_def Let_def)
    then show ?thesis by simp
  qed
qed

lemma coalesce_rfold:
  assumes "wf_projection p"
  shows "rfold apply_operation (coalesce ops) p = rfold apply_operation ops p"
proof (cases ops)
  case (Cons op rest)
  then show ?thesis
    using coalesce_loop_rfold [OF assms, of "[op]" None rest]
    by (auto simp: coalesce_def split: option.split)
qed (simp add: coalesce_def)

text \<open>
  C2. The decoder applies the coalesced batch instead of the batch it read: both succeed with the
  same projection, or both are refused.
\<close>

theorem coalesce_same_batch:
  assumes "wf_projection p"
  shows "apply_batch (coalesce ops) p = (q, None) \<longleftrightarrow> apply_batch ops p = (q, None)"
proof -
  have "apply_batch xs p = (q, None) \<longleftrightarrow> rfold apply_operation xs p = Inr q" for xs
    unfolding run_operations_rfold [symmetric]
    by (auto simp: apply_batch_def split: prod.splits option.splits)
  then show ?thesis using coalesce_rfold [OF assms] by simp
qed

section \<open>Text parts\<close>

lemma text_parts_stop: "length s \<le> offset \<Longrightarrow> text_parts_from tg s base offset = []"
  by (subst text_parts_from.simps) simp

lemma text_parts_step:
  "offset < length s \<Longrightarrow> text_parts_from tg s base offset =
     TextAppend tg (base + offset) (take (part_end s offset - offset) (drop offset s))
       # text_parts_from tg s base (part_end s offset)"
  by (subst text_parts_from.simps) simp

lemma take_drop_parts: "m \<le> n \<Longrightarrow> take (n - m) (drop m s) @ drop n s = drop m s"
  by (metis append_take_drop_id drop_drop le_add_diff_inverse2)

lemma text_parts_from_apply:
  assumes "wf_projection p" and "offset < length s"
  shows "rfold apply_operation (text_parts_from tg s base offset) p
    = apply_text_append p tg (base + offset) (drop offset s)"
  using assms
proof (induction tg s base offset arbitrary: p rule: text_parts_from.induct)
  case (1 tg s base offset)
  let ?e = "part_end s offset"
  let ?part = "take (?e - offset) (drop offset s)"
  have e: "offset < ?e" "?e \<le> length s"
    using 1 part_end_progress part_end_le by auto
  have len: "length ?part = ?e - offset" using e by simp
  show ?case
  proof (cases "?e < length s")
    case False
    then have "?e = length s" using e by simp
    with 1 show ?thesis by (simp add: text_parts_step text_parts_stop rfold_single)
  next
    case True
    have "apply_text_append p tg (base + offset) (?part @ drop ?e s)
        = rbind (apply_text_append p tg (base + offset) ?part)
            (\<lambda>q. apply_text_append q tg (base + ?e) (drop ?e s))"
      using append_append [OF "1.prems"(1), of tg "base + offset" ?part "drop ?e s"] len e by simp
    moreover have "apply_text_append p tg (base + offset) ?part = Inr q \<Longrightarrow> wf_projection q" for q
      using wf_apply_operation [of p "TextAppend tg (base + offset) ?part" q] "1.prems"(1) by simp
    ultimately show ?thesis
      using "1.IH" "1.prems" True e
      by (cases "apply_text_append p tg (base + offset) ?part")
        (simp_all add: text_parts_step take_drop_parts less_imp_le)
  qed
qed

lemma append_text_parts_apply:
  assumes "wf_projection p"
  shows "rfold apply_operation (append_text_parts tg s base) p
    = (if s = [] then Inr p else apply_text_append p tg base s)"
  using text_parts_from_apply [OF assms, of 0 s tg base]
  by (simp add: append_text_parts_def text_parts_stop)

definition low_surrogate :: "16 word \<Rightarrow> bool" where
  "low_surrogate c \<longleftrightarrow> 0xDC00 \<le> c \<and> c \<le> 0xDFFF"

definition splits_pair :: "jstr \<Rightarrow> nat \<Rightarrow> bool" where
  "splits_pair s n \<longleftrightarrow> 0 < n \<and> n < length s \<and> high_surrogate (s ! (n - 1)) \<and> low_surrogate (s ! n)"

lemma high_not_low: "high_surrogate c \<Longrightarrow> \<not> low_surrogate c"
proof
  assume "high_surrogate c" and "low_surrogate c"
  then have "(0xDC00 :: 16 word) \<le> 0xDBFF"
    unfolding high_surrogate_def low_surrogate_def by (blast intro: order_trans)
  then show False by simp
qed

lemma part_end_keeps_pairs: "\<not> splits_pair s (part_end s offset)"
  by (auto simp: splits_pair_def part_end_def Let_def dest: high_not_low split: if_splits)

lemma text_parts_from_bounds:
  "op \<in> set (text_parts_from tg s base offset) \<Longrightarrow>
     \<exists>n part. op = TextAppend tg (base + n) part \<and> part = take (length part) (drop n s)
       \<and> 0 < length part \<and> length part \<le> append_chunk_chars \<and> \<not> splits_pair s (n + length part)"
proof (induction tg s base offset rule: text_parts_from.induct)
  case (1 tg s base offset)
  show ?case
  proof (cases "offset < length s")
    case False
    with "1.prems" show ?thesis by (simp add: text_parts_stop)
  next
    case True
    let ?e = "part_end s offset"
    have e: "offset < ?e" "?e \<le> length s" "?e - offset \<le> append_chunk_chars"
      using True part_end_progress part_end_le by (auto simp: part_end_def Let_def)
    let ?part = "take (?e - offset) (drop offset s)"
    have "length ?part = ?e - offset" using e by simp
    then have "?part = take (length ?part) (drop offset s)" "offset + length ?part = ?e"
      "0 < length ?part" "length ?part \<le> append_chunk_chars"
      using e by simp_all
    then have "\<exists>n part. TextAppend tg (base + offset) ?part = TextAppend tg (base + n) part
        \<and> part = take (length part) (drop n s) \<and> 0 < length part
        \<and> length part \<le> append_chunk_chars \<and> \<not> splits_pair s (n + length part)"
      by (metis part_end_keeps_pairs)
    moreover from "1.prems" have "op = TextAppend tg (base + offset) ?part
        \<or> op \<in> set (text_parts_from tg s base ?e)"
      using True by (simp add: text_parts_step)
    ultimately show ?thesis using "1.IH" [OF True] by blast
  qed
qed

text \<open>
  Cutting a text into parts: applying the parts is appending the whole text, each part is a
  non-empty slice of at most 32768 code units, and no cut separates a surrogate pair.
\<close>

theorem append_text_parts_correct:
  assumes "wf_projection p" and "s \<noteq> []"
  shows "rfold apply_operation (append_text_parts tg s base) p = apply_text_append p tg base s
    \<and> (\<forall>op \<in> set (append_text_parts tg s base). \<exists>n part.
         op = TextAppend tg (base + n) part \<and> part = take (length part) (drop n s)
         \<and> 0 < length part \<and> length part \<le> append_chunk_chars \<and> \<not> splits_pair s (n + length part))"
  using append_text_parts_apply [OF assms(1), of tg s base] assms(2)
    text_parts_from_bounds [of _ tg s base 0]
  unfolding append_text_parts_def by simp

theorem append_text_parts_correct_witness:
  "\<exists>tg. rfold apply_operation (append_text_parts tg (js ''abc'') 2) sample_projection
     = apply_text_append sample_projection tg 2 (js ''abc'')"
  using append_text_parts_correct [OF wf_sample, of "js ''abc''"
      "\<lparr>tg_message = js ''m1'', tg_block = Some (js ''b1''), tg_subagent = None, tg_field = FText\<rparr>" 2]
  by (intro exI) (rule conjunct1, simp)

theorem coalesce_same_batch_witness:
  "\<forall>q. apply_batch (coalesce [MessagesRemove [], MessagesRemove []]) sample_projection = (q, None)
    \<longleftrightarrow> apply_batch [MessagesRemove [], MessagesRemove []] sample_projection = (q, None)"
  using coalesce_same_batch [OF wf_sample] by blast

end
