(* ===== verification/TranscriptBaseline.thy ===== *)
theory TranscriptBaseline
  imports TranscriptOps
begin

text \<open>
  The baseline of a projection (\<open>transcriptBaselineOperations\<close>) rebuilds it exactly, key
  order included. session-transcript/file.ts compares the re-read baseline with its source
  before publishing it; the round trip says that this comparison succeeds on every
  well-formed projection.
\<close>

section \<open>Projections that a baseline can express\<close>

text \<open>
  A text target names a block and a nested call by a non-empty id and reaches the first match,
  so block ids are distinct inside a message and call ids inside a tool.
\<close>

definition calls_addressable :: "json list \<Rightarrow> bool" where
  "calls_addressable calls \<longleftrightarrow>
     distinct (List.map_filter call_id calls) \<and> list_all (\<lambda>c. call_id c \<noteq> Some []) calls"

definition block_addressable :: "tblock \<Rightarrow> bool" where
  "block_addressable b \<longleftrightarrow> b_id b \<noteq> [] \<and>
     (case block_tool b of None \<Rightarrow> True | Some tool \<Rightarrow>
       (case tool_calls tool of None \<Rightarrow> True | Some calls \<Rightarrow> calls_addressable calls))"

definition message_addressable :: "tmessage \<Rightarrow> bool" where
  "message_addressable m \<longleftrightarrow>
     (case m_content m of CText _ \<Rightarrow> True
      | CBlocks bs \<Rightarrow> distinct (map b_id bs) \<and> list_all block_addressable bs)"

definition addressable :: "projection \<Rightarrow> bool" where
  "addressable p \<longleftrightarrow> wf_projection p \<and> list_all (message_addressable \<circ> snd) (messages p)"

section \<open>Filling the skeleton of a block\<close>

lemma oset_commute:
  "k \<noteq> k' \<Longrightarrow> oget obj k \<noteq> None \<Longrightarrow> oset k v (oset k' w obj) = oset k' w (oset k v obj)"
  by (induction obj) (auto simp: oset_def split: if_splits)

lemma oset_commute2:
  "k \<noteq> k' \<Longrightarrow> oget obj k' \<noteq> None \<Longrightarrow> oset k v (oset k' w obj) = oset k' w (oset k v obj)"
  by (induction obj) (auto simp: oset_def split: if_splits)

definition text_at :: "tblock \<Rightarrow> text_target \<Rightarrow> jstr \<Rightarrow> bool" where
  "text_at b tg v \<longleftrightarrow>
     (\<exists>c. block_container b tg = Inr c \<and> oget c (field_key (tg_field tg)) = Some (JStr v))"

fun fills :: "(text_target \<times> jstr) list \<Rightarrow> tblock \<Rightarrow> tblock \<Rightarrow> bool" where
  "fills [] b b' \<longleftrightarrow> b' = b"
| "fills ((tg, s) # streams) b b' \<longleftrightarrow> text_at b tg [] \<and> fills streams (set_block_text tg s b) b'"

lemma fills_append: "fills (xs @ ys) b b' \<longleftrightarrow> (\<exists>c. fills xs b c \<and> fills ys c b')"
  by (induction xs b b' rule: fills.induct) auto

lemma map_first_same:
  "List.find P xs = Some x \<Longrightarrow> f x = x \<Longrightarrow> map_first P f xs = xs"
  by (induction xs) (auto split: if_splits)

lemma set_block_text_same:
  assumes "text_at b tg v"
  shows "set_block_text tg v b = b"
proof (cases "tg_field tg = FText \<or> tg_field tg = FThinking")
  case True
  with assms show ?thesis
    by (auto simp: text_at_def block_container_def set_block_text_def Let_def oset_same)
next
  case False
  then obtain tool where tool: "block_tool b = Some tool"
    using assms by (auto simp: text_at_def block_container_def split: option.splits)
  then have b: "oget (b_fields b) (js ''tool'') = Some (JObj tool)"
    by (simp add: block_tool_def as_object_eq_Some)
  show ?thesis
  proof (cases "truthy (tg_subagent tg)")
    case sub: False
    with assms tool False b show ?thesis
      by (auto simp: text_at_def block_container_def set_block_text_def Let_def oset_same)
  next
    case sub: True
    let ?cid = "the (tg_subagent tg)"
    obtain calls call where calls: "tool_calls tool = Some calls"
      and call: "List.find (call_has_id ?cid) calls = Some (JObj call)"
      "oget call (field_key (tg_field tg)) = Some (JStr v)"
      using assms tool sub False
      by (auto simp: text_at_def block_container_def Let_def split: option.splits json.splits)
    have "oget tool (js ''subagentCalls'') = Some (JArr calls)"
      using calls by (simp add: tool_calls_def as_array_eq_Some)
    moreover have "map_first (call_has_id ?cid)
        (\<lambda>c. case c of JObj obj \<Rightarrow> JObj (oset (field_key (tg_field tg)) (JStr v) obj) | _ \<Rightarrow> c) calls = calls"
      by (rule map_first_same [OF call(1)]) (simp add: call(2) oset_same)
    ultimately show ?thesis
      using tool sub False b calls by (simp add: set_block_text_def Let_def oset_same)
  qed
qed

lemma field_key_inj [simp]: "field_key f = field_key g \<longleftrightarrow> f = g"
  by (cases f; cases g) simp_all

text \<open>
  Two string properties of one object inside the block, seen through \<open>L\<close> that rebuilds the
  block around the object: blanking them and writing the texts back gives the object again.
\<close>

lemma fills_two:
  assumes fg: "f \<noteq> g" and P: "P obj"
    and keep: "\<And>h v x. h \<in> {f, g} \<Longrightarrow> P x \<Longrightarrow> P (oset (field_key h) v x)"
    and put: "\<And>h v x. h \<in> {f, g} \<Longrightarrow> P x \<Longrightarrow> set_block_text (mk h) v (L x) = L (oset (field_key h) (JStr v) x)"
    and read: "\<And>h v x. h \<in> {f, g} \<Longrightarrow> P x \<Longrightarrow> oget x (field_key h) = Some (JStr v) \<Longrightarrow> text_at (L x) (mk h) v"
  shows "fills (field_streams mk [f, g] obj) (L (blank_fields [f, g] obj)) (L obj)"
  using fg P
  by (cases "as_string (oget obj (field_key f))"; cases "as_string (oget obj (field_key g))")
    (auto simp: as_string_eq_Some put keep read oset_same oset_commute [of "field_key f" "field_key g"])

text \<open>A block whose tool is \<open>tool\<close>: its properties are \<open>fs\<close> with \<open>tool\<close> put in place.\<close>

definition with_tool :: "tblock \<Rightarrow> jobj \<Rightarrow> jobj \<Rightarrow> tblock" where
  "with_tool b fs tool = b\<lparr>b_fields := oset (js ''tool'') (JObj tool) fs\<rparr>"

lemma with_tool_simps [simp]:
  "block_tool (with_tool b fs tool) = Some tool" "b_id (with_tool b fs tool) = b_id b"
  by (simp_all add: with_tool_def)

lemma block_target_simps [simp]:
  "tg_field (block_target mid bid f) = f" "tg_message (block_target mid bid f) = mid"
  "tg_block (block_target mid bid f) = Some bid" "tg_subagent (block_target mid bid f) = None"
  by (simp_all add: block_target_def)

lemma fills_fields:
  assumes "oget fs (js ''tool'') \<noteq> None"
  shows "fills (field_streams (block_target mid bid) [FText, FThinking] fs)
    (with_tool b (blank_fields [FText, FThinking] fs) tool) (with_tool b fs tool)"
proof (rule fills_two [where P = "\<lambda>fs. oget fs (js ''tool'') \<noteq> None" and L = "\<lambda>fs. with_tool b fs tool"])
  fix h v x
  assume h: "h \<in> {FText, FThinking}" and x: "oget x (js ''tool'') \<noteq> None"
  show "set_block_text (block_target mid bid h) v (with_tool b x tool)
      = with_tool b (oset (field_key h) (JStr v) x) tool"
    using h oset_commute2 [OF _ x, of "field_key h" "JStr v" "JObj tool"]
    by (auto simp: set_block_text_def with_tool_def Let_def)
  show "text_at (with_tool b x tool) (block_target mid bid h) v"
    if "oget x (field_key h) = Some (JStr v)"
    using h that by (auto simp: text_at_def block_container_def with_tool_def)
qed (use assms in auto)

lemma fills_plain_fields:
  "fills (field_streams (block_target mid bid) [FText, FThinking] (b_fields b))
    (b\<lparr>b_fields := blank_fields [FText, FThinking] (b_fields b)\<rparr>) b"
proof -
  have "fills (field_streams (block_target mid bid) [FText, FThinking] (b_fields b))
      ((\<lambda>fs. b\<lparr>b_fields := fs\<rparr>) (blank_fields [FText, FThinking] (b_fields b)))
      ((\<lambda>fs. b\<lparr>b_fields := fs\<rparr>) (b_fields b))"
    by (rule fills_two [where P = "\<lambda>_. True"])
      (auto simp: set_block_text_def text_at_def block_container_def Let_def)
  then show ?thesis by simp
qed

lemma fills_tool:
  "fills (field_streams (block_target mid bid) [FInputJson, FResult] tool)
    (with_tool b fs (blank_fields [FInputJson, FResult] tool)) (with_tool b fs tool)"
proof (rule fills_two [where P = "\<lambda>_. True" and L = "with_tool b fs"])
  fix h v x
  assume h: "h \<in> {FInputJson, FResult}"
  show "set_block_text (block_target mid bid h) v (with_tool b fs x)
      = with_tool b fs (oset (field_key h) (JStr v) x)"
    using h by (auto simp: set_block_text_def Let_def) (auto simp: with_tool_def)
  show "text_at (with_tool b fs x) (block_target mid bid h) v"
    if "oget x (field_key h) = Some (JStr v)"
    using h that by (auto simp: text_at_def block_container_def)
qed auto

text \<open>Nested calls: the calls before position \<open>pre\<close> are filled, the others are blank.\<close>

definition with_calls :: "tblock \<Rightarrow> jobj \<Rightarrow> jobj \<Rightarrow> json list \<Rightarrow> tblock" where
  "with_calls b fs tool calls = with_tool b fs (oset (js ''subagentCalls'') (JArr calls) tool)"

definition call_target :: "jstr \<Rightarrow> jstr \<Rightarrow> jstr \<Rightarrow> text_field \<Rightarrow> text_target" where
  "call_target mid bid cid f =
     \<lparr>tg_message = mid, tg_block = Some bid, tg_subagent = Some cid, tg_field = f\<rparr>"

lemma call_id_has_id: "call_has_id cid c \<longleftrightarrow> call_id c = Some cid"
  by (cases c) (auto simp: call_has_id_iff call_id_def as_string_eq_Some)

lemma map_first_middle:
  "\<forall>c \<in> set pre. \<not> P c \<Longrightarrow> P c \<Longrightarrow> map_first P f (pre @ c # post) = pre @ f c # post"
  by (induction pre) auto

lemma find_middle: "\<forall>c \<in> set pre. \<not> P c \<Longrightarrow> P c \<Longrightarrow> List.find P (pre @ c # post) = Some c"
  by (induction pre) auto

lemma fills_call:
  assumes id: "call_id (JObj obj) = Some cid" "cid \<noteq> []"
    and pre: "\<forall>c \<in> set pre. call_id c \<noteq> Some cid"
  shows "fills (field_streams (call_target mid bid cid) [FInputJson, FResult] obj)
    (with_calls b fs tool (pre @ JObj (blank_fields [FInputJson, FResult] obj) # post))
    (with_calls b fs tool (pre @ JObj obj # post))"
proof (rule fills_two [where P = "\<lambda>x. call_id (JObj x) = Some cid"
      and L = "\<lambda>x. with_calls b fs tool (pre @ JObj x # post)"])
  fix h v x
  assume h: "h \<in> {FInputJson, FResult}" and x: "call_id (JObj x) = Some cid"
  have not_pre: "\<forall>c \<in> set pre. \<not> call_has_id cid c" using pre by (simp add: call_id_has_id)
  have here: "call_has_id cid (JObj x)" using x by (simp add: call_id_has_id)
  have eq: "map_first (call_has_id cid)
      (\<lambda>c. case c of JObj obj \<Rightarrow> JObj (oset (field_key h) (JStr v) obj) | _ \<Rightarrow> c) (pre @ JObj x # post)
      = pre @ JObj (oset (field_key h) (JStr v) x) # post"
    by (simp add: map_first_middle [OF not_pre here])
  show "set_block_text (call_target mid bid cid h) v (with_calls b fs tool (pre @ JObj x # post))
      = with_calls b fs tool (pre @ JObj (oset (field_key h) (JStr v) x) # post)"
    using h id(2) eq
    by (auto simp: set_block_text_def with_calls_def call_target_def Let_def) (auto simp: with_tool_def)
  show "text_at (with_calls b fs tool (pre @ JObj x # post)) (call_target mid bid cid h) v"
    if "oget x (field_key h) = Some (JStr v)"
    using h id(2) that
    by (auto simp: text_at_def block_container_def with_calls_def call_target_def
        find_middle [OF not_pre here])
qed (use id in \<open>auto simp: call_id_def\<close>)

lemma blank_call_JObj:
  "call_id (JObj obj) = Some cid \<Longrightarrow> blank_call (JObj obj) = JObj (blank_fields [FInputJson, FResult] obj)"
  by (simp add: blank_call_def)

lemma blank_call_other: "call_id c = None \<Longrightarrow> blank_call c = c \<and> call_streams mid bid c = []"
  by (simp add: blank_call_def call_streams_def)

lemma call_id_Some: "call_id c = Some cid \<Longrightarrow> \<exists>obj. c = JObj obj"
  by (cases c) (auto simp: call_id_def)

lemma map_filter_in: "d \<in> set xs \<Longrightarrow> f d = Some y \<Longrightarrow> y \<in> set (List.map_filter f xs)"
  by (force simp: List.map_filter_def)

lemma map_filter_append: "List.map_filter f (xs @ ys) = List.map_filter f xs @ List.map_filter f ys"
  by (simp add: List.map_filter_def)

lemma fills_calls:
  assumes "list_all (\<lambda>c. call_id c \<noteq> Some []) calls"
    and "distinct (List.map_filter call_id (pre @ calls))"
  shows "fills (concat (map (call_streams mid bid) calls))
    (with_calls b fs tool (pre @ map blank_call calls)) (with_calls b fs tool (pre @ calls))"
  using assms
proof (induction calls arbitrary: pre)
  case (Cons c calls)
  have rest: "fills (concat (map (call_streams mid bid) calls))
      (with_calls b fs tool (pre @ c # map blank_call calls)) (with_calls b fs tool (pre @ c # calls))"
    using Cons.IH [of "pre @ [c]"] Cons.prems by simp
  show ?case
  proof (cases "call_id c")
    case None
    with rest show ?thesis by (simp add: blank_call_other)
  next
    case (Some cid)
    then obtain obj where c: "c = JObj obj" using call_id_Some by blast
    have "\<forall>d \<in> set pre. call_id d \<noteq> Some cid"
    proof
      fix d assume d: "d \<in> set pre"
      show "call_id d \<noteq> Some cid"
      proof
        assume "call_id d = Some cid"
        with d have "cid \<in> set (List.map_filter call_id pre)" by (rule map_filter_in)
        moreover have "cid \<in> set (List.map_filter call_id (c # calls))"
          using Some by (intro map_filter_in [of c]) simp_all
        moreover have "set (List.map_filter call_id pre) \<inter> set (List.map_filter call_id (c # calls)) = {}"
          using Cons.prems(2) by (simp add: map_filter_append)
        ultimately show False by blast
      qed
    qed
    moreover have "cid \<noteq> []" using Cons.prems(1) Some by auto
    moreover have "call_streams mid bid c = field_streams (call_target mid bid cid) [FInputJson, FResult] obj"
      using Some c by (simp add: call_streams_def call_target_def [abs_def])
    ultimately have "fills (call_streams mid bid c)
        (with_calls b fs tool (pre @ blank_call c # map blank_call calls))
        (with_calls b fs tool (pre @ c # map blank_call calls))"
      using fills_call [of obj cid pre] Some c by (simp add: blank_call_JObj)
    with rest show ?thesis by (auto simp: fills_append)
  qed
qed simp

text \<open>The tool: its own texts, then those of its nested calls.\<close>

lemma field_streams_oset:
  "\<forall>f \<in> set fs. field_key f \<noteq> k \<Longrightarrow> field_streams mk fs (oset k v obj) = field_streams mk fs obj"
  by (induction fs) (auto split: option.split)

lemma oget_blank_fields_other:
  "\<forall>f \<in> set fs. field_key f \<noteq> k \<Longrightarrow> oget (blank_fields fs obj) k = oget obj k"
  by (induction fs arbitrary: obj) (auto split: option.split)

lemma blank_fields_oset:
  "\<forall>f \<in> set fs. field_key f \<noteq> k \<Longrightarrow> oget obj k \<noteq> None \<Longrightarrow>
   blank_fields fs (oset k v obj) = oset k v (blank_fields fs obj)"
  by (induction fs arbitrary: obj) (auto simp: oset_commute2 [of _ k] split: option.split)

lemma fills_blank_tool:
  assumes "\<And>calls. tool_calls tool = Some calls \<Longrightarrow> calls_addressable calls"
  shows "fills (tool_streams mid bid tool) (with_tool b fs (blank_tool tool)) (with_tool b fs tool)"
proof (cases "tool_calls tool")
  case None
  then show ?thesis by (simp add: tool_streams_def blank_tool_def fills_tool del: field_streams.simps blank_fields.simps)
next
  case (Some calls)
  have key: "oget tool (js ''subagentCalls'') = Some (JArr calls)"
    using Some by (simp add: tool_calls_def as_array_eq_Some)
  let ?start = "oset (js ''subagentCalls'') (JArr (map blank_call calls)) tool"
  have "fills (field_streams (block_target mid bid) [FInputJson, FResult] tool)
      (with_tool b fs (blank_tool tool)) (with_tool b fs ?start)"
    using fills_tool [of mid bid ?start b fs] Some key
    by (simp add: blank_tool_def Let_def field_streams_oset blank_fields_oset del: field_streams.simps blank_fields.simps)
  moreover have "fills (concat (map (call_streams mid bid) calls)) (with_tool b fs ?start) (with_tool b fs tool)"
    using fills_calls [of calls "[]" mid bid b fs tool] assms [OF Some] key
    by (simp add: calls_addressable_def with_calls_def oset_same)
  ultimately show ?thesis using Some by (auto simp: tool_streams_def fills_append)
qed

lemma fills_skeleton:
  assumes "block_addressable b"
  shows "fills (block_streams mid b) (block_skeleton b) b"
proof (cases "block_tool b")
  case None
  then show ?thesis by (simp add: block_streams_def block_skeleton_def fills_plain_fields del: field_streams.simps blank_fields.simps)
next
  case (Some tool)
  have key: "oget (b_fields b) (js ''tool'') = Some (JObj tool)"
    using Some by (simp add: block_tool_def as_object_eq_Some)
  then have self: "with_tool b (b_fields b) tool = b"
    by (simp add: with_tool_def oset_same)
  have "fills (field_streams (block_target mid (b_id b)) [FText, FThinking] (b_fields b))
      (block_skeleton b) (with_tool b (b_fields b) (blank_tool tool))"
    using fills_fields [of "b_fields b" mid "b_id b" b "blank_tool tool"] Some key
    by (simp add: block_skeleton_def with_tool_def)
  moreover have "fills (tool_streams mid (b_id b) tool) (with_tool b (b_fields b) (blank_tool tool)) b"
  proof -
    have "calls_addressable calls" if "tool_calls tool = Some calls" for calls
      using assms Some that by (simp add: block_addressable_def)
    then have "fills (tool_streams mid (b_id b) tool) (with_tool b (b_fields b) (blank_tool tool))
        (with_tool b (b_fields b) tool)"
      by (rule fills_blank_tool)
    then show ?thesis by (simp only: self)
  qed
  ultimately show ?thesis using Some by (auto simp: block_streams_def fills_append)
qed

section \<open>Applying a baseline\<close>

definition targets_block :: "jstr \<Rightarrow> jstr \<Rightarrow> text_target \<Rightarrow> bool" where
  "targets_block mid bid tg \<longleftrightarrow> tg_message tg = mid \<and> tg_block tg = Some bid"

lemma field_streams_targets:
  "(\<And>f. targets_block mid bid (mk f)) \<Longrightarrow>
   list_all (\<lambda>(tg, _). targets_block mid bid tg) (field_streams mk fs obj)"
  by (induction fs) (auto split: option.split)

lemma call_streams_targets:
  "list_all (\<lambda>(tg, _). targets_block mid bid tg) (call_streams mid bid c)"
proof (cases "call_id c")
  case (Some cid)
  then obtain obj where "c = JObj obj" using call_id_Some by blast
  moreover have "list_all (\<lambda>(tg, _). targets_block mid bid tg)
      (field_streams (call_target mid bid cid) [FInputJson, FResult] obj)" for obj
    by (rule field_streams_targets) (simp add: targets_block_def call_target_def)
  ultimately show ?thesis
    using Some by (simp add: call_streams_def call_target_def [abs_def] del: field_streams.simps)
qed (simp add: call_streams_def)

lemma block_streams_targets:
  "list_all (\<lambda>(tg, _). targets_block mid (b_id b) tg) (block_streams mid b)"
proof -
  have calls: "list_all (\<lambda>(tg, _). targets_block mid bid tg) (concat (map (call_streams mid bid) cs))" for bid cs
    by (induction cs) (use call_streams_targets in simp_all)
  have field: "list_all (\<lambda>(tg, _). targets_block mid bid tg)
      (field_streams (block_target mid bid) fs obj)" for bid fs obj
    by (rule field_streams_targets) (simp add: targets_block_def)
  show ?thesis
    by (simp add: block_streams_def tool_streams_def calls field del: field_streams.simps split: option.split)
qed

text \<open>The projection whose message \<open>mid\<close> has the given blocks.\<close>

definition put_blocks :: "projection \<Rightarrow> tmessage \<Rightarrow> tblock list \<Rightarrow> projection" where
  "put_blocks p m bs = p\<lparr>messages := map_set (m_id m) (m\<lparr>m_content := CBlocks bs\<rparr>) (messages p)\<rparr>"

lemma wf_put_blocks: "wf_projection p \<Longrightarrow> wf_projection (put_blocks p m bs)"
  by (simp add: put_blocks_def wf_projection_def keyed_by_set)

lemma map_of_put_blocks [simp]:
  "map_of (messages (put_blocks p m bs)) (m_id m) = Some (m\<lparr>m_content := CBlocks bs\<rparr>)"
  by (simp add: put_blocks_def)

lemma stream_apply:
  assumes wf: "wf_projection p" and tg: "targets_block (m_id m) (b_id b) tg" and ne: "b_id b \<noteq> []"
    and pre: "\<forall>c \<in> set pre. b_id c \<noteq> b_id b" and here: "text_at b tg []"
  shows "rfold apply_operation (append_text_parts tg s 0) (put_blocks p m (pre @ [b]))
    = Inr (put_blocks p m (pre @ [set_block_text tg s b]))"
proof (cases "s = []")
  case True
  then show ?thesis
    using set_block_text_same [OF here]
    by (simp add: append_text_parts_apply [OF wf_put_blocks [OF wf]])
next
  case False
  obtain c where c: "block_container b tg = Inr c" "oget c (field_key (tg_field tg)) = Some (JStr [])"
    using here by (auto simp: text_at_def)
  have find: "find_block (b_id b) (pre @ [b]) = Some b"
    unfolding find_block_def using pre by (intro find_middle) simp_all
  have get: "get_transcript_text (put_blocks p m (pre @ [b])) tg = Inr []"
    using tg ne c find
    by (simp add: get_transcript_text_def require_message_def text_container_def targets_block_def)
  have "map_first (\<lambda>c. b_id c = b_id b) (set_block_text tg s) (pre @ [b]) = pre @ [set_block_text tg s b]"
    using pre by (subst map_first_middle) simp_all
  then have "set_message_text tg s (m\<lparr>m_content := CBlocks (pre @ [b])\<rparr>)
      = m\<lparr>m_content := CBlocks (pre @ [set_block_text tg s b])\<rparr>"
    using tg ne by (simp add: set_message_text_def targets_block_def)
  then show ?thesis
    using False tg apply_text_append_ok [OF wf_put_blocks [OF wf] get, of "m\<lparr>m_content := CBlocks (pre @ [b])\<rparr>" s]
    by (simp add: append_text_parts_apply [OF wf_put_blocks [OF wf]] targets_block_def)
      (simp add: put_blocks_def)
qed

lemma streams_apply:
  assumes "wf_projection p" and "b_id b \<noteq> []" and "\<forall>c \<in> set pre. b_id c \<noteq> b_id b"
    and "list_all (\<lambda>(tg, _). targets_block (m_id m) (b_id b) tg) streams" and "fills streams b b'"
  shows "rfold apply_operation (stream_operations streams) (put_blocks p m (pre @ [b]))
    = Inr (put_blocks p m (pre @ [b']))"
  using assms(2-)
proof (induction streams b b' rule: fills.induct)
  case (2 tg s streams b b')
  have "rfold apply_operation (append_text_parts tg s 0) (put_blocks p m (pre @ [b]))
      = Inr (put_blocks p m (pre @ [set_block_text tg s b]))"
    using 2 by (intro stream_apply [OF assms(1)]) simp_all
  with 2 show ?case by (simp add: stream_operations_def rfold_append)
qed (simp add: stream_operations_def)

lemma upsert_block_new: "\<forall>c \<in> set bs. b_id c \<noteq> b_id b \<Longrightarrow> upsert_block b bs = bs @ [b]"
  by (simp add: upsert_block_def find_index_neg_iff)

lemma b_id_skeleton [simp]: "b_id (block_skeleton b) = b_id b"
  by (simp add: block_skeleton_def Let_def split: option.split)

lemma block_baseline_apply:
  assumes "wf_projection p" and "block_addressable b" and "\<forall>c \<in> set pre. b_id c \<noteq> b_id b"
  shows "rfold apply_operation (block_baseline (m_id m) b) (put_blocks p m pre) = Inr (put_blocks p m (pre @ [b]))"
proof -
  have "apply_operation (BlockUpsert (m_id m) (block_skeleton b)) (put_blocks p m pre)
      = Inr (put_blocks p m (pre @ [block_skeleton b]))"
    using upsert_block_new [of pre "block_skeleton b"] assms(3)
    by (simp add: apply_block_upsert_def with_message_def require_message_def) (simp add: put_blocks_def)
  moreover have "rfold apply_operation (stream_operations (block_streams (m_id m) b))
      (put_blocks p m (pre @ [block_skeleton b])) = Inr (put_blocks p m (pre @ [b]))"
    using assms block_streams_targets [of "m_id m" b]
    by (intro streams_apply) (auto simp: block_addressable_def fills_skeleton)
  ultimately show ?thesis by (simp add: block_baseline_def)
qed

lemma blocks_baseline_apply:
  assumes "wf_projection p" and "list_all block_addressable bs" and "distinct (map b_id (pre @ bs))"
  shows "rfold apply_operation (concat (map (block_baseline (m_id m)) bs)) (put_blocks p m pre)
    = Inr (put_blocks p m (pre @ bs))"
  using assms(2,3)
proof (induction bs arbitrary: pre)
  case (Cons b bs)
  have "b_id b \<notin> b_id ` set pre" using Cons.prems(2) by simp
  then have "\<forall>c \<in> set pre. b_id c \<noteq> b_id b" by (metis image_eqI)
  then have "rfold apply_operation (block_baseline (m_id m) b) (put_blocks p m pre)
      = Inr (put_blocks p m (pre @ [b]))"
    using Cons.prems(1) by (intro block_baseline_apply [OF assms(1)]) simp_all
  with Cons.IH [of "pre @ [b]"] Cons.prems show ?case by (simp add: rfold_append)
qed simp

lemma message_operations_apply:
  assumes wf: "wf_projection p" and new: "map_of (messages p) (m_id m) = None" and m: "message_addressable m"
  shows "rfold apply_operation (message_operations m) p = Inr (p\<lparr>messages := messages p @ [(m_id m, m)]\<rparr>)"
proof (cases "m_content m")
  case (CBlocks bs)
  have self: "m\<lparr>m_content := CBlocks bs\<rparr> = m" using CBlocks by (cases m) simp
  have "apply_operation (MessageCreate (m\<lparr>m_content := CBlocks []\<rparr>)) p = Inr (put_blocks p m [])"
    using new by (simp add: apply_message_create_def map_has_def put_blocks_def)
  moreover have "rfold apply_operation (concat (map (block_baseline (m_id m)) bs)) (put_blocks p m [])
      = Inr (put_blocks p m bs)"
    using blocks_baseline_apply [OF wf, of bs "[]" m] m CBlocks by (simp add: message_addressable_def)
  ultimately show ?thesis
    using CBlocks self new by (simp add: message_operations_def) (simp add: put_blocks_def map_set_new)
next
  case (CText s)
  have self: "m\<lparr>m_content := CText s\<rparr> = m" using CText by (cases m) simp
  let ?tg = "\<lparr>tg_message = m_id m, tg_block = None, tg_subagent = None, tg_field = FText\<rparr>"
  let ?m = "m\<lparr>m_content := CText []\<rparr>"
  define q where "q = p\<lparr>messages := map_set (m_id m) ?m (messages p)\<rparr>"
  have create: "apply_operation (MessageCreate ?m) p = Inr q"
    using new by (simp add: apply_message_create_def map_has_def q_def)
  have wfq: "wf_projection q" using wf_apply_operation [OF wf create] .
  have get: "get_transcript_text q ?tg = Inr []"
    by (simp add: get_transcript_text_def require_message_def q_def)
  have "apply_text_append q ?tg 0 s = Inr (q\<lparr>messages := map_set (m_id m) m (messages q)\<rparr>)"
    using apply_text_append_ok [OF wfq get, of ?m s] self by (simp add: q_def set_message_text_def)
  then have "rfold apply_operation (append_text_parts ?tg s 0) q = Inr (p\<lparr>messages := map_set (m_id m) m (messages p)\<rparr>)"
    using self by (simp add: append_text_parts_apply [OF wfq]) (auto simp: q_def)
  with create show ?thesis
    using CText new by (simp add: message_operations_def map_set_new)
qed

lemma messages_apply:
  assumes "wf_projection p" and "distinct (map_keys (messages p @ ms))"
    and "list_all (\<lambda>(k, m). m_id m = k) ms" and "list_all (message_addressable \<circ> snd) ms"
  shows "rfold apply_operation (concat (map (message_operations \<circ> snd) ms)) p
    = Inr (p\<lparr>messages := messages p @ ms\<rparr>)"
  using assms
proof (induction ms arbitrary: p)
  case (Cons km ms)
  obtain m where km: "km = (m_id m, m)" using Cons.prems(3) by (cases km) auto
  have "m_id m \<notin> set (map_keys (messages p))" using Cons.prems(2) km by auto
  then have new: "map_of (messages p) (m_id m) = None" by (simp add: map_of_eq_None_iff)
  have one: "rfold apply_operation (message_operations m) p = Inr (p\<lparr>messages := messages p @ [(m_id m, m)]\<rparr>)"
    using Cons.prems km by (intro message_operations_apply new) simp_all
  have "wf_projection (p\<lparr>messages := messages p @ [(m_id m, m)]\<rparr>)"
    using wf_rfold [OF Cons.prems(1) one] .
  with Cons.IH [of "p\<lparr>messages := messages p @ [(m_id m, m)]\<rparr>"] Cons.prems one km show ?case
    by (simp add: rfold_append)
qed simp

lemma turns_apply:
  assumes "distinct (map_keys (turns p @ ts))" and "list_all (\<lambda>(k, t). t_id t = k) ts"
  shows "rfold apply_operation (map (TurnUpdate \<circ> snd) ts) p = Inr (p\<lparr>turns := turns p @ ts\<rparr>)"
  using assms
proof (induction ts arbitrary: p)
  case (Cons kt ts)
  obtain t where kt: "kt = (t_id t, t)" using Cons.prems(2) by (cases kt) auto
  have "t_id t \<notin> set (map_keys (turns p))" using Cons.prems(1) kt by auto
  then have "map_set (t_id t) t (turns p) = turns p @ [kt]"
    by (simp add: kt map_set_new map_of_eq_None_iff)
  with Cons.IH [of "p\<lparr>turns := turns p @ [kt]\<rparr>"] Cons.prems kt show ?case
    by (simp add: apply_turn_update_def)
qed simp

lemma baseline_rfold:
  assumes "addressable p"
  shows "rfold apply_operation (baseline_operations p) create_projection = Inr p"
proof -
  have "rfold apply_operation (concat (map (message_operations \<circ> snd) (messages p))) create_projection
      = Inr (create_projection\<lparr>messages := messages p\<rparr>)"
    using messages_apply [OF wf_create, of "messages p"] assms
    by (simp add: addressable_def wf_projection_def keyed_by_def create_projection_def)
  moreover have "rfold apply_operation (map (TurnUpdate \<circ> snd) (turns p)) (create_projection\<lparr>messages := messages p\<rparr>)
      = Inr p"
    using turns_apply [of "create_projection\<lparr>messages := messages p\<rparr>" "turns p"] assms
    by (simp add: addressable_def wf_projection_def keyed_by_def create_projection_def)
  ultimately show ?thesis by (simp add: baseline_operations_def rfold_append)
qed


lemma sample_addressable: "addressable sample_projection"
  by (simp add: addressable_def sample_projection_def sample_message_def wf_projection_def keyed_by_def
      message_addressable_def block_addressable_def block_tool_def tool_calls_def calls_addressable_def
      call_id_def List.map_filter_def)


end
