(* ===== verification/TranscriptCodec.thy ===== *)
theory TranscriptCodec
  imports TranscriptBaseline
begin

text \<open>
  The V2 transcript file of session-transcript/codec.ts: the schema check on parsed rows, the
  checksummed line format, and the incremental decoder that accepts a contiguous prefix of
  batches and stops at the first row it cannot accept.

  \<open>JSON.parse\<close>, \<open>JSON.stringify\<close> and the SHA-256 digest are arguments of the definitions that use
  them, so every result below holds for whatever they compute, unless a hypothesis says more.
\<close>

section \<open>Rows\<close>

record header =
  hd_session :: jstr
  hd_generation :: jstr
  hd_base_revision :: nat
  hd_baseline :: bool
  hd_source_generation :: "json option"

datatype batch_mode = Delta | Baseline

record batch =
  bt_id :: jstr
  bt_mode :: batch_mode
  bt_from :: nat
  bt_revision :: nat
  bt_operations :: "operation list"
  bt_end :: bool

datatype codec_error =
    LineTooLong
  | BadChecksum
  | BadJson
  | BadSchema
  | BadHeader
  | BadBaseline
  | NonContiguousRevision
  | RefusedOperation content_error
  | MissingHeader
  | UnfinishedBaseline

text \<open>\<open>Buffer.byteLength\<close>: UTF-8 length of a UTF-16 string; a lone surrogate takes three bytes.\<close>

fun byte_length :: "jstr \<Rightarrow> nat" where
  "byte_length [] = 0"
| "byte_length [c] = (if c < 0x80 then 1 else if c < 0x800 then 2 else 3)"
| "byte_length (c # d # s) =
     (if high_surrogate c \<and> low_surrogate d then 4 + byte_length s
      else (if c < 0x80 then 1 else if c < 0x800 then 2 else 3) + byte_length (d # s))"

definition max_line_bytes :: nat where
  "max_line_bytes = 8 * 1024 * 1024"

section \<open>The schema check\<close>

definition str_field :: "jobj \<Rightarrow> string \<Rightarrow> bool" where
  "str_field obj k \<longleftrightarrow> as_string (oget obj (js k)) \<noteq> None"

definition str_is :: "jobj \<Rightarrow> string \<Rightarrow> string \<Rightarrow> bool" where
  "str_is obj k v \<longleftrightarrow> oget obj (js k) = Some (JStr (js v))"

definition strings_field :: "jobj \<Rightarrow> string \<Rightarrow> bool" where
  "strings_field obj k \<longleftrightarrow>
     (case as_array (oget obj (js k)) of None \<Rightarrow> False
      | Some xs \<Rightarrow> list_all (\<lambda>x. as_string (Some x) \<noteq> None) xs)"

definition is_record_field :: "jobj \<Rightarrow> string \<Rightarrow> (jobj \<Rightarrow> bool) \<Rightarrow> bool" where
  "is_record_field obj k P \<longleftrightarrow>
     (case as_object (oget obj (js k)) of None \<Rightarrow> False | Some r \<Rightarrow> P r)"

definition nat_field :: "jobj \<Rightarrow> string \<Rightarrow> bool" where
  "nat_field obj k \<longleftrightarrow> safe_integer (oget obj (js k)) \<and>
     (case oget obj (js k) of Some (JNum i) \<Rightarrow> 0 \<le> i | _ \<Rightarrow> False)"

definition is_content :: "json option \<Rightarrow> bool" where
  "is_content v =
     (case v of
        Some (JStr _) \<Rightarrow> True
      | Some (JArr bs) \<Rightarrow> list_all (\<lambda>b. case as_object (Some b) of None \<Rightarrow> False
          | Some r \<Rightarrow> str_field r ''id'' \<and> str_field r ''type'') bs
      | _ \<Rightarrow> False)"

text \<open>The keys of shared/session-transcript-message-details.json.\<close>

definition message_details :: "jstr list" where
  "message_details = map js
     [''asyncQuestionReply'', ''desktopQuery'', ''sdkUuid'', ''runtimeTurnAnchor'',
      ''runtimeOperationAnchor'', ''completionState'', ''terminalStatus'', ''attachments'', ''usage'',
      ''toolCount'', ''durationMs'', ''metadata'', ''turnId'', ''transcriptState'', ''messageKind'']"

definition opt_str_field :: "jobj \<Rightarrow> string \<Rightarrow> bool" where
  "opt_str_field obj k \<longleftrightarrow> oget obj (js k) = None \<or> str_field obj k"

definition is_operation_record :: "jobj \<Rightarrow> bool" where
  "is_operation_record v =
     (if str_is v ''kind'' ''message-create'' then
        is_record_field v ''message'' (\<lambda>m. str_field m ''id''
          \<and> (str_is m ''role'' ''user'' \<or> str_is m ''role'' ''assistant'')
          \<and> str_field m ''timestamp'' \<and> is_content (oget m (js ''content'')))
      else if str_is v ''kind'' ''message-update'' then
        str_field v ''messageId''
        \<and> is_record_field v ''details'' (\<lambda>d. list_all (\<lambda>k. k \<in> set message_details) (map_keys d))
        \<and> (oget v (js ''clear'') = None \<or>
           (case as_array (oget v (js ''clear'')) of None \<Rightarrow> False
            | Some ks \<Rightarrow> list_all (\<lambda>k. case as_string (Some k) of None \<Rightarrow> False
                | Some s \<Rightarrow> s \<in> set message_details) ks))
      else if str_is v ''kind'' ''content-confirm'' then
        str_field v ''messageId'' \<and> is_content (oget v (js ''content''))
      else if str_is v ''kind'' ''block-upsert'' then
        str_field v ''messageId''
        \<and> is_record_field v ''block'' (\<lambda>b. str_field b ''id'' \<and> str_field b ''type'')
      else if str_is v ''kind'' ''blocks-remove'' then
        str_field v ''messageId'' \<and> strings_field v ''blockIds''
      else if str_is v ''kind'' ''text-append'' then
        str_field v ''messageId'' \<and> str_field v ''text'' \<and> nat_field v ''offset''
        \<and> (str_is v ''field'' ''text'' \<or> str_is v ''field'' ''thinking''
           \<or> str_is v ''field'' ''inputJson'' \<or> str_is v ''field'' ''result'')
        \<and> opt_str_field v ''blockId'' \<and> opt_str_field v ''subagentToolId''
      else if str_is v ''kind'' ''block-update'' then
        str_field v ''messageId'' \<and> str_field v ''blockId''
        \<and> (str_is v ''target'' ''block'' \<or> str_is v ''target'' ''tool'')
        \<and> is_record_field v ''details'' (\<lambda>d. \<not> ohas d (js ''id'') \<and> \<not> ohas d (js ''type'') \<and> \<not> ohas d (js ''tool''))
        \<and> (oget v (js ''subagentToolId'') = None
           \<or> (str_is v ''target'' ''tool'' \<and> str_field v ''subagentToolId''))
      else if str_is v ''kind'' ''subagents-remove'' then
        str_field v ''messageId'' \<and> str_field v ''blockId'' \<and> strings_field v ''toolIds''
      else if str_is v ''kind'' ''subagent-upsert'' then
        str_field v ''messageId'' \<and> str_field v ''blockId''
        \<and> is_record_field v ''call'' (\<lambda>c. str_field c ''id'')
      else if str_is v ''kind'' ''messages-remove'' then strings_field v ''messageIds''
      else if str_is v ''kind'' ''turn-update'' then
        is_record_field v ''turn'' (\<lambda>t. str_field t ''id''
          \<and> (str_field t ''rootUserMessageId''
             \<or> (str_is t ''origin'' ''collaboration'' \<and> oget t (js ''rootUserMessageId'') = None))
          \<and> str_field t ''startedAt''
          \<and> (str_is t ''status'' ''running'' \<or> str_is t ''status'' ''complete''
             \<or> str_is t ''status'' ''stopped'' \<or> str_is t ''status'' ''error''
             \<or> str_is t ''status'' ''interrupted''))
      else False)"

definition is_operation :: "json \<Rightarrow> bool" where
  "is_operation v = (case as_object (Some v) of None \<Rightarrow> False | Some obj \<Rightarrow> is_operation_record obj)"

section \<open>Typed values of checked rows\<close>

text \<open>
  After the check the source casts the row. The functions below read the checked object into the
  types of the transcript model; they are only used on rows that passed the check.
\<close>

definition get_str :: "jobj \<Rightarrow> string \<Rightarrow> jstr" where
  "get_str obj k = (case as_string (oget obj (js k)) of None \<Rightarrow> [] | Some s \<Rightarrow> s)"

definition get_nat :: "jobj \<Rightarrow> string \<Rightarrow> nat" where
  "get_nat obj k = (case oget obj (js k) of Some (JNum i) \<Rightarrow> nat i | _ \<Rightarrow> 0)"

definition get_obj :: "jobj \<Rightarrow> string \<Rightarrow> jobj" where
  "get_obj obj k = (case as_object (oget obj (js k)) of None \<Rightarrow> [] | Some r \<Rightarrow> r)"

definition get_strs :: "jobj \<Rightarrow> string \<Rightarrow> jstr list" where
  "get_strs obj k = (case as_array (oget obj (js k)) of None \<Rightarrow> []
     | Some xs \<Rightarrow> List.map_filter (\<lambda>x. as_string (Some x)) xs)"

definition without :: "string list \<Rightarrow> jobj \<Rightarrow> jobj" where
  "without ks obj = filter (\<lambda>(k, _). k \<notin> js ` set ks) obj"

definition block_of_json :: "jobj \<Rightarrow> tblock" where
  "block_of_json r = \<lparr>b_id = get_str r ''id'', b_type = get_str r ''type'',
     b_fields = without [''id'', ''type''] r\<rparr>"

definition content_of_json :: "json option \<Rightarrow> content" where
  "content_of_json v =
     (case v of
        Some (JStr s) \<Rightarrow> CText s
      | Some (JArr bs) \<Rightarrow> CBlocks (map (\<lambda>b. block_of_json (case b of JObj r \<Rightarrow> r | _ \<Rightarrow> [])) bs)
      | _ \<Rightarrow> CText [])"

definition message_of_json :: "jobj \<Rightarrow> tmessage" where
  "message_of_json r = \<lparr>m_id = get_str r ''id'',
     m_role = (if str_is r ''role'' ''user'' then User else Assistant),
     m_timestamp = get_str r ''timestamp'', m_content = content_of_json (oget r (js ''content'')),
     m_details = without [''id'', ''role'', ''timestamp'', ''content''] r\<rparr>"

definition turn_of_json :: "jobj \<Rightarrow> turn" where
  "turn_of_json r = \<lparr>t_id = get_str r ''id'', t_root = as_string (oget r (js ''rootUserMessageId'')),
     t_collaboration = str_is r ''origin'' ''collaboration'', t_started = get_str r ''startedAt'',
     t_status = (if str_is r ''status'' ''running'' then Running
       else if str_is r ''status'' ''complete'' then Complete
       else if str_is r ''status'' ''stopped'' then Stopped
       else if str_is r ''status'' ''error'' then Failed else Interrupted),
     t_usage = oget r (js ''usage''), t_duration = oget r (js ''durationMs'')\<rparr>"

definition target_of_json :: "jobj \<Rightarrow> text_target" where
  "target_of_json v = \<lparr>tg_message = get_str v ''messageId'', tg_block = as_string (oget v (js ''blockId'')),
     tg_subagent = as_string (oget v (js ''subagentToolId'')),
     tg_field = (if str_is v ''field'' ''text'' then FText
       else if str_is v ''field'' ''thinking'' then FThinking
       else if str_is v ''field'' ''inputJson'' then FInputJson else FResult)\<rparr>"

definition operation_of_record :: "jobj \<Rightarrow> operation" where
  "operation_of_record v =
     (if str_is v ''kind'' ''message-create'' then MessageCreate (message_of_json (get_obj v ''message''))
      else if str_is v ''kind'' ''message-update'' then
        MessageUpdate (get_str v ''messageId'') (get_obj v ''details'') (get_strs v ''clear'')
      else if str_is v ''kind'' ''content-confirm'' then
        ContentConfirm (get_str v ''messageId'') (content_of_json (oget v (js ''content'')))
      else if str_is v ''kind'' ''block-upsert'' then
        BlockUpsert (get_str v ''messageId'') (block_of_json (get_obj v ''block''))
      else if str_is v ''kind'' ''blocks-remove'' then
        BlocksRemove (get_str v ''messageId'') (get_strs v ''blockIds'')
      else if str_is v ''kind'' ''text-append'' then
        TextAppend (target_of_json v) (get_nat v ''offset'') (get_str v ''text'')
      else if str_is v ''kind'' ''block-update'' then
        BlockUpdate (get_str v ''messageId'') (get_str v ''blockId'')
          (if str_is v ''target'' ''block'' then OnBlock else OnTool)
          (as_string (oget v (js ''subagentToolId''))) (get_obj v ''details'')
      else if str_is v ''kind'' ''subagents-remove'' then
        SubagentsRemove (get_str v ''messageId'') (get_str v ''blockId'') (get_strs v ''toolIds'')
      else if str_is v ''kind'' ''subagent-upsert'' then
        SubagentUpsert (get_str v ''messageId'') (get_str v ''blockId'') (get_obj v ''call'')
      else if str_is v ''kind'' ''messages-remove'' then MessagesRemove (get_strs v ''messageIds'')
      else TurnUpdate (turn_of_json (get_obj v ''turn'')))"

definition operation_of_json :: "json \<Rightarrow> operation" where
  "operation_of_json v = operation_of_record (case v of JObj r \<Rightarrow> r | _ \<Rightarrow> [])"

section \<open>Lines\<close>

definition line_prefix :: jstr where
  \<open>line_prefix = js ''{"batch":''\<close>

definition checksum_prefix :: jstr where
  \<open>checksum_prefix = js '',"checksum":"''\<close>

definition checksum_suffix :: jstr where
  \<open>checksum_suffix = js ''"}''\<close>

text \<open>\<open>[a-f0-9]\<close>.\<close>

definition hex_digit :: "16 word \<Rightarrow> bool" where
  "hex_digit c \<longleftrightarrow> (0x61 \<le> c \<and> c \<le> 0x66) \<or> (0x30 \<le> c \<and> c \<le> 0x39)"

text \<open>
  The suffix pattern has a fixed length of 79 code units, so it matches exactly when the last 79
  units of the line have its shape. The result is the match index and the digest.
\<close>

definition checksum_match :: "jstr \<Rightarrow> (nat \<times> jstr) option" where
  "checksum_match line =
     (let at = length line - 79; tail = drop at line; digest = take 64 (drop 13 tail) in
      if 79 \<le> length line \<and> take 13 tail = checksum_prefix \<and> list_all hex_digit digest
         \<and> drop 77 tail = checksum_suffix
      then Some (at, digest) else None)"

text \<open>\<open>line.slice(from, to)\<close>.\<close>

definition slice :: "nat \<Rightarrow> nat \<Rightarrow> 'a list \<Rightarrow> 'a list" where
  "slice i j xs = take (j - i) (drop i xs)"

definition line_body :: "(jstr \<Rightarrow> jstr) \<Rightarrow> jstr \<Rightarrow> jstr option" where
  "line_body checksum line =
     (case checksum_match line of
        None \<Rightarrow> None
      | Some (at, digest) \<Rightarrow>
          if \<not> prefix line_prefix line then None
          else let body = slice 9 at line in
            if body \<noteq> [] \<and> digest = checksum body then Some body else None)"

definition batch_schema :: "jobj \<Rightarrow> bool" where
  "batch_schema b \<longleftrightarrow>
     str_field b ''id'' \<and> nat_field b ''revision'' \<and> nat_field b ''fromRevision''
     \<and> (str_is b ''mode'' ''delta'' \<or> str_is b ''mode'' ''baseline'')
     \<and> (case as_array (oget b (js ''operations'')) of None \<Rightarrow> False | Some ops \<Rightarrow> list_all is_operation ops)"

definition batch_of_json :: "jobj \<Rightarrow> batch" where
  "batch_of_json b = \<lparr>bt_id = get_str b ''id'',
     bt_mode = (if str_is b ''mode'' ''delta'' then Delta else Baseline),
     bt_from = get_nat b ''fromRevision'', bt_revision = get_nat b ''revision'',
     bt_operations = (case as_array (oget b (js ''operations'')) of None \<Rightarrow> []
       | Some ops \<Rightarrow> map operation_of_json ops),
     bt_end = json_truthy (oget b (js ''baselineEnd''))\<rparr>"

definition decode_batch :: "(jstr \<Rightarrow> json option) \<Rightarrow> (jstr \<Rightarrow> jstr) \<Rightarrow> jstr \<Rightarrow> codec_error + batch" where
  "decode_batch parse checksum line =
     (if byte_length line > max_line_bytes then Inl LineTooLong
      else case line_body checksum line of
        None \<Rightarrow> Inl BadChecksum
      | Some body \<Rightarrow>
          (case parse body of
             None \<Rightarrow> Inl BadJson
           | Some v \<Rightarrow>
               (case as_object (Some v) of
                  None \<Rightarrow> Inl BadSchema
                | Some b \<Rightarrow> if batch_schema b then Inr (batch_of_json b) else Inl BadSchema)))"

text \<open>\<open>encodeTranscriptBatch\<close> on the serialized batch; the line keeps its newline.\<close>

definition encode_line :: "(jstr \<Rightarrow> jstr) \<Rightarrow> jstr \<Rightarrow> codec_error + jstr" where
  "encode_line checksum body =
     (let line = line_prefix @ body @ checksum_prefix @ checksum body @ checksum_suffix @ [10] in
      if byte_length line > max_line_bytes then Inl LineTooLong else Inr line)"

text \<open>\<open>SESSION_TRANSCRIPT_VERSION\<close> is 2.\<close>

definition header_schema :: "jstr \<Rightarrow> jobj \<Rightarrow> bool" where
  "header_schema session h \<longleftrightarrow>
     str_is h ''kind'' ''session-transcript'' \<and> oget h (js ''version'') = Some (JNum 2)
     \<and> oget h (js ''sessionId'') = Some (JStr session)
     \<and> str_field h ''generation'' \<and> get_str h ''generation'' \<noteq> []
     \<and> nat_field h ''baseRevision''
     \<and> (case oget h (js ''baseline'') of Some (JBool _) \<Rightarrow> True | _ \<Rightarrow> False)"

definition decode_header :: "(jstr \<Rightarrow> json option) \<Rightarrow> jstr \<Rightarrow> jstr \<Rightarrow> codec_error + header" where
  "decode_header parse line session =
     (case parse line of
        None \<Rightarrow> Inl BadJson
      | Some v \<Rightarrow>
          (case as_object (Some v) of
             None \<Rightarrow> Inl BadHeader
           | Some h \<Rightarrow>
               if header_schema session h
               then Inr \<lparr>hd_session = session, hd_generation = get_str h ''generation'',
                 hd_base_revision = get_nat h ''baseRevision'',
                 hd_baseline = (oget h (js ''baseline'') = Some (JBool True)),
                 hd_source_generation = oget h (js ''sourceGeneration'')\<rparr>
               else Inl BadHeader))"

section \<open>The incremental decoder\<close>

datatype tail_state = Clean | Incomplete | Invalid

record decoded =
  dr_header :: header
  dr_projection :: projection
  dr_revision :: nat
  dr_last_batch :: "jstr option"
  dr_valid_bytes :: nat
  dr_tail :: tail_state

record decoder =
  dec_session :: jstr
  dec_result :: "decoded option"
  dec_baseline_done :: bool

definition new_decoder :: "jstr \<Rightarrow> decoder" where
  "new_decoder session = \<lparr>dec_session = session, dec_result = None, dec_baseline_done = False\<rparr>"

text \<open>The ordering check of a decoded batch.\<close>

definition batch_in_order :: "bool \<Rightarrow> decoded \<Rightarrow> batch \<Rightarrow> codec_error + unit" where
  "batch_in_order done r b =
     (case bt_mode b of
        Baseline \<Rightarrow>
          rcheck (\<not> (done \<or> bt_revision b \<noteq> hd_base_revision (dr_header r) \<or> bt_from b \<noteq> 0)) BadBaseline
      | Delta \<Rightarrow>
          rcheck (\<not> (\<not> done \<or> bt_from b \<noteq> dr_revision r + 1 \<or> bt_revision b < bt_from b)) NonContiguousRevision)"

text \<open>
  The \<open>try\<close> block of \<open>push\<close>: the new result and baseline flag, or the error; in both cases the
  projection that \<open>applyTranscriptBatch\<close> left behind.
\<close>

definition accept_batch :: "bool \<Rightarrow> decoded \<Rightarrow> jstr \<Rightarrow> batch \<Rightarrow> (decoded \<times> bool) + decoded" where
  "accept_batch done r line b =
     (case batch_in_order done r b of
        Inl _ \<Rightarrow> Inr r
      | Inr _ \<Rightarrow>
          (case apply_batch (coalesce (bt_operations b)) (dr_projection r) of
             (q, Some _) \<Rightarrow> Inr (r\<lparr>dr_projection := q\<rparr>)
           | (q, None) \<Rightarrow>
               Inl (r\<lparr>dr_projection := q, dr_revision := bt_revision b, dr_last_batch := Some (bt_id b),
                      dr_valid_bytes := dr_valid_bytes r + byte_length line + 1\<rparr>,
                    done \<or> (bt_mode b = Baseline \<and> bt_end b))))"

definition push :: "(jstr \<Rightarrow> json option) \<Rightarrow> (jstr \<Rightarrow> jstr) \<Rightarrow> jstr \<Rightarrow> decoder \<Rightarrow> codec_error + decoder \<times> bool" where
  "push parse checksum line d =
     (case dec_result d of
        None \<Rightarrow>
          rbind (decode_header parse line (dec_session d)) (\<lambda>h.
            Inr (d\<lparr>dec_baseline_done := \<not> hd_baseline h,
                   dec_result := Some \<lparr>dr_header = h, dr_projection = create_projection,
                     dr_revision = hd_base_revision h, dr_last_batch = None,
                     dr_valid_bytes = byte_length line + 1, dr_tail = Clean\<rparr>\<rparr>, True))
      | Some r \<Rightarrow>
          if dr_tail r \<noteq> Clean then Inr (d, False)
          else case decode_batch parse checksum line of
            Inl _ \<Rightarrow> Inr (d\<lparr>dec_result := Some (r\<lparr>dr_tail := Invalid\<rparr>)\<rparr>, False)
          | Inr b \<Rightarrow>
              (case accept_batch (dec_baseline_done d) r line b of
                 Inr r' \<Rightarrow> Inr (d\<lparr>dec_result := Some (r'\<lparr>dr_tail := Invalid\<rparr>)\<rparr>, False)
               | Inl (r', done) \<Rightarrow> Inr (d\<lparr>dec_result := Some r', dec_baseline_done := done\<rparr>, True)))"

definition finish :: "bool \<Rightarrow> decoder \<Rightarrow> codec_error + decoded" where
  "finish incomplete d =
     (case dec_result d of
        None \<Rightarrow> Inl MissingHeader
      | Some r \<Rightarrow>
          if \<not> dec_baseline_done d then Inl UnfinishedBaseline
          else Inr (if incomplete \<and> dr_tail r = Clean then r\<lparr>dr_tail := Incomplete\<rparr> else r))"

text \<open>
  \<open>decodeTranscript\<close>: the text up to the next newline is a row; text after the last newline is an
  incomplete row.
\<close>

function decode_rows :: "(jstr \<Rightarrow> json option) \<Rightarrow> (jstr \<Rightarrow> jstr) \<Rightarrow> decoder \<Rightarrow> jstr \<Rightarrow> codec_error + decoded" where
  "decode_rows parse checksum d s =
     (if s = [] then finish False d
      else let row = takeWhile (\<lambda>c. c \<noteq> 10) s in
        if length row = length s then finish True d
        else rbind (push parse checksum row d) (\<lambda>(d', ok).
          if ok then decode_rows parse checksum d' (drop (length row + 1) s) else finish False d'))"
  by pat_completeness auto
termination
  by (relation "measure (\<lambda>(_, _, _, s). length s)") auto

declare decode_rows.simps [simp del]

definition decode_transcript :: "(jstr \<Rightarrow> json option) \<Rightarrow> (jstr \<Rightarrow> jstr) \<Rightarrow> jstr \<Rightarrow> jstr \<Rightarrow> codec_error + decoded" where
  "decode_transcript parse checksum s session = decode_rows parse checksum (new_decoder session) s"

section \<open>Framing\<close>

lemma length_frame [simp]:
  "length line_prefix = 9" "length checksum_prefix = 13" "length checksum_suffix = 2"
  by (simp_all add: line_prefix_def checksum_prefix_def checksum_suffix_def js_def)

text \<open>What the SHA-256 hex digest is relied on to return.\<close>

definition hex_digest :: "(jstr \<Rightarrow> jstr) \<Rightarrow> bool" where
  "hex_digest checksum \<longleftrightarrow> (\<forall>s. length (checksum s) = 64 \<and> list_all hex_digit (checksum s))"

definition frame :: "(jstr \<Rightarrow> jstr) \<Rightarrow> jstr \<Rightarrow> jstr" where
  "frame checksum body = line_prefix @ body @ checksum_prefix @ checksum body @ checksum_suffix"

lemma checksum_match_frame:
  "length digest = 64 \<Longrightarrow> list_all hex_digit digest \<Longrightarrow>
   checksum_match (front @ checksum_prefix @ digest @ checksum_suffix) = Some (length front, digest)"
  by (simp add: checksum_match_def Let_def)

lemma checksum_match_shape:
  assumes "checksum_match line = Some (at, digest)"
  shows "line = take at line @ checksum_prefix @ digest @ checksum_suffix" and "at + 79 = length line"
    and "length digest = 64"
proof -
  have line: "at = length line - 79" "79 \<le> length line" "take 13 (drop at line) = checksum_prefix"
    "digest = take 64 (drop 13 (drop at line))" "drop 77 (drop at line) = checksum_suffix"
    using assms by (auto simp: checksum_match_def Let_def split: if_splits)
  have "drop at line = take 13 (drop at line) @ take 64 (drop 13 (drop at line)) @ drop 77 (drop at line)"
    using append_take_drop_id [of 13 "drop at line"] append_take_drop_id [of 64 "drop 13 (drop at line)"]
    by (simp add: drop_drop)
  with line show "line = take at line @ checksum_prefix @ digest @ checksum_suffix"
    by (metis append_take_drop_id)
  from line show "at + 79 = length line" "length digest = 64" by simp_all
qed

lemma line_body_shape:
  assumes "line_body checksum line = Some body"
  shows "body \<noteq> [] \<and> line = frame checksum body"
proof -
  obtain at digest where m: "checksum_match line = Some (at, digest)" and p: "prefix line_prefix line"
    and body: "body = slice 9 at line" "body \<noteq> []" "digest = checksum body"
    using assms by (auto simp: line_body_def Let_def split: option.splits if_splits)
  have at: "9 \<le> at" using body(1,2) by (simp add: slice_def)
  have "take 9 line = line_prefix"
    using p by (metis append_eq_conv_conj length_frame(1) prefix_def)
  moreover have "take at line = take 9 line @ take (at - 9) (drop 9 line)"
    using at by (metis le_add_diff_inverse take_add)
  ultimately have "take at line = line_prefix @ body" using body(1) by (simp add: slice_def)
  then show ?thesis
    using checksum_match_shape(1) [OF m] body by (metis append.assoc frame_def)
qed

lemma line_body_frame:
  assumes "hex_digest checksum" and "body \<noteq> []"
  shows "line_body checksum (frame checksum body) = Some body"
proof -
  have "checksum_match (frame checksum body) = Some (9 + length body, checksum body)"
    using checksum_match_frame [of "checksum body" "line_prefix @ body"] assms(1)
    by (simp add: frame_def hex_digest_def)
  then show ?thesis
    using assms(2) by (simp add: line_body_def Let_def slice_def) (simp add: frame_def)
qed

lemma byte_length_newline [simp]: "byte_length (row @ 10 # rest) = byte_length row + 1 + byte_length rest"
proof (induction row rule: byte_length.induct)
  case (2 c)
  have "\<not> low_surrogate 10" by (simp add: low_surrogate_def)
  then show ?case by (cases rest) (auto simp: high_surrogate_def)
next
  case 1
  then show ?case by (cases rest) (auto simp: high_surrogate_def)
qed simp

text \<open>
  C4. The line format: a line carries a body exactly when it is the framed body followed by the
  body's own digest, and the decoder reads back the body that the encoder framed.
\<close>

theorem line_frame_exact:
  assumes "hex_digest checksum"
  shows "(line_body checksum line = Some body \<longleftrightarrow> body \<noteq> [] \<and> line = frame checksum body)
    \<and> (body \<noteq> [] \<and> encode_line checksum body = Inr out \<longrightarrow>
        out = frame checksum body @ [10] \<and>
        decode_batch parse checksum (butlast out) =
          (case parse body of None \<Rightarrow> Inl BadJson
           | Some v \<Rightarrow> (case as_object (Some v) of None \<Rightarrow> Inl BadSchema
             | Some b \<Rightarrow> if batch_schema b then Inr (batch_of_json b) else Inl BadSchema)))"
proof -
  have body: "line_body checksum (frame checksum body) = Some body" if "body \<noteq> []"
    using line_body_frame [OF assms that] .
  have "out = frame checksum body @ [10] \<and> byte_length (frame checksum body) \<le> max_line_bytes"
    if "encode_line checksum body = Inr out"
    using that byte_length_newline [of "frame checksum body" "[]"]
    by (auto simp: encode_line_def frame_def Let_def split: if_splits)
  then show ?thesis
    using body line_body_shape [of checksum line body] by (auto simp: decode_batch_def)
qed

theorem line_frame_exact_witness:
  "line_body (\<lambda>_. replicate 64 0x61) (frame (\<lambda>_. replicate 64 0x61) (js ''7'')) = Some (js ''7'')"
proof -
  have "hex_digest (\<lambda>_. replicate 64 0x61)" by (simp add: hex_digest_def hex_digit_def list_all_iff)
  from line_frame_exact [OF this, of "frame (\<lambda>_. replicate 64 0x61) (js ''7'')" "js ''7''"]
  show ?thesis by simp
qed

section \<open>The history a decoder accepts\<close>

text \<open>
  The cursor of a file: its revision and whether the baseline is complete. Baseline batches keep
  the revision of the header; then each delta starts right after the cursor and does not go back.
\<close>

fun history :: "nat \<Rightarrow> nat \<times> bool \<Rightarrow> batch list \<Rightarrow> (nat \<times> bool) option" where
  "history base cur [] = Some cur"
| "history base (at, done) (b # bs) =
     (case bt_mode b of
        Baseline \<Rightarrow> if \<not> done \<and> bt_revision b = base \<and> bt_from b = 0
          then history base (base, bt_end b) bs else None
      | Delta \<Rightarrow> if done \<and> bt_from b = at + 1 \<and> bt_from b \<le> bt_revision b
          then history base (bt_revision b, True) bs else None)"

definition header_cursor :: "header \<Rightarrow> nat \<times> bool" where
  "header_cursor h = (hd_base_revision h, \<not> hd_baseline h)"

definition replay :: "batch list \<Rightarrow> content_error + projection" where
  "replay bs = rfold apply_operation (concat (map bt_operations bs)) create_projection"

text \<open>What a result records about the accepted batches \<open>bs\<close>.\<close>

definition records :: "decoded \<Rightarrow> bool \<Rightarrow> batch list \<Rightarrow> bool" where
  "records r done bs \<longleftrightarrow>
     history (hd_base_revision (dr_header r)) (header_cursor (dr_header r)) bs = Some (dr_revision r, done)
     \<and> (\<exists>p. replay bs = Inr p \<and> same_transcript (dr_projection r) p
          \<and> (dr_tail r \<noteq> Invalid \<longrightarrow> dr_projection r = p))
     \<and> dr_last_batch r = (if bs = [] then None else Some (bt_id (last bs)))"

lemma history_snoc:
  "history base cur (bs @ [b]) =
     (case history base cur bs of None \<Rightarrow> None | Some c \<Rightarrow> history base c [b])"
  by (induction base cur bs rule: history.induct) (auto split: batch_mode.split)

lemma apply_batch_ok: "apply_batch ops p = (q, None) \<longleftrightarrow> rfold apply_operation ops p = Inr q"
  unfolding run_operations_rfold [symmetric]
  by (auto simp: apply_batch_def split: prod.splits option.splits)

lemma replay_snoc: "replay (bs @ [b]) = rbind (replay bs) (rfold apply_operation (bt_operations b))"
  by (simp add: replay_def rfold_append)

lemma wf_replay: "replay bs = Inr p \<Longrightarrow> wf_projection p"
  unfolding replay_def by (rule wf_rfold [OF wf_create])

lemma accept_records:
  assumes rec: "records r done bs" and clean: "dr_tail r = Clean"
    and acc: "accept_batch done r line b = Inl (r', done')"
  shows "records r' done' (bs @ [b]) \<and> dr_tail r' = Clean \<and> dr_header r' = dr_header r
    \<and> dr_valid_bytes r' = dr_valid_bytes r + byte_length line + 1"
proof -
  obtain q where ord: "batch_in_order done r b = Inr ()"
    and q: "apply_batch (coalesce (bt_operations b)) (dr_projection r) = (q, None)"
    and r': "r' = r\<lparr>dr_projection := q, dr_revision := bt_revision b, dr_last_batch := Some (bt_id b),
        dr_valid_bytes := dr_valid_bytes r + byte_length line + 1\<rparr>"
    and done': "done' = (done \<or> (bt_mode b = Baseline \<and> bt_end b))"
    using acc by (auto simp: accept_batch_def split: sum.splits prod.splits option.splits)
  have p: "replay bs = Inr (dr_projection r)" using rec clean by (auto simp: records_def)
  have "rfold apply_operation (bt_operations b) (dr_projection r) = Inr q"
    using q coalesce_rfold [OF wf_replay [OF p]] by (simp add: apply_batch_ok)
  with p have "replay (bs @ [b]) = Inr q" by (simp add: replay_snoc)
  moreover have "history (hd_base_revision (dr_header r)) (header_cursor (dr_header r)) (bs @ [b])
      = Some (bt_revision b, done')"
    using rec ord done'
    by (auto simp: records_def history_snoc batch_in_order_def rcheck_def split: batch_mode.splits if_splits)
  ultimately show ?thesis
    using r' clean by (simp add: records_def same_transcript_def)
qed

text \<open>A decoder that has accepted the batches \<open>bs\<close> from \<open>n\<close> bytes and may accept more.\<close>

definition reading :: "decoder \<Rightarrow> nat \<Rightarrow> batch list \<Rightarrow> bool" where
  "reading d n bs \<longleftrightarrow>
     (case dec_result d of
        None \<Rightarrow> bs = [] \<and> n = 0 \<and> \<not> dec_baseline_done d
      | Some r \<Rightarrow> dr_tail r = Clean \<and> records r (dec_baseline_done d) bs \<and> dr_valid_bytes r = n
          \<and> hd_session (dr_header r) = dec_session d)"

lemma reading_new: "reading (new_decoder session) 0 []"
  by (simp add: reading_def new_decoder_def)

lemma decode_header_session: "decode_header parse line session = Inr h \<Longrightarrow> hd_session h = session"
  by (simp add: decode_header_def split: option.splits if_splits) (metis header.select_convs(1))

lemma push_accepts:
  assumes "reading d n bs" and "push parse checksum line d = Inr (d', True)"
  shows "dec_session d' = dec_session d \<and> (\<exists>bs'. reading d' (n + byte_length line + 1) bs')"
proof (cases "dec_result d")
  case None
  then obtain h where h: "decode_header parse line (dec_session d) = Inr h"
    and d': "d' = d\<lparr>dec_baseline_done := \<not> hd_baseline h,
       dec_result := Some \<lparr>dr_header = h, dr_projection = create_projection,
         dr_revision = hd_base_revision h, dr_last_batch = None,
         dr_valid_bytes = byte_length line + 1, dr_tail = Clean\<rparr>\<rparr>"
    using assms(2) by (auto simp: push_def)
  have "n = 0" using assms(1) None by (simp add: reading_def)
  then have "reading d' (n + byte_length line + 1) []"
    using decode_header_session [OF h]
    by (simp add: d' reading_def records_def replay_def same_transcript_def header_cursor_def)
  then show ?thesis by (auto simp: d')
next
  case (Some r)
  obtain b r' done' where "dr_tail r = Clean" "accept_batch (dec_baseline_done d) r line b = Inl (r', done')"
    "d' = d\<lparr>dec_result := Some r', dec_baseline_done := done'\<rparr>"
    using assms(2) Some by (auto simp: push_def split: if_splits sum.splits)
  moreover have "records r (dec_baseline_done d) bs" "dr_valid_bytes r = n" "hd_session (dr_header r) = dec_session d"
    using assms(1) Some by (auto simp: reading_def)
  ultimately show ?thesis
    using accept_records [of r "dec_baseline_done d" bs line b r' done'] by (auto simp: reading_def)
qed

lemma accept_refused:
  assumes "wf_projection (dr_projection r)" and "accept_batch done r line b = Inr r'"
  shows "\<exists>q. r' = r\<lparr>dr_projection := q\<rparr> \<and> same_transcript q (dr_projection r)"
proof (cases "batch_in_order done r b")
  case (Inl e)
  with assms show ?thesis
    by (intro exI [of _ "dr_projection r"]) (simp add: accept_batch_def same_transcript_def)
next
  case (Inr u)
  then obtain q e where q: "apply_batch (coalesce (bt_operations b)) (dr_projection r) = (q, Some e)"
    and r': "r' = r\<lparr>dr_projection := q\<rparr>"
    using assms(2) by (auto simp: accept_batch_def split: prod.splits option.splits)
  have "same_transcript q (dr_projection r)"
    using apply_batch_rollback [OF q] rollback_same [OF assms(1)] by simp
  with r' show ?thesis by blast
qed

lemma push_refuses:
  assumes "reading d n bs" and "push parse checksum line d = Inr (d', False)"
  shows "\<exists>r q. dec_result d = Some r \<and> same_transcript q (dr_projection r) \<and> dec_session d' = dec_session d
    \<and> d' = d\<lparr>dec_result := Some (r\<lparr>dr_projection := q, dr_tail := Invalid\<rparr>)\<rparr>"
proof -
  obtain r where r: "dec_result d = Some r"
    using assms by (cases "dec_result d") (auto simp: push_def)
  then have clean: "dr_tail r = Clean" and rec: "records r (dec_baseline_done d) bs"
    using assms(1) by (auto simp: reading_def)
  have wf: "wf_projection (dr_projection r)"
    using rec clean wf_replay by (auto simp: records_def)
  have keep: "r\<lparr>dr_tail := Invalid\<rparr> = r\<lparr>dr_projection := dr_projection r, dr_tail := Invalid\<rparr>"
    by (cases r) simp
  show ?thesis
  proof (cases "decode_batch parse checksum line")
    case (Inl e)
    with assms(2) r clean have "d' = d\<lparr>dec_result := Some (r\<lparr>dr_tail := Invalid\<rparr>)\<rparr>"
      by (simp add: push_def)
    with r keep show ?thesis
      by (intro exI [of _ r] exI [of _ "dr_projection r"]) (simp add: same_transcript_def)
  next
    case (Inr b)
    with assms(2) r clean obtain r' where acc: "accept_batch (dec_baseline_done d) r line b = Inr r'"
      and d': "d' = d\<lparr>dec_result := Some (r'\<lparr>dr_tail := Invalid\<rparr>)\<rparr>"
      by (auto simp: push_def split: sum.splits)
    with accept_refused [OF wf acc] r show ?thesis by auto
  qed
qed

lemma decode_rows_Nil [simp]: "decode_rows parse checksum d [] = finish False d"
  by (simp add: decode_rows.simps)

lemma decode_rows_row:
  "10 \<notin> set row \<Longrightarrow> decode_rows parse checksum d (row @ 10 # rest) =
     rbind (push parse checksum row d) (\<lambda>(d', ok).
       if ok then decode_rows parse checksum d' rest else finish False d')"
proof -
  assume "10 \<notin> set row"
  then have "takeWhile (\<lambda>c. c \<noteq> 10) (row @ 10 # rest) = row"
    by (simp add: takeWhile_append)
  moreover have "drop (length row + 1) (row @ 10 # rest) = rest" by simp
  ultimately show ?thesis by (subst decode_rows.simps) (simp only: Let_def, simp)
qed

lemma decode_rows_partial:
  assumes "s \<noteq> []" and "10 \<notin> set s"
  shows "decode_rows parse checksum d s = finish True d"
proof -
  have "takeWhile (\<lambda>c. c \<noteq> 10) s = s" using assms(2) by (auto simp: takeWhile_eq_all_conv)
  then have "length (takeWhile (\<lambda>c. c \<noteq> 10) s) = length s" by (rule arg_cong)
  with assms(1) show ?thesis by (subst decode_rows.simps) (simp only: Let_def, simp)
qed

lemma split_row:
  "(10 :: 16 word) \<in> set s \<Longrightarrow> \<exists>row rest. s = row @ 10 # rest \<and> 10 \<notin> set row"
  using split_list_first by fast

text \<open>
  The rows of a text up to the point where the decoder stopped: what they decode to by
  themselves, and how the result for the whole text relates to it.
\<close>

definition cut_at :: "(jstr \<Rightarrow> json option) \<Rightarrow> (jstr \<Rightarrow> jstr) \<Rightarrow> decoder \<Rightarrow> jstr \<Rightarrow> decoded \<Rightarrow> jstr \<Rightarrow> decoded \<Rightarrow> bool" where
  "cut_at parse checksum d s r pre c \<longleftrightarrow>
     prefix pre s \<and> decode_rows parse checksum d pre = Inr c \<and> dr_tail c = Clean
     \<and> (\<exists>bs. records c True bs) \<and> dr_valid_bytes c = dr_valid_bytes r
     \<and> hd_session (dr_header c) = dec_session d
     \<and> (\<exists>q tail. r = c\<lparr>dr_projection := q, dr_tail := tail\<rparr> \<and> same_transcript q (dr_projection c)
          \<and> (tail \<noteq> Invalid \<longrightarrow> q = dr_projection c) \<and> (tail = Clean \<longleftrightarrow> pre = s))"

lemma cut_here:
  assumes "reading d n bs" and "finish False d = Inr c"
    and "same_transcript q (dr_projection c)" and "tail \<noteq> Invalid \<longrightarrow> q = dr_projection c"
    and "tail = Clean \<longleftrightarrow> s = []"
  shows "cut_at parse checksum d s (c\<lparr>dr_projection := q, dr_tail := tail\<rparr>) [] c \<and> dr_valid_bytes c = n"
proof -
  obtain r where "dec_result d = Some r" "dec_baseline_done d" "c = r"
    using assms(2) by (auto simp: finish_def split: option.splits if_splits)
  with assms show ?thesis by (auto simp: cut_at_def reading_def)
qed

lemma finish_after_refusal:
  assumes "reading d n bs" and "push parse checksum line d = Inr (d', False)" and "finish False d' = Inr r"
  shows "\<exists>c q. finish False d = Inr c \<and> same_transcript q (dr_projection c)
    \<and> r = c\<lparr>dr_projection := q, dr_tail := Invalid\<rparr>"
  using push_refuses [OF assms(1,2)] assms(3) by (auto simp: finish_def split: if_splits)

lemma decode_rows_cut:
  assumes "reading d n bs" and "decode_rows parse checksum d s = Inr r"
  shows "\<exists>pre c. cut_at parse checksum d s r pre c \<and> dr_valid_bytes c = n + byte_length pre"
  using assms
proof (induction "length s" arbitrary: d n bs s rule: less_induct)
  case less
  consider (nil) "s = []" | (partial) "s \<noteq> []" "10 \<notin> set s" | (row) row rest where "s = row @ 10 # rest" "10 \<notin> set row"
    using split_row by blast
  then show ?case
  proof cases
    case nil
    then have "finish False d = Inr r" using less.prems by simp
    moreover have "dr_tail r = Clean" using calculation less.prems(1)
      by (auto simp: finish_def reading_def split: option.splits if_splits)
    moreover have keep: "r\<lparr>dr_tail := Clean\<rparr> = r"
      using calculation by (cases r) simp
    ultimately show ?thesis
      using cut_here [OF less.prems(1), of r "dr_projection r" "dr_tail r" s parse checksum] nil
        keep
      by (intro exI [of _ "[]"] exI [of _ r]) (simp add: same_transcript_def)
  next
    case partial
    then have r: "finish True d = Inr r" using less.prems by (simp add: decode_rows_partial)
    then obtain c where c: "finish False d = Inr c" by (auto simp: finish_def split: option.splits if_splits)
    have "r = c\<lparr>dr_projection := dr_projection c, dr_tail := Incomplete\<rparr>"
      using r c less.prems(1) by (auto simp: finish_def reading_def split: option.splits if_splits)
    with cut_here [OF less.prems(1) c, of "dr_projection c" Incomplete s parse checksum] partial show ?thesis
      by (intro exI [of _ "[]"] exI [of _ c]) (simp add: same_transcript_def)
  next
    case row
    from less.prems(2) obtain d' ok where push: "push parse checksum row d = Inr (d', ok)"
      and rest: "(if ok then decode_rows parse checksum d' rest else finish False d') = Inr r"
      using row by (auto simp: decode_rows_row)
    show ?thesis
    proof (cases ok)
      case True
      obtain bs' where read': "reading d' (n + byte_length row + 1) bs'" and sess: "dec_session d' = dec_session d"
        using push_accepts [OF less.prems(1), of parse checksum row d'] push True by auto
      obtain pre c where cut: "cut_at parse checksum d' rest r pre c"
        and bytes: "dr_valid_bytes c = n + byte_length row + 1 + byte_length pre"
        using less.hyps [OF _ read', of rest] row rest True by auto
      have "decode_rows parse checksum d (row @ 10 # pre) = Inr c"
        using cut push True row by (simp add: cut_at_def decode_rows_row)
      then have "cut_at parse checksum d s r (row @ 10 # pre) c"
        using cut row sess unfolding cut_at_def by simp
      with bytes show ?thesis
        by (intro exI [of _ "row @ 10 # pre"] exI [of _ c]) simp
    next
      case False
      then obtain c q where c: "finish False d = Inr c" "same_transcript q (dr_projection c)"
        "r = c\<lparr>dr_projection := q, dr_tail := Invalid\<rparr>"
        using finish_after_refusal [OF less.prems(1), of parse checksum row d' r] push rest by auto
      with cut_here [OF less.prems(1) c(1,2), of Invalid s parse checksum] row show ?thesis
        by (intro exI [of _ "[]"] exI [of _ c]) simp
    qed
  qed
qed


text \<open>
  Cutting a damaged file at \<open>validBytes\<close> repairs it: the shorter file decodes cleanly to the
  same header, revision, last batch, messages and turns.
\<close>

theorem decode_truncated:
  assumes "decode_transcript parse checksum s session = Inr r"
  shows "\<exists>pre c. prefix pre s \<and> byte_length pre = dr_valid_bytes r
    \<and> decode_transcript parse checksum pre session = Inr c \<and> dr_tail c = Clean
    \<and> dr_header c = dr_header r \<and> dr_revision c = dr_revision r
    \<and> dr_last_batch c = dr_last_batch r \<and> dr_valid_bytes c = dr_valid_bytes r
    \<and> same_transcript (dr_projection r) (dr_projection c)"
proof -
  obtain pre c where cut: "cut_at parse checksum (new_decoder session) s r pre c"
    and bytes: "dr_valid_bytes c = byte_length pre"
    using decode_rows_cut [OF reading_new] assms unfolding decode_transcript_def by fastforce
  then obtain q tail where "r = c\<lparr>dr_projection := q, dr_tail := tail\<rparr>" "same_transcript q (dr_projection c)"
    unfolding cut_at_def by blast
  with cut bytes show ?thesis
    unfolding decode_transcript_def cut_at_def by (intro exI [of _ pre] exI [of _ c]) auto
qed

text \<open>A file with a header and a torn row.\<close>

definition sample_parse :: "jstr \<Rightarrow> json option" where
  "sample_parse line = (if line = js ''h'' then Some (JObj
     [(js ''kind'', JStr (js ''session-transcript'')), (js ''version'', JNum 2),
      (js ''sessionId'', JStr (js ''s1'')), (js ''generation'', JStr (js ''g1'')),
      (js ''baseRevision'', JNum 3), (js ''baseline'', JBool False)]) else None)"

lemma sample_decode:
  "decode_transcript sample_parse (\<lambda>_. []) (js ''h'' @ 10 # js ''x'') (js ''s1'') = Inr
     \<lparr>dr_header = \<lparr>hd_session = js ''s1'', hd_generation = js ''g1'', hd_base_revision = 3,
        hd_baseline = False, hd_source_generation = None\<rparr>,
      dr_projection = create_projection, dr_revision = 3, dr_last_batch = None,
      dr_valid_bytes = 2, dr_tail = Incomplete\<rparr>"
  by code_simp


theorem decode_truncated_witness:
  "\<exists>pre c. prefix pre (js ''h'' @ 10 # js ''x'') \<and> byte_length pre = 2
     \<and> decode_transcript sample_parse (\<lambda>_. []) pre (js ''s1'') = Inr c \<and> dr_tail c = Clean"
  using decode_truncated [OF sample_decode] by (auto simp del: prefix_append)

end
