(* ===== verification/JsonText.thy ===== *)
theory JsonText
  imports TranscriptCodec
begin

text \<open>
  The text of a V2 row: \<open>JSON.stringify\<close> of a batch, its SHA-256 hex digest around a 256-bit hash,
  and the line that encodeTranscriptBatch of session-transcript/codec.ts builds from them. The
  hash itself is an argument. A line ends with its only newline.
\<close>

section \<open>JSON.stringify\<close>

definition hex_char :: "nat \<Rightarrow> 16 word" where
  "hex_char n = word_of_nat (if n < 10 then 48 + n else 87 + n)"

text \<open>The escape of one code unit; surrogates are handled by \<open>escape\<close>.\<close>

definition escape_unit :: "16 word \<Rightarrow> jstr" where
  "escape_unit c =
     (if c = 0x22 then [0x5C, 0x22] else if c = 0x5C then [0x5C, 0x5C]
      else if c = 8 then [0x5C, 0x62] else if c = 9 then [0x5C, 0x74]
      else if c = 10 then [0x5C, 0x6E] else if c = 12 then [0x5C, 0x66]
      else if c = 13 then [0x5C, 0x72]
      else if c < 0x20 \<or> high_surrogate c \<or> low_surrogate c
        then [0x5C, 0x75, hex_char (unat c div 4096), hex_char (unat c div 256 mod 16),
              hex_char (unat c div 16 mod 16), hex_char (unat c mod 16)]
      else [c])"

text \<open>A surrogate pair is copied; a lone surrogate is escaped.\<close>

fun escape :: "jstr \<Rightarrow> jstr" where
  "escape [] = []"
| "escape [c] = escape_unit c"
| "escape (c # d # s) =
     (if high_surrogate c \<and> low_surrogate d then c # d # escape s else escape_unit c @ escape (d # s))"

definition quote :: "jstr \<Rightarrow> jstr" where
  "quote s = 0x22 # escape s @ [0x22]"

fun json_text :: "json \<Rightarrow> jstr" where
  "json_text JNull = js ''null''"
| "json_text (JBool b) = (if b then js ''true'' else js ''false'')"
| "json_text (JNum i) = dec_int i"
| "json_text (JFloat s e) = float_text s e"
| "json_text (JStr s) = quote s"
| "json_text (JArr xs) = js ''['' @ join_with (js '','') (map json_text xs) @ js '']''"
| "json_text (JObj fs) = 0x7B # join_with (js '','') (map (\<lambda>(k, v). quote k @ js '':'' @ json_text v) fs) @ [0x7D]"

section \<open>The value of a batch\<close>

definition jstrs :: "jstr list \<Rightarrow> json" where
  "jstrs ss = JArr (map JStr ss)"

definition kinded :: "string \<Rightarrow> jobj \<Rightarrow> json" where
  "kinded kind fs = JObj ((js ''kind'', JStr (js kind)) # fs)"

definition opt_field :: "string \<Rightarrow> json option \<Rightarrow> jobj" where
  "opt_field k v = (case v of None \<Rightarrow> [] | Some x \<Rightarrow> [(js k, x)])"

definition block_json :: "tblock \<Rightarrow> json" where
  "block_json b = JObj ((js ''id'', JStr (b_id b)) # (js ''type'', JStr (b_type b)) # b_fields b)"

definition content_json :: "content \<Rightarrow> json" where
  "content_json c = (case c of CText s \<Rightarrow> JStr s | CBlocks bs \<Rightarrow> JArr (map block_json bs))"

definition message_json :: "tmessage \<Rightarrow> json" where
  "message_json m = JObj ([(js ''id'', JStr (m_id m)),
     (js ''role'', JStr (case m_role m of User \<Rightarrow> js ''user'' | Assistant \<Rightarrow> js ''assistant'')),
     (js ''timestamp'', JStr (m_timestamp m)), (js ''content'', content_json (m_content m))] @ m_details m)"

definition status_json :: "turn_status \<Rightarrow> json" where
  "status_json s = JStr (case s of Running \<Rightarrow> js ''running'' | Complete \<Rightarrow> js ''complete''
     | Stopped \<Rightarrow> js ''stopped'' | Failed \<Rightarrow> js ''error'' | Interrupted \<Rightarrow> js ''interrupted'')"

definition turn_json :: "turn \<Rightarrow> json" where
  "turn_json t = JObj ((js ''id'', JStr (t_id t)) # opt_field ''rootUserMessageId'' (map_option JStr (t_root t))
     @ (if t_collaboration t then [(js ''origin'', JStr (js ''collaboration''))] else [])
     @ [(js ''startedAt'', JStr (t_started t)), (js ''status'', status_json (t_status t))]
     @ opt_field ''usage'' (t_usage t) @ opt_field ''durationMs'' (t_duration t))"

fun operation_json :: "operation \<Rightarrow> json" where
  "operation_json (MessageCreate m) = kinded ''message-create'' [(js ''message'', message_json m)]"
| "operation_json (MessageUpdate mid details clear) = kinded ''message-update''
     [(js ''messageId'', JStr mid), (js ''details'', JObj details), (js ''clear'', jstrs clear)]"
| "operation_json (ContentConfirm mid c) = kinded ''content-confirm''
     [(js ''messageId'', JStr mid), (js ''content'', content_json c)]"
| "operation_json (BlockUpsert mid b) = kinded ''block-upsert''
     [(js ''messageId'', JStr mid), (js ''block'', block_json b)]"
| "operation_json (BlocksRemove mid ids) = kinded ''blocks-remove''
     [(js ''messageId'', JStr mid), (js ''blockIds'', jstrs ids)]"
| "operation_json (BlockUpdate mid bid target sub details) = kinded ''block-update''
     ([(js ''messageId'', JStr mid), (js ''blockId'', JStr bid),
       (js ''target'', JStr (case target of OnBlock \<Rightarrow> js ''block'' | OnTool \<Rightarrow> js ''tool''))]
      @ opt_field ''subagentToolId'' (map_option JStr sub) @ [(js ''details'', JObj details)])"
| "operation_json (SubagentsRemove mid bid ids) = kinded ''subagents-remove''
     [(js ''messageId'', JStr mid), (js ''blockId'', JStr bid), (js ''toolIds'', jstrs ids)]"
| "operation_json (SubagentUpsert mid bid call) = kinded ''subagent-upsert''
     [(js ''messageId'', JStr mid), (js ''blockId'', JStr bid), (js ''call'', JObj call)]"
| "operation_json (TextAppend tg offset s) = kinded ''text-append''
     ([(js ''offset'', JNum (int offset)), (js ''text'', JStr s), (js ''messageId'', JStr (tg_message tg))]
      @ opt_field ''blockId'' (map_option JStr (tg_block tg))
      @ opt_field ''subagentToolId'' (map_option JStr (tg_subagent tg))
      @ [(js ''field'', JStr (field_key (tg_field tg)))])"
| "operation_json (MessagesRemove ids) = kinded ''messages-remove'' [(js ''messageIds'', jstrs ids)]"
| "operation_json (TurnUpdate t) = kinded ''turn-update'' [(js ''turn'', turn_json t)]"

definition batch_json :: "batch \<Rightarrow> json" where
  "batch_json b = JObj ([(js ''id'', JStr (bt_id b)),
     (js ''mode'', JStr (case bt_mode b of Delta \<Rightarrow> js ''delta'' | Baseline \<Rightarrow> js ''baseline'')),
     (js ''fromRevision'', JNum (int (bt_from b))), (js ''revision'', JNum (int (bt_revision b))),
     (js ''operations'', JArr (map operation_json (bt_operations b)))]
     @ (if bt_end b then [(js ''baselineEnd'', JBool True)] else []))"

section \<open>The line\<close>

text \<open>\<open>createHash('sha256').update(body).digest('hex')\<close> around the 256-bit hash.\<close>

definition hex_sha :: "(jstr \<Rightarrow> 256 word) \<Rightarrow> jstr \<Rightarrow> jstr" where
  "hex_sha sha s = map (\<lambda>i. hex_char (unat (sha s) div 16 ^ (63 - i) mod 16)) [0..<64]"

definition encode_transcript_batch :: "(jstr \<Rightarrow> 256 word) \<Rightarrow> batch \<Rightarrow> codec_error + jstr" where
  "encode_transcript_batch sha b = encode_line (hex_sha sha) (json_text (batch_json b))"

definition row_text :: "(jstr \<Rightarrow> 256 word) \<Rightarrow> batch \<Rightarrow> jstr" where
  "row_text sha b = frame (hex_sha sha) (json_text (batch_json b)) @ [10]"

lemma encode_transcript_batch_eq:
  "encode_transcript_batch sha b =
     (if byte_length (row_text sha b) > max_line_bytes then Inl LineTooLong else Inr (row_text sha b))"
  by (simp add: encode_transcript_batch_def encode_line_def row_text_def frame_def Let_def)

text \<open>No code unit of the text is a newline.\<close>

lemma hex_char_bounds: "n < 16 \<Longrightarrow> hex_digit (hex_char n)"
  by (auto simp: hex_char_def hex_digit_def word_le_nat_alt unat_of_nat)

lemma hex_digit_not_newline: "hex_digit c \<Longrightarrow> c \<noteq> 10"
  by (auto simp: hex_digit_def)

lemma hex_digest_sha: "hex_digest (hex_sha sha)"
  by (auto simp: hex_digest_def hex_sha_def list_all_iff intro!: hex_char_bounds)

lemma dec_nat_no_newline: "10 \<notin> set (dec_nat n)"
proof (induction n rule: dec_nat.induct)
  case (1 n)
  have digit: "k < 10 \<Longrightarrow> (word_of_nat (48 + k) :: 16 word) \<noteq> 10" for k :: nat
  proof -
    assume "k < 10"
    then have "k \<in> {0, 1, 2, 3, 4, 5, 6, 7, 8, 9}" by auto
    then show ?thesis by auto
  qed
  show ?case
    using 1 digit [of n] digit [of "n mod 10"] by (subst dec_nat.simps) auto
qed

lemma js_no_newline: "CHR 0x0A \<notin> set s \<Longrightarrow> 10 \<notin> set (js s)"
proof
  assume s: "CHR 0x0A \<notin> set s" and "10 \<in> set (js s)"
  then obtain c where c: "c \<in> set s" "(word_of_nat (of_char c) :: 16 word) = 10"
    by (auto simp: js_def)
  have "(word_of_nat (of_char c) :: 16 word) = word_of_nat (of_char (CHR 0x0A))"
    using c(2) by simp
  then show False using s c(1) by (simp only: of_char_16_inject)
qed

lemma hex_char_no_newline: "n < 16 \<Longrightarrow> hex_char n \<noteq> 10"
  using hex_char_bounds hex_digit_not_newline by blast

lemma escape_unit_no_newline: "10 \<notin> set (escape_unit c)"
proof -
  have "unat c < 2 ^ 16" using unsigned_less [of c, where ?'a = nat] by simp
  then have "unat c div 4096 < 16" by (simp add: less_mult_imp_div_less)
  then show ?thesis
    using hex_char_no_newline [of "unat c div 4096"] hex_char_no_newline [of "unat c div 256 mod 16"]
      hex_char_no_newline [of "unat c div 16 mod 16"] hex_char_no_newline [of "unat c mod 16"]
    by (auto simp: escape_unit_def)
qed

lemma escape_no_newline: "10 \<notin> set (escape s)"
proof (induction s rule: escape.induct)
  case (3 c d s)
  have "high_surrogate c \<Longrightarrow> c \<noteq> 10" "low_surrogate d \<Longrightarrow> d \<noteq> 10"
    by (auto simp: high_surrogate_def low_surrogate_def)
  with 3 show ?case using escape_unit_no_newline [of c] by auto
qed (use escape_unit_no_newline in auto)

lemma join_with_no_newline: "10 \<notin> set sep \<Longrightarrow> \<forall>s \<in> set ss. 10 \<notin> set s \<Longrightarrow> 10 \<notin> set (join_with sep ss)"
  by (induction sep ss rule: join_with.induct) auto

lemma dec_int_no_newline: "10 \<notin> set (dec_int i)"
  using dec_nat_no_newline js_no_newline [of "''-''"] by (auto simp: dec_int_def)

lemma float_no_newline: "10 \<notin> set (float_text m e)"
  using dec_nat_no_newline [of "nat \<bar>m\<bar>"] dec_int_no_newline js_no_newline [of "''-''"]
    js_no_newline [of "''e''"] js_no_newline [of "''+''"] js_no_newline [of "''.''"] js_no_newline [of "''0.''"]
  by (auto simp: float_text_def Let_def dest: in_set_takeD in_set_dropD)

lemma quote_no_newline: "10 \<notin> set (quote s)"
  using escape_no_newline [of s] by (simp add: quote_def)

lemma json_text_no_newline: "10 \<notin> set (json_text v)"
proof (induction v)
  case (JArr xs)
  then have "10 \<notin> set (join_with (js '','') (map json_text xs))"
    by (intro join_with_no_newline) (auto simp: js_no_newline)
  then show ?case using js_no_newline [of "''[''"] js_no_newline [of "'']''"] by simp
next
  case (JObj fs)
  have field: "10 \<notin> set (quote k @ js '':'' @ json_text v)" if "(k, v) \<in> set fs" for k v
    using JObj [OF that] quote_no_newline js_no_newline [of "'':''"] by (auto simp: snds.simps)
  have "10 \<notin> set (join_with (js '','') (map (\<lambda>(k, v). quote k @ js '':'' @ json_text v) fs))"
    by (intro join_with_no_newline) (use field js_no_newline [of "'',''"] in auto)
  then show ?case by simp
qed (use js_no_newline dec_int_no_newline float_no_newline quote_no_newline in auto)

lemma row_text_shape: "\<exists>r. row_text sha b = r @ [10] \<and> 10 \<notin> set r"
proof -
  have "10 \<notin> set (hex_sha sha s)" for s
    using hex_digest_sha [of sha] hex_digit_not_newline by (auto simp: hex_digest_def list_all_iff)
  moreover have "10 \<notin> set line_prefix" "10 \<notin> set checksum_prefix" "10 \<notin> set checksum_suffix"
    by (simp_all add: line_prefix_def checksum_prefix_def checksum_suffix_def js_no_newline)
  ultimately show ?thesis
    using json_text_no_newline by (auto simp: row_text_def frame_def)
qed

text \<open>A row is not a proper prefix of another row.\<close>

lemma row_text_prefix:
  assumes "row_text sha a @ xs = take n (row_text sha b)"
  shows "row_text sha a = row_text sha b \<and> xs = []"
proof -
  obtain r where r: "row_text sha a = r @ [10]" "10 \<notin> set r" using row_text_shape by blast
  obtain q where q: "row_text sha b = q @ [10]" "10 \<notin> set q" using row_text_shape by blast
  obtain ys where ys: "r @ 10 # xs @ ys = q @ [10]"
    using assms r q by (metis append_Cons append_assoc append_take_drop_id self_append_conv2)
  have "q = r \<and> xs @ ys = []"
    using ys r(2) q(2) by (auto simp: append_eq_append_conv2 append_eq_Cons_conv Cons_eq_append_conv)
  with r q show ?thesis by simp
qed

end
