(* ===== verification/TranscriptWriter.thy ===== *)
theory TranscriptWriter
  imports TranscriptCodec
begin

text \<open>
  The write-behind queue of session-transcript/writer.ts. Content is applied to the live
  projection at once; one physical write at a time carries it to the storage. Every method,
  timer callback and settlement of a write is one function on the writer's state, in the order
  in which the source assigns its fields. A status callback and the operation observers return
  nothing that the writer uses, so they are not part of the state.
\<close>

section \<open>State\<close>

datatype storage_error = IoError | InvalidHistory

datatype save_state = Healthy | Retrying | Degraded

datatype save_reason = ReasonIo | ReasonTimeout | ReasonInvalidHistory

record commit_target =
  ct_generation :: jstr
  ct_revision :: nat

record queued =
  qe_operation :: "operation option"
  qe_revision :: nat
  qe_from :: "nat option"
  qe_bytes :: nat
  qe_boundary :: bool

text \<open>The write in flight, as \<open>startWrite\<close> captured it.\<close>

datatype flight =
    AppendFlight commit_target batch
  | ReplaceFlight commit_target projection nat bool

record writer =
  w_projection :: projection
  w_generation :: jstr
  w_live :: nat
  w_durable :: nat
  w_recovery :: nat
  w_queue :: "queued list"
  w_queued_bytes :: nat
  w_needs_baseline :: bool
  w_complete :: bool
  w_closed :: bool
  w_retiring :: bool
  w_blocked :: bool
  w_recovery_attempted :: bool
  w_recovery_pending :: bool
  w_flight :: "flight option"
  w_retry_batch :: "batch option"
  w_timer :: "nat option"
  w_health :: bool
  w_attempt :: nat
  w_state :: save_state
  w_reason :: "save_reason option"
  w_next_id :: nat

definition batch_ms :: nat where "batch_ms = 100"

definition batch_bytes :: nat where "batch_bytes = 256 * 1024"

definition retry_ms :: "nat list" where "retry_ms = [500, 1500, 5000, 15000, 30000]"

definition new_writer :: "jstr \<Rightarrow> nat \<Rightarrow> projection \<Rightarrow> writer" where
  "new_writer generation revision p =
     \<lparr>w_projection = p, w_generation = generation, w_live = revision, w_durable = revision,
      w_recovery = 0, w_queue = [], w_queued_bytes = 0, w_needs_baseline = False, w_complete = True,
      w_closed = False, w_retiring = False, w_blocked = False, w_recovery_attempted = False,
      w_recovery_pending = False, w_flight = None, w_retry_batch = None, w_timer = None,
      w_health = False, w_attempt = 0, w_state = Healthy, w_reason = None, w_next_id = 0\<rparr>"

section \<open>Status and timers\<close>

definition fail_save :: "save_reason \<Rightarrow> save_state \<Rightarrow> writer \<Rightarrow> writer" where
  "fail_save reason st w =
     w\<lparr>w_recovery := max (w_recovery w) (w_live w), w_reason := Some reason, w_state := st\<rparr>"

definition watch_health :: "writer \<Rightarrow> writer" where
  "watch_health w =
     (if w_health w \<or> w_closed w \<or> w_blocked w \<or> w_live w = w_durable w then w else w\<lparr>w_health := True\<rparr>)"

definition health_fires :: "writer \<Rightarrow> writer" where
  "health_fires w =
     (let w = w\<lparr>w_health := False\<rparr> in
      if w_live w > w_durable w then fail_save ReasonTimeout Degraded w else w)"

definition schedule :: "nat \<Rightarrow> writer \<Rightarrow> writer" where
  "schedule delay w =
     (if w_closed w \<or> w_retiring w \<or> w_blocked w \<or> w_flight w \<noteq> None then w
      else if w_timer w \<noteq> None \<and> (delay \<noteq> 0 \<or> w_attempt w > 0) then w
      else if \<not> w_needs_baseline w \<and> w_retry_batch w = None \<and> w_queue w = [] then w
      else w\<lparr>w_timer := Some delay\<rparr>)"

section \<open>Starting a write\<close>

definition entry_from :: "queued \<Rightarrow> nat" where
  "entry_from e = (case qe_from e of None \<Rightarrow> qe_revision e | Some r \<Rightarrow> r)"

text \<open>The \<open>while\<close> loop that chooses the entries of a batch: the count and their bytes.\<close>

fun take_entries :: "nat \<Rightarrow> nat \<Rightarrow> queued list \<Rightarrow> nat \<times> nat" where
  "take_entries n bytes [] = (n, bytes)"
| "take_entries n bytes (e # es) =
     (if n = 0 \<or> bytes + qe_bytes e \<le> batch_bytes
      then take_entries (n + 1) (bytes + qe_bytes e) es
      else (n, bytes))"

definition entry_operations :: "queued list \<Rightarrow> operation list" where
  "entry_operations es = List.map_filter qe_operation es"

definition queue_batch :: "jstr \<Rightarrow> queued list \<Rightarrow> batch" where
  "queue_batch bid pending =
     \<lparr>bt_id = bid, bt_mode = Delta, bt_from = entry_from (hd pending),
      bt_revision = qe_revision (last pending), bt_operations = entry_operations pending, bt_end = False\<rparr>"

definition start_write :: "(nat \<Rightarrow> jstr) \<Rightarrow> writer \<Rightarrow> writer" where
  "start_write uuid w =
     (if w_flight w \<noteq> None \<or> w_closed w \<or> w_retiring w \<or> w_blocked w then w
      else let expected = \<lparr>ct_generation = w_generation w, ct_revision = w_durable w\<rparr> in
        case w_retry_batch w of
          Some b \<Rightarrow> w\<lparr>w_flight := Some (AppendFlight expected b)\<rparr>
        | None \<Rightarrow>
            if w_needs_baseline w then
              (if \<not> w_complete w then w
               else w\<lparr>w_queue := [], w_queued_bytes := 0, w_needs_baseline := False,
                      w_recovery_pending := False,
                      w_flight := Some (ReplaceFlight expected (w_projection w) (w_live w) (w_recovery_pending w))\<rparr>)
            else if w_queue w = [] then w
            else let (n, bytes) = take_entries 0 0 (w_queue w) in
              w\<lparr>w_queue := drop n (w_queue w), w_queued_bytes := w_queued_bytes w - bytes,
                w_flight := Some (AppendFlight expected (queue_batch (uuid (w_next_id w)) (take n (w_queue w)))),
                w_next_id := w_next_id w + 1\<rparr>)"

definition timer_fires :: "(nat \<Rightarrow> jstr) \<Rightarrow> writer \<Rightarrow> writer" where
  "timer_fires uuid w = start_write uuid (w\<lparr>w_timer := None\<rparr>)"

section \<open>Producers\<close>

text \<open>A content fault: the recording stops being a source of history.\<close>

definition reject_source :: "writer \<Rightarrow> writer" where
  "reject_source w = fail_save ReasonInvalidHistory Degraded (w\<lparr>w_complete := False, w_blocked := True\<rparr>)"

text \<open>The queue after one more operation: merged into the last entry, or a new entry.\<close>

definition enqueue_operation :: "operation \<Rightarrow> nat \<Rightarrow> nat \<Rightarrow> bool \<Rightarrow> queued list \<Rightarrow> queued list" where
  "enqueue_operation op revision bytes boundary q =
     (let fresh = q @ [\<lparr>qe_operation = Some op, qe_revision = revision, qe_from = None,
                        qe_bytes = bytes, qe_boundary = boundary\<rparr>] in
      if q = [] then fresh
      else case qe_operation (last q) of
        None \<Rightarrow> fresh
      | Some prev \<Rightarrow>
          if qe_boundary (last q) \<or> boundary then fresh
          else case merge_adjacent prev op of
            None \<Rightarrow> fresh
          | Some m \<Rightarrow> butlast q @ [(last q)\<lparr>qe_from := Some (entry_from (last q)), qe_operation := Some m,
                qe_revision := revision, qe_bytes := qe_bytes (last q) + bytes\<rparr>])"

definition observe :: "(operation \<Rightarrow> nat) \<Rightarrow> (nat \<Rightarrow> jstr) \<Rightarrow> operation \<Rightarrow> bool \<Rightarrow> writer \<Rightarrow> writer" where
  "observe json_bytes uuid op boundary w =
     (if w_closed w then w
      else case apply_operation op (w_projection w) of
        Inl _ \<Rightarrow> reject_source w
      | Inr p \<Rightarrow>
          let w1 = w\<lparr>w_projection := p, w_live := w_live w + 1\<rparr>;
              bytes = json_bytes op;
              w2 = (if w_needs_baseline w1 then w1
                    else w1\<lparr>w_queue := enqueue_operation op (w_live w1) bytes boundary (w_queue w1),
                            w_queued_bytes := w_queued_bytes w1 + bytes\<rparr>);
              w3 = watch_health w2
          in if batch_bytes \<le> w_queued_bytes w3 \<and> w_attempt w3 = 0 \<and> \<not> w_needs_baseline w3
             then start_write uuid (w3\<lparr>w_timer := None\<rparr>)
             else schedule (if boundary then 0 else batch_ms) w3)"

definition enqueue_barrier :: "nat \<Rightarrow> queued list \<Rightarrow> queued list" where
  "enqueue_barrier revision q =
     (if q \<noteq> [] \<and> qe_operation (last q) = None
      then butlast q @ [(last q)\<lparr>qe_revision := revision\<rparr>]
      else q @ [\<lparr>qe_operation = None, qe_revision = revision, qe_from = Some revision,
                 qe_bytes = 0, qe_boundary = False\<rparr>])"

definition request_commit :: "writer \<Rightarrow> writer" where
  "request_commit w =
     (if w_closed w \<or> w_blocked w then w
      else let w1 = w\<lparr>w_live := w_live w + 1\<rparr>;
               w2 = (if w_needs_baseline w1 then w1
                     else w1\<lparr>w_queue := enqueue_barrier (w_live w1) (w_queue w1)\<rparr>)
           in schedule batch_ms (watch_health w2))"

definition replace_projection :: "projection \<Rightarrow> writer \<Rightarrow> storage_error + writer" where
  "replace_projection p w =
     (if w_closed w \<or> w_blocked w \<or> \<not> w_complete w then Inl InvalidHistory
      else Inr (schedule 0 (watch_health
        (w\<lparr>w_projection := p, w_live := w_live w + 1, w_queue := [], w_queued_bytes := 0,
           w_needs_baseline := True\<rparr>))))"

section \<open>Settling a write\<close>

text \<open>The \<open>finally\<close> block.\<close>

definition after_write :: "writer \<Rightarrow> writer" where
  "after_write w =
     (let w = watch_health (w\<lparr>w_flight := None\<rparr>) in
      schedule (if w_attempt w = 0 then 0
                else retry_ms ! min (w_attempt w - 1) (length retry_ms - 1)) w)"

text \<open>The \<open>then\<close> block, with the revision that is now durable.\<close>

definition write_committed :: "nat \<Rightarrow> writer \<Rightarrow> writer" where
  "write_committed revision w =
     (let w = w\<lparr>w_durable := revision, w_retry_batch := None, w_attempt := 0, w_health := False\<rparr> in
      if \<not> w_needs_baseline w \<and> w_complete w \<and> w_recovery w \<le> w_durable w
      then w\<lparr>w_state := Healthy, w_reason := None\<rparr> else w)"

text \<open>A replacement also adopts the committed generation, and may find its snapshot outdated.\<close>

definition replace_committed :: "commit_target \<Rightarrow> nat \<Rightarrow> writer \<Rightarrow> writer" where
  "replace_committed committed target w =
     write_committed (ct_revision committed)
       (w\<lparr>w_generation := ct_generation committed,
          w_needs_baseline := (w_needs_baseline w \<or> ct_revision committed < target)\<rparr>)"

definition error_reason :: "storage_error \<Rightarrow> save_reason" where
  "error_reason e = (case e of IoError \<Rightarrow> ReasonIo | InvalidHistory \<Rightarrow> ReasonInvalidHistory)"

text \<open>The \<open>catch\<close> block; \<open>can_recover\<close> is whether the storage offers \<open>recoverEmptySource\<close>.\<close>

definition write_failed :: "bool \<Rightarrow> storage_error \<Rightarrow> flight \<Rightarrow> writer \<Rightarrow> writer" where
  "write_failed can_recover e fl w =
     (let w' =
        (case fl of
           ReplaceFlight _ _ _ True \<Rightarrow> fail_save (error_reason e) Degraded (w\<lparr>w_blocked := True\<rparr>)
         | _ \<Rightarrow>
           (case e of
              InvalidHistory \<Rightarrow>
                if \<not> w_recovery_attempted w \<and> w_complete w \<and> can_recover
                then (fail_save ReasonInvalidHistory Degraded
                  (w\<lparr>w_recovery_attempted := True, w_recovery_pending := True, w_retry_batch := None,
                     w_queue := [], w_queued_bytes := 0, w_needs_baseline := True\<rparr>))\<lparr>w_attempt := 0\<rparr>
                else fail_save ReasonInvalidHistory Degraded (w\<lparr>w_blocked := True\<rparr>)
            | IoError \<Rightarrow>
                let w1 = (case fl of AppendFlight _ b \<Rightarrow> w\<lparr>w_retry_batch := Some b\<rparr>
                          | ReplaceFlight _ _ _ _ \<Rightarrow> w\<lparr>w_needs_baseline := True\<rparr>)
                in fail_save ReasonIo (if w_needs_baseline w1 then Degraded else Retrying) w1))
      in if w_recovery_pending w' then w' else w'\<lparr>w_attempt := w_attempt w' + 1\<rparr>)"

section \<open>Flush, retirement and closing\<close>

text \<open>
  The synchronous start of \<open>flush\<close>: \<open>Inl\<close> is an immediate answer; \<open>Inr\<close> the writer whose waiter
  is now registered for revision \<open>target\<close>.
\<close>

definition flush_start :: "(nat \<Rightarrow> jstr) \<Rightarrow> writer \<Rightarrow> bool + writer \<times> nat" where
  "flush_start uuid w =
     (if w_closed w \<or> w_blocked w then Inl False
      else if w_live w \<le> w_durable w then Inl True
      else Inr (start_write uuid (w\<lparr>w_timer := None\<rparr>), w_live w))"

text \<open>The waiter's \<open>check\<close>, run at every status change.\<close>

definition flush_check :: "nat \<Rightarrow> writer \<Rightarrow> bool option" where
  "flush_check target w =
     (if target \<le> w_durable w then Some True
      else if w_closed w \<or> w_blocked w then Some False else None)"

text \<open>
  One turn of the loop of \<open>flushForMutation\<close>: an answer, or the writer whose write is awaited. The
  test after the await is \<open>mutation_resume\<close>.
\<close>

definition mutation_turn :: "(nat \<Rightarrow> jstr) \<Rightarrow> nat \<Rightarrow> writer \<Rightarrow> bool option \<times> writer" where
  "mutation_turn uuid target w =
     (if target \<le> w_durable w then (Some (\<not> w_closed w \<and> \<not> w_blocked w), w)
      else if w_closed w \<or> w_blocked w \<or> w_retiring w then (Some False, w)
      else let w' = start_write uuid (w\<lparr>w_timer := None\<rparr>) in
        (if w_flight w' = None then Some False else None, w'))"

definition mutation_resume :: "writer \<Rightarrow> bool option" where
  "mutation_resume w = (if w_attempt w > 0 then Some False else None)"

definition retire_start :: "writer \<Rightarrow> bool + writer" where
  "retire_start w =
     (if w_closed w then Inl (w_flight w = None)
      else Inr (w\<lparr>w_retiring := True, w_timer := None\<rparr>))"

definition close_writer :: "writer \<Rightarrow> writer" where
  "close_writer w =
     w\<lparr>w_closed := True, w_timer := None, w_health := False, w_queue := [], w_queued_bytes := 0\<rparr>"

text \<open>The end of \<open>retire\<close>: the write settled in time, or the deadline passed.\<close>

definition retire_end :: "bool \<Rightarrow> writer \<Rightarrow> writer" where
  "retire_end settled w =
     (if settled then close_writer w else schedule batch_ms (w\<lparr>w_retiring := False\<rparr>))"

end
