(* ===== verification/TranscriptSaving.thy ===== *)
theory TranscriptSaving
  imports TranscriptWriter
begin

text \<open>
  What a transcript writer and its storage keep together. The storage is an interface, the locale
  \<open>transcript_storage\<close>: what \<open>append\<close> and \<open>replace\<close> do to the durable file when they succeed and
  what they may have done when they fail. A ghost history records the live projection at every
  revision; the invariant says that the file always holds exactly the projection of the revision it
  claims, under every interleaving of producers, timers, writes, failures, flushes and closing.
\<close>

section \<open>The system\<close>

text \<open>The durable file as a reader sees it.\<close>

record disk =
  dk_generation :: jstr
  dk_revision :: nat
  dk_last :: "jstr option"
  dk_content :: projection

type_synonym 's append_fn = "'s \<Rightarrow> commit_target \<Rightarrow> batch \<Rightarrow> 's \<times> storage_error option"
type_synonym 's replace_fn = "'s \<Rightarrow> commit_target \<Rightarrow> projection \<Rightarrow> nat \<Rightarrow> 's \<times> (storage_error + commit_target)"

text \<open>The settlement of the write in flight, the storage's effect included.\<close>

definition settle_write ::
    "('f \<Rightarrow> 's append_fn) \<Rightarrow> ('f \<Rightarrow> bool \<Rightarrow> 's replace_fn) \<Rightarrow> bool \<Rightarrow> 'f \<Rightarrow> flight \<Rightarrow> writer \<Rightarrow> 's \<Rightarrow> writer \<times> 's" where
  "settle_write ap rp can_recover f fl w s =
     (case fl of
        AppendFlight e b \<Rightarrow>
          (case ap f s e b of
             (s', None) \<Rightarrow> (after_write (write_committed (bt_revision b) w), s')
           | (s', Some err) \<Rightarrow> (after_write (write_failed can_recover err fl w), s'))
      | ReplaceFlight e snapshot target recover \<Rightarrow>
          (case rp f recover s e snapshot target of
             (s', Inr committed) \<Rightarrow> (after_write (replace_committed committed target w), s')
           | (s', Inl err) \<Rightarrow> (after_write (write_failed can_recover err fl w), s')))"

text \<open>One step of the writer that does not touch the storage.\<close>

inductive writer_step :: "(operation \<Rightarrow> nat) \<Rightarrow> (nat \<Rightarrow> jstr) \<Rightarrow> writer \<Rightarrow> writer \<Rightarrow> bool"
  for json_bytes uuid where
  observe: "writer_step json_bytes uuid w (observe json_bytes uuid op boundary w)"
| commit: "writer_step json_bytes uuid w (request_commit w)"
| replace: "replace_projection p w = Inr w' \<Longrightarrow> wf_projection p \<Longrightarrow> writer_step json_bytes uuid w w'"
| reject: "writer_step json_bytes uuid w (reject_source w)"
| timer: "w_timer w = Some delay \<Longrightarrow> writer_step json_bytes uuid w (timer_fires uuid w)"
| health: "w_health w \<Longrightarrow> writer_step json_bytes uuid w (health_fires w)"
| flush: "flush_start uuid w = Inr (w', target) \<Longrightarrow> writer_step json_bytes uuid w w'"
| mutation: "mutation_turn uuid target w = (answer, w') \<Longrightarrow> writer_step json_bytes uuid w w'"
| retire: "retire_start w = Inr w' \<Longrightarrow> writer_step json_bytes uuid w w'"
| retired: "w_retiring w \<Longrightarrow> settled \<longrightarrow> w_flight w = None \<Longrightarrow> writer_step json_bytes uuid w (retire_end settled w)"
| close: "writer_step json_bytes uuid w (close_writer w)"

text \<open>The ghost history: the live projection of every revision.\<close>

type_synonym history = "nat \<Rightarrow> projection"

definition note_live :: "writer \<Rightarrow> history \<Rightarrow> history" where
  "note_live w h = h(w_live w := w_projection w)"

text \<open>\<open>fresh f s\<close>: the identifiers that \<open>randomUUID\<close> returns during the call are not in use.\<close>

inductive saving ::
    "('f \<Rightarrow> 's append_fn) \<Rightarrow> ('f \<Rightarrow> bool \<Rightarrow> 's replace_fn) \<Rightarrow> ('f \<Rightarrow> 's \<Rightarrow> bool) \<Rightarrow> bool \<Rightarrow> (operation \<Rightarrow> nat)
     \<Rightarrow> (nat \<Rightarrow> jstr) \<Rightarrow> writer \<times> 's \<times> history \<Rightarrow> writer \<times> 's \<times> history \<Rightarrow> bool"
  for ap rp fresh can_recover json_bytes uuid where
  start: "saving ap rp fresh can_recover json_bytes uuid x x"
| local: "saving ap rp fresh can_recover json_bytes uuid x (w, s, h) \<Longrightarrow> writer_step json_bytes uuid w w' \<Longrightarrow>
    saving ap rp fresh can_recover json_bytes uuid x (w', s, note_live w' h)"
| settled: "saving ap rp fresh can_recover json_bytes uuid x (w, s, h) \<Longrightarrow> w_flight w = Some fl \<Longrightarrow> fresh f s \<Longrightarrow>
    settle_write ap rp can_recover f fl w s = (w', s') \<Longrightarrow>
    saving ap rp fresh can_recover json_bytes uuid x (w', s', h)"

section \<open>The invariant\<close>

definition entry_ops :: "queued \<Rightarrow> operation list" where
  "entry_ops e = (case qe_operation e of None \<Rightarrow> [] | Some op \<Rightarrow> [op])"

text \<open>The entries lead from revision \<open>n\<close> to revision \<open>m\<close> without a gap.\<close>

fun chain :: "history \<Rightarrow> nat \<Rightarrow> queued list \<Rightarrow> nat \<Rightarrow> bool" where
  "chain h n [] m \<longleftrightarrow> n = m"
| "chain h n (e # es) m \<longleftrightarrow> entry_from e = n + 1 \<and> entry_from e \<le> qe_revision e
     \<and> (qe_operation e = None \<longrightarrow> qe_from e \<noteq> None)
     \<and> rfold apply_operation (entry_ops e) (h n) = Inr (h (qe_revision e))
     \<and> chain h (qe_revision e) es m"

definition pending_batch :: "writer \<Rightarrow> batch option" where
  "pending_batch w =
     (case w_flight w of Some (AppendFlight _ b) \<Rightarrow> Some b | Some (ReplaceFlight _ _ _ _) \<Rightarrow> None
      | None \<Rightarrow> w_retry_batch w)"

text \<open>A batch that continues the durable revision.\<close>

definition batch_ok :: "history \<Rightarrow> nat \<Rightarrow> nat \<Rightarrow> batch \<Rightarrow> bool" where
  "batch_ok h durable live b \<longleftrightarrow> bt_mode b = Delta \<and> bt_from b = durable + 1 \<and> bt_from b \<le> bt_revision b
     \<and> bt_revision b \<le> live
     \<and> rfold apply_operation (bt_operations b) (h durable) = Inr (h (bt_revision b))"

text \<open>The file is at the durable revision, or already holds the pending batch.\<close>

definition disk_at :: "disk \<Rightarrow> jstr \<Rightarrow> nat \<Rightarrow> batch option \<Rightarrow> bool" where
  "disk_at d g durable pending \<longleftrightarrow> dk_generation d = g
     \<and> (dk_revision d = durable
        \<or> (\<exists>b. pending = Some b \<and> dk_revision d = bt_revision b \<and> dk_last d = Some (bt_id b)))"

definition candidate_ok :: "history \<Rightarrow> nat \<Rightarrow> (nat \<times> projection) option \<Rightarrow> bool" where
  "candidate_ok h bound cand \<longleftrightarrow> (\<forall>r c. cand = Some (r, c) \<longrightarrow> r \<le> bound \<and> c = h r)"

definition flight_ok :: "writer \<Rightarrow> history \<Rightarrow> (nat \<times> projection) option \<Rightarrow> bool" where
  "flight_ok w h cand \<longleftrightarrow>
     (case w_flight w of
        None \<Rightarrow> True
      | Some (AppendFlight e b) \<Rightarrow>
          e = \<lparr>ct_generation = w_generation w, ct_revision = w_durable w\<rparr>
          \<and> (w_retry_batch w = None \<or> w_retry_batch w = Some b)
      | Some (ReplaceFlight e snapshot target recover) \<Rightarrow>
          w_retry_batch w = None \<and> snapshot = h target \<and> w_durable w \<le> target
          \<and> target \<le> w_live w \<and> candidate_ok h target cand)"

text \<open>The revision that the queue continues.\<close>

definition queue_base :: "writer \<Rightarrow> nat" where
  "queue_base w =
     (case w_flight w of
        Some (ReplaceFlight _ _ target _) \<Rightarrow> target
      | _ \<Rightarrow> (case pending_batch w of Some b \<Rightarrow> bt_revision b | None \<Rightarrow> w_durable w))"

definition replacing :: "writer \<Rightarrow> bool" where
  "replacing w \<longleftrightarrow> w_needs_baseline w \<or>
     (case w_flight w of Some (ReplaceFlight _ _ _ _) \<Rightarrow> True | _ \<Rightarrow> False)"

definition active :: "writer \<Rightarrow> bool" where
  "active w \<longleftrightarrow> \<not> w_closed w \<and> \<not> w_blocked w"

definition saving_ok :: "writer \<Rightarrow> disk \<Rightarrow> (nat \<times> projection) option \<Rightarrow> history \<Rightarrow> bool" where
  "saving_ok w d cand h \<longleftrightarrow>
     w_durable w \<le> w_live w \<and> h (w_live w) = w_projection w \<and> (\<forall>k. wf_projection (h k))
     \<and> dk_revision d \<le> w_live w \<and> dk_content d = h (dk_revision d)
     \<and> candidate_ok h (w_live w) cand
     \<and> (\<forall>b. pending_batch w = Some b \<longrightarrow> batch_ok h (w_durable w) (w_live w) b
          \<and> disk_at d (w_generation w) (w_durable w) (Some b))
     \<and> flight_ok w h cand
     \<and> (\<not> w_blocked w \<longrightarrow> w_complete w)
     \<and> (active w \<and> \<not> replacing w \<longrightarrow> disk_at d (w_generation w) (w_durable w) (pending_batch w))
     \<and> (active w \<and> \<not> w_needs_baseline w \<longrightarrow> chain h (queue_base w) (w_queue w) (w_live w))"

section \<open>Chains of queued entries\<close>

lemma chain_le: "chain h n es m \<Longrightarrow> n \<le> m"
  by (induction es arbitrary: n) force+

lemma chain_append: "chain h n (xs @ ys) m \<longleftrightarrow> (\<exists>k. chain h n xs k \<and> chain h k ys m)"
  by (induction xs arbitrary: n) auto

lemma chain_hist: "chain h n es m \<Longrightarrow> m < k \<Longrightarrow> chain (h(k := p)) n es m"
proof (induction es arbitrary: n)
  case (Cons e es)
  then have "qe_revision e \<le> m" by (auto dest: chain_le)
  with Cons show ?case by auto
qed simp

lemma chain_last: "chain h n es m \<Longrightarrow> es \<noteq> [] \<Longrightarrow> qe_revision (last es) = m"
  by (induction es arbitrary: n) (auto split: if_splits)

lemma chain_operations:
  "chain h n es m \<Longrightarrow> rfold apply_operation (entry_operations es) (h n) = Inr (h m)"
proof (induction es arbitrary: n)
  case (Cons e es)
  have "entry_operations (e # es) = entry_ops e @ entry_operations es"
    by (simp add: entry_operations_def entry_ops_def List.map_filter_def split: option.split)
  with Cons show ?case by (simp add: rfold_append)
qed (simp add: entry_operations_def List.map_filter_def)

lemma take_entries_bounds:
  "take_entries n bytes es = (k, b) \<Longrightarrow> n \<le> k \<and> k \<le> n + length es \<and> (n = 0 \<and> es \<noteq> [] \<longrightarrow> 0 < k)"
proof (induction n bytes es rule: take_entries.induct)
  case (2 n bytes e es)
  then show ?case
    by (cases "n = 0 \<or> bytes + qe_bytes e \<le> batch_bytes") auto
qed simp

lemma queue_batch_ok:
  assumes "chain h n q live" and "q \<noteq> []" and "take_entries 0 0 q = (k, bytes)"
  shows "batch_ok h n live (queue_batch bid (take k q))
    \<and> chain h (bt_revision (queue_batch bid (take k q))) (drop k q) live"
proof -
  have k: "0 < k" "k \<le> length q" using take_entries_bounds [OF assms(3)] assms(2) by auto
  obtain m where m: "chain h n (take k q) m" "chain h m (drop k q) live"
    using assms(1) chain_append [of h n "take k q" "drop k q" live] by auto
  have ne: "take k q \<noteq> []" using k assms(2) by auto
  obtain e es where es: "take k q = e # es" using ne by (cases "take k q") auto
  have "n + 1 = entry_from (hd (take k q))" "entry_from (hd (take k q)) \<le> m"
    using m(1) chain_le [of h "qe_revision e" es m] unfolding es by auto
  then show ?thesis
    using m chain_last [OF m(1) ne] chain_operations [OF m(1)] chain_le [OF m(2)]
    by (simp add: batch_ok_def queue_batch_def)
qed

lemma chain_snoc:
  "chain h n q live \<Longrightarrow> chain (h(live + 1 := p)) live [e] (live + 1) \<Longrightarrow>
   chain (h(live + 1 := p)) n (q @ [e]) (live + 1)"
  unfolding chain_append using chain_hist [of h n q live "live + 1" p] by auto

text \<open>The last entry is extended by one revision.\<close>

lemma chain_extend:
  assumes "chain h n (es @ [e]) live" and "entry_from e' = entry_from e" and "qe_revision e' = live + 1"
    and "qe_operation e' = None \<longrightarrow> qe_from e' \<noteq> None"
    and "\<And>k. rfold apply_operation (entry_ops e) (h k) = Inr (h live) \<Longrightarrow> k \<le> live \<Longrightarrow>
      rfold apply_operation (entry_ops e') (h k) = Inr p"
  shows "chain (h(live + 1 := p)) n (es @ [e']) (live + 1)"
proof -
  obtain k where k: "chain h n es k" "entry_from e = k + 1" "entry_from e \<le> live" "qe_revision e = live"
    "rfold apply_operation (entry_ops e) (h k) = Inr (h live)"
    using assms(1) by (auto simp: chain_append)
  then have "chain (h(live + 1 := p)) n es k" using chain_hist by simp
  moreover have "chain (h(live + 1 := p)) k [e'] (live + 1)"
    using k assms(2,3,4) assms(5) [OF k(5)] by simp
  ultimately show ?thesis unfolding chain_append by blast
qed

lemma chain_last_from:
  "chain h n (es @ [e]) m \<Longrightarrow> qe_operation e = None \<Longrightarrow> \<exists>r. qe_from e = Some r"
  by (auto simp: chain_append)

lemma enqueue_barrier_chain:
  assumes "chain h n q live"
  shows "chain (h(live + 1 := h live)) n (enqueue_barrier (live + 1) q) (live + 1)"
proof (cases "q \<noteq> [] \<and> qe_operation (last q) = None")
  case False
  then have "enqueue_barrier (live + 1) q = q @ [\<lparr>qe_operation = None, qe_revision = live + 1,
      qe_from = Some (live + 1), qe_bytes = 0, qe_boundary = False\<rparr>]"
    by (auto simp: enqueue_barrier_def)
  then show ?thesis
    using chain_snoc [OF assms] by (simp add: entry_from_def entry_ops_def)
next
  case True
  then obtain es e where q: "q = es @ [e]" and e: "qe_operation e = None"
    by (metis append_butlast_last_id)
  obtain r where "qe_from e = Some r" using chain_last_from assms q e by blast
  then have "chain (h(live + 1 := h live)) n (es @ [e\<lparr>qe_revision := live + 1\<rparr>]) (live + 1)"
    using e by (intro chain_extend [OF assms [unfolded q]]) (auto simp: entry_from_def entry_ops_def)
  then show ?thesis using q e by (simp add: enqueue_barrier_def)
qed

lemma enqueue_operation_chain:
  assumes "chain h n q live" and "\<And>k. wf_projection (h k)" and "apply_operation op (h live) = Inr p"
  shows "chain (h(live + 1 := p)) n (enqueue_operation op (live + 1) bytes boundary q) (live + 1)"
proof -
  let ?e = "\<lparr>qe_operation = Some op, qe_revision = live + 1, qe_from = None, qe_bytes = bytes, qe_boundary = boundary\<rparr>"
  have fresh: "chain (h(live + 1 := p)) n (q @ [?e]) (live + 1)"
    using chain_snoc [OF assms(1)] assms(3) by (simp add: entry_from_def entry_ops_def)
  show ?thesis
  proof (cases "enqueue_operation op (live + 1) bytes boundary q = q @ [?e]")
    case True
    with fresh show ?thesis by simp
  next
    case False
    then obtain prev m where q: "q \<noteq> []" "qe_operation (last q) = Some prev" "merge_adjacent prev op = Some m"
      and eq: "enqueue_operation op (live + 1) bytes boundary q = butlast q @ [(last q)\<lparr>qe_from := Some (entry_from (last q)),
         qe_operation := Some m, qe_revision := live + 1, qe_bytes := qe_bytes (last q) + bytes\<rparr>]"
      by (auto simp: enqueue_operation_def Let_def split: option.splits if_splits)
    have split: "chain h n (butlast q @ [last q]) live" using assms(1) q(1) by simp
    have merge: "rfold apply_operation (entry_ops (last q)) (h k) = Inr (h live) \<Longrightarrow> k \<le> live \<Longrightarrow>
        rfold apply_operation [m] (h k) = Inr p" for k
      using merge_adjacent_apply [OF assms(2) q(3), of k] assms(3) q(2)
      by (simp add: entry_ops_def rfold_single)
    show ?thesis
      unfolding eq
      by (rule chain_extend [where e = "last q", OF split])
        (use merge in \<open>simp_all add: entry_from_def entry_ops_def\<close>)
  qed
qed

section \<open>Steps of the writer alone\<close>

lemmas saving_defs = saving_ok_def pending_batch_def flight_ok_def queue_base_def replacing_def active_def

text \<open>Status, timers and byte counts are not part of the invariant.\<close>

lemma saving_ok_cong:
  assumes "w_projection w' = w_projection w" "w_generation w' = w_generation w" "w_live w' = w_live w"
    "w_durable w' = w_durable w" "w_queue w' = w_queue w" "w_needs_baseline w' = w_needs_baseline w"
    "w_complete w' = w_complete w" "w_closed w' = w_closed w" "w_blocked w' = w_blocked w"
    "w_flight w' = w_flight w" "w_retry_batch w' = w_retry_batch w"
  shows "saving_ok w' d c h = saving_ok w d c h"
  unfolding saving_defs assms by (rule refl)

lemma saving_ok_quiet [simp]:
  "saving_ok (fail_save reason st w) d c h = saving_ok w d c h"
  "saving_ok (watch_health w) d c h = saving_ok w d c h"
  "saving_ok (schedule delay w) d c h = saving_ok w d c h"
  "saving_ok (health_fires w) d c h = saving_ok w d c h"
  "saving_ok (w\<lparr>w_timer := t\<rparr>) d c h = saving_ok w d c h"
  "saving_ok (w\<lparr>w_attempt := n\<rparr>) d c h = saving_ok w d c h"
  "saving_ok (w\<lparr>w_retiring := b\<rparr>) d c h = saving_ok w d c h"
  "saving_ok (w\<lparr>w_state := st, w_reason := rs\<rparr>) d c h = saving_ok w d c h"
  by (rule saving_ok_cong; simp add: fail_save_def watch_health_def schedule_def health_fires_def Let_def)+

text \<open>A writer that is closed or blocked keeps what a write in flight needs.\<close>

lemma saving_ok_stop:
  assumes "saving_ok w d c h" and fields: "w_projection w' = w_projection w" "w_generation w' = w_generation w"
    "w_live w' = w_live w" "w_durable w' = w_durable w" "w_flight w' = w_flight w"
    "w_retry_batch w' = w_retry_batch w"
    and "w_closed w' \<or> w_blocked w'" and "\<not> w_blocked w' \<longrightarrow> w_complete w'"
  shows "saving_ok w' d c h"
proof -
  have "\<not> active w'" using assms by (auto simp: active_def)
  moreover have "pending_batch w' = pending_batch w" "flight_ok w' h c = flight_ok w h c"
    unfolding pending_batch_def flight_ok_def fields by (rule refl)+
  ultimately show ?thesis using assms unfolding saving_ok_def by simp
qed

lemma saving_ok_block: "saving_ok w d c h \<Longrightarrow> saving_ok (w\<lparr>w_blocked := True\<rparr>) d c h"
  by (erule saving_ok_stop) simp_all

lemma saving_ok_reject: "saving_ok w d c h \<Longrightarrow> saving_ok (reject_source w) d c h"
  unfolding reject_source_def saving_ok_quiet by (erule saving_ok_stop) simp_all

lemma saving_ok_close: "saving_ok w d c h \<Longrightarrow> saving_ok (close_writer w) d c h"
  by (rule saving_ok_stop) (auto simp: saving_ok_def close_writer_def)

lemma start_write_cases:
  obtains (idle) "start_write uuid w = w"
  | (retry) b where "active w" "w_flight w = None" "w_retry_batch w = Some b"
      "start_write uuid w = w\<lparr>w_flight := Some (AppendFlight
         \<lparr>ct_generation = w_generation w, ct_revision = w_durable w\<rparr> b)\<rparr>"
  | (baseline) "active w" "w_flight w = None" "w_retry_batch w = None" "w_needs_baseline w"
      "start_write uuid w = w\<lparr>w_queue := [], w_queued_bytes := 0, w_needs_baseline := False,
         w_recovery_pending := False, w_flight := Some (ReplaceFlight
           \<lparr>ct_generation = w_generation w, ct_revision = w_durable w\<rparr> (w_projection w) (w_live w) (w_recovery_pending w))\<rparr>"
  | (queue) n bytes where "active w" "w_flight w = None" "w_retry_batch w = None" "\<not> w_needs_baseline w"
      "w_queue w \<noteq> []" "take_entries 0 0 (w_queue w) = (n, bytes)"
      "start_write uuid w = w\<lparr>w_queue := drop n (w_queue w), w_queued_bytes := w_queued_bytes w - bytes,
         w_flight := Some (AppendFlight \<lparr>ct_generation = w_generation w, ct_revision = w_durable w\<rparr>
           (queue_batch (uuid (w_next_id w)) (take n (w_queue w)))),
         w_next_id := w_next_id w + 1\<rparr>"
proof (cases "w_flight w \<noteq> None \<or> w_closed w \<or> w_retiring w \<or> w_blocked w")
  case True
  then show ?thesis by (intro idle) (auto simp: start_write_def)
next
  case False
  then have act: "active w" "w_flight w = None" by (simp_all add: active_def)
  have body: "start_write uuid w = (let expected = \<lparr>ct_generation = w_generation w, ct_revision = w_durable w\<rparr> in
        case w_retry_batch w of
          Some b \<Rightarrow> w\<lparr>w_flight := Some (AppendFlight expected b)\<rparr>
        | None \<Rightarrow>
            if w_needs_baseline w then
              (if \<not> w_complete w then w
               else w\<lparr>w_queue := [], w_queued_bytes := 0, w_needs_baseline := False,
                      w_recovery_pending := False,
                      w_flight := Some (ReplaceFlight expected (w_projection w) (w_live w) (w_recovery_pending w))\<rparr>)
            else if w_queue w = [] then w
            else let (n, bytes) = take_entries 0 0 (w_queue w) in
              w\<lparr>w_queue := drop n (w_queue w), w_queued_bytes := w_queued_bytes w - bytes,
                w_flight := Some (AppendFlight expected (queue_batch (uuid (w_next_id w)) (take n (w_queue w)))),
                w_next_id := w_next_id w + 1\<rparr>)"
    using False by (simp only: start_write_def if_False)
  show ?thesis
  proof (cases "w_retry_batch w")
    case (Some b)
    with body have "start_write uuid w = w\<lparr>w_flight := Some (AppendFlight
         \<lparr>ct_generation = w_generation w, ct_revision = w_durable w\<rparr> b)\<rparr>"
      by (simp only: Let_def option.case)
    with act Some show ?thesis by (intro retry) assumption+
  next
    case None
    show ?thesis
    proof (cases "w_needs_baseline w")
      case True
      show ?thesis
      proof (cases "w_complete w")
        case True
        with body None \<open>w_needs_baseline w\<close> show ?thesis
          by (intro baseline act) (simp_all only: Let_def option.case if_True simp_thms if_False)
      next
        case False
        with body None \<open>w_needs_baseline w\<close> show ?thesis
          by (intro idle) (simp_all only: Let_def option.case if_True simp_thms)
      qed
    next
      case no_base: False
      show ?thesis
      proof (cases "w_queue w = []")
        case True
        with body None no_base show ?thesis
          by (intro idle) (simp_all only: Let_def option.case if_True if_False simp_thms)
      next
        case False
        obtain n bytes where take: "take_entries 0 0 (w_queue w) = (n, bytes)"
          by (cases "take_entries 0 0 (w_queue w)")
        with body None no_base False act show ?thesis
          by (intro queue [OF act None no_base False take]) (simp only: Let_def option.case if_False prod.case)
      qed
    qed
  qed
qed

lemma start_write_ok:
  assumes ok: "saving_ok w d c h"
  shows "saving_ok (start_write uuid w) d c h"
proof (cases rule: start_write_cases [of uuid w])
  case idle
  with ok show ?thesis by simp
next
  case (retry b)
  with ok show ?thesis unfolding retry(4) by (simp add: saving_defs)
next
  case baseline
  have live: "w_durable w \<le> w_live w" "h (w_live w) = w_projection w" "candidate_ok h (w_live w) c"
    using ok by (simp_all add: saving_ok_def)
  with ok baseline show ?thesis unfolding baseline(5) by (simp add: saving_defs)
next
  case (queue n bytes)
  have "chain h (w_durable w) (w_queue w) (w_live w)"
    using ok queue by (simp add: saving_defs)
  note batch = queue_batch_ok [OF this queue(5,6), of "uuid (w_next_id w)"]
  have "disk_at d (w_generation w) (w_durable w) None"
    using ok queue by (simp add: saving_defs)
  then have "disk_at d (w_generation w) (w_durable w) (Some b)" for b
    by (auto simp: disk_at_def)
  with ok queue(1-4) batch show ?thesis unfolding queue(7) by (simp add: saving_defs)
qed

lemma batch_ok_bump: "batch_ok h n live b \<Longrightarrow> n \<le> live \<Longrightarrow> batch_ok (h(live + 1 := p)) n (live + 1) b"
  by (auto simp: batch_ok_def)

lemma candidate_ok_bump: "candidate_ok h r cand \<Longrightarrow> r \<le> live \<Longrightarrow> candidate_ok (h(live + 1 := p)) r cand"
  by (fastforce simp: candidate_ok_def)

lemma candidate_ok_mono: "candidate_ok h r cand \<Longrightarrow> r \<le> r' \<Longrightarrow> candidate_ok h r' cand"
  by (fastforce simp: candidate_ok_def)

text \<open>One more revision: the content may change, and the queue continues the chain.\<close>

lemma bump_ok:
  assumes ok: "saving_ok w d c h" and wf: "wf_projection p" and nb: "w_needs_baseline w \<Longrightarrow> nb"
    and q: "active w \<Longrightarrow> \<not> nb \<Longrightarrow> chain (h(w_live w + 1 := p)) (queue_base w) q (w_live w + 1)"
  shows "saving_ok (w\<lparr>w_projection := p, w_live := w_live w + 1, w_queue := q, w_queued_bytes := n,
    w_needs_baseline := nb\<rparr>) d c (h(w_live w + 1 := p))"
proof -
  let ?w = "w\<lparr>w_projection := p, w_live := w_live w + 1, w_queue := q, w_queued_bytes := n, w_needs_baseline := nb\<rparr>"
  have same: "pending_batch ?w = pending_batch w" "queue_base ?w = queue_base w" "active ?w = active w"
    "replacing ?w = (nb \<or> replacing w)"
    using nb by (auto simp: pending_batch_def queue_base_def active_def replacing_def split: option.split flight.split)
  have "flight_ok ?w (h(w_live w + 1 := p)) c"
    using ok candidate_ok_bump
    by (auto simp: saving_ok_def flight_ok_def split: option.splits flight.splits)
  moreover have "candidate_ok (h(w_live w + 1 := p)) (w_live w + 1) c"
    using ok candidate_ok_bump candidate_ok_mono unfolding saving_ok_def by (meson le_add1 order_refl)
  ultimately show ?thesis
    using ok wf q batch_ok_bump unfolding saving_ok_def same by auto
qed

text \<open>The revision and the projection that a step leaves live.\<close>

lemma live_quiet [simp]:
  "w_live (schedule x w) = w_live w" "w_projection (schedule x w) = w_projection w"
  "w_live (watch_health w) = w_live w" "w_projection (watch_health w) = w_projection w"
  "w_live (fail_save r st w) = w_live w" "w_projection (fail_save r st w) = w_projection w"
  by (simp_all add: schedule_def watch_health_def fail_save_def)

lemma live_start_write [simp]:
  "w_live (start_write uuid w) = w_live w" "w_projection (start_write uuid w) = w_projection w"
  by (cases rule: start_write_cases [of uuid w]; simp)+

lemma note_live_id: "saving_ok w d c h \<Longrightarrow> w_live w' = w_live w \<Longrightarrow> w_projection w' = w_projection w \<Longrightarrow> note_live w' h = h"
  by (simp add: note_live_def saving_ok_def fun_upd_idem)

lemma observe_ok:
  assumes ok: "saving_ok w d c h"
  shows "saving_ok (observe json_bytes uuid op boundary w) d c (note_live (observe json_bytes uuid op boundary w) h)"
proof -
  consider "w_closed w" | e where "\<not> w_closed w" "apply_operation op (w_projection w) = Inl e"
    | p where "\<not> w_closed w" "apply_operation op (w_projection w) = Inr p"
    by (cases "apply_operation op (w_projection w)") auto
  then show ?thesis
  proof cases
    case 1
    with ok show ?thesis by (simp add: observe_def note_live_id [OF ok])
  next
    case 2
    have "note_live (reject_source w) h = h"
      by (simp add: note_live_id [OF ok] reject_source_def)
    with 2 ok show ?thesis by (simp add: observe_def saving_ok_reject)
  next
    case (3 p)
    let ?h = "h(w_live w + 1 := p)"
    let ?q = "if w_needs_baseline w then w_queue w
      else enqueue_operation op (w_live w + 1) (json_bytes op) boundary (w_queue w)"
    let ?w = "w\<lparr>w_projection := p, w_live := w_live w + 1, w_queue := ?q,
      w_queued_bytes := (if w_needs_baseline w then w_queued_bytes w else w_queued_bytes w + json_bytes op),
      w_needs_baseline := w_needs_baseline w\<rparr>"
    have wf: "\<And>k. wf_projection (h k)" "h (w_live w) = w_projection w" using ok by (simp_all add: saving_ok_def)
    have "wf_projection p" using wf_apply_operation [of "w_projection w" op p] wf 3 by metis
    moreover have "chain ?h (queue_base w) ?q (w_live w + 1)" if "active w" "\<not> w_needs_baseline w"
    proof -
      have "chain h (queue_base w) (w_queue w) (w_live w)" using ok that by (simp add: saving_ok_def)
      from enqueue_operation_chain [OF this wf(1)] that 3 wf(2) show ?thesis by simp
    qed
    ultimately have "saving_ok ?w d c ?h" by (intro bump_ok ok)
    moreover have shape: "\<exists>x. observe json_bytes uuid op boundary w \<in> {start_write uuid ((watch_health ?w)\<lparr>w_timer := None\<rparr>), schedule x (watch_health ?w)}"
      using 3 by (auto simp: observe_def Let_def)
    ultimately have "saving_ok (observe json_bytes uuid op boundary w) d c ?h"
      by (auto intro!: start_write_ok)
    moreover have "note_live (observe json_bytes uuid op boundary w) h = ?h"
      using shape by (auto simp: note_live_def)
    ultimately show ?thesis by simp
  qed
qed

lemma request_commit_ok:
  assumes ok: "saving_ok w d c h"
  shows "saving_ok (request_commit w) d c (note_live (request_commit w) h)"
proof (cases "w_closed w \<or> w_blocked w")
  case True
  then have "request_commit w = w" by (auto simp: request_commit_def)
  with ok show ?thesis by (simp add: note_live_id [OF ok])
next
  case False
  let ?h = "h(w_live w + 1 := w_projection w)"
  let ?q = "if w_needs_baseline w then w_queue w else enqueue_barrier (w_live w + 1) (w_queue w)"
  let ?w = "w\<lparr>w_projection := w_projection w, w_live := w_live w + 1, w_queue := ?q,
    w_queued_bytes := w_queued_bytes w, w_needs_baseline := w_needs_baseline w\<rparr>"
  have "h (w_live w) = w_projection w" "wf_projection (w_projection w)"
    using ok unfolding saving_ok_def by metis+
  moreover have "chain ?h (queue_base w) ?q (w_live w + 1)" if "active w" "\<not> w_needs_baseline w"
  proof -
    have "chain h (queue_base w) (w_queue w) (w_live w)" using ok that by (simp add: saving_ok_def)
    from enqueue_barrier_chain [OF this] that calculation show ?thesis by simp
  qed
  ultimately have "saving_ok ?w d c ?h" by (intro bump_ok ok)
  moreover have "request_commit w = schedule batch_ms (watch_health ?w)"
    using False by (simp add: request_commit_def Let_def)
  ultimately show ?thesis by (simp add: note_live_def)
qed

lemma replace_projection_ok:
  assumes ok: "saving_ok w d c h" and step: "replace_projection p w = Inr w'" and wf: "wf_projection p"
  shows "saving_ok w' d c (note_live w' h)"
proof -
  let ?w = "w\<lparr>w_projection := p, w_live := w_live w + 1, w_queue := [], w_queued_bytes := 0, w_needs_baseline := True\<rparr>"
  have w': "w' = schedule 0 (watch_health ?w)"
    using step by (auto simp: replace_projection_def split: if_splits)
  have "saving_ok ?w d c (h(w_live w + 1 := p))" by (rule bump_ok [OF ok wf]) simp_all
  then show ?thesis by (simp add: w' note_live_def)
qed

lemma writer_step_ok:
  assumes step: "writer_step json_bytes uuid w w'" and ok: "saving_ok w d c h"
  shows "saving_ok w' d c (note_live w' h)"
  using step
proof cases
  case (observe op boundary)
  with observe_ok [OF ok] show ?thesis by simp
next
  case commit
  with request_commit_ok [OF ok] show ?thesis by simp
next
  case (replace p)
  with replace_projection_ok [OF ok] show ?thesis by simp
next
  case reject
  then have "note_live w' h = h" by (simp add: note_live_id [OF ok] reject_source_def)
  with reject saving_ok_reject [OF ok] show ?thesis by simp
next
  case (timer delay)
  then have "note_live w' h = h" by (simp add: note_live_id [OF ok] timer_fires_def)
  with timer ok show ?thesis by (simp add: timer_fires_def start_write_ok)
next
  case health
  then have "note_live w' h = h" by (simp add: note_live_id [OF ok] health_fires_def Let_def)
  with health ok show ?thesis by simp
next
  case (flush target)
  then have "w' = start_write uuid (w\<lparr>w_timer := None\<rparr>)" by (auto simp: flush_start_def split: if_splits)
  with ok show ?thesis by (simp add: note_live_id [OF ok] start_write_ok)
next
  case (mutation target answer)
  then have "w' = w \<or> w' = start_write uuid (w\<lparr>w_timer := None\<rparr>)"
    by (auto simp: mutation_turn_def Let_def split: if_splits)
  with ok show ?thesis by (auto simp: note_live_id [OF ok] start_write_ok)
next
  case retire
  then have w': "w' = w\<lparr>w_retiring := True, w_timer := None\<rparr>" by (auto simp: retire_start_def split: if_splits)
  have "saving_ok w' d c h = saving_ok w d c h" unfolding w' by (rule saving_ok_cong) simp_all
  with ok w' show ?thesis by (simp add: note_live_id [OF ok])
next
  case (retired settled)
  then have "note_live w' h = h"
    by (simp add: note_live_id [OF ok] retire_end_def close_writer_def)
  with retired ok show ?thesis by (simp add: retire_end_def saving_ok_close)
next
  case close
  then have "note_live w' h = h" by (simp add: note_live_id [OF ok] close_writer_def)
  with close ok show ?thesis by (simp add: saving_ok_close)
qed

section \<open>Settled writes\<close>

lemma after_write_saving: "saving_ok (after_write w) d c h = saving_ok (w\<lparr>w_flight := None\<rparr>) d c h"
  by (simp add: after_write_def Let_def)

lemma write_committed_saving:
  "saving_ok ((write_committed r w)\<lparr>w_flight := None\<rparr>) d c h
   = saving_ok (w\<lparr>w_durable := r, w_retry_batch := None, w_flight := None\<rparr>) d c h"
  by (rule saving_ok_cong) (simp_all add: write_committed_def Let_def)

lemma append_done_ok:
  assumes ok: "saving_ok w d c h" and fl: "w_flight w = Some (AppendFlight e b)"
    and d': "dk_generation d' = w_generation w" "dk_revision d' = bt_revision b" "dk_content d' = h (bt_revision b)"
  shows "saving_ok (after_write (write_committed (bt_revision b) w)) d' c h"
proof -
  have "disk_at d' (w_generation w) (bt_revision b) None" using d' by (simp add: disk_at_def)
  moreover have "bt_revision b \<le> w_live w"
    using ok fl by (simp add: saving_ok_def pending_batch_def batch_ok_def)
  ultimately show ?thesis
    unfolding after_write_saving write_committed_saving
    using ok fl d' by (simp add: saving_defs)
qed

lemma replace_done_ok:
  assumes ok: "saving_ok w d c h" and fl: "w_flight w = Some (ReplaceFlight e snapshot target recover)"
    and d': "dk_generation d' = ct_generation t" "dk_revision d' = ct_revision t" "dk_content d' = h (ct_revision t)"
    and r: "ct_revision t \<le> target"
  shows "saving_ok (after_write (replace_committed t target w)) d' None h"
proof -
  have "disk_at d' (ct_generation t) (ct_revision t) None" using d' by (simp add: disk_at_def)
  moreover have "target \<le> w_live w" using ok fl by (simp add: saving_ok_def flight_ok_def)
  ultimately show ?thesis
    unfolding after_write_saving replace_committed_def write_committed_saving
    using ok fl d' r by (auto simp: saving_defs candidate_ok_def)
qed

text \<open>What \<open>catch\<close> does to the fields of the invariant.\<close>

lemma write_failed_cases:
  obtains (blocked) "saving_ok ((write_failed can_recover err fl w)\<lparr>w_flight := None\<rparr>) d c h
      = saving_ok (w\<lparr>w_blocked := True, w_flight := None\<rparr>) d c h"
  | (recover) "saving_ok ((write_failed can_recover err fl w)\<lparr>w_flight := None\<rparr>) d c h
      = saving_ok (w\<lparr>w_retry_batch := None, w_queue := [], w_needs_baseline := True, w_flight := None\<rparr>) d c h"
  | (retry) e b where "fl = AppendFlight e b" "saving_ok ((write_failed can_recover err fl w)\<lparr>w_flight := None\<rparr>) d c h
      = saving_ok (w\<lparr>w_retry_batch := Some b, w_flight := None\<rparr>) d c h"
  | (rebase) e snapshot target rec where "fl = ReplaceFlight e snapshot target rec"
      "saving_ok ((write_failed can_recover err fl w)\<lparr>w_flight := None\<rparr>) d c h
      = saving_ok (w\<lparr>w_needs_baseline := True, w_flight := None\<rparr>) d c h"
proof (cases fl)
  case (AppendFlight e b)
  show ?thesis
  proof (cases err)
    case IoError
    show ?thesis
      by (rule retry [OF AppendFlight], rule saving_ok_cong)
        (simp_all add: write_failed_def AppendFlight IoError fail_save_def Let_def)
  next
    case InvalidHistory
    show ?thesis
    proof (cases "\<not> w_recovery_attempted w \<and> w_complete w \<and> can_recover")
      case True
      then show ?thesis
        by (intro recover, intro saving_ok_cong)
          (simp_all add: write_failed_def AppendFlight InvalidHistory fail_save_def Let_def)
    next
      case False
      then show ?thesis
        by (intro blocked, intro saving_ok_cong)
          (auto simp add: write_failed_def AppendFlight InvalidHistory fail_save_def Let_def)
    qed
  qed
next
  case (ReplaceFlight e snapshot target rec)
  show ?thesis
  proof (cases rec)
    case True
    then show ?thesis
      by (intro blocked, intro saving_ok_cong)
        (simp_all add: write_failed_def ReplaceFlight fail_save_def Let_def)
  next
    case no: False
    show ?thesis
    proof (cases err)
      case IoError
      show ?thesis
        by (rule rebase [OF ReplaceFlight], rule saving_ok_cong)
          (simp_all add: write_failed_def ReplaceFlight no IoError fail_save_def Let_def)
    next
      case InvalidHistory
      show ?thesis
      proof (cases "\<not> w_recovery_attempted w \<and> w_complete w \<and> can_recover")
        case True
        then show ?thesis
          by (intro recover, intro saving_ok_cong)
            (simp_all add: write_failed_def ReplaceFlight no InvalidHistory fail_save_def Let_def)
      next
        case False
        then show ?thesis
          by (intro blocked, intro saving_ok_cong)
            (auto simp add: write_failed_def ReplaceFlight no InvalidHistory fail_save_def Let_def)
      qed
    qed
  qed
qed

text \<open>The facts of the invariant on the file alone, after a failed write.\<close>

definition disk_ok :: "disk \<Rightarrow> (nat \<times> projection) option \<Rightarrow> nat \<Rightarrow> history \<Rightarrow> bool" where
  "disk_ok d c live h \<longleftrightarrow>
     dk_revision d \<le> live \<and> dk_content d = h (dk_revision d) \<and> candidate_ok h live c"

lemma append_failed_ok:
  assumes ok: "saving_ok w d c h" and fl: "w_flight w = Some (AppendFlight e b)"
    and d': "disk_at d' (w_generation w) (w_durable w) (Some b)" "disk_ok d' c (w_live w) h"
  shows "saving_ok (after_write (write_failed can_recover err (AppendFlight e b) w)) d' c h"
proof (cases rule: write_failed_cases [of can_recover err "AppendFlight e b" w d' c h])
  case blocked
  have "w_retry_batch w = Some b'  \<Longrightarrow> b' = b" for b' using ok fl by (auto simp: saving_ok_def flight_ok_def)
  with ok fl d' show ?thesis
    unfolding after_write_saving blocked by (auto simp: saving_defs disk_ok_def)
next
  case recover
  with ok fl d' show ?thesis
    unfolding after_write_saving recover by (simp add: saving_defs disk_ok_def)
next
  case (retry e' b')
  then have "b' = b" by simp
  with ok fl d' show ?thesis
    unfolding after_write_saving retry(2) by (simp add: saving_defs disk_ok_def)
next
  case (rebase e' snapshot target rec)
  then show ?thesis by simp
qed

lemma replace_failed_ok:
  assumes ok: "saving_ok w d c h" and fl: "w_flight w = Some (ReplaceFlight e snapshot target rec)"
    and d': "disk_ok d' c' (w_live w) h"
  shows "saving_ok (after_write (write_failed can_recover err (ReplaceFlight e snapshot target rec) w)) d' c' h"
proof (cases rule: write_failed_cases [of can_recover err "ReplaceFlight e snapshot target rec" w d' c' h])
  case blocked
  with ok fl d' show ?thesis
    unfolding after_write_saving blocked by (simp add: saving_defs disk_ok_def)
next
  case recover
  with ok fl d' show ?thesis
    unfolding after_write_saving recover by (simp add: saving_defs disk_ok_def)
next
  case (retry e' b')
  then show ?thesis by simp
next
  case (rebase e' snapshot' target' rec')
  with ok fl d' show ?thesis
    unfolding after_write_saving rebase(2) by (simp add: saving_defs disk_ok_def)
qed

section \<open>The storage contract\<close>

definition advance :: "disk \<Rightarrow> batch \<Rightarrow> projection \<Rightarrow> disk" where
  "advance d b c = d\<lparr>dk_revision := bt_revision b, dk_last := Some (bt_id b), dk_content := c\<rparr>"

text \<open>The calls a writer makes: a batch that continues the expected revision of the expected generation.\<close>

definition append_call :: "disk \<Rightarrow> commit_target \<Rightarrow> batch \<Rightarrow> bool" where
  "append_call d e b \<longleftrightarrow> dk_generation d = ct_generation e \<and> bt_mode b = Delta
     \<and> bt_from b = ct_revision e + 1 \<and> bt_from b \<le> bt_revision b"

locale transcript_storage =
  fixes good :: "'s \<Rightarrow> bool"
    and disk_of :: "'s \<Rightarrow> disk"
    and candidate :: "'s \<Rightarrow> (nat \<times> projection) option"
    and append_to :: "'f \<Rightarrow> 's \<Rightarrow> commit_target \<Rightarrow> batch \<Rightarrow> 's \<times> storage_error option"
    and replace_by :: "'f \<Rightarrow> bool \<Rightarrow> 's \<Rightarrow> commit_target \<Rightarrow> projection \<Rightarrow> nat \<Rightarrow> 's \<times> (storage_error + commit_target)"
    and fresh :: "'f \<Rightarrow> 's \<Rightarrow> bool"
  assumes append_next:
      "good s \<Longrightarrow> append_to f s e b = (s', r) \<Longrightarrow> append_call (disk_of s) e b \<Longrightarrow>
       dk_revision (disk_of s) = ct_revision e \<Longrightarrow>
       rfold apply_operation (bt_operations b) (dk_content (disk_of s)) = Inr c \<Longrightarrow>
       good s' \<and> candidate s' = candidate s
       \<and> (disk_of s' = advance (disk_of s) b c \<or> (r \<noteq> None \<and> disk_of s' = disk_of s))"
    and append_again:
      "good s \<Longrightarrow> append_to f s e b = (s', r) \<Longrightarrow> append_call (disk_of s) e b \<Longrightarrow>
       dk_revision (disk_of s) = bt_revision b \<Longrightarrow> dk_last (disk_of s) = Some (bt_id b) \<Longrightarrow>
       good s' \<and> candidate s' = candidate s \<and> disk_of s' = disk_of s"
    and replace_done:
      "good s \<Longrightarrow> fresh f s \<Longrightarrow> replace_by f recover s e snapshot revision = (s', Inr t) \<Longrightarrow> wf_projection snapshot \<Longrightarrow>
       good s' \<and> candidate s' = None \<and> dk_generation (disk_of s') = ct_generation t \<and> dk_revision (disk_of s') = ct_revision t
       \<and> (ct_revision t, dk_content (disk_of s')) = (case candidate s of None \<Rightarrow> (revision, snapshot) | Some rc \<Rightarrow> rc)"
    and replace_failed:
      "good s \<Longrightarrow> fresh f s \<Longrightarrow> replace_by f recover s e snapshot revision = (s', Inl err) \<Longrightarrow> wf_projection snapshot \<Longrightarrow>
       good s' \<and> candidate s' \<in> {candidate s, Some (case candidate s of None \<Rightarrow> (revision, snapshot) | Some rc \<Rightarrow> rc)}
       \<and> (disk_of s' = disk_of s \<or> candidate s' = Some (dk_revision (disk_of s'), dk_content (disk_of s')))"
begin

abbreviation settle :: "bool \<Rightarrow> 'f \<Rightarrow> flight \<Rightarrow> writer \<Rightarrow> 's \<Rightarrow> writer \<times> 's" where
  "settle \<equiv> settle_write append_to replace_by"

text \<open>What an append leaves in the file, success or not.\<close>

lemma append_result:
  assumes good: "good s" and run: "append_to f s e b = (s', r)"
    and e: "e = \<lparr>ct_generation = g, ct_revision = n\<rparr>" and b: "batch_ok h n live b"
    and at: "disk_at (disk_of s) g n (Some b)" and h: "dk_content (disk_of s) = h (dk_revision (disk_of s))"
  shows "good s' \<and> candidate s' = candidate s
    \<and> disk_at (disk_of s') g n (Some b) \<and> dk_content (disk_of s') = h (dk_revision (disk_of s'))
    \<and> dk_revision (disk_of s') \<le> max live (dk_revision (disk_of s))
    \<and> (r = None \<longrightarrow> dk_revision (disk_of s') = bt_revision b)"
proof -
  have call: "append_call (disk_of s) e b"
    using e b at by (simp add: append_call_def batch_ok_def disk_at_def)
  show ?thesis
  proof (cases "dk_revision (disk_of s) = n")
    case True
    then have "rfold apply_operation (bt_operations b) (dk_content (disk_of s)) = Inr (h (bt_revision b))"
      using b h by (simp add: batch_ok_def)
    from append_next [OF good run call _ this] True e b at h show ?thesis
      by (auto simp: advance_def disk_at_def batch_ok_def)
  next
    case False
    then have "dk_revision (disk_of s) = bt_revision b" "dk_last (disk_of s) = Some (bt_id b)"
      using at by (auto simp: disk_at_def)
    from append_again [OF good run call this] this at h show ?thesis by auto
  qed
qed

lemma settle_ok:
  assumes good: "good s" and ok: "saving_ok w (disk_of s) (candidate s) h" and fl: "w_flight w = Some fl"
    and fresh: "fresh f s" and step: "settle can_recover f fl w s = (w', s')"
  shows "good s' \<and> saving_ok w' (disk_of s') (candidate s') h"
proof (cases fl)
  case (AppendFlight e b)
  obtain r where run: "append_to f s e b = (s', r)"
    using step AppendFlight by (auto simp: settle_write_def split: prod.splits option.splits)
  have b: "batch_ok h (w_durable w) (w_live w) b" "disk_at (disk_of s) (w_generation w) (w_durable w) (Some b)"
    using ok fl AppendFlight by (simp_all add: saving_ok_def pending_batch_def)
  have e: "e = \<lparr>ct_generation = w_generation w, ct_revision = w_durable w\<rparr>"
    using ok fl AppendFlight by (simp add: saving_ok_def flight_ok_def)
  have disk: "dk_content (disk_of s) = h (dk_revision (disk_of s))" "dk_revision (disk_of s) \<le> w_live w"
    "candidate_ok h (w_live w) (candidate s)"
    using ok by (simp_all add: saving_ok_def)
  note res = append_result [OF good run e b disk(1)]
  then have cand: "candidate s' = candidate s" and live: "dk_revision (disk_of s') \<le> w_live w"
    using disk(2) by auto
  show ?thesis
  proof (cases r)
    case None
    then have "w' = after_write (write_committed (bt_revision b) w)"
      using step AppendFlight run by (simp add: settle_write_def)
    with None fl AppendFlight res cand show ?thesis
      using append_done_ok [OF ok, of e b "disk_of s'"] by (simp add: disk_at_def)
  next
    case (Some err)
    then have "w' = after_write (write_failed can_recover err (AppendFlight e b) w)"
      using step AppendFlight run by (simp add: settle_write_def)
    with fl AppendFlight res disk cand live show ?thesis
      using append_failed_ok [OF ok, of e b "disk_of s'"] by (simp add: disk_ok_def)
  qed
next
  case (ReplaceFlight e snapshot target rec)
  obtain r where run: "replace_by f rec s e snapshot target = (s', r)"
    using step ReplaceFlight by (auto simp: settle_write_def split: prod.splits sum.splits)
  have snap: "snapshot = h target" "target \<le> w_live w" "candidate_ok h target (candidate s)" "wf_projection snapshot"
    using ok fl ReplaceFlight by (auto simp: saving_ok_def flight_ok_def)
  have disk: "dk_content (disk_of s) = h (dk_revision (disk_of s))" "dk_revision (disk_of s) \<le> w_live w"
    using ok by (simp_all add: saving_ok_def)
  define next_candidate where "next_candidate = (case candidate s of None \<Rightarrow> (target, snapshot) | Some rc \<Rightarrow> rc)"
  have next_ok: "candidate_ok h target (Some next_candidate)"
    using snap by (auto simp: next_candidate_def candidate_ok_def split: option.splits)
  then have cand: "fst next_candidate \<le> target" "snd next_candidate = h (fst next_candidate)"
    unfolding candidate_ok_def by (metis prod.collapse)+
  show ?thesis
  proof (cases r)
    case (Inr t)
    then have "w' = after_write (replace_committed t target w)"
      using step ReplaceFlight run by (simp add: settle_write_def)
    moreover have "good s'" "candidate s' = None" "dk_generation (disk_of s') = ct_generation t"
      "dk_revision (disk_of s') = ct_revision t" "(ct_revision t, dk_content (disk_of s')) = next_candidate"
      using replace_done [OF good fresh run [unfolded Inr] snap(4)] unfolding next_candidate_def by simp_all
    ultimately show ?thesis
      using replace_done_ok [OF ok, of e snapshot target rec "disk_of s'" t] fl ReplaceFlight cand
      by (metis fst_conv snd_conv)
  next
    case (Inl err)
    then have w': "w' = after_write (write_failed can_recover err (ReplaceFlight e snapshot target rec) w)"
      using step ReplaceFlight run by (simp add: settle_write_def)
    have fail: "good s'" "candidate s' \<in> {candidate s, Some next_candidate}"
      "disk_of s' = disk_of s \<or> candidate s' = Some (dk_revision (disk_of s'), dk_content (disk_of s'))"
      using replace_failed [OF good fresh run [unfolded Inl] snap(4)] unfolding next_candidate_def by simp_all
    have "candidate_ok h target (candidate s')" using fail(2) snap(3) next_ok by auto
    then have "candidate_ok h (w_live w) (candidate s')" using snap(2) by (rule candidate_ok_mono)
    moreover from this have "dk_revision (disk_of s') \<le> w_live w \<and> dk_content (disk_of s') = h (dk_revision (disk_of s'))"
      using fail(3) disk by (auto simp: candidate_ok_def)
    ultimately show ?thesis
      unfolding w' using fail(1) fl ReplaceFlight
      by (intro conjI replace_failed_ok [OF ok]) (simp_all add: disk_ok_def)
  qed
qed

lemma saving_keeps:
  assumes "saving append_to replace_by fresh can_recover json_bytes uuid x y" and "x = (w\<^sub>0, s\<^sub>0, h\<^sub>0)"
    and "good s\<^sub>0" and "saving_ok w\<^sub>0 (disk_of s\<^sub>0) (candidate s\<^sub>0) h\<^sub>0" and "y = (w, s, h)"
  shows "good s \<and> saving_ok w (disk_of s) (candidate s) h"
  using assms
proof (induction arbitrary: w s h rule: saving.induct)
  case (local x w' s' h' w'')
  then show ?case using writer_step_ok by blast
next
  case (settled x w' s' h' fl f w'' s'')
  then show ?case using settle_ok by blast
qed simp

end

end
