(* ===== verification/TranscriptFile.thy ===== *)
theory TranscriptFile
  imports JsonText TranscriptSaving
begin

text \<open>
  The transcript file of session-transcript/file.ts at the level of its rows: a header, complete
  batch rows, and the code units after the last newline. An append recognises its own earlier
  attempt and the torn part of it; a replacement builds a baseline candidate, reads it back, and
  renames it over the file. Complete rows are compared as values, torn ones as text. A fault script says where the file system fails. The per-session lock
  makes each call one step.
\<close>

section \<open>State\<close>

datatype disk_file =
    Missing
  | TornHeader nat
  | Rows header "batch list" jstr

record cursor =
  cu_target :: commit_target
  cu_rows :: nat
  cu_inode :: nat

record replacement =
  rp_expected :: commit_target
  rp_generation :: jstr
  rp_revision :: nat
  rp_header :: header
  rp_rows :: "batch list"
  rp_recover :: bool

record transcript_file =
  tf_session :: jstr
  tf_generation :: jstr
  tf_create :: bool
  tf_recover_tail :: bool
  tf_file :: disk_file
  tf_inode :: nat
  tf_cursor :: "cursor option"
  tf_created :: bool
  tf_pending :: "replacement option"

text \<open>
  Where a call fails: opening or creating the file, writing (after some code units of the row),
  syncing, publishing the birth; writing the candidate; the replacement intent. The last two
  fields are the identifiers \<open>randomUUID\<close> returns.
\<close>

record faults =
  ft_open :: bool
  ft_header :: "nat option"
  ft_write :: "nat option"
  ft_sync :: bool
  ft_birth :: bool
  ft_candidate :: bool
  ft_intent :: bool
  ft_generation :: jstr
  ft_ids :: "nat \<Rightarrow> jstr"

section \<open>Reading\<close>

text \<open>The decoder on whole rows: the result, the baseline flag and the number of accepted rows.\<close>

fun read_rows :: "decoded \<Rightarrow> bool \<Rightarrow> nat \<Rightarrow> batch list \<Rightarrow> decoded \<times> bool \<times> nat" where
  "read_rows r done n [] = (r, done, n)"
| "read_rows r done n (b # bs) =
     (case accept_batch done r [] b of
        Inl (r', done') \<Rightarrow> read_rows r' done' (n + 1) bs
      | Inr r' \<Rightarrow> (r'\<lparr>dr_tail := Invalid\<rparr>, done, n))"

definition header_result :: "header \<Rightarrow> decoded" where
  "header_result hdr = \<lparr>dr_header = hdr, dr_projection = create_projection,
     dr_revision = hd_base_revision hdr, dr_last_batch = None, dr_valid_bytes = 1, dr_tail = Clean\<rparr>"

definition read_file :: "disk_file \<Rightarrow> storage_error + decoded \<times> nat" where
  "read_file file =
     (case file of
        Missing \<Rightarrow> Inl IoError
      | TornHeader _ \<Rightarrow> Inl InvalidHistory
      | Rows hdr bs torn \<Rightarrow>
          (case read_rows (header_result hdr) (\<not> hd_baseline hdr) 0 bs of
             (r, done, n) \<Rightarrow>
               if \<not> done then Inl InvalidHistory
               else Inr (if torn \<noteq> [] \<and> dr_tail r = Clean then r\<lparr>dr_tail := Incomplete\<rparr> else r, n)))"

section \<open>Append\<close>

definition birth_header :: "transcript_file \<Rightarrow> header" where
  "birth_header tf = \<lparr>hd_session = tf_session tf, hd_generation = tf_generation tf,
     hd_base_revision = 0, hd_baseline = False, hd_source_generation = None\<rparr>"

text \<open>
  \<open>openForAppend\<close> and the repair of a header that this instance created: the rows to append to.
\<close>

definition open_rows :: "faults \<Rightarrow> transcript_file \<Rightarrow> transcript_file \<times> (storage_error + header \<times> batch list \<times> jstr)" where
  "open_rows f tf =
     (if ft_open f then (tf, Inl IoError)
      else case tf_file tf of
        Rows hdr bs torn \<Rightarrow> (tf, Inr (hdr, bs, torn))
      | TornHeader _ \<Rightarrow>
          if tf_created tf
          then (case ft_header f of
                  Some n \<Rightarrow> (tf\<lparr>tf_file := TornHeader n\<rparr>, Inl IoError)
                | None \<Rightarrow> (tf\<lparr>tf_file := Rows (birth_header tf) [] []\<rparr>, Inr (birth_header tf, [], [])))
          else (tf, Inl InvalidHistory)
      | Missing \<Rightarrow>
          if \<not> tf_create tf then (tf, Inl IoError)
          else (case ft_header f of
                  Some n \<Rightarrow> (tf\<lparr>tf_file := TornHeader n, tf_created := True, tf_inode := tf_inode tf + 1\<rparr>, Inl IoError)
                | None \<Rightarrow> (tf\<lparr>tf_file := Rows (birth_header tf) [] [], tf_created := True,
                       tf_inode := tf_inode tf + 1\<rparr>, Inr (birth_header tf, [], []))))"

definition rows_text :: "(jstr \<Rightarrow> 256 word) \<Rightarrow> batch list \<Rightarrow> jstr" where
  "rows_text sha bs = concat (map (row_text sha) bs)"

text \<open>
  Where the batch goes: the number of rows that stay, whether the batch is already there, and the
  cursor that is kept even when the write fails.
\<close>

definition locate_cached :: "(jstr \<Rightarrow> 256 word) \<Rightarrow> batch \<Rightarrow> cursor \<Rightarrow> batch list \<Rightarrow> jstr \<Rightarrow> storage_error + nat \<times> bool" where
  "locate_cached sha b cu bs torn =
     (let line = row_text sha b; rest = rows_text sha (drop (cu_rows cu) bs) @ torn in
      if length rest > length line then Inl InvalidHistory
      else if rest \<noteq> take (length rest) line then Inl InvalidHistory
      else Inr (cu_rows cu, length rest = length line))"

definition locate_read :: "(jstr \<Rightarrow> 256 word) \<Rightarrow> transcript_file \<Rightarrow> commit_target \<Rightarrow> batch
    \<Rightarrow> header \<Rightarrow> batch list \<Rightarrow> jstr \<Rightarrow> storage_error + nat \<times> bool" where
  "locate_read sha tf e b hdr bs torn =
     rbind (read_file (Rows hdr bs torn)) (\<lambda>(r, n).
       if hd_generation hdr \<noteq> ct_generation e \<or> dr_tail r = Invalid then Inl InvalidHistory
       else let written = (dr_revision r = bt_revision b \<and> dr_last_batch r = Some (bt_id b)
                \<and> dr_tail r = Clean \<and> bs \<noteq> [] \<and> last bs = b) in
         if \<not> written \<and> dr_revision r \<noteq> ct_revision e then Inl InvalidHistory
         else if written then Inr (length bs - 1, True)
         else if torn \<noteq> [] \<and> \<not> (tf_recover_tail tf \<and> dr_tail r = Incomplete)
                 \<and> torn \<noteq> take (length torn) (row_text sha b) then Inl InvalidHistory
         else Inr (n, False))"

definition uses_cursor :: "transcript_file \<Rightarrow> commit_target \<Rightarrow> batch list \<Rightarrow> bool" where
  "uses_cursor tf e bs \<longleftrightarrow>
     (case tf_cursor tf of None \<Rightarrow> False
      | Some c \<Rightarrow> cu_target c = e \<and> cu_inode c = tf_inode tf \<and> cu_rows c \<le> length bs)"

definition locate :: "(jstr \<Rightarrow> 256 word) \<Rightarrow> transcript_file \<Rightarrow> commit_target \<Rightarrow> batch
    \<Rightarrow> header \<Rightarrow> batch list \<Rightarrow> jstr \<Rightarrow> storage_error + nat \<times> bool" where
  "locate sha tf e b hdr bs torn =
     (if uses_cursor tf e bs
      then locate_cached sha b (the (tf_cursor tf)) bs torn
      else locate_read sha tf e b hdr bs torn)"

text \<open>Where the write of a row stops, if it does not reach its end.\<close>

definition write_stop :: "faults \<Rightarrow> jstr \<Rightarrow> nat option" where
  "write_stop f line =
     (case ft_write f of Some k \<Rightarrow> if k < length line then Some k else None | None \<Rightarrow> None)"

definition append_file :: "(jstr \<Rightarrow> 256 word) \<Rightarrow> faults \<Rightarrow> transcript_file \<Rightarrow> commit_target \<Rightarrow> batch
    \<Rightarrow> transcript_file \<times> storage_error option" where
  "append_file sha f tf e b =
     (case encode_transcript_batch sha b of
        Inl _ \<Rightarrow> (tf, Some IoError)
      | Inr line \<Rightarrow>
        (case open_rows f tf of
           (tf1, Inl err) \<Rightarrow> (tf1, Some err)
         | (tf1, Inr (hdr, bs, torn)) \<Rightarrow>
           (case locate sha tf1 e b hdr bs torn of
              Inl err \<Rightarrow> (tf1, Some err)
            | Inr (n, written) \<Rightarrow>
                let tf2 = tf1\<lparr>tf_cursor := Some \<lparr>cu_target = e, cu_rows = n, cu_inode = tf_inode tf1\<rparr>\<rparr>
                in case (written, write_stop f line) of
                  (False, Some k) \<Rightarrow> (tf2\<lparr>tf_file := Rows hdr (take n bs) (take k line)\<rparr>, Some IoError)
                | _ \<Rightarrow>
                  let tf3 = (if written then tf2 else tf2\<lparr>tf_file := Rows hdr (take n bs @ [b]) []\<rparr>) in
                  if ft_sync f \<or> ft_birth f then (tf3, Some IoError)
                  else (tf3\<lparr>tf_cursor := Some \<lparr>cu_target = \<lparr>ct_generation = ct_generation e, ct_revision = bt_revision b\<rparr>,
                                             cu_rows = n + 1, cu_inode = tf_inode tf1\<rparr>, tf_created := False\<rparr>, None))))"

section \<open>Replacement\<close>

definition baseline_rows :: "(nat \<Rightarrow> jstr) \<Rightarrow> nat \<Rightarrow> projection \<Rightarrow> batch list" where
  "baseline_rows ids revision p =
     (let ops = baseline_operations p;
          row = (\<lambda>i xs final. \<lparr>bt_id = ids i, bt_mode = Baseline, bt_from = 0, bt_revision = revision,
                               bt_operations = xs, bt_end = final\<rparr>)
      in map (\<lambda>(i, op). row i [op] False) (enumerate 0 ops) @ [row (length ops) [] True])"

text \<open>
  The read-back check: a clean candidate at the revision whose messages are the snapshot's in
  order and whose turns are the snapshot's.
\<close>

definition candidate_matches :: "projection \<Rightarrow> nat \<Rightarrow> decoded \<Rightarrow> bool" where
  "candidate_matches snapshot revision r \<longleftrightarrow>
     dr_tail r = Clean \<and> dr_revision r = revision
     \<and> length (turns (dr_projection r)) = length (turns snapshot)
     \<and> list_all (\<lambda>(k, t). map_of (turns (dr_projection r)) k = Some t) (turns snapshot)
     \<and> messages (dr_projection r) = messages snapshot"

definition publish :: "faults \<Rightarrow> transcript_file \<Rightarrow> replacement \<Rightarrow> transcript_file \<times> (storage_error + commit_target)" where
  "publish f tf rp =
     (let source = read_file (tf_file tf);
          published = (case source of Inl _ \<Rightarrow> False
            | Inr (r, _) \<Rightarrow> hd_generation (dr_header r) = rp_generation rp \<and> dr_revision r = rp_revision rp \<and> dr_tail r = Clean);
          empty_source = (case source of Inl _ \<Rightarrow> False
            | Inr (r, _) \<Rightarrow> rp_recover rp \<and> dr_tail r = Clean \<and> dr_revision r = 0 \<and> dr_last_batch r = None
                \<and> \<not> hd_baseline (dr_header r));
          accepted = (case source of
              Inr (r, _) \<Rightarrow> published \<or> empty_source
                \<or> (hd_generation (dr_header r) = ct_generation (rp_expected rp)
                   \<and> dr_revision r = ct_revision (rp_expected rp)
                   \<and> (dr_tail r = Clean \<or> (tf_recover_tail tf \<and> dr_tail r = Incomplete)))
            | Inl _ \<Rightarrow> (tf_file tf = Missing \<and> tf_create tf \<and> ct_revision (rp_expected rp) = 0)
                \<or> (rp_recover rp \<and> tf_file tf = TornHeader 0));
          error = (if tf_file tf = Missing then IoError else InvalidHistory)
      in if \<not> accepted then (tf, Inl error)
         else let tf1 = (case (published, tf_file tf) of (False, Rows hdr bs torn) \<Rightarrow> tf\<lparr>tf_file := Rows hdr bs []\<rparr> | _ \<Rightarrow> tf) in
           if \<not> published \<and> ft_intent f then (tf1, Inl IoError)
           else let tf2 = (if published then tf1 else tf1\<lparr>tf_file := Rows (rp_header rp) (rp_rows rp) [], tf_inode := tf_inode tf1 + 1\<rparr>) in
             if ft_sync f \<or> ft_birth f then (tf2, Inl IoError)
             else let target = \<lparr>ct_generation = rp_generation rp, ct_revision = rp_revision rp\<rparr> in
               (tf2\<lparr>tf_cursor := Some \<lparr>cu_target = target, cu_rows = length (rp_rows rp), cu_inode = tf_inode tf2\<rparr>, tf_pending := None\<rparr>,
                Inr target))"

definition build_candidate :: "faults \<Rightarrow> transcript_file \<Rightarrow> bool \<Rightarrow> commit_target \<Rightarrow> projection \<Rightarrow> nat \<Rightarrow> replacement" where
  "build_candidate f tf recover e snapshot revision =
     \<lparr>rp_expected = e, rp_generation = ft_generation f, rp_revision = revision,
      rp_header = \<lparr>hd_session = tf_session tf, hd_generation = ft_generation f, hd_base_revision = revision,
        hd_baseline = True, hd_source_generation = Some (JStr (ct_generation e))\<rparr>,
      rp_rows = baseline_rows (ft_ids f) revision snapshot, rp_recover = recover\<rparr>"

definition replace_file :: "faults \<Rightarrow> bool \<Rightarrow> transcript_file \<Rightarrow> commit_target \<Rightarrow> projection \<Rightarrow> nat
    \<Rightarrow> transcript_file \<times> (storage_error + commit_target)" where
  "replace_file f recover tf e snapshot revision =
     (case tf_pending tf of
        Some rp \<Rightarrow> publish f tf rp
      | None \<Rightarrow>
          if ft_candidate f then (tf, Inl IoError)
          else let rp = build_candidate f tf recover e snapshot revision in
            (case read_file (Rows (rp_header rp) (rp_rows rp) []) of
               Inl err \<Rightarrow> (tf, Inl err)
             | Inr (r, _) \<Rightarrow>
                 if candidate_matches snapshot revision r
                 then publish f (tf\<lparr>tf_pending := Some rp\<rparr>) rp
                 else (tf, Inl InvalidHistory)))"

definition discard_candidate :: "transcript_file \<Rightarrow> transcript_file" where
  "discard_candidate tf = tf\<lparr>tf_pending := None\<rparr>"

section \<open>Rows that a reader accepts\<close>

fun feed :: "decoded \<times> bool \<Rightarrow> batch list \<Rightarrow> (decoded \<times> bool) option" where
  "feed rd [] = Some rd"
| "feed (r, done) (b # bs) =
     (case accept_batch done r [] b of Inl rd \<Rightarrow> feed rd bs | Inr _ \<Rightarrow> None)"

lemma feed_append: "feed rd (xs @ ys) = Option.bind (feed rd xs) (\<lambda>rd'. feed rd' ys)"
  by (induction rd xs rule: feed.induct) (auto split: sum.splits)

lemma accept_keeps:
  "accept_batch done r line b = Inl (r', done') \<Longrightarrow> dr_header r' = dr_header r \<and> dr_tail r' = dr_tail r"
  by (auto simp: accept_batch_def split: sum.splits prod.splits option.splits)

lemma feed_keeps:
  "feed rd bs = Some rd' \<Longrightarrow> dr_header (fst rd') = dr_header (fst rd) \<and> dr_tail (fst rd') = dr_tail (fst rd)"
proof (induction rd bs arbitrary: rd' rule: feed.induct)
  case (2 r "done" b bs)
  then obtain r1 d1 where "accept_batch done r [] b = Inl (r1, d1)" "feed (r1, d1) bs = Some rd'"
    by (auto split: sum.splits)
  with 2 accept_keeps [of "done" r "[]" b r1 d1] show ?case by auto
qed simp

lemma read_rows_feed:
  "feed (r, done) bs = Some (r', done') \<Longrightarrow> read_rows r done n bs = (r', done', n + length bs)"
proof (induction bs arbitrary: r "done" n)
  case (Cons b bs)
  then show ?case by (auto split: sum.splits)
qed simp

lemma read_rows_refused:
  "feed (r, done) bs = None \<Longrightarrow> dr_tail (fst (read_rows r done n bs)) = Invalid"
proof (induction bs arbitrary: r "done" n)
  case (Cons b bs)
  then show ?case by (auto split: sum.splits)
qed simp

definition rows_read :: "header \<Rightarrow> batch list \<Rightarrow> decoded \<Rightarrow> bool" where
  "rows_read hdr bs r \<longleftrightarrow> feed (header_result hdr, \<not> hd_baseline hdr) bs = Some (r, True)"

lemma rows_read_clean: "rows_read hdr bs r \<Longrightarrow> dr_tail r = Clean \<and> dr_header r = hdr"
  unfolding rows_read_def by (drule feed_keeps) (simp add: header_result_def)

lemma read_file_rows:
  assumes "rows_read hdr bs r"
  shows "read_file (Rows hdr bs torn) = Inr (if torn = [] then r else r\<lparr>dr_tail := Incomplete\<rparr>, length bs)"
  using assms rows_read_clean [OF assms]
  by (simp add: read_file_def read_rows_feed rows_read_def)

lemma read_file_readable:
  assumes "read_file (Rows hdr bs torn) = Inr (r, n)" and "dr_tail r \<noteq> Invalid"
  shows "\<exists>r'. rows_read hdr bs r'"
proof (cases "feed (header_result hdr, \<not> hd_baseline hdr) bs")
  case None
  with read_rows_refused [OF None, of 0] assms show ?thesis
    by (auto simp: read_file_def split: prod.splits if_splits)
next
  case (Some rd)
  then obtain r' done' where "feed (header_result hdr, \<not> hd_baseline hdr) bs = Some (r', done')"
    by (cases rd) auto
  with assms read_rows_feed [OF this, of 0] show ?thesis
    by (auto simp: read_file_def rows_read_def split: if_splits)
qed

lemma rows_read_fun: "rows_read hdr bs r \<Longrightarrow> rows_read hdr bs r' \<Longrightarrow> r' = r"
  by (simp add: rows_read_def)

text \<open>The projection is well formed, because it is a replay from the empty one.\<close>

lemma accept_wf:
  assumes "accept_batch done r line b = Inl (r', done')" and "wf_projection (dr_projection r)"
  shows "wf_projection (dr_projection r')"
proof -
  obtain q where "apply_batch (coalesce (bt_operations b)) (dr_projection r) = (q, None)" "dr_projection r' = q"
    using assms(1) by (auto simp: accept_batch_def split: sum.splits prod.splits option.splits)
  with wf_rfold [OF assms(2)] show ?thesis by (simp add: apply_batch_ok)
qed

lemma feed_wf:
  "feed rd bs = Some rd' \<Longrightarrow> wf_projection (dr_projection (fst rd)) \<Longrightarrow> wf_projection (dr_projection (fst rd'))"
  by (induction rd bs arbitrary: rd' rule: feed.induct) (auto dest: accept_wf split: sum.splits)

lemma rows_read_wf: "rows_read hdr bs r \<Longrightarrow> wf_projection (dr_projection r)"
  unfolding rows_read_def by (drule feed_wf) (simp_all add: header_result_def wf_create)

text \<open>One more delta, and the revisions of the deltas grow.\<close>

lemma accept_delta:
  assumes "wf_projection (dr_projection r)" and "bt_mode b = Delta" and "bt_from b = dr_revision r + 1"
    and "bt_from b \<le> bt_revision b" and "rfold apply_operation (bt_operations b) (dr_projection r) = Inr c"
  shows "\<exists>r'. accept_batch True r line b = Inl (r', True) \<and> dr_projection r' = c
    \<and> dr_revision r' = bt_revision b \<and> dr_last_batch r' = Some (bt_id b)"
proof -
  have "apply_batch (coalesce (bt_operations b)) (dr_projection r) = (c, None)"
    using assms(5) coalesce_rfold [OF assms(1)] by (simp add: apply_batch_ok)
  with assms(2-4) show ?thesis by (simp add: accept_batch_def batch_in_order_def)
qed

lemma rows_read_delta:
  assumes "rows_read hdr bs r" and "bt_mode b = Delta" and "bt_from b = dr_revision r + 1"
    and "bt_from b \<le> bt_revision b" and "rfold apply_operation (bt_operations b) (dr_projection r) = Inr c"
  shows "\<exists>r'. rows_read hdr (bs @ [b]) r' \<and> dr_projection r' = c
    \<and> dr_revision r' = bt_revision b \<and> dr_last_batch r' = Some (bt_id b)"
proof -
  obtain r' where "accept_batch True r [] b = Inl (r', True)" "dr_projection r' = c"
    "dr_revision r' = bt_revision b" "dr_last_batch r' = Some (bt_id b)"
    using accept_delta [OF rows_read_wf [OF assms(1)] assms(2-5)] by blast
  then show ?thesis using assms(1) by (auto simp: rows_read_def feed_append)
qed

lemma accept_done:
  assumes "accept_batch True r line b = Inl (r', done')"
  shows "done' \<and> bt_mode b = Delta \<and> bt_from b = dr_revision r + 1 \<and> dr_revision r < dr_revision r'
    \<and> dr_revision r' = bt_revision b"
  using assms
  by (auto simp: accept_batch_def batch_in_order_def rcheck_def split: sum.splits prod.splits option.splits
      batch_mode.splits if_splits)

lemma feed_grows: "feed (r, True) bs = Some (r', done') \<Longrightarrow> done' \<and> dr_revision r + length bs \<le> dr_revision r'"
proof (induction bs arbitrary: r)
  case (Cons b bs)
  then obtain r1 d1 where step: "accept_batch True r [] b = Inl (r1, d1)" and rest: "feed (r1, d1) bs = Some (r', done')"
    by (auto split: sum.splits)
  have one: "d1" "dr_revision r < dr_revision r1" using accept_done [OF step] by auto
  then have "done' \<and> dr_revision r1 + length bs \<le> dr_revision r'" using Cons.IH [of r1] rest by simp
  with one show ?case by simp
qed simp

lemma rows_read_split:
  assumes "rows_read hdr (xs @ ys) r" and "rows_read hdr xs r1"
  shows "dr_revision r1 + length ys \<le> dr_revision r"
  using assms feed_grows by (auto simp: rows_read_def feed_append)

lemma rows_read_last_delta:
  assumes "rows_read hdr (bs @ [b]) r" and "bt_mode b = Delta"
  shows "\<exists>r1. rows_read hdr bs r1 \<and> bt_from b = dr_revision r1 + 1 \<and> dr_revision r = bt_revision b"
proof -
  obtain rd where rd: "feed (header_result hdr, \<not> hd_baseline hdr) bs = Some rd" "feed rd [b] = Some (r, True)"
    using assms(1) by (auto simp: rows_read_def feed_append bind_eq_Some_conv)
  obtain r1 d1 where 1: "feed (header_result hdr, \<not> hd_baseline hdr) bs = Some (r1, d1)"
    and "feed (r1, d1) [b] = Some (r, True)"
    using rd by (cases rd) auto
  then obtain d' where 2: "accept_batch d1 r1 [] b = Inl (r, d')" by (auto split: sum.splits)
  have d1 using 2 assms(2)
    by (auto simp: accept_batch_def batch_in_order_def rcheck_def split: if_splits)
  then show ?thesis using 1 2 accept_done by (auto simp: rows_read_def)
qed

section \<open>The file as a storage\<close>

definition rows_result :: "header \<Rightarrow> batch list \<Rightarrow> decoded" where
  "rows_result hdr bs =
     (case feed (header_result hdr, \<not> hd_baseline hdr) bs of Some (r, _) \<Rightarrow> r | None \<Rightarrow> header_result hdr)"

definition file_disk :: "transcript_file \<Rightarrow> disk" where
  "file_disk tf =
     (case tf_file tf of
        Rows hdr bs _ \<Rightarrow> let r = rows_result hdr bs in
          \<lparr>dk_generation = hd_generation hdr, dk_revision = dr_revision r, dk_last = dr_last_batch r,
           dk_content = dr_projection r\<rparr>
      | _ \<Rightarrow> \<lparr>dk_generation = tf_generation tf, dk_revision = 0, dk_last = None, dk_content = create_projection\<rparr>)"

definition file_candidate :: "transcript_file \<Rightarrow> (nat \<times> projection) option" where
  "file_candidate tf =
     map_option (\<lambda>rp. (rp_revision rp, dr_projection (rows_result (rp_header rp) (rp_rows rp)))) (tf_pending tf)"

definition file_fresh :: "faults \<Rightarrow> transcript_file \<Rightarrow> bool" where
  "file_fresh f tf \<longleftrightarrow> ft_generation f \<noteq> tf_generation tf \<and>
     (case tf_file tf of Rows hdr _ _ \<Rightarrow> hd_generation hdr \<noteq> ft_generation f | _ \<Rightarrow> True)"

definition file_ok :: "disk_file \<Rightarrow> bool" where
  "file_ok file \<longleftrightarrow>
     (case file of Rows hdr bs torn \<Rightarrow> (\<exists>r. rows_read hdr bs r) \<and> 10 \<notin> set torn | _ \<Rightarrow> True)"

text \<open>A cursor of the current inode marks rows that end at its revision.\<close>

definition cursor_at :: "commit_target \<Rightarrow> nat \<Rightarrow> disk_file \<Rightarrow> bool" where
  "cursor_at e n file \<longleftrightarrow>
     (case file of
        Rows hdr bs _ \<Rightarrow> n \<le> length bs \<and> hd_generation hdr = ct_generation e
          \<and> (\<exists>r. rows_read hdr (take n bs) r \<and> dr_revision r = ct_revision e)
      | _ \<Rightarrow> False)"

definition cursor_ok :: "transcript_file \<Rightarrow> bool" where
  "cursor_ok tf \<longleftrightarrow>
     (case tf_cursor tf of None \<Rightarrow> True
      | Some c \<Rightarrow> cu_inode c \<le> tf_inode tf
          \<and> (cu_inode c = tf_inode tf \<longrightarrow> cursor_at (cu_target c) (cu_rows c) (tf_file tf)))"

text \<open>
  A candidate reads as its revision; only the candidate itself, possibly extended, carries its
  generation.
\<close>

definition pending_ok :: "jstr \<Rightarrow> disk_file \<Rightarrow> replacement option \<Rightarrow> bool" where
  "pending_ok birth file pending \<longleftrightarrow>
     (case pending of None \<Rightarrow> True
      | Some rp \<Rightarrow> (\<exists>r. rows_read (rp_header rp) (rp_rows rp) r \<and> dr_revision r = rp_revision rp)
          \<and> hd_generation (rp_header rp) = rp_generation rp \<and> rp_generation rp \<noteq> birth
          \<and> (case file of
               Rows hdr bs _ \<Rightarrow> hd_generation hdr = rp_generation rp \<longrightarrow> hdr = rp_header rp \<and> prefix (rp_rows rp) bs
             | _ \<Rightarrow> True))"

definition file_good :: "transcript_file \<Rightarrow> bool" where
  "file_good tf \<longleftrightarrow> file_ok (tf_file tf) \<and> cursor_ok tf \<and> pending_ok (tf_generation tf) (tf_file tf) (tf_pending tf)"

lemma rows_result_read: "rows_read hdr bs r \<Longrightarrow> rows_result hdr bs = r"
  by (simp add: rows_read_def rows_result_def)

lemma file_disk_rows:
  "tf_file tf = Rows hdr bs torn \<Longrightarrow> rows_read hdr bs r \<Longrightarrow>
   file_disk tf = \<lparr>dk_generation = hd_generation hdr, dk_revision = dr_revision r,
     dk_last = dr_last_batch r, dk_content = dr_projection r\<rparr>"
  by (simp add: file_disk_def rows_result_read)

lemma birth_read: "rows_read (birth_header tf) [] (header_result (birth_header tf))"
  by (simp add: rows_read_def birth_header_def)

lemma birth_fields:
  "hd_generation (birth_header tf) = tf_generation tf" "hd_base_revision (birth_header tf) = 0"
  by (simp_all add: birth_header_def)

definition empty_disk :: "jstr \<Rightarrow> disk" where
  "empty_disk g = \<lparr>dk_generation = g, dk_revision = 0, dk_last = None, dk_content = create_projection\<rparr>"

lemma file_disk_birth:
  "tf_file tf' = Rows (birth_header tf) [] [] \<Longrightarrow> file_disk tf' = empty_disk (tf_generation tf)"
  by (simp add: file_disk_rows [OF _ birth_read] birth_fields empty_disk_def) (simp add: header_result_def birth_fields)

lemma file_disk_unborn: "\<forall>hdr bs torn. tf_file tf \<noteq> Rows hdr bs torn \<Longrightarrow> file_disk tf = empty_disk (tf_generation tf)"
  by (cases "tf_file tf") (simp_all add: file_disk_def empty_disk_def)

text \<open>Opening for append keeps what a reader sees.\<close>

lemma open_rows_keeps:
  assumes good: "file_good tf" and run: "open_rows f tf = (tf1, res)"
  shows "file_good tf1 \<and> file_disk tf1 = file_disk tf \<and> file_candidate tf1 = file_candidate tf
    \<and> (\<forall>hdr bs torn. res = Inr (hdr, bs, torn) \<longrightarrow> tf_file tf1 = Rows hdr bs torn)"
proof -
  have birth: "\<exists>r. rows_read (birth_header tf) [] r" using birth_read by blast
  show ?thesis
  proof (cases "tf_file tf")
    case (Rows hdr bs torn)
    with run good show ?thesis by (auto simp: open_rows_def split: if_splits)
  next
    case (TornHeader n)
    with run good birth show ?thesis
      by (auto simp: open_rows_def file_good_def file_ok_def cursor_ok_def cursor_at_def pending_ok_def
          file_disk_birth file_disk_unborn file_candidate_def birth_fields
          split: if_splits option.splits)
  next
    case Missing
    with run good birth show ?thesis
      by (auto simp: open_rows_def file_good_def file_ok_def cursor_ok_def cursor_at_def pending_ok_def
          file_disk_birth file_disk_unborn file_candidate_def birth_fields
          split: if_splits option.splits)
  qed
qed

section \<open>Appending\<close>

lemma row_text_nonempty: "row_text sha b \<noteq> []"
  by (simp add: row_text_def)

lemma cursor_at_current:
  assumes "file_good tf" and "tf_file tf = Rows hdr bs torn" and "uses_cursor tf e bs"
  shows "cursor_at e (cu_rows (the (tf_cursor tf))) (Rows hdr bs torn)"
  using assms by (auto simp: file_good_def cursor_ok_def uses_cursor_def split: option.splits)

text \<open>The file ends at the expected revision: the batch goes after the last row.\<close>

lemma locate_next:
  assumes good: "file_good tf" and rows: "tf_file tf = Rows hdr bs torn" and read: "rows_read hdr bs r"
    and at: "dr_revision r = ct_revision e" "ct_revision e < bt_revision b"
    and loc: "locate sha tf e b hdr bs torn = Inr (n, written)"
  shows "\<not> written \<and> n = length bs"
proof (cases "uses_cursor tf e bs")
  case True
  let ?c = "the (tf_cursor tf)" and ?line = "row_text sha b"
  obtain r1 where r1: "cu_rows ?c \<le> length bs" "rows_read hdr (take (cu_rows ?c) bs) r1" "dr_revision r1 = ct_revision e"
    using cursor_at_current [OF good rows True] by (auto simp: cursor_at_def)
  have "cu_rows ?c = length bs"
    using rows_read_split [of hdr "take (cu_rows ?c) bs" "drop (cu_rows ?c) bs" r r1] r1 read at(1) by simp
  then have "n = length bs" "written = (length torn = length ?line)" "torn = take (length torn) ?line"
    using loc True by (auto simp: locate_def locate_cached_def rows_text_def Let_def split: if_splits)
  moreover have "10 \<notin> set torn" using good rows by (simp add: file_good_def file_ok_def)
  moreover have "10 \<in> set ?line" using row_text_shape [of sha b] by auto
  ultimately show ?thesis by auto
next
  case False
  then show ?thesis
    using loc at read_file_rows [OF read, of torn]
    by (auto simp: locate_def locate_read_def Let_def split: if_splits)
qed

text \<open>The file already ends with the batch: an earlier attempt wrote it and failed afterwards.\<close>

lemma locate_again:
  assumes good: "file_good tf" and rows: "tf_file tf = Rows hdr bs torn" and read: "rows_read hdr bs r"
    and at: "dr_revision r = bt_revision b" "bt_mode b = Delta" "bt_from b = ct_revision e + 1"
      "bt_from b \<le> bt_revision b" "hd_generation hdr = ct_generation e"
    and loc: "locate sha tf e b hdr bs torn = Inr (n, written)"
  shows "written \<and> n + 1 = length bs \<and> cursor_at e n (Rows hdr bs torn)"
proof (cases "uses_cursor tf e bs")
  case True
  let ?c = "the (tf_cursor tf)" and ?line = "row_text sha b"
  have cur: "cursor_at e (cu_rows ?c) (Rows hdr bs torn)" by (rule cursor_at_current [OF good rows True])
  then obtain r1 where r1: "cu_rows ?c \<le> length bs" "rows_read hdr (take (cu_rows ?c) bs) r1" "dr_revision r1 = ct_revision e"
    by (auto simp: cursor_at_def)
  have "cu_rows ?c \<noteq> length bs"
    using rows_read_fun [OF read] r1 at by auto
  then obtain b' rest where drop: "drop (cu_rows ?c) bs = b' # rest"
    using r1(1) by (cases "drop (cu_rows ?c) bs") auto
  have n: "n = cu_rows ?c"
    and w: "written = (length (rows_text sha (drop (cu_rows ?c) bs) @ torn) = length ?line)"
    and pre: "rows_text sha (drop (cu_rows ?c) bs) @ torn
        = take (length (rows_text sha (drop (cu_rows ?c) bs) @ torn)) ?line"
    using loc True by (auto simp: locate_def locate_cached_def Let_def split: if_splits)
  obtain k where "rows_text sha (drop (cu_rows ?c) bs) @ torn = take k ?line" using pre by blast
  then have "row_text sha b' = ?line \<and> rows_text sha rest @ torn = []"
    unfolding drop by (intro row_text_prefix [where n = k]) (simp add: rows_text_def)
  then have "rest = []" "written"
    using row_text_nonempty w drop by (cases rest; simp add: rows_text_def)+
  moreover have "length bs = cu_rows ?c + length (b' # rest)"
    using r1(1) drop by (metis append_take_drop_id length_append length_take min.absorb2)
  ultimately show ?thesis using n cur by simp
next
  case False
  then have "written" "n = length bs - 1" "bs \<noteq> []" "last bs = b"
    using loc at read_file_rows [OF read, of torn]
    by (auto simp: locate_def locate_read_def Let_def split: if_splits)
  moreover from this obtain r1 where "rows_read hdr (butlast bs) r1" "bt_from b = dr_revision r1 + 1"
    using rows_read_last_delta [of hdr "butlast bs" b r] read at(2) by auto
  ultimately show ?thesis using at by (auto simp: cursor_at_def butlast_conv_take)
qed

text \<open>What an append does to the record, once the place is found.\<close>

lemma append_file_cases:
  assumes run: "append_file sha f tf e b = (tf', r)"
  obtains (early) tf1 res where "open_rows f tf = (tf1, res) \<or> tf1 = tf" "tf' = tf1" "r \<noteq> None"
  | (torn) tf1 hdr bs torn n k where "open_rows f tf = (tf1, Inr (hdr, bs, torn))"
      "locate sha tf1 e b hdr bs torn = Inr (n, False)" "k < length (row_text sha b)" "r \<noteq> None"
      "tf' = tf1\<lparr>tf_cursor := Some \<lparr>cu_target = e, cu_rows = n, cu_inode = tf_inode tf1\<rparr>,
         tf_file := Rows hdr (take n bs) (take k (row_text sha b))\<rparr>"
  | (full) tf1 hdr bs torn n written where "open_rows f tf = (tf1, Inr (hdr, bs, torn))"
      "locate sha tf1 e b hdr bs torn = Inr (n, written)"
      "tf_file tf' = (if written then tf_file tf1 else Rows hdr (take n bs @ [b]) [])"
      "tf_inode tf' = tf_inode tf1" "tf_pending tf' = tf_pending tf1" "tf_generation tf' = tf_generation tf1"
      "tf_cursor tf' = Some \<lparr>cu_target = e, cu_rows = n, cu_inode = tf_inode tf1\<rparr>
       \<or> tf_cursor tf' = Some \<lparr>cu_target = \<lparr>ct_generation = ct_generation e, ct_revision = bt_revision b\<rparr>,
           cu_rows = n + 1, cu_inode = tf_inode tf1\<rparr>"
proof (cases "encode_transcript_batch sha b")
  case (Inl err)
  then show ?thesis using run by (intro early [of tf undefined]) (auto simp: append_file_def)
next
  case (Inr line)
  then have line: "line = row_text sha b" by (simp add: encode_transcript_batch_eq split: if_splits)
  obtain tf1 res where op: "open_rows f tf = (tf1, res)" by (cases "open_rows f tf")
  show ?thesis
  proof (cases res)
    case (Inl err)
    with op Inr run show ?thesis by (intro early [of tf1 res]) (auto simp: append_file_def)
  next
    case opened: (Inr x)
    obtain hdr bs torn where x: "x = (hdr, bs, torn)" by (cases x)
    show ?thesis
    proof (cases "locate sha tf1 e b hdr bs torn")
      case (Inl err)
      with op Inr run opened x show ?thesis by (intro early [of tf1 res]) (auto simp: append_file_def)
    next
      case loc: (Inr y)
      obtain n written where y: "y = (n, written)" by (cases y)
      show ?thesis
      proof (cases "written \<or> write_stop f line = None")
        case False
        then obtain k where k: "write_stop f line = Some k" "\<not> written" by auto
        have "k < length line" using k(1) by (auto simp: write_stop_def split: option.splits if_splits)
        with k op Inr run opened x loc y line show ?thesis
          by (intro torn [of tf1 hdr bs torn n k]) (auto simp: append_file_def Let_def)
      next
        case True
        with op Inr run opened x loc y line show ?thesis
          by (intro full [of tf1 hdr bs torn n written]; cases written)
            (auto simp: append_file_def Let_def split: if_splits)
      qed
    qed
  qed
qed

lemma append_keeps_pending:
  assumes "append_file sha f tf e b = (tf', r)" and "file_good tf"
  shows "file_candidate tf' = file_candidate tf"
proof -
  have opened: "open_rows f tf = (tf1, res) \<Longrightarrow> file_candidate tf1 = file_candidate tf" for tf1 res
    using open_rows_keeps [OF assms(2)] by blast
  from assms(1) show ?thesis
    by (cases rule: append_file_cases) (auto dest!: opened simp: file_candidate_def)
qed

text \<open>A file with the cursor at its place and the batch behind it.\<close>

lemma good_after_append:
  assumes good: "file_good tf1" and rows: "tf_file tf1 = Rows hdr bs torn" and read: "rows_read hdr bs r1"
    and call: "append_call (file_disk tf1) e b" and rev: "dr_revision r1 = ct_revision e"
    and after: "tf_file tf' = Rows hdr (bs @ xs) torn'" and torn: "10 \<notin> set torn'"
    and new: "rows_read hdr (bs @ xs) r'" and "xs = [] \<or> (xs = [b] \<and> dr_revision r' = bt_revision b)"
    and same: "tf_inode tf' = tf_inode tf1" "tf_pending tf' = tf_pending tf1" "tf_generation tf' = tf_generation tf1"
    and cur: "tf_cursor tf' = Some \<lparr>cu_target = e, cu_rows = length bs, cu_inode = tf_inode tf1\<rparr>
       \<or> (xs = [b] \<and> tf_cursor tf' = Some \<lparr>cu_target = \<lparr>ct_generation = ct_generation e, ct_revision = bt_revision b\<rparr>,
           cu_rows = length bs + 1, cu_inode = tf_inode tf1\<rparr>)"
  shows "file_good tf'"
proof -
  have gen: "hd_generation hdr = ct_generation e"
    using call by (simp add: append_call_def file_disk_rows [OF rows read])
  have "cursor_ok tf'"
    using cur gen read rev new assms(9) same after by (auto simp: cursor_ok_def cursor_at_def)
  moreover have "pending_ok (tf_generation tf') (tf_file tf') (tf_pending tf')"
    using good rows after same by (auto simp: file_good_def pending_ok_def split: option.splits)
  ultimately show ?thesis using after torn new by (auto simp: file_good_def file_ok_def)
qed

lemma torn_row_no_newline: "k < length (row_text sha b) \<Longrightarrow> 10 \<notin> set (take k (row_text sha b))"
  using row_text_shape [of sha b] by (auto simp: take_append dest: in_set_takeD)

lemma append_revision: "append_call d e b \<Longrightarrow> ct_revision e < bt_revision b"
  by (simp add: append_call_def)

lemma opened_file:
  assumes "file_good tf" and "open_rows f tf = (tf1, Inr (hdr, bs, torn))"
  obtains r1 where "file_good tf1" "tf_file tf1 = Rows hdr bs torn" "rows_read hdr bs r1"
    "file_disk tf1 = file_disk tf" "file_candidate tf1 = file_candidate tf" "dk_revision (file_disk tf) = dr_revision r1"
    "dk_content (file_disk tf) = dr_projection r1" "dk_last (file_disk tf) = dr_last_batch r1"
    "dk_generation (file_disk tf) = hd_generation hdr"
proof -
  have keep: "file_good tf1" "tf_file tf1 = Rows hdr bs torn" "file_disk tf1 = file_disk tf"
    "file_candidate tf1 = file_candidate tf"
    using open_rows_keeps [OF assms] by auto
  then obtain r1 where r1: "rows_read hdr bs r1" by (auto simp: file_good_def file_ok_def)
  have "file_disk tf = \<lparr>dk_generation = hd_generation hdr, dk_revision = dr_revision r1,
      dk_last = dr_last_batch r1, dk_content = dr_projection r1\<rparr>"
    using file_disk_rows [OF keep(2) r1] keep(3) by simp
  then show ?thesis by (intro that [OF keep(1,2) r1 keep(3,4)]) simp_all
qed

lemma file_append_next:
  assumes good: "file_good tf" and run: "append_file sha f tf e b = (tf', r)"
    and call: "append_call (file_disk tf) e b" and rev: "dk_revision (file_disk tf) = ct_revision e"
    and ops: "rfold apply_operation (bt_operations b) (dk_content (file_disk tf)) = Inr c"
  shows "file_good tf' \<and> file_candidate tf' = file_candidate tf
    \<and> (file_disk tf' = advance (file_disk tf) b c \<or> (r \<noteq> None \<and> file_disk tf' = file_disk tf))"
  using run
proof (cases rule: append_file_cases)
  case (early tf1 res)
  with open_rows_keeps [OF good] good show ?thesis by auto
next
  case (torn tf1 hdr bs torn n k)
  obtain r1 where 1: "file_good tf1" "tf_file tf1 = Rows hdr bs torn" "rows_read hdr bs r1"
    "file_disk tf1 = file_disk tf" "dk_revision (file_disk tf) = dr_revision r1"
    using opened_file [OF good torn(1)] by metis
  have n: "n = length bs"
    using locate_next [OF 1(1-3) _ _ torn(2)] 1(5) rev append_revision [OF call] by simp
  have file': "tf_file tf' = Rows hdr (bs @ []) (take k (row_text sha b))" using torn(5) n by simp
  have "file_good tf'"
    by (rule good_after_append [OF 1(1-3) _ _ file' torn_row_no_newline [OF torn(3)]])
      (use 1 call rev torn(5) n in simp_all)
  moreover have "file_disk tf' = file_disk tf"
    using file_disk_rows [OF file', of r1] file_disk_rows [OF 1(2,3)] 1 by simp
  ultimately show ?thesis using append_keeps_pending [OF run good] torn(4) by simp
next
  case (full tf1 hdr bs torn n written)
  obtain r1 where 1: "file_good tf1" "tf_file tf1 = Rows hdr bs torn" "rows_read hdr bs r1"
    "file_disk tf1 = file_disk tf" "dk_revision (file_disk tf) = dr_revision r1"
    "dk_content (file_disk tf) = dr_projection r1" "dk_generation (file_disk tf) = hd_generation hdr"
    using opened_file [OF good full(1)] by metis
  have n: "\<not> written" "n = length bs"
    using locate_next [OF 1(1-3) _ _ full(2)] 1(5) rev append_revision [OF call] by simp_all
  have file': "tf_file tf' = Rows hdr (bs @ [b]) []" using full(3) n by simp
  obtain r2 where r2: "rows_read hdr (bs @ [b]) r2" "dr_projection r2 = c" "dr_revision r2 = bt_revision b"
    "dr_last_batch r2 = Some (bt_id b)"
    using rows_read_delta [OF 1(3), of b c] call ops 1 rev by (auto simp: append_call_def)
  have "file_good tf'"
    by (rule good_after_append [OF 1(1-3) _ _ file' _ r2(1), of e b])
      (use 1 call rev full n r2 in auto)
  moreover have "file_disk tf' = advance (file_disk tf) b c"
    using file_disk_rows [OF file' r2(1)] file_disk_rows [OF 1(2,3)] 1 r2 by (simp add: advance_def)
  ultimately show ?thesis using append_keeps_pending [OF run good] by simp
qed

lemma file_append_again:
  assumes good: "file_good tf" and run: "append_file sha f tf e b = (tf', r)"
    and call: "append_call (file_disk tf) e b" and rev: "dk_revision (file_disk tf) = bt_revision b"
  shows "file_good tf' \<and> file_candidate tf' = file_candidate tf \<and> file_disk tf' = file_disk tf"
  using run
proof (cases rule: append_file_cases)
  case (early tf1 res)
  with open_rows_keeps [OF good] good show ?thesis by auto
next
  case (torn tf1 hdr bs torn n k)
  obtain r1 where 1: "file_good tf1" "tf_file tf1 = Rows hdr bs torn" "rows_read hdr bs r1"
    "dk_revision (file_disk tf) = dr_revision r1" "dk_generation (file_disk tf) = hd_generation hdr"
    using opened_file [OF good torn(1)] by metis
  have False
    using locate_again [OF 1(1-3) _ _ _ _ _ torn(2)] 1 rev call by (simp add: append_call_def)
  then show ?thesis ..
next
  case (full tf1 hdr bs torn n written)
  obtain r1 where 1: "file_good tf1" "tf_file tf1 = Rows hdr bs torn" "rows_read hdr bs r1"
    "file_disk tf1 = file_disk tf" "dk_revision (file_disk tf) = dr_revision r1"
    "dk_generation (file_disk tf) = hd_generation hdr" "file_candidate tf1 = file_candidate tf"
    using opened_file [OF good full(1)] by metis
  have w: "written" "n + 1 = length bs" "cursor_at e n (Rows hdr bs torn)"
    using locate_again [OF 1(1-3) _ _ _ _ _ full(2)] 1 rev call by (simp_all add: append_call_def)
  have file': "tf_file tf' = Rows hdr bs torn" using full(3) w(1) 1(2) by simp
  have "cursor_ok tf'"
    using full(7) full(4) w 1 file' rev call
    by (auto simp: cursor_ok_def cursor_at_def append_call_def)
  then have "file_good tf'"
    using 1(1,2) file' full by (simp add: file_good_def)
  moreover have "file_disk tf' = file_disk tf"
    using file_disk_rows [OF file' 1(3)] file_disk_rows [OF 1(2,3)] 1(4) by simp
  ultimately show ?thesis using append_keeps_pending [OF run good] by simp
qed

section \<open>Replacing\<close>

lemma feed_replay:
  "feed rd bs = Some rd' \<Longrightarrow> wf_projection (dr_projection (fst rd)) \<Longrightarrow>
   rfold apply_operation (concat (map bt_operations bs)) (dr_projection (fst rd)) = Inr (dr_projection (fst rd'))"
proof (induction rd bs arbitrary: rd' rule: feed.induct)
  case (2 r "done" b bs)
  then obtain r1 d1 where step: "accept_batch done r [] b = Inl (r1, d1)" and rest: "feed (r1, d1) bs = Some rd'"
    by (auto split: sum.splits)
  have "apply_batch (coalesce (bt_operations b)) (dr_projection r) = (dr_projection r1, None)"
    using step by (auto simp: accept_batch_def split: sum.splits prod.splits option.splits)
  then have one: "rfold apply_operation (bt_operations b) (dr_projection r) = Inr (dr_projection r1)"
    using coalesce_rfold "2.prems"(2) by (simp add: apply_batch_ok)
  have "wf_projection (dr_projection r1)" using accept_wf [OF step] "2.prems"(2) by simp
  with "2.IH" [OF step, of rd'] rest one show ?case by (simp add: rfold_append)
qed simp

lemma rows_read_replay: "rows_read hdr bs r \<Longrightarrow> replay bs = Inr (dr_projection r)"
  unfolding rows_read_def replay_def by (drule feed_replay) (simp_all add: header_result_def wf_create)

lemma baseline_rows_operations:
  "concat (map bt_operations (baseline_rows ids revision p)) = baseline_operations p"
proof -
  have "concat (map (bt_operations \<circ> (\<lambda>(i, op). \<lparr>bt_id = ids i, bt_mode = Baseline, bt_from = 0,
      bt_revision = revision, bt_operations = [op], bt_end = False\<rparr>)) (enumerate n ops)) = ops" for n ops
    by (induction ops arbitrary: n) simp_all
  then show ?thesis by (simp add: baseline_rows_def Let_def)
qed

text \<open>The operations of a message do not touch the turns.\<close>

fun on_message :: "operation \<Rightarrow> bool" where
  "on_message (MessageCreate _) = True"
| "on_message (BlockUpsert _ _) = True"
| "on_message (TextAppend _ _ _) = True"
| "on_message _ = False"

lemma on_message_turns: "apply_operation op p = Inr q \<Longrightarrow> on_message op \<Longrightarrow> turns q = turns p"
  by (cases op) (auto simp: apply_message_create_def apply_block_upsert_def apply_text_append_def
      with_message_def split: if_splits)

lemma on_message_rfold: "rfold apply_operation ops p = Inr q \<Longrightarrow> list_all on_message ops \<Longrightarrow> turns q = turns p"
  by (induction ops arbitrary: p) (auto dest: on_message_turns)

lemma text_parts_on_message: "list_all on_message (append_text_parts tg s n)"
  using text_parts_from_bounds by (fastforce simp: append_text_parts_def list_all_iff)

lemma streams_on_message: "list_all on_message (stream_operations streams)"
  by (induction streams) (auto simp: stream_operations_def text_parts_on_message)

lemma message_operations_on_message: "list_all on_message (message_operations m)"
proof -
  have "list_all on_message (concat (map (block_baseline mid) bs))" for mid bs
    by (induction bs) (simp_all add: block_baseline_def streams_on_message)
  then show ?thesis
    by (simp add: message_operations_def text_parts_on_message split: content.split)
qed

lemma baseline_turns:
  assumes "rfold apply_operation (baseline_operations p) create_projection = Inr q" and "wf_projection p"
  shows "turns q = turns p"
proof -
  obtain q1 where 1: "rfold apply_operation (concat (map (message_operations \<circ> snd) (messages p))) create_projection = Inr q1"
    and 2: "rfold apply_operation (map (TurnUpdate \<circ> snd) (turns p)) q1 = Inr q"
    using assms(1) by (auto simp: baseline_operations_def rfold_append)
  have "list_all on_message (concat (map (message_operations \<circ> snd) ms))" for ms
    by (induction ms) (simp_all add: message_operations_on_message)
  then have "turns q1 = turns create_projection" by (rule on_message_rfold [OF 1])
  then have "turns q1 = []" by (simp add: create_projection_def)
  then show ?thesis
    using turns_apply [of q1 "turns p"] 2 assms(2) by (auto simp: wf_projection_def keyed_by_def)
qed

lemma candidate_content:
  assumes "read_file (Rows hdr (baseline_rows ids revision snapshot) []) = Inr (r, n)"
    and "candidate_matches snapshot revision r" and "wf_projection snapshot"
  shows "rows_read hdr (baseline_rows ids revision snapshot) r \<and> dr_projection r = snapshot \<and> dr_revision r = revision"
proof -
  obtain r' where r': "rows_read hdr (baseline_rows ids revision snapshot) r'"
    using read_file_readable [OF assms(1)] assms(2) by (auto simp: candidate_matches_def)
  then have r: "r' = r" using assms(1) read_file_rows [OF r', of "[]"] by simp
  have "rfold apply_operation (baseline_operations snapshot) create_projection = Inr (dr_projection r)"
    using rows_read_replay [OF r'] unfolding r replay_def baseline_rows_operations .
  then have "turns (dr_projection r) = turns snapshot" using baseline_turns assms(3) by blast
  with r r' assms(2) show ?thesis
    by (simp add: candidate_matches_def)
qed

text \<open>The record after the rename, and what a reader sees of it.\<close>

definition candidate_in_place :: "transcript_file \<Rightarrow> replacement \<Rightarrow> bool" where
  "candidate_in_place tf rp \<longleftrightarrow> tf_file tf = Rows (rp_header rp) (rp_rows rp) []"

lemma pending_read:
  assumes "file_good tf" and "tf_pending tf = Some rp"
  obtains r where "rows_read (rp_header rp) (rp_rows rp) r" "dr_revision r = rp_revision rp"
    "hd_generation (rp_header rp) = rp_generation rp" "rp_generation rp \<noteq> tf_generation tf"
  using assms by (auto simp: file_good_def pending_ok_def)

lemma already_published:
  assumes good: "file_good tf" and pend: "tf_pending tf = Some rp"
    and read: "read_file (tf_file tf) = Inr (r, n)"
    and pub: "hd_generation (dr_header r) = rp_generation rp" "dr_revision r = rp_revision rp" "dr_tail r = Clean"
  shows "candidate_in_place tf rp"
proof -
  obtain hdr bs torn where rows: "tf_file tf = Rows hdr bs torn"
    using read by (cases "tf_file tf") (auto simp: read_file_def)
  obtain r1 where r1: "rows_read hdr bs r1" using good rows by (auto simp: file_good_def file_ok_def)
  have r: "r = (if torn = [] then r1 else r1\<lparr>dr_tail := Incomplete\<rparr>)"
    using read rows read_file_rows [OF r1, of torn] by simp
  then have torn: "torn = []" and "r = r1" using pub(3) by (auto split: if_splits)
  then have gen: "hd_generation hdr = rp_generation rp" "dr_revision r1 = rp_revision rp"
    using pub rows_read_clean [OF r1] by simp_all
  then have hdr: "hdr = rp_header rp" and pre: "prefix (rp_rows rp) bs"
    using good pend rows by (auto simp: file_good_def pending_ok_def)
  obtain r2 where "rows_read (rp_header rp) (rp_rows rp) r2" "dr_revision r2 = rp_revision rp"
    using pending_read [OF good pend] by metis
  moreover obtain xs where xs: "bs = rp_rows rp @ xs" using pre by (auto simp: prefix_def)
  ultimately have "length xs = 0"
    using rows_read_split [of hdr "rp_rows rp" xs r1 r2] r1 hdr gen(2) by simp
  with xs hdr torn rows show ?thesis by (simp add: candidate_in_place_def)
qed

lemma drop_torn_good:
  assumes "file_good tf" and "tf_file tf = Rows hdr bs torn"
  shows "file_good (tf\<lparr>tf_file := Rows hdr bs []\<rparr>) \<and> file_disk (tf\<lparr>tf_file := Rows hdr bs []\<rparr>) = file_disk tf"
  using assms
  by (auto simp: file_good_def file_ok_def cursor_ok_def cursor_at_def pending_ok_def file_disk_def
      split: option.splits)

lemma rename_good:
  assumes "file_good tf" and "tf_pending tf = Some rp"
  shows "file_good (tf\<lparr>tf_file := Rows (rp_header rp) (rp_rows rp) [], tf_inode := tf_inode tf + 1\<rparr>)"
  using assms
  by (auto simp: file_good_def file_ok_def cursor_ok_def pending_ok_def split: option.splits)

lemma in_place_disk:
  assumes "candidate_in_place tf rp" and "rows_read (rp_header rp) (rp_rows rp) r" and "dr_revision r = rp_revision rp"
  shows "dk_generation (file_disk tf) = hd_generation (rp_header rp)" "dk_revision (file_disk tf) = rp_revision rp"
    "dk_content (file_disk tf) = dr_projection r"
  using assms file_disk_rows [of tf "rp_header rp" "rp_rows rp" "[]" r] by (simp_all add: candidate_in_place_def)

text \<open>
  The outcomes of \<open>publish\<close>: refused before the rename (a torn row may be gone), failed with the
  candidate in place, or done.
\<close>

lemma publish_cases:
  assumes good: "file_good tf" and pend: "tf_pending tf = Some rp" and run: "publish f tf rp = (tf', res)"
  obtains (refused) err where "res = Inl err" "file_good tf'" "tf_pending tf' = Some rp" "file_disk tf' = file_disk tf"
  | (failed) err where "res = Inl err" "file_good tf'" "tf_pending tf' = Some rp" "candidate_in_place tf' rp"
  | (committed) tf2 where "res = Inr \<lparr>ct_generation = rp_generation rp, ct_revision = rp_revision rp\<rparr>"
      "file_good tf2" "tf_pending tf2 = Some rp" "candidate_in_place tf2 rp"
      "tf' = tf2\<lparr>tf_cursor := Some \<lparr>cu_target = \<lparr>ct_generation = rp_generation rp, ct_revision = rp_revision rp\<rparr>,
          cu_rows = length (rp_rows rp), cu_inode = tf_inode tf2\<rparr>, tf_pending := None\<rparr>"
proof -
  define published where "published = (case read_file (tf_file tf) of Inl _ \<Rightarrow> False
      | Inr (r, _) \<Rightarrow> hd_generation (dr_header r) = rp_generation rp \<and> dr_revision r = rp_revision rp \<and> dr_tail r = Clean)"
  define tf1 where "tf1 = (case (published, tf_file tf) of (False, Rows hdr bs torn) \<Rightarrow> tf\<lparr>tf_file := Rows hdr bs []\<rparr> | _ \<Rightarrow> tf)"
  define tf2 where "tf2 = (if published then tf1 else tf1\<lparr>tf_file := Rows (rp_header rp) (rp_rows rp) [], tf_inode := tf_inode tf1 + 1\<rparr>)"
  define target where "target = \<lparr>ct_generation = rp_generation rp, ct_revision = rp_revision rp\<rparr>"
  have tf1: "file_good tf1" "file_disk tf1 = file_disk tf" "tf_pending tf1 = Some rp"
    using good pend drop_torn_good by (auto simp: tf1_def split: bool.split disk_file.split)
  have in_place: "published \<Longrightarrow> candidate_in_place tf1 rp"
    using already_published [OF good pend]
    by (auto simp: published_def tf1_def split: sum.splits prod.splits)
  have tf2: "file_good tf2" "tf_pending tf2 = Some rp" "candidate_in_place tf2 rp"
    using tf1 in_place rename_good by (auto simp: tf2_def candidate_in_place_def)
  have "(tf', res) \<in> {(tf, Inl IoError), (tf, Inl InvalidHistory), (tf1, Inl IoError), (tf2, Inl IoError),
      (tf2\<lparr>tf_cursor := Some \<lparr>cu_target = target, cu_rows = length (rp_rows rp), cu_inode = tf_inode tf2\<rparr>,
           tf_pending := None\<rparr>, Inr target)}"
    using run unfolding publish_def Let_def published_def [symmetric] tf1_def [symmetric] tf2_def [symmetric]
      target_def [symmetric] by (simp split: if_splits)
  then show ?thesis
    using good pend tf1 tf2 refused failed committed [of tf2] unfolding target_def by auto
qed

lemma file_disk_cong: "tf_file tf' = tf_file tf \<Longrightarrow> tf_generation tf' = tf_generation tf \<Longrightarrow> file_disk tf' = file_disk tf"
  unfolding file_disk_def by presburger

lemma candidate_pending:
  "tf_pending tf = Some rp \<Longrightarrow> rows_read (rp_header rp) (rp_rows rp) r \<Longrightarrow>
   file_candidate tf = Some (rp_revision rp, dr_projection r)"
  by (simp add: file_candidate_def rows_result_read)

lemma committed_good:
  assumes "file_good tf2" and "tf_pending tf2 = Some rp" and "candidate_in_place tf2 rp"
  shows "file_good (tf2\<lparr>tf_cursor := Some \<lparr>cu_target = \<lparr>ct_generation = rp_generation rp, ct_revision = rp_revision rp\<rparr>,
    cu_rows = length (rp_rows rp), cu_inode = tf_inode tf2\<rparr>, tf_pending := None\<rparr>)"
proof -
  obtain r where "rows_read (rp_header rp) (rp_rows rp) r" "dr_revision r = rp_revision rp"
    "hd_generation (rp_header rp) = rp_generation rp"
    using pending_read [OF assms(1,2)] by metis
  with assms show ?thesis
    by (auto simp: file_good_def file_ok_def cursor_ok_def cursor_at_def pending_ok_def candidate_in_place_def)
qed

text \<open>A replacement whose candidate is pending, seen from outside.\<close>

lemma publish_effect:
  assumes good: "file_good tf" and pend: "tf_pending tf = Some rp" and run: "publish f tf rp = (tf', res)"
    and cand: "file_candidate tf = Some rc"
  shows "(\<forall>t. res = Inr t \<longrightarrow> file_good tf' \<and> file_candidate tf' = None
      \<and> dk_generation (file_disk tf') = ct_generation t \<and> dk_revision (file_disk tf') = ct_revision t
      \<and> (ct_revision t, dk_content (file_disk tf')) = rc)
    \<and> (\<forall>err. res = Inl err \<longrightarrow> file_good tf' \<and> file_candidate tf' = Some rc
      \<and> (file_disk tf' = file_disk tf \<or> Some rc = Some (dk_revision (file_disk tf'), dk_content (file_disk tf'))))"
proof -
  obtain r where r: "rows_read (rp_header rp) (rp_rows rp) r" "dr_revision r = rp_revision rp"
    "hd_generation (rp_header rp) = rp_generation rp"
    using pending_read [OF good pend] by metis
  have rc: "rc = (rp_revision rp, dr_projection r)" using candidate_pending [OF pend r(1)] cand by simp
  show ?thesis
    using good pend run
  proof (cases rule: publish_cases)
    case (refused err)
    then show ?thesis using candidate_pending [OF refused(3) r(1)] rc by simp
  next
    case (failed err)
    then show ?thesis
      using candidate_pending [OF failed(3) r(1)] in_place_disk [OF failed(4) r(1,2)] rc by simp
  next
    case (committed tf2)
    have "file_disk tf' = file_disk tf2" using committed(5) by (intro file_disk_cong) simp_all
    then show ?thesis
      using committed in_place_disk [OF committed(4) r(1,2)] committed_good [OF committed(2-4)] rc r(3)
      by (simp add: file_candidate_def)
  qed
qed

lemma file_fresh_pending:
  assumes good: "file_good tf" and fresh: "file_fresh f tf" and none: "tf_pending tf = None"
    and read: "read_file (Rows (rp_header rp) (rp_rows rp) []) = Inr (r, n)"
    and matches: "candidate_matches snapshot revision r" and wf: "wf_projection snapshot"
    and rp: "rp = build_candidate f tf recover e snapshot revision"
  shows "file_good (tf\<lparr>tf_pending := Some rp\<rparr>) \<and> file_disk (tf\<lparr>tf_pending := Some rp\<rparr>) = file_disk tf
    \<and> file_candidate (tf\<lparr>tf_pending := Some rp\<rparr>) = Some (revision, snapshot)"
proof -
  have rows: "rp_rows rp = baseline_rows (ft_ids f) revision snapshot" "rp_revision rp = revision"
    "rp_generation rp = ft_generation f" "hd_generation (rp_header rp) = ft_generation f"
    by (simp_all add: rp build_candidate_def)
  note cand = candidate_content [OF read [unfolded rows(1)] matches wf, folded rows(1)]
  have "pending_ok (tf_generation tf) (tf_file tf) (Some rp)"
    using cand fresh rows by (auto simp: pending_ok_def file_fresh_def split: disk_file.splits)
  then have "file_good (tf\<lparr>tf_pending := Some rp\<rparr>)"
    using good by (auto simp: file_good_def cursor_ok_def split: option.splits)
  moreover have "file_candidate (tf\<lparr>tf_pending := Some rp\<rparr>) = Some (revision, snapshot)"
    using candidate_pending [of "tf\<lparr>tf_pending := Some rp\<rparr>" rp r] cand rows by simp
  ultimately show ?thesis using file_disk_cong [of "tf\<lparr>tf_pending := Some rp\<rparr>" tf] by simp
qed

lemma replace_file_cases:
  assumes run: "replace_file f recover tf e snapshot revision = (tf', res)" and good: "file_good tf"
    and fresh: "file_fresh f tf" and wf: "wf_projection snapshot"
  obtains (unchanged) err where "res = Inl err" "tf' = tf"
  | (pending) rp where "tf_pending tf = Some rp" "publish f tf rp = (tf', res)"
  | (built) tf1 rp where "tf_pending tf = None" "tf_pending tf1 = Some rp" "publish f tf1 rp = (tf', res)"
      "file_good tf1" "file_disk tf1 = file_disk tf" "file_candidate tf1 = Some (revision, snapshot)"
proof (cases "tf_pending tf")
  case (Some rp)
  with run show ?thesis by (intro pending) (simp_all add: replace_file_def)
next
  case None
  define rp where "rp = build_candidate f tf recover e snapshot revision"
  show ?thesis
  proof (cases "ft_candidate f")
    case True
    show ?thesis
      by (rule unchanged [of IoError]) (use run None True in \<open>simp_all add: replace_file_def\<close>)
  next
    case False
    show ?thesis
    proof (cases "read_file (Rows (rp_header rp) (rp_rows rp) [])")
      case (Inl err)
      with run None False show ?thesis
        by (intro unchanged [of err]) (simp_all add: replace_file_def rp_def [symmetric])
    next
      case (Inr rn)
      obtain r n where rn: "rn = (r, n)" by (cases rn)
      show ?thesis
      proof (cases "candidate_matches snapshot revision r")
        case True
        note new = file_fresh_pending [OF good fresh None Inr [unfolded rn] True wf rp_def]
        show ?thesis
          by (rule built [of "tf\<lparr>tf_pending := Some rp\<rparr>" rp])
            (use run None False Inr rn True new in \<open>simp_all add: replace_file_def rp_def [symmetric]\<close>)
      next
        case no: False
        with run None False Inr rn show ?thesis
          by (intro unchanged [of InvalidHistory]) (simp_all add: replace_file_def rp_def [symmetric])
      qed
    qed
  qed
qed

interpretation file_store: transcript_storage file_good file_disk file_candidate "append_file sha" replace_file file_fresh
  for sha
proof unfold_locales
  fix s f e b s' r c
  assume "file_good s" "append_file sha f s e b = (s', r)" "append_call (file_disk s) e b"
    "dk_revision (file_disk s) = ct_revision e"
    "rfold apply_operation (bt_operations b) (dk_content (file_disk s)) = Inr c"
  then show "file_good s' \<and> file_candidate s' = file_candidate s
      \<and> (file_disk s' = advance (file_disk s) b c \<or> (r \<noteq> None \<and> file_disk s' = file_disk s))"
    by (rule file_append_next)
next
  fix s f e b s' r
  assume "file_good s" "append_file sha f s e b = (s', r)" "append_call (file_disk s) e b"
    "dk_revision (file_disk s) = bt_revision b"
  then show "file_good s' \<and> file_candidate s' = file_candidate s \<and> file_disk s' = file_disk s"
    by (rule file_append_again)
next
  fix s f recover e snapshot revision s' t
  assume good: "file_good s" and fresh: "file_fresh f s" and wf: "wf_projection snapshot"
    and run: "replace_file f recover s e snapshot revision = (s', Inr t)"
  from run good fresh wf show "file_good s' \<and> file_candidate s' = None
      \<and> dk_generation (file_disk s') = ct_generation t \<and> dk_revision (file_disk s') = ct_revision t
      \<and> (ct_revision t, dk_content (file_disk s')) = (case file_candidate s of None \<Rightarrow> (revision, snapshot) | Some rc \<Rightarrow> rc)"
  proof (cases rule: replace_file_cases)
    case (pending rp)
    obtain rc where rc: "file_candidate s = Some rc" using pending(1) by (auto simp: file_candidate_def)
    from publish_effect [OF good pending this] rc show ?thesis by simp
  next
    case (built s1 rp)
    have "file_candidate s = None" using built(1) by (simp add: file_candidate_def)
    with publish_effect [OF built(4,2,3,6)] show ?thesis by simp
  qed simp
next
  fix s f recover e snapshot revision s' err
  assume good: "file_good s" and fresh: "file_fresh f s" and wf: "wf_projection snapshot"
    and run: "replace_file f recover s e snapshot revision = (s', Inl err)"
  from run good fresh wf show "file_good s'
      \<and> file_candidate s' \<in> {file_candidate s, Some (case file_candidate s of None \<Rightarrow> (revision, snapshot) | Some rc \<Rightarrow> rc)}
      \<and> (file_disk s' = file_disk s \<or> file_candidate s' = Some (dk_revision (file_disk s'), dk_content (file_disk s')))"
  proof (cases rule: replace_file_cases)
    case (unchanged err')
    with good show ?thesis by simp
  next
    case (pending rp)
    obtain rc where rc: "file_candidate s = Some rc" using pending(1) by (auto simp: file_candidate_def)
    from publish_effect [OF good pending this] rc show ?thesis by simp
  next
    case (built s1 rp)
    have "file_candidate s = None" using built(1) by (simp add: file_candidate_def)
    with publish_effect [OF built(4,2,3,6)] built(5) show ?thesis by simp
  qed
qed

text \<open>
  A candidate that an ordinary replacement left behind is retried as an ordinary replacement, also by
  \<open>recoverEmptySource\<close>: an emptied file stays refused.
\<close>

lemma pending_ignores_recovery:
  "tf_pending tf = Some rp \<Longrightarrow> \<not> rp_recover rp \<Longrightarrow> tf_file tf = TornHeader 0 \<Longrightarrow>
   replace_file f True tf e snapshot revision = (tf, Inl InvalidHistory)"
  by (simp add: replace_file_def publish_def read_file_def)

end
