(* ===== verification/TranscriptDurability.thy ===== *)
theory TranscriptDurability
  imports TranscriptFile
begin

text \<open>
  What the transcript writer and its file guarantee together: the interface lemmas of
  \<open>transcript_storage\<close> on the model of file.ts, and the absence of lost wake-ups.
\<close>

section \<open>Wake-ups\<close>

text \<open>Work that no write carries yet needs a timer.\<close>

definition has_work :: "writer \<Rightarrow> bool" where
  "has_work w \<longleftrightarrow> w_needs_baseline w \<or> w_retry_batch w \<noteq> None \<or> w_queue w \<noteq> []"

definition awake :: "writer \<Rightarrow> bool" where
  "awake w \<longleftrightarrow> w_closed w \<or> w_retiring w \<or> w_blocked w \<or> w_flight w \<noteq> None \<or> w_timer w \<noteq> None \<or> \<not> has_work w"

lemma awake_schedule [simp]: "awake (schedule delay w)"
  by (auto simp: awake_def schedule_def has_work_def)

lemma awake_start_write: "\<not> w_blocked w \<longrightarrow> w_complete w \<Longrightarrow> awake (start_write uuid w)"
  by (cases "w_retry_batch w"; cases "take_entries 0 0 (w_queue w)")
    (auto simp: awake_def start_write_def has_work_def Let_def)

lemma awake_after_write [simp]: "awake (after_write w)"
  by (simp add: after_write_def Let_def)

lemma observe_cases:
  obtains (stopped) "observe json_bytes uuid op boundary w = w" "w_closed w"
  | (fault) "observe json_bytes uuid op boundary w = reject_source w"
  | (writes) w1 where "observe json_bytes uuid op boundary w = start_write uuid w1"
      "w_blocked w1 = w_blocked w" "w_complete w1 = w_complete w"
  | (later) w1 delay where "observe json_bytes uuid op boundary w = schedule delay w1"
proof (cases "w_closed w")
  case True
  then show ?thesis by (intro stopped) (simp_all add: observe_def)
next
  case open_writer: False
  show ?thesis
  proof (cases "apply_operation op (w_projection w)")
    case (Inl e)
    with open_writer show ?thesis by (intro fault) (simp add: observe_def)
  next
    case (Inr p)
    define w1 where "w1 = w\<lparr>w_projection := p, w_live := w_live w + 1\<rparr>"
    define w2 where "w2 = (if w_needs_baseline w1 then w1
      else w1\<lparr>w_queue := enqueue_operation op (w_live w1) (json_bytes op) boundary (w_queue w1),
              w_queued_bytes := w_queued_bytes w1 + json_bytes op\<rparr>)"
    define w3 where "w3 = watch_health w2"
    have eq: "observe json_bytes uuid op boundary w =
        (if batch_bytes \<le> w_queued_bytes w3 \<and> w_attempt w3 = 0 \<and> \<not> w_needs_baseline w3
         then start_write uuid (w3\<lparr>w_timer := None\<rparr>)
         else schedule (if boundary then 0 else batch_ms) w3)"
      by (simp only: observe_def open_writer Inr if_False sum.case Let_def w1_def [symmetric] w2_def [symmetric]
          w3_def [symmetric])
    have "w_blocked w3 = w_blocked w" "w_complete w3 = w_complete w"
      by (simp_all add: w3_def w2_def w1_def watch_health_def)
    with eq show ?thesis using writes [of "w3\<lparr>w_timer := None\<rparr>"] later by (auto split: if_splits)
  qed
qed

lemma awake_stopped: "w_closed w \<or> w_retiring w \<or> w_blocked w \<Longrightarrow> awake w"
  by (auto simp: awake_def)

lemma awake_quiet:
  "awake w \<Longrightarrow> awake (w\<lparr>w_health := b\<rparr>)" "awake w \<Longrightarrow> awake (fail_save r st w)"
  by (simp_all add: awake_def has_work_def fail_save_def)

lemma awake_step:
  assumes step: "writer_step json_bytes uuid w w'" and wake: "awake w" and sound: "\<not> w_blocked w \<longrightarrow> w_complete w"
  shows "awake w'"
  using step
proof cases
  case (observe op boundary)
  then show ?thesis
    using wake sound
    by (cases rule: observe_cases [of json_bytes uuid op boundary w])
      (simp_all add: awake_start_write awake_stopped reject_source_def fail_save_def)
next
  case commit
  then show ?thesis using wake by (simp add: request_commit_def Let_def)
next
  case (replace p)
  then have "\<exists>w1. w' = schedule 0 w1" by (auto simp: replace_projection_def split: if_splits)
  then show ?thesis by auto
next
  case reject
  then show ?thesis by (simp add: awake_stopped reject_source_def fail_save_def)
next
  case (timer delay)
  then show ?thesis using sound by (simp add: timer_fires_def awake_start_write)
next
  case health
  then show ?thesis using wake by (simp add: health_fires_def Let_def awake_quiet)
next
  case (flush target)
  then have "w' = start_write uuid (w\<lparr>w_timer := None\<rparr>)" by (simp add: flush_start_def split: if_splits)
  then show ?thesis using sound by (simp add: awake_start_write)
next
  case (mutation target answer)
  then have "w' = w \<or> w' = start_write uuid (w\<lparr>w_timer := None\<rparr>)"
    by (auto simp: mutation_turn_def Let_def split: if_splits)
  then show ?thesis using sound wake by (auto simp: awake_start_write)
next
  case retire
  then show ?thesis by (auto simp: retire_start_def awake_stopped split: if_splits)
next
  case (retired settled)
  then show ?thesis by (simp add: retire_end_def close_writer_def awake_stopped)
next
  case close
  then show ?thesis by (simp add: close_writer_def awake_stopped)
qed

section \<open>The writer with its file\<close>

text \<open>A writer on revision \<open>n\<close> of a readable file that holds \<open>p\<close>, and any number of steps.\<close>

definition initial_state :: "transcript_file \<Rightarrow> writer \<times> transcript_file \<times> history" where
  "initial_state tf =
     (let d = file_disk tf in
      (new_writer (dk_generation d) (dk_revision d) (dk_content d), tf, \<lambda>_. dk_content d))"

definition saving_file :: "(jstr \<Rightarrow> 256 word) \<Rightarrow> bool \<Rightarrow> (operation \<Rightarrow> nat) \<Rightarrow> (nat \<Rightarrow> jstr)
    \<Rightarrow> transcript_file \<Rightarrow> writer \<times> transcript_file \<times> history \<Rightarrow> bool" where
  "saving_file sha can_recover json_bytes uuid tf y =
     (file_good tf \<and> tf_pending tf = None
      \<and> saving (append_file sha) replace_file file_fresh can_recover json_bytes uuid (initial_state tf) y)"

lemma file_disk_wf: "file_good tf \<Longrightarrow> wf_projection (dk_content (file_disk tf))"
  by (cases "tf_file tf")
    (auto simp: file_good_def file_ok_def file_disk_rows file_disk_unborn empty_disk_def wf_create dest: rows_read_wf)

lemma initial_saving_ok:
  assumes "file_good tf" and "tf_pending tf = None"
  shows "saving_ok (new_writer (dk_generation (file_disk tf)) (dk_revision (file_disk tf)) (dk_content (file_disk tf)))
    (file_disk tf) (file_candidate tf) (\<lambda>_. dk_content (file_disk tf))"
  using file_disk_wf [OF assms(1)] assms(2)
  by (simp add: saving_defs new_writer_def candidate_ok_def file_candidate_def disk_at_def)

lemma saving_file_ok:
  assumes "saving_file sha can_recover json_bytes uuid tf (w, tf', h)"
  shows "file_good tf' \<and> saving_ok w (file_disk tf') (file_candidate tf') h"
  using assms file_store.saving_keeps initial_saving_ok
  unfolding saving_file_def initial_state_def Let_def by blast

lemma saving_file_awake:
  assumes "saving_file sha can_recover json_bytes uuid tf (w, tf', h)"
  shows "awake w"
proof -
  have good: "file_good tf" "tf_pending tf = None" using assms by (simp_all add: saving_file_def)
  have "saving (append_file sha) replace_file file_fresh can_recover json_bytes uuid (initial_state tf) (w, tf', h)"
    using assms by (simp add: saving_file_def)
  then show ?thesis
  proof (induction "initial_state tf" "(w, tf', h)" arbitrary: w tf' h rule: saving.induct)
    case start
    then show ?case by (auto simp: initial_state_def Let_def new_writer_def awake_def has_work_def)
  next
    case (local w1 s1 h1 w2)
    then have "saving_file sha can_recover json_bytes uuid tf (w1, s1, h1)"
      using good by (simp add: saving_file_def)
    from saving_file_ok [OF this] local show ?case
      using awake_step [of json_bytes uuid w1 w2] by (auto simp: saving_ok_def)
  next
    case (settled w1 s1 h1 fl f w2 s2)
    then show ?case
      by (auto simp: settle_write_def split: flight.splits prod.splits option.splits sum.splits)
  qed
qed



text \<open>
  C8. No lost wake-up: while some revision is not durable, and the writer is neither closed,
  blocked nor retiring, a write is in flight or a timer will start one.
\<close>

theorem unsaved_is_scheduled:
  assumes "saving_file sha can_recover json_bytes uuid tf (w, tf', h)"
    and "w_durable w < w_live w" and "\<not> w_closed w" and "\<not> w_blocked w" and "\<not> w_retiring w"
  shows "w_flight w \<noteq> None \<or> w_timer w \<noteq> None"
proof (rule ccontr)
  assume "\<not> (w_flight w \<noteq> None \<or> w_timer w \<noteq> None)"
  with saving_file_awake [OF assms(1)] assms(3-) have "\<not> has_work w" "w_flight w = None"
    by (auto simp: awake_def)
  with saving_file_ok [OF assms(1)] assms(2-) show False
    by (auto simp: saving_defs has_work_def)
qed

text \<open>
  Every batch in flight continues the durable history: it starts at the revision after the
  durable one, so the reader's order check accepts it, and its operations lead from the projection of
  the durable revision to the projection of the revision that it claims.
\<close>

theorem flight_continues_history:
  assumes "saving_file sha can_recover json_bytes uuid tf (w, tf', h)" and "w_flight w = Some (AppendFlight e b)"
  shows "ct_revision e = w_durable w \<and> bt_revision b \<le> w_live w
    \<and> rfold apply_operation (bt_operations b) (h (w_durable w)) = Inr (h (bt_revision b))
    \<and> (\<forall>r. dr_revision r = w_durable w \<longrightarrow> batch_in_order True r b = Inr ())"
  using saving_file_ok [OF assms(1)] assms(2)
  by (auto simp: saving_ok_def pending_batch_def flight_ok_def batch_ok_def batch_in_order_def)

section \<open>A sample run\<close>

text \<open>A session whose file does not exist yet asks for its birth commit, and the timer starts the write.\<close>

definition sample_store :: transcript_file where
  "sample_store = \<lparr>tf_session = js ''s1'', tf_generation = js ''g1'', tf_create = True, tf_recover_tail = False,
     tf_file = Missing, tf_inode = 0, tf_cursor = None, tf_created = False, tf_pending = None\<rparr>"

definition sample_writer :: writer where
  "sample_writer = new_writer (js ''g1'') 0 create_projection"

lemma sample_start:
  "saving_file sha True (\<lambda>_. 1) dec_nat sample_store (sample_writer, sample_store, \<lambda>_. create_projection)"
proof -
  have "initial_state sample_store = (sample_writer, sample_store, \<lambda>_. create_projection)"
    by (simp add: initial_state_def sample_store_def sample_writer_def file_disk_def Let_def)
  moreover have "file_good sample_store" "tf_pending sample_store = None"
    by (simp_all add: sample_store_def file_good_def file_ok_def cursor_ok_def pending_ok_def)
  ultimately show ?thesis by (simp add: saving_file_def saving.start)
qed

lemma saving_file_step:
  "saving_file sha cr jb uuid tf (w, s, h) \<Longrightarrow> writer_step jb uuid w w' \<Longrightarrow>
   saving_file sha cr jb uuid tf (w', s, note_live w' h)"
  unfolding saving_file_def by (intro conjI; (elim conjE)?; (assumption | rule saving.local))

lemma sample_commit:
  "saving_file sha True (\<lambda>_. 1) dec_nat sample_store
     (request_commit sample_writer, sample_store, note_live (request_commit sample_writer) (\<lambda>_. create_projection))"
  by (rule saving_file_step [OF sample_start writer_step.commit])

lemma sample_flight:
  "saving_file sha True (\<lambda>_. 1) dec_nat sample_store
     (timer_fires dec_nat (request_commit sample_writer), sample_store,
      note_live (timer_fires dec_nat (request_commit sample_writer))
        (note_live (request_commit sample_writer) (\<lambda>_. create_projection)))"
  by (rule saving_file_step [OF sample_commit writer_step.timer [where delay = batch_ms]]) code_simp



theorem unsaved_is_scheduled_witness:
  "w_timer (request_commit sample_writer) \<noteq> None"
proof -
  have "w_durable (request_commit sample_writer) < w_live (request_commit sample_writer)"
    "\<not> w_closed (request_commit sample_writer)" "\<not> w_blocked (request_commit sample_writer)"
    "\<not> w_retiring (request_commit sample_writer)" "w_flight (request_commit sample_writer) = None"
    by code_simp+
  then show ?thesis using unsaved_is_scheduled [OF sample_commit] by blast
qed

theorem flight_continues_history_witness:
  "\<exists>e b. w_flight (timer_fires dec_nat (request_commit sample_writer)) = Some (AppendFlight e b)
     \<and> ct_revision e = 0 \<and> bt_revision b \<le> 1"
proof -
  have "w_flight (timer_fires dec_nat (request_commit sample_writer)) = Some (AppendFlight
      \<lparr>ct_generation = js ''g1'', ct_revision = 0\<rparr>
      \<lparr>bt_id = dec_nat 0, bt_mode = Delta, bt_from = 1, bt_revision = 1, bt_operations = [], bt_end = False\<rparr>)"
    and "w_durable (timer_fires dec_nat (request_commit sample_writer)) = 0"
    and "w_live (timer_fires dec_nat (request_commit sample_writer)) = 1"
    by code_simp+
  with flight_continues_history [OF sample_flight this(1)] show ?thesis by auto
qed

end
