(* ===== verification/JsText.thy ===== *)
theory JsText
  imports JsValue
begin

text \<open>
  The operations of JavaScript strings that the text components use: \<open>trim\<close> and the
  white space class, \<open>indexOf\<close>, \<open>includes\<close>, \<open>replace\<close> with a global pattern, and
  \<open>join\<close>. The predicate \<open>no_close\<close> says that a text holds no closing tag of an envelope and
  cannot start one at its end; it is what makes a composed envelope close where it was closed.
\<close>

section \<open>White space\<close>

text \<open>WhiteSpace and LineTerminator of ECMAScript: what \<open>trim\<close> removes and \<open>\\s\<close> matches.\<close>

definition is_space :: "16 word \<Rightarrow> bool" where
  "is_space c \<longleftrightarrow>
     (9 \<le> c \<and> c \<le> 13) \<or> c = 32 \<or> c = 160 \<or> c = 0x1680 \<or> (0x2000 \<le> c \<and> c \<le> 0x200A)
     \<or> c = 0x2028 \<or> c = 0x2029 \<or> c = 0x202F \<or> c = 0x205F \<or> c = 0x3000 \<or> c = 0xFEFF"

definition trim_start :: "jstr \<Rightarrow> jstr" where
  "trim_start s = dropWhile is_space s"

definition trim_end :: "jstr \<Rightarrow> jstr" where
  "trim_end s = rev (dropWhile is_space (rev s))"

definition trim :: "jstr \<Rightarrow> jstr" where
  "trim s = trim_end (trim_start s)"

lemma trim_Nil [simp]: "trim [] = []" "trim_start [] = []" "trim_end [] = []"
  by (simp_all add: trim_def trim_start_def trim_end_def)

lemma trim_start_Cons: "\<not> is_space c \<Longrightarrow> trim_start (c # s) = c # s"
  by (simp add: trim_start_def)

lemma trim_start_space: "is_space c \<Longrightarrow> trim_start (c # s) = trim_start s"
  by (simp add: trim_start_def)

lemma trim_start_idem [simp]: "trim_start (trim_start s) = trim_start s"
  by (simp add: trim_start_def dropWhile_idem)

lemma trim_end_snoc: "\<not> is_space c \<Longrightarrow> trim_end (s @ [c]) = s @ [c]"
  by (simp add: trim_end_def)

lemma trim_end_idem [simp]: "trim_end (trim_end s) = trim_end s"
  by (simp add: trim_end_def dropWhile_idem)

lemma trim_end_prefix: "\<exists>t. s = trim_end s @ t \<and> list_all is_space t"
proof -
  have "s = rev (takeWhile is_space (rev s) @ dropWhile is_space (rev s))" by simp
  then have "s = trim_end s @ rev (takeWhile is_space (rev s))"
    unfolding trim_end_def by (metis rev_append)
  moreover have "list_all is_space (rev (takeWhile is_space (rev s)))"
    by (auto simp: list_all_iff dest: set_takeWhileD)
  ultimately show ?thesis by blast
qed

lemma trim_end_Cons: "\<not> is_space c \<Longrightarrow> trim_end (c # s) = c # trim_end s"
  by (simp add: trim_end_def dropWhile_append)

lemma trim_head: "trim_start s = c # t \<Longrightarrow> \<not> is_space c"
  unfolding trim_start_def by (metis dropWhile_eq_Cons_conv)

lemma trim_start_trim [simp]: "trim_start (trim s) = trim s"
proof (cases "trim_start s")
  case (Cons c t)
  have "\<not> is_space c" by (rule trim_head [OF Cons])
  then show ?thesis using Cons by (simp add: trim_def trim_end_Cons trim_start_Cons)
qed (simp add: trim_def)

lemma trim_idem [simp]: "trim (trim s) = trim s"
proof -
  have "trim (trim s) = trim_end (trim_start (trim s))" by (rule trim_def)
  also have "\<dots> = trim_end (trim s)" by simp
  also have "\<dots> = trim s" unfolding trim_def by simp
  finally show ?thesis .
qed

section \<open>Searching\<close>

text \<open>\<open>lastIndexOf\<close> of a single code unit, or -1.\<close>

definition last_index :: "16 word \<Rightarrow> jstr \<Rightarrow> int" where
  "last_index c s =
     (if c \<in> set s then int (length s - 1 - length (takeWhile (\<lambda>x. x \<noteq> c) (rev s))) else -1)"

text \<open>\<open>s.indexOf(pat)\<close>, with None for -1.\<close>

fun index_of :: "jstr \<Rightarrow> jstr \<Rightarrow> nat option" where
  "index_of pat [] = (if pat = [] then Some 0 else None)"
| "index_of pat (c # s) =
     (if prefix pat (c # s) then Some 0 else map_option Suc (index_of pat s))"

definition contains :: "jstr \<Rightarrow> jstr \<Rightarrow> bool" where
  "contains pat s \<longleftrightarrow> index_of pat s \<noteq> None"

text \<open>\<open>s.replace(/pat/g, rep)\<close> for a literal, non-empty pattern.\<close>

function replace_all :: "jstr \<Rightarrow> jstr \<Rightarrow> jstr \<Rightarrow> jstr" where
  "replace_all pat rep [] = []"
| "replace_all pat rep (c # s) =
     (if pat \<noteq> [] \<and> prefix pat (c # s)
      then rep @ replace_all pat rep (drop (length pat) (c # s))
      else c # replace_all pat rep s)"
  by pat_completeness auto
termination
  by (relation "measure (\<lambda>(pat, rep, s). length s)") (auto simp: Suc_le_eq)

lemma index_of_found: "index_of pat s = Some i \<Longrightarrow> s = take i s @ pat @ drop (i + length pat) s"
proof (induction s arbitrary: i)
  case (Cons c s)
  show ?case
  proof (cases "prefix pat (c # s)")
    case True
    then obtain t where t: "c # s = pat @ t" unfolding prefix_def by blast
    moreover have "i = 0" using True Cons.prems by simp
    ultimately show ?thesis by simp
  next
    case False
    with Cons.prems obtain j where "index_of pat s = Some j" "i = Suc j" by auto
    with Cons.IH [of j] show ?thesis by simp
  qed
qed (auto split: if_splits)

lemma index_of_bound: "index_of pat s = Some i \<Longrightarrow> i + length pat \<le> length s"
proof (induction s arbitrary: i)
  case (Cons c s)
  then show ?case by (auto split: if_splits dest: prefix_length_le)
qed (auto split: if_splits)

section \<open>Texts without a given tag\<close>

text \<open>
  A tag that starts with \<open><\<close> and the three units \<open>p\<close> neither occurs in \<open>s\<close> nor begins at its
  end: every \<open><\<close> of \<open>s\<close> is followed, within \<open>s\<close>, by three other units.
\<close>

fun no_tag :: "jstr \<Rightarrow> jstr \<Rightarrow> bool" where
  "no_tag p [] = True"
| "no_tag p (c # s) = ((c = 60 \<longrightarrow> 3 \<le> length s \<and> take 3 s \<noteq> p) \<and> no_tag p s)"

lemma no_tag_append: "no_tag p s \<Longrightarrow> no_tag p t \<Longrightarrow> no_tag p (s @ t)"
  by (induction s) auto

lemma no_tag_plain: "60 \<notin> set s \<Longrightarrow> no_tag p s"
  by (induction s) auto

lemma no_tag_join:
  "no_tag p sep \<Longrightarrow> list_all (no_tag p) xs \<Longrightarrow> no_tag p (join_with sep xs)"
  by (induction sep xs rule: join_with.induct) (auto intro!: no_tag_append)

text \<open>The same on source literals, which evaluates quickly.\<close>

fun lit_no_tag :: "string \<Rightarrow> string \<Rightarrow> bool" where
  "lit_no_tag p [] = True"
| "lit_no_tag p (c # s) =
     ((c = CHR ''<'' \<longrightarrow> 3 \<le> length s \<and> take 3 s \<noteq> p) \<and> lit_no_tag p s)"

lemma js_Cons: "js (c # s) = word_of_nat (of_char c) # js s"
  by (simp add: js_def)

lemma js_append: "js (s @ t) = js s @ js t"
  by (simp add: js_def)

lemma length_js [simp]: "length (js s) = length s"
  by (simp add: js_def)

lemma take_js: "take n (js s) = js (take n s)"
  by (simp add: js_def take_map)

lemma drop_js: "drop n (js s) = js (drop n s)"
  by (simp add: js_def drop_map)

lemma no_tag_js: "lit_no_tag p s \<Longrightarrow> no_tag (js p) (js s)"
proof (induction s)
  case (Cons c s)
  have "(60 :: 16 word) = word_of_nat (of_char CHR ''<'')" by simp
  then have "word_of_nat (of_char c) = (60 :: 16 word) \<longleftrightarrow> c = CHR ''<''"
    by (metis of_char_16_inject)
  moreover have "js (take 3 s) = js p \<longleftrightarrow> take 3 s = p" by simp
  ultimately show ?case using Cons by (auto simp: js_Cons take_js)
qed simp

lemma not_prefix_tag:
  assumes "no_tag p (c # s)" and "length p = 3"
  shows "\<not> prefix (60 # p @ rest) (c # s @ t)"
proof
  assume "prefix (60 # p @ rest) (c # s @ t)"
  then obtain u where u: "c # s @ t = (60 # p @ rest) @ u" unfolding prefix_def by blast
  then have "c = 60" "s @ t = p @ rest @ u" by auto
  then have "take 3 (s @ t) = p" using assms(2) by simp
  moreover have "3 \<le> length s" "take 3 s \<noteq> p" using assms(1) \<open>c = 60\<close> by auto
  ultimately show False by simp
qed

text \<open>A tag is found right after a text without it, and not in such a text.\<close>

lemma index_of_after:
  assumes "no_tag p s" and "length p = 3"
  shows "index_of (60 # p @ rest) (s @ (60 # p @ rest) @ t) = Some (length s)"
  using assms(1)
proof (induction s)
  case (Cons c s)
  show ?case
    using Cons not_prefix_tag [OF Cons.prems assms(2), of rest "(60 # p @ rest) @ t"] by simp
qed (simp add: prefix_def)

lemma index_of_no_tag:
  "no_tag p s \<Longrightarrow> length p = 3 \<Longrightarrow> index_of (60 # p @ rest) s = None"
proof (induction s)
  case (Cons c s)
  then show ?case using not_prefix_tag [of p c s rest "[]"] by simp
qed simp

end
