(* ===== verification/QueryContext.thy ===== *)
theory QueryContext
  imports SystemReminder
begin

text \<open>
  The typed context of a desktop query: \<open>QueryPrimaryContext\<close> and \<open>DesktopQueryDraft\<close> of
  shared/agentMentions.ts, with the rendering of the primary reminder from them. Agent mention
  snapshots and the required skill are opaque here.
\<close>

section \<open>Data\<close>

datatype desktop_context =
    TaskDiscussion discussion_input
  | FloatingContext floating_ball_input

datatype primary_context =
    GoalContext goal_input bool "desktop_context option"
  | DesktopContext desktop_context

record query_draft =
  dq_skill :: "json option"
  dq_visible :: jstr
  dq_mentions :: "json list option"
  dq_primary :: "primary_context option"

definition desktop_context_of :: "primary_context option \<Rightarrow> desktop_context option" where
  "desktop_context_of ctx =
     (case ctx of
        None \<Rightarrow> None
      | Some (GoalContext _ _ desktop) \<Rightarrow> desktop
      | Some (DesktopContext desktop) \<Rightarrow> Some desktop)"

section \<open>The primary reminder\<close>

definition desktop_reminder :: "desktop_context \<Rightarrow> jstr \<Rightarrow> jstr" where
  "desktop_reminder ctx visible =
     (case ctx of
        TaskDiscussion i \<Rightarrow> build_task_discussion (i\<lparr>td_visible := visible\<rparr>)
      | FloatingContext i \<Rightarrow> build_floating_ball i @ [10] @ visible)"

definition primary_reminder :: "primary_context \<Rightarrow> jstr \<Rightarrow> jstr" where
  "primary_reminder primary visible =
     (case primary of
        DesktopContext ctx \<Rightarrow> desktop_reminder ctx visible
      | GoalContext i first desktop \<Rightarrow>
          let goal_message =
                (if first then build_goal_continuation (i\<lparr>gi_visible := Some visible\<rparr>)
                 else build_goal_context i visible)
          in case desktop of
              None \<Rightarrow> goal_message
            | Some ctx \<Rightarrow>
                let goal_body = pr_body (parse_leading (Some goal_message));
                    desktop_body = pr_body (parse_leading (Some (desktop_reminder ctx visible)))
                in reminder_open @ [10] @ goal_body @ [10] @ desktop_body @ [10] @ reminder_close
                   @ [10] @ visible)"

section \<open>The visible text of a desktop query\<close>

lemma built_body:
  assumes "hidden_lines ms" and "tag_name t" and "hidden (open_tag t)" and "hidden (close_tag t)"
  shows "pr_body (parse_leading (Some (lines_text
      (reminder_open # open_tag t # ms @ close_tag t # reminder_close # rest))))
    = open_tag t @ 10 # lines_text (ms @ [close_tag t])"
proof -
  let ?s = "10 # lines_text (ms @ [close_tag t]) @ [10]"
  have "list_all (no_tag p) (ms @ [close_tag t]) \<Longrightarrow> no_tag p (lines_text (ms @ [close_tag t]))" for p
    by (rule no_tag_join) simp_all
  then have s: "hidden ?s"
    using assms(1,4) by (auto simp: hidden_lines_def list_all_iff intro!: no_tag_append)
  obtain u where u: "10 # lines_text (ms @ [close_tag t]) = u @ [62]"
  proof (cases "ms = []")
    case True
    then show ?thesis using that [of "10 # js ''</'' @ t"] by (simp add: close_tag_def js_def)
  next
    case False
    then show ?thesis
      using that [of "10 # lines_text ms @ 10 # js ''</'' @ t"]
      by (simp add: join_append close_tag_def js_def)
  qed
  have "is_space 10" "\<not> is_space 62" by (simp_all add: is_space_def)
  then have "trim_end ?s = 10 # lines_text (ms @ [close_tag t])"
    unfolding append_Cons [symmetric] u by (simp add: trim_end_def)
  then have "pr_body (parse_single (Some (lines_text
      (reminder_open # open_tag t # ms @ close_tag t # reminder_close # rest))))
    = open_tag t @ 10 # lines_text (ms @ [close_tag t])"
    unfolding built_text parse_envelope(5) [OF s assms(2,3)] trim_tagged [OF assms(2)]
    by (simp add: open_tag_def js_def)
  then show ?thesis by (simp add: parse_leading_def Let_def)
qed

lemma hidden_tail:
  assumes "hidden_lines ms" and "hidden (close_tag t)"
  shows "hidden (lines_text (ms @ [close_tag t]))"
  using assms by (auto simp: hidden_lines_def list_all_iff intro!: no_tag_join)

lemma hidden_tagged:
  assumes "hidden_lines ms" and "hidden (open_tag t)" and "hidden (close_tag t)"
  shows "hidden (open_tag t @ 10 # lines_text (ms @ [close_tag t]))"
  using hidden_tail [OF assms(1,3)] assms(2) by (simp add: no_tag_append)

lemma plain_start: "\<not> prefix reminder_open (trim v) \<Longrightarrow> \<not> prefix reminder_open (trim_start v)"
proof
  assume plain: "\<not> prefix reminder_open (trim v)" and "prefix reminder_open (trim_start v)"
  then obtain u where "trim_start v = reminder_open @ u" unfolding prefix_def by blast
  moreover have "list_all (\<lambda>c. \<not> is_space c) reminder_open"
    by (simp add: reminder_open_def js_def is_space_def)
  ultimately have "trim v = reminder_open @ trim_end u"
    by (simp add: trim_def trim_end_keep)
  with plain show False by simp
qed

lemma trim_newline: "trim (10 # v) = trim v"
  by (simp add: trim_def trim_start_space is_space_def)

lemma peel_trimmed: "\<not> prefix reminder_open (trim v) \<Longrightarrow> peel n (trim v) = trim v"
  by (rule peel_plain) simp

lemma plain_line:
  assumes "\<not> prefix reminder_open (trim v)"
  shows "parse_leading (Some (10 # v)) = no_reminder (10 # v)"
proof -
  have "is_space 10" by (simp add: is_space_def)
  then have "\<not> prefix reminder_open (trim_start (10 # v))"
    using plain_start [OF assms] by (simp add: trim_start_space)
  then show ?thesis by (simp add: parse_leading_def parse_plain no_reminder_def)
qed

lemma floating_message:
  "build_floating_ball f = [] \<or>
   (\<exists>ms. build_floating_ball f @ [10] @ v = lines_text (reminder_open # open_tag floating_ball_tag #
      ms @ close_tag floating_ball_tag # reminder_close # [v]) \<and> hidden_lines ms)"
  using floating_text [of f]
proof
  assume "\<exists>ms. build_floating_ball f = lines_text (reminder_open # open_tag floating_ball_tag #
      ms @ close_tag floating_ball_tag # reminder_close # []) \<and> hidden_lines ms"
  then obtain ms where f: "build_floating_ball f = lines_text (reminder_open #
      open_tag floating_ball_tag # ms @ close_tag floating_ball_tag # reminder_close # [])"
    and ms: "hidden_lines ms" by blast
  have "build_floating_ball f @ [10] @ v = lines_text (reminder_open # open_tag floating_ball_tag #
      ms @ close_tag floating_ball_tag # reminder_close # [v])"
    unfolding f built_text by simp
  with ms show ?thesis by blast
qed simp

lemma desktop_body_hidden:
  assumes "\<not> prefix reminder_open (trim v)"
  shows "hidden (pr_body (parse_leading (Some (desktop_reminder ctx v))))"
proof (cases ctx)
  case (TaskDiscussion i)
  obtain ms where "build_task_discussion (i\<lparr>td_visible := v\<rparr>) = lines_text (reminder_open #
      open_tag task_discussion_tag # ms @ close_tag task_discussion_tag # reminder_close # [v])"
    and "hidden_lines ms"
    using task_discussion_text [of "i\<lparr>td_visible := v\<rparr>"] by auto
  then show ?thesis
    using built_body [OF _ product_tags(4) product_tags_hidden(7,8), of ms "[v]"]
      hidden_tagged [OF _ product_tags_hidden(7,8), of ms]
    by (simp add: desktop_reminder_def TaskDiscussion)
next
  case (FloatingContext f)
  consider "build_floating_ball f = []"
    | ms where "build_floating_ball f @ [10] @ v = lines_text (reminder_open #
      open_tag floating_ball_tag # ms @ close_tag floating_ball_tag # reminder_close # [v])"
      "hidden_lines ms"
    using floating_message by blast
  then show ?thesis
  proof cases
    case 1
    then show ?thesis
      using plain_line [OF assms]
      by (simp add: desktop_reminder_def FloatingContext no_reminder_def)
  next
    case 2
    then show ?thesis
      using built_body [OF _ product_tags(1) product_tags_hidden(1,2), of ms "[v]"]
        hidden_tagged [OF _ product_tags_hidden(1,2), of ms]
      by (simp add: desktop_reminder_def FloatingContext)
  qed
qed

lemma strip_envelope:
  assumes "hidden s" and "tag_name t" and "hidden (open_tag t)"
  shows "strip_leading (Some (reminder_open @ 10 # open_tag t @ s @ reminder_close @ tail))
    = peel 8 (trim tail)"
  using parse_envelope [OF assms, of tail]
  by (simp add: strip_leading_def parse_leading_def Let_def)

lemma desktop_shows_message:
  assumes "\<not> prefix reminder_open (trim v)"
  shows "trim (strip_leading (Some (desktop_reminder ctx v))) = trim v"
proof (cases ctx)
  case (TaskDiscussion i)
  obtain ms where "build_task_discussion (i\<lparr>td_visible := v\<rparr>) = lines_text (reminder_open #
      open_tag task_discussion_tag # ms @ close_tag task_discussion_tag # reminder_close # [v])"
    and "hidden_lines ms"
    using task_discussion_text [of "i\<lparr>td_visible := v\<rparr>"] by auto
  then show ?thesis
    using parse_built(3) [OF _ product_tags(4) product_tags_hidden(7,8), of ms "[v]"]
    by (simp add: desktop_reminder_def TaskDiscussion peel_trimmed [OF assms])
next
  case (FloatingContext f)
  consider "build_floating_ball f = []"
    | ms where "build_floating_ball f @ [10] @ v = lines_text (reminder_open #
      open_tag floating_ball_tag # ms @ close_tag floating_ball_tag # reminder_close # [v])"
      "hidden_lines ms"
    using floating_message by blast
  then show ?thesis
  proof cases
    case 1
    then show ?thesis
      using plain_line [OF assms] trim_newline
      by (simp add: desktop_reminder_def FloatingContext no_reminder_def strip_leading_def)
  next
    case 2
    then show ?thesis
      using parse_built(3) [OF _ product_tags(1) product_tags_hidden(1,2), of ms "[v]"]
      by (simp add: desktop_reminder_def FloatingContext peel_trimmed [OF assms])
  qed
qed

lemma goal_message_shape:
  "\<exists>t ms rest. (if first then build_goal_continuation (i\<lparr>gi_visible := Some v\<rparr>)
       else build_goal_context i v)
     = lines_text (reminder_open # open_tag t # ms @ close_tag t # reminder_close # rest)
     \<and> hidden_lines ms \<and> tag_name t \<and> hidden (open_tag t) \<and> hidden (close_tag t)
     \<and> trim (lines_text rest) = trim v"
  using goal_continuation_text [of "i\<lparr>gi_visible := Some v\<rparr>"] goal_context_text [of i v]
    product_tags(2,3) product_tags_hidden(3-6)
  by (cases first) (fastforce simp: trimmed_def)+

text \<open>
  The reminder of a desktop query shows the user's message and nothing of its context, for a
  Goal turn, a task discussion, the floating window, and a Goal turn with a desktop context merged
  into the same envelope.
\<close>

theorem primary_reminder_shows_message:
  assumes "\<not> prefix reminder_open (trim v)"
  shows "trim (strip_leading (Some (primary_reminder p v))) = trim v"
proof -
  have peel: "trim (peel n (trim v)) = trim v" for n
    using peel_trimmed [OF assms] by simp
  show ?thesis
  proof (cases p)
    case (DesktopContext ctx)
    then show ?thesis using desktop_shows_message [OF assms] by (simp add: primary_reminder_def)
  next
    case (GoalContext i first desktop)
    obtain t ms rest where m: "(if first then build_goal_continuation (i\<lparr>gi_visible := Some v\<rparr>)
         else build_goal_context i v)
       = lines_text (reminder_open # open_tag t # ms @ close_tag t # reminder_close # rest)"
      and ms: "hidden_lines ms" and t: "tag_name t" "hidden (open_tag t)" "hidden (close_tag t)"
      and rest: "trim (lines_text rest) = trim v"
      using goal_message_shape [of first v i] by blast
    show ?thesis
    proof (cases desktop)
      case None
      then show ?thesis
        using m rest peel parse_built(3) [OF ms t, of rest]
        by (simp add: GoalContext primary_reminder_def)
    next
      case (Some ctx)
      let ?d = "pr_body (parse_leading (Some (desktop_reminder ctx v)))"
      have shape: "primary_reminder p v = reminder_open @ 10 # open_tag t @
          (10 # lines_text (ms @ [close_tag t]) @ 10 # ?d @ [10]) @ reminder_close @ 10 # v"
        using m built_body [OF ms t, of rest] by (simp add: GoalContext Some primary_reminder_def)
      have "hidden (10 # lines_text (ms @ [close_tag t]) @ 10 # ?d @ [10])"
        using hidden_tail [OF ms t(3)] desktop_body_hidden [OF assms, of ctx]
        by (simp add: no_tag_append)
      from strip_envelope [OF this t(1,2), of "10 # v"] show ?thesis
        unfolding shape by (simp only: trim_newline peel)
    qed
  qed
qed

lemma primary_reminder_shows_message_witness:
  "trim (strip_leading (Some (primary_reminder
     (DesktopContext (FloatingContext \<lparr>fb_app_name = Some (js ''</system-reminder>''),
        fb_window_title = None, fb_selected_text = None, fb_screenshot = Some True\<rparr>))
     (js ''hello'')))) = js ''hello''"
  by (rule primary_reminder_shows_message [of "js ''hello''", THEN trans])
    (simp_all add: reminder_open_def js_def trim_def trim_start_def trim_end_def is_space_def)

end
