(* ===== verification/TurnQueue.thy ===== *)
theory TurnQueue
  imports QueryContext
begin

text \<open>
  The decisions of session-core/turn-queue.ts: in which mode an input is admitted, where a new
  input goes while a turn is running, where a queued item is found, and when an item that waits
  for a turn boundary may start.
\<close>

section \<open>Types\<close>

datatype response_mode = Realtime | AtTurn

datatype admission = Direct | RealtimeInFlight | RealtimeBuffer | TurnBoundary

datatype handoff = SdkInFlight | LocalQueue

datatype location = AtMessage | AtPending | AtBoundary | AtInFlight

datatype owner_kind = GoalOwner | TaskOwner

record turn_owner =
  ow_kind :: owner_kind
  ow_id :: jstr

record turn_identity =
  ti_queue_id :: jstr
  ti_owner :: turn_owner

section \<open>Admission\<close>

definition normalize_response_mode :: "json option \<Rightarrow> response_mode" where
  "normalize_response_mode v = (if v = Some (JStr (js ''turn'')) then AtTurn else Realtime)"

definition resolve_manual_mode :: "json option \<Rightarrow> bool option \<Rightarrow> response_mode" where
  "resolve_manual_mode raw boundary_only =
     (if boundary_only = Some True then AtTurn else normalize_response_mode raw)"

definition applies_response_mode :: "bool option \<Rightarrow> bool" where
  "applies_response_mode from_desktop \<longleftrightarrow> from_desktop = Some True"

definition resolve_chat_mode :: "json option \<Rightarrow> bool option \<Rightarrow> response_mode" where
  "resolve_chat_mode raw from_desktop =
     (if \<not> applies_response_mode from_desktop then Realtime else resolve_manual_mode raw None)"

definition decide_admission :: "response_mode \<Rightarrow> bool \<Rightarrow> bool \<Rightarrow> bool option \<Rightarrow> admission" where
  "decide_admission mode busy in_flight scoped =
     (if \<not> busy then Direct
      else if scoped = Some True then TurnBoundary
      else if mode = AtTurn then TurnBoundary
      else if in_flight then RealtimeBuffer else RealtimeInFlight)"

definition decide_handoff :: "bool \<Rightarrow> handoff" where
  "decide_handoff has_resolver = (if has_resolver then SdkInFlight else LocalQueue)"

section \<open>Places\<close>

definition find_location :: "int \<Rightarrow> int \<Rightarrow> int \<Rightarrow> bool \<Rightarrow> (location \<times> int) option" where
  "find_location message pending boundary in_flight =
     (if 0 \<le> message then Some (AtMessage, message)
      else if 0 \<le> pending then Some (AtPending, pending)
      else if 0 \<le> boundary then Some (AtBoundary, boundary)
      else if in_flight then Some (AtInFlight, -1)
      else None)"

datatype boundary_reason = OnComplete | OnStopped | OnError | OnRecovery

record boundary_facts =
  bf_turn_in_flight :: bool
  bf_competing_ticket :: bool
  bf_in_flight_to_cli :: bool
  bf_pending :: bool
  bf_allow_pending :: "bool option"
  bf_messages :: bool
  bf_promoted :: bool
  bf_abort :: bool
  bf_reason :: boundary_reason
  bf_query_session :: bool
  bf_reset :: bool
  bf_rewind :: bool

definition should_start_boundary :: "boundary_facts \<Rightarrow> bool" where
  "should_start_boundary p \<longleftrightarrow>
     \<not> (bf_turn_in_flight p
        \<or> bf_competing_ticket p
        \<or> bf_in_flight_to_cli p
        \<or> (bf_pending p \<and> bf_allow_pending p \<noteq> Some True)
        \<or> bf_messages p
        \<or> bf_promoted p
        \<or> (bf_abort p \<and> (bf_reason p \<noteq> OnRecovery \<or> bf_query_session p))
        \<or> bf_reset p
        \<or> bf_rewind p)"

definition move_to_front :: "'a list \<Rightarrow> int \<Rightarrow> 'a list \<times> bool" where
  "move_to_front queue index =
     (if index < 0 \<or> int (length queue) \<le> index then (queue, False)
      else (if 0 < index then queue ! nat index # remove_at (nat index) queue else queue, True))"

definition clears_ticket_on_abort :: "jstr option \<Rightarrow> jstr option \<Rightarrow> bool" where
  "clears_ticket_on_abort ticket committing \<longleftrightarrow> truthy ticket \<and> ticket \<noteq> committing"

section \<open>Facts\<close>

lemma find_location_cases:
  "find_location m p b f = Some (l, i) \<Longrightarrow>
     (l = AtMessage \<and> i = m \<and> 0 \<le> m) \<or> (l = AtPending \<and> i = p \<and> 0 \<le> p \<and> m < 0)
     \<or> (l = AtBoundary \<and> i = b \<and> 0 \<le> b \<and> m < 0 \<and> p < 0)
     \<or> (l = AtInFlight \<and> i = -1 \<and> f \<and> m < 0 \<and> p < 0 \<and> b < 0)"
  by (auto simp: find_location_def split: if_splits)

lemma find_location_None:
  "find_location m p b f = None \<longleftrightarrow> m < 0 \<and> p < 0 \<and> b < 0 \<and> \<not> f"
  by (auto simp: find_location_def)

text \<open>Moving to the front keeps every element and the order of the others.\<close>

lemma move_to_front_spec:
  assumes "0 \<le> i" and "i < int (length q)"
  shows "move_to_front q i = (q ! nat i # remove_at (nat i) q, True)"
proof (cases "i = 0")
  case True
  then show ?thesis using assms by (cases q) (simp_all add: move_to_front_def)
qed (use assms in \<open>simp add: move_to_front_def\<close>)

lemma move_to_front_mset: "mset (fst (move_to_front q i)) = mset q"
proof (cases "0 \<le> i \<and> i < int (length q)")
  case True
  then have "nat i < length q" by (auto simp: nat_less_iff)
  then have "q ! nat i \<in># mset q" by simp
  then show ?thesis
    using True \<open>nat i < length q\<close> by (simp add: move_to_front_spec mset_remove_at)
qed (auto simp: move_to_front_def)

lemma move_to_front_snd: "snd (move_to_front q i) \<longleftrightarrow> 0 \<le> i \<and> i < int (length q)"
  by (auto simp: move_to_front_def)

text \<open>
  Where an input goes while the session is busy or idle: work that must have its own turn
  never joins a running one, an idle session takes the input directly, and the SDK slot is offered
  only when it is free and nothing scoped is waiting for the boundary.
\<close>

theorem admission_table:
  "(decide_admission mode busy slot scoped = Direct \<longleftrightarrow> \<not> busy)
   \<and> (decide_admission mode busy slot scoped = TurnBoundary
        \<longleftrightarrow> busy \<and> (scoped = Some True \<or> mode = AtTurn))
   \<and> (decide_admission mode busy slot scoped = RealtimeInFlight
        \<longleftrightarrow> busy \<and> scoped \<noteq> Some True \<and> mode = Realtime \<and> \<not> slot)
   \<and> decide_admission (resolve_manual_mode raw (Some True)) True slot scoped = TurnBoundary
   \<and> (resolve_chat_mode raw from_desktop = AtTurn
        \<longleftrightarrow> from_desktop = Some True \<and> raw = Some (JStr (js ''turn'')))"
  by (cases mode) (auto simp: decide_admission_def resolve_manual_mode_def resolve_chat_mode_def
      applies_response_mode_def normalize_response_mode_def)

end
