(* ===== verification/ChannelDelivery.thy ===== *)
theory ChannelDelivery
  imports JsText
begin

text \<open>
  Who delivers the visible output of a turn to the channel a session is bound to:
  session-core/channel-delivery.ts, with the delivery mode of shared/channelContext.ts.
\<close>

datatype delivery_to_user = UserBinding | UserNone

datatype delivery_to_channel = SessionBinding | ReplyRouter | CallerOwned | NoDelivery

datatype channel_mode = ModeAuto | ModeToolOnly

datatype send_intent = Automatic | Explicit | Control

record channel_delivery =
  cd_user :: delivery_to_user
  cd_assistant :: delivery_to_channel
  cd_mode :: "channel_mode option"

definition channel_allows_send :: "channel_mode \<Rightarrow> send_intent \<Rightarrow> bool" where
  "channel_allows_send mode intent \<longleftrightarrow> mode = ModeAuto \<or> intent \<noteq> Automatic"

definition desktop_delivery :: channel_delivery where
  "desktop_delivery = \<lparr>cd_user = UserBinding, cd_assistant = SessionBinding, cd_mode = None\<rparr>"

definition im_delivery :: channel_delivery where
  "im_delivery = \<lparr>cd_user = UserNone, cd_assistant = ReplyRouter, cd_mode = None\<rparr>"

definition session_bound_delivery :: channel_delivery where
  "session_bound_delivery = \<lparr>cd_user = UserNone, cd_assistant = SessionBinding, cd_mode = None\<rparr>"

definition caller_owned_delivery :: channel_delivery where
  "caller_owned_delivery = \<lparr>cd_user = UserNone, cd_assistant = CallerOwned, cd_mode = None\<rparr>"

definition no_delivery :: channel_delivery where
  "no_delivery = \<lparr>cd_user = UserNone, cd_assistant = NoDelivery, cd_mode = None\<rparr>"

definition injected_delivery :: "delivery_to_channel \<Rightarrow> channel_delivery" where
  "injected_delivery a = \<lparr>cd_user = UserNone, cd_assistant = a, cd_mode = None\<rparr>"

definition silent_channel_text :: "jstr \<Rightarrow> bool" where
  "silent_channel_text s \<longleftrightarrow> trim s = js ''NO_REPLY'' \<or> trim s = js ''<NO_REPLY>''"

definition reconcile_delivery ::
    "delivery_to_channel \<Rightarrow> delivery_to_channel \<Rightarrow> delivery_to_channel" where
  "reconcile_delivery current incoming =
     (if incoming = ReplyRouter \<or> incoming = CallerOwned then incoming
      else if current = ReplyRouter \<or> current = CallerOwned then current
      else if incoming = SessionBinding \<or> current = SessionBinding then SessionBinding
      else NoDelivery)"

text \<open>
  A realtime message that joins a running turn never takes the turn's output away from an
  owner: the result is an explicit owner as soon as one of the two is, the incoming one first; the
  binding only fills an ownerless turn; and folding in several messages does not depend on how they
  are grouped.
\<close>

theorem reconcile_keeps_owner:
  "reconcile_delivery a (reconcile_delivery b c) = reconcile_delivery (reconcile_delivery a b) c
   \<and> reconcile_delivery a a = a
   \<and> reconcile_delivery a NoDelivery = a \<and> reconcile_delivery NoDelivery a = a
   \<and> (reconcile_delivery a b \<in> {ReplyRouter, CallerOwned}
       \<longleftrightarrow> a \<in> {ReplyRouter, CallerOwned} \<or> b \<in> {ReplyRouter, CallerOwned})
   \<and> (reconcile_delivery a b = NoDelivery \<longleftrightarrow> a = NoDelivery \<and> b = NoDelivery)"
  by (cases a; cases b; cases c) (simp_all add: reconcile_delivery_def)

end
