(* ===== verification/SessionTypes.thy ===== *)
theory SessionTypes
  imports TurnQueue ChannelDelivery
begin

text \<open>
  The data of a built-in session that its queue and its turn share: builtin-session/types.ts, with
  the inbox metadata of inbox/types.ts and the facts of session-core/session-activity-policy.ts.
  Values of types that other parts of the program declare are JSON values here.
\<close>

text \<open>A dispatch guard: its identity and whether it has a \<open>cancel\<close> function.\<close>

record dispatch_guard =
  dg_id :: nat
  dg_cancel :: bool

text \<open>A function that another component waits on, and a value of a type declared elsewhere.\<close>

type_synonym callback = nat

record retry_marker =
  rt_root_queue_id :: jstr
  rt_attempt :: nat

datatype delivery_mode = DeliverRealtime | DeliverTurn

text \<open>Per-turn inbox metadata: who asked, and whether an answer goes back.\<close>

record inbox_meta =
  ib_from_session :: jstr
  ib_from_label :: jstr
  ib_reply_back :: bool
  ib_original_id :: jstr
  ib_original_snippet :: jstr
  ib_network_return :: "json option"

record activity_facts =
  af_origin :: "json option"
  af_input_text :: jstr
  af_maintenance_kind :: "json option"

record queue_item =
  qi_channel_snapshot :: "json option"
  qi_channel_primary_reminder :: "bool option"
  qi_surfaced_message_id :: "jstr option"
  qi_mirror_images :: "json list option"
  qi_metadata :: "json option"
  qi_id :: jstr
  qi_message :: json
  qi_message_text :: jstr
  qi_query :: "query_draft option"
  qi_was_queued :: bool
  qi_delivery_mode :: "delivery_mode option"
  qi_resolve :: callback
  qi_attachments :: "json list option"
  qi_request_id :: "jstr option"
  qi_analytics_source :: "json option"
  qi_analytics_origin :: "json option"
  qi_birth_origin :: "json option"
  qi_provider_analytics :: "json option"
  qi_from_inbox :: bool
  qi_inbox_meta :: "inbox_meta option"
  qi_owner :: "turn_owner option"
  qi_on_terminal :: "callback option"
  qi_guard :: "dispatch_guard option"
  qi_channel_delivery :: channel_delivery
  qi_deferred_metadata :: "json option"
  qi_activity_facts :: "activity_facts option"
  qi_deferred_surface :: "json option"
  qi_defer_visible :: "bool option"
  qi_settle_acceptance :: "callback option"
  qi_retry :: "retry_marker option"

record pending_item =
  pi_queue_id :: jstr
  pi_user_message :: json
  pi_source :: queue_item

record admission_ticket =
  tk_queue_id :: jstr
  tk_request_id :: "jstr option"
  tk_created_at :: int
  tk_message_text :: jstr
  tk_query :: "query_draft option"
  tk_owner :: "turn_owner option"
  tk_on_terminal :: "callback option"
  tk_before_persistence :: "dispatch_guard option"
  tk_before_dispatch :: "dispatch_guard option"
  tk_settle_acceptance :: "callback option"
  tk_canceled :: bool
  tk_settlement :: "nat list option"

record boundary_item =
  bi_queue_id :: jstr
  bi_ready :: bool
  bi_ticket :: "nat option"
  bi_source :: "queue_item option"
  bi_message_text :: jstr
  bi_query :: "query_draft option"
  bi_attachments :: "json list option"
  bi_request_id :: "jstr option"
  bi_session_source :: "json option"
  bi_analytics_source :: "json option"
  bi_analytics_origin :: "json option"
  bi_mirror_images :: "json list option"

record in_flight_metadata =
  im_metadata :: "json option"
  im_message_text :: jstr
  im_query :: "query_draft option"
  im_attachments :: "json list option"
  im_request_id :: "jstr option"
  im_session_source :: "json option"
  im_analytics_source :: "json option"
  im_analytics_origin :: "json option"
  im_mirror_images :: "json list option"
  im_channel_delivery :: channel_delivery

text \<open>A plain item, for the witnesses.\<close>

definition sample_item :: "string \<Rightarrow> queue_item" where
  "sample_item i =
     \<lparr>qi_channel_snapshot = None, qi_channel_primary_reminder = None, qi_surfaced_message_id = None,
      qi_mirror_images = None, qi_metadata = None, qi_id = js i, qi_message = JNull,
      qi_message_text = js ''hi'', qi_query = None, qi_was_queued = True, qi_delivery_mode = None,
      qi_resolve = 0, qi_attachments = None, qi_request_id = None, qi_analytics_source = None,
      qi_analytics_origin = None, qi_birth_origin = None, qi_provider_analytics = None,
      qi_from_inbox = False, qi_inbox_meta = None, qi_owner = None, qi_on_terminal = None,
      qi_guard = None, qi_channel_delivery = no_delivery, qi_deferred_metadata = None,
      qi_activity_facts = None, qi_deferred_surface = None, qi_defer_visible = None,
      qi_settle_acceptance = None, qi_retry = None\<rparr>"

end
