(* ===== verification/SessionQueue.thy ===== *)
theory SessionQueue
  imports SessionTypes
begin

text \<open>
  The input queue of the built-in session: builtin-session/queue.ts over the types of
  builtin-session/types.ts. Three arrays hold the inputs that wait (the message queue, the inputs
  that wait for a running turn, and the inputs that wait for its end); one admission ticket, one
  promoted item and one SDK slot hold the input that is being handed over. Admission tickets are
  objects that the slot and a boundary item may share, so they live in a store and are named by a
  reference. A cancelled guard is an entry of \<open>q_guard_log\<close>, and a settlement promise is the
  list of guards it waits for.
\<close>

section \<open>Data\<close>

record promoted =
  pm_source :: queue_item
  pm_canceled :: bool
  pm_settlement :: "nat list option"

record queue_state =
  q_messages :: "queue_item list"
  q_pending :: "pending_item list"
  q_boundary :: "boundary_item list"
  q_tickets :: "nat \<Rightarrow> admission_ticket"
  q_ticket :: "nat option"
  q_committing :: "jstr option"
  q_promoted :: "promoted option"
  q_in_flight :: "jstr option"
  q_force_surface :: "jstr option"
  q_awaiting_start :: "jstr option"
  q_interrupting :: "jstr option"
  q_metadata :: "in_flight_metadata option"
  q_force_boundary :: "jstr option"
  q_guard_log :: "nat list"

text \<open>An optional queue id restricts an operation; the empty string does not.\<close>

definition other_id :: "jstr option \<Rightarrow> jstr \<Rightarrow> bool" where
  "other_id given own \<longleftrightarrow> truthy given \<and> Some own \<noteq> given"

section \<open>The arrays\<close>

definition dequeue_message :: "queue_state \<Rightarrow> queue_state \<times> queue_item option" where
  "dequeue_message s =
     (case q_messages s of [] \<Rightarrow> (s, None) | m # ms \<Rightarrow> (s\<lparr>q_messages := ms\<rparr>, Some m))"

definition push_message :: "queue_item \<Rightarrow> queue_state \<Rightarrow> queue_state" where
  "push_message item s = s\<lparr>q_messages := q_messages s @ [item]\<rparr>"

definition unshift_message :: "queue_item \<Rightarrow> queue_state \<Rightarrow> queue_state" where
  "unshift_message item s = s\<lparr>q_messages := item # q_messages s\<rparr>"

definition has_queued_turn_by_owner :: "turn_owner \<Rightarrow> queue_state \<Rightarrow> bool" where
  "has_queued_turn_by_owner owner s \<longleftrightarrow>
     (\<exists>m \<in> set (q_messages s). qi_owner m = Some owner)
     \<or> (\<exists>p \<in> set (q_pending s). qi_owner (pi_source p) = Some owner)
     \<or> (\<exists>b \<in> set (q_boundary s).
          Option.bind (bi_source b) qi_owner = Some owner
          \<or> Option.bind (bi_ticket b) (\<lambda>r. tk_owner (q_tickets s r)) = Some owner)
     \<or> Option.bind (q_promoted s) (\<lambda>p. qi_owner (pm_source p)) = Some owner
     \<or> Option.bind (q_ticket s) (\<lambda>r. tk_owner (q_tickets s r)) = Some owner"

definition push_pending :: "pending_item \<Rightarrow> queue_state \<Rightarrow> queue_state" where
  "push_pending item s = s\<lparr>q_pending := q_pending s @ [item]\<rparr>"

definition shift_pending :: "queue_state \<Rightarrow> queue_state \<times> pending_item option" where
  "shift_pending s =
     (case q_pending s of [] \<Rightarrow> (s, None) | p # ps \<Rightarrow> (s\<lparr>q_pending := ps\<rparr>, Some p))"

definition clear_pending :: "queue_state \<Rightarrow> queue_state \<times> pending_item list" where
  "clear_pending s = (s\<lparr>q_pending := []\<rparr>, q_pending s)"

text \<open>The loop from the last pending input to the first, each put at the front.\<close>

fun unshift_sources :: "pending_item list \<Rightarrow> queue_item list \<Rightarrow> queue_item list" where
  "unshift_sources [] ms = ms"
| "unshift_sources (p # ps) ms = unshift_sources ps (pi_source p # ms)"

definition rescue_pending :: "queue_state \<Rightarrow> queue_state \<times> nat" where
  "rescue_pending s =
     (s\<lparr>q_messages := unshift_sources (rev (q_pending s)) (q_messages s), q_pending := []\<rparr>,
      length (q_pending s))"

definition push_boundary :: "boundary_item \<Rightarrow> queue_state \<Rightarrow> queue_state" where
  "push_boundary item s = s\<lparr>q_boundary := q_boundary s @ [item]\<rparr>"

text \<open>\<open>splice(index, deleteCount)\<close>: a negative index counts from the end, both are clamped.\<close>

definition splice_boundary ::
    "int \<Rightarrow> int \<Rightarrow> queue_state \<Rightarrow> queue_state \<times> boundary_item list" where
  "splice_boundary index delete_count s =
     (let q = q_boundary s; n = int (length q);
          start = nat (if index < 0 then max 0 (n + index) else min index n);
          k = nat (max 0 (min delete_count (n - int start)))
      in (s\<lparr>q_boundary := take start q @ drop (start + k) q\<rparr>, take k (drop start q)))"

definition set_force_boundary :: "jstr option \<Rightarrow> queue_state \<Rightarrow> queue_state" where
  "set_force_boundary queue_id s = s\<lparr>q_force_boundary := queue_id\<rparr>"

section \<open>Admission tickets\<close>

definition release_ticket :: "jstr option \<Rightarrow> queue_state \<Rightarrow> queue_state" where
  "release_ticket queue_id s =
     (case q_ticket s of
        None \<Rightarrow> s
      | Some r \<Rightarrow> if other_id queue_id (tk_queue_id (q_tickets s r)) then s else s\<lparr>q_ticket := None\<rparr>)"

definition set_ticket :: "nat option \<Rightarrow> queue_state \<Rightarrow> queue_state" where
  "set_ticket r s = s\<lparr>q_ticket := r\<rparr>"

definition guard_cancels :: "dispatch_guard option \<Rightarrow> nat list" where
  "guard_cancels g = (case g of None \<Rightarrow> [] | Some d \<Rightarrow> if dg_cancel d then [dg_id d] else [])"

text \<open>Cancelling a ticket, wherever it is held: its guards are told once.\<close>

definition cancel_detached :: "nat \<Rightarrow> queue_state \<Rightarrow> queue_state \<times> nat list" where
  "cancel_detached r s =
     (let t = q_tickets s r in
      case tk_settlement t of
        Some w \<Rightarrow> (s, w)
      | None \<Rightarrow>
          if tk_canceled t then (s\<lparr>q_tickets := (q_tickets s)(r := t\<lparr>tk_settlement := Some []\<rparr>)\<rparr>, [])
          else
            let w = guard_cancels (tk_before_persistence t) @ guard_cancels (tk_before_dispatch t)
            in (s\<lparr>q_tickets := (q_tickets s)(r := t\<lparr>tk_canceled := True, tk_settlement := Some w\<rparr>),
                  q_guard_log := q_guard_log s @ w\<rparr>, w))"

definition cancel_ticket :: "jstr option \<Rightarrow> queue_state \<Rightarrow> queue_state \<times> (nat \<times> nat list) option" where
  "cancel_ticket queue_id s =
     (case q_ticket s of
        None \<Rightarrow> (s, None)
      | Some r \<Rightarrow>
          let own = tk_queue_id (q_tickets s r) in
          if other_id queue_id own then (s, None)
          else case cancel_detached r s of
              (s1, w) \<Rightarrow>
                (s1\<lparr>q_ticket := None,
                    q_committing := (if q_committing s1 = Some own then None else q_committing s1)\<rparr>,
                 Some (r, w)))"

definition release_detached :: "nat \<Rightarrow> queue_state \<Rightarrow> queue_state" where
  "release_detached r s =
     s\<lparr>q_tickets := (q_tickets s)
         (r := (q_tickets s r)\<lparr>tk_before_persistence := None, tk_before_dispatch := None\<rparr>)\<rparr>"

definition admission_identity :: "queue_state \<Rightarrow> turn_identity option" where
  "admission_identity s =
     (case q_ticket s of
        None \<Rightarrow> None
      | Some r \<Rightarrow>
          map_option (\<lambda>w. \<lparr>ti_queue_id = tk_queue_id (q_tickets s r), ti_owner = w\<rparr>)
            (tk_owner (q_tickets s r)))"

definition set_committing :: "jstr option \<Rightarrow> queue_state \<Rightarrow> queue_state" where
  "set_committing queue_id s = s\<lparr>q_committing := queue_id\<rparr>"

section \<open>Work\<close>

definition queued_work_count :: "queue_state \<Rightarrow> nat" where
  "queued_work_count s =
     length (q_messages s) + length (q_pending s) + length (q_boundary s)
     + (if q_in_flight s \<noteq> None then 1 else 0)"

definition has_queued_or_in_flight :: "jstr option \<Rightarrow> queue_state \<Rightarrow> bool" where
  "has_queued_or_in_flight exclude s \<longleftrightarrow>
     q_messages s \<noteq> [] \<or> q_pending s \<noteq> [] \<or> q_boundary s \<noteq> [] \<or> q_in_flight s \<noteq> None
     \<or> (case q_ticket s of None \<Rightarrow> False | Some r \<Rightarrow> Some (tk_queue_id (q_tickets s r)) \<noteq> exclude)"

section \<open>The promoted item\<close>

definition begin_promoted :: "queue_item \<Rightarrow> queue_state \<Rightarrow> queue_state" where
  "begin_promoted item s =
     s\<lparr>q_promoted := Some \<lparr>pm_source = item, pm_canceled = False, pm_settlement = None\<rparr>\<rparr>"

definition cancel_promoted ::
    "jstr option \<Rightarrow> queue_state \<Rightarrow> queue_state \<times> (queue_item \<times> nat list) option" where
  "cancel_promoted queue_id s =
     (case q_promoted s of
        None \<Rightarrow> (s, None)
      | Some p \<Rightarrow>
          if other_id queue_id (qi_id (pm_source p)) then (s, None)
          else
            let w = (case pm_settlement p of
                       Some w \<Rightarrow> w | None \<Rightarrow> guard_cancels (qi_guard (pm_source p)));
                new = (case pm_settlement p of Some _ \<Rightarrow> [] | None \<Rightarrow> w)
            in (s\<lparr>q_promoted := Some (p\<lparr>pm_canceled := True, pm_settlement := Some w\<rparr>),
                  q_guard_log := q_guard_log s @ new\<rparr>,
                Some (pm_source p, w)))"

text \<open>The cancellation promise of the item, as whether it is resolved.\<close>

definition promoted_cancellation :: "jstr \<Rightarrow> queue_state \<Rightarrow> bool option" where
  "promoted_cancellation queue_id s =
     (case q_promoted s of
        None \<Rightarrow> None
      | Some p \<Rightarrow> if qi_id (pm_source p) = queue_id then Some (pm_canceled p) else None)"

definition promoted_canceled :: "jstr \<Rightarrow> queue_state \<Rightarrow> bool" where
  "promoted_canceled queue_id s =
     (case q_promoted s of
        None \<Rightarrow> False | Some p \<Rightarrow> qi_id (pm_source p) = queue_id \<and> pm_canceled p)"

definition clear_promoted :: "jstr option \<Rightarrow> queue_state \<Rightarrow> queue_state" where
  "clear_promoted queue_id s =
     (case q_promoted s of
        None \<Rightarrow> s
      | Some p \<Rightarrow>
          if other_id queue_id (qi_id (pm_source p)) then s else s\<lparr>q_promoted := None\<rparr>)"

definition promoted_identity :: "queue_state \<Rightarrow> turn_identity option" where
  "promoted_identity s =
     (case q_promoted s of
        None \<Rightarrow> None
      | Some p \<Rightarrow>
          map_option (\<lambda>w. \<lparr>ti_queue_id = qi_id (pm_source p), ti_owner = w\<rparr>)
            (qi_owner (pm_source p)))"

section \<open>The SDK slot\<close>

definition set_in_flight ::
    "jstr option \<Rightarrow> in_flight_metadata option \<Rightarrow> queue_state \<Rightarrow> queue_state" where
  "set_in_flight queue_id metadata s =
     s\<lparr>q_in_flight := queue_id, q_metadata := metadata, q_awaiting_start := None\<rparr>"

definition clear_slot :: "queue_state \<Rightarrow> queue_state" where
  "clear_slot s =
     s\<lparr>q_in_flight := None, q_metadata := None, q_force_surface := None, q_awaiting_start := None\<rparr>"

definition clear_slot_if :: "jstr \<Rightarrow> queue_state \<Rightarrow> queue_state \<times> bool" where
  "clear_slot_if queue_id s =
     (if q_in_flight s \<noteq> Some queue_id then (s, False) else (clear_slot s, True))"

definition requeue_promoted :: "queue_item \<Rightarrow> queue_state \<Rightarrow> queue_state" where
  "requeue_promoted item s =
     unshift_message item (clear_promoted (Some (qi_id item)) (fst (clear_slot_if (qi_id item) s)))"

definition set_force_surface :: "jstr option \<Rightarrow> queue_state \<Rightarrow> queue_state" where
  "set_force_surface queue_id s = s\<lparr>q_force_surface := queue_id\<rparr>"

definition set_awaiting_start :: "jstr option \<Rightarrow> queue_state \<Rightarrow> queue_state" where
  "set_awaiting_start queue_id s = s\<lparr>q_awaiting_start := queue_id\<rparr>"

definition set_interrupting :: "jstr option \<Rightarrow> queue_state \<Rightarrow> queue_state" where
  "set_interrupting queue_id s = s\<lparr>q_interrupting := queue_id\<rparr>"

section \<open>Finding and removing\<close>

definition locate_item :: "jstr \<Rightarrow> queue_state \<Rightarrow> (location \<times> int) option" where
  "locate_item queue_id s =
     find_location
       (find_index (\<lambda>m. qi_id m = queue_id) (q_messages s))
       (find_index (\<lambda>p. pi_queue_id p = queue_id) (q_pending s))
       (find_index (\<lambda>b. bi_queue_id b = queue_id) (q_boundary s))
       (q_in_flight s = Some queue_id)"

text \<open>The state, \<open>found\<close> and \<open>isInFlight\<close>.\<close>

definition move_item_to_front :: "jstr \<Rightarrow> queue_state \<Rightarrow> queue_state \<times> bool \<times> bool" where
  "move_item_to_front queue_id s =
     (let mq = find_index (\<lambda>m. qi_id m = queue_id) (q_messages s);
          pm = (if mq = -1 then find_index (\<lambda>p. pi_queue_id p = queue_id) (q_pending s) else -1);
          tb = (if mq = -1 \<and> pm = -1
                then find_index (\<lambda>b. bi_queue_id b = queue_id) (q_boundary s) else -1);
          in_flight = (mq = -1 \<and> pm = -1 \<and> tb = -1 \<and> q_in_flight s = Some queue_id)
      in if 0 \<le> mq then
           (s\<lparr>q_messages := fst (move_to_front (q_messages s) mq)\<rparr>,
            snd (move_to_front (q_messages s) mq), False)
         else if 0 \<le> pm then
           (s\<lparr>q_pending := fst (move_to_front (q_pending s) pm)\<rparr>,
            snd (move_to_front (q_pending s) pm), False)
         else if 0 \<le> tb then
           (s\<lparr>q_boundary := fst (move_to_front (q_boundary s) tb)\<rparr>,
            snd (move_to_front (q_boundary s) tb), False)
         else (s, in_flight, in_flight))"

datatype removed =
    NotFound
  | RemovedMessage queue_item
  | RemovedPending pending_item
  | RemovedBoundary boundary_item
  | StillInFlight

definition remove_by_queue_id :: "jstr \<Rightarrow> queue_state \<Rightarrow> queue_state \<times> removed" where
  "remove_by_queue_id queue_id s =
     (case locate_item queue_id s of
        None \<Rightarrow> (s, NotFound)
      | Some (AtMessage, i) \<Rightarrow>
          (s\<lparr>q_messages := remove_at (nat i) (q_messages s)\<rparr>, RemovedMessage (q_messages s ! nat i))
      | Some (AtPending, i) \<Rightarrow>
          (s\<lparr>q_pending := remove_at (nat i) (q_pending s)\<rparr>, RemovedPending (q_pending s ! nat i))
      | Some (AtBoundary, i) \<Rightarrow>
          (s\<lparr>q_boundary := remove_at (nat i) (q_boundary s)\<rparr>, RemovedBoundary (q_boundary s ! nat i))
      | Some (AtInFlight, _) \<Rightarrow> (s, StillInFlight))"

definition remove_by_request_id :: "jstr \<Rightarrow> queue_state \<Rightarrow> queue_state \<times> removed" where
  "remove_by_request_id request_id s =
     (let mq = find_index (\<lambda>m. qi_request_id m = Some request_id) (q_messages s);
          pm = find_index (\<lambda>p. qi_request_id (pi_source p) = Some request_id) (q_pending s);
          tb = find_index (\<lambda>b. bi_request_id b = Some request_id) (q_boundary s)
      in if 0 \<le> mq then
           (s\<lparr>q_messages := remove_at (nat mq) (q_messages s)\<rparr>, RemovedMessage (q_messages s ! nat mq))
         else if 0 \<le> pm then
           (s\<lparr>q_pending := remove_at (nat pm) (q_pending s)\<rparr>, RemovedPending (q_pending s ! nat pm))
         else if 0 \<le> tb then
           (s\<lparr>q_boundary := remove_at (nat tb) (q_boundary s)\<rparr>, RemovedBoundary (q_boundary s ! nat tb))
         else if Option.bind (q_metadata s) im_request_id = Some request_id \<and> q_in_flight s \<noteq> None
         then (s, StillInFlight)
         else (s, NotFound))"

definition drain_items :: "queue_state \<Rightarrow> queue_state \<times> queue_item list \<times> boundary_item list" where
  "drain_items s = (s\<lparr>q_messages := [], q_boundary := []\<rparr>, q_messages s, q_boundary s)"

section \<open>What the user sees\<close>

record queue_pill =
  qp_id :: jstr
  qp_preview :: jstr
  qp_mentions :: "json list option"
  qp_context :: "desktop_context option"

definition pill :: "jstr \<Rightarrow> jstr \<Rightarrow> query_draft option \<Rightarrow> queue_pill" where
  "pill i msg query =
     \<lparr>qp_id = i, qp_preview = take 100 (strip_leading (Some msg)),
      qp_mentions = Option.bind query dq_mentions,
      qp_context = desktop_context_of (Option.bind query dq_primary)\<rparr>"

definition shows_boundary :: "queue_state \<Rightarrow> boundary_item \<Rightarrow> bool" where
  "shows_boundary s b \<longleftrightarrow>
     Option.bind (bi_ticket b) (\<lambda>r. tk_before_persistence (q_tickets s r)) = None
     \<and> Option.bind (bi_source b) qi_defer_visible \<noteq> Some True"

definition queue_status :: "queue_state \<Rightarrow> queue_pill list" where
  "queue_status s =
     map (\<lambda>m. pill (qi_id m) (qi_message_text m) (qi_query m))
       (filter (\<lambda>m. qi_defer_visible m \<noteq> Some True) (q_messages s)) @
     map (\<lambda>b. pill (bi_queue_id b) (bi_message_text b) (bi_query b))
       (filter (shows_boundary s) (q_boundary s))"

definition reset_queue :: "queue_state \<Rightarrow> queue_state" where
  "reset_queue s =
     s\<lparr>q_messages := [], q_pending := [], q_boundary := [], q_ticket := None, q_committing := None,
       q_promoted := None, q_in_flight := None, q_force_surface := None, q_awaiting_start := None,
       q_interrupting := None, q_metadata := None, q_force_boundary := None\<rparr>"

end
