(* ===== verification/QueueProperties.thy ===== *)
theory QueueProperties
  imports SessionQueue
begin

text \<open>
  What the input queue guarantees: the lane interface that its three arrays share, removal and
  reordering by id, work that is handed back, cancellation of admission guards, and the list of
  queued inputs that the user sees.
\<close>

section \<open>A lane of the queue\<close>

text \<open>
  The three arrays are used in the same way: found by a key, spliced, and written back. A lane is
  an array of the state with its key; the laws are those of a field that is read and replaced.
\<close>

locale lane =
  fixes items :: "queue_state \<Rightarrow> 'a list"
    and put :: "'a list \<Rightarrow> queue_state \<Rightarrow> queue_state"
    and key :: "'a \<Rightarrow> jstr"
  assumes items_put: "items (put xs s) = xs"
    and put_items: "put (items s) s = s"
    and put_put: "put ys (put xs s) = put ys s"
begin

definition index :: "jstr \<Rightarrow> queue_state \<Rightarrow> int" where
  "index k s = find_index (\<lambda>x. key x = k) (items s)"

definition keys :: "queue_state \<Rightarrow> jstr list" where
  "keys s = map key (items s)"

lemma present: "0 \<le> index k s \<longleftrightarrow> k \<in> set (keys s)"
  by (auto simp: index_def keys_def find_index_nonneg_iff)

lemma absent: "index k s < 0 \<longleftrightarrow> k \<notin> set (keys s)" "index k s = -1 \<longleftrightarrow> k \<notin> set (keys s)"
  by (auto simp: index_def keys_def find_index_neg_iff find_index_none)

lemma in_range: "0 \<le> index k s \<Longrightarrow> nat (index k s) < length (items s)"
  unfolding index_def by (rule find_index_nth)

lemma found_key: "0 \<le> index k s \<Longrightarrow> key (items s ! nat (index k s)) = k"
  unfolding index_def by (rule find_index_nth)

lemma take_out_keys:
  assumes "0 \<le> index k s" and "distinct (keys s)"
  shows "keys (put (remove_at (nat (index k s)) (items s)) s) = filter (\<lambda>x. x \<noteq> k) (keys s)"
  using remove_first_distinct [of key k "items s"] assms
  by (simp add: keys_def index_def items_put filter_map o_def)

lemma take_out_length:
  "0 \<le> index k s \<Longrightarrow>
   length (items s) = Suc (length (items (put (remove_at (nat (index k s)) (items s)) s)))"
  using in_range [of k s] by (simp add: items_put)

lemma take_out_restore: "put (items s) (put xs s) = s"
  by (simp add: put_put put_items)

lemma to_front_mset: "mset (items (put (fst (move_to_front (items s) i)) s)) = mset (items s)"
  by (simp add: items_put move_to_front_mset)

lemma to_front_index:
  assumes "0 \<le> index k s"
  shows "index k (put (fst (move_to_front (items s) (index k s))) s) = 0"
    and "snd (move_to_front (items s) (index k s))"
proof -
  have i: "index k s < int (length (items s))" using in_range [OF assms] assms by (simp add: nat_less_iff)
  then show "snd (move_to_front (items s) (index k s))"
    using assms by (simp add: move_to_front_snd)
  show "index k (put (fst (move_to_front (items s) (index k s))) s) = 0"
    using found_key [OF assms] move_to_front_spec [OF assms i]
    by (simp add: index_def [of k "put _ _"] items_put find_index_Cons)
qed

end

interpretation message_lane: lane q_messages "\<lambda>xs s. s\<lparr>q_messages := xs\<rparr>" qi_id
  by unfold_locales simp_all

interpretation pending_lane: lane q_pending "\<lambda>xs s. s\<lparr>q_pending := xs\<rparr>" pi_queue_id
  by unfold_locales simp_all

interpretation boundary_lane: lane q_boundary "\<lambda>xs s. s\<lparr>q_boundary := xs\<rparr>" bi_queue_id
  by unfold_locales simp_all

lemmas lane_index =
  message_lane.index_def [symmetric] pending_lane.index_def [symmetric]
  boundary_lane.index_def [symmetric]

lemmas lane_absent = message_lane.absent pending_lane.absent boundary_lane.absent
lemmas lane_present = message_lane.present pending_lane.present boundary_lane.present

section \<open>Finding and removing by id\<close>

definition queued_ids :: "queue_state \<Rightarrow> jstr list" where
  "queued_ids s = map qi_id (q_messages s) @ map pi_queue_id (q_pending s) @ map bi_queue_id (q_boundary s)"

lemma queued_ids_keys: "queued_ids s = message_lane.keys s @ pending_lane.keys s @ boundary_lane.keys s"
  by (simp add: queued_ids_def message_lane.keys_def pending_lane.keys_def boundary_lane.keys_def)

text \<open>Where an id is, as a case rule.\<close>

lemma locate_cases:
  obtains (message) i where "locate_item k s = Some (AtMessage, i)" "i = message_lane.index k s"
      "k \<in> set (message_lane.keys s)"
  | (pending) i where "locate_item k s = Some (AtPending, i)" "i = pending_lane.index k s"
      "k \<notin> set (message_lane.keys s)" "k \<in> set (pending_lane.keys s)"
  | (boundary) i where "locate_item k s = Some (AtBoundary, i)" "i = boundary_lane.index k s"
      "k \<notin> set (message_lane.keys s)" "k \<notin> set (pending_lane.keys s)"
      "k \<in> set (boundary_lane.keys s)"
  | (in_flight) "locate_item k s = Some (AtInFlight, -1)" "q_in_flight s = Some k"
      "k \<notin> set (queued_ids s)"
  | (gone) "locate_item k s = None" "q_in_flight s \<noteq> Some k" "k \<notin> set (queued_ids s)"
proof -
  have loc: "locate_item k s = find_location (message_lane.index k s) (pending_lane.index k s)
      (boundary_lane.index k s) (q_in_flight s = Some k)"
    unfolding locate_item_def lane_index ..
  show thesis
  proof (cases "k \<in> set (message_lane.keys s)")
    case True
    then show ?thesis using message lane_present(1) [of k s] loc by (simp add: find_location_def)
  next
    case m: False
    show ?thesis
    proof (cases "k \<in> set (pending_lane.keys s)")
      case True
      then show ?thesis
        using m pending lane_present(2) [of k s] lane_absent(1) [of k s] loc
        by (simp add: find_location_def)
    next
      case p: False
      show ?thesis
      proof (cases "k \<in> set (boundary_lane.keys s)")
        case True
        then show ?thesis
          using m p boundary lane_present(3) [of k s] lane_absent(1,3) [of k s] loc
          by (simp add: find_location_def)
      next
        case False
        then have "k \<notin> set (queued_ids s)" using m p by (simp add: queued_ids_keys)
        moreover have "locate_item k s = (if q_in_flight s = Some k then Some (AtInFlight, -1) else None)"
          using m p False lane_absent(1,3,5) [of k s] loc by (simp add: find_location_def)
        ultimately show ?thesis using in_flight gone by (cases "q_in_flight s = Some k") auto
      qed
    qed
  qed
qed

text \<open>The id of a removed entry.\<close>

definition removed_id :: "removed \<Rightarrow> jstr option" where
  "removed_id r =
     (case r of
        RemovedMessage m \<Rightarrow> Some (qi_id m)
      | RemovedPending p \<Rightarrow> Some (pi_queue_id p)
      | RemovedBoundary b \<Rightarrow> Some (bi_queue_id b)
      | _ \<Rightarrow> None)"

lemma filter_absent: "k \<notin> set xs \<Longrightarrow> filter (\<lambda>x. x \<noteq> k) xs = xs"
  by (rule filter_True) auto

text \<open>What a removal does to the state, lane by lane.\<close>

definition takes_out :: "jstr \<Rightarrow> queue_state \<Rightarrow> queue_state \<Rightarrow> removed \<Rightarrow> bool" where
  "takes_out k s t r \<longleftrightarrow>
     queued_ids t = filter (\<lambda>x. x \<noteq> k) (queued_ids s)
     \<and> removed_id r = (if k \<in> set (queued_ids s) then Some k else None)
     \<and> queued_work_count s = queued_work_count t + (if k \<in> set (queued_ids s) then 1 else 0)
     \<and> (r = StillInFlight \<longleftrightarrow> k \<notin> set (queued_ids s) \<and> q_in_flight s = Some k)
     \<and> t\<lparr>q_messages := q_messages s, q_pending := q_pending s, q_boundary := q_boundary s\<rparr> = s"

lemma takes_message:
  assumes d: "distinct (queued_ids s)" and i: "i = message_lane.index k s" "k \<in> set (message_lane.keys s)"
  shows "takes_out k s (s\<lparr>q_messages := remove_at (nat i) (q_messages s)\<rparr>)
    (RemovedMessage (q_messages s ! nat i))"
proof -
  let ?t = "s\<lparr>q_messages := remove_at (nat i) (q_messages s)\<rparr>"
  have i0: "0 \<le> i" using i lane_present(1) by simp
  have "message_lane.keys ?t = filter (\<lambda>x. x \<noteq> k) (message_lane.keys s)"
    using message_lane.take_out_keys [of k s] i0 i d by (simp add: queued_ids_keys)
  moreover have "k \<notin> set (pending_lane.keys s)" "k \<notin> set (boundary_lane.keys s)"
    using i d by (auto simp: queued_ids_keys)
  moreover have "pending_lane.keys ?t = pending_lane.keys s" "boundary_lane.keys ?t = boundary_lane.keys s"
    by (simp_all add: pending_lane.keys_def boundary_lane.keys_def)
  ultimately show ?thesis
    using i0 i message_lane.found_key [of k s] message_lane.take_out_length [of k s]
    by (simp add: takes_out_def removed_id_def queued_ids_keys filter_absent queued_work_count_def)
qed

lemma takes_pending:
  assumes d: "distinct (queued_ids s)" and i: "i = pending_lane.index k s" "k \<in> set (pending_lane.keys s)"
    and m: "k \<notin> set (message_lane.keys s)"
  shows "takes_out k s (s\<lparr>q_pending := remove_at (nat i) (q_pending s)\<rparr>)
    (RemovedPending (q_pending s ! nat i))"
proof -
  let ?t = "s\<lparr>q_pending := remove_at (nat i) (q_pending s)\<rparr>"
  have i0: "0 \<le> i" using i lane_present(2) by simp
  have "pending_lane.keys ?t = filter (\<lambda>x. x \<noteq> k) (pending_lane.keys s)"
    using pending_lane.take_out_keys [of k s] i0 i d by (simp add: queued_ids_keys)
  moreover have "k \<notin> set (boundary_lane.keys s)"
    using i d by (auto simp: queued_ids_keys)
  moreover have "message_lane.keys ?t = message_lane.keys s" "boundary_lane.keys ?t = boundary_lane.keys s"
    by (simp_all add: message_lane.keys_def boundary_lane.keys_def)
  ultimately show ?thesis
    using i0 i m pending_lane.found_key [of k s] pending_lane.take_out_length [of k s]
    by (simp add: takes_out_def removed_id_def queued_ids_keys filter_absent queued_work_count_def)
qed

lemma takes_boundary:
  assumes d: "distinct (queued_ids s)" and i: "i = boundary_lane.index k s" "k \<in> set (boundary_lane.keys s)"
    and m: "k \<notin> set (message_lane.keys s)" "k \<notin> set (pending_lane.keys s)"
  shows "takes_out k s (s\<lparr>q_boundary := remove_at (nat i) (q_boundary s)\<rparr>)
    (RemovedBoundary (q_boundary s ! nat i))"
proof -
  let ?t = "s\<lparr>q_boundary := remove_at (nat i) (q_boundary s)\<rparr>"
  have i0: "0 \<le> i" using i lane_present(3) by simp
  have "boundary_lane.keys ?t = filter (\<lambda>x. x \<noteq> k) (boundary_lane.keys s)"
    using boundary_lane.take_out_keys [of k s] i0 i d by (simp add: queued_ids_keys)
  moreover have "message_lane.keys ?t = message_lane.keys s" "pending_lane.keys ?t = pending_lane.keys s"
    by (simp_all add: message_lane.keys_def pending_lane.keys_def)
  ultimately show ?thesis
    using i0 i m boundary_lane.found_key [of k s] boundary_lane.take_out_length [of k s]
    by (simp add: takes_out_def removed_id_def queued_ids_keys filter_absent queued_work_count_def)
qed

lemma removal_takes_out:
  assumes "distinct (queued_ids s)"
  shows "case remove_by_queue_id k s of (t, r) \<Rightarrow> takes_out k s t r"
proof (cases k s rule: locate_cases)
  case (message i)
  then show ?thesis using takes_message [OF assms] by (simp add: remove_by_queue_id_def)
next
  case (pending i)
  then show ?thesis using takes_pending [OF assms] by (simp add: remove_by_queue_id_def)
next
  case (boundary i)
  then show ?thesis using takes_boundary [OF assms] by (simp add: remove_by_queue_id_def)
qed (simp_all add: remove_by_queue_id_def takes_out_def removed_id_def filter_absent)

text \<open>
  Removing by queue id takes exactly the entry with that id and keeps every other entry in its
  place; nothing else of the state changes, the work count drops by one, and an id that only the
  SDK slot holds is reported as in flight and left alone.
\<close>

theorem remove_takes_exactly_one:
  assumes "distinct (queued_ids s)"
  shows "let (t, r) = remove_by_queue_id k s in
     queued_ids t = filter (\<lambda>x. x \<noteq> k) (queued_ids s)
     \<and> removed_id r = (if k \<in> set (queued_ids s) then Some k else None)
     \<and> queued_work_count s = queued_work_count t + (if k \<in> set (queued_ids s) then 1 else 0)
     \<and> (r = StillInFlight \<longleftrightarrow> k \<notin> set (queued_ids s) \<and> q_in_flight s = Some k)
     \<and> t\<lparr>q_messages := q_messages s, q_pending := q_pending s, q_boundary := q_boundary s\<rparr> = s"
  using removal_takes_out [OF assms, of k] unfolding takes_out_def Let_def .

text \<open>A queue with an entry in every lane, for the witnesses.\<close>

definition sample_queue :: queue_state where
  "sample_queue =
     \<lparr>q_messages = [sample_item ''a'', sample_item ''b''],
      q_pending = [\<lparr>pi_queue_id = js ''c'', pi_user_message = JNull, pi_source = sample_item ''c''\<rparr>],
      q_boundary = [], q_tickets = (\<lambda>_. undefined), q_ticket = None, q_committing = None,
      q_promoted = None, q_in_flight = Some (js ''d''), q_force_surface = None,
      q_awaiting_start = None, q_interrupting = None, q_metadata = None, q_force_boundary = None,
      q_guard_log = []\<rparr>"

lemma sample_ids: "queued_ids sample_queue = [js ''a'', js ''b'', js ''c'']"
  by (simp add: sample_queue_def queued_ids_def sample_item_def)

lemma remove_takes_exactly_one_witness:
  "queued_ids (fst (remove_by_queue_id (js ''b'') sample_queue)) = [js ''a'', js ''c'']
   \<and> removed_id (snd (remove_by_queue_id (js ''b'') sample_queue)) = Some (js ''b'')"
  using remove_takes_exactly_one [of sample_queue "js ''b''"]
  by (simp add: sample_ids case_prod_beta)

text \<open>Each lane moves its entry to the front and leaves the lanes before it without the id.\<close>

lemma fronts_message:
  assumes "k \<in> set (message_lane.keys s)"
  defines "t \<equiv> s\<lparr>q_messages := fst (move_to_front (q_messages s) (message_lane.index k s))\<rparr>"
  shows "move_item_to_front k s = (t, True, False)" and "locate_item k t = Some (AtMessage, 0)"
proof -
  have i: "0 \<le> message_lane.index k s" using assms(1) lane_present(1) by simp
  note front = message_lane.to_front_index [OF i]
  show "move_item_to_front k s = (t, True, False)"
    using i front unfolding move_item_to_front_def lane_index t_def by (simp add: Let_def)
  show "locate_item k t = Some (AtMessage, 0)"
    using front unfolding locate_item_def lane_index t_def by (simp add: find_location_def)
qed

lemma fronts_pending:
  assumes "k \<in> set (pending_lane.keys s)" and "k \<notin> set (message_lane.keys s)"
  defines "t \<equiv> s\<lparr>q_pending := fst (move_to_front (q_pending s) (pending_lane.index k s))\<rparr>"
  shows "move_item_to_front k s = (t, True, False)" and "locate_item k t = Some (AtPending, 0)"
proof -
  have i: "0 \<le> pending_lane.index k s" using assms(1) lane_present(2) by simp
  note front = pending_lane.to_front_index [OF i]
  have m: "message_lane.index k s = -1" using assms(2) lane_absent(2) by simp
  show "move_item_to_front k s = (t, True, False)"
    using i front m unfolding move_item_to_front_def lane_index t_def by (simp add: Let_def)
  have "message_lane.index k t = -1" using m by (simp add: message_lane.index_def t_def)
  then show "locate_item k t = Some (AtPending, 0)"
    using front unfolding locate_item_def lane_index t_def by (simp add: find_location_def)
qed

lemma fronts_boundary:
  assumes "k \<in> set (boundary_lane.keys s)" and "k \<notin> set (message_lane.keys s)"
    and "k \<notin> set (pending_lane.keys s)"
  defines "t \<equiv> s\<lparr>q_boundary := fst (move_to_front (q_boundary s) (boundary_lane.index k s))\<rparr>"
  shows "move_item_to_front k s = (t, True, False)" and "locate_item k t = Some (AtBoundary, 0)"
proof -
  have i: "0 \<le> boundary_lane.index k s" using assms(1) lane_present(3) by simp
  note front = boundary_lane.to_front_index [OF i]
  have m: "message_lane.index k s = -1" "pending_lane.index k s = -1"
    using assms(2,3) lane_absent(2,4) by simp_all
  show "move_item_to_front k s = (t, True, False)"
    using i front m unfolding move_item_to_front_def lane_index t_def by (simp add: Let_def)
  have "message_lane.index k t = -1" "pending_lane.index k t = -1"
    using m by (simp_all add: message_lane.index_def pending_lane.index_def t_def)
  then show "locate_item k t = Some (AtBoundary, 0)"
    using front unfolding locate_item_def lane_index t_def by (simp add: find_location_def)
qed

lemma fronts_unqueued:
  "k \<notin> set (queued_ids s) \<Longrightarrow>
   move_item_to_front k s = (s, q_in_flight s = Some k, q_in_flight s = Some k)"
  using lane_absent(2,4,6) [of k s] unfolding move_item_to_front_def lane_index
  by (simp add: queued_ids_keys Let_def)

text \<open>
  Moving an entry to the front succeeds exactly when its id is queued or in flight, keeps the
  entries of every array, and makes the entry the first of the array it was found in.
\<close>

theorem move_to_front_correct:
  "let (t, found, in_flight) = move_item_to_front k s in
     (found \<longleftrightarrow> k \<in> set (queued_ids s) \<or> q_in_flight s = Some k)
     \<and> (in_flight \<longleftrightarrow> k \<notin> set (queued_ids s) \<and> q_in_flight s = Some k)
     \<and> mset (q_messages t) = mset (q_messages s) \<and> mset (q_pending t) = mset (q_pending s)
     \<and> mset (q_boundary t) = mset (q_boundary s)
     \<and> locate_item k t
         = map_option (\<lambda>(l, _). (l, if l = AtInFlight then -1 else 0)) (locate_item k s)"
proof (cases k s rule: locate_cases)
  case (message i)
  then show ?thesis
    using fronts_message [of k s] message_lane.to_front_mset by (simp add: queued_ids_keys)
next
  case (pending i)
  then show ?thesis
    using fronts_pending [of k s] pending_lane.to_front_mset by (simp add: queued_ids_keys)
next
  case (boundary i)
  then show ?thesis
    using fronts_boundary [of k s] boundary_lane.to_front_mset by (simp add: queued_ids_keys)
qed (simp_all add: fronts_unqueued)

section \<open>Handing work back\<close>

lemma unshift_sources_rev: "unshift_sources ps ms = map pi_source (rev ps) @ ms"
  by (induction ps arbitrary: ms) simp_all

text \<open>
  Work that is handed back is kept, in order: rescuing the pending inputs puts them before the
  waiting messages in the order they had, and requeuing a promoted item puts it first, gives up the
  SDK slot and the promotion it held, and counts it once.
\<close>

theorem handed_back_work_is_kept:
  "q_messages (fst (rescue_pending s)) = map pi_source (q_pending s) @ q_messages s
   \<and> q_pending (fst (rescue_pending s)) = []
   \<and> queued_work_count (fst (rescue_pending s)) = queued_work_count s
   \<and> q_messages (requeue_promoted item s) = item # q_messages s
   \<and> q_in_flight (requeue_promoted item s) \<noteq> Some (qi_id item)
   \<and> (q_in_flight (requeue_promoted item s) \<noteq> q_in_flight s
       \<longrightarrow> q_metadata (requeue_promoted item s) = None
         \<and> queued_work_count (requeue_promoted item s) = queued_work_count s)
   \<and> promoted_cancellation (qi_id item) (requeue_promoted item s) = None"
proof -
  have clear: "q_messages (clear_promoted i u) = q_messages u" "q_pending (clear_promoted i u) = q_pending u"
    "q_boundary (clear_promoted i u) = q_boundary u" "q_in_flight (clear_promoted i u) = q_in_flight u"
    "q_metadata (clear_promoted i u) = q_metadata u" for i u
    by (simp_all add: clear_promoted_def split: option.split)
  have gone: "promoted_cancellation (qi_id item) (clear_promoted (Some (qi_id item)) u) = None" for u
    by (auto simp: promoted_cancellation_def clear_promoted_def other_id_def split: option.split)
  have "promoted_cancellation k (u\<lparr>q_messages := ms\<rparr>) = promoted_cancellation k u" for k u ms
    by (simp add: promoted_cancellation_def)
  then show ?thesis
    using gone
    by (simp add: rescue_pending_def unshift_sources_rev rev_map queued_work_count_def
        requeue_promoted_def unshift_message_def clear clear_slot_if_def clear_slot_def)
qed

lemma handed_back_work_is_kept_witness:
  "q_messages (fst (rescue_pending sample_queue)) = [sample_item ''c'', sample_item ''a'', sample_item ''b'']
   \<and> queued_work_count (requeue_promoted (sample_item ''d'') sample_queue) = queued_work_count sample_queue"
proof -
  have "q_in_flight (requeue_promoted (sample_item ''d'') sample_queue) \<noteq> q_in_flight sample_queue"
    using handed_back_work_is_kept [of sample_queue "sample_item ''d''"]
    by (simp add: sample_queue_def sample_item_def)
  then show ?thesis
    using handed_back_work_is_kept [of sample_queue "sample_item ''d''"]
    by (simp add: sample_queue_def)
qed

section \<open>Cancelling once\<close>

text \<open>Every operation of the queue, so that any history between two cancellations can be stated.\<close>

datatype queue_op =
    Dequeue | Push queue_item | Unshift queue_item | PushPending pending_item | ShiftPending
  | ClearPending | Rescue | PushBoundary boundary_item | Splice int int
  | ReleaseTicket "jstr option" | SetTicket "nat option" | CancelTicket "jstr option"
  | CancelDetached nat | ReleaseDetached nat | BeginPromoted queue_item
  | CancelPromoted "jstr option" | ClearPromoted "jstr option" | Requeue queue_item
  | SetInFlight "jstr option" "in_flight_metadata option" | ClearSlot | ClearSlotIf jstr
  | SetForceBoundary "jstr option" | SetCommitting "jstr option" | SetForceSurface "jstr option"
  | SetAwaitingStart "jstr option" | SetInterrupting "jstr option"
  | MoveToFront jstr | RemoveById jstr | RemoveByRequest jstr | Drain | Reset

fun exec_op :: "queue_op \<Rightarrow> queue_state \<Rightarrow> queue_state" where
  "exec_op Dequeue s = fst (dequeue_message s)"
| "exec_op (Push m) s = push_message m s"
| "exec_op (Unshift m) s = unshift_message m s"
| "exec_op (PushPending p) s = push_pending p s"
| "exec_op ShiftPending s = fst (shift_pending s)"
| "exec_op ClearPending s = fst (clear_pending s)"
| "exec_op Rescue s = fst (rescue_pending s)"
| "exec_op (PushBoundary b) s = push_boundary b s"
| "exec_op (Splice i n) s = fst (splice_boundary i n s)"
| "exec_op (ReleaseTicket k) s = release_ticket k s"
| "exec_op (SetTicket r) s = set_ticket r s"
| "exec_op (CancelTicket k) s = fst (cancel_ticket k s)"
| "exec_op (CancelDetached r) s = fst (cancel_detached r s)"
| "exec_op (ReleaseDetached r) s = release_detached r s"
| "exec_op (BeginPromoted m) s = begin_promoted m s"
| "exec_op (CancelPromoted k) s = fst (cancel_promoted k s)"
| "exec_op (ClearPromoted k) s = clear_promoted k s"
| "exec_op (Requeue m) s = requeue_promoted m s"
| "exec_op (SetInFlight k m) s = set_in_flight k m s"
| "exec_op ClearSlot s = clear_slot s"
| "exec_op (ClearSlotIf k) s = fst (clear_slot_if k s)"
| "exec_op (SetForceBoundary k) s = set_force_boundary k s"
| "exec_op (SetCommitting k) s = set_committing k s"
| "exec_op (SetForceSurface k) s = set_force_surface k s"
| "exec_op (SetAwaitingStart k) s = set_awaiting_start k s"
| "exec_op (SetInterrupting k) s = set_interrupting k s"
| "exec_op (MoveToFront k) s = fst (move_item_to_front k s)"
| "exec_op (RemoveById k) s = fst (remove_by_queue_id k s)"
| "exec_op (RemoveByRequest k) s = fst (remove_by_request_id k s)"
| "exec_op Drain s = fst (drain_items s)"
| "exec_op Reset s = reset_queue s"

definition settled :: "nat \<Rightarrow> nat list \<Rightarrow> queue_state \<Rightarrow> bool" where
  "settled r w s \<longleftrightarrow> tk_settlement (q_tickets s r) = Some w"

lemma settled_cancel: "settled r w s \<Longrightarrow> cancel_detached r s = (s, w)"
  by (simp add: settled_def cancel_detached_def)

lemma cancel_settles: "settled r (snd (cancel_detached r s)) (fst (cancel_detached r s))"
  by (simp add: settled_def cancel_detached_def Let_def split: option.split)

lemma settled_cancel_other: "settled r w s \<Longrightarrow> settled r w (fst (cancel_detached q s))"
  by (cases "q = r") (auto simp: settled_def cancel_detached_def Let_def split: option.split)

text \<open>Only the ticket operations write tickets.\<close>

lemma same_tickets:
  "q_tickets (fst (dequeue_message s)) = q_tickets s"
  "q_tickets (fst (shift_pending s)) = q_tickets s"
  "q_tickets (release_ticket k s) = q_tickets s"
  "q_tickets (fst (cancel_promoted k s)) = q_tickets s"
  "q_tickets (clear_promoted k s) = q_tickets s"
  "q_tickets (fst (clear_slot_if i s)) = q_tickets s"
  "q_tickets (fst (move_item_to_front i s)) = q_tickets s"
  "q_tickets (fst (remove_by_queue_id i s)) = q_tickets s"
  "q_tickets (fst (remove_by_request_id i s)) = q_tickets s"
  by (simp_all add: dequeue_message_def shift_pending_def release_ticket_def cancel_promoted_def
      clear_promoted_def clear_slot_if_def clear_slot_def move_item_to_front_def
      remove_by_queue_id_def remove_by_request_id_def Let_def
      split: list.split option.split prod.split location.split)

lemma settled_exec: "settled r w s \<Longrightarrow> settled r w (exec_op op s)"
proof (cases op)
  case (CancelDetached q)
  then show "settled r w s \<Longrightarrow> ?thesis" using settled_cancel_other by simp
next
  case (ReleaseDetached q)
  then show "settled r w s \<Longrightarrow> ?thesis" by (cases "q = r") (auto simp: settled_def release_detached_def)
next
  case (CancelTicket k)
  assume s: "settled r w s"
  show ?thesis
  proof (cases "q_ticket s")
    case (Some q)
    have "settled r w (fst (cancel_detached q s))" by (rule settled_cancel_other [OF s])
    then show ?thesis
      using s Some by (simp add: CancelTicket cancel_ticket_def settled_def Let_def case_prod_beta)
  qed (use s in \<open>simp add: CancelTicket cancel_ticket_def\<close>)
qed (simp_all add: settled_def same_tickets push_message_def unshift_message_def push_pending_def
    clear_pending_def rescue_pending_def push_boundary_def splice_boundary_def set_ticket_def
    release_detached_def begin_promoted_def requeue_promoted_def set_in_flight_def clear_slot_def
    drain_items_def reset_queue_def set_force_boundary_def set_committing_def set_force_surface_def
    set_awaiting_start_def set_interrupting_def Let_def)

lemma settled_run: "settled r w s \<Longrightarrow> settled r w (fold exec_op ops s)"
  by (induction ops arbitrary: s) (simp_all add: settled_exec)

text \<open>
  C10. A ticket's guards are cancelled once: after a first cancellation, and whatever the queue does
  in between, a second one starts no guard, changes nothing, and waits for the same settlement. The
  first one starts only guards of the ticket, and none when the ticket was cancelled before.
\<close>

theorem guards_cancelled_once:
  "let (t, w) = cancel_detached r s; u = fold exec_op ops t in
     cancel_detached r u = (u, w)
     \<and> q_guard_log t = q_guard_log s @
         (if tk_settlement (q_tickets s r) = None \<and> \<not> tk_canceled (q_tickets s r)
          then guard_cancels (tk_before_persistence (q_tickets s r))
             @ guard_cancels (tk_before_dispatch (q_tickets s r))
          else [])"
proof -
  let ?t = "fst (cancel_detached r s)" and ?w = "snd (cancel_detached r s)"
  have "cancel_detached r (fold exec_op ops ?t) = (fold exec_op ops ?t, ?w)"
    by (rule settled_cancel [OF settled_run [OF cancel_settles]])
  moreover have "q_guard_log ?t = q_guard_log s @
      (if tk_settlement (q_tickets s r) = None \<and> \<not> tk_canceled (q_tickets s r)
       then guard_cancels (tk_before_persistence (q_tickets s r))
          @ guard_cancels (tk_before_dispatch (q_tickets s r)) else [])"
    by (simp add: cancel_detached_def Let_def split: option.split)
  ultimately show ?thesis by (simp add: case_prod_beta Let_def)
qed

section \<open>What is shown\<close>

text \<open>
  The queue shown to the user: previews have at most 100 units and show no hidden reminder
  text, an item whose admission must stay invisible is not listed, and every listed id is queued.
\<close>

theorem queue_status_shows_visible:
  "list_all (\<lambda>p. length (qp_preview p) \<le> 100) (queue_status s)
   \<and> mset (map qp_id (queue_status s)) \<subseteq># mset (queued_ids s)
   \<and> map qp_id (queue_status s)
      = map qi_id (filter (\<lambda>m. qi_defer_visible m \<noteq> Some True) (q_messages s))
        @ map bi_queue_id (filter (shows_boundary s) (q_boundary s))
   \<and> map qp_preview (queue_status (s\<lparr>q_messages := [item\<lparr>qi_message_text := build_goal_continuation g,
        qi_defer_visible := None\<rparr>], q_boundary := []\<rparr>))
      = [take 100 (peel 8 (trimmed (gi_visible g)))]"
proof -
  have sub: "mset (map f (filter P xs)) \<subseteq># mset (map f xs)" for f :: "'a \<Rightarrow> jstr" and P xs
    by (simp add: image_mset_subseteq_mono)
  have ids: "map qp_id (queue_status s)
      = map qi_id (filter (\<lambda>m. qi_defer_visible m \<noteq> Some True) (q_messages s))
        @ map bi_queue_id (filter (shows_boundary s) (q_boundary s))"
    by (simp add: queue_status_def pill_def)
  have "mset (map qi_id (filter (\<lambda>m. qi_defer_visible m \<noteq> Some True) (q_messages s))) +
      mset (map bi_queue_id (filter (shows_boundary s) (q_boundary s)))
      \<subseteq># mset (map qi_id (q_messages s)) + mset (map bi_queue_id (q_boundary s))"
    by (intro subset_mset.add_mono sub)
  also have "\<dots> \<subseteq># mset (queued_ids s)"
    by (simp add: queued_ids_def)
  finally have "mset (map qp_id (queue_status s)) \<subseteq># mset (queued_ids s)"
    unfolding ids by simp
  moreover have "list_all (\<lambda>p. length (qp_preview p) \<le> 100) (queue_status s)"
    by (auto simp: queue_status_def pill_def list_all_iff)
  moreover have "map qp_preview (queue_status (s\<lparr>q_messages := [item\<lparr>qi_message_text :=
        build_goal_continuation g, qi_defer_visible := None\<rparr>], q_boundary := []\<rparr>))
      = [take 100 (peel 8 (trimmed (gi_visible g)))]"
    by (simp add: queue_status_def pill_def goal_continuation_strip)
  ultimately show ?thesis using ids by blast
qed

end
