(* ===== verification/TurnState.thy ===== *)
theory TurnState
  imports SessionTypes
begin

text \<open>
  The state of the running turn: builtin-session/turn.ts. It collects the usage and the text of the
  turn, the inbox requests that wait for its result, the output owners of the inputs that were
  handed to the SDK, and reports the end of the turn to the item's observer. Queue items are
  objects that several owners hold, so they live in a store and are named by a reference; a call of
  an observer or of the IM emitter is an entry of a log. The clock is a parameter.
\<close>

section \<open>Usage\<close>

record turn_usage =
  tu_input :: int
  tu_output :: int
  tu_cache_read :: int
  tu_cache_creation :: int
  tu_model :: "jstr option"
  tu_model_usage :: "json option"
  tu_sdk_usage :: "json option"

definition empty_usage :: turn_usage where
  "empty_usage =
     \<lparr>tu_input = 0, tu_output = 0, tu_cache_read = 0, tu_cache_creation = 0, tu_model = None,
      tu_model_usage = None, tu_sdk_usage = None\<rparr>"

record message_usage =
  mu_input :: int
  mu_output :: int
  mu_cache_read :: "int option"
  mu_cache_creation :: "int option"
  mu_provider :: "jstr option"
  mu_model :: "jstr option"
  mu_model_usage :: "json option"
  mu_sdk_usage :: "json option"

text \<open>\<open>Partial<MessageUsage>\<close>: an absent property is None.\<close>

record partial_usage =
  pu_input :: "int option"
  pu_output :: "int option"
  pu_cache_read :: "int option"
  pu_cache_creation :: "int option"
  pu_provider :: "jstr option"
  pu_model :: "jstr option"
  pu_model_usage :: "json option"
  pu_sdk_usage :: "json option"

definition or_zero :: "int option \<Rightarrow> int" where
  "or_zero v = (case v of None \<Rightarrow> 0 | Some n \<Rightarrow> n)"

definition or_else :: "'a option \<Rightarrow> 'a option \<Rightarrow> 'a option" where
  "or_else v w = (case v of None \<Rightarrow> w | Some x \<Rightarrow> Some x)"

section \<open>State\<close>

datatype compact_result = CompactSuccess | CompactFailed

text \<open>A block of channel text: a string, or a function that gives one when it is sent.\<close>

datatype channel_block = BlockText jstr | BlockThunk callback

record output_owner =
  oo_queue_id :: jstr
  oo_source :: "nat option"
  oo_request_id :: "jstr option"
  oo_delivery :: delivery_to_channel
  oo_channel_session :: jstr
  oo_blocks :: "channel_block list"

datatype outcome_status = TurnComplete | TurnStopped | TurnFailed

record terminal_outcome =
  to_channel_mode :: "channel_mode option"
  to_status :: outcome_status
  to_text :: jstr
  to_assistant_present :: bool
  to_error :: "jstr option"
  to_duration_ms :: "int option"
  to_usage :: "(int \<times> int) option"

record completion_terminal =
  ct_session_id :: jstr
  ct_workspace_path :: jstr
  ct_turn_id :: jstr
  ct_turn_owner :: "turn_owner option"
  ct_origin :: json
  ct_status :: outcome_status

datatype im_event = ImComplete jobj | ImError jobj

record turn_state =
  ts_usage :: turn_usage
  ts_model_usage :: "(jstr \<times> message_usage) list"
  ts_latest_usage :: "message_usage option"
  ts_start_time :: "int option"
  ts_plan_mtime :: "int option"
  ts_tool_count :: nat
  ts_has_output :: bool
  ts_had_error :: bool
  ts_last_error :: "jstr option"
  ts_analytics_source :: "json option"
  ts_analytics_origin :: "json option"
  ts_provider_analytics :: "json option"
  ts_compact :: "compact_result option"
  ts_saw_compact :: bool
  ts_assistant_present :: bool
  ts_substantive :: bool
  ts_inbox :: "inbox_meta list"
  ts_text :: "jstr list"
  ts_owners :: "output_owner list"
  ts_im_emitted :: bool
  ts_source :: "nat option"
  ts_items :: "nat \<Rightarrow> queue_item"
  ts_last_terminal :: "completion_terminal option"
  ts_barrier :: "(nat option \<times> terminal_outcome) list"
  ts_im_log :: "im_event list"
  ts_observed :: "(nat \<times> callback \<times> terminal_outcome) list"

section \<open>Accumulating usage\<close>

definition accumulate_usage :: "message_usage \<Rightarrow> turn_state \<Rightarrow> turn_state" where
  "accumulate_usage u s =
     s\<lparr>ts_usage := (ts_usage s)
         \<lparr>tu_input := tu_input (ts_usage s) + mu_input u,
          tu_output := tu_output (ts_usage s) + mu_output u,
          tu_cache_read := tu_cache_read (ts_usage s) + or_zero (mu_cache_read u),
          tu_cache_creation := tu_cache_creation (ts_usage s) + or_zero (mu_cache_creation u)\<rparr>\<rparr>"

definition no_message_usage :: message_usage where
  "no_message_usage =
     \<lparr>mu_input = 0, mu_output = 0, mu_cache_read = None, mu_cache_creation = None,
      mu_provider = None, mu_model = None, mu_model_usage = None, mu_sdk_usage = None\<rparr>"

definition merge_usage :: "message_usage \<Rightarrow> partial_usage \<Rightarrow> message_usage" where
  "merge_usage previous u =
     \<lparr>mu_input = max (mu_input previous) (or_zero (pu_input u)),
      mu_output = max (mu_output previous) (or_zero (pu_output u)),
      mu_cache_read = Some (max (or_zero (mu_cache_read previous)) (or_zero (pu_cache_read u))),
      mu_cache_creation =
        Some (max (or_zero (mu_cache_creation previous)) (or_zero (pu_cache_creation u))),
      mu_provider = or_else (pu_provider u) (mu_provider previous),
      mu_model = or_else (pu_model u) (mu_model previous),
      mu_model_usage = or_else (pu_model_usage u) (mu_model_usage previous),
      mu_sdk_usage = or_else (pu_sdk_usage u) (mu_sdk_usage previous)\<rparr>"

definition update_model_usage :: "jstr \<Rightarrow> partial_usage \<Rightarrow> turn_state \<Rightarrow> turn_state" where
  "update_model_usage i u s =
     (let previous = (case map_of (ts_model_usage s) i of None \<Rightarrow> no_message_usage | Some m \<Rightarrow> m);
          merged = merge_usage previous u;
          delta = no_message_usage
            \<lparr>mu_input := mu_input merged - mu_input previous,
             mu_output := mu_output merged - mu_output previous,
             mu_cache_read :=
               Some (or_zero (mu_cache_read merged) - or_zero (mu_cache_read previous)),
             mu_cache_creation :=
               Some (or_zero (mu_cache_creation merged) - or_zero (mu_cache_creation previous))\<rparr>
      in accumulate_usage delta (s\<lparr>ts_model_usage := map_set i merged (ts_model_usage s)\<rparr>))"

section \<open>Inbox requests\<close>

definition append_inbox :: "inbox_meta option \<Rightarrow> turn_state \<Rightarrow> turn_state" where
  "append_inbox meta s =
     (case meta of
        None \<Rightarrow> s
      | Some m \<Rightarrow>
          if \<exists>x \<in> set (ts_inbox s). ib_original_id x = ib_original_id m
               \<and> ib_from_session x = ib_from_session m
          then s else s\<lparr>ts_inbox := ts_inbox s @ [m]\<rparr>)"

definition set_inbox :: "inbox_meta option \<Rightarrow> turn_state \<Rightarrow> turn_state" where
  "set_inbox meta s = append_inbox meta (s\<lparr>ts_inbox := []\<rparr>)"

definition take_inbox :: "turn_state \<Rightarrow> turn_state \<times> inbox_meta list" where
  "take_inbox s = (s\<lparr>ts_inbox := []\<rparr>, ts_inbox s)"

definition begin_turn ::
    "int \<Rightarrow> inbox_meta option \<Rightarrow> json option \<Rightarrow> turn_state \<Rightarrow> turn_state" where
  "begin_turn started meta analytics s =
     (set_inbox meta (s\<lparr>ts_start_time := Some started\<rparr>))\<lparr>ts_provider_analytics := analytics\<rparr>"

definition set_source :: "nat option \<Rightarrow> turn_state \<Rightarrow> turn_state" where
  "set_source r s = s\<lparr>ts_source := r\<rparr>"

definition consume_inbox_input :: "jstr \<Rightarrow> bool \<Rightarrow> turn_state \<Rightarrow> turn_state" where
  "consume_inbox_input queue_id joins s =
     (let i = find_index (\<lambda>w. oo_queue_id w = queue_id) (ts_owners s) in
      case (if 0 \<le> i then oo_source (ts_owners s ! nat i) else None) of
        None \<Rightarrow> s
      | Some r \<Rightarrow>
          if \<not> qi_from_inbox (ts_items s r) then s
          else if joins \<and> 0 < i then
            append_inbox (qi_inbox_meta (ts_items s r))
              (s\<lparr>ts_owners := remove_at (nat i) (ts_owners s)\<rparr>)
          else set_inbox (qi_inbox_meta (ts_items s r)) (set_source (Some r) s))"

section \<open>Text\<close>

definition append_text_block :: "jstr \<Rightarrow> turn_state \<Rightarrow> turn_state" where
  "append_text_block chunk s = s\<lparr>ts_text := ts_text s @ [chunk]\<rparr>"

definition turn_text :: "turn_state \<Rightarrow> jstr" where
  "turn_text s = trim (concat (ts_text s))"

definition clear_text :: "turn_state \<Rightarrow> turn_state" where
  "clear_text s = s\<lparr>ts_text := []\<rparr>"

section \<open>Output owners\<close>

definition push_owner ::
    "jstr \<Rightarrow> nat option \<Rightarrow> jstr option \<Rightarrow> delivery_to_channel \<Rightarrow> jstr \<Rightarrow> turn_state \<Rightarrow> turn_state" where
  "push_owner queue_id source request_id delivery channel s =
     s\<lparr>ts_owners := ts_owners s @
         [\<lparr>oo_queue_id = queue_id, oo_source = source, oo_request_id = request_id,
           oo_delivery = delivery, oo_channel_session = channel, oo_blocks = []\<rparr>]\<rparr>"

definition admit_owner_for_yield ::
    "jstr \<Rightarrow> nat option \<Rightarrow> jstr option \<Rightarrow> delivery_to_channel \<Rightarrow> jstr \<Rightarrow> bool \<Rightarrow> turn_state
     \<Rightarrow> turn_state" where
  "admit_owner_for_yield queue_id source request_id delivery channel is_retry s =
     (if is_retry then s else push_owner queue_id source request_id delivery channel s)"

definition pop_owner :: "turn_state \<Rightarrow> turn_state \<times> output_owner option" where
  "pop_owner s =
     (case ts_owners s of [] \<Rightarrow> (s, None) | w # ws \<Rightarrow> (s\<lparr>ts_owners := ws\<rparr>, Some w))"

definition owner_by_queue_id :: "jstr \<Rightarrow> turn_state \<Rightarrow> output_owner option" where
  "owner_by_queue_id queue_id s = List.find (\<lambda>w. oo_queue_id w = queue_id) (ts_owners s)"

definition has_owner :: "jstr option \<Rightarrow> turn_state \<Rightarrow> bool" where
  "has_owner queue_id s \<longleftrightarrow>
     truthy queue_id \<and> (\<exists>w \<in> set (ts_owners s). Some (oo_queue_id w) = queue_id)"

definition stage_channel_block :: "channel_block \<Rightarrow> turn_state \<Rightarrow> turn_state \<times> bool" where
  "stage_channel_block block s =
     (case ts_owners s of
        [] \<Rightarrow> (s, False)
      | w # ws \<Rightarrow>
          if oo_delivery w \<noteq> SessionBinding \<or> block = BlockText [] then (s, False)
          else (s\<lparr>ts_owners := w\<lparr>oo_blocks := oo_blocks w @ [block]\<rparr> # ws\<rparr>, True))"

definition clear_channel_blocks :: "turn_state \<Rightarrow> turn_state" where
  "clear_channel_blocks s =
     (case ts_owners s of [] \<Rightarrow> s | w # ws \<Rightarrow> s\<lparr>ts_owners := w\<lparr>oo_blocks := []\<rparr> # ws\<rparr>)"

definition remove_owner :: "jstr option \<Rightarrow> turn_state \<Rightarrow> turn_state \<times> bool" where
  "remove_owner queue_id s =
     (if \<not> truthy queue_id then (s, False)
      else let i = find_index (\<lambda>w. Some (oo_queue_id w) = queue_id) (ts_owners s) in
        if i < 0 then (s, False)
        else (s\<lparr>ts_owners := remove_at (nat i) (ts_owners s)\<rparr>, True))"

definition pending_im_requests :: "turn_state \<Rightarrow> jstr list" where
  "pending_im_requests s = List.map_filter oo_request_id (ts_owners s)"

definition clear_owners :: "turn_state \<Rightarrow> turn_state \<times> jstr list" where
  "clear_owners s = (s\<lparr>ts_owners := [], ts_im_emitted := False\<rparr>, pending_im_requests s)"

section \<open>IM terminals\<close>

text \<open>\<open>{ requestId, ...(typeof data === 'object' && data ? data : {}) }\<close>.\<close>

definition own_properties :: "json option \<Rightarrow> jobj" where
  "own_properties data =
     (case data of
        Some (JObj obj) \<Rightarrow> obj
      | Some (JArr xs) \<Rightarrow> zip (map dec_nat [0..<length xs]) xs
      | _ \<Rightarrow> [])"

definition im_payload :: "jstr \<Rightarrow> json option \<Rightarrow> jobj" where
  "im_payload request_id data = ospread [(js ''requestId'', JStr request_id)] (own_properties data)"

definition end_im_request :: "(jobj \<Rightarrow> im_event) \<Rightarrow> json option \<Rightarrow> turn_state \<Rightarrow> turn_state" where
  "end_im_request kind data s =
     (case pop_owner s of
        (s1, popped) \<Rightarrow>
          (case Option.bind popped oo_request_id of
             None \<Rightarrow> s1
           | Some request_id \<Rightarrow>
               if request_id = [] \<or> ts_im_emitted s1 then s1
               else s1\<lparr>ts_im_emitted := True,
                       ts_im_log := ts_im_log s1 @ [kind (im_payload request_id data)]\<rparr>))"

definition complete_im_request :: "json option \<Rightarrow> turn_state \<Rightarrow> turn_state" where
  "complete_im_request = end_im_request ImComplete"

definition fail_im_request :: "json option \<Rightarrow> turn_state \<Rightarrow> turn_state" where
  "fail_im_request = end_im_request ImError"

section \<open>Reporting the end of the turn\<close>

definition snapshot_outcome ::
    "int \<Rightarrow> outcome_status \<Rightarrow> jstr option \<Rightarrow> int option \<Rightarrow> turn_state \<Rightarrow> terminal_outcome" where
  "snapshot_outcome now status err duration s =
     \<lparr>to_channel_mode =
        Option.bind (ts_source s) (\<lambda>r. cd_mode (qi_channel_delivery (ts_items s r))),
      to_status = status,
      to_text = turn_text s,
      to_assistant_present = ts_assistant_present s,
      to_error = (if truthy err then err else None),
      to_duration_ms =
        (case duration of
           Some d \<Rightarrow> Some (max 0 d)
         | None \<Rightarrow> map_option (\<lambda>t. max 0 (now - t)) (ts_start_time s)),
      to_usage = Some (tu_input (ts_usage s), tu_output (ts_usage s))\<rparr>"

text \<open>The observer is taken off the item before it is called.\<close>

definition notify_item :: "nat \<Rightarrow> terminal_outcome \<Rightarrow> turn_state \<Rightarrow> turn_state" where
  "notify_item r outcome s =
     (case qi_on_terminal (ts_items s r) of
        None \<Rightarrow> s
      | Some observer \<Rightarrow>
          s\<lparr>ts_items := (ts_items s)(r := (ts_items s r)\<lparr>qi_on_terminal := None\<rparr>),
            ts_observed := ts_observed s @ [(r, observer, outcome)]\<rparr>)"

definition notify_queued_stopped :: "nat \<Rightarrow> jstr \<Rightarrow> turn_state \<Rightarrow> turn_state" where
  "notify_queued_stopped r err s =
     notify_item r
       \<lparr>to_channel_mode = None, to_status = TurnStopped, to_text = [], to_assistant_present = False,
        to_error = Some err, to_duration_ms = None, to_usage = None\<rparr> s"

text \<open>
  A notification joins the barrier, and is made when everything before it and its own
  finalization have settled: \<open>run_barrier\<close>.
\<close>

definition notify_outcome :: "terminal_outcome \<Rightarrow> turn_state \<Rightarrow> turn_state" where
  "notify_outcome outcome s = s\<lparr>ts_barrier := ts_barrier s @ [(ts_source s, outcome)]\<rparr>"

definition run_barrier :: "turn_state \<Rightarrow> turn_state" where
  "run_barrier s =
     (case ts_barrier s of
        [] \<Rightarrow> s
      | (item, outcome) # rest \<Rightarrow>
          (case item of
             None \<Rightarrow> s\<lparr>ts_barrier := rest\<rparr>
           | Some r \<Rightarrow> notify_item r outcome (s\<lparr>ts_barrier := rest\<rparr>)))"

definition notify_terminal ::
    "int \<Rightarrow> outcome_status \<Rightarrow> jstr option \<Rightarrow> int option \<Rightarrow> turn_state \<Rightarrow> turn_state" where
  "notify_terminal now status err duration s =
     notify_outcome (snapshot_outcome now status err duration s) s"

definition turn_identity_of :: "turn_state \<Rightarrow> turn_identity option" where
  "turn_identity_of s =
     Option.bind (ts_source s) (\<lambda>r.
       map_option (\<lambda>w. \<lparr>ti_queue_id = qi_id (ts_items s r), ti_owner = w\<rparr>) (qi_owner (ts_items s r)))"

definition turn_queue_id :: "turn_state \<Rightarrow> jstr option" where
  "turn_queue_id s = map_option (\<lambda>r. qi_id (ts_items s r)) (ts_source s)"

definition unknown_origin :: json where
  "unknown_origin =
     JObj [(js ''kind'', JStr (js ''unknown'')), (js ''surface'', JStr (js ''unknown''))]"

definition record_completion ::
    "jstr \<Rightarrow> jstr \<Rightarrow> outcome_status \<Rightarrow> turn_state \<Rightarrow> turn_state \<times> completion_terminal option" where
  "record_completion session_id workspace status s =
     (case ts_source s of
        None \<Rightarrow> (s, None)
      | Some r \<Rightarrow>
          if session_id = [] \<or> workspace = [] then (s, None)
          else
            let item = ts_items s r;
                terminal =
                  \<lparr>ct_session_id = session_id, ct_workspace_path = workspace, ct_turn_id = qi_id item,
                   ct_turn_owner = qi_owner item,
                   ct_origin =
                     (case or_else (Option.bind (qi_activity_facts item) af_origin)
                             (ts_analytics_origin s) of
                        Some origin \<Rightarrow> origin | None \<Rightarrow> unknown_origin),
                   ct_status = status\<rparr>
            in (s\<lparr>ts_last_terminal := Some terminal\<rparr>, Some terminal))"

definition terminal_cleanup :: "turn_state \<Rightarrow> turn_state \<times> inbox_meta list \<times> jstr" where
  "terminal_cleanup s =
     (case take_inbox s of
        (s1, metas) \<Rightarrow> ((clear_text s1)\<lparr>ts_im_emitted := False\<rparr>, metas, turn_text s1))"

definition reset_usage :: "turn_state \<Rightarrow> turn_state" where
  "reset_usage s =
     s\<lparr>ts_usage := empty_usage, ts_model_usage := [], ts_latest_usage := None,
       ts_start_time := None, ts_plan_mtime := None, ts_tool_count := 0, ts_has_output := False,
       ts_had_error := False, ts_last_error := None, ts_analytics_source := None,
       ts_analytics_origin := None, ts_provider_analytics := None, ts_compact := None,
       ts_saw_compact := False, ts_assistant_present := False, ts_substantive := False,
       ts_im_emitted := False, ts_text := [], ts_source := None, ts_last_terminal := None\<rparr>"

definition reset_turn :: "turn_state \<Rightarrow> turn_state" where
  "reset_turn s = (reset_usage s)\<lparr>ts_inbox := [], ts_owners := [], ts_barrier := []\<rparr>"

section \<open>Plain fields\<close>

definition replace_usage :: "turn_usage \<Rightarrow> turn_state \<Rightarrow> turn_state" where
  "replace_usage u s = s\<lparr>ts_usage := u\<rparr>"

definition increment_tool_count :: "turn_state \<Rightarrow> turn_state \<times> nat" where
  "increment_tool_count s = (s\<lparr>ts_tool_count := ts_tool_count s + 1\<rparr>, ts_tool_count s + 1)"

definition mark_has_output :: "turn_state \<Rightarrow> turn_state" where
  "mark_has_output s = s\<lparr>ts_has_output := True\<rparr>"

definition mark_assistant_error :: "jstr \<Rightarrow> turn_state \<Rightarrow> turn_state" where
  "mark_assistant_error e s = s\<lparr>ts_had_error := True, ts_last_error := Some e\<rparr>"

definition clear_assistant_error :: "turn_state \<Rightarrow> turn_state" where
  "clear_assistant_error s = s\<lparr>ts_had_error := False, ts_last_error := None\<rparr>"

definition set_latest_usage :: "message_usage option \<Rightarrow> turn_state \<Rightarrow> turn_state" where
  "set_latest_usage v s = s\<lparr>ts_latest_usage := v\<rparr>"

definition set_start_time :: "int option \<Rightarrow> turn_state \<Rightarrow> turn_state" where
  "set_start_time v s = s\<lparr>ts_start_time := v\<rparr>"

definition set_plan_mtime :: "int option \<Rightarrow> turn_state \<Rightarrow> turn_state" where
  "set_plan_mtime v s = s\<lparr>ts_plan_mtime := v\<rparr>"

definition set_tool_count :: "nat \<Rightarrow> turn_state \<Rightarrow> turn_state" where
  "set_tool_count v s = s\<lparr>ts_tool_count := v\<rparr>"

definition set_has_output :: "bool \<Rightarrow> turn_state \<Rightarrow> turn_state" where
  "set_has_output v s = s\<lparr>ts_has_output := v\<rparr>"

definition set_analytics_source :: "json option \<Rightarrow> turn_state \<Rightarrow> turn_state" where
  "set_analytics_source v s = s\<lparr>ts_analytics_source := v\<rparr>"

definition set_analytics_origin :: "json option \<Rightarrow> turn_state \<Rightarrow> turn_state" where
  "set_analytics_origin v s = s\<lparr>ts_analytics_origin := v\<rparr>"

definition set_provider_analytics :: "json option \<Rightarrow> turn_state \<Rightarrow> turn_state" where
  "set_provider_analytics v s = s\<lparr>ts_provider_analytics := v\<rparr>"

definition set_compact :: "compact_result option \<Rightarrow> turn_state \<Rightarrow> turn_state" where
  "set_compact v s = s\<lparr>ts_compact := v\<rparr>"

definition set_saw_compact :: "bool \<Rightarrow> turn_state \<Rightarrow> turn_state" where
  "set_saw_compact v s = s\<lparr>ts_saw_compact := v\<rparr>"

definition set_assistant_present :: "bool \<Rightarrow> turn_state \<Rightarrow> turn_state" where
  "set_assistant_present v s = s\<lparr>ts_assistant_present := v\<rparr>"

definition set_substantive :: "bool \<Rightarrow> turn_state \<Rightarrow> turn_state" where
  "set_substantive v s = s\<lparr>ts_substantive := v\<rparr>"

definition set_im_emitted :: "bool \<Rightarrow> turn_state \<Rightarrow> turn_state" where
  "set_im_emitted v s = s\<lparr>ts_im_emitted := v\<rparr>"

end
