(* ===== verification/TurnProperties.thy ===== *)
theory TurnProperties
  imports TurnState
begin

text \<open>
  What the turn state guarantees: usage that does not depend on the order of frames, one IM
  terminal per turn, one call of each terminal observer, and inbox requests that are held once.
\<close>

section \<open>Usage is the sum of the model messages\<close>

definition previous_usage :: "jstr \<Rightarrow> turn_state \<Rightarrow> message_usage" where
  "previous_usage i s =
     (case map_of (ts_model_usage s) i of None \<Rightarrow> no_message_usage | Some m \<Rightarrow> m)"

lemma model_usage_update:
  "ts_model_usage (update_model_usage i u s)
   = map_set i (merge_usage (previous_usage i s) u) (ts_model_usage s)"
  by (simp add: update_model_usage_def accumulate_usage_def previous_usage_def Let_def)

lemma previous_usage_update:
  "previous_usage j (update_model_usage i u s)
   = (if j = i then merge_usage (previous_usage i s) u else previous_usage j s)"
  by (simp add: previous_usage_def [of j] model_usage_update)

text \<open>
  One of the four counters: how it is read from the turn total, from a message and from a frame.
\<close>

locale usage_counter =
  fixes total :: "turn_usage \<Rightarrow> int"
    and of_message :: "message_usage \<Rightarrow> int"
    and of_frame :: "partial_usage \<Rightarrow> int"
  assumes total_empty: "total empty_usage = 0"
    and of_none: "of_message no_message_usage = 0"
    and of_merge: "of_message (merge_usage m u) = max (of_message m) (of_frame u)"
    and total_update: "total (ts_usage (update_model_usage i u s))
      = total (ts_usage s) + (of_message (merge_usage (previous_usage i s) u)
          - of_message (previous_usage i s))"
begin

definition peak :: "(jstr \<times> partial_usage) list \<Rightarrow> jstr \<Rightarrow> int" where
  "peak frames i = Max (insert 0 (of_frame ` snd ` {f \<in> set frames. fst f = i}))"

lemma peak_Nil: "peak [] i = 0"
  by (simp add: peak_def)

lemma peak_absent: "i \<notin> fst ` set frames \<Longrightarrow> peak frames i = 0"
  by (auto simp: peak_def image_iff intro!: Max_eqI)

lemma peak_snoc:
  "peak (frames @ [(j, u)]) i = (if i = j then max (peak frames j) (of_frame u) else peak frames i)"
proof (cases "i = j")
  case True
  have "{f \<in> set (frames @ [(j, u)]). fst f = j} = insert (j, u) {f \<in> set frames. fst f = j}"
    by auto
  then have "peak (frames @ [(j, u)]) j
      = Max (insert (of_frame u) (insert 0 (of_frame ` snd ` {f \<in> set frames. fst f = j})))"
    unfolding peak_def by (simp only: image_insert snd_conv insert_commute)
  also have "\<dots> = max (of_frame u) (peak frames j)"
    unfolding peak_def by (rule Max_insert) simp_all
  finally show ?thesis using True by (simp add: max.commute)
next
  case False
  then have "{f \<in> set (frames @ [(j, u)]). fst f = i} = {f \<in> set frames. fst f = i}" by auto
  then show ?thesis using False by (simp add: peak_def)
qed

lemma frames_total:
  fixes s :: turn_state
  defines "run \<equiv> \<lambda>frames. fold (\<lambda>(i, u). update_model_usage i u) frames (reset_usage s)"
  shows "(\<forall>i. of_message (previous_usage i (run frames)) = peak frames i)
    \<and> total (ts_usage (run frames)) = (\<Sum>i \<in> fst ` set frames. peak frames i)"
proof (induction frames rule: rev_induct)
  case Nil
  show ?case
    by (simp add: run_def previous_usage_def reset_usage_def of_none total_empty peak_Nil)
next
  case (snoc f frames)
  obtain j u where f: "f = (j, u)" by (cases f)
  let ?s = "run frames" and ?K = "fst ` set frames"
  have step: "run (frames @ [(j, u)]) = update_model_usage j u ?s" by (simp add: run_def)
  have each: "of_message (previous_usage i (run (frames @ [(j, u)]))) = peak (frames @ [(j, u)]) i" for i
    using snoc.IH by (simp add: step previous_usage_update peak_snoc of_merge)
  have "total (ts_usage (run (frames @ [(j, u)])))
      = (\<Sum>i \<in> ?K. peak frames i) + (peak (frames @ [(j, u)]) j - peak frames j)"
    using snoc.IH by (simp add: step total_update of_merge peak_snoc)
  also have "(\<Sum>i \<in> ?K. peak frames i) = (\<Sum>i \<in> insert j ?K. peak frames i)"
    using peak_absent [of j frames] by (cases "j \<in> ?K") (simp_all add: insert_absorb)
  also have "\<dots> = peak frames j + (\<Sum>i \<in> insert j ?K - {j}. peak frames i)"
    by (rule sum.remove) simp_all
  also have "(\<Sum>i \<in> insert j ?K - {j}. peak frames i)
      = (\<Sum>i \<in> insert j ?K - {j}. peak (frames @ [(j, u)]) i)"
    by (rule sum.cong) (auto simp: peak_snoc)
  finally have "total (ts_usage (run (frames @ [(j, u)])))
      = peak (frames @ [(j, u)]) j + (\<Sum>i \<in> insert j ?K - {j}. peak (frames @ [(j, u)]) i)"
    by simp
  also have "\<dots> = (\<Sum>i \<in> insert j ?K. peak (frames @ [(j, u)]) i)"
    by (rule sum.remove [symmetric]) simp_all
  also have "insert j ?K = fst ` set (frames @ [(j, u)])" by simp
  finally show ?case using each f by blast
qed

end

lemmas counter_defs =
  empty_usage_def no_message_usage_def merge_usage_def or_zero_def update_model_usage_def
  accumulate_usage_def previous_usage_def Let_def

interpretation input_counter: usage_counter tu_input mu_input "\<lambda>u. or_zero (pu_input u)"
  by unfold_locales (simp_all add: counter_defs)

interpretation output_counter: usage_counter tu_output mu_output "\<lambda>u. or_zero (pu_output u)"
  by unfold_locales (simp_all add: counter_defs)

interpretation cache_read_counter: usage_counter tu_cache_read
    "\<lambda>m. or_zero (mu_cache_read m)" "\<lambda>u. or_zero (pu_cache_read u)"
  by unfold_locales (simp_all add: counter_defs)

interpretation cache_creation_counter: usage_counter tu_cache_creation
    "\<lambda>m. or_zero (mu_cache_creation m)" "\<lambda>u. or_zero (pu_cache_creation u)"
  by unfold_locales (simp_all add: counter_defs)

text \<open>The reference: each model message counts once, with the largest value any frame gave.\<close>

definition frames_sum :: "(partial_usage \<Rightarrow> int option) \<Rightarrow> (jstr \<times> partial_usage) list \<Rightarrow> int" where
  "frames_sum get frames =
     (\<Sum>i \<in> fst ` set frames.
        Max (insert 0 ((\<lambda>u. or_zero (get u)) ` snd ` {f \<in> set frames. fst f = i})))"

text \<open>
  C11. The usage of a turn is the sum over its model messages of the largest value that any frame
  of the message reported. It does not depend on the order of the frames, and a frame that is
  delivered twice counts once.
\<close>

theorem usage_is_sum_of_messages:
  "let u = ts_usage (fold (\<lambda>(i, f). update_model_usage i f) frames (reset_usage s)) in
     tu_input u = frames_sum pu_input frames
     \<and> tu_output u = frames_sum pu_output frames
     \<and> tu_cache_read u = frames_sum pu_cache_read frames
     \<and> tu_cache_creation u = frames_sum pu_cache_creation frames"
  using input_counter.frames_total [where s = s and frames = frames] output_counter.frames_total [where s = s and frames = frames]
    cache_read_counter.frames_total [where s = s and frames = frames] cache_creation_counter.frames_total [where s = s and frames = frames]
  by (simp add: frames_sum_def Let_def input_counter.peak_def output_counter.peak_def
      cache_read_counter.peak_def cache_creation_counter.peak_def)

section \<open>One terminal per turn\<close>

definition end_request :: "bool \<times> json option \<Rightarrow> turn_state \<Rightarrow> turn_state" where
  "end_request r s = (if fst r then complete_im_request (snd r) s else fail_im_request (snd r) s)"

definition im_terminal :: "bool \<times> json option \<Rightarrow> jstr \<Rightarrow> im_event" where
  "im_terminal r request_id =
     (if fst r then ImComplete (im_payload request_id (snd r)) else ImError (im_payload request_id (snd r)))"

definition first_terminal :: "output_owner list \<Rightarrow> (bool \<times> json option) list \<Rightarrow> im_event list" where
  "first_terminal owners rs =
     (case List.find (\<lambda>(w, r). truthy (oo_request_id w)) (zip owners rs) of
        None \<Rightarrow> [] | Some (w, r) \<Rightarrow> [im_terminal r (the (oo_request_id w))])"

lemma end_request_step:
  "end_request r s =
     (case ts_owners s of
        [] \<Rightarrow> s
      | w # ws \<Rightarrow>
          if truthy (oo_request_id w) \<and> \<not> ts_im_emitted s
          then s\<lparr>ts_owners := ws, ts_im_emitted := True,
                 ts_im_log := ts_im_log s @ [im_terminal r (the (oo_request_id w))]\<rparr>
          else s\<lparr>ts_owners := ws\<rparr>)"
  by (cases "ts_owners s")
    (auto simp: end_request_def complete_im_request_def fail_im_request_def end_im_request_def
      pop_owner_def im_terminal_def split: option.split)

lemma end_requests_emitted:
  "ts_im_emitted s \<Longrightarrow> ts_im_log (fold end_request rs s) = ts_im_log s
    \<and> ts_owners (fold end_request rs s) = drop (length rs) (ts_owners s)"
proof (induction rs arbitrary: s)
  case (Cons r rs)
  have "ts_im_emitted (end_request r s)" "ts_im_log (end_request r s) = ts_im_log s"
    "ts_owners (end_request r s) = drop 1 (ts_owners s)"
    using Cons.prems by (simp_all add: end_request_step split: list.split)
  then show ?case using Cons.IH by simp
qed simp

lemma end_requests_waiting:
  assumes "\<not> ts_im_emitted s"
  shows "ts_owners (fold end_request rs s) = drop (length rs) (ts_owners s)
    \<and> ts_im_log (fold end_request rs s) = ts_im_log s @ first_terminal (ts_owners s) rs"
  using assms
proof (induction rs arbitrary: s)
  case Nil
  show ?case by (simp add: first_terminal_def)
next
  case (Cons r rs)
  show ?case
  proof (cases "ts_owners s")
    case Nil
    then have "end_request r s = s" by (simp add: end_request_step)
    then show ?thesis using Cons Nil by (simp add: first_terminal_def)
  next
    case (Cons w ws)
    show ?thesis
    proof (cases "truthy (oo_request_id w)")
      case True
      let ?t = "s\<lparr>ts_owners := ws, ts_im_emitted := True,
          ts_im_log := ts_im_log s @ [im_terminal r (the (oo_request_id w))]\<rparr>"
      have "end_request r s = ?t"
        using True \<open>\<not> ts_im_emitted s\<close> Cons by (simp add: end_request_step)
      then show ?thesis
        using True \<open>\<not> ts_im_emitted s\<close> Cons end_requests_emitted [of ?t rs]
        by (simp add: first_terminal_def)
    next
      case False
      then have "end_request r s = s\<lparr>ts_owners := ws\<rparr>" using Cons by (simp add: end_request_step)
      then show ?thesis
        using False Cons Cons.IH [of "s\<lparr>ts_owners := ws\<rparr>"] \<open>\<not> ts_im_emitted s\<close>
        by (simp add: first_terminal_def)
    qed
  qed
qed

text \<open>
  C12. A turn ends at most one IM request: however often and in whatever way the end is reported,
  the inputs are taken off in the order they were handed over, and only the first of them that
  carries a request id is answered, by the report that took it off.
\<close>

theorem one_im_terminal:
  "ts_owners (fold end_request rs s) = drop (length rs) (ts_owners s)
   \<and> ts_im_log (fold end_request rs s)
      = ts_im_log s @ (if ts_im_emitted s then [] else first_terminal (ts_owners s) rs)"
  by (cases "ts_im_emitted s") (simp_all add: end_requests_emitted end_requests_waiting)

section \<open>Every operation\<close>

datatype turn_op =
    BeginTurn int "inbox_meta option" "json option"
  | ResetUsage | ReplaceUsage turn_usage | ModelUsage jstr partial_usage
  | AppendInbox "inbox_meta option" | SetInbox "inbox_meta option" | TakeInbox
  | ConsumeInbox jstr bool
  | AppendText jstr | ClearText
  | AdmitOwner jstr "nat option" "jstr option" delivery_to_channel jstr bool
  | PopOwner | StageBlock channel_block | ClearBlocks | RemoveOwner "jstr option" | ClearOwners
  | EndRequest "bool \<times> json option"
  | SetSource "nat option"
  | NotifyTerminal int outcome_status "jstr option" "int option" | RunBarrier
  | QueuedStopped nat jstr
  | RecordCompletion jstr jstr outcome_status | Cleanup
  | IncrementTools | MarkOutput | MarkError jstr | ClearError
  | SetLatestUsage "message_usage option" | SetStartTime "int option" | SetPlanMtime "int option"
  | SetToolCount nat | SetHasOutput bool | SetAnalyticsSource "json option"
  | SetAnalyticsOrigin "json option" | SetProviderAnalytics "json option" | SetCompact "compact_result option"
  | SetSawCompact bool | SetAssistantPresent bool | SetSubstantive bool
  | SetImEmitted bool

fun exec_turn :: "turn_op \<Rightarrow> turn_state \<Rightarrow> turn_state" where
  "exec_turn (BeginTurn t m a) s = begin_turn t m a s"
| "exec_turn ResetUsage s = reset_usage s"
| "exec_turn (ReplaceUsage u) s = replace_usage u s"
| "exec_turn (ModelUsage i u) s = update_model_usage i u s"
| "exec_turn (AppendInbox m) s = append_inbox m s"
| "exec_turn (SetInbox m) s = set_inbox m s"
| "exec_turn TakeInbox s = fst (take_inbox s)"
| "exec_turn (ConsumeInbox k b) s = consume_inbox_input k b s"
| "exec_turn (AppendText c) s = append_text_block c s"
| "exec_turn ClearText s = clear_text s"
| "exec_turn (AdmitOwner k r q d c b) s = admit_owner_for_yield k r q d c b s"
| "exec_turn PopOwner s = fst (pop_owner s)"
| "exec_turn (StageBlock b) s = fst (stage_channel_block b s)"
| "exec_turn ClearBlocks s = clear_channel_blocks s"
| "exec_turn (RemoveOwner k) s = fst (remove_owner k s)"
| "exec_turn ClearOwners s = fst (clear_owners s)"
| "exec_turn (EndRequest r) s = end_request r s"
| "exec_turn (SetSource r) s = set_source r s"
| "exec_turn (NotifyTerminal t st e d) s = notify_terminal t st e d s"
| "exec_turn RunBarrier s = run_barrier s"
| "exec_turn (QueuedStopped r e) s = notify_queued_stopped r e s"
| "exec_turn (RecordCompletion i w st) s = fst (record_completion i w st s)"
| "exec_turn Cleanup s = fst (terminal_cleanup s)"
| "exec_turn IncrementTools s = fst (increment_tool_count s)"
| "exec_turn MarkOutput s = mark_has_output s"
| "exec_turn (MarkError e) s = mark_assistant_error e s"
| "exec_turn ClearError s = clear_assistant_error s"
| "exec_turn (SetLatestUsage v) s = set_latest_usage v s"
| "exec_turn (SetStartTime v) s = set_start_time v s"
| "exec_turn (SetPlanMtime v) s = set_plan_mtime v s"
| "exec_turn (SetToolCount v) s = set_tool_count v s"
| "exec_turn (SetHasOutput v) s = set_has_output v s"
| "exec_turn (SetAnalyticsSource v) s = set_analytics_source v s"
| "exec_turn (SetAnalyticsOrigin v) s = set_analytics_origin v s"
| "exec_turn (SetProviderAnalytics v) s = set_provider_analytics v s"
| "exec_turn (SetCompact v) s = set_compact v s"
| "exec_turn (SetSawCompact v) s = set_saw_compact v s"
| "exec_turn (SetAssistantPresent v) s = set_assistant_present v s"
| "exec_turn (SetSubstantive v) s = set_substantive v s"
| "exec_turn (SetImEmitted v) s = set_im_emitted v s"

definition observers :: "turn_state \<Rightarrow> (nat \<Rightarrow> queue_item) \<times> (nat \<times> callback \<times> terminal_outcome) list" where
  "observers s = (ts_items s, ts_observed s)"

text \<open>All operations but the two that report a terminal leave items and observations alone.\<close>

lemma observers_inbox:
  "observers (append_inbox m s) = observers s" "observers (set_inbox m s) = observers s"
  by (simp_all add: observers_def append_inbox_def set_inbox_def split: option.split)

lemma observers_same:
  "observers (begin_turn t m a s) = observers s" "observers (reset_usage s) = observers s"
  "observers (replace_usage u s) = observers s" "observers (update_model_usage i v s) = observers s"
  "observers (fst (take_inbox s)) = observers s" "observers (consume_inbox_input k b s) = observers s"
  "observers (append_text_block c s) = observers s" "observers (clear_text s) = observers s"
  "observers (admit_owner_for_yield k r q d c b s) = observers s"
  "observers (fst (pop_owner s)) = observers s" "observers (fst (stage_channel_block x s)) = observers s"
  "observers (clear_channel_blocks s) = observers s" "observers (fst (remove_owner o' s)) = observers s"
  "observers (fst (clear_owners s)) = observers s" "observers (end_request e s) = observers s"
  "observers (set_source r s) = observers s" "observers (notify_terminal t st er du s) = observers s"
  "observers (fst (record_completion k k' st s)) = observers s"
  "observers (fst (terminal_cleanup s)) = observers s"
  "observers (fst (increment_tool_count s)) = observers s" "observers (mark_has_output s) = observers s"
  "observers (mark_assistant_error c s) = observers s" "observers (clear_assistant_error s) = observers s"
  "observers (set_latest_usage v0 s) = observers s"
  "observers (set_start_time v1 s) = observers s"
  "observers (set_plan_mtime v2 s) = observers s"
  "observers (set_tool_count v3 s) = observers s"
  "observers (set_has_output v4 s) = observers s"
  "observers (set_analytics_source v5 s) = observers s"
  "observers (set_analytics_origin v6 s) = observers s"
  "observers (set_provider_analytics v7 s) = observers s"
  "observers (set_compact v8 s) = observers s"
  "observers (set_saw_compact v9 s) = observers s"
  "observers (set_assistant_present v10 s) = observers s"
  "observers (set_substantive v11 s) = observers s"
  "observers (set_im_emitted v12 s) = observers s"
  using observers_inbox
  by (simp_all add: observers_def begin_turn_def reset_usage_def replace_usage_def
      update_model_usage_def accumulate_usage_def take_inbox_def consume_inbox_input_def
      set_source_def append_text_block_def clear_text_def admit_owner_for_yield_def push_owner_def
      pop_owner_def stage_channel_block_def clear_channel_blocks_def remove_owner_def clear_owners_def
      end_request_step notify_terminal_def notify_outcome_def record_completion_def
      terminal_cleanup_def increment_tool_count_def mark_has_output_def mark_assistant_error_def
      clear_assistant_error_def
      set_latest_usage_def set_start_time_def set_plan_mtime_def set_tool_count_def
      set_has_output_def set_analytics_source_def set_analytics_origin_def set_provider_analytics_def
      set_compact_def set_saw_compact_def set_assistant_present_def set_substantive_def
      set_im_emitted_def
      Let_def split: option.split list.split)

text \<open>
  The invariant: every observation is of an item that has no observer any more, was made with the
  observer the item had, and is the only one of its item.
\<close>

definition observed_ok :: "(nat \<Rightarrow> callback option) \<Rightarrow> turn_state \<Rightarrow> bool" where
  "observed_ok armed s \<longleftrightarrow>
     distinct (map fst (ts_observed s))
     \<and> (\<forall>(r, c, _) \<in> set (ts_observed s). armed r = Some c \<and> qi_on_terminal (ts_items s r) = None)
     \<and> (\<forall>r. r \<notin> fst ` set (ts_observed s) \<longrightarrow> qi_on_terminal (ts_items s r) = armed r)"

lemma observed_ok_same: "observers s = observers t \<Longrightarrow> observed_ok armed s = observed_ok armed t"
  by (simp add: observed_ok_def observers_def)

lemmas observed_ok_keep = observers_same [THEN observed_ok_same] observers_inbox [THEN observed_ok_same]

lemma observed_ok_notify:
  assumes "observed_ok armed s" shows "observed_ok armed (notify_item r outcome s)"
proof (cases "qi_on_terminal (ts_items s r)")
  case None
  then show ?thesis using assms by (simp add: notify_item_def)
next
  case (Some c)
  have new: "r \<notin> fst ` set (ts_observed s)"
  proof
    assume "r \<in> fst ` set (ts_observed s)"
    then obtain c' w where "(r, c', w) \<in> set (ts_observed s)" by auto
    then have "qi_on_terminal (ts_items s r) = None"
      using assms unfolding observed_ok_def by blast
    with Some show False by simp
  qed
  then have armed: "armed r = Some c" using assms Some by (simp add: observed_ok_def)
  have others: "\<forall>(q, d, _) \<in> set (ts_observed s). q \<noteq> r"
    using new by (auto simp: image_iff)
  show ?thesis
    using assms new armed others
    by (auto simp: observed_ok_def notify_item_def Some split: prod.splits)
qed

lemma observed_ok_exec: "observed_ok armed s \<Longrightarrow> observed_ok armed (exec_turn op s)"
proof (cases op)
  case RunBarrier
  assume s: "observed_ok armed s"
  show ?thesis
  proof (cases "ts_barrier s")
    case (Cons b rest)
    have "observed_ok armed (s\<lparr>ts_barrier := rest\<rparr>)"
      using s by (simp add: observed_ok_def)
    then show ?thesis
      using observed_ok_notify Cons
      by (cases b) (simp add: RunBarrier run_barrier_def split: option.split)
  qed (use s in \<open>simp add: RunBarrier run_barrier_def\<close>)
next
  case (QueuedStopped r e)
  then show "observed_ok armed s \<Longrightarrow> ?thesis"
    using observed_ok_notify by (simp add: notify_queued_stopped_def)
qed (simp_all add: observed_ok_keep)

lemma observed_ok_run: "observed_ok armed s \<Longrightarrow> observed_ok armed (fold exec_turn ops s)"
  by (induction ops arbitrary: s) (simp_all add: observed_ok_exec)

text \<open>
  C13. The terminal observer of an item is called at most once, and it is the observer the item was
  queued with, whatever reports the end (the running turn, a late barrier, a cancelled queue entry)
  and in whatever order.
\<close>

theorem observer_called_once:
  assumes "ts_observed s = []"
  shows "distinct (map fst (ts_observed (fold exec_turn ops s)))
    \<and> list_all (\<lambda>(r, c, _). qi_on_terminal (ts_items s r) = Some c)
        (ts_observed (fold exec_turn ops s))"
proof -
  have "observed_ok (\<lambda>r. qi_on_terminal (ts_items s r)) s"
    using assms by (simp add: observed_ok_def)
  from observed_ok_run [OF this, of ops] show ?thesis
    by (auto simp: observed_ok_def list_all_iff)
qed

text \<open>A turn in which one item is reported three times.\<close>

definition sample_turn :: turn_state where
  "sample_turn =
     \<lparr>ts_usage = empty_usage, ts_model_usage = [], ts_latest_usage = None, ts_start_time = None,
      ts_plan_mtime = None, ts_tool_count = 0, ts_has_output = False, ts_had_error = False,
      ts_last_error = None, ts_analytics_source = None, ts_analytics_origin = None,
      ts_provider_analytics = None, ts_compact = None, ts_saw_compact = False,
      ts_assistant_present = False, ts_substantive = False, ts_inbox = [], ts_text = [],
      ts_owners = [], ts_im_emitted = False, ts_source = None,
      ts_items = (\<lambda>_. (sample_item ''a'')\<lparr>qi_on_terminal := Some 7\<rparr>),
      ts_last_terminal = None, ts_barrier = [], ts_im_log = [], ts_observed = []\<rparr>"

definition sample_ops :: "turn_op list" where
  "sample_ops =
     [SetSource (Some 1), NotifyTerminal 10 TurnComplete None None, QueuedStopped 1 (js ''gone''),
      NotifyTerminal 11 TurnFailed None None, RunBarrier, RunBarrier]"

lemma observer_called_once_witness:
  "distinct (map fst (ts_observed (fold exec_turn sample_ops sample_turn)))
   \<and> map fst (ts_observed (fold exec_turn sample_ops sample_turn)) = [1]"
proof
  show "distinct (map fst (ts_observed (fold exec_turn sample_ops sample_turn)))"
    using observer_called_once [of sample_turn sample_ops] by (simp add: sample_turn_def)
  show "map fst (ts_observed (fold exec_turn sample_ops sample_turn)) = [1]"
    by (simp add: sample_ops_def sample_turn_def sample_item_def set_source_def notify_terminal_def
        notify_outcome_def notify_queued_stopped_def notify_item_def run_barrier_def)
qed

section \<open>Inbox requests are answered once\<close>

definition inbox_keys :: "turn_state \<Rightarrow> (jstr \<times> jstr) list" where
  "inbox_keys s = map (\<lambda>m. (ib_original_id m, ib_from_session m)) (ts_inbox s)"

lemma inbox_append: "distinct (inbox_keys s) \<Longrightarrow> distinct (inbox_keys (append_inbox m s))"
  by (auto simp: inbox_keys_def append_inbox_def split: option.split)

lemma inbox_set: "distinct (inbox_keys (set_inbox m s))"
  unfolding set_inbox_def by (rule inbox_append) (simp add: inbox_keys_def)

lemma inbox_keys_same: "ts_inbox s = ts_inbox t \<Longrightarrow> inbox_keys s = inbox_keys t"
  by (simp add: inbox_keys_def)

lemma inbox_same:
  "ts_inbox (reset_usage s) = ts_inbox s"
  "ts_inbox (replace_usage u s) = ts_inbox s" "ts_inbox (update_model_usage i v s) = ts_inbox s"
  "ts_inbox (append_text_block c s) = ts_inbox s" "ts_inbox (clear_text s) = ts_inbox s"
  "ts_inbox (admit_owner_for_yield k r q d c b s) = ts_inbox s"
  "ts_inbox (fst (pop_owner s)) = ts_inbox s" "ts_inbox (fst (stage_channel_block x s)) = ts_inbox s"
  "ts_inbox (clear_channel_blocks s) = ts_inbox s" "ts_inbox (fst (remove_owner o' s)) = ts_inbox s"
  "ts_inbox (fst (clear_owners s)) = ts_inbox s" "ts_inbox (end_request e s) = ts_inbox s"
  "ts_inbox (set_source r s) = ts_inbox s" "ts_inbox (notify_terminal t st er du s) = ts_inbox s"
  "ts_inbox (notify_item n oc s) = ts_inbox s"
  "ts_inbox (fst (record_completion k k' st s)) = ts_inbox s"
  "ts_inbox (fst (increment_tool_count s)) = ts_inbox s" "ts_inbox (mark_has_output s) = ts_inbox s"
  "ts_inbox (mark_assistant_error c s) = ts_inbox s" "ts_inbox (clear_assistant_error s) = ts_inbox s"
  "ts_inbox (set_latest_usage v0 s) = ts_inbox s"
  "ts_inbox (set_start_time v1 s) = ts_inbox s"
  "ts_inbox (set_plan_mtime v2 s) = ts_inbox s"
  "ts_inbox (set_tool_count v3 s) = ts_inbox s"
  "ts_inbox (set_has_output v4 s) = ts_inbox s"
  "ts_inbox (set_analytics_source v5 s) = ts_inbox s"
  "ts_inbox (set_analytics_origin v6 s) = ts_inbox s"
  "ts_inbox (set_provider_analytics v7 s) = ts_inbox s"
  "ts_inbox (set_compact v8 s) = ts_inbox s"
  "ts_inbox (set_saw_compact v9 s) = ts_inbox s"
  "ts_inbox (set_assistant_present v10 s) = ts_inbox s"
  "ts_inbox (set_substantive v11 s) = ts_inbox s"
  "ts_inbox (set_im_emitted v12 s) = ts_inbox s"
  by (simp_all add: reset_usage_def replace_usage_def update_model_usage_def accumulate_usage_def
      set_source_def append_text_block_def clear_text_def admit_owner_for_yield_def push_owner_def
      pop_owner_def stage_channel_block_def clear_channel_blocks_def remove_owner_def clear_owners_def
      end_request_step notify_terminal_def notify_outcome_def notify_item_def record_completion_def
      increment_tool_count_def mark_has_output_def mark_assistant_error_def
      clear_assistant_error_def
      set_latest_usage_def set_start_time_def set_plan_mtime_def set_tool_count_def
      set_has_output_def set_analytics_source_def set_analytics_origin_def set_provider_analytics_def
      set_compact_def set_saw_compact_def set_assistant_present_def set_substantive_def
      set_im_emitted_def
      Let_def split: option.split list.split)

lemma inbox_barrier: "ts_inbox (run_barrier s) = ts_inbox s"
  by (simp add: run_barrier_def inbox_same split: list.split option.split)

lemmas inbox_keep =
  inbox_same [THEN inbox_keys_same] inbox_barrier [THEN inbox_keys_same]

lemma inbox_taken: "inbox_keys (fst (take_inbox s)) = []" "inbox_keys (fst (terminal_cleanup s)) = []"
  by (simp_all add: inbox_keys_def take_inbox_def terminal_cleanup_def clear_text_def)

lemma inbox_consume:
  "distinct (inbox_keys s) \<Longrightarrow> distinct (inbox_keys (consume_inbox_input k b s))"
  using inbox_append [of "s\<lparr>ts_owners := _\<rparr>"] inbox_set
  by (auto simp: consume_inbox_input_def Let_def inbox_keys_def [of "s\<lparr>ts_owners := _\<rparr>"]
      inbox_keys_def [of s] split: option.split)

lemma inbox_begin: "distinct (inbox_keys (begin_turn t m a s))"
proof -
  have "inbox_keys (begin_turn t m a s) = inbox_keys (set_inbox m (s\<lparr>ts_start_time := Some t\<rparr>))"
    by (simp add: begin_turn_def inbox_keys_def)
  then show ?thesis by (simp add: inbox_set)
qed

lemma inbox_exec: "distinct (inbox_keys s) \<Longrightarrow> distinct (inbox_keys (exec_turn op s))"
  by (cases op)
    (simp_all add: inbox_append inbox_set inbox_consume inbox_begin inbox_keep inbox_taken
      notify_queued_stopped_def)

text \<open>
  A turn holds each inbox request once: no history of the turn makes it owe the same request
  two answers, and the end of the turn hands all of them over and keeps none.
\<close>

theorem inbox_requests_distinct:
  assumes "distinct (inbox_keys s)"
  shows "let t = fold exec_turn ops s in
     distinct (inbox_keys t) \<and> fst (snd (terminal_cleanup t)) = ts_inbox t
     \<and> ts_inbox (fst (terminal_cleanup t)) = []"
proof -
  have "distinct (inbox_keys (fold exec_turn ops s))"
    using assms by (induction ops arbitrary: s) (simp_all add: inbox_exec)
  then show ?thesis
    by (simp add: terminal_cleanup_def take_inbox_def clear_text_def Let_def)
qed

lemma inbox_requests_distinct_witness:
  "distinct (inbox_keys (fold exec_turn [SetSource None, AppendInbox None] sample_turn))"
  using inbox_requests_distinct [of sample_turn "[SetSource None, AppendInbox None]"]
  by (simp add: sample_turn_def inbox_keys_def Let_def)

end
