(* ===== verification/SseParser.thy ===== *)
theory SseParser
  imports JsText
begin

text \<open>
  The incremental parser of server-sent events: openai-bridge/utils/sse-parser.ts. A line ends with
  LF, CR LF or CR; a CR at the end of the buffer is kept until the next chunk shows whether an LF
  follows. The lemmas show that the events do not depend on how the stream was cut into chunks.
\<close>

section \<open>State\<close>

record sse_event =
  se_event :: "jstr option"
  se_data :: jstr

record sse_parser =
  sp_buffer :: jstr
  sp_event_type :: "jstr option"
  sp_data_lines :: "jstr list"

definition new_sse_parser :: sse_parser where
  "new_sse_parser = \<lparr>sp_buffer = [], sp_event_type = None, sp_data_lines = []\<rparr>"

section \<open>Lines\<close>

text \<open>
  The next line ending of the buffer: the line and what is left, or None when more data is needed.
\<close>

definition next_line :: "jstr \<Rightarrow> (jstr \<times> jstr) option" where
  "next_line buf =
     (case (index_of [10] buf, index_of [13] buf) of
        (None, None) \<Rightarrow> None
      | (lf, Some cr) \<Rightarrow>
          if lf = None \<or> cr < the lf then
            (if length buf \<le> cr + 1 then None
             else Some (take cr buf, drop (cr + (if buf ! (cr + 1) = 10 then 2 else 1)) buf))
          else Some (take (the lf) buf, drop (the lf + 1) buf)
      | (Some lf, None) \<Rightarrow> Some (take lf buf, drop (lf + 1) buf))"

definition take_line :: "jstr \<Rightarrow> sse_parser \<Rightarrow> sse_parser \<times> sse_event list" where
  "take_line line p =
     (if line = [] then
        (p\<lparr>sp_event_type := None, sp_data_lines := []\<rparr>,
         if sp_data_lines p \<noteq> []
         then [\<lparr>se_event = sp_event_type p, se_data = join_with [10] (sp_data_lines p)\<rparr>] else [])
      else if prefix (js ''event:'') line then
        (p\<lparr>sp_event_type := Some (trim (drop 6 line))\<rparr>, [])
      else if prefix (js ''data:'') line then
        (p\<lparr>sp_data_lines := sp_data_lines p @ [trim_start (drop 5 line)]\<rparr>, [])
      else (p, []))"

lemma next_line_shorter: "next_line buf = Some (line, rest) \<Longrightarrow> length rest < length buf"
proof -
  assume n: "next_line buf = Some (line, rest)"
  show ?thesis
  proof (cases "buf = []")
    case False
    then show ?thesis using n by (auto simp: next_line_def split: option.splits if_splits)
  qed (use n in \<open>simp add: next_line_def\<close>)
qed

lemma take_line_buffer: "sp_buffer (fst (take_line line p)) = sp_buffer p"
  by (simp add: take_line_def)

text \<open>The loop of \<open>feed\<close> over the buffer.\<close>

function drain :: "sse_parser \<Rightarrow> sse_parser \<times> sse_event list" where
  "drain p =
     (case next_line (sp_buffer p) of
        None \<Rightarrow> (p, [])
      | Some (line, rest) \<Rightarrow>
          (case take_line line (p\<lparr>sp_buffer := rest\<rparr>) of
             (p1, e1) \<Rightarrow> (case drain p1 of (p2, e2) \<Rightarrow> (p2, e1 @ e2))))"
  by pat_completeness auto

termination
  by (relation "measure (\<lambda>p. length (sp_buffer p))")
    (auto dest!: next_line_shorter, metis fst_conv sse_parser.select_convs(1) sse_parser.surjective
      sse_parser.update_convs(1) take_line_buffer)

definition feed :: "jstr \<Rightarrow> sse_parser \<Rightarrow> sse_parser \<times> sse_event list" where
  "feed chunk p = drain (p\<lparr>sp_buffer := sp_buffer p @ chunk\<rparr>)"

declare drain.simps [simp del]

fun feed_all :: "jstr list \<Rightarrow> sse_parser \<Rightarrow> sse_parser \<times> sse_event list" where
  "feed_all [] p = (p, [])"
| "feed_all (c # cs) p =
     (case feed c p of (p1, e1) \<Rightarrow> (case feed_all cs p1 of (p2, e2) \<Rightarrow> (p2, e1 @ e2)))"

section \<open>The line splitter, unit by unit\<close>

lemma next_line_Nil: "next_line [] = None"
  by (simp add: next_line_def)

lemma next_line_Cons:
  "next_line (c # s) =
     (if c = 10 then Some ([], s)
      else if c = 13 then
        (case s of [] \<Rightarrow> None | d # r \<Rightarrow> Some ([], if d = 10 then r else s))
      else map_option (\<lambda>(l, r). (c # l, r)) (next_line s))"
proof -
  consider (lf) "c = 10" | (cr) "c = 13" | (other) "c \<noteq> 10" "c \<noteq> 13" by blast
  then show ?thesis
  proof cases
    case lf
    then show ?thesis by (simp add: next_line_def split: option.split)
  next
    case cr
    then show ?thesis by (cases s) (simp_all add: next_line_def split: option.split)
  next
    case other
    then show ?thesis
      by (simp add: next_line_def split: option.split)
  qed
qed

lemma next_line_append:
  "next_line buf = Some (line, rest) \<Longrightarrow> next_line (buf @ extra) = Some (line, rest @ extra)"
proof (induction buf arbitrary: line)
  case (Cons c buf)
  then show ?case by (cases buf) (auto simp: next_line_Cons next_line_Nil split: if_splits)
qed (simp add: next_line_Nil)

section \<open>Chunks\<close>

lemma take_line_buffer_update:
  "take_line line (p\<lparr>sp_buffer := b\<rparr>)
   = (case take_line line p of (q, es) \<Rightarrow> (q\<lparr>sp_buffer := b\<rparr>, es))"
  by (simp add: take_line_def)

text \<open>Draining a buffer that has grown continues where draining the old one stopped.\<close>

lemma drain_append:
  "drain (p\<lparr>sp_buffer := sp_buffer p @ extra\<rparr>)
   = (case drain p of (p1, e1) \<Rightarrow>
       (case drain (p1\<lparr>sp_buffer := sp_buffer p1 @ extra\<rparr>) of (p2, e2) \<Rightarrow> (p2, e1 @ e2)))"
proof (induction p rule: drain.induct)
  case (1 p)
  show ?case
  proof (cases "next_line (sp_buffer p)")
    case None
    then have "drain p = (p, [])" by (simp add: drain.simps)
    then show ?thesis by (simp split: prod.split)
  next
    case (Some lr)
    obtain line rest where lr: "lr = (line, rest)" by (cases lr)
    obtain p1 e1 where t: "take_line line (p\<lparr>sp_buffer := rest\<rparr>) = (p1, e1)" by fastforce
    have b: "sp_buffer p1 = rest"
      using take_line_buffer [of line "p\<lparr>sp_buffer := rest\<rparr>"] t by simp
    have t': "take_line line (p\<lparr>sp_buffer := rest @ extra\<rparr>) = (p1\<lparr>sp_buffer := rest @ extra\<rparr>, e1)"
      using take_line_buffer_update [where line = line and p = "p\<lparr>sp_buffer := rest\<rparr>" and b = "rest @ extra"] t by simp
    have left: "drain (p\<lparr>sp_buffer := sp_buffer p @ extra\<rparr>)
        = (case drain (p1\<lparr>sp_buffer := sp_buffer p1 @ extra\<rparr>) of (p2, e2) \<Rightarrow> (p2, e1 @ e2))"
      using next_line_append [of "sp_buffer p" line rest extra] Some lr t' b
      by (simp add: drain.simps [of "p\<lparr>sp_buffer := sp_buffer p @ extra\<rparr>"])
    have right: "drain p = (case drain p1 of (p2, e2) \<Rightarrow> (p2, e1 @ e2))"
      using Some lr t by (simp add: drain.simps [of p])
    show ?thesis
      unfolding left right
      using 1 [OF Some lr [symmetric] t [symmetric]] by (simp split: prod.split)
  qed
qed

text \<open>A drained buffer has no complete line.\<close>

lemma drain_stops: "next_line (sp_buffer (fst (drain p))) = None"
proof (induction p rule: drain.induct)
  case (1 p)
  show ?case
  proof (cases "next_line (sp_buffer p)")
    case None
    then have "drain p = (p, [])" by (simp add: drain.simps)
    with None show ?thesis by simp
  next
    case (Some lr)
    obtain line rest where lr: "lr = (line, rest)" by (cases lr)
    obtain p1 e1 where t: "take_line line (p\<lparr>sp_buffer := rest\<rparr>) = (p1, e1)" by fastforce
    have "drain p = (case drain p1 of (p2, e2) \<Rightarrow> (p2, e1 @ e2))"
      using Some lr t by (simp add: drain.simps [of p])
    then have "fst (drain p) = fst (drain p1)" by (simp add: case_prod_beta)
    then show ?thesis using 1 [OF Some lr [symmetric] t [symmetric]] by simp
  qed
qed

lemma drain_idle: "drain (fst (drain p)) = (fst (drain p), [])"
  using drain_stops [of p] by (simp add: drain.simps [of "fst (drain p)"])

lemma feed_feed:
  "feed (a @ b) p
   = (case feed a p of (p1, e1) \<Rightarrow> (case feed b p1 of (p2, e2) \<Rightarrow> (p2, e1 @ e2)))"
  using drain_append [of "p\<lparr>sp_buffer := sp_buffer p @ a\<rparr>" b] by (simp add: feed_def)

lemma feed_all_concat:
  "drain p = (p, []) \<Longrightarrow> feed_all chunks p = feed (concat chunks) p"
proof (induction chunks arbitrary: p)
  case Nil
  then show ?case by (simp add: feed_def)
next
  case (Cons c cs)
  have "drain (fst (feed c p)) = (fst (feed c p), [])"
    unfolding feed_def by (rule drain_idle)
  then show ?case
    using Cons.IH [of "fst (feed c p)"] by (simp add: feed_feed case_prod_beta)
qed

text \<open>
  C14. The events of a stream do not depend on where the network cut it: for every split into
  chunks, even inside a CR LF pair or a field name, a new parser returns the events and ends in the
  state of the whole stream fed at once; and what is left in the buffer holds no complete line.
\<close>

theorem chunks_do_not_matter:
  "feed_all chunks new_sse_parser = feed (concat chunks) new_sse_parser
   \<and> next_line (sp_buffer (fst (feed_all chunks new_sse_parser))) = None"
proof -
  have idle: "drain new_sse_parser = (new_sse_parser, [])"
    by (simp add: drain.simps new_sse_parser_def next_line_Nil)
  have eq: "feed_all chunks new_sse_parser = feed (concat chunks) new_sse_parser"
    by (rule feed_all_concat [OF idle])
  then show ?thesis by (simp add: feed_def drain_stops)
qed

text \<open>
  The event stream format removes one space after the colon; this parser removes all leading white
  space of a data line, so an indented line loses its indentation.
\<close>

lemma indentation_lost:
  "snd (feed (js ''data:   x'' @ [10, 10]) new_sse_parser)
   = [\<lparr>se_event = None, se_data = js ''x''\<rparr>]"
  by code_simp

end
