(* ===== verification/McpPrewarm.thy ===== *)
theory McpPrewarm
  imports JsText
begin

text \<open>
  Waiting for the MCP servers of a session before a turn: session-core/mcp-prewarm-policy.ts. The
  loop polls the runtime until every required server is connected, some have failed for good, the
  owner is replaced, the wait is cancelled, or the owner's absolute deadline has passed. What each
  round observes (the signal, the current owner, the clock, the answer of the runtime, the sleep)
  is a \<open>poll\<close> of the environment; the loop runs over a list of them, and None means that it is
  still waiting when the list ends.
\<close>

section \<open>Data\<close>

datatype mcp_status = Connected | Failed | NeedsAuth | Pending | Disabled

record server_status =
  ss_name :: jstr
  ss_status :: mcp_status
  ss_error :: "jstr option"

record server_detail =
  md_id :: jstr
  md_status :: "mcp_status option"
  md_error :: "jstr option"

datatype classification =
    AllReady
  | StillPending "server_detail list" "server_detail list"
  | AllDegraded "server_detail list"

datatype degraded_reason = TerminalStatus | TimedOut | StatusReadFailed

datatype prewarm_outcome =
    PrewarmReady int
  | PrewarmDegraded degraded_reason "server_detail list" int
  | OwnerReplaced "server_detail list" int

record prewarm_owner =
  po_identity :: nat
  po_generation :: int
  po_revision :: int
  po_fingerprint :: jstr
  po_required :: "jstr list"
  po_started_at :: int
  po_deadline_at :: int

definition snapshot_timeout_ms :: int where
  "snapshot_timeout_ms = 1000"

definition same_owner :: "prewarm_owner option \<Rightarrow> prewarm_owner \<Rightarrow> bool" where
  "same_owner left right \<longleftrightarrow>
     (case left of
        None \<Rightarrow> False
      | Some l \<Rightarrow> po_identity l = po_identity right \<and> po_generation l = po_generation right
          \<and> po_revision l = po_revision right \<and> po_fingerprint l = po_fingerprint right)"

section \<open>Classification\<close>

text \<open>\<open>new Map(statuses.map(s => [s.name, s]))\<close>: the last status of a name counts.\<close>

definition status_of :: "server_status list \<Rightarrow> jstr \<Rightarrow> server_status option" where
  "status_of statuses = map_of (rev (map (\<lambda>s. (ss_name s, s)) statuses))"

definition server_detail_of :: "jstr \<Rightarrow> server_status option \<Rightarrow> server_detail" where
  "server_detail_of i status =
     \<lparr>md_id = i, md_status = map_option ss_status status,
      md_error = (if truthy (Option.bind status ss_error) then Option.bind status ss_error else None)\<rparr>"

definition is_pending :: "server_status option \<Rightarrow> bool" where
  "is_pending status \<longleftrightarrow> status = None \<or> map_option ss_status status = Some Pending"

fun split_servers ::
    "server_status list \<Rightarrow> jstr list \<Rightarrow> server_detail list \<times> server_detail list" where
  "split_servers statuses [] = ([], [])"
| "split_servers statuses (i # ids) =
     (case split_servers statuses ids of
        (pending, degraded) \<Rightarrow>
          let status = status_of statuses i; detail = server_detail_of i status in
          if map_option ss_status status = Some Connected then (pending, degraded)
          else if is_pending status then (detail # pending, degraded)
          else (pending, detail # degraded))"

definition classify :: "jstr list \<Rightarrow> server_status list \<Rightarrow> classification" where
  "classify required statuses =
     (if required = [] then AllReady
      else case split_servers statuses required of
        (pending, degraded) \<Rightarrow>
          if pending \<noteq> [] then StillPending pending degraded
          else if degraded \<noteq> [] then AllDegraded degraded
          else AllReady)"

section \<open>Reading the statuses once\<close>

datatype js_error = ErrorObject jstr | OtherThrown "json option"

definition error_text :: "js_error \<Rightarrow> jstr" where
  "error_text e = (case e of ErrorObject msg \<Rightarrow> msg | OtherThrown v \<Rightarrow> js_String v)"

datatype read_result =
    Statuses "server_status list" | ReadError js_error | ReadCancelled | ReadTimeout

text \<open>
  What happens first while the runtime is asked: it answers, it fails, the signal aborts, or the
  timer of \<open>read_timeout\<close> runs out.
\<close>

datatype read_race = Answered "server_status list" | Threw js_error | Aborted | TimerFired

definition read_timeout :: "prewarm_owner \<Rightarrow> int \<Rightarrow> int" where
  "read_timeout owner now =
     (let remaining = po_deadline_at owner - now in
      if 0 < remaining then remaining else snapshot_timeout_ms)"

definition read_until :: "prewarm_owner \<Rightarrow> int \<Rightarrow> bool \<Rightarrow> bool \<Rightarrow> read_race \<Rightarrow> read_result" where
  "read_until owner now aborted allow_expired race =
     (if aborted then ReadCancelled
      else if po_deadline_at owner - now \<le> 0 \<and> \<not> allow_expired then ReadTimeout
      else case race of
          Answered statuses \<Rightarrow> Statuses statuses
        | Threw e \<Rightarrow> ReadError e
        | Aborted \<Rightarrow> ReadCancelled
        | TimerFired \<Rightarrow> ReadTimeout)"

section \<open>The loop\<close>

datatype sleep_event = Slept | SleepAborted | SleepFailed js_error

record poll =
  pl_aborted :: bool
  pl_owner :: "prewarm_owner option"
  pl_now :: int
  pl_read_aborted :: bool
  pl_read_now :: int
  pl_race :: read_race
  pl_owner_after :: "prewarm_owner option"
  pl_sleep_now :: int
  pl_sleep :: sleep_event
  pl_return_now :: int

datatype prewarm_error = WaitCancelled | SleepError js_error

definition elapsed_ms :: "prewarm_owner \<Rightarrow> int \<Rightarrow> int" where
  "elapsed_ms owner now = max 0 (now - po_started_at owner)"

definition poll_interval :: "int option \<Rightarrow> int" where
  "poll_interval poll_ms = max 200 (min 500 (case poll_ms of None \<Rightarrow> 250 | Some p \<Rightarrow> p))"

definition sleep_ms :: "prewarm_owner \<Rightarrow> int option \<Rightarrow> int \<Rightarrow> int" where
  "sleep_ms owner poll_ms now = min (poll_interval poll_ms) (max 0 (po_deadline_at owner - now))"

definition bare_detail :: "jstr \<Rightarrow> server_detail" where
  "bare_detail i = \<lparr>md_id = i, md_status = None, md_error = None\<rparr>"

text \<open>One pass through the loop: the answer, or the servers observed before the next pass.\<close>

definition poll_round ::
    "prewarm_owner \<Rightarrow> poll \<Rightarrow> bool \<Rightarrow> server_detail list
     \<Rightarrow> (prewarm_error + prewarm_outcome) + server_detail list" where
  "poll_round owner p has_read observed =
     (let elapsed = elapsed_ms owner (pl_return_now p);
          read = read_until owner (pl_read_now p) (pl_read_aborted p) (\<not> has_read) (pl_race p)
      in if pl_aborted p then Inl (Inl WaitCancelled)
         else if \<not> same_owner (pl_owner p) owner then Inl (Inr (OwnerReplaced observed elapsed))
         else if has_read \<and> po_deadline_at owner \<le> pl_now p then
           Inl (Inr (PrewarmDegraded TimedOut observed elapsed))
         else if read = ReadCancelled then Inl (Inl WaitCancelled)
         else if \<not> same_owner (pl_owner_after p) owner then
           Inl (Inr (OwnerReplaced observed elapsed))
         else case read of
             ReadCancelled \<Rightarrow> Inl (Inl WaitCancelled)
           | ReadTimeout \<Rightarrow> Inl (Inr (PrewarmDegraded TimedOut observed elapsed))
           | ReadError e \<Rightarrow>
               Inl (Inr (PrewarmDegraded StatusReadFailed
                 (map (\<lambda>i. (bare_detail i)\<lparr>md_error := Some (error_text e)\<rparr>) (po_required owner))
                 elapsed))
           | Statuses statuses \<Rightarrow>
               (case classify (po_required owner) statuses of
                  AllReady \<Rightarrow> Inl (Inr (PrewarmReady elapsed))
                | AllDegraded servers \<Rightarrow> Inl (Inr (PrewarmDegraded TerminalStatus servers elapsed))
                | StillPending pending degraded \<Rightarrow>
                    (case pl_sleep p of
                       SleepAborted \<Rightarrow> Inl (Inl WaitCancelled)
                     | SleepFailed e \<Rightarrow> Inl (Inl (SleepError e))
                     | Slept \<Rightarrow> Inr (degraded @ pending))))"

fun await_loop ::
    "prewarm_owner \<Rightarrow> poll list \<Rightarrow> bool \<Rightarrow> server_detail list
     \<Rightarrow> (prewarm_error + prewarm_outcome) option" where
  "await_loop owner [] has_read observed = None"
| "await_loop owner (p # ps) has_read observed =
     (case poll_round owner p has_read observed of
        Inl r \<Rightarrow> Some r
      | Inr observed' \<Rightarrow> await_loop owner ps True observed')"

definition await_prewarm ::
    "prewarm_owner \<Rightarrow> int \<Rightarrow> poll list \<Rightarrow> (prewarm_error + prewarm_outcome) option" where
  "await_prewarm owner now polls =
     (if po_required owner = [] then Some (Inr (PrewarmReady (elapsed_ms owner now)))
      else await_loop owner polls False (map bare_detail (po_required owner)))"

section \<open>Formatting\<close>

definition status_name :: "mcp_status \<Rightarrow> jstr" where
  "status_name s =
     (case s of
        Connected \<Rightarrow> js ''connected'' | Failed \<Rightarrow> js ''failed'' | NeedsAuth \<Rightarrow> js ''needs-auth''
      | Pending \<Rightarrow> js ''pending'' | Disabled \<Rightarrow> js ''disabled'')"

definition format_server :: "server_detail \<Rightarrow> jstr" where
  "format_server d =
     md_id d @
     (case md_status d of
        None \<Rightarrow> js ''(missing)'' | Some s \<Rightarrow> js ''('' @ status_name s @ js '')'') @
     (if truthy (md_error d) then js '':'' @ the (md_error d) else [])"

definition format_servers :: "server_detail list \<Rightarrow> jstr" where
  "format_servers servers =
     (let out = join_with (js '','') (map format_server servers) in
      if out = [] then js ''(none)'' else out)"

section \<open>Classification is exact\<close>

lemma split_servers_ids:
  "map md_id (fst (split_servers statuses ids)) = filter (\<lambda>i. is_pending (status_of statuses i)) ids"
  "map md_id (snd (split_servers statuses ids)) = filter (\<lambda>i. \<not> is_pending (status_of statuses i)
     \<and> map_option ss_status (status_of statuses i) \<noteq> Some Connected) ids"
  by (induction ids) (auto simp: server_detail_of_def is_pending_def case_prod_beta Let_def)

text \<open>
  The classification is exact: the servers are ready when every required one is connected,
  a server that is missing or pending keeps the wait open, and the wait ends degraded only when
  every server that is not connected has a final status. Each required server is in one list.
\<close>

theorem classification_exact:
  "(classify required statuses = AllReady
      \<longleftrightarrow> list_all (\<lambda>i. map_option ss_status (status_of statuses i) = Some Connected) required)
   \<and> (case classify required statuses of
        StillPending pending degraded \<Rightarrow>
          pending \<noteq> []
          \<and> map md_id pending = filter (\<lambda>i. is_pending (status_of statuses i)) required
          \<and> map md_id degraded = filter (\<lambda>i. \<not> is_pending (status_of statuses i)
              \<and> map_option ss_status (status_of statuses i) \<noteq> Some Connected) required
      | AllDegraded degraded \<Rightarrow>
          filter (\<lambda>i. is_pending (status_of statuses i)) required = []
          \<and> degraded \<noteq> []
          \<and> map md_id degraded = filter (\<lambda>i.
              map_option ss_status (status_of statuses i) \<noteq> Some Connected) required
      | AllReady \<Rightarrow> True)"
proof -
  obtain ps ds where split: "split_servers statuses required = (ps, ds)" by fastforce
  have ids: "map md_id ps = filter (\<lambda>i. is_pending (status_of statuses i)) required"
    "map md_id ds = filter (\<lambda>i. \<not> is_pending (status_of statuses i)
      \<and> map_option ss_status (status_of statuses i) \<noteq> Some Connected) required"
    using split_servers_ids [of statuses required] split by simp_all
  have none: "ps = [] \<longleftrightarrow> filter (\<lambda>i. is_pending (status_of statuses i)) required = []"
    "ds = [] \<longleftrightarrow> filter (\<lambda>i. \<not> is_pending (status_of statuses i)
      \<and> map_option ss_status (status_of statuses i) \<noteq> Some Connected) required = []"
    unfolding ids [symmetric] by simp_all
  have connected: "\<not> is_pending st" if "map_option ss_status st = Some Connected" for st
    using that by (auto simp: is_pending_def)
  have ready: "ps = [] \<and> ds = []
      \<longleftrightarrow> list_all (\<lambda>i. map_option ss_status (status_of statuses i) = Some Connected) required"
    unfolding none using connected by (auto simp: filter_empty_conv list_all_iff)
  have degraded: "map md_id ds = filter (\<lambda>i.
      map_option ss_status (status_of statuses i) \<noteq> Some Connected) required" if "ps = []"
    unfolding ids(2) using that none(1) by (intro filter_cong) (auto simp: filter_empty_conv)
  show ?thesis
    using split ids none ready degraded by (auto simp: classify_def)
qed

section \<open>One round\<close>

definition all_connected :: "prewarm_owner \<Rightarrow> poll \<Rightarrow> bool" where
  "all_connected owner p \<longleftrightarrow>
     (case pl_race p of
        Answered statuses \<Rightarrow> classify (po_required owner) statuses = AllReady
      | _ \<Rightarrow> False)"

definition cancels :: "poll \<Rightarrow> bool" where
  "cancels p \<longleftrightarrow> pl_aborted p \<or> pl_read_aborted p \<or> pl_race p = Aborted \<or> pl_sleep p \<noteq> Slept"

definition justified :: "prewarm_owner \<Rightarrow> poll \<Rightarrow> prewarm_error + prewarm_outcome \<Rightarrow> bool" where
  "justified owner p r =
     (case r of
        Inl _ \<Rightarrow> cancels p
      | Inr (PrewarmReady _) \<Rightarrow> all_connected owner p
      | Inr _ \<Rightarrow> True)"

lemma read_cases:
  "read_until owner now aborted allow race = ReadCancelled \<Longrightarrow> aborted \<or> race = Aborted"
  "read_until owner now aborted allow race = Statuses statuses \<Longrightarrow> race = Answered statuses"
  by (auto simp: read_until_def split: if_splits read_race.splits)

text \<open>A round answers only for a reason it observed.\<close>

lemma round_justified: "poll_round owner p has_read observed = Inl r \<Longrightarrow> justified owner p r"
  using read_cases [of owner "pl_read_now p" "pl_read_aborted p" "\<not> has_read" "pl_race p"]
  by (auto simp: poll_round_def justified_def cancels_def all_connected_def Let_def
      split: if_splits read_result.splits classification.splits sleep_event.splits)

lemma past_deadline:
  "po_deadline_at owner \<le> pl_now p \<Longrightarrow> await_loop owner (p # ps) True observed \<noteq> None"
  by (simp add: poll_round_def Let_def)

section \<open>The wait ends\<close>

text \<open>
  An environment with an honest clock: a round does not start before the sleep of the round before
  it is over, and time does not run backwards within a round.
\<close>

fun honest :: "prewarm_owner \<Rightarrow> int option \<Rightarrow> poll list \<Rightarrow> bool" where
  "honest owner poll_ms (p # q # ps) =
     (pl_now p \<le> pl_sleep_now p
      \<and> pl_sleep_now p + sleep_ms owner poll_ms (pl_sleep_now p) \<le> pl_now q
      \<and> honest owner poll_ms (q # ps))"
| "honest owner poll_ms _ = True"

lemma sleep_bounds:
  "0 \<le> sleep_ms owner poll_ms now" "sleep_ms owner poll_ms now \<le> 500"
  "now + sleep_ms owner poll_ms now \<le> max now (po_deadline_at owner)"
  "min (now + 200) (po_deadline_at owner) \<le> now + sleep_ms owner poll_ms now"
  by (auto simp: sleep_ms_def poll_interval_def)

lemma await_ends:
  assumes "honest owner poll_ms (p # ps)"
    and "po_deadline_at owner - pl_now p \<le> 200 * int (length ps)"
  shows "await_loop owner (p # ps) True observed \<noteq> None"
  using assms
proof (induction ps arbitrary: p observed)
  case Nil
  then show ?case using past_deadline by simp
next
  case (Cons q qs)
  show ?case
  proof (cases "po_deadline_at owner \<le> pl_now p")
    case True
    then show ?thesis by (rule past_deadline)
  next
    case False
    have clock: "pl_now p \<le> pl_sleep_now p"
      "pl_sleep_now p + sleep_ms owner poll_ms (pl_sleep_now p) \<le> pl_now q"
      using Cons.prems(1) by simp_all
    with sleep_bounds(4) [of "pl_sleep_now p" owner poll_ms]
    have "min (pl_now p + 200) (po_deadline_at owner) \<le> pl_now q" by linarith
    then have "po_deadline_at owner - pl_now q \<le> 200 * int (length qs)"
      using Cons.prems(2) by simp
    then have "await_loop owner (q # qs) True o' \<noteq> None" for o'
      using Cons.IH Cons.prems(1) by simp
    then show ?thesis by (simp del: await_loop.simps(2) add: await_loop.simps(2) [of owner p] split: sum.split)
  qed
qed

text \<open>
  The wait is bounded by the owner's absolute deadline: with an honest clock, a session that
  has \<open>d\<close> milliseconds left after its first reading gets an answer within \<open>d / 200\<close> further
  rounds and one more, whatever the servers do; and no sleep runs past the deadline.
\<close>

theorem wait_is_bounded:
  assumes "honest owner poll_ms (p # ps)" and "ps \<noteq> []"
    and "po_deadline_at owner - pl_sleep_now p \<le> 200 * int (length ps)"
  shows "await_prewarm owner now (p # ps) \<noteq> None
    \<and> t + sleep_ms owner poll_ms t \<le> max t (po_deadline_at owner)"
proof -
  obtain q qs where ps: "ps = q # qs" using assms(2) by (cases ps) simp
  have "pl_sleep_now p + sleep_ms owner poll_ms (pl_sleep_now p) \<le> pl_now q"
    using assms(1) ps by simp
  with sleep_bounds(4) [of "pl_sleep_now p" owner poll_ms]
  have "min (pl_sleep_now p + 200) (po_deadline_at owner) \<le> pl_now q" by linarith
  then have "po_deadline_at owner - pl_now q \<le> 200 * int (length qs)"
    using assms(3) ps by simp
  then have "await_loop owner (q # qs) True o' \<noteq> None" for o'
    using assms(1) ps by (intro await_ends [of owner poll_ms]) simp_all
  then have "await_loop owner (p # ps) False o' \<noteq> None" for o'
    unfolding ps
    by (simp del: await_loop.simps(2) add: await_loop.simps(2) [of owner p] split: sum.split)
  then show ?thesis by (simp add: await_prewarm_def sleep_bounds(3))
qed

text \<open>An owner with a second left, and three rounds in which its server stays pending.\<close>

definition sample_owner :: prewarm_owner where
  "sample_owner =
     \<lparr>po_identity = 1, po_generation = 1, po_revision = 1, po_fingerprint = [],
      po_required = [js ''m''], po_started_at = 0, po_deadline_at = 400\<rparr>"

definition sample_poll :: "int \<Rightarrow> poll" where
  "sample_poll t =
     \<lparr>pl_aborted = False, pl_owner = Some sample_owner, pl_now = t, pl_read_aborted = False,
      pl_read_now = t, pl_race = Answered [], pl_owner_after = Some sample_owner, pl_sleep_now = t,
      pl_sleep = Slept, pl_return_now = t\<rparr>"

lemma wait_is_bounded_witness:
  "await_prewarm sample_owner 0 [sample_poll 0, sample_poll 250, sample_poll 400] \<noteq> None"
  using wait_is_bounded [of sample_owner None "sample_poll 0" "[sample_poll 250, sample_poll 400]"]
  by (simp add: sample_poll_def sample_owner_def sleep_ms_def poll_interval_def)

section \<open>What the outcomes mean\<close>

lemma await_loop_sound:
  "await_loop owner polls has_read observed = Some r \<Longrightarrow> list_ex (\<lambda>p. justified owner p r) polls"
proof (induction polls arbitrary: has_read observed)
  case (Cons p ps)
  then show ?case
    using round_justified [of owner p has_read observed]
    by (auto split: sum.splits)
qed simp

text \<open>
  MCP trouble never rejects a turn: the wait fails only when it was cancelled (or its own timer
  failed), and it says ready only when the runtime reported every required server connected.
\<close>

theorem prewarm_never_rejects:
  "case await_prewarm owner now polls of
     Some (Inl e) \<Rightarrow> list_ex cancels polls
   | Some (Inr (PrewarmReady t)) \<Rightarrow> po_required owner = [] \<or> list_ex (all_connected owner) polls
   | _ \<Rightarrow> True"
proof (cases "await_prewarm owner now polls")
  case (Some r)
  show ?thesis
  proof (cases "po_required owner = []")
    case True
    then show ?thesis by (simp add: await_prewarm_def)
  next
    case False
    then have "list_ex (\<lambda>p. justified owner p r) polls"
      using await_loop_sound Some by (simp add: await_prewarm_def)
    then show ?thesis
      using Some
      by (cases r) (auto simp: justified_def list_ex_iff split: prewarm_outcome.split)
  qed
qed simp

end
