(* ===== verification/ImRequestRegistry.thy ===== *)
theory ImRequestRegistry
  imports JsValue
begin

text \<open>
  The registry of in-flight IM requests: server/utils/im-request-registry.ts, with the event type of
  im-event-bus.ts whose terminals it retains. Every call reads the clock once here, as the argument
  \<open>now\<close>. An \<open>AbortController\<close> is a fresh number, and a log holds the signals that
  were fired with their reasons, because firing a signal is what other code sees of a cancellation.
\<close>

section \<open>Events\<close>

datatype im_event_type =
    Delivery_Policy | Delta | Block_End | Im_Complete | Im_Error | Permission_Request
  | Ask_User_Question_Request | Ask_User_Question_Expired | Activity | Im_Cancelled | Gap

record gap_data =
  gd_from :: nat
  gd_to :: nat
  gd_reason :: "jstr option"
  gd_requests :: "jstr list option"

text \<open>The payload of a producer, or the data of the gap that the bus itself reports.\<close>

datatype event_data = Payload "json option" | Gap_Range gap_data

record bus_event =
  ev_seq :: nat
  ev_request :: "jstr option"
  ev_type :: im_event_type
  ev_data :: event_data
  ev_ts :: int
  ev_mode :: "jstr option"

section \<open>Entries\<close>

datatype im_status = Im_Queued | Im_Running | Im_Completed | Im_Failed | Im_Status_Cancelled

datatype cancel_owner = Admission_Route | Runtime

record im_entry =
  ie_request :: jstr
  ie_session :: "jstr option"
  ie_source :: "jstr option"
  ie_signal :: nat
  ie_owner :: cancel_owner
  ie_context :: "json option"
  ie_inbound :: "json option"
  ie_mode :: "jstr option"
  ie_status :: im_status
  ie_created :: int
  ie_updated :: int

datatype cancel_claim = Claimed cancel_owner | Already_Claimed cancel_owner

datatype im_outcome = Terminal bus_event | Active | Unknown

record im_registry =
  rg_entries :: "(jstr \<times> im_entry) list"
  rg_terminals :: "(jstr \<times> bus_event) list"
  rg_next_signal :: nat
  rg_fired :: "(nat \<times> jstr) list"

definition new_registry :: im_registry where
  "new_registry = \<lparr>rg_entries = [], rg_terminals = [], rg_next_signal = 0, rg_fired = []\<rparr>"

definition max_registry_size :: nat where
  "max_registry_size = 200"

definition stale_ms :: int where
  "stale_ms = 6 * 60 * 60 * 1000"

section \<open>Operations\<close>

text \<open>\<open>delete(keys().next().value)\<close> while there are too many.\<close>

fun evict_oldest :: "(jstr \<times> bus_event) list \<Rightarrow> (jstr \<times> bus_event) list" where
  "evict_oldest [] = []"
| "evict_oldest (x # xs) =
     (if max_registry_size < length (x # xs) then evict_oldest xs else x # xs)"

definition retain_terminal :: "bus_event \<Rightarrow> im_registry \<Rightarrow> im_registry" where
  "retain_terminal ev r =
     (case ev_request ev of
        None \<Rightarrow> r
      | Some k \<Rightarrow>
          if k = [] \<or> map_has k (rg_terminals r) then r
          else r\<lparr>rg_terminals := evict_oldest (map_set k ev (rg_terminals r))\<rparr>)"

definition im_outcome :: "int \<Rightarrow> jstr \<Rightarrow> im_registry \<Rightarrow> im_registry \<times> im_outcome" where
  "im_outcome now k r =
     (case map_of (rg_terminals r) k of
        Some ev \<Rightarrow>
          if now - ev_ts ev \<le> stale_ms then (r, Terminal ev)
          else (r\<lparr>rg_terminals := map_del k (rg_terminals r)\<rparr>,
                if map_has k (rg_entries r) then Active else Unknown)
      | None \<Rightarrow> (r, if map_has k (rg_entries r) then Active else Unknown))"

definition acknowledge_terminal :: "jstr \<Rightarrow> im_registry \<Rightarrow> im_registry" where
  "acknowledge_terminal k r = r\<lparr>rg_terminals := map_del k (rg_terminals r)\<rparr>"

definition is_stale :: "int \<Rightarrow> int \<Rightarrow> im_entry \<Rightarrow> bool" where
  "is_stale now max_age e \<longleftrightarrow>
     (ie_status e = Im_Completed \<or> ie_status e = Im_Failed) \<and> max_age < now - ie_updated e"

definition prune_stale :: "int \<Rightarrow> int \<Rightarrow> im_registry \<Rightarrow> im_registry \<times> nat" where
  "prune_stale now max_age r =
     (let (stale, kept) = partition (\<lambda>(k, e). is_stale now max_age e) (rg_entries r)
      in (r\<lparr>rg_entries := kept\<rparr>, length stale))"

definition new_entry :: "int \<Rightarrow> jstr \<Rightarrow> jstr option \<Rightarrow> jstr option \<Rightarrow> nat \<Rightarrow> im_entry" where
  "new_entry now k session source signal =
     \<lparr>ie_request = k, ie_session = session, ie_source = source, ie_signal = signal,
      ie_owner = Admission_Route, ie_context = None, ie_inbound = None, ie_mode = None,
      ie_status = Im_Queued, ie_created = now, ie_updated = now\<rparr>"

definition register_request ::
    "int \<Rightarrow> jstr \<Rightarrow> jstr option \<Rightarrow> jstr option \<Rightarrow> im_registry \<Rightarrow> im_registry \<times> im_entry" where
  "register_request now k session source r =
     (case map_of (rg_entries r) k of
        Some e \<Rightarrow> (r, e)
      | None \<Rightarrow>
          (let e = new_entry now k session source (rg_next_signal r);
               r1 = r\<lparr>rg_entries := map_set k e (rg_entries r), rg_next_signal := Suc (rg_next_signal r)\<rparr>
           in (if max_registry_size < length (rg_entries r1) then fst (prune_stale now stale_ms r1) else r1, e)))"

text \<open>The updates that do nothing when the entry is gone.\<close>

definition change_entry :: "jstr \<Rightarrow> (im_entry \<Rightarrow> im_entry) \<Rightarrow> im_registry \<Rightarrow> im_registry" where
  "change_entry k f r =
     (case map_of (rg_entries r) k of
        None \<Rightarrow> r
      | Some e \<Rightarrow> r\<lparr>rg_entries := map_set k (f e) (rg_entries r)\<rparr>)"

definition set_status :: "int \<Rightarrow> jstr \<Rightarrow> im_status \<Rightarrow> im_registry \<Rightarrow> im_registry" where
  "set_status now k status = change_entry k (\<lambda>e. e\<lparr>ie_status := status, ie_updated := now\<rparr>)"

definition set_turn_context :: "int \<Rightarrow> jstr \<Rightarrow> json option \<Rightarrow> im_registry \<Rightarrow> im_registry" where
  "set_turn_context now k c = change_entry k (\<lambda>e. e\<lparr>ie_context := c, ie_updated := now\<rparr>)"

definition transfer_to_runtime :: "int \<Rightarrow> jstr \<Rightarrow> im_registry \<Rightarrow> im_registry" where
  "transfer_to_runtime now k =
     change_entry k (\<lambda>e. e\<lparr>ie_owner := Runtime, ie_status := Im_Running, ie_updated := now\<rparr>)"

definition signal_fired :: "nat \<Rightarrow> im_registry \<Rightarrow> bool" where
  "signal_fired n r \<longleftrightarrow> map_has n (rg_fired r)"

definition claim_cancellation ::
    "int \<Rightarrow> jstr \<Rightarrow> jstr \<Rightarrow> im_registry \<Rightarrow> im_registry \<times> cancel_claim option" where
  "claim_cancellation now k reason r =
     (case map_of (rg_entries r) k of
        None \<Rightarrow> (r, None)
      | Some e \<Rightarrow>
          if signal_fired (ie_signal e) r then (r, Some (Already_Claimed (ie_owner e)))
          else (set_status now k Im_Status_Cancelled
                  (r\<lparr>rg_fired := rg_fired r @ [(ie_signal e, reason)]\<rparr>),
                Some (Claimed (ie_owner e))))"

definition unregister_request :: "jstr \<Rightarrow> im_registry \<Rightarrow> im_registry" where
  "unregister_request k r = r\<lparr>rg_entries := map_del k (rg_entries r)\<rparr>"

definition abort_entry :: "im_entry \<Rightarrow> im_registry \<Rightarrow> im_registry" where
  "abort_entry e r =
     (if signal_fired (ie_signal e) r then r
      else r\<lparr>rg_fired := rg_fired r @ [(ie_signal e, js ''session-reset'')]\<rparr>)"

definition clear_registry :: "im_registry \<Rightarrow> im_registry" where
  "clear_registry r =
     (fold abort_entry (map snd (rg_entries r)) r)\<lparr>rg_entries := [], rg_terminals := []\<rparr>"

section \<open>Histories\<close>

text \<open>
  The calls of the registry, and two writes of the enqueue route to an entry's own fields
  (\<open>channelInbound\<close> and \<open>channelDeliveryMode\<close>).
\<close>

datatype registry_call =
    Register int jstr "jstr option" "jstr option" | Retain bus_event | Outcome int jstr
  | Acknowledge jstr | SetStatus int jstr im_status | SetContext int jstr "json option"
  | Transfer int jstr | Claim int jstr jstr | Unregister jstr | Prune int int
  | SetInbound jstr "json option" "jstr option" | Clear

fun call_registry :: "registry_call \<Rightarrow> im_registry \<Rightarrow> im_registry" where
  "call_registry (Register now k s src) r = fst (register_request now k s src r)"
| "call_registry (Retain ev) r = retain_terminal ev r"
| "call_registry (Outcome now k) r = fst (im_outcome now k r)"
| "call_registry (Acknowledge k) r = acknowledge_terminal k r"
| "call_registry (SetStatus now k s) r = set_status now k s r"
| "call_registry (SetContext now k c) r = set_turn_context now k c r"
| "call_registry (Transfer now k) r = transfer_to_runtime now k r"
| "call_registry (Claim now k reason) r = fst (claim_cancellation now k reason r)"
| "call_registry (Unregister k) r = unregister_request k r"
| "call_registry (Prune now age) r = fst (prune_stale now age r)"
| "call_registry (SetInbound k i m) r = change_entry k (\<lambda>e. e\<lparr>ie_inbound := i, ie_mode := m\<rparr>) r"
| "call_registry Clear r = clear_registry r"

text \<open>
  Entries and terminals are found under their own request, every entry has a signal of its own, and
  a signal is fired at most once.
\<close>

definition entries_ok :: "nat \<Rightarrow> (jstr \<times> im_entry) list \<Rightarrow> bool" where
  "entries_ok n es \<longleftrightarrow>
     distinct (map_keys es) \<and> distinct (map (\<lambda>p. ie_signal (snd p)) es)
     \<and> list_all (\<lambda>(k, e). ie_request e = k \<and> ie_signal e < n) es"

definition terminals_ok :: "(jstr \<times> bus_event) list \<Rightarrow> bool" where
  "terminals_ok ts \<longleftrightarrow>
     distinct (map_keys ts) \<and> length ts \<le> max_registry_size
     \<and> list_all (\<lambda>(k, ev). ev_request ev = Some k \<and> k \<noteq> []) ts"

definition fired_ok :: "nat \<Rightarrow> (nat \<times> jstr) list \<Rightarrow> bool" where
  "fired_ok n fs \<longleftrightarrow> distinct (map_keys fs) \<and> list_all (\<lambda>(m, reason). m < n) fs"

definition registry_ok :: "im_registry \<Rightarrow> bool" where
  "registry_ok r \<longleftrightarrow>
     entries_ok (rg_next_signal r) (rg_entries r) \<and> terminals_ok (rg_terminals r)
     \<and> fired_ok (rg_next_signal r) (rg_fired r)"

section \<open>The registry stays well-formed\<close>

lemma map_del_filter: "map_del k m = filter (\<lambda>p. fst p \<noteq> k) m"
  by (induction m) (auto simp: AList.delete_eq)

lemma evict_oldest_drop: "evict_oldest xs = drop (length xs - max_registry_size) xs"
  by (induction xs) (auto simp: Suc_diff_le not_less)

lemma entries_ok_filter: "entries_ok n es \<Longrightarrow> entries_ok n (filter P es)"
  by (auto simp: entries_ok_def distinct_map_filter list_all_iff)

lemma entries_ok_more: "entries_ok n es \<Longrightarrow> n \<le> m \<Longrightarrow> entries_ok m es"
  by (auto simp: entries_ok_def list_all_iff)

lemma entries_ok_new:
  "entries_ok n es \<Longrightarrow> map_of es k = None \<Longrightarrow> ie_request e = k \<Longrightarrow> ie_signal e = n \<Longrightarrow>
   entries_ok (Suc n) (map_set k e es)"
  by (auto simp: entries_ok_def map_set_new list_all_iff map_of_eq_None_iff less_Suc_eq)

lemma entries_ok_change:
  assumes ok: "entries_ok n es" and e: "map_of es k = Some e"
    and same: "ie_request e' = ie_request e" "ie_signal e' = ie_signal e"
  shows "entries_ok n (map_set k e' es)"
proof -
  let ?shape = "map (\<lambda>p. (fst p, ie_request (snd p), ie_signal (snd p)))"
  have shape: "entries_ok n xs \<longleftrightarrow>
      distinct (map fst (?shape xs)) \<and> distinct (map (\<lambda>q. snd (snd q)) (?shape xs))
      \<and> list_all (\<lambda>(k, a, b). a = k \<and> b < n) (?shape xs)" for xs
    by (simp add: entries_ok_def o_def list_all_iff case_prod_beta)
  have "?shape (map_set k e' es) = ?shape es"
    using e by (induction es) (auto simp: same split: if_splits)
  then show ?thesis using ok unfolding shape by simp
qed

lemma terminals_ok_filter: "terminals_ok ts \<Longrightarrow> terminals_ok (filter P ts)"
  by (auto simp: terminals_ok_def distinct_map_filter list_all_iff
      intro: order_trans [OF length_filter_le])

lemma terminals_ok_new:
  assumes "terminals_ok ts" and "\<not> map_has k ts" and "ev_request ev = Some k" and "k \<noteq> []"
  shows "terminals_ok (evict_oldest (map_set k ev ts))"
proof -
  let ?all = "ts @ [(k, ev)]" and ?P = "\<lambda>(k, ev). ev_request ev = Some k \<and> k \<noteq> []"
  have d: "distinct (map_keys ?all)" "list_all ?P ?all"
    using assms by (auto simp: terminals_ok_def map_has_iff)
  have "distinct (map_keys (drop i ?all))" for i
    using distinct_drop [OF d(1), of i] by (simp only: drop_map)
  moreover have "list_all ?P (drop i ?all)" for i
    using d(2) set_drop_subset [of i ?all] by (auto simp: list_all_iff simp del: drop_append)
  moreover have "length (evict_oldest ?all) \<le> max_registry_size"
    unfolding evict_oldest_drop by simp
  ultimately have "terminals_ok (evict_oldest ?all)"
    unfolding terminals_ok_def evict_oldest_drop by blast
  then show ?thesis using assms(2) by (simp add: map_has_def map_set_new)
qed

lemma fired_ok_new: "fired_ok n fs \<Longrightarrow> m < n \<Longrightarrow> \<not> map_has m fs \<Longrightarrow> fired_ok n (fs @ [(m, reason)])"
  by (auto simp: fired_ok_def list_all_iff map_has_iff)

lemma fired_ok_more: "fired_ok n fs \<Longrightarrow> n \<le> m \<Longrightarrow> fired_ok m fs"
  by (auto simp: fired_ok_def list_all_iff)

lemma entry_signal: "entries_ok n es \<Longrightarrow> map_of es k = Some e \<Longrightarrow> ie_signal e < n"
  by (auto simp: entries_ok_def list_all_iff dest!: map_of_SomeD)

lemma change_entry_parts:
  "rg_terminals (change_entry k f r) = rg_terminals r"
  "rg_next_signal (change_entry k f r) = rg_next_signal r"
  "rg_fired (change_entry k f r) = rg_fired r"
  by (simp_all add: change_entry_def split: option.split)

lemma change_entry_ok:
  assumes "registry_ok r" and "\<And>e. ie_request (f e) = ie_request e" "\<And>e. ie_signal (f e) = ie_signal e"
  shows "registry_ok (change_entry k f r)"
  using assms entries_ok_change [of "rg_next_signal r" "rg_entries r" k]
  by (auto simp: registry_ok_def change_entry_def split: option.split)

lemma prune_entries: "rg_entries (fst (prune_stale now age r)) = filter (\<lambda>p. \<not> is_stale now age (snd p)) (rg_entries r)"
  by (simp add: prune_stale_def case_prod_beta o_def)

lemma prune_parts:
  "rg_terminals (fst (prune_stale now age r)) = rg_terminals r"
  "rg_next_signal (fst (prune_stale now age r)) = rg_next_signal r"
  "rg_fired (fst (prune_stale now age r)) = rg_fired r"
  by (simp_all add: prune_stale_def case_prod_beta)

lemma prune_ok: "registry_ok r \<Longrightarrow> registry_ok (fst (prune_stale now age r))"
  by (simp add: registry_ok_def prune_parts prune_entries entries_ok_filter)

lemma register_request_ok: "registry_ok r \<Longrightarrow> registry_ok (fst (register_request now k s src r))"
proof (cases "map_of (rg_entries r) k")
  case None
  let ?e = "new_entry now k s src (rg_next_signal r)"
  let ?r = "r\<lparr>rg_entries := map_set k ?e (rg_entries r), rg_next_signal := Suc (rg_next_signal r)\<rparr>"
  assume "registry_ok r"
  then have "registry_ok ?r"
    using None entries_ok_new [of "rg_next_signal r" "rg_entries r" k ?e]
    using fired_ok_more [of "rg_next_signal r" "rg_fired r" "Suc (rg_next_signal r)"]
    by (simp add: registry_ok_def new_entry_def)
  then show ?thesis using None by (simp add: register_request_def Let_def prune_ok)
qed (simp add: register_request_def)

lemma claim_ok: "registry_ok r \<Longrightarrow> registry_ok (fst (claim_cancellation now k reason r))"
proof (cases "map_of (rg_entries r) k")
  case (Some e)
  assume ok: "registry_ok r"
  then have "ie_signal e < rg_next_signal r" using entry_signal Some by (auto simp: registry_ok_def)
  then have "\<not> signal_fired (ie_signal e) r \<Longrightarrow>
      registry_ok (r\<lparr>rg_fired := rg_fired r @ [(ie_signal e, reason)]\<rparr>)"
    using ok by (simp add: registry_ok_def signal_fired_def fired_ok_new)
  then show ?thesis
    using ok Some by (simp add: claim_cancellation_def set_status_def change_entry_ok)
qed (simp add: claim_cancellation_def)

lemma abort_next: "rg_next_signal (abort_entry e r) = rg_next_signal r"
  by (simp add: abort_entry_def)

lemma abort_parts:
  "rg_terminals (fold abort_entry es r) = rg_terminals r"
  "rg_next_signal (fold abort_entry es r) = rg_next_signal r"
  "rg_entries (fold abort_entry es r) = rg_entries r"
  by (induction es arbitrary: r) (simp_all add: abort_entry_def)

lemma abort_fold_ok:
  "fired_ok (rg_next_signal r) (rg_fired r) \<Longrightarrow> list_all (\<lambda>e. ie_signal e < rg_next_signal r) es \<Longrightarrow>
   fired_ok (rg_next_signal r) (rg_fired (fold abort_entry es r))"
proof (induction es arbitrary: r)
  case (Cons e es)
  then have "fired_ok (rg_next_signal (abort_entry e r)) (rg_fired (abort_entry e r))"
    by (simp add: abort_entry_def signal_fired_def fired_ok_new)
  then show ?case using Cons.IH [of "abort_entry e r"] Cons.prems by (simp add: abort_next)
qed simp

lemma clear_ok: "registry_ok r \<Longrightarrow> registry_ok (clear_registry r)"
proof -
  assume ok: "registry_ok r"
  then have "list_all (\<lambda>e. ie_signal e < rg_next_signal r) (map snd (rg_entries r))"
    by (auto simp: registry_ok_def entries_ok_def list_all_iff)
  then show ?thesis
    using ok abort_fold_ok [of r "map snd (rg_entries r)"]
    by (simp add: registry_ok_def clear_registry_def abort_parts entries_ok_def terminals_ok_def)
qed

lemma retain_ok: "registry_ok r \<Longrightarrow> registry_ok (retain_terminal ev r)"
  by (simp add: registry_ok_def retain_terminal_def terminals_ok_new split: option.split)

lemma terminals_filtered: "registry_ok r \<Longrightarrow> registry_ok (r\<lparr>rg_terminals := map_del k (rg_terminals r)\<rparr>)"
  by (simp add: registry_ok_def map_del_filter terminals_ok_filter)

lemma entries_filtered: "registry_ok r \<Longrightarrow> registry_ok (r\<lparr>rg_entries := map_del k (rg_entries r)\<rparr>)"
  by (simp add: registry_ok_def map_del_filter entries_ok_filter)

lemma outcome_ok: "registry_ok r \<Longrightarrow> registry_ok (fst (im_outcome now k r))"
  by (simp add: im_outcome_def terminals_filtered split: option.split)

lemma call_ok: "registry_ok r \<Longrightarrow> registry_ok (call_registry c r)"
  by (cases c) (simp_all add: register_request_ok retain_ok acknowledge_terminal_def unregister_request_def
    set_status_def set_turn_context_def transfer_to_runtime_def change_entry_ok claim_ok prune_ok clear_ok
    terminals_filtered entries_filtered outcome_ok)

lemma new_registry_ok: "registry_ok new_registry"
  by (simp add: new_registry_def registry_ok_def entries_ok_def terminals_ok_def fired_ok_def)

lemma run_ok: "registry_ok r \<Longrightarrow> registry_ok (fold call_registry cs r)"
  by (induction cs arbitrary: r) (simp_all add: call_ok)

section \<open>Cancelling once\<close>

lemma fired_change_entry: "signal_fired n (change_entry k f r) = signal_fired n r"
  by (simp add: signal_fired_def change_entry_parts)

lemma fired_abort: "signal_fired n r \<Longrightarrow> signal_fired n (fold abort_entry es r)"
  by (induction es arbitrary: r) (auto simp: abort_entry_def signal_fired_def map_has_iff)

lemma fired_register: "signal_fired n (fst (register_request now k s src r)) = signal_fired n r"
  by (simp add: register_request_def signal_fired_def prune_parts Let_def split: option.split)

lemma fired_claim: "signal_fired n r \<Longrightarrow> signal_fired n (fst (claim_cancellation now k reason r))"
  by (auto simp: claim_cancellation_def set_status_def fired_change_entry split: option.split)
    (auto simp: signal_fired_def map_has_iff)

lemma fired_parts:
  "signal_fired n (r\<lparr>rg_terminals := ts\<rparr>) = signal_fired n r"
  "signal_fired n (r\<lparr>rg_entries := es\<rparr>) = signal_fired n r"
  by (simp_all add: signal_fired_def)

lemma fired_call: "signal_fired n r \<Longrightarrow> signal_fired n (call_registry c r)"
proof (cases c)
  case (Prune now age)
  then show "signal_fired n r \<Longrightarrow> ?thesis" by (simp add: signal_fired_def prune_parts)
qed (auto simp: retain_terminal_def im_outcome_def acknowledge_terminal_def unregister_request_def
    set_status_def set_turn_context_def transfer_to_runtime_def clear_registry_def fired_parts
    fired_change_entry fired_register fired_claim fired_abort split: option.split)

lemma fired_run: "signal_fired n r \<Longrightarrow> signal_fired n (fold call_registry cs r)"
  by (induction cs arbitrary: r) (simp_all add: fired_call)

lemma claim_fires:
  assumes "map_of (rg_entries r) k = Some e"
  shows "signal_fired (ie_signal e) (fst (claim_cancellation now k reason r))"
proof (cases "signal_fired (ie_signal e) r")
  case True
  then show ?thesis by (rule fired_claim)
next
  case False
  have "signal_fired (ie_signal e) (r\<lparr>rg_fired := rg_fired r @ [(ie_signal e, reason)]\<rparr>)"
    by (simp add: signal_fired_def map_has_iff)
  then show ?thesis
    using assms False by (simp add: claim_cancellation_def set_status_def fired_change_entry)
qed

lemma claim_again:
  "map_of (rg_entries r) k = Some e \<Longrightarrow> signal_fired (ie_signal e) r \<Longrightarrow>
   claim_cancellation now k reason r = (r, Some (Already_Claimed (ie_owner e)))"
  by (simp add: claim_cancellation_def)

text \<open>
  C19. A request's cancellation is claimed once: in every history of the registry a signal is fired
  at most once, and after the first claim, whatever is called in between, a second claim of the
  same registration changes nothing and reports the owner of that time; only a registration that
  was removed and made again can be claimed anew.
\<close>

theorem cancellation_claimed_once:
  fixes before after :: "registry_call list"
  assumes "map_of (rg_entries r) k = Some e" and "r = fold call_registry before new_registry"
    and "s = fold call_registry after (fst (claim_cancellation now k reason r))"
    and "map_of (rg_entries s) k = Some e'" and "ie_signal e' = ie_signal e"
  shows "claim_cancellation now' k reason' s = (s, Some (Already_Claimed (ie_owner e')))
    \<and> distinct (map_keys (rg_fired s))"
proof -
  have "signal_fired (ie_signal e') s"
    unfolding assms(3,5) by (rule fired_run [OF claim_fires [OF assms(1)]])
  moreover have "registry_ok s"
    unfolding assms(2,3) by (intro run_ok claim_ok new_registry_ok)
  ultimately show ?thesis
    using claim_again [OF assms(4)] by (simp add: registry_ok_def fired_ok_def)
qed

text \<open>A request that is cancelled on its way through admission and again at run time.\<close>

lemma cancellation_claimed_once_witness:
  "let r = fold call_registry [Register 0 (js ''m1'') None None] new_registry;
       s = fold call_registry [Transfer 2 (js ''m1'')] (fst (claim_cancellation 1 (js ''m1'') (js ''user'') r))
   in claim_cancellation 3 (js ''m1'') (js ''user'') s = (s, Some (Already_Claimed Runtime))"
proof -
  let ?r = "fold call_registry [Register 0 (js ''m1'') None None] new_registry"
  let ?s = "fold call_registry [Transfer 2 (js ''m1'')] (fst (claim_cancellation 1 (js ''m1'') (js ''user'') ?r))"
  note eval = register_request_def new_registry_def new_entry_def claim_cancellation_def set_status_def
    change_entry_def transfer_to_runtime_def signal_fired_def map_has_def Let_def max_registry_size_def
  have "map_of (rg_entries ?r) (js ''m1'') = Some (new_entry 0 (js ''m1'') None None 0)"
    by (simp add: eval)
  moreover have "map_of (rg_entries ?s) (js ''m1'') = Some ((new_entry 0 (js ''m1'') None None 0)
      \<lparr>ie_owner := Runtime, ie_status := Im_Running, ie_updated := 2\<rparr>)"
    by (simp add: eval)
  ultimately show ?thesis
    using cancellation_claimed_once [OF _ refl refl, of "[Register 0 (js ''m1'') None None]" "js ''m1''"
        "new_entry 0 (js ''m1'') None None 0" "[Transfer 2 (js ''m1'')]" 1 "js ''user''" _ 3 "js ''user''"]
    by (simp add: Let_def new_entry_def)
qed

section \<open>The first terminal stays\<close>

definition is_retain :: "registry_call \<Rightarrow> bool" where
  "is_retain c = (case c of Retain _ \<Rightarrow> True | _ \<Rightarrow> False)"

text \<open>Calls that do not settle the terminal of a request: no acknowledgement, no reset, no late look.\<close>

definition leaves_terminal :: "jstr \<Rightarrow> bus_event \<Rightarrow> registry_call \<Rightarrow> bool" where
  "leaves_terminal k ev c =
     (case c of
        Acknowledge j \<Rightarrow> j \<noteq> k
      | Clear \<Rightarrow> False
      | Outcome now j \<Rightarrow> j \<noteq> k \<or> now - ev_ts ev \<le> stale_ms
      | _ \<Rightarrow> True)"

text \<open>The terminal is held, and at most \<open>m\<close> were retained after it.\<close>

definition held_at :: "jstr \<Rightarrow> bus_event \<Rightarrow> nat \<Rightarrow> (jstr \<times> bus_event) list \<Rightarrow> bool" where
  "held_at k ev m ts \<longleftrightarrow>
     (\<exists>xs ys. ts = xs @ (k, ev) # ys \<and> length ys \<le> m \<and> k \<notin> set (map_keys xs))"

lemma held_lookup: "held_at k ev m ts \<Longrightarrow> map_of ts k = Some ev"
proof -
  assume "held_at k ev m ts"
  then obtain xs ys where ts: "ts = xs @ (k, ev) # ys" "k \<notin> set (map_keys xs)"
    by (auto simp: held_at_def)
  then have "map_of xs k = None" by (metis map_key_in not_None_eq)
  then show ?thesis by (simp add: ts(1) map_add_def)
qed

lemma held_more:
  assumes "held_at k ev m ts" and "m \<le> n"
  shows "held_at k ev n ts"
proof -
  obtain xs ys where "ts = xs @ (k, ev) # ys" "length ys \<le> n" "k \<notin> set (map_keys xs)"
    using assms by (auto simp: held_at_def intro: order_trans)
  then show ?thesis unfolding held_at_def by blast
qed

lemma held_delete: "held_at k ev m ts \<Longrightarrow> j \<noteq> k \<Longrightarrow> held_at k ev m (map_del j ts)"
proof -
  assume "held_at k ev m ts" and j: "j \<noteq> k"
  then obtain xs ys where ts: "ts = xs @ (k, ev) # ys" "length ys \<le> m" "k \<notin> set (map_keys xs)"
    by (auto simp: held_at_def)
  have "map_del j ts = map_del j xs @ (k, ev) # map_del j ys"
    using j by (simp add: ts(1) map_del_filter)
  moreover have "length (map_del j ys) \<le> m"
    using ts(2) by (simp add: map_del_filter order_trans [OF length_filter_le])
  moreover have "k \<notin> set (map_keys (map_del j xs))"
    using ts(3) by (auto simp: map_del_filter)
  ultimately show ?thesis unfolding held_at_def by blast
qed

lemma held_retain:
  assumes "held_at k ev m ts" and "Suc m < max_registry_size"
  shows "held_at k ev (Suc m) (evict_oldest (ts @ [p]))"
proof -
  obtain xs ys where ts: "ts = xs @ (k, ev) # ys" "length ys \<le> m" "k \<notin> set (map_keys xs)"
    using assms(1) by (auto simp: held_at_def)
  let ?i = "length (ts @ [p]) - max_registry_size"
  have i: "?i \<le> length xs" using ts(1,2) assms(2) by simp
  have "drop ?i (ts @ [p]) = drop ?i xs @ (k, ev) # ys @ [p]"
    using i by (simp add: ts(1))
  moreover have "k \<notin> set (map_keys (drop ?i xs))"
    using ts(3) by (auto dest: in_set_dropD)
  moreover have "length (ys @ [p]) \<le> Suc m" using ts(2) by simp
  ultimately show ?thesis unfolding held_at_def evict_oldest_drop by blast
qed

lemma held_call:
  assumes held: "held_at k ev m (rg_terminals r)" and c: "leaves_terminal k ev c"
    and room: "m + (if is_retain c then 1 else 0) < max_registry_size"
  shows "held_at k ev (m + (if is_retain c then 1 else 0)) (rg_terminals (call_registry c r))"
proof (cases c)
  case (Retain e)
  have more: "held_at k ev (Suc m) (rg_terminals r)"
    using held_more [OF held] by simp
  show ?thesis
    using Retain more room held_retain [OF held]
    by (simp add: is_retain_def retain_terminal_def map_has_def map_set_new split: option.split)
next
  case (Outcome now j)
  then show ?thesis
    using held c held_lookup [OF held] held_delete [OF held, of j]
    by (cases "j = k") (auto simp: is_retain_def leaves_terminal_def im_outcome_def split: option.split)
next
  case (Acknowledge j)
  then show ?thesis
    using held c by (simp add: is_retain_def leaves_terminal_def acknowledge_terminal_def held_delete)
next
  case (Register now j s src)
  then show ?thesis
    using held by (simp add: is_retain_def register_request_def Let_def prune_parts split: option.split)
next
  case (Claim now j reason)
  then show ?thesis
    using held by (simp add: is_retain_def claim_cancellation_def set_status_def change_entry_parts
        split: option.split)
qed (use held c in \<open>simp_all add: is_retain_def leaves_terminal_def set_status_def set_turn_context_def
    transfer_to_runtime_def change_entry_parts prune_parts unregister_request_def\<close>)

lemma held_run:
  assumes "held_at k ev m (rg_terminals r)" and "list_all (leaves_terminal k ev) cs"
    and "m + length (filter is_retain cs) < max_registry_size"
  shows "map_of (rg_terminals (fold call_registry cs r)) k = Some ev"
  using assms
proof (induction cs arbitrary: m r)
  case Nil
  then show ?case by (simp add: held_lookup)
next
  case (Cons c cs)
  have "held_at k ev (m + (if is_retain c then 1 else 0)) (rg_terminals (call_registry c r))"
    using Cons.prems by (intro held_call) auto
  then show ?case using Cons.IH Cons.prems by (auto split: if_splits)
qed

text \<open>
  The first terminal of a request is its outcome: once an event is retained for a request that
  has none, every later look reports that very event, whatever ends are reported again for the same
  request, as long as it is not acknowledged or reset, not older than six hours, and fewer than two
  hundred terminals were retained after it.
\<close>

theorem first_terminal_kept:
  assumes "ev_request ev = Some k" and "k \<noteq> []" and "map_of (rg_terminals r) k = None"
    and "list_all (leaves_terminal k ev) calls" and "length (filter is_retain calls) < max_registry_size"
    and "now - ev_ts ev \<le> stale_ms"
  shows "snd (im_outcome now k (fold call_registry calls (retain_terminal ev r))) = Terminal ev"
proof -
  have "held_at k ev 0 (evict_oldest (rg_terminals r @ [(k, ev)]))"
  proof -
    have "drop (length (rg_terminals r @ [(k, ev)]) - max_registry_size) (rg_terminals r @ [(k, ev)])
        = drop (Suc (length (rg_terminals r)) - max_registry_size) (rg_terminals r) @ (k, ev) # []"
      by (simp add: max_registry_size_def)
    moreover have "k \<notin> set (map_keys (drop i (rg_terminals r)))" for i
      using map_key_out [OF assms(3)] by (auto dest: in_set_dropD)
    ultimately show ?thesis unfolding held_at_def evict_oldest_drop by blast
  qed
  then have "held_at k ev 0 (rg_terminals (retain_terminal ev r))"
    using assms(1-3) by (simp add: retain_terminal_def map_has_def map_set_new)
  then have "map_of (rg_terminals (fold call_registry calls (retain_terminal ev r))) k = Some ev"
    by (rule held_run) (use assms(4,5) in simp_all)
  then show ?thesis using assms(6) by (simp add: im_outcome_def)
qed

definition sample_terminal :: "nat \<Rightarrow> bus_event" where
  "sample_terminal n =
     \<lparr>ev_seq = n, ev_request = Some (js ''m1''), ev_type = Im_Complete, ev_data = Payload None, ev_ts = 0,
      ev_mode = None\<rparr>"

lemma first_terminal_kept_witness:
  "snd (im_outcome 5 (js ''m1'')
     (fold call_registry [Retain (sample_terminal 2), Unregister (js ''m1'')]
        (retain_terminal (sample_terminal 1) new_registry))) = Terminal (sample_terminal 1)"
  by (rule first_terminal_kept)
    (simp_all add: sample_terminal_def new_registry_def leaves_terminal_def is_retain_def
      max_registry_size_def stale_ms_def)

end
