(* ===== verification/ImEventBus.thy ===== *)
theory ImEventBus
  imports ImRequestRegistry
begin

text \<open>
  The bus of IM events: server/utils/im-event-bus.ts. A subscriber is a number, and the log
  \<open>ib_delivered\<close> holds the calls of subscriber callbacks in their order; a callback that throws is
  caught and logged by the bus, so it does not change what follows. Callbacks are taken not to call
  the bus themselves. The log \<open>ib_hooks\<close> holds the cleanup hooks that \<open>clear\<close> fired.
\<close>

section \<open>State\<close>

record im_bus =
  ib_buffer :: "bus_event list"
  ib_next :: nat
  ib_subscribers :: "nat list"
  ib_cleared :: "(nat \<times> nat) list"
  ib_gap :: "bus_event option"
  ib_generation :: nat
  ib_delivered :: "(nat \<times> bus_event) list"
  ib_hooks :: "nat list"

definition new_bus :: im_bus where
  "new_bus =
     \<lparr>ib_buffer = [], ib_next = 1, ib_subscribers = [], ib_cleared = [], ib_gap = None,
      ib_generation = 1, ib_delivered = [], ib_hooks = []\<rparr>"

record im_state =
  im_reg :: im_registry
  im_bus :: im_bus

definition max_buffer :: nat where
  "max_buffer = 20000"

section \<open>The gap marker\<close>

definition add_dropped :: "jstr option \<Rightarrow> gap_data \<Rightarrow> gap_data" where
  "add_dropped request d =
     (case request of
        None \<Rightarrow> d
      | Some k \<Rightarrow>
          if k = [] then d
          else (let ids = (case gd_requests d of Some ids \<Rightarrow> ids | None \<Rightarrow> [])
                in d\<lparr>gd_requests := Some (if k \<in> set ids then ids else ids @ [k])\<rparr>))"

definition gap_of :: "bus_event \<Rightarrow> gap_data" where
  "gap_of g =
     (case ev_data g of
        Gap_Range d \<Rightarrow> d
      | Payload _ \<Rightarrow> \<lparr>gd_from = 0, gd_to = 0, gd_reason = None, gd_requests = None\<rparr>)"

definition extend_gap :: "int \<Rightarrow> bus_event \<Rightarrow> bus_event option \<Rightarrow> bus_event" where
  "extend_gap now dropped gap =
     (case gap of
        Some g \<Rightarrow>
          (let d = gap_of g in
           g\<lparr>ev_data := Gap_Range (add_dropped (ev_request dropped)
               (d\<lparr>gd_to := max (gd_to d) (ev_seq dropped)\<rparr>))\<rparr>)
      | None \<Rightarrow>
          \<lparr>ev_seq = ev_seq dropped, ev_request = None, ev_type = Gap,
           ev_data = Gap_Range (add_dropped (ev_request dropped)
             \<lparr>gd_from = ev_seq dropped, gd_to = ev_seq dropped, gd_reason = None, gd_requests = None\<rparr>),
           ev_ts = now, ev_mode = None\<rparr>)"

fun shrink_buffer :: "int \<Rightarrow> bus_event list \<Rightarrow> bus_event option \<Rightarrow> bus_event list \<times> bus_event option" where
  "shrink_buffer now [] gap = ([], gap)"
| "shrink_buffer now (d # ds) gap =
     (if max_buffer < length (d # ds) then shrink_buffer now ds (Some (extend_gap now d gap))
      else (d # ds, gap))"

section \<open>Operations\<close>

definition is_terminal :: "im_event_type \<Rightarrow> bool" where
  "is_terminal t \<longleftrightarrow> t = Im_Complete \<or> t = Im_Error \<or> t = Im_Cancelled"

definition stamp :: "int \<Rightarrow> jstr option \<Rightarrow> im_event_type \<Rightarrow> json option \<Rightarrow> im_state \<Rightarrow> bus_event" where
  "stamp now request t payload s =
     (let mode = (if truthy request
                  then Option.bind (map_of (rg_entries (im_reg s)) (the request)) ie_mode else None)
      in \<lparr>ev_seq = ib_next (im_bus s), ev_request = request, ev_type = t, ev_data = Payload payload,
          ev_ts = now, ev_mode = if truthy mode then mode else None\<rparr>)"

definition emit_event ::
    "int \<Rightarrow> jstr option \<Rightarrow> im_event_type \<Rightarrow> json option \<Rightarrow> im_state \<Rightarrow> im_state" where
  "emit_event now request t payload s =
     (let ev = stamp now request t payload s; b = im_bus s;
          reg = (if is_terminal t then retain_terminal ev (im_reg s) else im_reg s);
          (buffer, gap) = shrink_buffer now (ib_buffer b @ [ev]) (ib_gap b)
      in \<lparr>im_reg = reg,
          im_bus = b\<lparr>ib_next := Suc (ib_next b), ib_buffer := buffer, ib_gap := gap,
                     ib_delivered := ib_delivered b @ map (\<lambda>i. (i, ev)) (ib_subscribers b)\<rparr>\<rparr>)"

text \<open>What a new subscriber is called with before it goes live.\<close>

definition generation_gap :: "int \<Rightarrow> nat \<Rightarrow> im_bus \<Rightarrow> bus_event list" where
  "generation_gap now since b =
     (if 0 < since \<and> since < ib_generation b
      then [\<lparr>ev_seq = ib_generation b - 1, ev_request = None, ev_type = Gap,
             ev_data = Gap_Range \<lparr>gd_from = since + 1, gd_to = ib_generation b - 1,
               gd_reason = Some (js ''session-reset''), gd_requests = None\<rparr>,
             ev_ts = now, ev_mode = None\<rparr>]
      else [])"

definition gap_affects :: "jstr option \<Rightarrow> gap_data \<Rightarrow> bool" where
  "gap_affects only d \<longleftrightarrow>
     \<not> truthy only \<or> gd_reason d = Some (js ''session-reset'')
     \<or> (case gd_requests d of None \<Rightarrow> False | Some ids \<Rightarrow> the only \<in> set ids)"

definition eviction_gap :: "nat \<Rightarrow> jstr option \<Rightarrow> im_bus \<Rightarrow> bus_event list" where
  "eviction_gap since only b =
     (case ib_gap b of
        None \<Rightarrow> []
      | Some g \<Rightarrow> if since < gd_to (gap_of g) \<and> gap_affects only (gap_of g) then [g] else [])"

definition replayed :: "nat \<Rightarrow> jstr option \<Rightarrow> bus_event \<Rightarrow> bool" where
  "replayed since only ev \<longleftrightarrow>
     since < ev_seq ev \<and> (\<not> truthy only \<or> ev_request ev = only \<or> ev_request ev = None)"

definition replay :: "int \<Rightarrow> nat \<Rightarrow> jstr option \<Rightarrow> im_bus \<Rightarrow> bus_event list" where
  "replay now since only b =
     generation_gap now since b @ eviction_gap since only b
     @ filter (replayed since only) (ib_buffer b)"

definition subscribe :: "int \<Rightarrow> nat \<Rightarrow> nat \<Rightarrow> nat option \<Rightarrow> jstr option \<Rightarrow> im_bus \<Rightarrow> im_bus" where
  "subscribe now since i on_cleared only b =
     b\<lparr>ib_delivered := ib_delivered b @ map (\<lambda>ev. (i, ev)) (replay now since only b),
       ib_subscribers := if i \<in> set (ib_subscribers b) then ib_subscribers b else ib_subscribers b @ [i],
       ib_cleared := (case on_cleared of None \<Rightarrow> ib_cleared b | Some h \<Rightarrow> map_set i h (ib_cleared b))\<rparr>"

definition unsubscribe :: "nat \<Rightarrow> im_bus \<Rightarrow> im_bus" where
  "unsubscribe i b =
     b\<lparr>ib_subscribers := filter (\<lambda>j. j \<noteq> i) (ib_subscribers b), ib_cleared := map_del i (ib_cleared b)\<rparr>"

definition current_seq :: "im_bus \<Rightarrow> nat" where
  "current_seq b = ib_next b - 1"

definition clear_bus :: "im_bus \<Rightarrow> im_bus" where
  "clear_bus b =
     b\<lparr>ib_buffer := [], ib_gap := None, ib_generation := ib_next b, ib_subscribers := [],
       ib_cleared := [], ib_hooks := ib_hooks b @ map snd (ib_cleared b)\<rparr>"

section \<open>Histories\<close>

text \<open>
  A state with all the events that were ever emitted, in their order. The registry may change in
  any way between two calls of the bus.
\<close>

inductive bus_history :: "im_state \<Rightarrow> bus_event list \<Rightarrow> bool" where
  start: "bus_history \<lparr>im_reg = new_registry, im_bus = new_bus\<rparr> []"
| emitted: "bus_history s hist \<Longrightarrow>
    bus_history (emit_event now request t payload s) (hist @ [stamp now request t payload s])"
| subscribed: "bus_history s hist \<Longrightarrow>
    bus_history (s\<lparr>im_bus := subscribe now since i h only (im_bus s)\<rparr>) hist"
| unsubscribed: "bus_history s hist \<Longrightarrow> bus_history (s\<lparr>im_bus := unsubscribe i (im_bus s)\<rparr>) hist"
| cleared: "bus_history s hist \<Longrightarrow> bus_history (s\<lparr>im_bus := clear_bus (im_bus s)\<rparr>) hist"
| registry: "bus_history s hist \<Longrightarrow> bus_history (s\<lparr>im_reg := call_registry c (im_reg s)\<rparr>) hist"

inductive_cases bus_historyE: "bus_history s hist"

text \<open>
  Sequence numbers count the history, the buffer is its end, and the gap is exactly the part of the
  present generation that was dropped, with the requests it held.
\<close>

definition lists_requests :: "gap_data \<Rightarrow> bus_event list \<Rightarrow> bool" where
  "lists_requests d dropped \<longleftrightarrow>
     list_all (\<lambda>ev. truthy (ev_request ev) \<longrightarrow>
       gd_requests d \<noteq> None \<and> the (ev_request ev) \<in> set (the (gd_requests d))) dropped"

definition gap_ok :: "nat \<Rightarrow> nat \<Rightarrow> bus_event list \<Rightarrow> bus_event option \<Rightarrow> bool" where
  "gap_ok first n hist gap \<longleftrightarrow>
     (case gap of
        None \<Rightarrow> n = first
      | Some g \<Rightarrow>
          first < n \<and> ev_type g = Gap \<and>
          (\<exists>d. ev_data g = Gap_Range d \<and> gd_from d = Suc first \<and> gd_to d = n \<and> gd_reason d = None
            \<and> lists_requests d (drop first (take n hist))))"

definition from_producer :: "bus_event \<Rightarrow> bool" where
  "from_producer ev = (case ev_data ev of Payload _ \<Rightarrow> True | Gap_Range _ \<Rightarrow> False)"

definition bus_ok :: "im_bus \<Rightarrow> bus_event list \<Rightarrow> bool" where
  "bus_ok b hist \<longleftrightarrow>
     map ev_seq hist = [1..<Suc (length hist)] \<and> ib_next b = Suc (length hist)
     \<and> 0 < ib_generation b \<and> ib_generation b \<le> ib_next b
     \<and> list_all from_producer hist \<and> distinct (ib_subscribers b) \<and> length (ib_buffer b) \<le> max_buffer
     \<and> (\<exists>n. n \<le> length hist \<and> ib_buffer b = drop n hist
          \<and> gap_ok (ib_generation b - 1) n hist (ib_gap b))"

section \<open>The invariant\<close>

lemma gap_ok_first: "gap_ok first n hist gap \<Longrightarrow> first \<le> n"
  by (auto simp: gap_ok_def split: option.splits)

lemma gap_ok_more: "gap_ok first n hist gap \<Longrightarrow> n \<le> length hist \<Longrightarrow> gap_ok first n (hist @ later) gap"
  by (auto simp: gap_ok_def split: option.split)

lemma add_dropped_fields:
  "gd_from (add_dropped q d) = gd_from d" "gd_to (add_dropped q d) = gd_to d"
  "gd_reason (add_dropped q d) = gd_reason d"
  by (simp_all add: add_dropped_def Let_def split: option.split)

lemma add_dropped_requests:
  assumes "lists_requests d evs" and "gd_requests e = gd_requests d"
  shows "lists_requests (add_dropped (ev_request ev) e) (evs @ [ev])"
  using assms
  by (cases "gd_requests d"; cases "ev_request ev")
    (auto simp: lists_requests_def list_all_iff add_dropped_def Let_def truthy_def split: option.splits)

lemma extend_gap_ok:
  assumes gap: "gap_ok first n hist gap" and n: "n < length hist" and seq: "ev_seq (hist ! n) = Suc n"
  shows "gap_ok first (Suc n) hist (Some (extend_gap now (hist ! n) gap))"
proof -
  let ?d = "hist ! n"
  have first: "first \<le> n" by (rule gap_ok_first [OF gap])
  have dropped: "drop first (take (Suc n) hist) = drop first (take n hist) @ [?d]"
    using n first by (simp add: take_Suc_conv_app_nth)
  show ?thesis
  proof (cases gap)
    case None
    then have [simp]: "first = n" using gap by (simp add: gap_ok_def)
    have "lists_requests d []" for d by (simp add: lists_requests_def)
    then show ?thesis
      using None seq add_dropped_requests [OF _ refl, of _ "[]" ?d] dropped
      by (simp add: gap_ok_def extend_gap_def add_dropped_fields)
  next
    case (Some g)
    then obtain d where d: "ev_data g = Gap_Range d" "gd_from d = Suc first" "gd_to d = n"
        "gd_reason d = None" "lists_requests d (drop first (take n hist))" "ev_type g = Gap"
      using gap by (auto simp: gap_ok_def)
    have "extend_gap now ?d gap =
        g\<lparr>ev_data := Gap_Range (add_dropped (ev_request ?d) (d\<lparr>gd_to := Suc n\<rparr>))\<rparr>"
      using Some d seq by (simp add: extend_gap_def gap_of_def Let_def)
    then show ?thesis
      using first d add_dropped_requests [OF d(5), of "d\<lparr>gd_to := Suc n\<rparr>" ?d] dropped
      by (simp add: gap_ok_def add_dropped_fields)
  qed
qed

lemma shrink_buffer_ok:
  assumes "map ev_seq hist = [1..<Suc (length hist)]" and "n \<le> length hist" and "gap_ok first n hist gap"
    and "shrink_buffer now (drop n hist) gap = (b, g)"
  shows "length b \<le> max_buffer \<and> (\<exists>m. m \<le> length hist \<and> b = drop m hist \<and> gap_ok first m hist g)"
  using assms(2-4)
proof (induction "drop n hist" arbitrary: n gap)
  case Nil
  then show ?case by auto
next
  case (Cons d ds)
  then have n: "n < length hist" by (metis drop_eq_Nil list.distinct(1) not_le)
  have "d # ds = hist ! n # drop (Suc n) hist"
    using Cons.hyps(2) Cons_nth_drop_Suc [OF n] by (rule trans [OF _ sym])
  then have d: "d = hist ! n" and ds: "ds = drop (Suc n) hist" by simp_all
  have "map ev_seq hist ! n = Suc n" unfolding assms(1) using n by (subst nth_upt) simp_all
  then have seq: "ev_seq (hist ! n) = Suc n" using n by simp
  show ?case
  proof (cases "max_buffer < length (d # ds)")
    case True
    then have "shrink_buffer now (drop (Suc n) hist) (Some (extend_gap now (hist ! n) gap)) = (b, g)"
      using Cons.prems(3) unfolding Cons.hyps(2) [symmetric] by (simp add: d ds)
    then show ?thesis
      using Cons.hyps(1) [OF ds _ extend_gap_ok [OF Cons.prems(2) n seq]] n by simp
  next
    case False
    then have "b = drop n hist" "g = gap"
      using Cons.prems(3) unfolding Cons.hyps(2) [symmetric] by simp_all
    then show ?thesis using False Cons by (auto simp: not_less)
  qed
qed

lemma emit_ok:
  assumes ok: "bus_ok (im_bus s) hist"
  shows "bus_ok (im_bus (emit_event now request t payload s)) (hist @ [stamp now request t payload s])"
proof -
  let ?b = "im_bus s" and ?ev = "stamp now request t payload s"
  let ?first = "ib_generation ?b - 1"
  obtain n where n: "n \<le> length hist" "ib_buffer ?b = drop n hist" "gap_ok ?first n hist (ib_gap ?b)"
    using ok by (auto simp: bus_ok_def)
  obtain b g where sh: "shrink_buffer now (ib_buffer ?b @ [?ev]) (ib_gap ?b) = (b, g)" by fastforce
  have seqs: "map ev_seq (hist @ [?ev]) = [1..<Suc (length (hist @ [?ev]))]"
    using ok by (simp add: bus_ok_def stamp_def Let_def)
  have "length b \<le> max_buffer
      \<and> (\<exists>m. m \<le> length (hist @ [?ev]) \<and> b = drop m (hist @ [?ev]) \<and> gap_ok ?first m (hist @ [?ev]) g)"
  proof (rule shrink_buffer_ok [OF seqs])
    show "n \<le> length (hist @ [?ev])" using n(1) by simp
    show "gap_ok ?first n (hist @ [?ev]) (ib_gap ?b)" by (rule gap_ok_more [OF n(3,1)])
    show "shrink_buffer now (drop n (hist @ [?ev])) (ib_gap ?b) = (b, g)" using sh n by simp
  qed
  then show ?thesis
    using ok seqs sh by (simp add: bus_ok_def emit_event_def Let_def from_producer_def stamp_def)
qed

lemma history_ok: "bus_history s hist \<Longrightarrow> bus_ok (im_bus s) hist"
proof (induction rule: bus_history.induct)
  case start
  show ?case by (simp add: bus_ok_def new_bus_def gap_ok_def)
next
  case (emitted s hist now request t payload)
  then show ?case by (simp add: emit_ok)
next
  case (cleared s hist)
  then show ?case by (auto simp: bus_ok_def clear_bus_def gap_ok_def)
qed (simp_all add: bus_ok_def subscribe_def unsubscribe_def)

section \<open>Resuming\<close>

definition covers :: "bus_event \<Rightarrow> nat \<Rightarrow> bool" where
  "covers g n = (case ev_data g of Gap_Range d \<Rightarrow> gd_from d \<le> n \<and> n \<le> gd_to d | Payload _ \<Rightarrow> False)"

lemma history_seq:
  assumes "bus_ok b hist" and "k < length hist"
  shows "ev_seq (hist ! k) = Suc k"
proof -
  have "map ev_seq hist ! k = [1..<Suc (length hist)] ! k" using assms(1) by (simp add: bus_ok_def)
  then show ?thesis using assms(2) by (simp del: upt_Suc)
qed

lemma dropped_covered:
  assumes ok: "bus_ok b hist" and k: "k < length hist" and late: "since < Suc k"
    and mine: "\<not> truthy only \<or> ev_request (hist ! k) = only"
    and known: "0 < since \<or> ib_generation b \<le> Suc k" and lost: "hist ! k \<notin> set (ib_buffer b)"
  shows "list_ex (\<lambda>g. covers g (Suc k)) (replay now since only b)"
proof (cases "Suc k < ib_generation b")
  case True
  then show ?thesis
    using late known by (auto simp: replay_def generation_gap_def covers_def)
next
  case False
  obtain n where n: "ib_buffer b = drop n hist" "gap_ok (ib_generation b - 1) n hist (ib_gap b)"
    using ok by (auto simp: bus_ok_def)
  have kn: "k < n"
  proof (rule ccontr)
    assume "\<not> k < n"
    then have "hist ! k = drop n hist ! (k - n)" "k - n < length (drop n hist)" using k by simp_all
    then show False using lost n(1) by (metis nth_mem)
  qed
  have first: "ib_generation b - 1 \<le> k" using False by simp
  then obtain g d where g: "ib_gap b = Some g" "ev_data g = Gap_Range d" "gd_from d = Suc (ib_generation b - 1)"
      "gd_to d = n" "lists_requests d (drop (ib_generation b - 1) (take n hist))"
    using n(2) kn by (auto simp: gap_ok_def split: option.splits)
  have "hist ! k = drop (ib_generation b - 1) (take n hist) ! (k - (ib_generation b - 1))"
    using kn first k by simp
  moreover have "k - (ib_generation b - 1) < length (drop (ib_generation b - 1) (take n hist))"
    using kn first k by simp
  ultimately have "hist ! k \<in> set (drop (ib_generation b - 1) (take n hist))" by (metis nth_mem)
  then have "gap_affects only d"
    using g(5) mine by (auto simp: gap_affects_def lists_requests_def list_all_iff split: option.split)
  then show ?thesis
    using g kn late first by (auto simp: replay_def eviction_gap_def gap_of_def covers_def)
qed

text \<open>
  C20. A consumer that reconnects never loses an event silently: every event after the last one it
  saw, that concerns the request it asks about, is replayed, or the replay holds a gap marker whose
  range contains the event's number, whether it was evicted from the ring buffer or belongs to a
  session that was reset. A consumer that never saw an event is told about the present session
  only.
\<close>

theorem resume_misses_nothing:
  assumes "bus_history s hist" and "ev \<in> set hist" and "since < ev_seq ev"
    and "\<not> truthy only \<or> ev_request ev = only"
    and "0 < since \<or> ib_generation (im_bus s) \<le> ev_seq ev"
  shows "ev \<in> set (replay now since only (im_bus s))
    \<or> list_ex (\<lambda>g. covers g (ev_seq ev)) (replay now since only (im_bus s))"
proof (cases "ev \<in> set (ib_buffer (im_bus s))")
  case True
  then show ?thesis using assms(3,4) by (auto simp: replay_def replayed_def)
next
  case False
  have ok: "bus_ok (im_bus s) hist" by (rule history_ok [OF assms(1)])
  obtain k where k: "k < length hist" "ev = hist ! k" using assms(2) by (auto simp: in_set_conv_nth)
  have seq: "ev_seq ev = Suc k" using history_seq [OF ok k(1)] k(2) by simp
  show ?thesis
    using dropped_covered [OF ok k(1), of since only now] assms(3-5) False
    unfolding k(2) [symmetric] seq by blast
qed

text \<open>A session that was reset after its first event.\<close>

definition sample_bus :: im_state where
  "sample_bus =
     (let s = emit_event 0 (Some (js ''m1'')) Delta None \<lparr>im_reg = new_registry, im_bus = new_bus\<rparr>
      in emit_event 1 (Some (js ''m2'')) Delta None (s\<lparr>im_bus := clear_bus (im_bus s)\<rparr>))"

definition delta_event :: "nat \<Rightarrow> string \<Rightarrow> int \<Rightarrow> bus_event" where
  "delta_event n k now =
     \<lparr>ev_seq = n, ev_request = Some (js k), ev_type = Delta, ev_data = Payload None, ev_ts = now,
      ev_mode = None\<rparr>"

lemma sample_history: "bus_history sample_bus [delta_event 1 ''m1'' 0, delta_event 2 ''m2'' 1]"
proof -
  let ?s0 = "\<lparr>im_reg = new_registry, im_bus = new_bus\<rparr>"
  let ?s1 = "emit_event 0 (Some (js ''m1'')) Delta None ?s0"
  let ?s2 = "?s1\<lparr>im_bus := clear_bus (im_bus ?s1)\<rparr>"
  have "stamp 0 (Some (js ''m1'')) Delta None ?s0 = delta_event 1 ''m1'' 0"
    "stamp 1 (Some (js ''m2'')) Delta None ?s2 = delta_event 2 ''m2'' 1"
    by (simp_all add: stamp_def delta_event_def new_bus_def new_registry_def emit_event_def clear_bus_def
        is_terminal_def Let_def case_prod_beta)
  then show ?thesis
    using bus_history.emitted [OF bus_history.cleared [OF bus_history.emitted [OF bus_history.start,
        of 0 "Some (js ''m1'')" Delta None]], of 1 "Some (js ''m2'')" Delta None]
    by (simp add: sample_bus_def Let_def)
qed

lemma resume_misses_nothing_witness:
  "delta_event 2 ''m2'' 1 \<in> set (replay 5 1 None (im_bus sample_bus))
   \<or> list_ex (\<lambda>g. covers g 2) (replay 5 1 None (im_bus sample_bus))"
  using resume_misses_nothing [OF sample_history, of "delta_event 2 ''m2'' 1" 1 None]
  by (simp add: delta_event_def)

section \<open>A subscription\<close>

text \<open>Several calls of \<open>emit\<close>, and the events they stamp.\<close>

type_synonym emission = "int \<times> jstr option \<times> im_event_type \<times> json option"

fun emit_all :: "emission list \<Rightarrow> im_state \<Rightarrow> im_state \<times> bus_event list" where
  "emit_all [] s = (s, [])"
| "emit_all ((now, q, t, p) # es) s =
     (let (s', evs) = emit_all es (emit_event now q t p s) in (s', stamp now q t p s # evs))"

definition calls_of :: "nat \<Rightarrow> (nat \<times> bus_event) list \<Rightarrow> bus_event list" where
  "calls_of i log = map snd (filter (\<lambda>p. fst p = i) log)"

lemma calls_of_append: "calls_of i (xs @ ys) = calls_of i xs @ calls_of i ys"
  by (simp add: calls_of_def)

lemma calls_of_own: "calls_of i (map (\<lambda>ev. (i, ev)) evs) = evs"
  by (simp add: calls_of_def filter_map o_def)

lemma calls_of_broadcast: "distinct subs \<Longrightarrow> i \<in> set subs \<Longrightarrow> calls_of i (map (\<lambda>j. (j, ev)) subs) = [ev]"
proof (induction subs)
  case (Cons j subs)
  have "i \<notin> set subs \<Longrightarrow> calls_of i (map (\<lambda>j. (j, ev)) subs) = []"
    by (auto simp: calls_of_def filter_empty_conv)
  then show ?case using Cons by (auto simp: calls_of_def)
qed simp

lemma emit_delivered:
  "ib_delivered (im_bus (emit_event now q t p s)) =
     ib_delivered (im_bus s) @ map (\<lambda>i. (i, stamp now q t p s)) (ib_subscribers (im_bus s))"
  "ib_subscribers (im_bus (emit_event now q t p s)) = ib_subscribers (im_bus s)"
  "ib_next (im_bus (emit_event now q t p s)) = Suc (ib_next (im_bus s))"
  by (simp_all add: emit_event_def Let_def case_prod_beta)

lemma stamp_fields:
  "ev_seq (stamp now q t p s) = ib_next (im_bus s)" "from_producer (stamp now q t p s)"
  by (simp_all add: stamp_def from_producer_def Let_def)

lemma emit_all_calls:
  assumes "distinct (ib_subscribers (im_bus s))" and "i \<in> set (ib_subscribers (im_bus s))"
  shows "(\<exists>log. ib_delivered (im_bus (fst (emit_all es s))) = ib_delivered (im_bus s) @ log
        \<and> calls_of i log = snd (emit_all es s))
    \<and> map ev_seq (snd (emit_all es s)) = [ib_next (im_bus s)..<ib_next (im_bus s) + length es]
    \<and> list_all from_producer (snd (emit_all es s))"
  using assms
proof (induction es arbitrary: s)
  case Nil
  then show ?case by (simp add: calls_of_def)
next
  case (Cons e es)
  obtain now q t p where e: "e = (now, q, t, p)" by (cases e)
  let ?s = "emit_event now q t p s"
  have "distinct (ib_subscribers (im_bus ?s))" "i \<in> set (ib_subscribers (im_bus ?s))"
    using Cons.prems by (simp_all add: emit_delivered)
  note IH = Cons.IH [OF this]
  have "[ib_next (im_bus s)..<ib_next (im_bus s) + length (e # es)]
      = ib_next (im_bus s) # [ib_next (im_bus ?s)..<ib_next (im_bus ?s) + length es]"
    by (simp add: emit_delivered upt_conv_Cons del: upt_Suc)
  then show ?case
    using IH Cons.prems
    by (auto simp: e case_prod_beta Let_def emit_delivered calls_of_append calls_of_broadcast stamp_fields
        simp del: upt_Suc)
qed

lemma buffer_seqs:
  assumes "bus_ok b hist"
  shows "map ev_seq (filter (\<lambda>ev. since < ev_seq ev) (ib_buffer b))
    = filter (\<lambda>n. since < n) [ib_next b - length (ib_buffer b)..<ib_next b]"
proof -
  obtain n where n: "n \<le> length hist" "ib_buffer b = drop n hist" using assms by (auto simp: bus_ok_def)
  have "map ev_seq (ib_buffer b) = drop n [1..<Suc (length hist)]"
    using assms unfolding n(2) by (simp add: bus_ok_def drop_map [symmetric])
  also have "\<dots> = [ib_next b - length (ib_buffer b)..<ib_next b]"
    using assms n by (simp add: bus_ok_def drop_upt Suc_diff_le del: upt_Suc)
  finally show ?thesis by (simp add: filter_map [symmetric, unfolded o_def])
qed

lemma replay_payload:
  assumes "bus_ok b hist"
  shows "filter from_producer (replay now since None b) = filter (\<lambda>ev. since < ev_seq ev) (ib_buffer b)"
proof -
  obtain n where n: "ib_buffer b = drop n hist" "gap_ok (ib_generation b - 1) n hist (ib_gap b)"
    using assms by (auto simp: bus_ok_def)
  have "list_all from_producer (ib_buffer b)"
    using assms n(1) by (auto simp: bus_ok_def list_all_iff dest: in_set_dropD)
  moreover have "\<not> from_producer g" if "ib_gap b = Some g" for g
    using n(2) that by (auto simp: gap_ok_def from_producer_def)
  ultimately show ?thesis
    by (auto simp: replay_def generation_gap_def eviction_gap_def replayed_def from_producer_def
        list_all_iff filter_empty_conv intro!: filter_cong split: option.split)
qed

lemma filter_greater_upt: "filter (\<lambda>n. k < n) [a..<b] = [max a (Suc k)..<b]"
proof (induction b)
  case (Suc b)
  then show ?case by (auto simp: max_def not_less_eq_eq)
qed simp

text \<open>
  A subscription is a gapless stream: whatever it resumes from, and however many events follow,
  the subscriber is called once with each event it has not seen, in the order of their numbers,
  from the oldest one that is still buffered to the last one emitted.
\<close>

theorem subscription_is_gapless:
  assumes "bus_history s hist" and "since < ib_next (im_bus s)"
  shows "let b = im_bus s;
      t = fst (emit_all es (s\<lparr>im_bus := subscribe now since i h None b\<rparr>));
      calls = calls_of i (drop (length (ib_delivered b)) (ib_delivered (im_bus t)))
    in map ev_seq (filter from_producer calls)
        = [max (ib_next b - length (ib_buffer b)) (Suc since)..<ib_next b + length es]"
proof -
  let ?b = "im_bus s" and ?s = "s\<lparr>im_bus := subscribe now since i h None (im_bus s)\<rparr>"
  have ok: "bus_ok ?b hist" by (rule history_ok [OF assms(1)])
  then have subs: "distinct (ib_subscribers (im_bus ?s))" "i \<in> set (ib_subscribers (im_bus ?s))"
    by (simp_all add: bus_ok_def subscribe_def)
  let ?evs = "snd (emit_all es ?s)"
  obtain log where log: "ib_delivered (im_bus (fst (emit_all es ?s))) = ib_delivered (im_bus ?s) @ log"
      "calls_of i log = ?evs"
    using emit_all_calls [OF subs, of es] by blast
  have evs: "map ev_seq ?evs = [ib_next ?b..<ib_next ?b + length es]" "filter from_producer ?evs = ?evs"
    using emit_all_calls [OF subs, of es] by (simp_all add: subscribe_def list_all_iff filter_id_conv)
  have calls: "calls_of i (drop (length (ib_delivered ?b)) (ib_delivered (im_bus (fst (emit_all es ?s)))))
      = replay now since None ?b @ ?evs"
    using log by (simp add: subscribe_def calls_of_append calls_of_own)
  have "filter from_producer (replay now since None ?b) = filter (\<lambda>ev. since < ev_seq ev) (ib_buffer ?b)"
    by (rule replay_payload [OF ok])
  then have "map ev_seq (filter from_producer (replay now since None ?b @ ?evs))
      = [max (ib_next ?b - length (ib_buffer ?b)) (Suc since)..<ib_next ?b] @ [ib_next ?b..<ib_next ?b + length es]"
    using evs by (simp add: buffer_seqs [OF ok] filter_greater_upt)
  also have "\<dots> = [max (ib_next ?b - length (ib_buffer ?b)) (Suc since)..<ib_next ?b + length es]"
    using assms(2) by (intro upt_add_eq_append [symmetric]) auto
  finally show ?thesis unfolding Let_def calls .
qed

lemma sample_bus_values:
  "ib_next (im_bus sample_bus) = 3" "length (ib_buffer (im_bus sample_bus)) = 1"
  "ib_delivered (im_bus sample_bus) = []"
  by (simp_all add: sample_bus_def emit_event_def clear_bus_def new_bus_def max_buffer_def Let_def)

lemma subscription_is_gapless_witness:
  "map ev_seq (filter from_producer (calls_of 7
      (ib_delivered (im_bus (fst (emit_all [(2, None, Activity, None)]
        (sample_bus\<lparr>im_bus := subscribe 2 1 7 None None (im_bus sample_bus)\<rparr>)))))))
   = [2, 3]"
  using subscription_is_gapless [OF sample_history, of 1 "[(2, None, Activity, None)]" 2 7 None]
  by (simp add: sample_bus_values Let_def upt_rec)

end
