(* ===== verification/ImLifecycle.thy ===== *)
theory ImLifecycle
  imports ImEventBus JsText
begin

text \<open>
  The routes of IM requests: server/routes/im-request-lifecycle.ts with the payloads of
  server/utils/im-terminal-payload.ts, and the settlement of a request that the builtin and the
  external runtime share (\<open>finalizeImRequest\<close> of agent-session.ts and
  \<open>finalizeExternalQueuedImRequest\<close> of external-session/interactive.ts). The session engine is an
  argument: whatever it does to the registry and the bus while the route waits, and its answer. An
  outcomes object is an association list; the numeric key order of JavaScript objects is left out.
\<close>

section \<open>Payloads\<close>

definition final_payloads :: "json list \<Rightarrow> json" where
  "final_payloads ps = JObj [(js ''finalPayloads'', JArr ps)]"

definition resume_failure_hint :: jstr where
  "resume_failure_hint =
     [33509, 27492, 20250, 35805, 37325, 35797, 21518, 20173, 26080, 27861, 24674, 22797, 65292, 21487,
      21457, 36865, 32, 47, 110, 101, 119, 32, 24320, 22987, 26032, 23545, 35805, 65292, 26087, 20250,
      35805, 21382, 21490, 20250, 20445, 30041, 12290]"

definition format_resume_failure :: "jstr \<Rightarrow> jstr" where
  "format_resume_failure t = t @ [10, 10] @ resume_failure_hint"

definition complete_payload :: "jstr \<Rightarrow> json" where
  "complete_payload t = final_payloads (if trim t \<noteq> [] then [JObj [(js ''text'', JStr t)]] else [])"

definition error_payload :: "jstr \<Rightarrow> json" where
  "error_payload t =
     final_payloads
       (if trim t \<noteq> [] then [JObj [(js ''text'', JStr t), (js ''isError'', JBool True)]] else [])"

definition cancelled_text :: jstr where
  "cancelled_text = [55357, 57041, 32, 24050, 21462, 28040]"

definition cancelled_payload :: "jstr \<Rightarrow> json" where
  "cancelled_payload t = final_payloads (if trim t \<noteq> [] then [JObj [(js ''text'', JStr t)]] else [])"

section \<open>Settling a request\<close>

definition with_registry :: "(im_registry \<Rightarrow> im_registry) \<Rightarrow> im_state \<Rightarrow> im_state" where
  "with_registry f s = s\<lparr>im_reg := f (im_reg s)\<rparr>"

text \<open>The last argument of the source marks the turn; the mark is state of the turn, not of the bus.\<close>

definition finalize_im_request ::
    "int \<Rightarrow> jstr option \<Rightarrow> im_event_type \<Rightarrow> im_status \<Rightarrow> json option \<Rightarrow> im_state \<Rightarrow> im_state" where
  "finalize_im_request now request t status payload s =
     (if \<not> truthy request then s
      else with_registry (unregister_request (the request) \<circ> set_status now (the request) status)
             (emit_event now request t payload s))"

datatype queued_terminal = Queued_Cancelled | Queued_Failed

definition finalize_queued_request ::
    "int \<Rightarrow> jstr \<Rightarrow> queued_terminal \<Rightarrow> json option \<Rightarrow> im_state \<Rightarrow> im_state" where
  "finalize_queued_request now k terminal payload s =
     (let cancelled = (terminal = Queued_Cancelled) in
      with_registry
        (unregister_request k
          \<circ> set_status now k (if cancelled then Im_Status_Cancelled else Im_Failed))
        (emit_event now (Some k) (if cancelled then Im_Cancelled else Im_Error) payload s))"

section \<open>Looking up outcomes\<close>

definition look_up :: "int \<Rightarrow> jstr \<Rightarrow> im_state \<Rightarrow> im_state \<times> im_outcome" where
  "look_up now k s = (let (r, x) = im_outcome now k (im_reg s) in (s\<lparr>im_reg := r\<rparr>, x))"

datatype im_response =
    Bad_Request jstr
  | Accepted jstr "jstr option"
  | Outcomes "(jstr \<times> im_outcome) list"
  | Cancel_Ok jstr "jstr option" bool
  | Cancel_Conflict jstr jstr
  | Cancel_Failed jstr

definition existing_response ::
    "int \<Rightarrow> jstr \<Rightarrow> jstr option \<Rightarrow> im_state \<Rightarrow> im_state \<times> im_response option" where
  "existing_response now k session s =
     (let (s1, x) = look_up now k s
      in (s1, if x = Unknown then None else Some (Accepted k session)))"

definition lost_text :: jstr where
  "lost_text =
     [35831, 27714, 25191, 34892, 29366, 24577, 24050, 26080, 27861, 26680, 23545, 65292, 35831, 26816,
      26597, 20250, 35805, 21382, 21490, 21518, 37325, 26032, 21457, 36865, 12290]"

definition lost_payload :: json where
  "lost_payload = final_payloads [JObj [(js ''text'', JStr lost_text), (js ''isError'', JBool True)]]"

definition valid_ids :: "json option \<Rightarrow> jstr list option" where
  "valid_ids v =
     (case v of
        Some (JArr vs) \<Rightarrow>
          if length vs \<le> 200 \<and> list_all (\<lambda>x. case x of JStr k \<Rightarrow> length k \<le> 200 | _ \<Rightarrow> False) vs
          then Some (map (\<lambda>x. case x of JStr k \<Rightarrow> k | _ \<Rightarrow> []) vs) else None
      | _ \<Rightarrow> None)"

definition settles :: "json option \<Rightarrow> jstr \<Rightarrow> bool" where
  "settles v k = (case v of Some (JArr vs) \<Rightarrow> JStr k \<in> set vs | _ \<Rightarrow> False)"

definition settle_unknown :: "int \<Rightarrow> json option \<Rightarrow> jstr \<Rightarrow> im_state \<Rightarrow> im_state" where
  "settle_unknown now settle k s =
     (if settles settle k
      then (let (s1, x) = look_up now k s
            in if x = Unknown then emit_event now (Some k) Im_Error (Some lost_payload) s1 else s1)
      else s)"

fun collect_outcomes ::
    "int \<Rightarrow> jstr list \<Rightarrow> im_state \<Rightarrow> im_state \<times> (jstr \<times> im_outcome) list" where
  "collect_outcomes now [] s = (s, [])"
| "collect_outcomes now (k # ks) s =
     (let (s1, x) = look_up now k s; (s2, xs) = collect_outcomes now ks s1 in (s2, (k, x) # xs))"

definition requests_route :: "int \<Rightarrow> json option \<Rightarrow> json option \<Rightarrow> im_state \<Rightarrow> im_state \<times> im_response" where
  "requests_route now request_ids settle s =
     (case valid_ids request_ids of
        None \<Rightarrow> (s, Bad_Request (js ''Invalid requestIds''))
      | Some ids \<Rightarrow>
          (let (s1, xs) = collect_outcomes now ids (fold (settle_unknown now settle) ids s)
           in (s1, Outcomes (fold (\<lambda>(k, x) m. map_set k x m) xs []))))"

section \<open>Cancelling\<close>

datatype cancel_mode = Mode_Running | Mode_Queued | Mode_Unknown

fun mode_name :: "cancel_mode \<Rightarrow> jstr" where
  "mode_name Mode_Running = js ''running''"
| "mode_name Mode_Queued = js ''queued''"
| "mode_name Mode_Unknown = js ''unknown''"

type_synonym engine = "jstr \<Rightarrow> jstr \<Rightarrow> im_state \<Rightarrow> im_state \<times> (jstr + cancel_mode)"

definition conflict_text :: jstr where
  "conflict_text = js ''Request not in a cancellable state '' @ [8212] @ js '' message may already be in flight''"

text \<open>After the claim: the engine is asked, then the route settles what it owns.\<close>

definition cancel_claimed ::
    "int \<Rightarrow> engine \<Rightarrow> jstr \<Rightarrow> jstr \<Rightarrow> cancel_owner \<Rightarrow> im_state \<Rightarrow> im_state \<times> im_response" where
  "cancel_claimed now engine k reason owner s =
     (case engine k reason s of
        (s1, Inl message) \<Rightarrow> (s1, Cancel_Failed message)
      | (s1, Inr mode) \<Rightarrow>
          if mode = Mode_Unknown \<and> owner \<noteq> Admission_Route then (s1, Cancel_Conflict k conflict_text)
          else
            (let owns = (owner = Admission_Route \<or> mode = Mode_Queued);
                 s2 = (if owns \<and> map_has k (rg_entries (im_reg s1))
                       then with_registry (unregister_request k)
                              (emit_event now (Some k) Im_Cancelled (Some (cancelled_payload cancelled_text)) s1)
                       else s1)
             in (s2, Cancel_Ok k (Some (if mode = Mode_Unknown then js ''admission'' else mode_name mode)) False)))"

definition cancel_route ::
    "int \<Rightarrow> engine \<Rightarrow> jstr + jstr option \<times> jstr option \<Rightarrow> im_state \<Rightarrow> im_state \<times> im_response" where
  "cancel_route now engine body s =
     (case body of
        Inl message \<Rightarrow> (s, Cancel_Failed message)
      | Inr (request, given) \<Rightarrow>
          if \<not> truthy request then (s, Bad_Request (js ''Missing requestId''))
          else
            (let k = the request; reason = (case given of Some r \<Rightarrow> r | None \<Rightarrow> js ''user'');
                 (r1, claim) = claim_cancellation now k reason (im_reg s); s1 = s\<lparr>im_reg := r1\<rparr>
             in case claim of
                  None \<Rightarrow>
                    (let (s2, x) = look_up now k s1;
                         s3 = (if x = Unknown
                               then emit_event now (Some k) Im_Cancelled (Some (cancelled_payload cancelled_text)) s2
                               else s2)
                     in (s3, Cancel_Ok k None False))
                | Some (Already_Claimed owner) \<Rightarrow>
                    (s1, Cancel_Ok k (Some (if owner = Admission_Route then js ''admission'' else js ''running'')) True)
                | Some (Claimed owner) \<Rightarrow> cancel_claimed now engine k reason owner s1))"

section \<open>What the routes guarantee\<close>

lemma emit_registry:
  "im_reg (emit_event now q t p s) =
     (if is_terminal t then retain_terminal (stamp now q t p s) (im_reg s) else im_reg s)"
  by (simp add: emit_event_def Let_def case_prod_beta)

lemma stamp_request: "ev_request (stamp now q t p s) = q" "ev_ts (stamp now q t p s) = now"
  "ev_type (stamp now q t p s) = t" "ev_data (stamp now q t p s) = Payload p"
  by (simp_all add: stamp_def Let_def)

lemma retained_lookup:
  assumes "ev_request ev = Some k" and "k \<noteq> []" and "map_of (rg_terminals r) k = None"
  shows "map_of (rg_terminals (retain_terminal ev r)) k = Some ev"
proof -
  let ?i = "Suc (length (rg_terminals r)) - max_registry_size"
  have "map_of (drop ?i (rg_terminals r)) k = None"
    using map_key_out [OF assms(3)] by (auto simp: map_of_eq_None_iff dest: in_set_dropD)
  moreover have "drop ?i (rg_terminals r @ [(k, ev)]) = drop ?i (rg_terminals r) @ [(k, ev)]"
    by (simp add: max_registry_size_def)
  ultimately show ?thesis
    using assms by (simp add: retain_terminal_def map_has_def map_set_new evict_oldest_drop map_add_def)
qed

lemma unknown_outcome:
  "snd (im_outcome now k r) = Unknown \<Longrightarrow>
   map_of (rg_terminals (fst (im_outcome now k r))) k = None \<and> map_of (rg_entries r) k = None"
  by (auto simp: im_outcome_def map_has_def split: option.splits if_splits)

lemma outcome_again: "snd (im_outcome now k (fst (im_outcome now k r))) = snd (im_outcome now k r)"
  by (auto simp: im_outcome_def split: option.split)

lemma outcome_entries: "rg_entries (fst (im_outcome now k r)) = rg_entries r"
  by (simp add: im_outcome_def split: option.split)

lemma sealed_outcome:
  assumes "k \<noteq> []" and "snd (im_outcome now k (im_reg s)) = Unknown" and "is_terminal t"
  shows "snd (im_outcome now k (im_reg (emit_event now (Some k) t p (fst (look_up now k s)))))
    = Terminal (stamp now (Some k) t p (fst (look_up now k s)))"
proof -
  let ?s = "fst (look_up now k s)"
  have "map_of (rg_terminals (im_reg ?s)) k = None"
    using unknown_outcome [OF assms(2)] by (simp add: look_up_def case_prod_beta)
  then have "map_of (rg_terminals (im_reg (emit_event now (Some k) t p ?s))) k = Some (stamp now (Some k) t p ?s)"
    using retained_lookup [of "stamp now (Some k) t p ?s" k] assms(1,3) by (simp add: emit_registry stamp_request)
  then show ?thesis by (simp add: im_outcome_def stamp_request stale_ms_def)
qed

text \<open>
  C21. Cancelling a request that is not registered seals it: the route answers with success, a
  request nobody knows gets the cancelled terminal as its outcome, a terminal that a producer
  reported before stays the outcome, nothing else is sent, and a delayed admission of the same
  request is answered from the receipts instead of being started. The engine is never asked.
\<close>

theorem cancel_seals_absent_request:
  assumes "k \<noteq> []" and "map_of (rg_entries (im_reg s)) k = None"
  shows "let (t, response) = cancel_route now engine (Inr (Some k, given)) s;
      known = snd (im_outcome now k (im_reg s)); sealed = snd (im_outcome now k (im_reg t))
    in response = Cancel_Ok k None False
      \<and> (case known of
           Terminal ev \<Rightarrow> sealed = Terminal ev \<and> im_bus t = im_bus s
         | Active \<Rightarrow> False
         | Unknown \<Rightarrow> (case sealed of
               Terminal ev \<Rightarrow> ev_type ev = Im_Cancelled \<and> ev_request ev = Some k
             | _ \<Rightarrow> False))
      \<and> snd (existing_response now k session t) = Some (Accepted k session)"
proof -
  have claim: "claim_cancellation now k reason (im_reg s) = (im_reg s, None)" for reason
    using assms(2) by (simp add: claim_cancellation_def)
  have look: "snd (look_up now k s) = snd (im_outcome now k (im_reg s))"
    "im_bus (fst (look_up now k s)) = im_bus s"
    "im_reg (fst (look_up now k s)) = fst (im_outcome now k (im_reg s))"
    by (simp_all add: look_up_def case_prod_beta)
  let ?ended = "emit_event now (Some k) Im_Cancelled (Some (cancelled_payload cancelled_text)) (fst (look_up now k s))"
  have route: "cancel_route now engine (Inr (Some k, given)) s =
      (if snd (im_outcome now k (im_reg s)) = Unknown then ?ended else fst (look_up now k s), Cancel_Ok k None False)"
    using assms(1) by (simp add: cancel_route_def claim Let_def case_prod_beta look(1))
  have "snd (im_outcome now k (im_reg s)) \<noteq> Active"
    using assms(2) by (auto simp: im_outcome_def map_has_def split: option.splits)
  moreover have "snd (im_outcome now k (im_reg ?ended)) =
      Terminal (stamp now (Some k) Im_Cancelled (Some (cancelled_payload cancelled_text)) (fst (look_up now k s)))"
    if "snd (im_outcome now k (im_reg s)) = Unknown"
    using sealed_outcome [OF assms(1) that, of Im_Cancelled] by (simp add: is_terminal_def)
  moreover have "snd (existing_response now k session t) =
      (if snd (im_outcome now k (im_reg t)) = Unknown then None else Some (Accepted k session))" for t
    by (simp add: existing_response_def look_up_def case_prod_beta Let_def)
  ultimately show ?thesis
    unfolding route Let_def prod.case
    by (cases "snd (im_outcome now k (im_reg s))") (simp_all add: outcome_again look(2,3) stamp_request)
qed

lemma cancel_seals_absent_request_witness:
  "let s = \<lparr>im_reg = new_registry, im_bus = new_bus\<rparr>;
       t = fst (cancel_route 0 (\<lambda>k r s. (s, Inr Mode_Unknown)) (Inr (Some (js ''m1''), None)) s)
   in snd (existing_response 0 (js ''m1'') None t) = Some (Accepted (js ''m1'') None)"
  using cancel_seals_absent_request [of "js ''m1''" "\<lparr>im_reg = new_registry, im_bus = new_bus\<rparr>" 0
      "\<lambda>k r s. (s, Inr Mode_Unknown)" None None]
  by (simp add: new_registry_def Let_def case_prod_beta)

text \<open>A request whose turn ended is not answered again by a late cancellation.\<close>

lemma late_cancel_is_silent:
  fixes now :: int and p :: "json option" and status :: im_status
  assumes "k \<noteq> []" and "is_terminal t" and "map_of (rg_terminals (im_reg s)) k = None"
  defines "u \<equiv> finalize_im_request now (Some k) t status p s"
  shows "cancel_route now engine (Inr (Some k, given)) u = (u, Cancel_Ok k None False)"
proof -
  let ?ev = "stamp now (Some k) t p s"
  have gone: "map_of (rg_entries (im_reg u)) k = None"
    using assms(1) by (simp add: u_def finalize_im_request_def with_registry_def unregister_request_def)
  have "rg_terminals (im_reg u) = rg_terminals (retain_terminal ?ev (im_reg s))"
    using assms(1,2)
    by (simp add: u_def finalize_im_request_def with_registry_def unregister_request_def set_status_def
        change_entry_parts emit_registry)
  then have "map_of (rg_terminals (im_reg u)) k = Some ?ev"
    using retained_lookup [of ?ev k] assms(1,3) by (simp add: stamp_request)
  then have "look_up now k u = (u, Terminal ?ev)"
    by (simp add: look_up_def im_outcome_def stamp_request stale_ms_def)
  then show ?thesis
    using assms(1) gone by (simp add: cancel_route_def claim_cancellation_def Let_def)
qed

end
