(* ===== verification/TagNeutralizer.thy ===== *)
theory TagNeutralizer
  imports SystemReminder
begin

text \<open>
  Attribute escaping and the neutralizer of structural tags of server/inbox/session-event.ts.
  A text that another session wrote is put into the prompt only after every opening and closing
  tag that the prompt itself uses has been broken up. The regular expressions of the source are
  modelled as patterns with a match function that returns the rest of the text after the match;
  their flags are \<open>gi\<close>, without \<open>u\<close>, so letters are compared up to ASCII case only.
\<close>

section \<open>Patterns\<close>

definition fold_case :: "16 word \<Rightarrow> 16 word" where
  "fold_case c = (if 97 \<le> c \<and> c \<le> 122 then c - 32 else c)"

text \<open>A name matched at the start of a text up to case, with the rest of the text.\<close>

fun name_at :: "jstr \<Rightarrow> jstr \<Rightarrow> jstr option" where
  "name_at [] s = Some s"
| "name_at (t # ts) [] = None"
| "name_at (t # ts) (c # s) = (if fold_case c = fold_case t then name_at ts s else None)"

text \<open>\<open>TAG_BRACKET_OPEN\<close> and \<open>TAG_BRACKET_CLOSE\<close>: the ASCII and the full-width bracket.\<close>

definition open_bracket :: "16 word \<Rightarrow> bool" where
  "open_bracket c \<longleftrightarrow> c = 60 \<or> c = 0xFF1C"

definition close_bracket :: "16 word \<Rightarrow> bool" where
  "close_bracket c \<longleftrightarrow> c = 62 \<or> c = 0xFF1E"

text \<open>\<open>\\b\<close> after a unit, where \<open>s\<close> follows.\<close>

definition boundary :: "16 word \<Rightarrow> jstr \<Rightarrow> bool" where
  "boundary c s \<longleftrightarrow> word_char c \<noteq> (case s of [] \<Rightarrow> False | d # _ \<Rightarrow> word_char d)"

datatype tag_pattern = CloseTag jstr | OpenTag jstr

definition match_close :: "jstr \<Rightarrow> jstr \<Rightarrow> jstr option" where
  "match_close tag s =
     (case s of
        b # c # r \<Rightarrow>
          if open_bracket b \<and> c = 47
          then (case name_at tag r of
                  None \<Rightarrow> None
                | Some q \<Rightarrow>
                    (case dropWhile is_space q of
                       [] \<Rightarrow> None
                     | d # p \<Rightarrow> if close_bracket d then Some p else None))
          else None
      | _ \<Rightarrow> None)"

definition match_open :: "jstr \<Rightarrow> jstr \<Rightarrow> jstr option" where
  "match_open tag s =
     (case s of
        b # r \<Rightarrow>
          if open_bracket b
          then (case name_at tag r of
                  None \<Rightarrow> None
                | Some q \<Rightarrow> if boundary (last tag) q then Some q else None)
          else None
      | _ \<Rightarrow> None)"

definition match_at :: "tag_pattern \<Rightarrow> jstr \<Rightarrow> jstr option" where
  "match_at p s = (case p of CloseTag tag \<Rightarrow> match_close tag s | OpenTag tag \<Rightarrow> match_open tag s)"

definition tag_replacement :: "tag_pattern \<Rightarrow> jstr" where
  "tag_replacement p =
     (case p of CloseTag tag \<Rightarrow> js ''&lt;/'' @ tag @ js ''&gt;'' | OpenTag tag \<Rightarrow> js ''&lt;'' @ tag)"

lemma name_at_split: "name_at ts s = Some r \<Longrightarrow> \<exists>u. s = u @ r \<and> length u = length ts"
proof (induction ts s rule: name_at.induct)
  case (3 t ts c s)
  then obtain u where "s = u @ r" "length u = length ts" by (auto split: if_splits)
  then show ?case by (intro exI [of _ "c # u"]) simp
qed auto

lemma name_at_length: "name_at ts s = Some r \<Longrightarrow> length r \<le> length s"
  by (auto dest: name_at_split)

lemma match_at_shorter: "match_at p s = Some r \<Longrightarrow> length r < length s"
proof (cases p)
  case (CloseTag tag)
  assume "match_at p s = Some r"
  then obtain b r' q d where "s = b # 47 # r'" "name_at tag r' = Some q"
      "dropWhile is_space q = d # r"
    unfolding CloseTag match_at_def match_close_def
    by (auto split: list.splits option.splits if_splits)
  moreover have "length (d # r) \<le> length q"
    using calculation(3) length_dropWhile_le [of is_space q] by simp
  ultimately show ?thesis using name_at_length [of tag r' q] by simp
next
  case (OpenTag tag)
  assume "match_at p s = Some r"
  then show ?thesis
    unfolding OpenTag match_at_def match_open_def
    by (auto split: list.splits option.splits if_splits dest: name_at_length)
qed

text \<open>\<open>s.replace(/pattern/gi, replacement)\<close>.\<close>

function replace_pattern :: "tag_pattern \<Rightarrow> jstr \<Rightarrow> jstr" where
  "replace_pattern p [] = []"
| "replace_pattern p (c # s) =
     (case match_at p (c # s) of
        Some r \<Rightarrow> tag_replacement p @ replace_pattern p r
      | None \<Rightarrow> c # replace_pattern p s)"
  by pat_completeness auto
termination
  by (relation "measure (\<lambda>(p, s). length s)") (auto dest: match_at_shorter)

section \<open>The source's functions\<close>

definition structural_tags :: "jstr list" where
  "structural_tags = map js
    [''myagents-session-event'', ''event-summary'', ''payload'', ''latest-result'',
     ''inbox-message'', ''inbox-reply'', ''system-reminder'', ''instruction'',
     ''CHANNEL_CONTEXT'', ''channel-handoff'', ''source'', ''context'']"

definition neutralize_tag :: "jstr \<Rightarrow> jstr \<Rightarrow> jstr" where
  "neutralize_tag tag safe = replace_pattern (OpenTag tag) (replace_pattern (CloseTag tag) safe)"

definition neutralize :: "jstr \<Rightarrow> jstr" where
  "neutralize body = fold neutralize_tag structural_tags body"

definition html_escape :: "16 word \<Rightarrow> jstr" where
  \<open>html_escape c =
     (if c = 60 then js ''&lt;'' else if c = 62 then js ''&gt;'' else if c = 38 then js ''&amp;''
      else if c = 34 then js ''&quot;'' else if c = 39 then js ''&#39;'' else [c])\<close>

definition sanitize_attribute :: "jstr option \<Rightarrow> jstr" where
  "sanitize_attribute raw =
     (if truthy raw then concat (map html_escape (the raw)) else [])"

text \<open>No match of a pattern starts anywhere in a text.\<close>

fun free_of :: "tag_pattern \<Rightarrow> jstr \<Rightarrow> bool" where
  "free_of p [] = True"
| "free_of p (c # s) = (match_at p (c # s) = None \<and> free_of p s)"

definition tag_free :: "jstr \<Rightarrow> jstr \<Rightarrow> bool" where
  "tag_free s tag \<longleftrightarrow> free_of (CloseTag tag) s \<and> free_of (OpenTag tag) s"

section \<open>A replacement never builds a new tag\<close>

text \<open>
  A text and what a replacement makes of it agree up to the first replaced place, where the one
  goes on with a bracket and the other with an ampersand. No match runs over an ampersand, so a
  match in the second is one in the first.
\<close>

inductive aligned :: "jstr \<Rightarrow> jstr \<Rightarrow> bool" where
  aligned_Nil: "aligned [] []"
| aligned_cut: "open_bracket b \<Longrightarrow> aligned (b # s) (38 # t)"
| aligned_Cons: "aligned s t \<Longrightarrow> aligned (c # s) (c # t)"

inductive_cases aligned_to_Cons: "aligned s (c # t)"

lemma fold_case_amp [simp]: "fold_case 38 = 38" "fold_case c = 38 \<longleftrightarrow> c = 38"
proof -
  show "fold_case 38 = 38" by (simp add: fold_case_def)
  have "c - 32 = 38 \<longleftrightarrow> c = 70" by (simp add: diff_eq_eq)
  then show "fold_case c = 38 \<longleftrightarrow> c = 38" by (auto simp: fold_case_def)
qed

lemma amp_plain [simp]:
  "\<not> is_space 38" "\<not> word_char 38" "\<not> open_bracket 38" "\<not> close_bracket 38"
  by (simp_all add: is_space_def word_char_def letter_def open_bracket_def close_bracket_def)

lemma bracket_plain: "open_bracket b \<Longrightarrow> \<not> word_char b \<and> b \<noteq> 38"
  by (auto simp: open_bracket_def word_char_def letter_def)

definition tag_ok :: "jstr \<Rightarrow> bool" where
  "tag_ok tag \<longleftrightarrow> list_all (\<lambda>c. c \<noteq> 38 \<and> \<not> open_bracket c) tag"

definition pattern_ok :: "tag_pattern \<Rightarrow> bool" where
  "pattern_ok p = (case p of CloseTag tag \<Rightarrow> tag_ok tag | OpenTag tag \<Rightarrow> tag_ok tag)"

lemma name_at_aligned:
  "aligned s t \<Longrightarrow> tag_ok tag \<Longrightarrow> name_at tag t = Some q \<Longrightarrow>
   \<exists>r. name_at tag s = Some r \<and> aligned r q"
proof (induction tag arbitrary: s t)
  case (Cons n tag)
  then obtain c t' where t: "t = c # t'" and eq: "fold_case c = fold_case n" "name_at tag t' = Some q"
    by (cases t) (auto split: if_splits)
  have n: "n \<noteq> 38" "tag_ok tag" using Cons.prems(2) by (simp_all add: tag_ok_def)
  have "c \<noteq> 38"
  proof
    assume "c = 38"
    then have "fold_case n = 38" using eq(1) by simp
    then show False using n(1) by simp
  qed
  then obtain s' where "s = c # s'" "aligned s' t'"
    using Cons.prems(1) unfolding t by (auto elim: aligned_to_Cons)
  then show ?case using Cons.IH [of s' t'] n(2) eq by simp
qed simp

lemma space_aligned:
  "aligned s t \<Longrightarrow> dropWhile is_space t = d # p \<Longrightarrow> close_bracket d \<Longrightarrow>
   \<exists>p'. dropWhile is_space s = d # p'"
  by (induction rule: aligned.induct) (auto split: if_splits)

lemma boundary_aligned: "aligned s t \<Longrightarrow> boundary c s = boundary c t"
  by (induction rule: aligned.cases) (auto simp: boundary_def dest: bracket_plain)

lemma match_aligned:
  assumes "aligned s t" and "pattern_ok p" and "match_at p (c # t) \<noteq> None"
  shows "match_at p (c # s) \<noteq> None"
proof (cases p)
  case (CloseTag tag)
  have tag: "tag_ok tag" using assms(2) by (simp add: pattern_ok_def CloseTag)
  obtain r q d u where c: "open_bracket c" and t: "t = 47 # r" and q: "name_at tag r = Some q"
    and d: "dropWhile is_space q = d # u" "close_bracket d"
    using assms(3) unfolding CloseTag match_at_def match_close_def
    by (auto split: list.splits option.splits if_splits)
  obtain s' where s: "s = 47 # s'" "aligned s' r"
    using assms(1) unfolding t by (auto elim: aligned_to_Cons)
  obtain q' where q': "name_at tag s' = Some q'" "aligned q' q"
    using name_at_aligned [OF s(2) tag q] by blast
  obtain u' where "dropWhile is_space q' = d # u'" using space_aligned [OF q'(2) d] by blast
  then show ?thesis using c q'(1) d(2) by (simp add: CloseTag match_at_def match_close_def s(1))
next
  case (OpenTag tag)
  have tag: "tag_ok tag" using assms(2) by (simp add: pattern_ok_def OpenTag)
  obtain q where c: "open_bracket c" and q: "name_at tag t = Some q" and b: "boundary (last tag) q"
    using assms(3) unfolding OpenTag match_at_def match_open_def
    by (auto split: option.splits if_splits)
  obtain q' where q': "name_at tag s = Some q'" "aligned q' q"
    using name_at_aligned [OF assms(1) tag q] by blast
  then show ?thesis
    using c b boundary_aligned [OF q'(2)] by (simp add: OpenTag match_at_def match_open_def)
qed

lemma match_bracket: "match_at p (c # s) \<noteq> None \<Longrightarrow> open_bracket c"
  by (auto simp: match_at_def match_close_def match_open_def
      split: tag_pattern.splits list.splits option.splits if_splits)

lemma tag_replacement_amp: "\<exists>w. tag_replacement p = 38 # w"
  by (cases p) (simp_all add: tag_replacement_def js_def)

lemma aligned_replace: "aligned s (replace_pattern p s)"
proof (induction p s rule: replace_pattern.induct)
  case (2 p c s)
  show ?case
  proof (cases "match_at p (c # s)")
    case None
    then show ?thesis using 2(1) by (simp add: aligned_Cons)
  next
    case (Some r)
    obtain w where "tag_replacement p = 38 # w" using tag_replacement_amp by blast
    then show ?thesis using Some match_bracket [of p c s] by (simp add: aligned_cut)
  qed
qed (simp add: aligned_Nil)

section \<open>What a replacement leaves free\<close>

lemma free_of_plain: "list_all (\<lambda>c. \<not> open_bracket c) w \<Longrightarrow> free_of p (w @ t) = free_of p t"
proof (induction w)
  case (Cons c w)
  have "match_at p (c # w @ t) = None" 
    using match_bracket [of p c "w @ t"] Cons.prems by (cases "match_at p (c # w @ t)") simp_all
  then show ?case using Cons by simp
qed simp

lemma tag_replacement_plain: "pattern_ok p \<Longrightarrow> list_all (\<lambda>c. \<not> open_bracket c) (tag_replacement p)"
  by (cases p) (simp_all add: tag_replacement_def pattern_ok_def tag_ok_def list_all_iff js_def
      open_bracket_def)

lemma free_of_suffix: "free_of p (u @ s) \<Longrightarrow> free_of p s"
  by (induction u) auto

lemma dropWhile_suffix: "dropWhile P s = r \<Longrightarrow> \<exists>u. s = u @ r"
  by (metis takeWhile_dropWhile_id)

lemma match_at_suffix: "match_at p s = Some r \<Longrightarrow> \<exists>u. s = u @ r"
proof (cases p)
  case (CloseTag tag)
  assume "match_at p s = Some r"
  then obtain b r' q d where s: "s = b # 47 # r'" and q: "name_at tag r' = Some q"
      and d: "dropWhile is_space q = d # r"
    unfolding CloseTag match_at_def match_close_def
    by (auto split: list.splits option.splits if_splits)
  obtain u where "r' = u @ q" using name_at_split [OF q] by blast
  moreover obtain v where "q = v @ d # r" using dropWhile_suffix [OF d] by blast
  ultimately have "s = (b # 47 # u @ v @ [d]) @ r" using s by simp
  then show ?thesis by blast
next
  case (OpenTag tag)
  assume "match_at p s = Some r"
  then obtain b r' where "s = b # r'" "name_at tag r' = Some r"
    unfolding OpenTag match_at_def match_open_def
    by (auto split: list.splits option.splits if_splits)
  then show ?thesis by (metis name_at_split append_Cons)
qed

lemma free_replace:
  "pattern_ok p \<Longrightarrow> pattern_ok q \<Longrightarrow> q = p \<or> free_of q s \<Longrightarrow> free_of q (replace_pattern p s)"
proof (induction p s rule: replace_pattern.induct)
  case (2 p c s)
  show ?case
  proof (cases "match_at p (c # s)")
    case None
    then have "match_at q (c # s) = None" using 2(5) by auto
    then have "match_at q (c # replace_pattern p s) = None"
      using match_aligned [OF aligned_replace 2(4)] by blast
    then show ?thesis using 2(1) [OF None 2(3,4)] 2(5) None by auto
  next
    case (Some r)
    obtain u where "c # s = u @ r" using match_at_suffix [OF Some] by blast
    then have "q = p \<or> free_of q r" using 2(5) free_of_suffix by metis
    then have "free_of q (replace_pattern p r)" by (rule 2(2) [OF Some 2(3,4)])
    then show ?thesis
      using Some free_of_plain [OF tag_replacement_plain [OF 2(3)], of q] by simp
  qed
qed simp

lemma replace_free: "free_of p s \<Longrightarrow> replace_pattern p s = s"
  by (induction s) auto

lemma tag_patterns_ok: "tag_ok tag \<Longrightarrow> pattern_ok (CloseTag tag)" "tag_ok tag \<Longrightarrow> pattern_ok (OpenTag tag)"
  by (simp_all add: pattern_ok_def)

lemma neutralize_tag_free: "tag_ok tag \<Longrightarrow> tag_free (neutralize_tag tag s) tag"
  by (simp add: tag_free_def neutralize_tag_def free_replace tag_patterns_ok)

lemma neutralize_tag_keeps: "tag_ok tag \<Longrightarrow> tag_ok t \<Longrightarrow> tag_free s t \<Longrightarrow> tag_free (neutralize_tag tag s) t"
  by (simp add: tag_free_def neutralize_tag_def free_replace tag_patterns_ok)

lemma neutralize_tag_same: "tag_free s tag \<Longrightarrow> neutralize_tag tag s = s"
  by (simp add: tag_free_def neutralize_tag_def replace_free)

lemma fold_neutralize:
  "list_all tag_ok tags \<Longrightarrow> list_all tag_ok seen \<Longrightarrow> list_all (tag_free s) seen \<Longrightarrow>
   list_all (tag_free (fold neutralize_tag tags s)) (seen @ tags)"
proof (induction tags arbitrary: seen s)
  case (Cons tag tags)
  have "list_all (tag_free (neutralize_tag tag s)) (seen @ [tag])"
    using Cons.prems by (auto simp: list_all_iff neutralize_tag_free neutralize_tag_keeps)
  then show ?case using Cons.IH [of "seen @ [tag]"] Cons.prems by simp
qed simp

lemma fold_neutralize_same: "list_all (tag_free s) tags \<Longrightarrow> fold neutralize_tag tags s = s"
  by (induction tags) (simp_all add: neutralize_tag_same)

lemma structural_tags_ok: "list_all tag_ok structural_tags"
  by (simp add: structural_tags_def tag_ok_def js_def open_bracket_def)

lemma neutralize_free: "list_all (tag_free (neutralize s)) structural_tags"
  using fold_neutralize [OF structural_tags_ok, of "[]" s] by (simp add: neutralize_def)

lemma neutralize_same: "list_all (tag_free s) structural_tags \<Longrightarrow> neutralize s = s"
  by (simp add: neutralize_def fold_neutralize_same)

text \<open>
  C15. Neutralizing is complete: whatever the text, in the result no opening and no closing tag
  of any of the twelve structural names is left, in either width of bracket, in any case and with
  any white space before the closing bracket, although the replacements run one after the other
  and each could have built a tag for another. A text without such tags is not touched, so the
  operation is idempotent.
\<close>

theorem neutralize_complete:
  "list_all (tag_free (neutralize s)) structural_tags
   \<and> neutralize (neutralize s) = neutralize s
   \<and> (neutralize s = s) = list_all (tag_free s) structural_tags"
proof -
  have "neutralize s = s \<longleftrightarrow> list_all (tag_free s) structural_tags"
    using neutralize_free [of s] neutralize_same [of s] by auto
  then show ?thesis using neutralize_free neutralize_same by simp
qed

end
