(* ===== verification/SessionEvent.thy ===== *)
theory SessionEvent
  imports TagNeutralizer JsonText
begin

text \<open>
  Session events of server/inbox/session-event.ts: what one session, a watch, a Task or the
  network return tells another session, and the prompt that carries it. The schema that validates
  a channel handoff is a library call and is the argument \<open>parse\<close>, which returns an error or the
  validated handoff.
\<close>

section \<open>Events\<close>

datatype session_event_type =
    Send_Request_Type
  | Send_Result_Type
  | Watch_Already_Idle
  | Watch_Completed
  | Watch_Error
  | Space_Issue_Delivery_Type
  | Task_Comment_Type
  | Task_Result_Type
  | Network_Return_Unavailable_Type

fun type_name :: "session_event_type \<Rightarrow> jstr" where
  "type_name Send_Request_Type = js ''send.request''"
| "type_name Send_Result_Type = js ''send.result''"
| "type_name Watch_Already_Idle = js ''watch.already_idle''"
| "type_name Watch_Completed = js ''watch.completed''"
| "type_name Watch_Error = js ''watch.error''"
| "type_name Space_Issue_Delivery_Type = js ''space.issue_delivery''"
| "type_name Task_Comment_Type = js ''task.comment''"
| "type_name Task_Result_Type = js ''task.result''"
| "type_name Network_Return_Unavailable_Type = js ''network.return_unavailable''"

datatype source_notification = Notify_Auto | Notify_None
datatype session_event_status = Event_Ok | Event_Failed
datatype source_kind = Internal_Session | External_Cli
datatype event_terminal = Terminal_Complete | Terminal_Stopped | Terminal_Error
datatype result_source = Result_Live | Result_History | Result_None | Result_Unavailable
datatype result_scope = Latest_Session_Result

fun notification_name :: "source_notification \<Rightarrow> jstr" where
  "notification_name Notify_Auto = js ''auto''"
| "notification_name Notify_None = js ''none''"

fun event_status_name :: "session_event_status \<Rightarrow> jstr" where
  "event_status_name Event_Ok = js ''ok''"
| "event_status_name Event_Failed = js ''error''"

fun source_kind_name :: "source_kind \<Rightarrow> jstr" where
  "source_kind_name Internal_Session = js ''internal-session''"
| "source_kind_name External_Cli = js ''external-cli''"

fun event_terminal_name :: "event_terminal \<Rightarrow> jstr" where
  "event_terminal_name Terminal_Complete = js ''complete''"
| "event_terminal_name Terminal_Stopped = js ''stopped''"
| "event_terminal_name Terminal_Error = js ''error''"

fun result_source_name :: "result_source \<Rightarrow> jstr" where
  "result_source_name Result_Live = js ''live''"
| "result_source_name Result_History = js ''history''"
| "result_source_name Result_None = js ''none''"
| "result_source_name Result_Unavailable = js ''unavailable''"

fun result_scope_name :: "result_scope \<Rightarrow> jstr" where
  "result_scope_name Latest_Session_Result = js ''latest-session-result''"

record session_event_base =
  se_version :: nat
  se_event_id :: jstr
  se_created_at :: jstr
  se_source_session :: "jstr option"
  se_source_kind :: "source_kind option"
  se_source_label :: "jstr option"
  se_target_session :: "jstr option"
  se_target_label :: "jstr option"
  se_turn_id :: "jstr option"
  se_terminal_status :: "event_terminal option"
  se_request_ids :: "jstr list option"
  se_watch_ids :: "jstr list option"
  se_result_source :: "result_source option"
  se_result_scope :: "result_scope option"
  se_source_agent :: "jstr option"
  se_source_device :: "jstr option"

record send_request =
  rq_notification :: source_notification
  rq_payload :: jstr
  rq_handoff :: "json option"

record send_result =
  rs_request_event :: "jstr option"
  rs_status :: session_event_status
  rs_terminal_reason :: "jstr option"
  rs_error_code :: "jstr option"
  rs_payload :: jstr

datatype watch_kind = Already_Idle | Completed | Watch_Failed

record watch_event =
  we_watch_id :: jstr
  we_state_at_registration :: jstr
  we_final_state :: "jstr option"
  we_terminal_reason :: "jstr option"
  we_latest_result :: jstr

record space_issue_delivery =
  si_space :: jstr
  si_registered_agent :: jstr
  si_delivery :: jstr
  si_delivery_kind :: "jstr option"
  si_delivery_reason :: "jstr option"
  si_claim :: "jstr option"
  si_issue :: jstr
  si_issue_title :: jstr
  si_issue_state :: jstr
  si_goal :: "jstr option"
  si_goal_path :: "jstr option"
  si_notification_version :: "nat option"
  si_source_update :: "jstr option"
  si_from_version :: "nat option"
  si_to_version :: "nat option"
  si_protocol_2 :: bool
  si_instruction_revision :: "nat option"
  si_delivery_count :: "nat option"
  si_update_summary :: "jstr option"

record event_reply_context =
  er_comment :: jstr
  er_author :: jstr
  er_created_at :: jstr
  er_quote :: jstr

record task_comment_event =
  ce_task :: jstr
  ce_task_name :: jstr
  ce_task_md :: jstr
  ce_comment :: jstr
  ce_reply :: "event_reply_context option"

record task_result_event =
  tr_task :: jstr
  tr_delivery :: jstr
  tr_attempt :: jstr
  tr_channel :: jstr
  tr_session_key :: jstr
  tr_title :: jstr
  tr_payload :: jstr
  tr_status_only :: bool
  tr_same_session :: bool

record network_return_unavailable =
  nr_request_event :: "jstr option"
  nr_watch :: "jstr option"
  nr_reason :: jstr
  nr_payload :: jstr

datatype session_event =
    Send_Request session_event_base send_request
  | Send_Result session_event_base send_result
  | Watch_Event session_event_base watch_kind watch_event
  | Space_Issue_Delivery session_event_base space_issue_delivery
  | Task_Comment session_event_base task_comment_event
  | Task_Result session_event_base task_result_event
  | Network_Return_Unavailable session_event_base network_return_unavailable

fun event_base :: "session_event \<Rightarrow> session_event_base" where
  "event_base (Send_Request b _) = b"
| "event_base (Send_Result b _) = b"
| "event_base (Watch_Event b _ _) = b"
| "event_base (Space_Issue_Delivery b _) = b"
| "event_base (Task_Comment b _) = b"
| "event_base (Task_Result b _) = b"
| "event_base (Network_Return_Unavailable b _) = b"

fun watch_type :: "watch_kind \<Rightarrow> session_event_type" where
  "watch_type Already_Idle = Watch_Already_Idle"
| "watch_type Completed = Watch_Completed"
| "watch_type Watch_Failed = Watch_Error"

fun event_type :: "session_event \<Rightarrow> session_event_type" where
  "event_type (Send_Request _ _) = Send_Request_Type"
| "event_type (Send_Result _ _) = Send_Result_Type"
| "event_type (Watch_Event _ k _) = watch_type k"
| "event_type (Space_Issue_Delivery _ _) = Space_Issue_Delivery_Type"
| "event_type (Task_Comment _ _) = Task_Comment_Type"
| "event_type (Task_Result _ _) = Task_Result_Type"
| "event_type (Network_Return_Unavailable _ _) = Network_Return_Unavailable_Type"

text \<open>A channel handoff after validation.\<close>

record handoff_attachment =
  ha_path :: jstr
  ha_name :: jstr
  ha_mime :: jstr
  ha_image :: bool
  ha_caption :: "jstr option"

record channel_handoff =
  ch_source :: "json option"
  ch_target :: json
  ch_context :: jstr
  ch_attachments :: "handoff_attachment list option"

section \<open>The opening tag\<close>

definition attr :: "string \<Rightarrow> jstr option \<Rightarrow> jstr option" where
  \<open>attr name v =
     (if \<not> truthy v then None
      else Some (js name @ js ''="'' @ sanitize_attribute v @ js ''"''))\<close>

text \<open>\<open>[...].filter(Boolean)\<close>: an attribute that is there is never the empty string.\<close>

definition present :: "jstr option list \<Rightarrow> jstr list" where
  "present xs = List.map_filter (\<lambda>x. x) xs"

datatype event_error = Must_Bypass session_event_type | Handoff_Schema jstr | Invalid_Handoff

fun renderable :: "session_event \<Rightarrow> bool" where
  "renderable (Space_Issue_Delivery _ _) = False"
| "renderable (Task_Comment _ _) = False"
| "renderable _ = True"

definition id_list :: "jstr list option \<Rightarrow> jstr option" where
  "id_list ids = map_option (join_with (js '','')) ids"

fun own_attrs :: "session_event \<Rightarrow> jstr option list" where
  "own_attrs (Send_Request _ r) =
     [attr ''source_notification'' (Some (notification_name (rq_notification r)))]"
| "own_attrs (Send_Result _ r) =
     [attr ''request_event_id'' (rs_request_event r),
      attr ''status'' (Some (event_status_name (rs_status r))),
      attr ''terminal_reason'' (rs_terminal_reason r),
      attr ''error_code'' (rs_error_code r)]"
| "own_attrs (Watch_Event _ _ w) =
     [attr ''watch_id'' (Some (we_watch_id w)),
      attr ''target_state_at_registration'' (Some (we_state_at_registration w)),
      attr ''final_state'' (we_final_state w),
      attr ''terminal_reason'' (we_terminal_reason w)]"
| "own_attrs (Network_Return_Unavailable _ n) =
     [attr ''reason'' (Some (nr_reason n)),
      attr ''request_event_id'' (nr_request_event n),
      attr ''watch_id'' (nr_watch n)]"
| "own_attrs (Task_Result _ t) =
     [attr ''task_id'' (Some (tr_task t)), attr ''delivery_id'' (Some (tr_delivery t))]"
| "own_attrs _ = []"

definition version_attr :: "session_event_base \<Rightarrow> jstr option" where
  "version_attr b = attr ''version'' (Some (dec_nat (se_version b)))"

definition common_attrs :: "session_event_base \<Rightarrow> session_event_type \<Rightarrow> jstr option list" where
  "common_attrs b ty =
     [version_attr b,
      attr ''type'' (Some (type_name ty)),
      attr ''event_id'' (Some (se_event_id b)),
      attr ''source_session_id'' (se_source_session b),
      attr ''source_kind'' (map_option source_kind_name (se_source_kind b)),
      attr ''source_label'' (se_source_label b),
      attr ''source_agent'' (se_source_agent b),
      attr ''source_device'' (se_source_device b),
      attr ''turn_id'' (se_turn_id b),
      attr ''terminal_status'' (map_option event_terminal_name (se_terminal_status b)),
      attr ''request_event_ids'' (id_list (se_request_ids b)),
      attr ''watch_ids'' (id_list (se_watch_ids b)),
      attr ''result_source'' (map_option result_source_name (se_result_source b)),
      attr ''result_scope'' (map_option result_scope_name (se_result_scope b)),
      attr ''target_session_id'' (se_target_session b),
      attr ''target_label'' (se_target_label b)]"

definition event_attrs :: "session_event \<Rightarrow> jstr list" where
  "event_attrs e =
     present (common_attrs (event_base e) (event_type e) @ own_attrs e @
       [attr ''created_at'' (Some (se_created_at (event_base e)))])"

definition render_open_tag :: "session_event \<Rightarrow> jstr" where
  "render_open_tag e =
     js ''<myagents-session-event'' @ [10, 32, 32] @ join_with [10, 32, 32] (event_attrs e) @ js ''>''"

section \<open>Summary and payload\<close>

fun watch_summary :: "watch_kind \<Rightarrow> jstr" where
  "watch_summary Already_Idle = js ''The target session was already idle when this watch was registered, so no long-running watcher was created.''"
| "watch_summary Completed = js ''The watched target session has finished the turn that was active when this watch was registered.''"
| "watch_summary Watch_Failed = js ''MyAgents could not confirm normal completion for the watched target session.''"

definition task_result_summary :: jstr where
  "task_result_summary = js ''MyAgents returned a Task result to this conversation. Use this information to decide whether and how to inform the user, following this turn'' @ [0x2019] @ js ''s Channel delivery instruction. The Task only hands information to this Session; it does not send your response. Do not rerun the Task or reply to its execution Session. Preserve the Task/result reference for follow-up.''"

definition network_summary :: jstr where
  "network_summary = js ''MyAgents could not deliver the remote result after connection recovery ended. This notification does not determine whether the remote task succeeded or failed.''"

definition request_summary :: "session_event_base \<Rightarrow> send_request \<Rightarrow> jstr" where
  "request_summary b r =
     (if se_source_kind b = Some External_Cli
      then js ''An authenticated local program sent this session a one-way request through MyAgents. There is no source Session and no automatic result delivery.''
      else if rq_notification r = Notify_None
      then js ''Another MyAgents session sent this session a one-way request or notification. The source session will not automatically receive this turn's final result.''
      else js ''Another MyAgents session sent this session a request. Work on it normally in this session. When this turn finishes, MyAgents will automatically deliver this turn's final result back to the source session.'')"

definition result_summary :: "send_result \<Rightarrow> jstr" where
  "result_summary r =
     (if rs_status r = Event_Failed
      then js ''MyAgents attempted to deliver the final result of the target session turn triggered by your previous `session send` request, but that turn did not complete successfully.''
      else js ''MyAgents automatically delivered the final result of the target session turn triggered by your previous `session send` request.'')"

fun event_summary :: "session_event \<Rightarrow> jstr" where
  "event_summary (Task_Result _ _) = task_result_summary"
| "event_summary (Network_Return_Unavailable _ _) = network_summary"
| "event_summary (Send_Request b r) = request_summary b r"
| "event_summary (Send_Result _ r) = result_summary r"
| "event_summary (Watch_Event _ k _) = watch_summary k"
| "event_summary _ = []"

definition or_no_text :: "jstr \<Rightarrow> jstr" where
  "or_no_text s = (if truthy_str s then s else js ''(no text response)'')"

fun event_payload :: "session_event \<Rightarrow> jstr" where
  "event_payload (Watch_Event _ _ w) =
     js ''<latest-result>'' @ [10] @ neutralize (or_no_text (we_latest_result w)) @ [10] @
       js ''</latest-result>''"
| "event_payload (Send_Request _ r) = neutralize (or_no_text (rq_payload r))"
| "event_payload (Send_Result _ r) = neutralize (or_no_text (rs_payload r))"
| "event_payload (Task_Result _ t) = neutralize (or_no_text (tr_payload t))"
| "event_payload (Network_Return_Unavailable _ n) = neutralize (or_no_text (nr_payload n))"
| "event_payload _ = []"

section \<open>The prompt\<close>

definition event_lines :: "session_event \<Rightarrow> jstr list" where
  "event_lines e =
     [render_open_tag e,
      js ''<event-summary>'',
      event_summary e,
      js ''</event-summary>'',
      js ''<payload>'',
      event_payload e,
      js ''</payload>'',
      js ''</'' @ session_event_tag @ js ''>'']"

definition handoff_attrs :: "session_event_base \<Rightarrow> jstr list" where
  "handoff_attrs b =
     present
       [version_attr b, attr ''type'' (Some (type_name Send_Request_Type)),
        attr ''source_session_id'' (se_source_session b), attr ''source_label'' (se_source_label b),
        attr ''target_session_id'' (se_target_session b)]"

definition handoff_instruction :: "channel_handoff \<Rightarrow> jstr" where
  "handoff_instruction h =
     (if ch_source h \<noteq> None
      then [0x8FD9, 0x662F, 0x4E00, 0x6761, 0x6765, 0x81EA, 0x5176, 0x4ED6] @ js '' Channel '' @ [0x4F1A, 0x8BDD, 0x6240, 0x5173, 0x8054] @ js '' Session '' @ [0x7684, 0x6D88, 0x606F, 0x3002]
      else [0x8FD9, 0x662F, 0x4E00, 0x6761, 0x6765, 0x81EA, 0x5176, 0x4ED6] @ js '' Session '' @ [0x7684, 0x6D88, 0x606F, 0x3002])"

definition handoff_note :: jstr where
  "handoff_note = [0x7ED3, 0x5408] @ js '' context '' @ [0x5411, 0x5F53, 0x524D, 0x4F1A, 0x8BDD, 0x7528, 0x6237, 0x8F6C, 0x8FBE] @ js '' payload'' @ [0xFF1B, 0x672C, 0x6B21, 0x5C1A, 0x672A, 0x5916, 0x53D1, 0x3002]"

definition attachment_line :: "handoff_attachment \<Rightarrow> jstr" where
  "attachment_line a =
     js ''@'' @ ha_path a @
       (if truthy (ha_caption a) then js '' '' @ [0x2014] @ js '' '' @ the (ha_caption a) else [])"

definition attachment_text :: "handoff_attachment list \<Rightarrow> jstr" where
  "attachment_text as =
     [0x9644, 0x4EF6, 0xFF08, 0x53EF, 0x8BFB, 0x53D6, 0x6216, 0x4F7F, 0x7528] @ js '' CLI '' @ [0x8F6C, 0x8FBE, 0xFF09, 0xFF1A, 10] @
       join_with [10] (map attachment_line as)"

definition handoff_source_lines :: "channel_handoff \<Rightarrow> jstr list" where
  "handoff_source_lines h =
     (case ch_source h of
        None \<Rightarrow> []
      | Some v \<Rightarrow> [js ''<source>'', neutralize (json_text v), js ''</source>''])"

definition handoff_attachment_lines :: "channel_handoff \<Rightarrow> jstr list" where
  "handoff_attachment_lines h =
     (case ch_attachments h of
        None \<Rightarrow> []
      | Some as \<Rightarrow> if as = [] then [] else [neutralize (attachment_text as)])"

definition handoff_lines :: "session_event_base \<Rightarrow> send_request \<Rightarrow> channel_handoff \<Rightarrow> jstr list" where
  "handoff_lines b r h =
     [js ''<myagents-session-event '' @ join_with (js '' '') (handoff_attrs b) @ js ''>'',
      js ''<instruction>'',
      handoff_instruction h,
      handoff_note,
      js ''</instruction>'',
      js ''<channel-handoff>''] @
     handoff_source_lines h @
     [js ''<payload>'', neutralize (rq_payload r)] @
     handoff_attachment_lines h @
     [js ''</payload>'',
      js ''<context>'', neutralize (ch_context h), js ''</context>'',
      js ''</channel-handoff>'',
      js ''</myagents-session-event>'']"

definition envelope :: "jstr list \<Rightarrow> jstr" where
  "envelope ls = lines_text (reminder_open # ls @ [reminder_close])"

definition handoff_valid :: "session_event_base \<Rightarrow> send_request \<Rightarrow> bool" where
  "handoff_valid b r \<longleftrightarrow>
     truthy (se_source_session b) \<and> truthy (se_target_session b)
     \<and> se_source_kind b = Some Internal_Session \<and> rq_notification r = Notify_None
     \<and> truthy_str (trim (rq_payload r))"

definition event_handoff :: "session_event \<Rightarrow> (session_event_base \<times> send_request \<times> json) option" where
  "event_handoff e =
     (case e of Send_Request b r \<Rightarrow> map_option (\<lambda>h. (b, r, h)) (rq_handoff r) | _ \<Rightarrow> None)"

definition render_prompt ::
    "(json \<Rightarrow> jstr + channel_handoff) \<Rightarrow> session_event \<Rightarrow> event_error + jstr" where
  "render_prompt parse e =
     (if \<not> renderable e then Inl (Must_Bypass (event_type e))
      else case event_handoff e of
          Some (b, r, raw) \<Rightarrow>
            (case parse raw of
               Inl err \<Rightarrow> Inl (Handoff_Schema err)
             | Inr h \<Rightarrow> if \<not> handoff_valid b r then Inl Invalid_Handoff
                        else Inr (envelope (handoff_lines b r h)))
        | None \<Rightarrow> Inr (envelope (event_lines e)))"

section \<open>Searching a text of lines\<close>

text \<open>A pattern without a newline is found in a text of lines where one of the lines has it.\<close>

lemma prefix_line:
  assumes "10 \<notin> set pat" and "prefix pat (s @ 10 # t)"
  shows "prefix pat s"
proof -
  from assms(2) consider "prefix pat s" | us where "pat = s @ us" "prefix us (10 # t)"
    unfolding prefix_append by blast
  then show ?thesis
  proof cases
    case 2
    then have "us = []" using assms(1) by (cases us) simp_all
    then show ?thesis using 2(1) by simp
  qed
qed

lemma index_of_line:
  "10 \<notin> set pat \<Longrightarrow> pat \<noteq> [] \<Longrightarrow> index_of pat s = None \<Longrightarrow>
   index_of pat (s @ 10 # t) = map_option (\<lambda>i. length s + 1 + i) (index_of pat t)"
proof (induction s)
  case Nil
  then have "\<not> prefix pat (10 # t)" by (cases pat) auto
  then show ?case by (cases "index_of pat t") simp_all
next
  case (Cons c s)
  have "\<not> prefix pat (c # s @ 10 # t)"
    using prefix_line [of pat "c # s" t] Cons.prems by (auto split: if_splits)
  moreover have "index_of pat s = None" using Cons.prems(3) by (auto split: if_splits)
  ultimately show ?case using Cons by (simp add: option.map_comp o_def)
qed

lemma index_of_lines_None:
  "10 \<notin> set pat \<Longrightarrow> pat \<noteq> [] \<Longrightarrow> list_all (\<lambda>l. index_of pat l = None) ls \<Longrightarrow>
   index_of pat (lines_text ls) = None"
  by (induction "[10] :: jstr" ls rule: join_with.induct) (simp_all add: index_of_line)

lemma index_of_no_open: "60 \<notin> set s \<Longrightarrow> index_of (60 # pat) s = None"
  by (induction s) auto

lemma index_of_other_tag: "c \<noteq> d \<Longrightarrow> 60 \<notin> set (d # s) \<Longrightarrow> index_of (60 # c # pat) (60 # d # s) = None"
  by (simp add: index_of_no_open)

lemma js_no_unit: "d \<notin> set l \<Longrightarrow> word_of_nat (of_char d) \<notin> set (js l)"
  by (induction l) (auto simp: js_Cons)

lemma js_no_bracket:
  "CHR ''<'' \<notin> set l \<Longrightarrow> 60 \<notin> set (js l)" "CHR ''>'' \<notin> set l \<Longrightarrow> 62 \<notin> set (js l)"
  using js_no_unit [of "CHR ''<''" l] js_no_unit [of "CHR ''>''" l] by simp_all

lemma name_at_self: "name_at tag (tag @ r) = Some r"
  by (induction tag) simp_all

text \<open>A text without the structural tag has neither of its two plain forms.\<close>

lemma tag_free_absent:
  assumes "tag_free s tag" and "word_char (last tag)"
  shows "index_of (60 # 47 # tag @ [62]) s = None" and "index_of (60 # tag @ [62]) s = None"
proof -
  have "\<not> is_space 62" "\<not> word_char 62"
    by (simp_all add: is_space_def word_char_def letter_def)
  then have close: "match_at (CloseTag tag) ((60 # 47 # tag @ [62]) @ r) = Some r"
    and opens: "match_at (OpenTag tag) ((60 # tag @ [62]) @ r) = Some (62 # r)" for r
    using assms(2) by (simp_all add: match_at_def match_close_def match_open_def name_at_self
        open_bracket_def close_bracket_def boundary_def)
  have "free_of (CloseTag tag) s \<Longrightarrow> index_of (60 # 47 # tag @ [62]) s = None"
  proof (induction s)
    case (Cons c s)
    have "\<not> prefix (60 # 47 # tag @ [62]) (c # s)"
    proof
      assume "prefix (60 # 47 # tag @ [62]) (c # s)"
      then obtain r where r: "c # s = (60 # 47 # tag @ [62]) @ r" unfolding prefix_def by blast
      show False using Cons.prems close [of r] unfolding r [symmetric] by simp
    qed
    then show ?case using Cons by simp
  qed simp
  moreover have "free_of (OpenTag tag) s \<Longrightarrow> index_of (60 # tag @ [62]) s = None"
  proof (induction s)
    case (Cons c s)
    have "\<not> prefix (60 # tag @ [62]) (c # s)"
    proof
      assume "prefix (60 # tag @ [62]) (c # s)"
      then obtain r where r: "c # s = (60 # tag @ [62]) @ r" unfolding prefix_def by blast
      show False using Cons.prems opens [of r] unfolding r [symmetric] by simp
    qed
    then show ?case using Cons by simp
  qed simp
  ultimately show "index_of (60 # 47 # tag @ [62]) s = None" "index_of (60 # tag @ [62]) s = None"
    using assms(1) by (simp_all add: tag_free_def)
qed

section \<open>The envelope of an event\<close>

abbreviation absent :: "jstr \<Rightarrow> bool" where
  "absent s \<equiv> index_of reminder_close s = None"

lemma close_units: "reminder_close = 60 # 47 # js ''system-reminder'' @ [62]"
  by (simp add: reminder_close_def js_def)

lemma close_line: "10 \<notin> set reminder_close" "reminder_close \<noteq> []"
  by (simp_all add: reminder_close_def js_def)

lemma absent_plain: "60 \<notin> set s \<Longrightarrow> absent s"
  unfolding close_units by (rule index_of_no_open)

lemma absent_neutral: "absent (neutralize s)"
proof -
  have "tag_free (neutralize s) (js ''system-reminder'')"
    using neutralize_free [of s] by (simp add: structural_tags_def)
  then show ?thesis
    unfolding close_units
    by (rule tag_free_absent(1)) (simp add: js_def word_char_def letter_def)
qed

lemma index_of_close: "index_of reminder_close (reminder_close @ t) = Some 0"
  by (simp add: reminder_close_def js_def)

text \<open>An envelope around lines that do not close it shows nothing.\<close>

lemma envelope_parsed:
  assumes "list_all absent ls" and "ls \<noteq> []"
  defines "r \<equiv> parse_single (Some (envelope ls))"
  shows "pr_has r" and "pr_visible r = []" and "pr_body r = trim (10 # lines_text ls @ [10])"
    and "pr_kind r = leading_kind (pr_body r)"
proof -
  let ?front = "lines_text (reminder_open # ls)"
  have whole: "envelope ls = ?front @ 10 # reminder_close"
    using join_append [of "reminder_open # ls" "[reminder_close]" "[10]"] by (simp add: envelope_def)
  have front: "?front = reminder_open @ 10 # lines_text ls"
    using assms(2) by (simp add: join_Cons)
  have "absent reminder_open" by (simp add: reminder_open_def reminder_close_def js_def)
  then have "absent ?front" using assms(1) by (intro index_of_lines_None close_line) simp
  then have at: "index_of reminder_close (envelope ls) = Some (length ?front + 1)"
    unfolding whole using index_of_line [OF close_line, of ?front reminder_close]
      index_of_close [of "[]"] by simp
  have start: "trim_start (envelope ls) = envelope ls"
    unfolding whole front by (simp add: reminder_open_def js_def trim_start_Cons is_space_def)
  have lead: "prefix reminder_open (envelope ls)" by (simp add: whole front)
  have body: "drop (length reminder_open) (take (length ?front + 1) (envelope ls))
      = 10 # lines_text ls @ [10]"
    unfolding whole front by simp
  have tail: "drop (length ?front + 1 + length reminder_close) (envelope ls) = []"
    unfolding whole by simp
  have "r = \<lparr>pr_has = True, pr_kind = leading_kind (trim (10 # lines_text ls @ [10])),
      pr_body = trim (10 # lines_text ls @ [10]), pr_visible = [],
      pr_raw = take (length ?front + 1 + length reminder_close) (envelope ls)\<rparr>"
    unfolding r_def parse_single_def Let_def option.case start at
    using lead body tail by (simp add: drop_newline_def)
  then show "pr_has r" "pr_visible r = []" "pr_body r = trim (10 # lines_text ls @ [10])"
    "pr_kind r = leading_kind (pr_body r)"
    by simp_all
qed

lemma envelope_leading:
  assumes "list_all absent ls" and "ls \<noteq> []"
  shows "parse_leading (Some (envelope ls)) = parse_single (Some (envelope ls))"
    and "strip_leading (Some (envelope ls)) = []"
proof -
  show "parse_leading (Some (envelope ls)) = parse_single (Some (envelope ls))"
    using envelope_parsed [OF assms] by (simp add: parse_leading_def Let_def)
  then show "strip_leading (Some (envelope ls)) = []"
    using envelope_parsed [OF assms] by (simp add: strip_leading_def Let_def)
qed

lemma leading_kind_open:
  assumes "tag_name t" and "\<not> (word_char c \<or> c = 45)" and "62 \<in> set (c # w)"
  shows "leading_kind (60 # t @ c # w) = Some t"
proof -
  obtain n r where t: "t = n # r" using assms by (auto simp: tag_name_def neq_Nil_conv)
  have n: "letter n" and r: "list_all (\<lambda>c. word_char c \<or> c = 45) r"
    using assms by (simp_all add: tag_name_def t)
  have take: "takeWhile (\<lambda>c. word_char c \<or> c = 45) (r @ c # w) = r"
    using r assms(2) by (simp add: takeWhile_append list_all_iff)
  have "dropWhile (\<lambda>c. c = 45) (rev t) = rev t"
    using assms by (cases t rule: rev_cases) (simp_all add: tag_name_def)
  moreover have "\<not> is_space 60" by (simp add: is_space_def)
  moreover have "62 \<in> set (r @ c # w)" using assms(3) by auto
  ultimately show ?thesis
    using n take by (simp add: leading_kind_def trim_start_Cons t)
qed

text \<open>Lines that begin and end with a tag are the body as they are.\<close>

lemma trim_lines:
  assumes "\<not> is_space c" and "\<not> is_space d"
  shows "trim (10 # (c # s @ [d]) @ [10]) = c # s @ [d]"
proof -
  have "is_space 10" by (simp add: is_space_def)
  then have "trim (10 # (c # s @ [d]) @ [10]) = trim_end ((c # s @ [d]) @ [10])"
    using assms(1) by (simp add: trim_def trim_start_space trim_start_Cons)
  also have "\<dots> = c # s @ [d]" using \<open>is_space 10\<close> assms(2) by (simp add: trim_end_def)
  finally show ?thesis .
qed

section \<open>Attributes\<close>

lemma html_escape_ref: "html_escape = ref_unit (js ''&#39;'')"
  by (rule ext) (simp add: html_escape_def ref_unit_def)

lemma sanitize_units: "sanitize_attribute (Some v) = concat (map (ref_unit (js ''&#39;'')) v)"
  by (simp add: sanitize_attribute_def html_escape_ref)

lemma sanitize_plain:
  assumes "c \<in> {60, 62, 34}"
  shows "c \<notin> set (sanitize_attribute v)"
proof -
  have "c \<notin> set (ref_unit (js ''&#39;'') d)" for d
    using assms by (auto simp: ref_unit_def js_def)
  then show ?thesis by (auto simp: sanitize_attribute_def html_escape_ref)
qed

abbreviation unspaced :: "jstr \<Rightarrow> bool" where
  "unspaced s \<equiv> list_all (\<lambda>c. \<not> is_space c) s"

lemma sanitize_unspaced: "unspaced s \<Longrightarrow> unspaced (sanitize_attribute (Some s))"
proof -
  assume s: "unspaced s"
  have lits: "unspaced (js ''&amp;'')" "unspaced (js ''&lt;'')" "unspaced (js ''&gt;'')"
    "unspaced (js ''&quot;'')" "unspaced (js ''&#39;'')"
    by (simp_all add: js_def is_space_def)
  have "unspaced (ref_unit (js ''&#39;'') c)" if "\<not> is_space c" for c
    using that lits by (simp add: ref_unit_def)
  then show ?thesis using s unfolding sanitize_units by (induction s) simp_all
qed

lemma decode_sanitize: "v \<noteq> [] \<Longrightarrow> decode_attribute (Some (sanitize_attribute (Some v))) = Some v"
  by (simp add: sanitize_units decode_units)

lemma present_all: "list_all P (present xs) = list_all (pred_option P) xs"
  by (induction xs) (auto simp: present_def List.map_filter_def split: option.splits)

text \<open>No bracket is in an attribute, so none is in the opening tag but its own.\<close>

definition plain_attr :: "jstr \<Rightarrow> bool" where
  "plain_attr a \<longleftrightarrow> 60 \<notin> set a \<and> 62 \<notin> set a"

lemma plain_attr: "plain_attr (js name) \<Longrightarrow> pred_option plain_attr (attr name v)"
  using sanitize_plain [of 60 v] sanitize_plain [of 62 v]
  by (simp add: attr_def plain_attr_def js_def)

lemma own_attrs_plain: "list_all (pred_option plain_attr) (own_attrs e)"
proof -
  have "plain_attr (js ''source_notification'')" "plain_attr (js ''request_event_id'')"
    "plain_attr (js ''status'')" "plain_attr (js ''terminal_reason'')" "plain_attr (js ''error_code'')"
    "plain_attr (js ''watch_id'')" "plain_attr (js ''target_state_at_registration'')"
    "plain_attr (js ''final_state'')" "plain_attr (js ''reason'')" "plain_attr (js ''task_id'')"
    "plain_attr (js ''delivery_id'')"
    by (simp_all add: plain_attr_def js_no_bracket)
  then show ?thesis by (cases e rule: own_attrs.cases) (simp_all add: plain_attr)
qed

lemma common_attrs_plain: "list_all (pred_option plain_attr) (common_attrs b ty)"
proof -
  have "plain_attr (js ''version'')" "plain_attr (js ''type'')" "plain_attr (js ''event_id'')"
    "plain_attr (js ''source_session_id'')" "plain_attr (js ''source_kind'')"
    "plain_attr (js ''source_label'')" "plain_attr (js ''source_agent'')"
    "plain_attr (js ''source_device'')" "plain_attr (js ''turn_id'')"
    "plain_attr (js ''terminal_status'')" "plain_attr (js ''request_event_ids'')"
    "plain_attr (js ''watch_ids'')" "plain_attr (js ''result_source'')"
    "plain_attr (js ''result_scope'')" "plain_attr (js ''target_session_id'')"
    "plain_attr (js ''target_label'')"
    by (simp_all add: plain_attr_def js_no_bracket)
  then show ?thesis by (simp add: common_attrs_def version_attr_def plain_attr)
qed

lemma event_attrs_plain: "list_all plain_attr (event_attrs e)"
proof -
  have "plain_attr (js ''created_at'')" by (simp add: plain_attr_def js_no_bracket)
  then show ?thesis
    by (simp add: event_attrs_def present_all own_attrs_plain common_attrs_plain plain_attr)
qed

lemma handoff_attrs_plain: "list_all plain_attr (handoff_attrs b)"
proof -
  have "plain_attr (js ''version'')" "plain_attr (js ''type'')"
    "plain_attr (js ''source_session_id'')" "plain_attr (js ''source_label'')"
    "plain_attr (js ''target_session_id'')"
    by (simp_all add: plain_attr_def js_no_bracket)
  then show ?thesis
    by (simp add: handoff_attrs_def present_all version_attr_def plain_attr)
qed

lemma join_plain:
  "plain_attr sep \<Longrightarrow> list_all plain_attr xs \<Longrightarrow> plain_attr (join_with sep xs)"
  by (induction sep xs rule: join_with.induct) (simp_all add: plain_attr_def)

section \<open>What a prompt shows\<close>

lemma trim_open:
  assumes "62 \<in> set w" and "unspaced t"
  shows "\<exists>v. trim (10 # 60 # t @ c # w) = 60 # t @ c # v \<and> 62 \<in> set v"
proof -
  have sp: "is_space 10" "\<not> is_space 60" "\<not> is_space 62" by (simp_all add: is_space_def)
  obtain u where u: "c # w = trim_end (c # w) @ u" "list_all is_space u"
    using trim_end_prefix by blast
  have "62 \<in> set (trim_end (c # w) @ u)" using assms(1) u(1) by (metis list.set_intros(2))
  moreover have "62 \<notin> set u" using u(2) sp by (auto simp: list_all_iff)
  ultimately have mem: "62 \<in> set (trim_end (c # w))" by auto
  then obtain d v where v: "trim_end (c # w) = d # v" by (cases "trim_end (c # w)") auto
  then have "d = c" using u(1) by simp
  have "62 \<in> set v"
  proof (rule ccontr)
    assume "62 \<notin> set v"
    then have "c = 62" using mem v \<open>d = c\<close> by auto
    moreover have "62 \<in> set (v @ u)" using assms(1) u(1) v by auto
    ultimately show False using \<open>62 \<notin> set v\<close> \<open>62 \<notin> set u\<close> by simp
  qed
  moreover have "trim (10 # 60 # t @ c # w) = 60 # t @ c # v"
    using sp assms(2) v \<open>d = c\<close>
    by (simp add: trim_def trim_start_space trim_start_Cons trim_end_Cons trim_end_keep)
  ultimately show ?thesis by blast
qed

lemma event_tag: "tag_name session_event_tag" "unspaced session_event_tag"
  by (simp_all add: tag_name_def letter_def word_char_def is_space_def js_def session_event_tag_def)

lemma open_line_absent:
  assumes "c \<in> {10, 32}" and "plain_attr w"
  shows "absent (60 # session_event_tag @ c # w @ [62])"
proof -
  have tag: "session_event_tag = 109 # js ''yagents-session-event''"
    by (simp add: session_event_tag_def js_def)
  have "60 \<notin> set (session_event_tag @ c # w @ [62])"
    using assms by (auto simp: plain_attr_def session_event_tag_def js_no_bracket)
  then show ?thesis unfolding close_units tag by (simp add: index_of_no_open)
qed

text \<open>An envelope of lines that starts with the tag of a session event.\<close>

lemma event_envelope:
  fixes w :: jstr and ls :: "jstr list"
  assumes "c \<in> {10, 32}" and "plain_attr w" and "list_all absent ls"
  defines "p \<equiv> envelope ((60 # session_event_tag @ c # w @ [62]) # ls)"
  shows "strip_leading (Some p) = []" and "pr_kind (parse_leading (Some p)) = Some session_event_tag"
proof -
  let ?t = "60 # session_event_tag @ c # w @ [62]"
  have c: "\<not> (word_char c \<or> c = 45)"
    using assms(1) by (auto simp: word_char_def letter_def)
  have all: "list_all absent (?t # ls)" using open_line_absent [OF assms(1,2)] assms(3) by simp
  show "strip_leading (Some p) = []" unfolding p_def by (rule envelope_leading(2) [OF all]) simp
  obtain w' where w': "lines_text (?t # ls) @ [10] = 60 # session_event_tag @ c # w'" "62 \<in> set w'"
    by (cases ls) simp_all
  obtain v where v: "trim (10 # 60 # session_event_tag @ c # w') = 60 # session_event_tag @ c # v"
    "62 \<in> set v"
    using trim_open [OF w'(2) event_tag(2)] by blast
  have "pr_kind (parse_single (Some p)) = leading_kind (60 # session_event_tag @ c # v)"
    unfolding p_def using envelope_parsed(3,4) [OF all] v(1) w'(1) by simp
  then show "pr_kind (parse_leading (Some p)) = Some session_event_tag"
    using leading_kind_open [OF event_tag(1) c] v(2) envelope_leading(1) [OF all]
    unfolding p_def by simp
qed

lemma summary_plain: "60 \<notin> set (event_summary e)"
proof -
  have "60 \<notin> set (watch_summary k)" for k by (cases k) (simp_all add: js_no_bracket)
  moreover have "60 \<notin> set task_result_summary" "60 \<notin> set network_summary"
    by (simp_all add: task_result_summary_def network_summary_def js_no_bracket)
  moreover have "60 \<notin> set (request_summary b r)" for b r
    by (simp add: request_summary_def js_no_bracket)
  moreover have "60 \<notin> set (result_summary r)" for r
    by (simp add: result_summary_def js_no_bracket)
  ultimately show ?thesis by (cases e rule: event_summary.cases) simp_all
qed

lemma payload_absent: "absent (event_payload e)"
proof -
  have tags: "absent (js ''<latest-result>'')" "absent (js ''</latest-result>'')" "absent []"
    by (simp_all add: js_def reminder_close_def)
  then have "absent (lines_text [js ''<latest-result>'', neutralize s, js ''</latest-result>''])" for s
    by (intro index_of_lines_None close_line) (simp add: absent_neutral)
  then show ?thesis
    by (cases e rule: event_payload.cases) (simp_all add: absent_neutral close_line)
qed

lemma label_absent:
  "absent (js ''<event-summary>'')" "absent (js ''</event-summary>'')" "absent (js ''<payload>'')"
  "absent (js ''</payload>'')" "absent (js ''</myagents-session-event>'')"
  "absent (js ''<instruction>'')" "absent (js ''</instruction>'')" "absent (js ''<context>'')"
  "absent (js ''</context>'')" "absent (js ''<channel-handoff>'')"
  "absent (js ''</channel-handoff>'')" "absent (js ''<source>'')" "absent (js ''</source>'')"
  by (simp_all add: js_def reminder_close_def)

lemma event_lines_absent: "list_all absent (tl (event_lines e))"
  using label_absent(5)
  by (simp add: event_lines_def label_absent payload_absent absent_plain summary_plain
      session_event_tag_def js_append [symmetric])

lemma handoff_lines_absent: "list_all absent (tl (handoff_lines b r h))"
proof -
  have "absent (handoff_instruction h)"
    by (rule absent_plain) (simp add: handoff_instruction_def js_no_bracket)
  moreover have "absent handoff_note"
    by (rule absent_plain) (simp add: handoff_note_def js_no_bracket)
  ultimately show ?thesis
    by (simp add: handoff_lines_def label_absent absent_neutral handoff_source_lines_def
        handoff_attachment_lines_def split: option.split)
qed

lemma open_tag_units:
  "render_open_tag e = 60 # session_event_tag @ 10 # (32 # 32 # join_with [10, 32, 32] (event_attrs e)) @ [62]"
  "hd (handoff_lines b r h) = 60 # session_event_tag @ 32 # join_with (js '' '') (handoff_attrs b) @ [62]"
  by (simp_all add: render_open_tag_def handoff_lines_def session_event_tag_def js_def)

lemma tag_attrs_plain:
  "plain_attr (32 # 32 # join_with [10, 32, 32] (event_attrs e))"
  "plain_attr (join_with (js '' '') (handoff_attrs b))"
  using join_plain [OF _ event_attrs_plain, of "[10, 32, 32]" e]
    join_plain [OF _ handoff_attrs_plain, of "js '' ''" b]
  by (simp_all add: plain_attr_def js_def)

lemma event_lines_split: "event_lines e = render_open_tag e # tl (event_lines e)"
  by (simp add: event_lines_def)

lemma event_prompt:
  "list_all absent (event_lines e)" "strip_leading (Some (envelope (event_lines e))) = []"
  "pr_kind (parse_leading (Some (envelope (event_lines e)))) = Some session_event_tag"
proof -
  have "absent (render_open_tag e)"
    unfolding open_tag_units by (rule open_line_absent [OF _ tag_attrs_plain(1)]) simp
  then show "list_all absent (event_lines e)"
    using event_lines_absent [of e] by (subst event_lines_split) simp
  show "strip_leading (Some (envelope (event_lines e))) = []"
    "pr_kind (parse_leading (Some (envelope (event_lines e)))) = Some session_event_tag"
    using event_envelope [OF _ tag_attrs_plain(1) event_lines_absent, of 10 e e]
    unfolding open_tag_units(1) [symmetric] event_lines_split [symmetric] by simp_all
qed

lemma handoff_prompt:
  "strip_leading (Some (envelope (handoff_lines b r h))) = []"
  "pr_kind (parse_leading (Some (envelope (handoff_lines b r h)))) = Some session_event_tag"
proof -
  have "handoff_lines b r h = hd (handoff_lines b r h) # tl (handoff_lines b r h)"
    by (simp add: handoff_lines_def)
  then have "(60 # session_event_tag @ 32 # join_with (js '' '') (handoff_attrs b) @ [62]) #
      tl (handoff_lines b r h) = handoff_lines b r h"
    using open_tag_units(2) [of b r h] by metis
  then show "strip_leading (Some (envelope (handoff_lines b r h))) = []"
    "pr_kind (parse_leading (Some (envelope (handoff_lines b r h)))) = Some session_event_tag"
    using event_envelope [OF _ tag_attrs_plain(2) handoff_lines_absent, of 32 b b r h] by simp_all
qed

lemma rendered_hidden:
  "case render_prompt parse e of
     Inl _ \<Rightarrow> (if renderable e then event_handoff e \<noteq> None else True)
   | Inr p \<Rightarrow> strip_leading (Some p) = []
       \<and> pr_kind (parse_leading (Some p)) = Some session_event_tag"
  by (auto simp: render_prompt_def event_prompt handoff_prompt split: option.split sum.split)

text \<open>
  C16. A session event never shows what it carries. Whatever the event, its labels and its payload,
  the rendered prompt reads as a hidden envelope of the session event tag with no visible text
  after it: no value and no payload closes the envelope. Rendering fails only for the two kinds of
  event that must not be rendered and for a channel handoff.
\<close>

theorem prompt_stays_hidden:
  "case render_prompt parse e of
     Inl _ \<Rightarrow> (if renderable e then event_handoff e \<noteq> None else True)
   | Inr p \<Rightarrow> strip_leading (Some p) = []
       \<and> pr_kind (parse_leading (Some p)) = Some session_event_tag"
  by (rule rendered_hidden)

end
