(* ===== verification/SessionEventDisplay.thy ===== *)
theory SessionEventDisplay
  imports SessionEvent
begin

text \<open>
  The composition of the two sides of a session request: the prompt that server/inbox/session-event.ts
  renders is read back by parseSessionSendRequestDisplay of shared/systemReminder.ts, with the
  source label and the payload that were put in.
\<close>

section \<open>Reading one attribute\<close>

definition named :: "jstr \<Rightarrow> bool" where
  "named n \<longleftrightarrow> n \<noteq> [] \<and> list_all word_char n"

definition chunk :: "jstr option \<Rightarrow> jstr" where
  "chunk a = (case a of None \<Rightarrow> [] | Some s \<Rightarrow> [10, 32, 32] @ s)"

lemma join_chunks:
  "present xs \<noteq> [] \<Longrightarrow>
   [10, 32, 32] @ join_with [10, 32, 32] (present xs) = concat (map chunk xs)"
proof (induction xs)
  case (Cons x xs)
  show ?case
  proof (cases x)
    case None
    then show ?thesis using Cons by (simp add: chunk_def present_def List.map_filter_def)
  next
    case (Some a)
    have nil: "present xs = [] \<Longrightarrow> concat (map chunk xs) = []"
      by (induction xs)
        (auto simp: chunk_def present_def List.map_filter_def split: option.splits if_splits)
    have "present (x # xs) = a # present xs" by (simp add: Some present_def List.map_filter_def)
    then show ?thesis
      using Cons.IH nil by (cases "present xs = []") (simp_all add: Some chunk_def join_Cons)
  qed
qed (simp add: present_def)

lemma named_plain:
  assumes "named n"
  shows "61 \<notin> set n" and "unspaced n"
proof -
  have "\<not> word_char 61" by (simp add: word_char_def letter_def)
  then show "61 \<notin> set n" using assms by (auto simp: named_def list_all_iff)
  show "unspaced n" using assms name_unit(1) by (auto simp: named_def list_all_iff)
qed

lemma value_at_other:
  assumes "named n" and "named m" and "n \<noteq> m"
  shows "value_at (n @ [61, 34]) (m @ [61, 34] @ s) = None"
proof -
  have "\<not> prefix (n @ [61, 34]) (m @ [61, 34] @ s)"
  proof
    assume "prefix (n @ [61, 34]) (m @ [61, 34] @ s)"
    then obtain u where u: "m @ [61, 34] @ s = (n @ [61, 34]) @ u" unfolding prefix_def by blast
    have "takeWhile (\<lambda>c. c \<noteq> 61) (m @ [61, 34] @ s) = m"
      and "takeWhile (\<lambda>c. c \<noteq> 61) ((n @ [61, 34]) @ u) = n"
      using named_plain(1) [OF assms(1)] named_plain(1) [OF assms(2)]
      by (auto simp: takeWhile_append)
    then show False using u assms(3) by simp
  qed
  then show ?thesis by (simp add: value_at_def)
qed

lemma value_at_self: "34 \<notin> set v \<Longrightarrow> value_at (n @ [61, 34]) (n @ [61, 34] @ v @ [34] @ s) = Some v"
  by (simp add: value_at_def takeWhile_append)

lemma value_at_space: "named n \<Longrightarrow> is_space c \<Longrightarrow> value_at (n @ q) (c # s) = None"
  using name_unit(1) by (cases n) (auto simp: value_at_def named_def)

lemma scan_unspaced: "unspaced u \<Longrightarrow> value_scan pat (u @ s) = value_scan pat s"
  by (induction u) simp_all

lemma scan_chunk:
  assumes "named n"
  shows "value_scan (n @ [61, 34]) ([10, 32, 32] @ s) =
    (case value_at (n @ [61, 34]) s of Some v \<Rightarrow> Some v | None \<Rightarrow> value_scan (n @ [61, 34]) s)"
proof -
  have "is_space 10" "is_space 32" by (simp_all add: is_space_def)
  then show ?thesis using value_at_space [OF assms] by simp
qed

lemma attr_text: "truthy v \<Longrightarrow> attr m v = Some (js m @ [61, 34] @ sanitize_attribute v @ [34])"
  by (simp add: attr_def js_def)

lemma scan_skip:
  assumes "named n" and "named (js m)" and "js m \<noteq> n" and "pred_option unspaced v"
  shows "value_scan (n @ [61, 34]) (chunk (attr m v) @ s) = value_scan (n @ [61, 34]) s"
proof (cases "truthy v")
  case True
  then obtain w where w: "v = Some w" by (cases v) simp_all
  have ends: "unspaced [61, 34]" "unspaced [34]" by (simp_all add: is_space_def)
  have "unspaced (js m @ [61, 34] @ sanitize_attribute v @ [34])"
    using named_plain(2) [OF assms(2)] sanitize_unspaced [of w] assms(4) ends
    unfolding w list_all_append by simp
  then show ?thesis
    using True assms scan_unspaced [of "js m @ [61, 34] @ sanitize_attribute v @ [34]"]
      value_at_other [OF assms(1,2), of "sanitize_attribute v @ [34] @ s"]
      scan_chunk [OF assms(1), of "js m @ [61, 34] @ sanitize_attribute v @ [34] @ s"]
    by (auto simp: chunk_def attr_text)
qed (simp add: attr_def chunk_def)

lemma scan_find:
  assumes "named (js m)" and "truthy v"
  shows "value_scan (js m @ [61, 34]) (chunk (attr m v) @ s) = Some (sanitize_attribute v)"
  using scan_chunk [OF assms(1), of "js m @ [61, 34] @ sanitize_attribute v @ [34] @ s"]
    value_at_self [of "sanitize_attribute v" "js m" s] sanitize_plain [of 34 v] assms(2)
  by (simp add: chunk_def attr_text)

section \<open>The attributes of a request\<close>

lemma dec_nat_unspaced: "unspaced (dec_nat n)"
proof (induction n rule: dec_nat.induct)
  case (1 n)
  have digit: "\<not> is_space (word_of_nat (48 + k))" if "k < 10" for k :: nat
  proof -
    have "unat (word_of_nat (48 + k) :: 16 word) = 48 + k"
      using that by (simp only: unat_of_nat) simp
    then have "word_char (word_of_nat (48 + k))"
      using that by (simp add: word_char_def word_le_nat_alt)
    then show ?thesis by (rule name_unit(1) [OF disjI1])
  qed
  show ?case
  proof (cases "n < 10")
    case True
    then show ?thesis using digit by (simp add: dec_nat.simps [of n])
  next
    case False
    have "n mod 10 < 10" by simp
    then show ?thesis using 1 False digit [of "n mod 10"] by (simp add: dec_nat.simps [of n])
  qed
qed

lemma dec_nat_truthy: "truthy (Some (dec_nat n))"
  by (simp add: dec_nat.simps [of n])

lemma attr_names:
  "named (js ''version'')" "named (js ''type'')" "named (js ''event_id'')"
  "named (js ''source_session_id'')" "named (js ''source_kind'')" "named (js ''source_label'')"
  by (simp_all add: named_def word_char_def letter_def js_def)

lemma request_attributes:
  fixes b :: session_event_base and r :: send_request
  assumes "unspaced (se_event_id b)" and "pred_option unspaced (se_source_session b)"
    and "truthy (se_source_label b)"
  defines "a \<equiv> [10, 32, 32] @ join_with [10, 32, 32] (event_attrs (Send_Request b r))"
  shows "event_attribute a (js ''type'') = Some (js ''send.request'')"
    and "event_attribute a (js ''source_label'') = se_source_label b"
proof -
  define tail where "tail = drop 6 (common_attrs b Send_Request_Type) @ own_attrs (Send_Request b r) @
    [attr ''created_at'' (Some (se_created_at b))]"
  have split: "common_attrs b Send_Request_Type @ own_attrs (Send_Request b r) @
      [attr ''created_at'' (Some (se_created_at b))] =
    [version_attr b, attr ''type'' (Some (type_name Send_Request_Type)),
     attr ''event_id'' (Some (se_event_id b)), attr ''source_session_id'' (se_source_session b),
     attr ''source_kind'' (map_option source_kind_name (se_source_kind b)),
     attr ''source_label'' (se_source_label b)] @ tail"
    by (simp add: common_attrs_def tail_def)
  have "event_attrs (Send_Request b r) \<noteq> []"
    using dec_nat_truthy
    by (simp add: event_attrs_def common_attrs_def version_attr_def present_def
        List.map_filter_def attr_text del: truthy_simps)
  then have a: "a = chunk (attr ''version'' (Some (dec_nat (se_version b)))) @
      chunk (attr ''type'' (Some (js ''send.request''))) @
      chunk (attr ''event_id'' (Some (se_event_id b))) @
      chunk (attr ''source_session_id'' (se_source_session b)) @
      chunk (attr ''source_kind'' (map_option source_kind_name (se_source_kind b))) @
      chunk (attr ''source_label'' (se_source_label b)) @ concat (map chunk tail)"
    unfolding a_def event_attrs_def event_base.simps event_type.simps split
    by (subst join_chunks) (simp_all add: version_attr_def)
  have start: "value_at (n @ [61, 34]) a = None" if "named n" for n
    using value_at_space [OF that, of 10] by (simp add: a_def is_space_def)
  have eq: "js ''=\"'' = [61, 34]" by (simp add: js_def)
  have kind: "pred_option unspaced (map_option source_kind_name k)" for k
    by (cases k; cases "the k") (simp_all add: js_def is_space_def)
  have ty: "value_scan (js ''type'' @ [61, 34]) a = Some (sanitize_attribute (Some (js ''send.request'')))"
    unfolding a using dec_nat_unspaced by (simp add: scan_skip scan_find attr_names)
  show "event_attribute a (js ''type'') = Some (js ''send.request'')"
    using ty start [OF attr_names(2)] decode_sanitize [of "js ''send.request''"]
    by (simp add: event_attribute_def eq)
  have send: "unspaced (js ''send.request'')" by (simp add: js_def is_space_def)
  have "value_scan (js ''source_label'' @ [61, 34]) a = Some (sanitize_attribute (se_source_label b))"
    unfolding a using dec_nat_unspaced assms(1,2,3) kind send
    by (simp add: scan_skip scan_find attr_names)
  then show "event_attribute a (js ''source_label'') = se_source_label b"
    using start [OF attr_names(6)] decode_sanitize assms(3)
    by (cases "se_source_label b") (simp_all add: event_attribute_def eq)
qed

section \<open>The payload of a request\<close>

lemma payload_tags:
  "js ''<payload>'' = 60 # js ''payload'' @ [62]" "js ''</payload>'' = 60 # 47 # js ''payload'' @ [62]"
  by (simp_all add: js_def)

lemma payload_patterns:
  "10 \<notin> set (js ''<payload>'')" "js ''<payload>'' \<noteq> []"
  "10 \<notin> set (js ''</payload>'')" "js ''</payload>'' \<noteq> []"
  by (simp_all add: js_def)

lemma neutral_payload:
  "index_of (js ''</payload>'') (neutralize s) = None" "index_of (js ''<payload>'') (neutralize s) = None"
proof -
  have "tag_free (neutralize s) (js ''payload'')"
    using neutralize_free [of s] by (simp add: structural_tags_def)
  moreover have "word_char (last (js ''payload''))" by (simp add: js_def word_char_def letter_def)
  ultimately show "index_of (js ''</payload>'') (neutralize s) = None"
    "index_of (js ''<payload>'') (neutralize s) = None"
    unfolding payload_tags by (rule tag_free_absent)+
qed

lemma index_of_front: "index_of (c # pat) ((c # pat) @ s) = Some 0"
  by simp

lemma trim_newlines: "trim (10 # s @ [10]) = trim s"
proof -
  have "is_space 10" by (simp add: is_space_def)
  then have "trim (10 # s @ [10]) = trim_end (trim_start (s @ [10]))"
    by (simp add: trim_def trim_start_space)
  also have "\<dots> = trim_end (trim_start s)"
  proof (cases "\<forall>c \<in> set s. is_space c")
    case True
    then have "dropWhile is_space s = []" "dropWhile is_space (s @ [10]) = []"
      using \<open>is_space 10\<close> by simp_all
    then show ?thesis unfolding trim_start_def by (simp only:)
  next
    case False
    then show ?thesis
      using \<open>is_space 10\<close> by (auto simp: trim_start_def trim_end_def dropWhile_append)
  qed
  finally show ?thesis by (simp add: trim_def)
qed

lemma payload_read:
  assumes "index_of (js ''<payload>'') front = None"
  shows "payload_text (front @ 10 # js ''<payload>'' @ 10 # neutralize s @ 10 # js ''</payload>'' @ 10 # rest)
    = Some (trim (neutralize s))"
proof -
  let ?after = "10 # neutralize s @ 10 # js ''</payload>'' @ 10 # rest"
  have found: "index_of (js ''<payload>'') (js ''<payload>'' @ t) = Some 0"
    "index_of (js ''</payload>'') (js ''</payload>'' @ t) = Some 0" for t
    unfolding payload_tags append_Cons by simp_all
  have at: "index_of (js ''<payload>'') (front @ 10 # js ''<payload>'' @ ?after) = Some (length front + 1)"
    using index_of_line [OF payload_patterns(1,2) assms] found(1) [of ?after] by simp
  have "index_of (js ''</payload>'') ([] @ ?after) = Some (1 + (length (neutralize s) + 1))"
    using index_of_line [OF payload_patterns(3,4), of "[]" "neutralize s @ 10 # js ''</payload>'' @ 10 # rest"]
      index_of_line [OF payload_patterns(3,4) neutral_payload(1), of s "js ''</payload>'' @ 10 # rest"]
      found(2) [of "10 # rest"] payload_patterns(4) by simp
  then have close: "index_of (js ''</payload>'') ?after = Some (length (neutralize s) + 2)"
    by simp
  have drop: "drop (length front + 1 + 9) (front @ 10 # js ''<payload>'' @ ?after) = ?after"
    by simp
  have take: "take (length (neutralize s) + 2) ?after = 10 # neutralize s @ [10]" by simp
  show ?thesis
    by (simp only: payload_text_def at option.case Let_def drop close option.map take trim_newlines)
qed

section \<open>The request as it is shown\<close>

lemma tag_line_ends:
  "\<exists>u. lines_text (event_lines e) = 60 # u @ [62]"
proof -
  have "js ''</'' @ session_event_tag @ js ''>'' = (60 # 47 # session_event_tag) @ [62]"
    by (simp add: js_def)
  moreover have "\<exists>v. lines_text (event_lines e) =
      render_open_tag e @ v @ js ''</'' @ session_event_tag @ js ''>''"
    unfolding event_lines_def by simp
  ultimately obtain v where "lines_text (event_lines e) =
      render_open_tag e @ v @ (60 # 47 # session_event_tag) @ [62]" by metis
  then have "lines_text (event_lines e) = 60 # (tl (render_open_tag e) @ v @ 60 # 47 # session_event_tag) @ [62]"
    unfolding open_tag_units by simp
  then show ?thesis by blast
qed

lemma body_text:
  "pr_has (parse_leading (Some (envelope (event_lines e))))"
  "pr_body (parse_leading (Some (envelope (event_lines e)))) = lines_text (event_lines e)"
proof -
  have ne: "event_lines e \<noteq> []" by (simp add: event_lines_def)
  note parsed = envelope_parsed [OF event_prompt(1) ne] envelope_leading(1) [OF event_prompt(1) ne]
  show "pr_has (parse_leading (Some (envelope (event_lines e))))" using parsed by simp
  obtain u where u: "lines_text (event_lines e) = 60 # u @ [62]" using tag_line_ends by blast
  have "\<not> is_space 60" "\<not> is_space 62" by (simp_all add: is_space_def)
  then have "trim (10 # lines_text (event_lines e) @ [10]) = lines_text (event_lines e)"
    unfolding u by (rule trim_lines)
  then show "pr_body (parse_leading (Some (envelope (event_lines e)))) = lines_text (event_lines e)"
    using parsed by simp
qed

lemma opening_read:
  "opening_attributes (lines_text (event_lines e)) = Some ([10, 32, 32] @ join_with [10, 32, 32] (event_attrs e))"
proof -
  let ?a = "[10, 32, 32] @ join_with [10, 32, 32] (event_attrs e)"
  have "\<exists>v. lines_text (event_lines e) = render_open_tag e @ v"
    unfolding event_lines_def by simp
  then obtain v where v: "lines_text (event_lines e) = (60 # session_event_tag) @ ?a @ 62 # v"
    unfolding open_tag_units by auto
  have start: "trim_start (lines_text (event_lines e)) = lines_text (event_lines e)"
    unfolding v by (simp add: trim_start_Cons is_space_def)
  have front: "js ''<'' @ session_event_tag = 60 # session_event_tag" by (simp add: js_def)
  have "62 \<notin> set ?a" using tag_attrs_plain(1) [of e] by (simp add: plain_attr_def)
  then have "takeWhile (\<lambda>c. c \<noteq> 62) (?a @ 62 # v) = ?a"
    by (auto simp: takeWhile_append)
  moreover have "drop (length (60 # session_event_tag)) (lines_text (event_lines e)) = ?a @ 62 # v"
    unfolding v by simp
  moreover have "prefix (60 # session_event_tag) (lines_text (event_lines e))"
    unfolding v by simp
  moreover have "\<not> word_char ((?a @ 62 # v) ! 0)" by (simp add: word_char_def letter_def)
  ultimately show ?thesis
    unfolding opening_attributes_def Let_def start front by simp
qed

lemma request_payload:
  "payload_text (lines_text (event_lines (Send_Request b r))) = Some (trim (neutralize (or_no_text (rq_payload r))))"
proof -
  let ?e = "Send_Request b r"
  let ?front = "lines_text [render_open_tag ?e, js ''<event-summary>'', event_summary ?e, js ''</event-summary>'']"
  have "js ''<payload>'' = 60 # 112 # js ''ayload>''" by (simp add: js_def)
  moreover have "60 \<notin> set (109 # js ''yagents-session-event'' @ 10 # (32 # 32 # join_with [10, 32, 32] (event_attrs ?e)) @ [62])"
    using tag_attrs_plain(1) [of ?e] by (simp add: plain_attr_def js_no_bracket)
  moreover have "render_open_tag ?e = 60 # 109 # js ''yagents-session-event'' @ 10 # (32 # 32 # join_with [10, 32, 32] (event_attrs ?e)) @ [62]"
    unfolding open_tag_units by (simp add: session_event_tag_def js_def)
  ultimately have tag: "index_of (js ''<payload>'') (render_open_tag ?e) = None"
    by (simp add: index_of_no_open)
  have labels: "index_of (js ''<payload>'') (js ''<event-summary>'') = None"
    "index_of (js ''<payload>'') (js ''</event-summary>'') = None"
    by (simp_all add: js_def)
  have "index_of (js ''<payload>'') (event_summary ?e) = None"
    unfolding payload_tags by (rule index_of_no_open [OF summary_plain])
  then have "index_of (js ''<payload>'') ?front = None"
    using tag labels by (intro index_of_lines_None payload_patterns) simp
  then have read: "payload_text (?front @ 10 # js ''<payload>'' @ 10 #
      neutralize (or_no_text (rq_payload r)) @ 10 # js ''</payload>'' @ 10 #
      js ''</'' @ session_event_tag @ js ''>'') = Some (trim (neutralize (or_no_text (rq_payload r))))"
    by (rule payload_read)
  have "lines_text (event_lines ?e) = ?front @ 10 # js ''<payload>'' @ 10 #
      neutralize (or_no_text (rq_payload r)) @ 10 # js ''</payload>'' @ 10 #
      js ''</'' @ session_event_tag @ js ''>''"
    by (simp add: event_lines_def)
  then show ?thesis using read by (simp only:)
qed

lemma request_shown:
  assumes "rq_handoff r = None"
    and "unspaced (se_event_id b)" and "pred_option unspaced (se_source_session b)"
    and "truthy (se_source_label b)"
  shows "\<exists>p. render_prompt parse (Send_Request b r) = Inr p
    \<and> parse_send_request (parse_leading (Some p)) =
      (let shown = trim (neutralize (or_no_text (rq_payload r))) in
       if shown = [] then None
       else Some \<lparr>sd_payload = shown, sd_source_label = se_source_label b\<rparr>)"
proof (intro exI conjI)
  let ?e = "Send_Request b r"
  let ?p = "envelope (event_lines ?e)"
  show "render_prompt parse ?e = Inr ?p"
    using assms(1) by (simp add: render_prompt_def event_handoff_def)
  show "parse_send_request (parse_leading (Some ?p)) =
      (let shown = trim (neutralize (or_no_text (rq_payload r))) in
       if shown = [] then None
       else Some \<lparr>sd_payload = shown, sd_source_label = se_source_label b\<rparr>)"
    unfolding parse_send_request_def Let_def body_text opening_read request_payload event_prompt
    using request_attributes [OF assms(2-4), of r] body_text(1) [of ?e] by simp
qed

text \<open>
  What a session asks of another is shown to the user as it was asked: when the identifiers
  hold no white space and the source has a label, the prompt of a request is read back as its
  neutralized payload, trimmed, under exactly the source's label, although that label was escaped.
  Only a payload with nothing to show has no display.
\<close>

theorem request_is_shown:
  assumes "rq_handoff r = None"
    and "unspaced (se_event_id b)" and "pred_option unspaced (se_source_session b)"
    and "truthy (se_source_label b)"
  shows "\<exists>p. render_prompt parse (Send_Request b r) = Inr p
    \<and> parse_send_request (parse_leading (Some p)) =
      (let shown = trim (neutralize (or_no_text (rq_payload r))) in
       if shown = [] then None
       else Some \<lparr>sd_payload = shown, sd_source_label = se_source_label b\<rparr>)"
  using assms by (rule request_shown)

definition sample_base :: session_event_base where
  "sample_base =
     \<lparr>se_version = 1, se_event_id = js ''e1'', se_created_at = js ''2026-01-01'',
      se_source_session = Some (js ''s1''), se_source_kind = Some Internal_Session,
      se_source_label = Some (js ''Desk <1>''), se_target_session = Some (js ''s2''),
      se_target_label = None, se_turn_id = None, se_terminal_status = None,
      se_request_ids = None, se_watch_ids = None, se_result_source = None,
      se_result_scope = None, se_source_agent = None, se_source_device = None\<rparr>"

definition sample_request :: send_request where
  "sample_request =
     \<lparr>rq_notification = Notify_Auto, rq_payload = js '' ping '', rq_handoff = None\<rparr>"

theorem request_is_shown_witness:
  "\<exists>p. render_prompt (\<lambda>_. Inl []) (Send_Request sample_base sample_request) = Inr p
    \<and> parse_send_request (parse_leading (Some p)) =
      (let shown = trim (neutralize (or_no_text (rq_payload sample_request))) in
       if shown = [] then None
       else Some \<lparr>sd_payload = shown, sd_source_label = se_source_label sample_base\<rparr>)"
  by (rule request_is_shown [of sample_request sample_base])
    (simp_all add: sample_base_def sample_request_def js_def is_space_def)

end
