(* ===== verification/InboxLabel.thy ===== *)
theory InboxLabel
  imports SessionEventDisplay
begin

text \<open>
  The labels of server/inbox: \<open>deriveSessionLabel\<close> of derive-label.ts, \<open>sanitizeInboxLabel\<close> and
  the older neutralizer of sanitize-label.ts, and \<open>buildInReplyToSnippet\<close> of types.ts.
\<close>

section \<open>Deriving a label\<close>

text \<open>The fields of \<open>SessionMetadata\<close> that a label is derived from.\<close>

record label_meta =
  lm_title :: "jstr option"
  lm_cron_task :: "jstr option"
  lm_source :: "jstr option"

definition fallback_label :: jstr where
  "fallback_label = js ''a session''"

definition new_chat_title :: jstr where
  "new_chat_title = js ''New Chat''"

definition unnamed_desktop_label :: jstr where
  "unnamed_desktop_label = [0x684C, 0x9762, 0x5BF9, 0x8BDD]"

definition own_title :: "label_meta \<Rightarrow> jstr option" where
  "own_title m =
     (case lm_title m of
        None \<Rightarrow> None
      | Some s \<Rightarrow> let t = trim s in if t \<noteq> [] \<and> t \<noteq> new_chat_title then Some t else None)"

definition platform_name :: "jstr \<Rightarrow> jstr" where
  "platform_name source = takeWhile (\<lambda>c. c \<noteq> 95) source"

definition desktop_label :: "label_meta \<Rightarrow> jstr option \<Rightarrow> jstr" where
  "desktop_label m first =
     (case own_title m of
        Some t \<Rightarrow> t
      | None \<Rightarrow>
          if truthy first
          then let snippet = take 30 (trim (the first)) in
               if snippet = [] then unnamed_desktop_label
               else snippet @ (if 30 < length (the first) then js ''...'' else [])
          else unnamed_desktop_label)"

definition derive_label :: "label_meta option \<Rightarrow> jstr option \<Rightarrow> jstr" where
  "derive_label meta first =
     (case meta of
        None \<Rightarrow> fallback_label
      | Some m \<Rightarrow>
          if truthy (lm_cron_task m)
          then (case own_title m of
                  Some t \<Rightarrow> js ''Cron: '' @ t
                | None \<Rightarrow> js ''Cron task '' @ take 8 (the (lm_cron_task m)))
          else if truthy (lm_source m) \<and> lm_source m \<noteq> Some (js ''desktop'')
          then js ''['' @ platform_name (the (lm_source m)) @ js ''] '' @
                 (case own_title m of Some t \<Rightarrow> t | None \<Rightarrow> js ''session'')
          else desktop_label m first)"

section \<open>Sanitizing\<close>

definition sanitize_label :: "jstr option \<Rightarrow> jstr" where
  "sanitize_label raw =
     (if \<not> truthy raw then fallback_label
      else let truncated = trim (take 80 (the raw)) in
           if truncated = [] then fallback_label
           else let escaped = concat (map html_escape truncated) in
                if escaped = [] then fallback_label else escaped)"

definition inbox_tags :: "jstr list" where
  "inbox_tags = [js ''inbox-message'', js ''inbox-reply'']"

definition neutralize_inbox :: "jstr \<Rightarrow> jstr" where
  "neutralize_inbox body =
     replace_pattern (OpenTag (js ''inbox-reply''))
       (replace_pattern (OpenTag (js ''inbox-message''))
         (replace_pattern (CloseTag (js ''inbox-reply''))
           (replace_pattern (CloseTag (js ''inbox-message'')) body)))"

text \<open>\<open>text.trim().replace(/\\s+/g, ' ')\<close>.\<close>

fun squeeze :: "jstr \<Rightarrow> jstr" where
  "squeeze [] = []"
| "squeeze (c # s) =
     (if is_space c
      then (case s of d # _ \<Rightarrow> if is_space d then squeeze s else 32 # squeeze s | [] \<Rightarrow> [32])
      else c # squeeze s)"

definition reply_snippet :: "jstr \<Rightarrow> jstr" where
  "reply_snippet s =
     (let trimmed = squeeze (trim s) in
      if length trimmed \<le> 40 then trimmed else take 40 trimmed @ js ''...'')"

section \<open>Facts\<close>

lemma escape_nonempty: "t \<noteq> [] \<Longrightarrow> concat (map html_escape t) \<noteq> []"
  by (cases t) (simp_all add: html_escape_def)

lemma sanitize_label_eq:
  "sanitize_label raw = sanitize_attribute (Some
     (let t = trim (take 80 (case raw of None \<Rightarrow> [] | Some s \<Rightarrow> s)) in if t = [] then fallback_label else t))"
proof -
  have fb: "concat (map html_escape fallback_label) = fallback_label" "fallback_label \<noteq> []"
    by (simp_all add: fallback_label_def js_def html_escape_def)
  show ?thesis
    using fb escape_nonempty by (cases raw) (auto simp: sanitize_label_def sanitize_attribute_def Let_def)
qed

lemma html_escape_bound: "length (html_escape c) \<le> 6"
  by (simp add: html_escape_def)

lemma escape_bound: "length (concat (map html_escape s)) \<le> 6 * length s"
proof (induction s)
  case (Cons c s)
  then show ?case using html_escape_bound [of c] by simp
qed simp

lemma trim_length: "length (trim s) \<le> length s"
  using trim_part [of s] by (metis le_add1 le_add2 length_append order.trans)

text \<open>
  A sanitized label is safe to put between quotes: it is never empty, holds no bracket and no
  quote, has at most 480 units, and an attribute reader gets back the trimmed first 80 units of
  the raw label, or the fallback when nothing of it is left. Truncation comes before escaping, so
  no reference is cut in two.
\<close>

theorem label_is_safe:
  "sanitize_label raw \<noteq> [] \<and> 60 \<notin> set (sanitize_label raw) \<and> 62 \<notin> set (sanitize_label raw)
   \<and> 34 \<notin> set (sanitize_label raw) \<and> length (sanitize_label raw) \<le> 480
   \<and> decode_attribute (Some (sanitize_label raw)) =
       Some (let t = trim (take 80 (case raw of None \<Rightarrow> [] | Some s \<Rightarrow> s)) in
             if t = [] then fallback_label else t)"
proof -
  let ?t = "trim (take 80 (case raw of None \<Rightarrow> [] | Some s \<Rightarrow> s))"
  let ?l = "if ?t = [] then fallback_label else ?t"
  have ne: "?l \<noteq> []" by (simp add: fallback_label_def)
  have len: "length ?l \<le> 80"
    using trim_length [of "take 80 (case raw of None \<Rightarrow> [] | Some s \<Rightarrow> s)"]
    by (simp add: fallback_label_def)
  have eq: "sanitize_label raw = concat (map html_escape ?l)"
    using ne by (simp add: sanitize_label_eq Let_def sanitize_attribute_def)
  have "length (sanitize_label raw) \<le> 480" using escape_bound [of ?l] len unfolding eq by simp
  moreover have "sanitize_label raw \<noteq> []" unfolding eq by (rule escape_nonempty [OF ne])
  moreover have "decode_attribute (Some (sanitize_label raw)) = Some ?l"
    unfolding sanitize_label_eq Let_def by (rule decode_sanitize [OF ne])
  ultimately show ?thesis
    using sanitize_plain unfolding sanitize_label_eq by (simp add: Let_def)
qed

text \<open>The inbox neutralizer leaves neither of its two tags, and adds nothing to the newer one.\<close>

lemma inbox_tags_ok: "tag_ok (js ''inbox-message'')" "tag_ok (js ''inbox-reply'')"
  by (simp_all add: tag_ok_def js_def open_bracket_def)

lemma neutralize_inbox_free: "list_all (tag_free (neutralize_inbox s)) inbox_tags"
  by (simp add: inbox_tags_def tag_free_def neutralize_inbox_def free_replace tag_patterns_ok
      inbox_tags_ok)

lemma neutralize_inbox_after: "neutralize_inbox (neutralize s) = neutralize s"
proof -
  have "tag_free (neutralize s) (js ''inbox-message'')" "tag_free (neutralize s) (js ''inbox-reply'')"
    using neutralize_free [of s] by (simp_all add: structural_tags_def)
  then show ?thesis by (simp add: tag_free_def neutralize_inbox_def replace_free)
qed

text \<open>
  A label that was sanitized before it became an event's label is escaped again by the opening
  tag, and one decoding gives back the escaped text: the display of a request from the session
  named \<open>R&D\<close> shows the reference.
\<close>

definition escaped_base :: session_event_base where
  "escaped_base = sample_base\<lparr>se_source_label := Some (sanitize_label (Some (js ''R&D'')))\<rparr>"

lemma label_shown_escaped:
  "\<exists>p r. render_prompt parse (Send_Request escaped_base sample_request) = Inr p
    \<and> parse_send_request (parse_leading (Some p)) = Some r
    \<and> sd_source_label r = Some (js ''R&amp;D'')"
proof -
  have label: "sanitize_label (Some (js ''R&D'')) = js ''R&amp;D''"
    by (simp add: sanitize_label_def html_escape_def trim_def trim_start_def trim_end_def
        is_space_def js_def)
  have payload: "trim (neutralize (or_no_text (rq_payload sample_request))) = js ''ping''"
  proof -
    have "60 \<notin> set (js '' ping '')" "0xFF1C \<notin> set (js '' ping '')" by (simp_all add: js_def)
    then have "list_all (\<lambda>c. \<not> open_bracket c) (js '' ping '')"
      by (simp add: list_all_iff open_bracket_def) metis
    then have "free_of p (js '' ping '')" for p using free_of_plain [of "js '' ping ''" p "[]"] by simp
    then have "neutralize (js '' ping '') = js '' ping ''"
      by (intro neutralize_same) (simp add: list_all_iff tag_free_def)
    then show ?thesis
      by (simp add: sample_request_def or_no_text_def trim_def trim_start_def trim_end_def
          is_space_def js_def)
  qed
  have base: "rq_handoff sample_request = None" "unspaced (se_event_id escaped_base)"
    "pred_option unspaced (se_source_session escaped_base)" "truthy (se_source_label escaped_base)"
    unfolding escaped_base_def sample_base_def sample_request_def
    by (simp_all add: label) (simp_all add: js_def is_space_def)
  have shown: "se_source_label escaped_base = Some (js ''R&amp;D'')"
    by (simp add: escaped_base_def label)
  show ?thesis
    using request_shown [OF base, of parse, unfolded payload shown Let_def] by auto
qed

end
