(* ===== verification/InboxDrain.thy ===== *)
theory InboxDrain
  imports InboxLabel
begin

text \<open>
  The session inbox of server/inbox: the messages of types.ts, the request that admin-handler.ts
  builds, and the drain handler of drain-handler.ts, which renders the prompt of every message,
  binds the reply that its turn owes, and injects it. The injector of the runtime is a function on
  a state that the drain threads through; the schema of a handoff, the parser of a network return
  reference and the rendering of a date are arguments.
\<close>

section \<open>Messages\<close>

datatype message_kind = Request_Kind | Reply_Kind | Event_Kind

record network_return =
  nt_connection :: "jstr option"
  nt_op :: jstr
  nt_route :: jstr

record inbox_message =
  pm_id :: jstr
  pm_source_kind :: "source_kind option"
  pm_from :: "jstr option"
  pm_from_label :: jstr
  pm_to :: jstr
  pm_text :: jstr
  pm_reply_back :: bool
  pm_timestamp :: "nat option"
  pm_kind :: "message_kind option"
  pm_in_reply_to :: "jstr option"
  pm_event :: "session_event option"
  pm_network :: "json option"

record turn_meta =
  tm_from :: jstr
  tm_from_label :: jstr
  tm_reply_back :: bool
  tm_original :: jstr
  tm_snippet :: jstr
  tm_network :: "network_return option"

definition empty_base :: "jstr \<Rightarrow> jstr \<Rightarrow> session_event_base" where
  "empty_base event_id created =
     \<lparr>se_version = 1, se_event_id = event_id, se_created_at = created, se_source_session = None,
      se_source_kind = None, se_source_label = None, se_target_session = None,
      se_target_label = None, se_turn_id = None, se_terminal_status = None,
      se_request_ids = None, se_watch_ids = None, se_result_source = None,
      se_result_scope = None, se_source_agent = None, se_source_device = None\<rparr>"

text \<open>\<open>buildRequestMessage\<close>, given the label of the caller, a fresh id and the time.\<close>

definition build_request ::
    "jstr \<Rightarrow> nat \<Rightarrow> jstr \<Rightarrow> jstr \<Rightarrow> jstr \<Rightarrow> jstr \<Rightarrow> jstr \<Rightarrow> bool \<Rightarrow> source_kind \<Rightarrow> inbox_message" where
  "build_request message_id now created label caller to prompt reply_back kind =
     (let from_label = (if kind = External_Cli then js ''External CLI'' else label);
          from = (if kind = Internal_Session then Some caller else None)
      in \<lparr>pm_id = message_id, pm_source_kind = Some kind, pm_from = from, pm_from_label = from_label,
          pm_to = to, pm_text = prompt, pm_reply_back = reply_back, pm_timestamp = Some now,
          pm_kind = Some Request_Kind, pm_in_reply_to = None,
          pm_event = Some (Send_Request
            ((empty_base message_id created)\<lparr>se_source_kind := Some kind, se_source_session := from,
              se_source_label := Some from_label, se_target_session := Some to\<rparr>)
            \<lparr>rq_notification = (if reply_back then Notify_Auto else Notify_None),
             rq_payload = prompt, rq_handoff = None\<rparr>),
          pm_network = None\<rparr>)"

section \<open>Prompts\<close>

datatype inbox_error =
    Handoff_Identity
  | Notification_Identity
  | Legacy_Result_Source
  | Legacy_Watch_Source
  | Prompt_Error event_error
  | Network_Context
  | Reply_Source
  | Agent_Origin

fun event_error_text :: "event_error \<Rightarrow> jstr" where
  "event_error_text (Must_Bypass ty) = type_name ty @ js '' prompts must bypass renderSessionEventPrompt''"
| "event_error_text (Handoff_Schema e) = e"
| "event_error_text Invalid_Handoff = js ''Invalid Channel handoff event''"

fun inbox_error_text :: "inbox_error \<Rightarrow> jstr" where
  "inbox_error_text Handoff_Identity = js ''Invalid Channel handoff transport identity''"
| "inbox_error_text Notification_Identity = js ''Invalid Task notification transport identity''"
| "inbox_error_text Legacy_Result_Source = js ''legacy send.result requires a source Session''"
| "inbox_error_text Legacy_Watch_Source = js ''legacy watch event requires a source Session''"
| "inbox_error_text (Prompt_Error e) = event_error_text e"
| "inbox_error_text Network_Context = js ''invalid network return context''"
| "inbox_error_text Reply_Source = js ''replyBack requires an internal source Session''"
| "inbox_error_text Agent_Origin =
     js ''INVALID_REGISTERED_AGENT_ORIGIN: Space delivery requires exact spaceId and registeredAgentId.''"

text \<open>An event built from a message that carries none.\<close>

definition legacy_base :: "(inbox_message \<Rightarrow> jstr) \<Rightarrow> inbox_message \<Rightarrow> session_event_base" where
  "legacy_base stamp m =
     (empty_base (pm_id m) (stamp m))\<lparr>se_source_session := pm_from m,
       se_source_label := Some (pm_from_label m), se_target_session := Some (pm_to m)\<rparr>"

definition legacy_request :: "(inbox_message \<Rightarrow> jstr) \<Rightarrow> inbox_message \<Rightarrow> session_event" where
  "legacy_request stamp m =
     Send_Request
       ((legacy_base stamp m)\<lparr>se_source_kind :=
          Some (case pm_source_kind m of None \<Rightarrow> Internal_Session | Some k \<Rightarrow> k)\<rparr>)
       \<lparr>rq_notification = (if pm_reply_back m then Notify_Auto else Notify_None),
        rq_payload = pm_text m, rq_handoff = None\<rparr>"

definition legacy_result ::
    "(inbox_message \<Rightarrow> jstr) \<Rightarrow> inbox_message \<Rightarrow> inbox_error + session_event" where
  "legacy_result stamp m =
     (if \<not> truthy (pm_from m) then Inl Legacy_Result_Source
      else let failed = prefix (js ''[ERROR '') (pm_text m) in
           Inr (Send_Result (legacy_base stamp m)
             \<lparr>rs_request_event = None,
              rs_status = (if failed then Event_Failed else Event_Ok),
              rs_terminal_reason = Some (if failed then js ''error'' else js ''completed''),
              rs_error_code = None, rs_payload = pm_text m\<rparr>))"

definition legacy_watch ::
    "(inbox_message \<Rightarrow> jstr) \<Rightarrow> inbox_message \<Rightarrow> inbox_error + session_event" where
  "legacy_watch stamp m =
     (if \<not> truthy (pm_from m) then Inl Legacy_Watch_Source
      else Inr (Watch_Event (legacy_base stamp m) Watch_Failed
        \<lparr>we_watch_id = pm_id m, we_state_at_registration = js ''unknown'',
         we_final_state = Some (js ''error''),
         we_terminal_reason = Some (js ''missing_session_event''),
         we_latest_result =
           (if truthy_str (pm_text m) then pm_text m
            else js ''Missing structured session event payload.'')\<rparr>))"

definition is_space_delivery :: "inbox_message \<Rightarrow> bool" where
  "is_space_delivery m \<longleftrightarrow>
     pm_kind m = Some Event_Kind
     \<and> (case pm_event m of Some (Space_Issue_Delivery _ _) \<Rightarrow> True | _ \<Rightarrow> False)"

definition comment_of :: "inbox_message \<Rightarrow> comment_input option" where
  "comment_of m =
     (if pm_kind m \<noteq> Some Event_Kind then None
      else case pm_event m of
          Some (Task_Comment b c) \<Rightarrow>
            Some \<lparr>tc_task_id = ce_task c, tc_task_name = ce_task_name c, tc_task_md_path = ce_task_md c,
                  tc_comment_id = ce_comment c,
                  tc_target_session = (case se_target_session b of None \<Rightarrow> [] | Some t \<Rightarrow> t),
                  tc_visible = pm_text m,
                  tc_reply = map_option (\<lambda>r. \<lparr>rc_comment_id = er_comment r, rc_author = er_author r,
                    rc_created_at = er_created_at r, rc_quote = er_quote r\<rparr>) (ce_reply c)\<rparr>
        | _ \<Rightarrow> None)"

text \<open>The event whose prompt is rendered.\<close>

definition event_of ::
    "(inbox_message \<Rightarrow> jstr) \<Rightarrow> inbox_message \<Rightarrow> inbox_error + session_event" where
  "event_of stamp m =
     (case pm_event m of
        Some e \<Rightarrow> Inr e
      | None \<Rightarrow>
          if pm_kind m = Some Reply_Kind then legacy_result stamp m
          else if pm_kind m = Some Event_Kind then legacy_watch stamp m
          else Inr (legacy_request stamp m))"

definition build_prompt ::
    "(json \<Rightarrow> jstr + channel_handoff) \<Rightarrow> (inbox_message \<Rightarrow> jstr) \<Rightarrow> inbox_message
     \<Rightarrow> inbox_error + jstr" where
  "build_prompt parse stamp m =
     (if is_space_delivery m then Inr (pm_text m)
      else case comment_of m of
          Some c \<Rightarrow> Inr (build_task_comment c)
        | None \<Rightarrow>
            (case event_of stamp m of
               Inl err \<Rightarrow> Inl err
             | Inr e \<Rightarrow>
                 (case render_prompt parse e of Inl err \<Rightarrow> Inl (Prompt_Error err) | Inr p \<Rightarrow> Inr p)))"

section \<open>The reply a turn owes\<close>

definition network_of ::
    "(json \<Rightarrow> network_return option) \<Rightarrow> inbox_message \<Rightarrow> inbox_error + network_return option" where
  "network_of parse_ref m =
     (case pm_network m of
        None \<Rightarrow> Inr None
      | Some v \<Rightarrow>
          (case parse_ref v of
             None \<Rightarrow> Inl Network_Context
           | Some r \<Rightarrow> if pm_source_kind m = Some External_Cli then Inl Network_Context
                       else Inr (Some r)))"

definition build_turn_meta ::
    "(json \<Rightarrow> network_return option) \<Rightarrow> inbox_message \<Rightarrow> inbox_error + turn_meta option" where
  "build_turn_meta parse_ref m =
     (case network_of parse_ref m of
        Inl err \<Rightarrow> Inl err
      | Inr network \<Rightarrow>
          if pm_kind m = Some Reply_Kind then Inr None
          else if pm_kind m = Some Event_Kind then Inr None
          else if \<not> pm_reply_back m then Inr None
          else if \<not> truthy (pm_from m) then Inl Reply_Source
          else Inr (Some
            \<lparr>tm_from = the (pm_from m), tm_from_label = pm_from_label m, tm_reply_back = True,
             tm_original = pm_id m, tm_snippet = reply_snippet (pm_text m), tm_network = network\<rparr>))"

section \<open>The drain\<close>

record agent_scenario =
  as_space :: jstr
  as_agent :: jstr

definition scenario_of :: "inbox_message \<Rightarrow> inbox_error + agent_scenario option" where
  "scenario_of m =
     (if pm_kind m \<noteq> Some Event_Kind then Inr None
      else case pm_event m of
          Some (Space_Issue_Delivery _ d) \<Rightarrow>
            if trim (si_space d) = [] \<or> trim (si_registered_agent d) = [] then Inl Agent_Origin
            else Inr (Some \<lparr>as_space = si_space d, as_agent = si_registered_agent d\<rparr>)
        | _ \<Rightarrow> Inr None)"

record injection =
  in_prompt :: jstr
  in_meta :: "turn_meta option"
  in_lazy :: bool
  in_scenario :: "agent_scenario option"
  in_handoff :: "(jstr \<times> jstr \<times> channel_handoff) option"
  in_notification :: "task_result_event option"

definition handoff_of :: "inbox_message \<Rightarrow> (session_event_base \<times> json) option" where
  "handoff_of m =
     (case pm_event m of
        Some (Send_Request b r) \<Rightarrow> map_option (\<lambda>h. (b, h)) (rq_handoff r)
      | _ \<Rightarrow> None)"

definition handoff_mismatch :: "inbox_message \<Rightarrow> session_event_base \<Rightarrow> bool" where
  "handoff_mismatch m b \<longleftrightarrow>
     pm_reply_back m \<or> pm_network m \<noteq> None \<or> pm_from m \<noteq> se_source_session b
     \<or> Some (pm_to m) \<noteq> se_target_session b \<or> pm_id m \<noteq> se_event_id b
     \<or> pm_source_kind m \<noteq> Some Internal_Session \<or> pm_kind m \<noteq> Some Request_Kind"

definition checked_handoff ::
    "(json \<Rightarrow> jstr + channel_handoff) \<Rightarrow> inbox_message \<Rightarrow> inbox_error + channel_handoff option" where
  "checked_handoff parse m =
     (case handoff_of m of
        None \<Rightarrow> Inr None
      | Some (b, raw) \<Rightarrow>
          if handoff_mismatch m b then Inl Handoff_Identity
          else (case parse raw of
                  Inl e \<Rightarrow> Inl (Prompt_Error (Handoff_Schema e))
                | Inr h \<Rightarrow> Inr (Some h)))"

definition checked_notification :: "inbox_message \<Rightarrow> inbox_error + task_result_event option" where
  "checked_notification m =
     (case pm_event m of
        Some (Task_Result b t) \<Rightarrow>
          if pm_kind m \<noteq> Some Event_Kind \<or> pm_reply_back m \<or> pm_network m \<noteq> None
             \<or> pm_id m \<noteq> tr_attempt t \<or> Some (pm_to m) \<noteq> se_target_session b
          then Inl Notification_Identity else Inr (Some t)
      | _ \<Rightarrow> Inr None)"

definition prepare ::
    "(json \<Rightarrow> jstr + channel_handoff) \<Rightarrow> (json \<Rightarrow> network_return option)
     \<Rightarrow> (inbox_message \<Rightarrow> jstr) \<Rightarrow> inbox_message \<Rightarrow> inbox_error + injection" where
  "prepare parse parse_ref stamp m =
     rbind (checked_handoff parse m) (\<lambda>handoff.
     rbind (checked_notification m) (\<lambda>notification.
     rbind (build_prompt parse stamp m) (\<lambda>prompt.
     rbind (build_turn_meta parse_ref m) (\<lambda>meta.
     rbind (scenario_of m) (\<lambda>scenario.
       Inr \<lparr>in_prompt = prompt, in_meta = meta,
            in_lazy = (is_space_delivery m \<or> comment_of m \<noteq> None),
            in_scenario = scenario,
            in_handoff = map_option (\<lambda>h. (pm_id m, pm_to m, h)) handoff, in_notification = notification\<rparr>)))))"

text \<open>The injector returns \<open>Inl\<close> when it throws, and its \<open>error\<close> field otherwise.\<close>

type_synonym 's injector = "'s \<Rightarrow> injection \<Rightarrow> 's \<times> (jstr + jstr option)"

definition drain_one ::
    "(json \<Rightarrow> jstr + channel_handoff) \<Rightarrow> (json \<Rightarrow> network_return option)
     \<Rightarrow> (inbox_message \<Rightarrow> jstr) \<Rightarrow> 's injector \<Rightarrow> 's \<Rightarrow> inbox_message \<Rightarrow> 's \<times> jstr option" where
  "drain_one parse parse_ref stamp inject s m =
     (case prepare parse parse_ref stamp m of
        Inl err \<Rightarrow> (s, Some (pm_id m @ js '': '' @ inbox_error_text err))
      | Inr i \<Rightarrow>
          (case inject s i of
             (s', Inl thrown) \<Rightarrow> (s', Some (pm_id m @ js '': '' @ thrown))
           | (s', Inr reason) \<Rightarrow>
               (s', if truthy reason then Some (pm_id m @ js '': '' @ the reason) else None)))"

record drain_response =
  dn_accepted :: bool
  dn_reason :: "jstr option"

fun drain_loop ::
    "('s \<Rightarrow> inbox_message \<Rightarrow> 's \<times> jstr option) \<Rightarrow> 's \<Rightarrow> bool \<Rightarrow> jstr list \<Rightarrow> inbox_message list
     \<Rightarrow> 's \<times> bool \<times> jstr list" where
  "drain_loop one s accepted reasons [] = (s, accepted, reasons)"
| "drain_loop one s accepted reasons (m # ms) =
     (case one s m of
        (s', None) \<Rightarrow> drain_loop one s' True reasons ms
      | (s', Some reason) \<Rightarrow> drain_loop one s' accepted (reasons @ [reason]) ms)"

definition handle_drain ::
    "(json \<Rightarrow> jstr + channel_handoff) \<Rightarrow> (json \<Rightarrow> network_return option)
     \<Rightarrow> (inbox_message \<Rightarrow> jstr) \<Rightarrow> 's injector \<Rightarrow> 's \<Rightarrow> inbox_message list \<Rightarrow> 's \<times> drain_response" where
  "handle_drain parse parse_ref stamp inject s ms =
     (if ms = [] then (s, \<lparr>dn_accepted = False, dn_reason = Some (js ''empty message batch'')\<rparr>)
      else case drain_loop (drain_one parse parse_ref stamp inject) s False [] ms of
          (s', accepted, reasons) \<Rightarrow>
            (s', if accepted then \<lparr>dn_accepted = True, dn_reason = None\<rparr>
                 else let reason = join_with (js ''; '') reasons in
                      \<lparr>dn_accepted = False,
                       dn_reason = Some (if truthy_str reason then reason
                                         else js ''all messages rejected'')\<rparr>))"

section \<open>What a message may show\<close>

lemma comment_strip: "strip_leading (Some (build_task_comment c)) = peel 8 (trim (tc_visible c))"
proof -
  obtain cs where "build_task_comment c = lines_text (reminder_open # open_tag task_comment_tag #
      cs @ close_tag task_comment_tag # reminder_close # [trim (tc_visible c)])" "hidden_lines cs"
    using task_comment_text by blast
  then show ?thesis using parse_built(3) [OF _ product_tags(5) product_tags_hidden(9,10), of cs] by simp
qed

lemma comment_visible: "comment_of m = Some c \<Longrightarrow> tc_visible c = pm_text m"
  by (auto simp: comment_of_def split: if_splits option.splits session_event.splits)

text \<open>
  What an inbox message puts before the user: a Space delivery is the prompt that its sender
  rendered, a Task comment shows exactly its comment, and every other message, structured or from
  an older sender, shows nothing at all. Only a request that asks for it binds a reply, to the
  session that sent it and under the message's own id, so a reply is never answered by a reply.
\<close>

theorem inbox_message_shows:
  "(case build_prompt parse stamp m of
      Inl _ \<Rightarrow> True
    | Inr p \<Rightarrow>
        (if is_space_delivery m then p = pm_text m
         else if comment_of m \<noteq> None then strip_leading (Some p) = peel 8 (trim (pm_text m))
         else strip_leading (Some p) = []))
   \<and> (case build_turn_meta parse_ref m of
        Inr (Some t) \<Rightarrow>
          pm_reply_back m \<and> pm_kind m \<noteq> Some Reply_Kind \<and> pm_kind m \<noteq> Some Event_Kind
          \<and> pm_from m = Some (tm_from t) \<and> tm_from t \<noteq> [] \<and> tm_original t = pm_id m
          \<and> length (tm_snippet t) \<le> 43
      | _ \<Rightarrow> True)"
proof
  show "case build_prompt parse stamp m of
      Inl _ \<Rightarrow> True
    | Inr p \<Rightarrow>
        (if is_space_delivery m then p = pm_text m
         else if comment_of m \<noteq> None then strip_leading (Some p) = peel 8 (trim (pm_text m))
         else strip_leading (Some p) = [])"
  proof (cases "event_of stamp m")
    case (Inr e)
    then show ?thesis
      using rendered_hidden [where parse = parse and e = e]
      by (auto simp: build_prompt_def comment_strip comment_visible
          split: option.splits sum.splits if_splits)
  qed (auto simp: build_prompt_def comment_strip comment_visible split: option.splits)
  have "length (reply_snippet s) \<le> 43" for s by (simp add: reply_snippet_def Let_def)
  then show "case build_turn_meta parse_ref m of
      Inr (Some t) \<Rightarrow>
        pm_reply_back m \<and> pm_kind m \<noteq> Some Reply_Kind \<and> pm_kind m \<noteq> Some Event_Kind
        \<and> pm_from m = Some (tm_from t) \<and> tm_from t \<noteq> [] \<and> tm_original t = pm_id m
        \<and> length (tm_snippet t) \<le> 43
    | _ \<Rightarrow> True"
    by (cases "pm_from m")
      (auto simp: build_turn_meta_def split: sum.splits option.splits if_splits)
qed

section \<open>A batch\<close>

text \<open>The reference: every message is handled once, in order, and leaves a reason or none.\<close>

fun handle_all :: "('s \<Rightarrow> inbox_message \<Rightarrow> 's \<times> jstr option) \<Rightarrow> 's \<Rightarrow> inbox_message list
    \<Rightarrow> 's \<times> jstr option list" where
  "handle_all one s [] = (s, [])"
| "handle_all one s (m # ms) =
     (let (s1, r) = one s m; (s2, rs) = handle_all one s1 ms in (s2, r # rs))"

lemma handle_all_length: "length (snd (handle_all one s ms)) = length ms"
proof (induction ms arbitrary: s)
  case (Cons m ms)
  obtain s1 r where "one s m = (s1, r)" by (cases "one s m")
  moreover obtain s2 rs where "handle_all one s1 ms = (s2, rs)" by (cases "handle_all one s1 ms")
  ultimately show ?case using Cons [of s1] by simp
qed simp

lemma drain_loop_all:
  "drain_loop one s accepted reasons ms =
     (fst (handle_all one s ms), accepted \<or> None \<in> set (snd (handle_all one s ms)),
      reasons @ present (snd (handle_all one s ms)))"
proof (induction ms arbitrary: s accepted reasons)
  case (Cons m ms)
  then show ?case
    by (auto simp: Let_def present_def List.map_filter_def split: prod.split option.split)
qed (simp add: present_def)

lemma drain_one_reason: "snd (drain_one parse parse_ref stamp inject s m) = Some r \<Longrightarrow> r \<noteq> []"
  by (auto simp: drain_one_def split: sum.splits prod.splits if_splits)

lemma handle_all_reasons:
  "(\<And>s m r. snd (one s m) = Some r \<Longrightarrow> r \<noteq> []) \<Longrightarrow>
   Some r \<in> set (snd (handle_all one s ms)) \<Longrightarrow> r \<noteq> []"
proof (induction ms arbitrary: s)
  case (Cons m ms)
  from Cons.prems(2) consider "snd (one s m) = Some r"
    | "Some r \<in> set (snd (handle_all one (fst (one s m)) ms))"
    by (auto simp: Let_def split: prod.splits)
  then show ?case
  proof cases
    case 1
    then show ?thesis by (rule Cons.prems(1))
  next
    case 2
    show ?thesis by (rule Cons.IH [OF Cons.prems(1) 2])
  qed
qed simp

lemma present_total: "None \<notin> set rs \<Longrightarrow> present rs = map the rs"
proof (induction rs)
  case (Cons a rs)
  then show ?case by (cases a) (simp_all add: present_def List.map_filter_def)
qed (simp add: present_def)

lemma join_nonempty: "xs \<noteq> [] \<Longrightarrow> [] \<notin> set xs \<Longrightarrow> join_with sep xs \<noteq> []"
  by (induction sep xs rule: join_with.induct) auto

text \<open>
  A message that cannot be rendered or is refused never keeps the others from being handled:
  the drain handles every message of the batch once and in order, whatever happened to those
  before, reports success exactly when some message was injected without an error, and otherwise
  gives every reason, in the order of the messages.
\<close>

theorem drain_handles_all:
  "handle_drain parse parse_ref stamp inject s ms =
     (let (s', rs) = handle_all (drain_one parse parse_ref stamp inject) s ms in
      (s', if None \<in> set rs then \<lparr>dn_accepted = True, dn_reason = None\<rparr>
           else \<lparr>dn_accepted = False,
                 dn_reason = Some (if rs = [] then js ''empty message batch''
                                   else join_with (js ''; '') (map the rs))\<rparr>))
   \<and> length (snd (handle_all (drain_one parse parse_ref stamp inject) s ms)) = length ms"
proof -
  let ?one = "drain_one parse parse_ref stamp inject"
  obtain s' rs where all: "handle_all ?one s ms = (s', rs)" by (cases "handle_all ?one s ms")
  have len: "length rs = length ms" using handle_all_length [of ?one s ms] all by simp
  have loop: "drain_loop ?one s False [] ms = (s', None \<in> set rs, present rs)"
    using drain_loop_all [of ?one s False "[]" ms] all by simp
  have reasons: "join_with (js ''; '') (map the rs) \<noteq> []" if "None \<notin> set rs" "rs \<noteq> []"
  proof (rule join_nonempty)
    have "Some [] \<notin> set rs"
    proof
      assume "Some [] \<in> set rs"
      then have "Some [] \<in> set (snd (handle_all ?one s ms))" by (simp only: all snd_conv)
      then have "[] \<noteq> ([] :: jstr)"
        by (rule handle_all_reasons [rotated]) (rule drain_one_reason)
      then show False by simp
    qed
    then show "[] \<notin> set (map the rs)" using \<open>None \<notin> set rs\<close>
      by (metis (no_types, lifting) image_iff list.set_map option.exhaust_sel)
  qed (use that in simp)
  show ?thesis
  proof (cases "ms = []")
    case True
    then show ?thesis using all by (simp add: handle_drain_def)
  next
    case False
    then have ne: "rs \<noteq> []" using len by auto
    show ?thesis
    proof (cases "None \<in> set rs")
      case True
      then show ?thesis unfolding handle_drain_def loop all using False len by simp
    next
      case none: False
      note reason = reasons [OF none ne] present_total [OF none]
      show ?thesis unfolding handle_drain_def loop all using False none reason ne len by simp
    qed
  qed
qed

end
