(* ===== verification/SessionWatch.thy ===== *)
theory SessionWatch
  imports InboxDrain
begin

text \<open>
  Watches on another session's turn: the registry of server/inbox/watch-registry.ts as a state with
  its steps, the result body and message of reply-deliver.ts, and the delivery at the end of a
  turn of watch-deliver.ts. What the management service and the network answer is given as
  functions; fresh ids and the time are arguments.
\<close>

section \<open>The registry\<close>

record session_watch =
  sw_id :: jstr
  sw_watcher :: jstr
  sw_resume_path :: "jstr option"
  sw_target :: jstr
  sw_target_label :: jstr
  sw_state :: jstr
  sw_registered_at :: jstr
  sw_turn :: "jstr option"
  sw_scope :: "jstr option"
  sw_network :: "network_return option"

type_synonym watches = "(jstr \<times> session_watch) list"

text \<open>The same observation of the same turn.\<close>

definition same_observation :: "session_watch \<Rightarrow> session_watch \<Rightarrow> bool" where
  "same_observation v w \<longleftrightarrow>
     sw_turn v = sw_turn w \<and> sw_target v = sw_target w \<and> sw_watcher v = sw_watcher w
     \<and> sw_scope v = sw_scope w"

definition register_watch :: "session_watch \<Rightarrow> watches \<Rightarrow> watches \<times> session_watch" where
  "register_watch w r =
     (case (if truthy (sw_turn w) then find (\<lambda>v. same_observation v w) (map snd r) else None) of
        Some existing \<Rightarrow> (r, existing)
      | None \<Rightarrow> (map_set (sw_id w) w r, w))"

definition ack_watch :: "jstr \<Rightarrow> watches \<Rightarrow> watches" where
  "ack_watch watch_id r = map_del watch_id r"

definition remove_network_watch :: "jstr \<Rightarrow> network_return \<Rightarrow> watches \<Rightarrow> watches \<times> bool" where
  "remove_network_watch watch_id ref r =
     (case map_of r watch_id of
        Some w \<Rightarrow> if sw_network w = Some ref then (map_del watch_id r, True) else (r, False)
      | None \<Rightarrow> (r, False))"

record watch_row =
  wr_id :: jstr
  wr_target :: jstr
  wr_turn :: "jstr option"
  wr_cancelled :: bool

definition manage_row :: "jstr option \<Rightarrow> bool \<Rightarrow> session_watch \<Rightarrow> watch_row" where
  "manage_row cancel all w =
     \<lparr>wr_id = sw_id w, wr_target = sw_target w, wr_turn = sw_turn w,
      wr_cancelled = (all \<or> cancel = Some (sw_id w))\<rparr>"

definition manage_watches ::
    "jstr \<Rightarrow> jstr option \<Rightarrow> bool \<Rightarrow> watches \<Rightarrow> watches \<times> watch_row list" where
  "manage_watches watcher cancel all r =
     (let rows = map (manage_row cancel all)
            (filter (\<lambda>w. sw_network w = None \<and> sw_watcher w = watcher) (map snd r))
      in (fold (\<lambda>row. if wr_cancelled row then ack_watch (wr_id row) else (\<lambda>r. r)) rows r, rows))"

section \<open>What a turn leaves\<close>

record reply_payload =
  rp_text :: jstr
  rp_error :: "(jstr \<times> jstr) option"
  rp_hints :: "jstr list option"
  rp_turn :: "jstr option"
  rp_terminal :: "event_terminal option"
  rp_requests :: "jstr list option"

definition reply_body :: "reply_payload \<Rightarrow> jstr" where
  "reply_body p =
     join_with [10]
       ((case rp_error p of
           Some (code, message) \<Rightarrow>
             (js ''[ERROR '' @ code @ js ''] '' @ message) #
               (if truthy_str (rp_text p) then [rp_text p] else [])
         | None \<Rightarrow> if truthy_str (rp_text p) then [rp_text p] else [js ''(no text response)''])
        @ (case rp_hints p of
             None \<Rightarrow> []
           | Some hs \<Rightarrow> if hs = [] then [] else [[], js ''Attachments: '' @ join_with (js '', '') hs]))"

definition watches_of :: "jstr \<Rightarrow> turn_meta \<Rightarrow> reply_payload \<Rightarrow> watches \<Rightarrow> jstr list" where
  "watches_of current meta p r =
     (if truthy (rp_turn p)
      then map sw_id (filter (\<lambda>w. sw_turn w = rp_turn p \<and> sw_target w = current
                                 \<and> sw_watcher w = tm_from meta) (map snd r))
      else [])"

definition reply_message ::
    "jstr \<Rightarrow> nat \<Rightarrow> jstr \<Rightarrow> jstr \<Rightarrow> jstr \<Rightarrow> turn_meta \<Rightarrow> reply_payload \<Rightarrow> watches \<Rightarrow> inbox_message" where
  "reply_message message_id now created label current meta p r =
     (let body = reply_body p; ids = watches_of current meta p r;
          failed = rp_error p \<noteq> None
      in \<lparr>pm_id = message_id, pm_source_kind = None, pm_from = Some current, pm_from_label = label,
          pm_to = tm_from meta, pm_text = body, pm_reply_back = False, pm_timestamp = Some now,
          pm_kind = Some Reply_Kind, pm_in_reply_to = Some (tm_snippet meta),
          pm_event = Some (Send_Result
            ((empty_base message_id created)\<lparr>se_source_session := Some current,
              se_source_label := Some label, se_target_session := Some (tm_from meta),
              se_turn_id := if truthy (rp_turn p) then rp_turn p else None,
              se_terminal_status := rp_terminal p,
              se_result_source := Some Result_Live,
              se_request_ids := Some [tm_original meta],
              se_watch_ids := if ids = [] then None else Some ids\<rparr>)
            \<lparr>rs_request_event = Some (tm_original meta),
             rs_status = (if failed then Event_Failed else Event_Ok),
             rs_terminal_reason = Some (if failed then js ''error'' else js ''completed''),
             rs_error_code = map_option fst (rp_error p), rs_payload = body\<rparr>),
          pm_network = None\<rparr>)"

section \<open>Delivery\<close>

definition watch_message ::
    "(jstr \<Rightarrow> jstr) \<Rightarrow> nat \<Rightarrow> jstr \<Rightarrow> jstr \<Rightarrow> reply_payload \<Rightarrow> session_watch \<Rightarrow> inbox_message" where
  "watch_message fresh now created current p w =
     (let event_id = fresh (sw_id w); body = reply_body p; failed = rp_error p \<noteq> None
      in \<lparr>pm_id = event_id, pm_source_kind = None, pm_from = Some current,
          pm_from_label = sw_target_label w, pm_to = sw_watcher w, pm_text = body,
          pm_reply_back = False, pm_timestamp = Some now, pm_kind = Some Event_Kind,
          pm_in_reply_to = None,
          pm_event = Some (Watch_Event
            ((empty_base event_id created)\<lparr>se_source_session := Some current,
              se_source_label := Some (sw_target_label w), se_target_session := Some (sw_watcher w),
              se_turn_id := if truthy (rp_turn p) then rp_turn p else None,
              se_terminal_status := rp_terminal p,
              se_result_source := Some Result_Live,
              se_request_ids := rp_requests p\<rparr>)
            (if failed then Watch_Failed else Completed)
            \<lparr>we_watch_id = sw_id w, we_state_at_registration = sw_state w,
             we_final_state = Some (if failed then js ''error'' else js ''idle''),
             we_terminal_reason = Some (case rp_error p of None \<Rightarrow> js ''completed'' | Some (code, _) \<Rightarrow> code),
             we_latest_result = body\<rparr>),
          pm_network = None\<rparr>)"

datatype fate = Waits | Mismatched | Answered "turn_meta list" | To_Network network_return | To_Inbox

definition matching_replies :: "reply_payload \<Rightarrow> turn_meta list \<Rightarrow> session_watch \<Rightarrow> turn_meta list" where
  "matching_replies p metas w =
     filter (\<lambda>m. tm_reply_back m \<and> tm_network m = None \<and> sw_network w = None
                 \<and> truthy (rp_turn p) \<and> sw_turn w = rp_turn p \<and> sw_watcher w = tm_from m) metas"

definition watch_fate ::
    "jstr \<Rightarrow> reply_payload \<Rightarrow> turn_meta list \<Rightarrow> session_watch \<Rightarrow> fate" where
  "watch_fate current p metas w =
     (if truthy (sw_turn w) \<and> sw_turn w \<noteq> rp_turn p then Waits
      else if sw_target w \<noteq> current then Mismatched
      else let ms = matching_replies p metas w in
           if ms \<noteq> [] then Answered ms
           else case sw_network w of Some ref \<Rightarrow> To_Network ref | None \<Rightarrow> To_Inbox)"

record outbox =
  ob_watches :: watches
  ob_local :: "inbox_message list"
  ob_network :: "(network_return \<times> inbox_message) list"

text \<open>The answers of the environment: whether a reply and a pushed message were delivered.\<close>

record answers =
  an_replied :: "turn_meta \<Rightarrow> bool"
  an_pushed :: "inbox_message \<Rightarrow> bool"

definition settle_watch ::
    "answers \<Rightarrow> (session_watch \<Rightarrow> inbox_message) \<Rightarrow> (session_watch \<Rightarrow> fate) \<Rightarrow> session_watch
     \<Rightarrow> outbox \<Rightarrow> outbox" where
  "settle_watch a message fate_of w s =
     (let ack = ack_watch (sw_id w) (ob_watches s) in
      case fate_of w of
        Waits \<Rightarrow> s
      | Mismatched \<Rightarrow> s\<lparr>ob_watches := ack\<rparr>
      | Answered ms \<Rightarrow> if list_ex (an_replied a) ms then s\<lparr>ob_watches := ack\<rparr> else s
      | To_Network ref \<Rightarrow>
          s\<lparr>ob_watches := ack, ob_network := ob_network s @ [(ref, message w)]\<rparr>
      | To_Inbox \<Rightarrow>
          (let s1 = s\<lparr>ob_local := ob_local s @ [message w]\<rparr> in
           if an_pushed a (message w) then s1\<lparr>ob_watches := ack\<rparr> else s1))"

definition deliver_watches ::
    "bool \<Rightarrow> answers \<Rightarrow> (jstr \<Rightarrow> jstr) \<Rightarrow> nat \<Rightarrow> jstr \<Rightarrow> jstr \<Rightarrow> reply_payload \<Rightarrow> turn_meta list
     \<Rightarrow> watches \<Rightarrow> outbox" where
  "deliver_watches management a fresh now created current p metas r =
     (let start = \<lparr>ob_watches = r, ob_local = [], ob_network = []\<rparr>; ws = map snd r in
      if \<not> management \<and> list_ex (\<lambda>w. sw_network w = None) ws
      then start\<lparr>ob_watches :=
             fold (\<lambda>w. if sw_network w \<noteq> None then ack_watch (sw_id w) else (\<lambda>r. r)) ws r\<rparr>
      else fold (settle_watch a (watch_message fresh now created current p)
                  (watch_fate current p metas)) ws start)"

section \<open>Reachable registries\<close>

inductive watch_step :: "watches \<Rightarrow> watches \<Rightarrow> bool" where
  step_register: "register_watch w r = (r', v) \<Longrightarrow> watch_step r r'"
| step_ack: "watch_step r (ack_watch i r)"
| step_remove: "remove_network_watch i ref r = (r', b) \<Longrightarrow> watch_step r r'"
| step_manage: "manage_watches watcher cancel all r = (r', rows) \<Longrightarrow> watch_step r r'"
| step_deliver: "watch_step r (ob_watches (deliver_watches management a fresh now created current p metas r))"

inductive_cases watch_stepE: "watch_step r r'"

inductive reachable_watches :: "watches \<Rightarrow> bool" where
  no_watches: "reachable_watches []"
| more_watches: "reachable_watches r \<Longrightarrow> watch_step r r' \<Longrightarrow> reachable_watches r'"

text \<open>
  Every entry is under its own id, ids are distinct, and no turn is observed twice by the same
  watcher in the same scope.
\<close>

definition watches_ok :: "watches \<Rightarrow> bool" where
  "watches_ok r \<longleftrightarrow>
     distinct (map_keys r)
     \<and> (\<forall>k w. map_of r k = Some w \<longrightarrow> sw_id w = k)
     \<and> (\<forall>k l v w. map_of r k = Some v \<longrightarrow> map_of r l = Some w \<longrightarrow> truthy (sw_turn v)
          \<longrightarrow> same_observation v w \<longrightarrow> k = l)"

lemma watches_ok_value: "watches_ok r \<Longrightarrow> w \<in> set (map snd r) \<Longrightarrow> map_of r (sw_id w) = Some w"
proof -
  assume ok: "watches_ok r" and "w \<in> set (map snd r)"
  then obtain k where "(k, w) \<in> set r" by auto
  then have "map_of r k = Some w" using ok by (auto simp: watches_ok_def)
  then show ?thesis using ok by (auto simp: watches_ok_def)
qed

lemma watches_ok_less:
  "watches_ok r \<Longrightarrow> distinct (map_keys r') \<Longrightarrow> (\<And>k w. map_of r' k = Some w \<Longrightarrow> map_of r k = Some w) \<Longrightarrow>
   watches_ok r'"
  unfolding watches_ok_def by blast

lemma ack_ok: "watches_ok r \<Longrightarrow> watches_ok (ack_watch i r)"
  by (rule watches_ok_less)
    (auto simp: watches_ok_def ack_watch_def distinct_map_del split: if_splits)

lemma fold_ok: "(\<And>x r. watches_ok r \<Longrightarrow> watches_ok (f x r)) \<Longrightarrow> watches_ok r \<Longrightarrow> watches_ok (fold f xs r)"
  by (induction xs arbitrary: r) simp_all

lemma register_ok:
  assumes ok: "watches_ok r" and reg: "register_watch w r = (r', v)"
  shows "watches_ok r'" and "v \<in> set (map snd r')" and "v = w \<or> same_observation v w"
proof -
  let ?found = "if truthy (sw_turn w) then find (\<lambda>v. same_observation v w) (map snd r) else None"
  show "watches_ok r'"
  proof (cases ?found)
    case (Some u)
    then show ?thesis using reg ok by (simp add: register_watch_def)
  next
    case None
    have new: "\<not> same_observation u w" if "map_of r k = Some u" "truthy (sw_turn w)" for k u
      using None that map_of_SomeD [OF that(1)] by (auto simp: find_None_iff)
    have turn: "same_observation u w \<Longrightarrow> truthy (sw_turn u) = truthy (sw_turn w)"
      "same_observation w u = same_observation u w" for u
      by (auto simp: same_observation_def)
    have "r' = map_set (sw_id w) w r" using reg unfolding register_watch_def None by auto
    moreover have "watches_ok (map_set (sw_id w) w r)"
      unfolding watches_ok_def
    proof (intro conjI allI impI)
      show "distinct (map_keys (map_set (sw_id w) w r))"
        using ok by (simp add: watches_ok_def distinct_map_set)
      show "sw_id u = k" if "map_of (map_set (sw_id w) w r) k = Some u" for k u
        using that ok by (cases "k = sw_id w") (auto simp: watches_ok_def)
      show "k = l" if "map_of (map_set (sw_id w) w r) k = Some u"
        "map_of (map_set (sw_id w) w r) l = Some v" "truthy (sw_turn u)" "same_observation u v"
        for k l u v
      proof (cases "k = sw_id w"; cases "l = sw_id w")
        assume "k = sw_id w" "l \<noteq> sw_id w"
        then show ?thesis using that new [of l v] turn [of v] by simp
      next
        assume "k \<noteq> sw_id w" "l = sw_id w"
        then show ?thesis using that new [of k u] turn [of u] by simp
      next
        assume "k \<noteq> sw_id w" "l \<noteq> sw_id w"
        then show ?thesis using that ok unfolding watches_ok_def by (metis fun_upd_other map_of_map_set)
      qed simp
    qed
    ultimately show ?thesis by simp
  qed
  show "v \<in> set (map snd r')" "v = w \<or> same_observation v w"
  proof -
    have "v \<in> set (map snd r') \<and> (v = w \<or> same_observation v w)"
    proof (cases ?found)
      case (Some u)
      then have "find (\<lambda>v. same_observation v w) (map snd r) = Some u" by (simp split: if_splits)
      then have "u \<in> set (map snd r)" "same_observation u w"
        by (auto simp only: find_Some_iff intro: nth_mem)
      moreover have "r' = r" "v = u" using reg unfolding register_watch_def Some by simp_all
      ultimately show ?thesis by simp
    next
      case None
      have "r' = map_set (sw_id w) w r" "v = w"
        using reg unfolding register_watch_def None by auto
      moreover have "map_of (map_set (sw_id w) w r) (sw_id w) = Some w" by simp
      ultimately have "(sw_id w, w) \<in> set r'" by (metis map_of_SomeD)
      then show ?thesis using \<open>v = w\<close> by force
    qed
    then show "v \<in> set (map snd r')" "v = w \<or> same_observation v w" by simp_all
  qed
qed

lemma settle_step_ok: "watches_ok (ob_watches s) \<Longrightarrow> watches_ok (ob_watches (settle_watch a f g w s))"
  by (simp add: settle_watch_def Let_def ack_ok split: fate.split)

lemma settle_fold_ok:
  "watches_ok (ob_watches s) \<Longrightarrow> watches_ok (ob_watches (fold (settle_watch a f g) ws s))"
  by (induction ws arbitrary: s) (simp_all add: settle_step_ok)

lemma step_ok: "watch_step r r' \<Longrightarrow> watches_ok r \<Longrightarrow> watches_ok r'"
proof (induction rule: watch_step.induct)
  case step_register
  then show ?case using register_ok(1) by blast
next
  case (step_remove i ref r r' b)
  then show ?case
    using ack_ok [of r i]
    by (auto simp: remove_network_watch_def ack_watch_def split: option.splits if_splits)
next
  case (step_manage watcher cancel all r r' rows)
  then have "r' = fold (\<lambda>row. if wr_cancelled row then ack_watch (wr_id row) else (\<lambda>r. r)) rows r"
    by (auto simp: manage_watches_def Let_def)
  then show ?case using step_manage(2) by (auto intro!: fold_ok ack_ok)
next
  case step_deliver
  then show ?case
    by (auto simp: deliver_watches_def Let_def intro!: fold_ok ack_ok settle_fold_ok)
qed (rule ack_ok)

lemma reachable_ok: "reachable_watches r \<Longrightarrow> watches_ok r"
  by (induction rule: reachable_watches.induct) (auto simp: step_ok, simp add: watches_ok_def)

section \<open>What a delivery does\<close>

definition keeps :: "answers \<Rightarrow> (session_watch \<Rightarrow> inbox_message) \<Rightarrow> (session_watch \<Rightarrow> fate) \<Rightarrow> session_watch \<Rightarrow> bool" where
  "keeps a message fate_of w =
     (case fate_of w of
        Waits \<Rightarrow> True
      | Mismatched \<Rightarrow> False
      | Answered ms \<Rightarrow> \<not> list_ex (an_replied a) ms
      | To_Network _ \<Rightarrow> False
      | To_Inbox \<Rightarrow> \<not> an_pushed a (message w))"

definition network_push ::
    "(session_watch \<Rightarrow> inbox_message) \<Rightarrow> (session_watch \<Rightarrow> fate) \<Rightarrow> session_watch
     \<Rightarrow> (network_return \<times> inbox_message) list" where
  "network_push message fate_of w =
     (case fate_of w of To_Network ref \<Rightarrow> [(ref, message w)] | _ \<Rightarrow> [])"

lemma settle_parts:
  "map_of (ob_watches (settle_watch a m f w s)) =
     (if keeps a m f w then map_of (ob_watches s) else (map_of (ob_watches s))(sw_id w := None))"
  "ob_local (settle_watch a m f w s) = ob_local s @ (if f w = To_Inbox then [m w] else [])"
  "ob_network (settle_watch a m f w s) = ob_network s @ network_push m f w"
  by (simp_all add: settle_watch_def keeps_def network_push_def ack_watch_def Let_def split: fate.split)

lemma settle_fold:
  "map_of (ob_watches (fold (settle_watch a m f) ws s)) k =
     (if list_ex (\<lambda>w. sw_id w = k \<and> \<not> keeps a m f w) ws then None else map_of (ob_watches s) k)"
  "ob_local (fold (settle_watch a m f) ws s) =
     ob_local s @ map m (filter (\<lambda>w. f w = To_Inbox) ws)"
  "ob_network (fold (settle_watch a m f) ws s) = ob_network s @ concat (map (network_push m f) ws)"
  by (induction ws arbitrary: s) (auto simp: settle_parts)

lemma value_member:
  assumes "watches_ok r"
  shows "list_ex (\<lambda>w. sw_id w = k \<and> P w) (map snd r) \<longleftrightarrow> (\<exists>w. map_of r k = Some w \<and> P w)"
proof
  assume "list_ex (\<lambda>w. sw_id w = k \<and> P w) (map snd r)"
  then obtain w where "w \<in> set (map snd r)" "sw_id w = k" "P w" by (auto simp: list_ex_iff)
  then show "\<exists>w. map_of r k = Some w \<and> P w" using watches_ok_value [OF assms] by blast
next
  assume "\<exists>w. map_of r k = Some w \<and> P w"
  then obtain w where w: "map_of r k = Some w" "P w" by blast
  then have "sw_id w = k" using assms by (simp add: watches_ok_def)
  moreover have "w \<in> set (map snd r)" using map_of_SomeD [OF w(1)] by force
  ultimately show "list_ex (\<lambda>w. sw_id w = k \<and> P w) (map snd r)" using w(2) by (auto simp: list_ex_iff)
qed

section \<open>What the registry promises\<close>

text \<open>
  C17. However watches are registered, acknowledged, cancelled and delivered, the registry stays
  well-formed: a watch is found under its own id, and one watcher observes one turn of one target
  at most once in a scope. Registering always yields a watch that is in the registry and observes
  what was asked for.
\<close>

theorem registry_well_formed:
  assumes "reachable_watches r" and "register_watch w r = (r', v)"
  shows "watches_ok r \<and> watches_ok r' \<and> map_of r' (sw_id v) = Some v
    \<and> (v = w \<or> same_observation v w)"
proof -
  have ok: "watches_ok r" by (rule reachable_ok [OF assms(1)])
  note reg = register_ok [OF ok assms(2)]
  then show ?thesis using ok watches_ok_value by blast
qed

definition sample_watch :: "jstr \<Rightarrow> session_watch" where
  "sample_watch i =
     \<lparr>sw_id = i, sw_watcher = js ''s1'', sw_resume_path = None, sw_target = js ''s2'',
      sw_target_label = js ''Desk'', sw_state = js ''running'', sw_registered_at = js ''now'',
      sw_turn = Some (js ''t1''), sw_scope = None, sw_network = None\<rparr>"

lemma sample_registry: "reachable_watches [(js ''w1'', sample_watch (js ''w1''))]"
proof (rule more_watches [OF no_watches])
  show "watch_step [] [(js ''w1'', sample_watch (js ''w1''))]"
    by (rule step_register [of "sample_watch (js ''w1'')" _ _ "sample_watch (js ''w1'')"])
      (simp add: register_watch_def sample_watch_def)
qed

theorem registry_well_formed_witness:
  "let r = [(js ''w1'', sample_watch (js ''w1''))] in
   watches_ok r \<and> watches_ok r \<and> map_of r (js ''w1'') = Some (sample_watch (js ''w1''))
   \<and> (sample_watch (js ''w1'') = sample_watch (js ''w2'')
      \<or> same_observation (sample_watch (js ''w1'')) (sample_watch (js ''w2'')))"
proof -
  have "register_watch (sample_watch (js ''w2'')) [(js ''w1'', sample_watch (js ''w1''))]
      = ([(js ''w1'', sample_watch (js ''w1''))], sample_watch (js ''w1''))"
    by (simp add: register_watch_def sample_watch_def same_observation_def)
  from registry_well_formed [OF sample_registry this] show ?thesis
    by (simp add: Let_def sample_watch_def)
qed

text \<open>
  C18. The end of a turn settles its watches exactly once: a watch on an earlier or later turn is
  left as it is; a watch that some reply to its watcher already answers sends nothing of its own
  and goes away when one of those replies arrived; every other watch of this session sends exactly
  one notification, in the order of registration, to the network or to the inbox; and a local
  watch stays exactly as long as nothing reached its watcher, while a network watch never stays.
\<close>

theorem delivery_settles_watches:
  fixes a :: answers and fresh :: "jstr \<Rightarrow> jstr" and now :: nat and created current :: jstr
    and p :: reply_payload and metas :: "turn_meta list"
  assumes "reachable_watches r"
  defines "message \<equiv> watch_message fresh now created current p"
    and "fate_of \<equiv> watch_fate current p metas"
  defines "after \<equiv> deliver_watches True a fresh now created current p metas r"
  shows "map_of (ob_watches after) k =
      (case map_of r k of None \<Rightarrow> None | Some w \<Rightarrow> if keeps a message fate_of w then Some w else None)
    \<and> ob_local after = map message (filter (\<lambda>w. fate_of w = To_Inbox) (map snd r))
    \<and> ob_network after = concat (map (network_push message fate_of) (map snd r))
    \<and> list_all (\<lambda>w. if truthy (sw_turn w) \<and> sw_turn w \<noteq> rp_turn p
         then map_of (ob_watches after) (sw_id w) = Some w else True) (map snd r)"
proof -
  have ok: "watches_ok r" by (rule reachable_ok [OF assms(1)])
  have after: "after = fold (settle_watch a message fate_of) (map snd r)
      \<lparr>ob_watches = r, ob_local = [], ob_network = []\<rparr>"
    unfolding after_def message_def fate_of_def deliver_watches_def Let_def by simp
  have looked: "map_of (ob_watches after) k =
      (case map_of r k of None \<Rightarrow> None | Some w \<Rightarrow> if keeps a message fate_of w then Some w else None)" for k
    unfolding after settle_fold value_member [OF ok] by (simp split: option.split)
  have "map_of (ob_watches after) (sw_id w) = Some w"
    if "w \<in> set (map snd r)" "truthy (sw_turn w)" "sw_turn w \<noteq> rp_turn p" for w
    using watches_ok_value [OF ok that(1)] that(2,3)
    by (simp add: looked keeps_def fate_of_def watch_fate_def)
  then have "list_all (\<lambda>w. if truthy (sw_turn w) \<and> sw_turn w \<noteq> rp_turn p
      then map_of (ob_watches after) (sw_id w) = Some w else True) (map snd r)"
    unfolding list_all_iff by simp
  moreover have "ob_local after = map message (filter (\<lambda>w. fate_of w = To_Inbox) (map snd r))"
    "ob_network after = concat (map (network_push message fate_of) (map snd r))"
    unfolding after settle_fold by simp_all
  ultimately show ?thesis using looked [of k] by blast
qed

theorem delivery_settles_watches_witness:
  "let r = [(js ''w1'', sample_watch (js ''w1''))];
       p = \<lparr>rp_text = js ''ok'', rp_error = None, rp_hints = None, rp_turn = Some (js ''t1''),
            rp_terminal = None, rp_requests = None\<rparr>;
       a = \<lparr>an_replied = (\<lambda>_. False), an_pushed = (\<lambda>_. True)\<rparr>;
       after = deliver_watches True a (\<lambda>i. i) 0 (js ''now'') (js ''s2'') p [] r;
       message = watch_message (\<lambda>i. i) 0 (js ''now'') (js ''s2'') p
   in map_of (ob_watches after) (js ''w1'') = None
      \<and> ob_local after = [message (sample_watch (js ''w1''))]"
proof -
  let ?p = "\<lparr>rp_text = js ''ok'', rp_error = None, rp_hints = None, rp_turn = Some (js ''t1''),
            rp_terminal = None, rp_requests = None\<rparr>"
  have "watch_fate (js ''s2'') ?p [] (sample_watch (js ''w1'')) = To_Inbox"
    by (simp add: watch_fate_def matching_replies_def sample_watch_def)
  then show ?thesis
    using delivery_settles_watches [OF sample_registry,
        of "\<lparr>an_replied = (\<lambda>_. False), an_pushed = (\<lambda>_. True)\<rparr>" "\<lambda>i. i" 0 "js ''now''" "js ''s2''"
          ?p "[]" "js ''w1''"]
    by (simp add: Let_def keeps_def)
qed

end
