(* ===== verification/ExternalInteractive.thy ===== *)
theory ExternalInteractive
  imports ImLifecycle SessionWatch
begin

text \<open>
  The interactive state of an external runtime's turn: external-session/interactive.ts. Several IM
  inputs may share one turn; the first keeps the answer, every joined request still needs its
  terminal. The events go through the bus of \<open>ImEventBus\<close>; a delivery of watches is the value that
  \<open>deliverSessionWatchEvents\<close> is called with.
\<close>

section \<open>State\<close>

datatype interactive_request =
    Permission_Ask jstr "jstr option" jstr jstr jstr
  | Question_Ask jstr "jstr option" json jstr
  | Exit_Plan_Ask jstr "jstr option" "jstr option"

record interactive =
  xi_active :: "jstr option"
  xi_actives :: "jstr list"
  xi_metas :: "turn_meta list"
  xi_hints :: "jstr list"
  xi_suggestions :: "(jstr \<times> json list option) list"
  xi_questions :: "(jstr \<times> jobj) list"
  xi_requests :: "(jstr \<times> interactive_request) list"

definition reset_interactive :: interactive where
  "reset_interactive =
     \<lparr>xi_active = None, xi_actives = [], xi_metas = [], xi_hints = [], xi_suggestions = [],
      xi_questions = [], xi_requests = []\<rparr>"

definition set_add :: "'a \<Rightarrow> 'a list \<Rightarrow> 'a list" where
  "set_add x xs = (if x \<in> set xs then xs else xs @ [x])"

section \<open>Active requests\<close>

definition set_active :: "jstr option \<Rightarrow> interactive \<Rightarrow> interactive" where
  "set_active k x = x\<lparr>xi_active := k, xi_actives := if truthy k then [the k] else []\<rparr>"

definition join_active :: "jstr option \<Rightarrow> interactive \<Rightarrow> interactive" where
  "join_active k x =
     (if \<not> truthy k then x
      else x\<lparr>xi_active := (case xi_active x of None \<Rightarrow> k | Some j \<Rightarrow> Some j),
             xi_actives := set_add (the k) (xi_actives x)\<rparr>)"

definition append_active :: "int \<Rightarrow> jstr option \<Rightarrow> interactive \<Rightarrow> im_state \<Rightarrow> interactive \<times> im_state" where
  "append_active now k x s =
     (join_active k x,
      if truthy k then with_registry (set_status now (the k) Im_Running) s else s)"

definition has_active :: "jstr \<Rightarrow> interactive \<Rightarrow> bool" where
  "has_active k x \<longleftrightarrow> k \<in> set (xi_actives x)"

definition clear_active :: "interactive \<Rightarrow> interactive" where
  "clear_active x = x\<lparr>xi_active := None, xi_actives := []\<rparr>"

definition publish_policy :: "int \<Rightarrow> jstr option \<Rightarrow> jstr option \<Rightarrow> im_state \<Rightarrow> im_state" where
  "publish_policy now k mode s =
     (if \<not> truthy k then s
      else emit_event now k Delivery_Policy None
             (with_registry
               (change_entry (the k) (\<lambda>e. e\<lparr>ie_mode := Some (case mode of Some m \<Rightarrow> m | None \<Rightarrow> js ''auto'')\<rparr>)) s))"

definition turn_context :: "interactive \<Rightarrow> im_state \<Rightarrow> json option" where
  "turn_context x s =
     (if truthy (xi_active x)
      then Option.bind (map_of (rg_entries (im_reg s)) (the (xi_active x))) ie_context else None)"

definition channel_inbound :: "jstr option \<Rightarrow> im_state \<Rightarrow> json option" where
  "channel_inbound k s =
     (if truthy k then Option.bind (map_of (rg_entries (im_reg s)) (the k)) ie_inbound else None)"

text \<open>The payload goes to the first request; a terminal of the others carries no reply.\<close>

definition fans_out :: "im_event_type \<Rightarrow> bool" where
  "fans_out t \<longleftrightarrow> is_terminal t \<or> t = Activity"

definition fired_events ::
    "im_event_type \<Rightarrow> json option \<Rightarrow> interactive \<Rightarrow> (jstr option \<times> json option) list" where
  "fired_events t payload x =
     (case xi_active x of None \<Rightarrow> [] | Some k \<Rightarrow> [(Some k, payload)])
     @ (if fans_out t
        then map (\<lambda>k. (Some k, if t = Activity then payload else Some (final_payloads [])))
               (filter (\<lambda>k. Some k \<noteq> xi_active x) (xi_actives x))
        else [])"

definition fire_callback :: "int \<Rightarrow> im_event_type \<Rightarrow> json option \<Rightarrow> interactive \<Rightarrow> im_state \<Rightarrow> im_state" where
  "fire_callback now t payload x s =
     fold (\<lambda>(k, p). emit_event now k t p) (fired_events t payload x) s"

definition finalize_active :: "int \<Rightarrow> im_status \<Rightarrow> interactive \<Rightarrow> im_state \<Rightarrow> interactive \<times> im_state" where
  "finalize_active now status x s =
     (clear_active x,
      fold (\<lambda>k. with_registry (unregister_request k \<circ> set_status now k status)) (xi_actives x) s)"

section \<open>What the turn replies to\<close>

definition append_meta :: "turn_meta option \<Rightarrow> interactive \<Rightarrow> interactive" where
  "append_meta m x =
     (case m of
        None \<Rightarrow> x
      | Some meta \<Rightarrow>
          if list_ex (\<lambda>i. tm_original i = tm_original meta \<and> tm_from i = tm_from meta) (xi_metas x) then x
          else x\<lparr>xi_metas := xi_metas x @ [meta]\<rparr>)"

definition set_meta :: "turn_meta option \<Rightarrow> interactive \<Rightarrow> interactive" where
  "set_meta m x = append_meta m (x\<lparr>xi_metas := []\<rparr>)"

definition first_meta :: "interactive \<Rightarrow> turn_meta option" where
  "first_meta x = (case xi_metas x of [] \<Rightarrow> None | m # _ \<Rightarrow> Some m)"

definition clear_metas :: "interactive \<Rightarrow> interactive" where
  "clear_metas x = x\<lparr>xi_metas := []\<rparr>"

definition reset_hints :: "interactive \<Rightarrow> interactive" where
  "reset_hints x = x\<lparr>xi_hints := []\<rparr>"

definition add_hint :: "jstr \<Rightarrow> interactive \<Rightarrow> interactive" where
  "add_hint h x = x\<lparr>xi_hints := xi_hints x @ [h]\<rparr>"

definition take_replies :: "interactive \<Rightarrow> interactive \<times> turn_meta list \<times> jstr list" where
  "take_replies x = (x\<lparr>xi_metas := [], xi_hints := []\<rparr>, xi_metas x, xi_hints x)"

record watch_error =
  we_session :: "jstr option"
  we_turn :: "jstr option"
  we_text :: jstr
  we_code :: jstr
  we_message :: jstr

definition error_terminal :: "jstr \<Rightarrow> event_terminal" where
  "error_terminal code = (if code = js ''session_aborted'' then Terminal_Stopped else Terminal_Error)"

text \<open>The session, the payload and the inbox requests of the watch delivery.\<close>

definition deliver_watch_error ::
    "jstr option \<Rightarrow> watch_error \<Rightarrow> interactive
     \<Rightarrow> interactive \<times> (jstr \<times> reply_payload \<times> turn_meta list) option" where
  "deliver_watch_error execution_turn e x =
     (if \<not> truthy (we_session e) then (x, None)
      else (clear_metas x,
        Some (the (we_session e),
          \<lparr>rp_text = we_text e, rp_error = Some (we_code e, we_message e),
           rp_hints = if xi_hints x = [] then None else Some (xi_hints x),
           rp_turn = (case we_turn e of Some t \<Rightarrow> Some t | None \<Rightarrow> execution_turn),
           rp_terminal = Some (error_terminal (we_code e)),
           rp_requests = Some (map tm_original (xi_metas x))\<rparr>,
          xi_metas x)))"

definition reject_metas ::
    "watch_error \<Rightarrow> interactive \<Rightarrow> interactive \<times> (jstr \<times> reply_payload \<times> turn_meta list) option" where
  "reject_metas e x =
     (reset_hints (clear_metas x),
      if xi_metas x = [] \<or> \<not> truthy (we_session e) then None
      else Some (the (we_session e),
        \<lparr>rp_text = [], rp_error = Some (we_code e, we_message e), rp_hints = None,
         rp_turn = we_turn e, rp_terminal = Some (error_terminal (we_code e)),
         rp_requests = Some (map tm_original (xi_metas x))\<rparr>,
        xi_metas x))"

section \<open>Waiting for the user\<close>

definition set_suggestions :: "jstr \<Rightarrow> json list option \<Rightarrow> interactive \<Rightarrow> interactive" where
  "set_suggestions k v x = x\<lparr>xi_suggestions := map_set k v (xi_suggestions x)\<rparr>"

definition get_suggestions :: "jstr \<Rightarrow> interactive \<Rightarrow> json list option" where
  "get_suggestions k x = Option.bind (map_of (xi_suggestions x) k) (\<lambda>v. v)"

definition consume_suggestions :: "jstr \<Rightarrow> interactive \<Rightarrow> interactive \<times> json list option" where
  "consume_suggestions k x =
     (x\<lparr>xi_suggestions := map_del k (xi_suggestions x)\<rparr>, get_suggestions k x)"

definition clear_suggestions :: "interactive \<Rightarrow> interactive" where
  "clear_suggestions x = x\<lparr>xi_suggestions := []\<rparr>"

definition set_question :: "jstr \<Rightarrow> jobj \<Rightarrow> interactive \<Rightarrow> interactive" where
  "set_question k v x = x\<lparr>xi_questions := map_set k v (xi_questions x)\<rparr>"

definition get_question :: "jstr \<Rightarrow> interactive \<Rightarrow> jobj option" where
  "get_question k x = map_of (xi_questions x) k"

definition has_question :: "jstr \<Rightarrow> interactive \<Rightarrow> bool" where
  "has_question k x \<longleftrightarrow> map_has k (xi_questions x)"

definition delete_question :: "jstr \<Rightarrow> interactive \<Rightarrow> interactive" where
  "delete_question k x = x\<lparr>xi_questions := map_del k (xi_questions x)\<rparr>"

definition clear_questions :: "interactive \<Rightarrow> interactive" where
  "clear_questions x = x\<lparr>xi_questions := []\<rparr>"

definition set_request :: "jstr \<Rightarrow> interactive_request \<Rightarrow> interactive \<Rightarrow> interactive" where
  "set_request k v x = x\<lparr>xi_requests := map_set k v (xi_requests x)\<rparr>"

definition get_request :: "jstr \<Rightarrow> interactive \<Rightarrow> interactive_request option" where
  "get_request k x = map_of (xi_requests x) k"

definition delete_request :: "jstr \<Rightarrow> interactive \<Rightarrow> interactive" where
  "delete_request k x = x\<lparr>xi_requests := map_del k (xi_requests x)\<rparr>"

definition requests_snapshot :: "interactive \<Rightarrow> interactive_request list" where
  "requests_snapshot x = map snd (xi_requests x)"

definition has_requests :: "interactive \<Rightarrow> bool" where
  "has_requests x \<longleftrightarrow> 0 < length (xi_requests x)"

definition clear_requests :: "interactive \<Rightarrow> interactive" where
  "clear_requests x = x\<lparr>xi_requests := []\<rparr>"

section \<open>The active requests stay consistent\<close>

text \<open>
  Joined requests are distinct and named, and the request that keeps the answer is one of them
  (an empty id, which no caller passes, is never joined).
\<close>

definition interactive_ok :: "interactive \<Rightarrow> bool" where
  "interactive_ok x \<longleftrightarrow>
     distinct (xi_actives x) \<and> [] \<notin> set (xi_actives x)
     \<and> (case xi_active x of None \<Rightarrow> xi_actives x = [] | Some k \<Rightarrow> k = [] \<or> k \<in> set (xi_actives x))"

datatype interactive_op =
    Set_Active "jstr option" | Append_Active "jstr option" | Clear_Active | Reset_Interactive
  | Meta_Change "turn_meta list" "jstr list" | Wait_Change "(jstr \<times> interactive_request) list"

definition exec_interactive :: "interactive_op \<Rightarrow> interactive \<Rightarrow> interactive" where
  "exec_interactive op x =
     (case op of
        Set_Active k \<Rightarrow> set_active k x
      | Append_Active k \<Rightarrow> join_active k x
      | Clear_Active \<Rightarrow> clear_active x
      | Reset_Interactive \<Rightarrow> reset_interactive
      | Meta_Change ms hs \<Rightarrow> x\<lparr>xi_metas := ms, xi_hints := hs\<rparr>
      | Wait_Change rs \<Rightarrow> x\<lparr>xi_requests := rs\<rparr>)"

lemma interactive_step: "interactive_ok x \<Longrightarrow> interactive_ok (exec_interactive op x)"
  by (cases op)
    (auto simp: exec_interactive_def interactive_ok_def set_active_def join_active_def clear_active_def
      reset_interactive_def set_add_def truthy_def split: option.splits)

lemma interactive_run: "interactive_ok x \<Longrightarrow> interactive_ok (fold exec_interactive ops x)"
  by (induction ops arbitrary: x) (simp_all add: interactive_step)

section \<open>Every joined request is settled\<close>

lemma evict_again: "evict_oldest (evict_oldest xs @ ys) = evict_oldest (xs @ ys)"
proof -
  have "drop (length (drop n xs @ ys) - m) (drop n xs @ ys) = drop (length (xs @ ys) - m) (xs @ ys)"
    if "n = length xs - m" for n m :: nat
    using that by (cases "m \<le> length xs") (simp_all add: drop_append[symmetric] add.commute)
  then show ?thesis unfolding evict_oldest_drop by blast
qed

lemma emitted_terminals:
  assumes "is_terminal t" and "distinct (map fst ps)" and "[] \<notin> set (map fst ps)"
    and "\<forall>k \<in> set (map fst ps). map_of (rg_terminals (im_reg s)) k = None"
    and "length (rg_terminals (im_reg s)) \<le> max_registry_size"
  shows "\<exists>evs. rg_terminals (im_reg (fold (\<lambda>(k, p). emit_event now (Some k) t p) ps s))
      = evict_oldest (rg_terminals (im_reg s) @ zip (map fst ps) evs)
    \<and> map (\<lambda>ev. (ev_request ev, ev_type ev, ev_data ev, ev_ts ev)) evs
      = map (\<lambda>(k, p). (Some k, t, Payload p, now)) ps"
  using assms(2-5)
proof (induction ps arbitrary: s)
  case Nil
  then show ?case by (auto simp: evict_oldest_drop)
next
  case (Cons q ps)
  obtain k p where q: "q = (k, p)" by (cases q)
  let ?ev = "stamp now (Some k) t p s" and ?s = "emit_event now (Some k) t p s"
  have now: "rg_terminals (im_reg ?s) = evict_oldest (rg_terminals (im_reg s) @ [(k, ?ev)])"
    using assms(1) Cons.prems q
    by (auto simp: emit_registry retain_terminal_def stamp_request map_has_def map_set_new)
  have old: "map_of (rg_terminals (im_reg ?s)) j = None" if "j \<in> set (map fst ps)" for j
  proof -
    have "j \<noteq> k" "map_of (rg_terminals (im_reg s)) j = None"
      using that Cons.prems(1,3) q by auto
    then have "map_of (drop i (rg_terminals (im_reg s) @ [(k, ?ev)])) j = None" for i
      by (auto simp: map_of_eq_None_iff simp del: drop_append dest!: in_set_dropD)
    then show ?thesis unfolding now evict_oldest_drop .
  qed
  have "length (rg_terminals (im_reg ?s)) \<le> max_registry_size"
    unfolding now by (simp add: evict_oldest_drop)
  then obtain evs where evs:
    "rg_terminals (im_reg (fold (\<lambda>(k, p). emit_event now (Some k) t p) ps ?s))
      = evict_oldest (rg_terminals (im_reg ?s) @ zip (map fst ps) evs)"
    "map (\<lambda>ev. (ev_request ev, ev_type ev, ev_data ev, ev_ts ev)) evs
      = map (\<lambda>(k, p). (Some k, t, Payload p, now)) ps"
    using Cons.IH [of ?s] Cons.prems old by auto
  then show ?case
    by (intro exI [of _ "?ev # evs"]) (simp add: q now evict_again stamp_request)
qed

lemma emitted_outcome:
  assumes "is_terminal t" and "distinct (map fst ps)" and "[] \<notin> set (map fst ps)"
    and "\<forall>k \<in> set (map fst ps). map_of (rg_terminals (im_reg s)) k = None"
    and "length (rg_terminals (im_reg s)) \<le> max_registry_size" and "length ps \<le> max_registry_size"
    and "(k, p) \<in> set ps"
  shows "\<exists>ev. map_of (rg_terminals (im_reg (fold (\<lambda>(k, p). emit_event now (Some k) t p) ps s))) k = Some ev
    \<and> ev_request ev = Some k \<and> ev_type ev = t \<and> ev_data ev = Payload p \<and> ev_ts ev = now"
proof -
  obtain evs where evs:
    "rg_terminals (im_reg (fold (\<lambda>(k, p). emit_event now (Some k) t p) ps s))
      = evict_oldest (rg_terminals (im_reg s) @ zip (map fst ps) evs)"
    "map (\<lambda>ev. (ev_request ev, ev_type ev, ev_data ev, ev_ts ev)) evs
      = map (\<lambda>(k, p). (Some k, t, Payload p, now)) ps"
    using emitted_terminals [OF assms(1-5)] by blast
  have len: "length ps = length evs" using arg_cong [OF evs(2), of length] by simp
  obtain i where i: "i < length ps" "ps ! i = (k, p)" using assms(7) by (auto simp: in_set_conv_nth)
  have "map_of (zip (map fst ps) evs) (map fst ps ! i) = Some (evs ! i)"
    by (rule map_of_zip_nth) (use len assms(2) i in simp_all)
  then have new: "map_of (zip (map fst ps) evs) k = Some (evs ! i)" using i by simp
  have "map (\<lambda>ev. (ev_request ev, ev_type ev, ev_data ev, ev_ts ev)) evs ! i
      = map (\<lambda>(k, p). (Some k, t, Payload p, now)) ps ! i"
    unfolding evs(2) ..
  then have ev: "ev_request (evs ! i) = Some k" "ev_type (evs ! i) = t" "ev_data (evs ! i) = Payload p"
    "ev_ts (evs ! i) = now"
    using i len by simp_all
  let ?old = "rg_terminals (im_reg s)"
  have kept: "evict_oldest (?old @ zip (map fst ps) evs)
      = drop (length ?old + length ps - max_registry_size) ?old @ zip (map fst ps) evs"
    using assms(6) len unfolding evict_oldest_drop by simp
  have "map_of ?old k = None" using assms(4,7) by force
  then have "map_of (drop j ?old) k = None" for j
    by (auto simp: map_of_eq_None_iff dest!: in_set_dropD)
  then show ?thesis unfolding evs(1) kept using new ev by (simp add: map_add_def)
qed

lemma finalize_fold:
  "rg_terminals (im_reg (fold (\<lambda>k. with_registry (unregister_request k \<circ> set_status now k status)) ks s))
     = rg_terminals (im_reg s)"
  "map_of (rg_entries (im_reg (fold (\<lambda>k. with_registry (unregister_request k \<circ> set_status now k status)) ks s))) k
     = (if k \<in> set ks then None else map_of (rg_entries (im_reg s)) k)"
  "im_bus (fold (\<lambda>k. with_registry (unregister_request k \<circ> set_status now k status)) ks s) = im_bus s"
  by (induction ks arbitrary: s)
    (auto simp: with_registry_def unregister_request_def set_status_def change_entry_def split: option.split)

lemma fired_keys:
  assumes "interactive_ok x" and "xi_active x \<noteq> Some []" and "is_terminal t"
  shows "\<exists>ps. fire_callback now t payload x s = fold (\<lambda>(k, p). emit_event now (Some k) t p) ps s
    \<and> distinct (map fst ps) \<and> set (map fst ps) = set (xi_actives x) \<and> length ps = length (xi_actives x)
    \<and> (\<forall>k \<in> set (xi_actives x).
         (k, if xi_active x = Some k then payload else Some (final_payloads [])) \<in> set ps)"
proof (cases "xi_active x")
  case None
  then have "xi_actives x = []" using assms(1) by (simp add: interactive_ok_def)
  then show ?thesis using None by (intro exI [of _ "[]"]) (simp add: fire_callback_def fired_events_def)
next
  case (Some a)
  have a: "a \<in> set (xi_actives x)" "distinct (xi_actives x)"
    using assms(1,2) Some by (simp_all add: interactive_ok_def)
  let ?rest = "filter (\<lambda>k. k \<noteq> a) (xi_actives x)"
  let ?ps = "(a, payload) # map (\<lambda>k. (k, Some (final_payloads []))) ?rest"
  have "t \<noteq> Activity" using assms(3) by (auto simp: is_terminal_def)
  then have "fire_callback now t payload x s = fold (\<lambda>(k, p). emit_event now (Some k) t p) ?ps s"
    using assms(3) Some by (simp add: fire_callback_def fired_events_def fans_out_def fold_map o_def
        case_prod_beta eq_commute)
  moreover have "length ?ps = length (xi_actives x)"
  proof -
    have "length ?rest = length (xi_actives x) - 1"
      using length_remove1 [of a "xi_actives x"] a
      by (simp add: distinct_remove1_removeAll removeAll_filter_not_eq eq_commute)
    then show ?thesis using a(1) by (cases "xi_actives x") auto
  qed
  ultimately show ?thesis
    using Some a by (intro exI [of _ ?ps]) (auto simp: o_def)
qed

text \<open>
  C22. Every request that joined a turn is settled when the turn ends: each gets exactly one terminal
  event of the reported kind, the first one with the answer and the others with an empty reply, it
  is the request's outcome from then on, and no request stays registered or active.
\<close>

theorem joined_requests_all_settled:
  assumes "interactive_ok x" and "xi_active x \<noteq> Some []" and "is_terminal t" and "registry_ok (im_reg s)"
    and "length (xi_actives x) \<le> max_registry_size"
    and "list_all (\<lambda>k. map_of (rg_terminals (im_reg s)) k = None) (xi_actives x)"
    and "k \<in> set (xi_actives x)"
  shows "let (y, u) = finalize_active later status x (fire_callback now t payload x s) in
      (case snd (im_outcome now k (im_reg u)) of
         Terminal ev \<Rightarrow> ev_request ev = Some k \<and> ev_type ev = t
           \<and> ev_data ev = Payload (if xi_active x = Some k then payload else Some (final_payloads []))
       | _ \<Rightarrow> False)
      \<and> map_of (rg_entries (im_reg u)) k = None \<and> \<not> has_active k y
      \<and> ib_next (im_bus u) = ib_next (im_bus s) + length (xi_actives x)"
proof -
  let ?p = "if xi_active x = Some k then payload else Some (final_payloads [])"
  obtain ps where ps: "fire_callback now t payload x s = fold (\<lambda>(k, p). emit_event now (Some k) t p) ps s"
      "distinct (map fst ps)" "set (map fst ps) = set (xi_actives x)" "length ps = length (xi_actives x)"
      "(k, ?p) \<in> set ps"
    using fired_keys [OF assms(1-3)] assms(7) by meson
  have "[] \<notin> set (map fst ps)" "\<forall>k \<in> set (map fst ps). map_of (rg_terminals (im_reg s)) k = None"
    using assms(1,6) unfolding ps(3) by (simp_all add: interactive_ok_def list_all_iff)
  moreover have "length (rg_terminals (im_reg s)) \<le> max_registry_size"
    using assms(4) by (simp add: registry_ok_def terminals_ok_def)
  moreover have "length ps \<le> max_registry_size" using ps(4) assms(5) by simp
  ultimately obtain ev where ev: "map_of (rg_terminals (im_reg (fire_callback now t payload x s))) k = Some ev"
      "ev_request ev = Some k" "ev_type ev = t" "ev_data ev = Payload ?p" "ev_ts ev = now"
    using emitted_outcome [OF assms(3) ps(2) _ _ _ _ ps(5)] unfolding ps(1) by blast
  have count: "ib_next (im_bus (fold (\<lambda>(k, p). emit_event now (Some k) t p) qs s)) = ib_next (im_bus s) + length qs"
    for qs s by (induction qs arbitrary: s) (auto simp: emit_delivered)
  show ?thesis
    using ev assms(7) count [of ps s]
    by (simp add: finalize_active_def finalize_fold im_outcome_def stale_ms_def has_active_def
        clear_active_def ps(1) ps(4))
qed

lemma joined_requests_all_settled_witness:
  "let x = fold exec_interactive [Set_Active (Some (js ''m1'')), Append_Active (Some (js ''m2''))] reset_interactive;
       s = \<lparr>im_reg = new_registry, im_bus = new_bus\<rparr>;
       u = snd (finalize_active 1 Im_Completed x (fire_callback 0 Im_Complete (Some (complete_payload (js ''hi''))) x s))
   in (case snd (im_outcome 0 (js ''m2'') (im_reg u)) of
         Terminal ev \<Rightarrow> ev_data ev = Payload (Some (final_payloads []))
       | _ \<Rightarrow> False)
      \<and> ib_next (im_bus u) = 3"
proof -
  let ?x = "fold exec_interactive [Set_Active (Some (js ''m1'')), Append_Active (Some (js ''m2''))] reset_interactive"
  let ?s = "\<lparr>im_reg = new_registry, im_bus = new_bus\<rparr>"
  have x: "xi_active ?x = Some (js ''m1'')" "xi_actives ?x = [js ''m1'', js ''m2'']"
    by (simp_all add: exec_interactive_def set_active_def join_active_def set_add_def reset_interactive_def)
  have "interactive_ok ?x" by (rule interactive_run) (simp add: interactive_ok_def reset_interactive_def)
  from joined_requests_all_settled [OF this, of Im_Complete ?s "js ''m2''" 1 Im_Completed 0
      "Some (complete_payload (js ''hi''))"]
  show ?thesis
    using x new_registry_ok
    by (auto simp: Let_def case_prod_beta is_terminal_def max_registry_size_def new_registry_def new_bus_def
        split: im_outcome.splits)
qed

end
