(* ===== verification/PartialJson.thy ===== *)
theory PartialJson
  imports JsText
begin

text \<open>
  The parser of streamed JSON of shared/parsePartialJson.ts: the scanner that finds what is open
  at the end of the text received so far, the completion built from it, and the order of attempts.
  \<open>JSON.parse\<close> is the argument \<open>parse\<close>, with None where it throws. A grammar of nested texts is the
  reference for what the completion produces.
\<close>

section \<open>The scanner\<close>

definition is_whitespace :: "16 word \<Rightarrow> bool" where
  "is_whitespace c \<longleftrightarrow> c = 32 \<or> c = 10 \<or> c = 13 \<or> c = 9 \<or> c = 12"

text \<open>The local variables of the loop. The head of \<open>sc_stack\<close> is the closer expected next.\<close>

record scan =
  sc_stack :: jstr
  sc_in_string :: bool
  sc_escape :: bool
  sc_balanced :: int
  sc_garbage :: "nat option"
  sc_error :: bool
  sc_comma :: int

definition scan_start :: scan where
  "scan_start =
     \<lparr>sc_stack = [], sc_in_string = False, sc_escape = False, sc_balanced = -1,
      sc_garbage = None, sc_error = False, sc_comma = -1\<rparr>"

definition stop_at :: "nat \<Rightarrow> scan \<Rightarrow> scan" where
  "stop_at i st = st\<lparr>sc_error := True, sc_garbage := Some i\<rparr>"

text \<open>One unit of the loop; the flag says whether the loop breaks.\<close>

definition scan_bracket :: "nat \<Rightarrow> 16 word \<Rightarrow> scan \<Rightarrow> scan \<times> bool" where
  "scan_bracket i c st =
     (if c = 44 then (if length (sc_stack st) = 1 then st\<lparr>sc_comma := int i\<rparr> else st, False)
      else if c = 123 then (st\<lparr>sc_stack := 125 # sc_stack st\<rparr>, False)
      else if c = 91 then (st\<lparr>sc_stack := 93 # sc_stack st\<rparr>, False)
      else if c = 125 \<or> c = 93
      then case sc_stack st of
          [] \<Rightarrow> (stop_at i st, True)
        | e # rest \<Rightarrow>
            if e \<noteq> c then (stop_at i st, True)
            else (st\<lparr>sc_stack := rest,
                     sc_balanced := if rest = [] then int i + 1 else sc_balanced st\<rparr>, False)
      else (st, False))"

definition scan_started :: "nat \<Rightarrow> 16 word \<Rightarrow> scan \<Rightarrow> scan \<times> bool" where
  "scan_started i c st =
     (if sc_escape st then (st\<lparr>sc_escape := False\<rparr>, False)
      else if c = 92 then (st\<lparr>sc_escape := True\<rparr>, False)
      else if c = 34
      then (st\<lparr>sc_in_string := \<not> sc_in_string st,
               sc_balanced := if sc_in_string st \<and> sc_stack st = [] then int i + 1
                              else sc_balanced st\<rparr>, False)
      else if sc_in_string st then (st, False)
      else scan_bracket i c st)"

definition closed :: "scan \<Rightarrow> bool" where
  "closed st \<longleftrightarrow> \<not> sc_in_string st \<and> sc_stack st = [] \<and> sc_balanced st \<noteq> -1"

definition scan_unit :: "nat \<Rightarrow> 16 word \<Rightarrow> scan \<Rightarrow> scan \<times> bool" where
  "scan_unit i c st =
     (if closed st
      then if is_whitespace c then (st\<lparr>sc_balanced := int i + 1\<rparr>, False)
           else (st\<lparr>sc_garbage := Some i\<rparr>, True)
      else scan_started i c st)"

fun scan_loop :: "nat \<Rightarrow> jstr \<Rightarrow> scan \<Rightarrow> scan" where
  "scan_loop i [] st = st"
| "scan_loop i (c # s) st =
     (let (st1, stop) = scan_unit i c st in if stop then st1 else scan_loop (Suc i) s st1)"

definition scan_text :: "jstr \<Rightarrow> scan" where
  "scan_text s = scan_loop 0 s scan_start"

record partial_state =
  ps_completed :: jstr
  ps_prefix_end :: int
  ps_error :: bool
  ps_comma :: int

definition analyze :: "jstr \<Rightarrow> partial_state" where
  "analyze s =
     (let st = scan_text s in
      \<lparr>ps_completed = s @ (if sc_in_string st then [34] else []) @ sc_stack st,
       ps_prefix_end = (case sc_garbage st of Some i \<Rightarrow> int i | None \<Rightarrow> sc_balanced st),
       ps_error = sc_error st,
       ps_comma = sc_comma st\<rparr>)"

section \<open>The last complete field\<close>

text \<open>\<open>s.lastIndexOf(',')\<close>, with None for -1.\<close>

fun last_comma :: "jstr \<Rightarrow> nat option" where
  "last_comma [] = None"
| "last_comma (c # s) =
     (case last_comma s of Some i \<Rightarrow> Some (Suc i) | None \<Rightarrow> if c = 44 then Some 0 else None)"

text \<open>The second loop: it pops without looking at what it pops.\<close>

record opens =
  op_stack :: jstr
  op_in_string :: bool
  op_escape :: bool

definition open_unit :: "16 word \<Rightarrow> opens \<Rightarrow> opens" where
  "open_unit c o1 =
     (if op_escape o1 then o1\<lparr>op_escape := False\<rparr>
      else if c = 92 then o1\<lparr>op_escape := True\<rparr>
      else if c = 34 then o1\<lparr>op_in_string := \<not> op_in_string o1\<rparr>
      else if op_in_string o1 then o1
      else if c = 123 then o1\<lparr>op_stack := 125 # op_stack o1\<rparr>
      else if c = 125 then o1\<lparr>op_stack := tl (op_stack o1)\<rparr>
      else if c = 91 then o1\<lparr>op_stack := 93 # op_stack o1\<rparr>
      else if c = 93 then o1\<lparr>op_stack := tl (op_stack o1)\<rparr>
      else o1)"

definition open_text :: "jstr \<Rightarrow> opens" where
  "open_text s = fold open_unit s \<lparr>op_stack = [], op_in_string = False, op_escape = False\<rparr>"

definition close_text :: "jstr \<Rightarrow> jstr" where
  "close_text s =
     (let o1 = open_text s in s @ (if op_in_string o1 then [34] else []) @ op_stack o1)"

definition last_field :: "(jstr \<Rightarrow> 'a option) \<Rightarrow> jstr \<Rightarrow> 'a option" where
  "last_field parse s =
     (case last_comma s of None \<Rightarrow> None | Some i \<Rightarrow> parse (close_text (take i s)))"

section \<open>The attempts\<close>

text \<open>The balanced prefix that is tried, when there is one.\<close>

definition balanced_prefix :: "jstr \<Rightarrow> jstr option" where
  "balanced_prefix s =
     (let state = analyze s in
      if 0 < ps_prefix_end state \<and> (\<not> ps_error state \<or> ps_comma state = -1)
      then let p = trim_end (take (nat (ps_prefix_end state)) s) in if p = [] then None else Some p
      else None)"

definition parse_partial :: "(jstr \<Rightarrow> 'a option) \<Rightarrow> jstr \<Rightarrow> 'a option" where
  "parse_partial parse s =
     (if \<not> truthy_str s \<or> trim s = [] then None
      else case parse s of
          Some v \<Rightarrow> Some v
        | None \<Rightarrow>
            (case parse (ps_completed (analyze s)) of
               Some v \<Rightarrow> Some v
             | None \<Rightarrow>
                 (case balanced_prefix s of
                    None \<Rightarrow> last_field parse s
                  | Some p \<Rightarrow>
                      (case parse (ps_completed (analyze p)) of
                         Some v \<Rightarrow> Some v
                       | None \<Rightarrow>
                           (case parse p of Some v \<Rightarrow> Some v | None \<Rightarrow> last_field parse s)))))"

section \<open>Nested texts\<close>

text \<open>
  The reference: brackets match, a string runs from one quote to the next, and a backslash takes
  the unit after it.
\<close>

inductive string_body :: "jstr \<Rightarrow> bool" where
  body_Nil: "string_body []"
| body_unit: "c \<noteq> 34 \<Longrightarrow> c \<noteq> 92 \<Longrightarrow> string_body s \<Longrightarrow> string_body (c # s)"
| body_escape: "string_body s \<Longrightarrow> string_body (92 # c # s)"

inductive nested :: "jstr \<Rightarrow> bool" where
  nested_Nil: "nested []"
| nested_unit: "c \<notin> {34, 92, 123, 125, 91, 93} \<Longrightarrow> nested s \<Longrightarrow> nested (c # s)"
| nested_escape: "nested s \<Longrightarrow> nested (92 # c # s)"
| nested_string: "string_body b \<Longrightarrow> nested s \<Longrightarrow> nested (34 # b @ 34 # s)"
| nested_object: "nested b \<Longrightarrow> nested s \<Longrightarrow> nested (123 # b @ 125 # s)"
| nested_array: "nested b \<Longrightarrow> nested s \<Longrightarrow> nested (91 # b @ 93 # s)"

section \<open>The scanner as an automaton\<close>

text \<open>Acceptance from a stack of closers, a string flag and an escape flag.\<close>

fun accepts :: "jstr \<Rightarrow> bool \<Rightarrow> bool \<Rightarrow> jstr \<Rightarrow> bool" where
  "accepts stk q e [] = (stk = [] \<and> \<not> q \<and> \<not> e)"
| "accepts stk q e (c # s) =
     (if e then accepts stk q False s
      else if c = 92 then accepts stk q True s
      else if c = 34 then accepts stk (\<not> q) False s
      else if q then accepts stk q False s
      else if c = 123 then accepts (125 # stk) False False s
      else if c = 91 then accepts (93 # stk) False False s
      else if c = 125 \<or> c = 93
      then stk \<noteq> [] \<and> hd stk = c \<and> accepts (tl stk) False False s
      else accepts stk False False s)"

definition view :: "scan \<Rightarrow> opens" where
  "view st = \<lparr>op_stack = sc_stack st, op_in_string = sc_in_string st, op_escape = sc_escape st\<rparr>"

definition scan_ok :: "nat \<Rightarrow> scan \<Rightarrow> bool" where
  "scan_ok i st \<longleftrightarrow>
     (sc_balanced st \<noteq> -1 \<longrightarrow> sc_stack st = [] \<and> \<not> sc_in_string st \<and> \<not> sc_escape st)
     \<and> set (sc_stack st) \<subseteq> {125, 93} \<and> length (sc_stack st) \<le> i \<and> sc_balanced st \<le> int i
     \<and> sc_garbage st = None"

lemma whitespace_plain: "is_whitespace c \<Longrightarrow> c \<notin> {34, 92, 123, 125, 91, 93}"
  by (auto simp: is_whitespace_def)

text \<open>What a unit of the loop must do: break with the index recorded, or agree with both automata.\<close>

definition unit_right :: "nat \<Rightarrow> 16 word \<Rightarrow> scan \<Rightarrow> scan \<times> bool \<Rightarrow> bool" where
  "unit_right i c st r =
     (case r of (st1, stop) \<Rightarrow>
        if stop then sc_garbage st1 = Some i \<and> length (sc_stack st1) \<le> i
        else scan_ok (Suc i) st1 \<and> view st1 = open_unit c (view st)
          \<and> (\<forall>s. accepts (sc_stack st) (sc_in_string st) (sc_escape st) (c # s) =
               accepts (sc_stack st1) (sc_in_string st1) (sc_escape st1) s))"

lemma bracket_right:
  assumes "scan_ok i st" and "\<not> closed st" and "\<not> sc_escape st" and "\<not> sc_in_string st"
    and "c \<noteq> 92" and "c \<noteq> 34"
  shows "unit_right i c st (scan_bracket i c st)"
proof -
  have open_state: "sc_balanced st = -1 \<or> sc_stack st \<noteq> []"
    using assms(2,4) by (auto simp: closed_def)
  consider "c = 44" | "c = 123" | "c = 91" | "c = 125 \<or> c = 93" | "c \<notin> {34, 92, 123, 125, 91, 93, 44}"
    using assms(5,6) by blast
  then show ?thesis
  proof cases
    case 4
    then have c: "c \<noteq> 44" "c \<noteq> 123" "c \<noteq> 91" "c \<noteq> 92" "c \<noteq> 34" by auto
    show ?thesis
    proof (cases "sc_stack st")
      case Nil
      then show ?thesis
        using c 4 assms(1) by (simp add: unit_right_def scan_bracket_def stop_at_def scan_ok_def)
    next
      case (Cons e r)
      then show ?thesis
        using c 4 assms open_state
        by (auto simp: unit_right_def scan_bracket_def stop_at_def scan_ok_def view_def open_unit_def)
    qed
  qed (use assms open_state in \<open>auto simp: unit_right_def scan_bracket_def scan_ok_def view_def open_unit_def\<close>)
qed

lemma started_right:
  assumes "scan_ok i st" and "\<not> closed st"
  shows "unit_right i c st (scan_started i c st)"
proof -
  have open_state: "sc_in_string st \<or> sc_balanced st = -1 \<or> sc_stack st \<noteq> []"
    using assms(2) by (auto simp: closed_def)
  consider "sc_escape st" | "\<not> sc_escape st" "c = 92" | "\<not> sc_escape st" "c = 34"
    | "\<not> sc_escape st" "c \<noteq> 92" "c \<noteq> 34" "sc_in_string st"
    | "\<not> sc_escape st" "c \<noteq> 92" "c \<noteq> 34" "\<not> sc_in_string st" by blast
  then show ?thesis
  proof cases
    case 5
    then show ?thesis using bracket_right [OF assms] by (simp add: scan_started_def)
  qed (use assms open_state in \<open>auto simp: unit_right_def scan_started_def scan_ok_def view_def open_unit_def\<close>)
qed

lemma unit_right_all: "scan_ok i st \<Longrightarrow> unit_right i c st (scan_unit i c st)"
proof (cases "closed st")
  case True
  assume ok: "scan_ok i st"
  then have "sc_stack st = []" "\<not> sc_in_string st" "\<not> sc_escape st"
    using True by (simp_all add: closed_def scan_ok_def)
  then show ?thesis
    using True ok whitespace_plain [of c]
    by (auto simp: scan_unit_def unit_right_def scan_ok_def view_def open_unit_def)
qed (simp add: scan_unit_def started_right)

section \<open>The loop\<close>

lemma scan_loop_go:
  "scan_ok i st \<Longrightarrow> sc_garbage (scan_loop i s st) = None \<Longrightarrow>
   scan_ok (i + length s) (scan_loop i s st)
   \<and> view (scan_loop i s st) = fold open_unit s (view st)
   \<and> (\<forall>t. accepts (sc_stack st) (sc_in_string st) (sc_escape st) (s @ t) =
        (let f = scan_loop i s st in accepts (sc_stack f) (sc_in_string f) (sc_escape f) t))"
proof (induction s arbitrary: i st)
  case (Cons c s)
  obtain st1 stop where u: "scan_unit i c st = (st1, stop)" by (cases "scan_unit i c st")
  have right: "unit_right i c st (st1, stop)" using unit_right_all [OF Cons.prems(1), of c] u by simp
  have "\<not> stop" using right Cons.prems(2) u by (auto simp: unit_right_def)
  then show ?case
    using right u Cons.prems(2) Cons.IH [of "Suc i" st1] by (simp add: unit_right_def)
qed simp

lemma scan_loop_bounds:
  "scan_ok i st \<Longrightarrow> length (sc_stack (scan_loop i s st)) \<le> i + length s
   \<and> (case sc_garbage (scan_loop i s st) of
        None \<Rightarrow> sc_balanced (scan_loop i s st) \<le> int (i + length s)
      | Some n \<Rightarrow> n < i + length s)"
proof (induction s arbitrary: i st)
  case (Cons c s)
  obtain st1 stop where u: "scan_unit i c st = (st1, stop)" by (cases "scan_unit i c st")
  have right: "unit_right i c st (st1, stop)" using unit_right_all [OF Cons.prems, of c] u by simp
  show ?case
  proof (cases stop)
    case True
    then show ?thesis using right u by (simp add: unit_right_def)
  next
    case False
    then show ?thesis
      using right u Cons.IH [of "Suc i" st1] by (simp add: unit_right_def split: option.splits)
  qed
qed (simp add: scan_ok_def)

lemma scan_start_ok: "scan_ok 0 scan_start"
  by (simp add: scan_ok_def scan_start_def)

lemmas scan_text_go = scan_loop_go [OF scan_start_ok, folded scan_text_def, simplified]
lemmas scan_text_bounds = scan_loop_bounds [OF scan_start_ok, folded scan_text_def, simplified]

lemma analyze_simps:
  "ps_completed (analyze s) =
     s @ (if sc_in_string (scan_text s) then [34] else []) @ sc_stack (scan_text s)"
  "ps_prefix_end (analyze s) =
     (case sc_garbage (scan_text s) of Some i \<Rightarrow> int i | None \<Rightarrow> sc_balanced (scan_text s))"
  by (simp_all add: analyze_def Let_def)

section \<open>Acceptance and the grammar\<close>

text \<open>A text that is accepted from a stack is nested text, closer, nested text, and so on.\<close>

fun nested_with :: "jstr \<Rightarrow> jstr \<Rightarrow> bool" where
  "nested_with [] s = nested s"
| "nested_with (t # ts) s = (\<exists>w r. s = w @ t # r \<and> nested w \<and> nested_with ts r)"

lemma nested_with_front:
  assumes "\<And>r. nested r \<Longrightarrow> nested (p @ r)" and "nested_with stk s"
  shows "nested_with stk (p @ s)"
proof (cases stk)
  case (Cons t ts)
  then obtain w r where "s = w @ t # r" "nested w" "nested_with ts r" using assms(2) by auto
  then have "p @ s = (p @ w) @ t # r \<and> nested (p @ w) \<and> nested_with ts r" using assms(1) by simp
  then show ?thesis unfolding Cons nested_with.simps by blast
qed (use assms in simp)

lemma nested_with_open:
  assumes "nested_with (d # stk) s" and "\<And>b r. nested b \<Longrightarrow> nested r \<Longrightarrow> nested (c # b @ d # r)"
  shows "nested_with stk (c # s)"
proof -
  obtain w r where s: "s = w @ d # r" and w: "nested w" and r: "nested_with stk r"
    using assms(1) by auto
  have "nested_with stk ((c # w @ [d]) @ r)"
    by (rule nested_with_front [OF _ r]) (use assms(2) w in simp)
  then show ?thesis using s by simp
qed

lemma accepts_nested:
  "(accepts stk False False s \<longrightarrow> nested_with stk s)
   \<and> (accepts stk True False s \<longrightarrow> (\<exists>b r. s = b @ 34 # r \<and> string_body b \<and> nested_with stk r))"
proof (induction "length s" arbitrary: s stk rule: less_induct)
  case less
  have ih: "accepts stk' False False u \<Longrightarrow> nested_with stk' u"
    "accepts stk' True False u \<Longrightarrow> \<exists>b r. u = b @ 34 # r \<and> string_body b \<and> nested_with stk' r"
    if "length u < length s" for u stk'
    using less(1) [OF that] by blast+
  show ?case
  proof (cases s)
    case Nil
    then show ?thesis by (auto intro: nested_Nil)
  next
    case (Cons c u)
    have outer: "nested_with stk (c # u)" if acc: "accepts stk False False (c # u)"
    proof -
      have len: "length u < length s" by (simp add: Cons)
      consider "c = 92" | "c = 34" | "c = 123" | "c = 91" | "c = 125 \<or> c = 93"
        | "c \<notin> {34, 92, 123, 125, 91, 93}" by blast
      then show ?thesis
      proof cases
        case 1
        then obtain d v where u: "u = d # v" using acc by (cases u) auto
        then have "nested_with stk v" using acc 1 ih(1) [of v stk] by (simp add: Cons)
        then show ?thesis
          using nested_with_front [of "[92, d]" stk v] nested_escape by (simp add: 1 u)
      next
        case 2
        then obtain b r where u: "u = b @ 34 # r" "string_body b" "nested_with stk r"
          using acc ih(2) [OF len, of stk] by auto
        then show ?thesis
          using nested_with_front [of "34 # b @ [34]" stk r] nested_string by (simp add: 2)
      next
        case 3
        then have "nested_with (125 # stk) u"
          using acc ih(1) [OF len] by (simp del: nested_with.simps)
        then show ?thesis unfolding 3 by (rule nested_with_open) (rule nested_object)
      next
        case 4
        then have "nested_with (93 # stk) u"
          using acc ih(1) [OF len] by (simp del: nested_with.simps)
        then show ?thesis unfolding 4 by (rule nested_with_open) (rule nested_array)
      next
        case 5
        then have "stk \<noteq> []" "hd stk = c" "nested_with (tl stk) u"
          using acc ih(1) [OF len] by (auto split: if_splits)
        then obtain ts where "stk = c # ts" "nested_with ts u" by (cases stk) auto
        then show ?thesis by (auto intro: exI [of _ "[]"] nested_Nil)
      next
        case 6
        then have "nested_with stk u" using acc ih(1) [OF len] by simp
        then show ?thesis
          using nested_with_front [of "[c]" stk u] nested_unit [OF 6] by simp
      qed
    qed
    have inner: "\<exists>b r. c # u = b @ 34 # r \<and> string_body b \<and> nested_with stk r"
      if acc: "accepts stk True False (c # u)"
    proof -
      have len: "length u < length s" by (simp add: Cons)
      consider "c = 92" | "c = 34" | "c \<noteq> 34" "c \<noteq> 92" by blast
      then show ?thesis
      proof cases
        case 1
        then obtain d v where u: "u = d # v" using acc by (cases u) auto
        then obtain b r where "v = b @ 34 # r" "string_body b" "nested_with stk r"
          using acc 1 ih(2) [of v stk] by (auto simp: Cons)
        then show ?thesis
          using body_escape [of b d] by (intro exI [of _ "92 # d # b"] exI [of _ r]) (simp add: 1 u)
      next
        case 2
        then have "nested_with stk u" using acc ih(1) [OF len] by simp
        then show ?thesis using 2 body_Nil by (intro exI [of _ "[]"] exI [of _ u]) simp
      next
        case 3
        then obtain b r where "u = b @ 34 # r" "string_body b" "nested_with stk r"
          using acc ih(2) [OF len, of stk] by auto
        then show ?thesis
          using body_unit [OF 3] by (intro exI [of _ "c # b"] exI [of _ r]) simp
      qed
    qed
    show ?thesis unfolding Cons using outer inner by blast
  qed
qed

lemma accepts_closers: "set stk \<subseteq> {125, 93} \<Longrightarrow> accepts stk False False stk"
  by (induction stk) auto

lemma accepts_completion:
  "set stk \<subseteq> {125, 93} \<Longrightarrow> accepts stk q False ((if q then [34] else []) @ stk)"
  by (cases q) (simp_all add: accepts_closers)

section \<open>What the parser promises\<close>

text \<open>
  The completion closes everything that is open: when the text received so far breaks no
  bracket, has nothing after its first value and does not end in the middle of an escape, the
  completed text is a nested text of the grammar. It extends the received text, and it is what the
  second loop, which pops without checking, would have made of it too.
\<close>

theorem completion_is_nested:
  assumes "sc_garbage (scan_text s) = None" and "\<not> sc_escape (scan_text s)"
  shows "nested (ps_completed (analyze s)) \<and> prefix s (ps_completed (analyze s))
    \<and> close_text s = ps_completed (analyze s)"
proof -
  let ?f = "scan_text s"
  note go = scan_text_go [OF assms(1)]
  have closers: "set (sc_stack ?f) \<subseteq> {125, 93}" using go by (simp add: scan_ok_def)
  have start: "accepts [] False False (s @ t) = accepts (sc_stack ?f) (sc_in_string ?f) False t" for t
    using go assms(2) by (simp add: scan_start_def Let_def)
  have "accepts [] False False (ps_completed (analyze s))"
    unfolding analyze_simps start by (rule accepts_completion [OF closers])
  then have "nested (ps_completed (analyze s))"
    using accepts_nested [of "[]" "ps_completed (analyze s)"] by simp
  moreover have "open_text s = view ?f"
    using go by (simp add: open_text_def view_def scan_start_def)
  ultimately show ?thesis by (simp add: close_text_def analyze_simps view_def)
qed

theorem completion_is_nested_witness:
  \<open>nested (ps_completed (analyze (js ''{"a": [1, "x''))) \<and>
   prefix (js ''{"a": [1, "x'') (ps_completed (analyze (js ''{"a": [1, "x''))) \<and>
   close_text (js ''{"a": [1, "x'') = ps_completed (analyze (js ''{"a": [1, "x''))\<close>
  by (rule completion_is_nested)
    (simp_all add: scan_text_def scan_start_def scan_unit_def scan_started_def scan_bracket_def
      closed_def js_def)

text \<open>The texts that are tried, in order.\<close>

definition attempts :: "jstr \<Rightarrow> jstr list" where
  "attempts s =
     [s, ps_completed (analyze s)]
     @ (case balanced_prefix s of None \<Rightarrow> [] | Some p \<Rightarrow> [ps_completed (analyze p), p])
     @ (case last_comma s of None \<Rightarrow> [] | Some i \<Rightarrow> [close_text (take i s)])"

fun first_parse :: "(jstr \<Rightarrow> 'a option) \<Rightarrow> jstr list \<Rightarrow> 'a option" where
  "first_parse parse [] = None"
| "first_parse parse (t # ts) = (case parse t of Some v \<Rightarrow> Some v | None \<Rightarrow> first_parse parse ts)"

lemma completed_bound: "length (ps_completed (analyze s)) \<le> 2 * length s + 1"
  using scan_text_bounds [of s] by (simp add: analyze_simps)

lemma open_unit_bound: "length (op_stack (open_unit c o1)) \<le> Suc (length (op_stack o1))"
  by (auto simp: open_unit_def)

lemma open_fold_bound:
  "length (op_stack (fold open_unit s o1)) \<le> length s + length (op_stack o1)"
proof (induction s arbitrary: o1)
  case (Cons c s)
  have "length (op_stack (fold open_unit s (open_unit c o1)))
      \<le> length s + length (op_stack (open_unit c o1))" by (rule Cons)
  then show ?case using open_unit_bound [of c o1] by simp
qed simp

lemma close_text_bound: "length (close_text s) \<le> 2 * length s + 1"
  using open_fold_bound [of s "\<lparr>op_stack = [], op_in_string = False, op_escape = False\<rparr>"]
  by (simp add: close_text_def open_text_def Let_def)

lemma trim_end_length: "length (trim_end s) \<le> length s"
  using trim_end_prefix [of s] by (metis length_append le_add1)

lemma balanced_prefix_bound: "balanced_prefix s = Some p \<Longrightarrow> length p \<le> length s"
  using trim_end_length [of "take (nat (ps_prefix_end (analyze s))) s"]
  by (auto simp: balanced_prefix_def Let_def split: if_splits)

text \<open>
  The parser tries a fixed list of texts and returns the first that parses: the text as it
  is, its completion, the completed and the plain balanced prefix, and the text up to its last
  comma, closed. A blank text is not tried, a text that already parses is never changed, and no
  text that is tried is longer than twice the received text and one unit.
\<close>

theorem attempts_in_order:
  "parse_partial parse s = (if trim s = [] then None else first_parse parse (attempts s))
   \<and> list_all (\<lambda>t. length t \<le> 2 * length s + 1) (attempts s)"
proof
  show "parse_partial parse s = (if trim s = [] then None else first_parse parse (attempts s))"
    by (auto simp: parse_partial_def attempts_def last_field_def split: option.split)
  have "length (ps_completed (analyze p)) \<le> 2 * length s + 1" "length p \<le> 2 * length s + 1"
    if "balanced_prefix s = Some p" for p
    using completed_bound [of p] balanced_prefix_bound [OF that] by simp_all
  moreover have "length (close_text (take i s)) \<le> 2 * length s + 1" for i
    using close_text_bound [of "take i s"] by simp
  ultimately show "list_all (\<lambda>t. length t \<le> 2 * length s + 1) (attempts s)"
    using completed_bound [of s] by (auto simp: attempts_def split: option.split)
qed

text \<open>A text that ends right after a backslash is not closed by its completion.\<close>

lemma dangling_escape:
  "\<not> accepts [] False False (ps_completed (analyze [0x7B, 0x22, 0x61, 0x22, 0x3A, 0x22, 0x5C]))"
  by (simp add: analyze_def scan_text_def scan_start_def scan_unit_def scan_started_def
      scan_bracket_def closed_def is_whitespace_def)

end
