(* ===== verification/WorkspaceTree.thy ===== *)
theory WorkspaceTree
  imports JsText
begin

text \<open>
  The workspace tree of the renderer: the node type of shared/dir-types.ts, the row and item types of
  workspace-tree/treeTypes.ts, the flattening of treeFlatten.ts and the set of open folders of
  useWorkspaceTreeModel.ts. Pixels and row indices are integers here (the transition in pixels,
  \<open>computeStickyPushPx\<close>, is arithmetic of floating point numbers and is left out). A React state
  update is a function of the previous state.
\<close>

section \<open>Nodes and rows\<close>

datatype node_kind = Tree_File | Tree_Dir

datatype tree_node =
  Tree_Node (tn_id: jstr) (tn_name: jstr) (tn_path: jstr) (tn_kind: node_kind)
    (tn_children: "tree_node list option") (tn_loaded: "bool option")

record node_meta =
  nm_data :: tree_node
  nm_depth :: nat
  nm_parent :: "jstr option"

type_synonym meta_map = "(jstr \<times> node_meta) list"

record tree_row = node_meta +
  tr_path :: jstr
  tr_dir :: bool
  tr_loading :: bool
  tr_open :: bool
  tr_selected :: bool

record sticky_ancestor =
  sa_id :: jstr
  sa_path :: jstr
  sa_name :: jstr
  sa_depth :: nat

datatype create_kind = Create_File | Create_Folder

datatype tree_editing =
    Rename (te_path: jstr) (te_initial: jstr) (te_dir: bool) (te_siblings: "jstr list")
  | Create create_kind (te_parent: jstr) (te_siblings: "jstr list")

datatype tree_item =
    Node_Item (ti_key: jstr) tree_row
  | Edit_Item (ti_key: jstr) nat tree_editing
  | Empty_Hint (ti_key: jstr) nat jstr

section \<open>Paths\<close>

definition parent_dir :: "jstr \<Rightarrow> jstr" where
  "parent_dir path = (let i = last_index 47 path in if 0 < i then take (nat i) path else [])"

definition base_name :: "jstr \<Rightarrow> jstr" where
  "base_name path = (let i = last_index 47 path in if 0 \<le> i then drop (nat i + 1) path else path)"

text \<open>The parent that a row hangs under, synthetic rows included; an empty path is no parent.\<close>

definition or_null :: "jstr \<Rightarrow> jstr option" where
  "or_null s = (if s = [] then None else Some s)"

definition sticky_parent :: "tree_item \<Rightarrow> jstr option" where
  "sticky_parent item =
     (case item of
        Node_Item _ row \<Rightarrow> nm_parent row
      | Edit_Item _ _ (Rename path _ _ _) \<Rightarrow> or_null (parent_dir path)
      | Edit_Item _ _ (Create _ dir _) \<Rightarrow> or_null dir
      | Empty_Hint _ _ dir \<Rightarrow> or_null dir)"

section \<open>Flattening\<close>

fun build_meta :: "tree_node list \<Rightarrow> nat \<Rightarrow> jstr option \<Rightarrow> meta_map \<Rightarrow> meta_map" where
  "build_meta [] depth parent m = m"
| "build_meta (Tree_Node i nm p k ch l # nodes) depth parent m =
     (let m1 = map_set p \<lparr>nm_data = Tree_Node i nm p k ch l, nm_depth = depth, nm_parent = parent\<rparr> m;
          m2 = (case ch of
                  Some kids \<Rightarrow> if k = Tree_Dir \<and> kids \<noteq> [] then build_meta kids (depth + 1) (Some p) m1 else m1
                | None \<Rightarrow> m1)
      in build_meta nodes depth parent m2)"

definition make_row ::
    "jstr list \<Rightarrow> jstr list \<Rightarrow> jstr list \<Rightarrow> tree_node \<Rightarrow> nat \<Rightarrow> jstr option \<Rightarrow> tree_row" where
  "make_row open_paths loading selected n depth parent =
     \<lparr>nm_data = n, nm_depth = depth, nm_parent = parent, tr_path = tn_path n, tr_dir = (tn_kind n = Tree_Dir),
      tr_loading = (tn_path n \<in> set loading),
      tr_open = (tn_kind n = Tree_Dir \<and> tn_path n \<in> set open_paths),
      tr_selected = (tn_path n \<in> set selected)\<rparr>"

fun build_rows ::
    "jstr list \<Rightarrow> jstr list \<Rightarrow> jstr list \<Rightarrow> tree_node list \<Rightarrow> nat \<Rightarrow> jstr option \<Rightarrow> tree_row list" where
  "build_rows op ld sel [] depth parent = []"
| "build_rows op ld sel (Tree_Node i nm p k ch l # nodes) depth parent =
     make_row op ld sel (Tree_Node i nm p k ch l) depth parent
     # (case ch of
          Some kids \<Rightarrow>
            if k = Tree_Dir \<and> p \<in> set op \<and> kids \<noteq> [] then build_rows op ld sel kids (depth + 1) (Some p) else []
        | None \<Rightarrow> [])
     @ build_rows op ld sel nodes depth parent"

definition range_selection :: "tree_row list \<Rightarrow> jstr \<Rightarrow> jstr \<Rightarrow> jstr list" where
  "range_selection rows anchor target =
     (let i = find_index (\<lambda>r. tr_path r = anchor) rows; j = find_index (\<lambda>r. tr_path r = target) rows
      in if i = -1 \<or> j = -1 then [target]
         else (let (lo, hi) = (if i < j then (i, j) else (j, i))
               in map tr_path (drop (nat lo) (take (nat hi + 1) rows))))"

section \<open>Sticky ancestors\<close>

text \<open>The chain is walked upwards, at most \<open>max_depth\<close> steps.\<close>

fun walk_ancestors :: "nat \<Rightarrow> meta_map \<Rightarrow> jstr option \<Rightarrow> sticky_ancestor list \<Rightarrow> sticky_ancestor list" where
  "walk_ancestors 0 m parent acc = acc"
| "walk_ancestors (Suc left) m parent acc =
     (if \<not> truthy parent then acc
      else (case map_of m (the parent) of
              None \<Rightarrow> acc
            | Some meta \<Rightarrow>
                walk_ancestors left m (nm_parent meta)
                  (\<lparr>sa_id = tn_id (nm_data meta), sa_path = the parent, sa_name = tn_name (nm_data meta),
                    sa_depth = nm_depth meta\<rparr> # acc)))"

definition sticky_ancestors ::
    "tree_item list \<Rightarrow> meta_map \<Rightarrow> int \<Rightarrow> int \<Rightarrow> nat \<Rightarrow> sticky_ancestor list" where
  "sticky_ancestors items m first_visible scroll_top max_depth =
     (if scroll_top \<le> 0 \<or> first_visible \<le> 0 then []
      else if items = [] then []
      else walk_ancestors max_depth m
             (sticky_parent (items ! nat (min first_visible (int (length items) - 1)))) [])"

fun resolve_loop ::
    "nat \<Rightarrow> (int \<Rightarrow> sticky_ancestor list) \<Rightarrow> int \<Rightarrow> nat \<Rightarrow> sticky_ancestor list \<Rightarrow> sticky_ancestor list" where
  "resolve_loop 0 ancestors_at top_units n ancestors = ancestors"
| "resolve_loop (Suc steps) ancestors_at top_units n ancestors =
     (let found = ancestors_at (top_units + int n)
      in if length found = n then found
         else resolve_loop steps ancestors_at top_units (length found) found)"

definition resolve_sticky ::
    "int \<Rightarrow> int \<Rightarrow> nat \<Rightarrow> (int \<Rightarrow> sticky_ancestor list) \<Rightarrow> sticky_ancestor list" where
  "resolve_sticky scroll_top row_height max_depth ancestors_at =
     (if scroll_top \<le> 0 \<or> row_height \<le> 0 then []
      else resolve_loop (max_depth + 1) ancestors_at (scroll_top div row_height) 0 [])"

definition max_sticky_depth :: nat where
  "max_sticky_depth = 3"

section \<open>Items\<close>

definition edit_key :: jstr where
  "edit_key = js ''synthetic:edit''"

definition creating_in :: "tree_editing option \<Rightarrow> jstr option" where
  "creating_in editing = (case editing of Some (Create _ dir _) \<Rightarrow> Some dir | _ \<Rightarrow> None)"

definition renames :: "tree_editing option \<Rightarrow> jstr \<Rightarrow> bool" where
  "renames editing path = (case editing of Some (Rename p _ _ _) \<Rightarrow> path = p | _ \<Rightarrow> False)"

definition child_count :: "tree_node \<Rightarrow> nat" where
  "child_count n = (case tn_children n of None \<Rightarrow> 0 | Some kids \<Rightarrow> length kids)"

definition row_items :: "tree_editing option \<Rightarrow> tree_row \<Rightarrow> tree_item list" where
  "row_items editing row =
     (if renames editing (tr_path row) then [Edit_Item edit_key (nm_depth row) (the editing)]
      else Node_Item (tr_path row) row #
        (if tr_dir row \<and> tr_open row then
           (if creating_in editing = Some (tr_path row)
            then [Edit_Item edit_key (nm_depth row + 1) (the editing)]
            else if tn_loaded (nm_data row) \<noteq> Some False \<and> child_count (nm_data row) = 0 \<and> \<not> tr_loading row
            then [Empty_Hint (js ''synthetic:empty:'' @ tr_path row) (nm_depth row + 1) (tr_path row)]
            else [])
         else []))"

definition build_items :: "tree_row list \<Rightarrow> tree_editing option \<Rightarrow> tree_item list" where
  "build_items rows editing =
     (if creating_in editing = Some [] then [Edit_Item edit_key 0 (the editing)] else [])
     @ concat (map (row_items editing) rows)"

section \<open>Open folders\<close>

definition visible_open :: "meta_map \<Rightarrow> jstr list \<Rightarrow> jstr list" where
  "visible_open m open_paths = filter (\<lambda>p. map_has p m) open_paths"

definition open_path :: "jstr \<Rightarrow> jstr list \<Rightarrow> jstr list" where
  "open_path p open_paths = (if p \<in> set open_paths then open_paths else open_paths @ [p])"

definition close_path :: "jstr \<Rightarrow> jstr list \<Rightarrow> jstr list" where
  "close_path p open_paths = filter (\<lambda>q. q \<noteq> p) open_paths"

definition toggle_path :: "jstr \<Rightarrow> jstr list \<Rightarrow> jstr list" where
  "toggle_path p open_paths =
     (if p \<in> set open_paths then close_path p open_paths else open_paths @ [p])"

record tree_model =
  wm_meta :: meta_map
  wm_rows :: "tree_row list"
  wm_items :: "tree_item list"

definition workspace_model ::
    "tree_node list \<Rightarrow> jstr list \<Rightarrow> jstr list \<Rightarrow> jstr list \<Rightarrow> tree_editing option \<Rightarrow> tree_model" where
  "workspace_model root open_paths loading selected editing =
     (let m = build_meta root 0 None [];
          rows = build_rows (visible_open m open_paths) loading selected root 0 None
      in \<lparr>wm_meta = m, wm_rows = rows, wm_items = build_items rows editing\<rparr>)"

section \<open>The visible rows\<close>

text \<open>
  The reference: every node with its depth and parent, in the order of the tree, and whether every
  folder above it is open.
\<close>

fun preorder :: "tree_node list \<Rightarrow> nat \<Rightarrow> jstr option \<Rightarrow> meta_map" where
  "preorder [] depth parent = []"
| "preorder (Tree_Node i nm p k ch l # nodes) depth parent =
     (p, \<lparr>nm_data = Tree_Node i nm p k ch l, nm_depth = depth, nm_parent = parent\<rparr>)
     # (case ch of
          Some kids \<Rightarrow> if k = Tree_Dir then preorder kids (depth + 1) (Some p) else []
        | None \<Rightarrow> [])
     @ preorder nodes depth parent"

fun all_open :: "nat \<Rightarrow> meta_map \<Rightarrow> jstr list \<Rightarrow> jstr option \<Rightarrow> bool" where
  "all_open n m op None = True"
| "all_open 0 m op (Some p) = False"
| "all_open (Suc n) m op (Some p) =
     (p \<in> set op \<and> (case map_of m p of None \<Rightarrow> False | Some meta \<Rightarrow> all_open n m op (nm_parent meta)))"

lemma build_meta_preorder:
  "distinct (map_keys m @ map_keys (preorder ns depth parent)) \<Longrightarrow>
   build_meta ns depth parent m = m @ preorder ns depth parent"
proof (induction ns depth parent m rule: build_meta.induct)
  case (1 depth parent m)
  then show ?case by simp
next
  case (2 i nm p k ch l nodes depth parent m)
  let ?meta = "\<lparr>nm_data = Tree_Node i nm p k ch l, nm_depth = depth, nm_parent = parent\<rparr>"
  let ?kids = "case ch of Some kids \<Rightarrow> if k = Tree_Dir then preorder kids (depth + 1) (Some p) else [] | None \<Rightarrow> []"
  let ?m1 = "m @ [(p, ?meta)]"
  have new: "map_set p ?meta m = ?m1"
    using 2(3) by (intro map_set_new) (auto simp: map_of_eq_None_iff)
  have kids: "(case ch of
        Some kids \<Rightarrow> if k = Tree_Dir \<and> kids \<noteq> [] then build_meta kids (depth + 1) (Some p) ?m1 else ?m1
      | None \<Rightarrow> ?m1) = ?m1 @ ?kids"
  proof (cases ch)
    case (Some kids)
    show ?thesis
    proof (cases "k = Tree_Dir \<and> kids \<noteq> []")
      case True
      have "set (map_keys m) \<inter> set (map_keys (preorder kids (depth + 1) (Some p))) = {}"
        using 2(3) Some True by auto
      then have "distinct (map_keys ?m1 @ map_keys (preorder kids (depth + 1) (Some p)))"
        using 2(3) Some True by auto
      then have "build_meta kids (depth + 1) (Some p) ?m1 = ?m1 @ preorder kids (depth + 1) (Some p)"
        by (rule 2(1) [OF refl Some True, unfolded new])
      then show ?thesis using Some True by simp
    qed (use Some in auto)
  qed simp
  have "build_meta nodes depth parent (?m1 @ ?kids) = (?m1 @ ?kids) @ preorder nodes depth parent"
    using 2(2) [OF refl refl] 2(3) unfolding new kids by simp
  then show ?case unfolding build_meta.simps Let_def new kids by simp
qed

lemma rows_preorder:
  assumes "\<forall>(k, meta) \<in> set (preorder ns depth parent). map_of m k = Some meta"
  shows "filter (\<lambda>(k, meta). all_open (nm_depth meta) m op (nm_parent meta)) (preorder ns depth parent)
    = (if all_open depth m op parent
       then map (\<lambda>r. (tr_path r, node_meta.truncate r)) (build_rows op ld sel ns depth parent) else [])"
  using assms
proof (induction ns depth parent rule: preorder.induct)
  case (1 depth parent)
  then show ?case by simp
next
  case (2 i nm p k ch l nodes depth parent)
  let ?meta = "\<lparr>nm_data = Tree_Node i nm p k ch l, nm_depth = depth, nm_parent = parent\<rparr>"
  have p: "map_of m p = Some ?meta" using 2(3) by simp
  have below: "all_open (depth + 1) m op (Some p) \<longleftrightarrow> p \<in> set op \<and> all_open depth m op parent"
    using p by simp
  let ?show = "\<lambda>(k, meta). all_open (nm_depth meta) m op (nm_parent meta)"
    and ?cells = "map (\<lambda>r. (tr_path r, node_meta.truncate r))"
  let ?kids = "case ch of Some kids \<Rightarrow> if k = Tree_Dir then preorder kids (depth + 1) (Some p) else [] | None \<Rightarrow> []"
    and ?kid_rows = "case ch of
          Some kids \<Rightarrow> if k = Tree_Dir \<and> p \<in> set op \<and> kids \<noteq> [] then build_rows op ld sel kids (depth + 1) (Some p) else []
        | None \<Rightarrow> []"
  have kids: "filter ?show ?kids = (if all_open depth m op parent then ?cells ?kid_rows else [])"
  proof (cases ch)
    case (Some kids)
    show ?thesis
    proof (cases "k = Tree_Dir")
      case True
      have "filter ?show (preorder kids (depth + 1) (Some p)) =
          (if all_open (depth + 1) m op (Some p)
           then ?cells (build_rows op ld sel kids (depth + 1) (Some p)) else [])"
        using 2(1) [OF Some True] 2(3) Some True by simp
      then show ?thesis using Some True unfolding below by auto
    qed (use Some in simp)
  qed simp
  have "filter ?show (preorder nodes depth parent)
      = (if all_open depth m op parent then ?cells (build_rows op ld sel nodes depth parent) else [])"
    using 2(2) 2(3) by simp
  then show ?case
    using kids by (simp add: make_row_def node_meta.truncate_def)
qed

text \<open>The rows of a model are built with the open folders that still exist.\<close>

lemma all_open_visible: "all_open n m (visible_open m op) parent = all_open n m op parent"
  by (induction n m op parent rule: all_open.induct)
    (auto simp: visible_open_def map_has_def split: option.split)

text \<open>
  The rows of the tree are exactly the nodes that can be seen: in the order of the tree, with
  the depth and the parent that the node map has for them, a node is shown if and only if every
  folder on its chain of parents is open.
\<close>

theorem rows_are_open_nodes:
  assumes "distinct (map_keys (preorder root 0 None))"
  shows "let w = workspace_model root op loading selected editing in
      wm_meta w = preorder root 0 None
      \<and> map (\<lambda>r. (tr_path r, node_meta.truncate r)) (wm_rows w)
        = filter (\<lambda>(k, meta). all_open (nm_depth meta) (wm_meta w) op (nm_parent meta)) (wm_meta w)"
proof -
  have m: "build_meta root 0 None [] = preorder root 0 None"
    using build_meta_preorder [of "[]" root 0 None] assms by simp
  have "\<forall>(k, meta) \<in> set (preorder root 0 None). map_of (preorder root 0 None) k = Some meta"
    using assms by auto
  from rows_preorder [OF this, of "visible_open (preorder root 0 None) op" loading selected] show ?thesis
    by (simp add: workspace_model_def Let_def m all_open_visible)
qed

definition sample_tree :: "tree_node list" where
  "sample_tree =
     [Tree_Node (js ''1'') (js ''src'') (js ''src'') Tree_Dir
        (Some [Tree_Node (js ''2'') (js ''a.ts'') (js ''src/a.ts'') Tree_File None None]) None,
      Tree_Node (js ''3'') (js ''docs'') (js ''docs'') Tree_Dir (Some []) None]"

lemma rows_are_open_nodes_witness:
  "map tr_path (wm_rows (workspace_model sample_tree [js ''src''] [] [] None))
     = [js ''src'', js ''src/a.ts'', js ''docs'']
   \<and> map tr_path (wm_rows (workspace_model sample_tree [] [] [] None)) = [js ''src'', js ''docs'']"
proof -
  have d: "distinct (map_keys (preorder sample_tree 0 None))" by (simp add: sample_tree_def)
  have paths: "map fst (map (\<lambda>r. (tr_path r, node_meta.truncate r)) rows) = map tr_path rows" for rows
    by simp
  show ?thesis
    using rows_are_open_nodes [OF d, of "[js ''src'']" "[]" "[]" None]
      rows_are_open_nodes [OF d, of "[]" "[]" "[]" None]
    by (subst (1 2) paths [symmetric]) (simp add: Let_def sample_tree_def)
qed

section \<open>The items of the list\<close>

lemma prefix_js [simp]: "prefix (js s) (js t) \<longleftrightarrow> prefix s t"
proof (induction s arbitrary: t)
  case (Cons c s)
  then show ?case by (cases t) (simp_all add: js_Cons)
qed simp

text \<open>The row that the inline editor stands for or under.\<close>

definition edited_path :: "tree_editing option \<Rightarrow> jstr option" where
  "edited_path editing =
     (case editing of None \<Rightarrow> None | Some (Rename p _ _ _) \<Rightarrow> Some p | Some (Create _ dir _) \<Rightarrow> Some dir)"

definition hint_key :: "jstr \<Rightarrow> jstr" where
  "hint_key p = js ''synthetic:empty:'' @ p"

definition real_path :: "jstr \<Rightarrow> bool" where
  "real_path p \<longleftrightarrow> p \<noteq> [] \<and> \<not> prefix (js ''synthetic:'') p"

lemma synthetic_keys:
  "real_path p \<Longrightarrow> p \<noteq> edit_key \<and> p \<noteq> hint_key q" "edit_key \<noteq> hint_key q"
proof -
  have "prefix (js ''synthetic:'') (hint_key q)" "prefix (js ''synthetic:'') edit_key"
    unfolding hint_key_def edit_key_def prefix_def
    by (intro exI [of _ "js ''empty:'' @ q"] exI [of _ "js ''edit''"], simp add: js_append [symmetric])+
  then show "real_path p \<Longrightarrow> p \<noteq> edit_key \<and> p \<noteq> hint_key q" by (auto simp: real_path_def)
  have "edit_key ! 11 \<noteq> hint_key q ! 11" by (simp add: edit_key_def hint_key_def js_Cons)
  then show "edit_key \<noteq> hint_key q" by metis
qed

lemma row_item_keys:
  "map ti_key (row_items editing r) \<in>
     {[tr_path r], [tr_path r, hint_key (tr_path r)]}
     \<union> (if edited_path editing = Some (tr_path r) then {[edit_key], [tr_path r, edit_key]} else {})"
  by (cases editing rule: option.exhaust, simp_all add: row_items_def renames_def creating_in_def
      edited_path_def hint_key_def)
    (simp add: row_items_def renames_def creating_in_def edited_path_def hint_key_def split: tree_editing.split)

lemma hint_key_inject: "hint_key p = hint_key q \<longleftrightarrow> p = q"
  by (simp add: hint_key_def)

lemma row_item_keys_set:
  "set (map ti_key (row_items editing r)) \<subseteq> {tr_path r, hint_key (tr_path r)}
     \<union> (if edited_path editing = Some (tr_path r) then {edit_key} else {})"
  using row_item_keys [of editing r] by (auto split: if_splits)

lemma row_item_keys_distinct: "real_path (tr_path r) \<Longrightarrow> distinct (map ti_key (row_items editing r))"
  using row_item_keys [of editing r] synthetic_keys by (auto split: if_splits)

lemma items_keys_set:
  "set (map ti_key (concat (map (row_items editing) rows)))
   \<subseteq> tr_path ` set rows \<union> hint_key ` tr_path ` set rows
     \<union> (if edited_path editing \<in> Some ` tr_path ` set rows then {edit_key} else {})"
proof (induction rows)
  case (Cons r rows)
  let ?keys = "\<lambda>rs. set (map ti_key (concat (map (row_items editing) rs)))"
  have "?keys (r # rows) = set (map ti_key (row_items editing r)) \<union> ?keys rows"
    by (simp add: image_Un)
  also have "\<dots> \<subseteq> ({tr_path r, hint_key (tr_path r)}
        \<union> (if edited_path editing = Some (tr_path r) then {edit_key} else {}))
      \<union> (tr_path ` set rows \<union> hint_key ` tr_path ` set rows
        \<union> (if edited_path editing \<in> Some ` tr_path ` set rows then {edit_key} else {}))"
    by (rule Un_mono [OF row_item_keys_set Cons])
  finally show ?case by (rule order_trans) auto
qed simp

lemma items_keys_distinct:
  "distinct (map tr_path rows) \<Longrightarrow> \<forall>r \<in> set rows. real_path (tr_path r) \<Longrightarrow>
   distinct (map ti_key (concat (map (row_items editing) rows)))"
proof (induction rows)
  case (Cons r rows)
  have "set (map ti_key (row_items editing r)) \<inter> set (map ti_key (concat (map (row_items editing) rows))) = {}"
  proof (rule equals0I)
    fix key
    assume "key \<in> set (map ti_key (row_items editing r)) \<inter> set (map ti_key (concat (map (row_items editing) rows)))"
    then have here: "key \<in> {tr_path r, hint_key (tr_path r)}
        \<union> (if edited_path editing = Some (tr_path r) then {edit_key} else {})"
      and there: "key \<in> tr_path ` set rows \<union> hint_key ` tr_path ` set rows
        \<union> (if edited_path editing \<in> Some ` tr_path ` set rows then {edit_key} else {})"
      using row_item_keys_set items_keys_set by blast+
    have r: "tr_path r \<notin> tr_path ` set rows" using Cons.prems(1) by simp
    consider "key = tr_path r" | "key = hint_key (tr_path r)"
      | "key = edit_key" "edited_path editing = Some (tr_path r)"
      using here by (auto split: if_splits)
    then show False
      using there r Cons.prems(2) synthetic_keys hint_key_inject
      by cases (auto split: if_splits, metis+)
  qed
  then show ?case using Cons row_item_keys_distinct [of r] by simp
qed simp

text \<open>
  Every item of the rendered list has a key of its own, so no row is ever rendered for another:
  the keys of nodes, of the inline editor and of the empty-folder hints never collide, the editor
  appears at most once, and the items other than hints and editor are exactly the visible rows that
  are not being renamed.
\<close>

theorem item_keys_unique:
  assumes "distinct (map tr_path rows)" and "list_all (\<lambda>r. real_path (tr_path r)) rows"
  shows "distinct (map ti_key (build_items rows editing))
    \<and> concat (map (\<lambda>i. case i of Node_Item _ r \<Rightarrow> [r] | _ \<Rightarrow> []) (build_items rows editing))
      = filter (\<lambda>r. \<not> renames editing (tr_path r)) rows"
proof -
  have real: "\<forall>r \<in> set rows. real_path (tr_path r)" using assms(2) by (simp add: list_all_iff)
  have "edit_key \<notin> set (map ti_key (concat (map (row_items editing) rows)))" if "creating_in editing = Some []"
  proof -
    have "edited_path editing = Some []"
      using that by (auto simp: creating_in_def edited_path_def split: option.splits tree_editing.splits)
    then have "edited_path editing \<notin> Some ` tr_path ` set rows" using real by (auto simp: real_path_def)
    then have "set (map ti_key (concat (map (row_items editing) rows)))
        \<subseteq> tr_path ` set rows \<union> hint_key ` tr_path ` set rows"
      using items_keys_set [of editing rows] by (simp only: if_False Un_empty_right)
    moreover have "edit_key \<notin> tr_path ` set rows" using real synthetic_keys(1) by fastforce
    moreover have "edit_key \<notin> hint_key ` tr_path ` set rows" using synthetic_keys(2) by blast
    ultimately show ?thesis by blast
  qed
  then have "distinct (map ti_key (build_items rows editing))"
    using items_keys_distinct [OF assms(1) real, of editing] by (auto simp: build_items_def)
  moreover have "concat (map (\<lambda>i. case i of Node_Item _ r \<Rightarrow> [r] | _ \<Rightarrow> []) (concat (map (row_items editing) rs)))
      = filter (\<lambda>r. \<not> renames editing (tr_path r)) rs" for rs
    by (induction rs) (auto simp: row_items_def)
  ultimately show ?thesis by (simp add: build_items_def)
qed

lemma item_keys_unique_witness:
  "distinct (map ti_key (build_items
     (build_rows [js ''src'', js ''docs''] [] [] sample_tree 0 None) (Some (Create Create_File (js ''src'') []))))"
proof -
  let ?rows = "build_rows [js ''src'', js ''docs''] [] [] sample_tree 0 None"
  have paths: "map tr_path ?rows = [js ''src'', js ''src/a.ts'', js ''docs'']"
    by (simp add: sample_tree_def make_row_def)
  then have "distinct (map tr_path ?rows)" by simp
  moreover have "list_all real_path (map tr_path ?rows)"
    unfolding paths by (simp add: real_path_def)
  ultimately show ?thesis using item_keys_unique [of ?rows] by (simp add: list_all_iff)
qed

section \<open>The breadcrumb\<close>

lemma walk_ancestors_length: "length (walk_ancestors n m parent acc) \<le> n + length acc"
  by (induction n m parent acc rule: walk_ancestors.induct) (auto split: option.split)

lemma sticky_ancestors_bound: "length (sticky_ancestors items m first_row scroll max_depth) \<le> max_depth"
  using walk_ancestors_length [of max_depth m _ "[]"] by (auto simp: sticky_ancestors_def)

text \<open>The breadcrumb is never deeper than its cap, and it is empty or the answer for some row.\<close>

lemma resolve_loop_answer:
  "ancestors = [] \<or> (\<exists>i. ancestors = at i) \<Longrightarrow>
   resolve_loop n at units k ancestors = [] \<or> (\<exists>i. resolve_loop n at units k ancestors = at i)"
  by (induction n at units k ancestors rule: resolve_loop.induct) (auto simp: Let_def)

lemma resolve_sticky_bound:
  "length (resolve_sticky scroll height d (\<lambda>i. sticky_ancestors items m i scroll max_sticky_depth)) \<le> max_sticky_depth"
proof -
  let ?at = "\<lambda>i. sticky_ancestors items m i scroll max_sticky_depth"
  have "resolve_sticky scroll height d ?at = [] \<or> (\<exists>i. resolve_sticky scroll height d ?at = ?at i)"
    using resolve_loop_answer [of "[]" ?at "d + 1" "scroll div height" 0] by (simp add: resolve_sticky_def del: resolve_loop.simps)
  then show ?thesis using sticky_ancestors_bound by (metis list.size(3) zero_le)
qed

end
