(* ===== verification/TreeMerge.thy ===== *)
theory TreeMerge
  imports WorkspaceTree
begin

text \<open>
  Refreshing the workspace tree: workspace-tree/treeMerge.ts. Trees are values here: where the source
  returns the same object to tell React that nothing changed, the value is the same, and the object
  identity is left out. What the file service, the user's own expansion and the cancellation of a
  refresh answer is given as functions of the round.
\<close>

record expand_result =
  er_children :: "tree_node list"
  er_loaded :: bool

type_synonym tree_updates = "(jstr \<times> expand_result) list"

section \<open>Merging\<close>

definition with_children :: "tree_node list \<Rightarrow> bool option \<Rightarrow> tree_node \<Rightarrow> tree_node" where
  "with_children kids loaded n =
     Tree_Node (tn_id n) (tn_name n) (tn_path n) (tn_kind n) (Some kids) loaded"

definition by_path :: "tree_node list \<Rightarrow> (jstr \<times> tree_node) list" where
  "by_path nodes = fold (\<lambda>c m. map_set (tn_path c) c m) nodes []"

fun merge_lazy :: "tree_node \<Rightarrow> tree_node option \<Rightarrow> tree_node" where
  "merge_lazy (Tree_Node i nm p k ch l) earlier =
     (case earlier of
        None \<Rightarrow> Tree_Node i nm p k ch l
      | Some old \<Rightarrow>
          if k \<noteq> Tree_Dir \<or> tn_kind old \<noteq> Tree_Dir then Tree_Node i nm p k ch l
          else if l = Some False \<and> tn_loaded old \<noteq> Some False \<and> tn_children old \<noteq> None
          then Tree_Node i nm p k (tn_children old) (Some True)
          else (case (ch, tn_children old) of
                  (Some kids, Some olds) \<Rightarrow>
                    Tree_Node i nm p k (Some (map (\<lambda>c. merge_lazy c (map_of (by_path olds) (tn_path c))) kids)) l
                | _ \<Rightarrow> Tree_Node i nm p k ch l))"

fun tree_equal :: "tree_node \<Rightarrow> tree_node \<Rightarrow> bool" where
  "tree_equal (Tree_Node i nm p k ch l) (Tree_Node i' nm' p' k' ch' l') \<longleftrightarrow>
     p = p' \<and> k = k' \<and> nm = nm' \<and> i = i' \<and> (l \<noteq> Some False) = (l' \<noteq> Some False)
     \<and> (case (ch, ch') of
          (None, None) \<Rightarrow> True
        | (Some kids, Some kids') \<Rightarrow> list_all2 tree_equal kids kids'
        | _ \<Rightarrow> False)"

section \<open>The frontier\<close>

fun boundaries :: "jstr list \<Rightarrow> tree_node \<Rightarrow> jstr list" where
  "boundaries open_paths (Tree_Node i nm p k ch l) =
     (if k = Tree_Dir \<and> l = Some False \<and> p \<in> set open_paths then [p]
      else (case ch of None \<Rightarrow> [] | Some kids \<Rightarrow> concat (map (boundaries open_paths) kids)))"

text \<open>
  The updates are looked up again in the children that an update brings in, so the recursion is not
  on the tree: the first argument bounds its depth.
\<close>

fun sequence_options :: "'a option list \<Rightarrow> 'a list option" where
  "sequence_options [] = Some []"
| "sequence_options (x # xs) =
     (case x of None \<Rightarrow> None | Some y \<Rightarrow> map_option ((#) y) (sequence_options xs))"

definition updated_base :: "tree_updates \<Rightarrow> tree_node \<Rightarrow> tree_node" where
  "updated_base updates root =
     (case map_of updates (tn_path root) of
        Some u \<Rightarrow> with_children (er_children u) (Some (er_loaded u)) root
      | None \<Rightarrow> root)"

fun apply_children :: "nat \<Rightarrow> tree_updates \<Rightarrow> tree_node \<Rightarrow> tree_node option" where
  "apply_children 0 updates root = None"
| "apply_children (Suc fuel) updates root =
     (if updates = [] then Some root
      else (let base = updated_base updates root in
            case tn_children base of
              None \<Rightarrow> Some base
            | Some kids \<Rightarrow>
                if kids = [] then Some base
                else map_option (\<lambda>ks. with_children ks (tn_loaded base) base)
                       (sequence_options (map (apply_children fuel updates) kids))))"

section \<open>The worker pool\<close>

text \<open>
  \<open>runWithConcurrencyLimit\<close>: workers take the next index and store their result at it. A state is
  the next index, the indices being worked on, and the results so far.
\<close>

record 'r pool =
  pw_next :: nat
  pw_running :: "nat list"
  pw_results :: "'r option list"

definition new_pool :: "'a list \<Rightarrow> 'r pool" where
  "new_pool items = \<lparr>pw_next = 0, pw_running = [], pw_results = replicate (length items) None\<rparr>"

definition worker_count :: "nat \<Rightarrow> 'a list \<Rightarrow> nat" where
  "worker_count limit items = max 1 (min limit (length items))"

inductive pool_step :: "nat \<Rightarrow> ('a \<Rightarrow> 'r) \<Rightarrow> 'a list \<Rightarrow> 'r pool \<Rightarrow> 'r pool \<Rightarrow> bool" for limit f items where
  take_index: "pw_next p < length items \<Longrightarrow> length (pw_running p) < worker_count limit items \<Longrightarrow>
    pool_step limit f items p (p\<lparr>pw_next := Suc (pw_next p), pw_running := pw_running p @ [pw_next p]\<rparr>)"
| store_result: "i \<in> set (pw_running p) \<Longrightarrow>
    pool_step limit f items p
      (p\<lparr>pw_running := remove1 i (pw_running p), pw_results := (pw_results p)[i := Some (f (items ! i))]\<rparr>)"

inductive_cases pool_stepE: "pool_step limit f items p q"

inductive pool_run :: "nat \<Rightarrow> ('a \<Rightarrow> 'r) \<Rightarrow> 'a list \<Rightarrow> 'r pool \<Rightarrow> bool" for limit f items where
  pool_start: "pool_run limit f items (new_pool items)"
| pool_next: "pool_run limit f items p \<Longrightarrow> pool_step limit f items p q \<Longrightarrow> pool_run limit f items q"

definition pool_done :: "'a list \<Rightarrow> 'r pool \<Rightarrow> bool" where
  "pool_done items p \<longleftrightarrow> pw_next p = length items \<and> pw_running p = []"

section \<open>Collecting fresh children\<close>

record refresh_world =
  rw_fetch :: "nat \<Rightarrow> jstr \<Rightarrow> expand_result option"
  rw_loading :: "nat \<Rightarrow> jstr \<Rightarrow> bool"
  rw_before :: "nat \<Rightarrow> bool"
  rw_after :: "nat \<Rightarrow> bool"

record refresh_result =
  rr_updates :: tree_updates
  rr_rounds :: "jstr list list"

definition fetched :: "refresh_world \<Rightarrow> nat \<Rightarrow> jstr list \<Rightarrow> tree_updates" where
  "fetched w r paths =
     concat (map (\<lambda>p. case rw_fetch w r p of None \<Rightarrow> [] | Some x \<Rightarrow> [(p, x)]) paths)"

fun fresh_loop ::
    "nat \<Rightarrow> refresh_world \<Rightarrow> jstr list \<Rightarrow> nat \<Rightarrow> nat \<Rightarrow> tree_node \<Rightarrow> refresh_result \<Rightarrow> refresh_result option" where
  "fresh_loop fuel w op 0 r current acc = Some acc"
| "fresh_loop fuel w op (Suc left) r current acc =
     (if \<not> rw_before w r then Some acc
      else (let paths = filter (\<lambda>p. \<not> rw_loading w r p \<and> p \<notin> set (concat (rr_rounds acc)))
                          (boundaries op current) in
            if paths = [] then Some acc
            else (let asked = acc\<lparr>rr_rounds := rr_rounds acc @ [paths]\<rparr> in
                  if \<not> rw_after w r then Some asked
                  else (let got = fetched w r paths;
                            updates = fold (\<lambda>(p, x) m. map_set p x m) got (rr_updates acc);
                            next_acc = asked\<lparr>rr_updates := updates\<rparr> in
                        if got = [] then Some asked
                        else Option.bind (apply_children fuel updates current)
                               (\<lambda>tree. fresh_loop fuel w op left (Suc r) tree next_acc)))))"

definition collect_fresh ::
    "nat \<Rightarrow> refresh_world \<Rightarrow> nat \<Rightarrow> jstr list \<Rightarrow> tree_node \<Rightarrow> refresh_result option" where
  "collect_fresh fuel w max_iterations op tree =
     fresh_loop fuel w op max_iterations 0 tree \<lparr>rr_updates = [], rr_rounds = []\<rparr>"

section \<open>Equality of displayed trees\<close>

text \<open>The reference: \<open>true\<close> and \<open>undefined\<close> both mean loaded.\<close>

fun normal_tree :: "tree_node \<Rightarrow> tree_node" where
  "normal_tree (Tree_Node i nm p k ch l) =
     Tree_Node i nm p k (case ch of None \<Rightarrow> None | Some kids \<Rightarrow> Some (map normal_tree kids))
       (if l = Some False then Some False else None)"

lemma list_all2_map_eq:
  "(\<And>x y. x \<in> set xs \<Longrightarrow> y \<in> set ys \<Longrightarrow> R x y \<longleftrightarrow> f x = f y) \<Longrightarrow>
   list_all2 R xs ys \<longleftrightarrow> map f xs = map f ys"
proof (induction xs arbitrary: ys)
  case (Cons x xs)
  then show ?case by (cases ys) auto
qed auto

lemma tree_equal_normal: "tree_equal a b \<longleftrightarrow> normal_tree a = normal_tree b"
proof (induction a b rule: tree_equal.induct)
  case (1 i nm p k ch l i' nm' p' k' ch' l')
  have kids: "list_all2 tree_equal kids kids' \<longleftrightarrow> map normal_tree kids = map normal_tree kids'"
    if "ch = Some kids" "ch' = Some kids'" for kids kids'
    using 1 that by (intro list_all2_map_eq) blast
  show ?case using kids by (auto split: option.split)
qed

section \<open>Merging a tree with itself\<close>

text \<open>Siblings have different paths, at every depth.\<close>

fun siblings_distinct :: "tree_node \<Rightarrow> bool" where
  "siblings_distinct (Tree_Node i nm p k ch l) =
     (case ch of None \<Rightarrow> True
      | Some kids \<Rightarrow> distinct (map tn_path kids) \<and> (\<forall>c \<in> set kids. siblings_distinct c))"

lemma by_path_fold:
  "distinct (map_keys m @ map tn_path nodes) \<Longrightarrow>
   fold (\<lambda>c m. map_set (tn_path c) c m) nodes m = m @ map (\<lambda>c. (tn_path c, c)) nodes"
proof (induction nodes arbitrary: m)
  case (Cons c nodes)
  have "map_set (tn_path c) c m = m @ [(tn_path c, c)]"
    using Cons.prems by (intro map_set_new) (auto simp: map_of_eq_None_iff)
  then show ?case using Cons by simp
qed simp

lemma by_path_lookup:
  assumes "distinct (map tn_path nodes)" and "c \<in> set nodes"
  shows "map_of (by_path nodes) (tn_path c) = Some c"
proof -
  have "by_path nodes = map (\<lambda>c. (tn_path c, c)) nodes"
    using by_path_fold [of "[]" nodes] assms(1) by (simp add: by_path_def)
  then show ?thesis using assms by (auto intro!: map_of_is_SomeI simp: o_def)
qed

lemma merge_self: "siblings_distinct t \<Longrightarrow> merge_lazy t (Some t) = t"
proof (induction t)
  case (Tree_Node i nm p k ch l)
  show ?case
  proof (cases ch)
    case (Some kids)
    have "map (\<lambda>c. merge_lazy c (map_of (by_path kids) (tn_path c))) kids = map (\<lambda>c. c) kids"
      using Tree_Node Some by (intro map_cong refl) (simp add: by_path_lookup)
    then show ?thesis using Some by simp
  qed simp
qed

lemma merge_fields:
  "tn_id (merge_lazy n old) = tn_id n" "tn_name (merge_lazy n old) = tn_name n"
  "tn_path (merge_lazy n old) = tn_path n" "tn_kind (merge_lazy n old) = tn_kind n"
  by (cases n; simp split: option.split)+

lemma by_path_member:
  assumes "distinct (map tn_path nodes)" and "map_of (by_path nodes) q = Some c"
  shows "c \<in> set nodes"
proof -
  have "by_path nodes = map (\<lambda>c. (tn_path c, c)) nodes"
    using by_path_fold [of "[]" nodes] assms(1) by (simp add: by_path_def)
  then show ?thesis using map_of_SomeD [OF assms(2)] by auto
qed

definition old_distinct :: "tree_node option \<Rightarrow> bool" where
  "old_distinct old = (case old of None \<Rightarrow> True | Some x \<Rightarrow> siblings_distinct x)"

lemma old_distinct_simps [simp]: "old_distinct None" "old_distinct (Some x) = siblings_distinct x"
  by (simp_all add: old_distinct_def)

lemma siblings_distinct_kids:
  "siblings_distinct n \<Longrightarrow> tn_children n = Some kids \<Longrightarrow>
   distinct (map tn_path kids) \<and> (\<forall>c \<in> set kids. siblings_distinct c)"
  by (cases n) simp

lemma merge_children:
  "tn_kind n = Tree_Dir \<Longrightarrow> tn_kind x = Tree_Dir \<Longrightarrow> tn_children n = Some kids \<Longrightarrow> tn_children x = Some olds \<Longrightarrow>
   tn_loaded n \<noteq> Some False \<or> tn_loaded x = Some False \<Longrightarrow>
   merge_lazy n (Some x) = with_children
     (map (\<lambda>c. merge_lazy c (map_of (by_path olds) (tn_path c))) kids) (tn_loaded n) n"
  by (cases n) (auto simp: with_children_def)

lemma merge_twice:
  "siblings_distinct n \<Longrightarrow> old_distinct old \<Longrightarrow> merge_lazy (merge_lazy n old) old = merge_lazy n old"
proof (induction n arbitrary: old)
  case (Tree_Node i nm p k ch l)
  let ?n = "Tree_Node i nm p k ch l"
  show ?case
  proof (cases old)
    case (Some x)
    consider (plain) "merge_lazy ?n (Some x) = ?n"
      | (carried) olds where "tn_children x = Some olds" "tn_kind x = Tree_Dir" "k = Tree_Dir"
          "merge_lazy ?n (Some x) = Tree_Node i nm p k (Some olds) (Some True)"
      | (both) kids olds where "ch = Some kids" "tn_children x = Some olds" "k = Tree_Dir" "tn_kind x = Tree_Dir"
          "l \<noteq> Some False \<or> tn_loaded x = Some False"
      by (cases ch; cases "tn_children x"; cases k; cases "tn_kind x";
          cases "l = Some False \<and> tn_loaded x \<noteq> Some False") auto
    then show ?thesis
    proof cases
      case plain
      then show ?thesis using Some by simp
    next
      case (carried olds)
      have olds: "distinct (map tn_path olds)" "\<And>c. c \<in> set olds \<Longrightarrow> siblings_distinct c"
        using siblings_distinct_kids [OF _ carried(1)] Tree_Node.prems(2) Some by auto
      have "map (\<lambda>c. merge_lazy c (map_of (by_path olds) (tn_path c))) olds = map (\<lambda>c. c) olds"
        using olds by (intro map_cong refl) (simp add: by_path_lookup merge_self)
      then show ?thesis using Some carried merge_children [of "Tree_Node i nm p k (Some olds) (Some True)" x olds olds]
        by (simp add: with_children_def)
    next
      case (both kids olds)
      let ?old = "\<lambda>c. map_of (by_path olds) (tn_path c)"
      have olds: "distinct (map tn_path olds)" "\<And>c. c \<in> set olds \<Longrightarrow> siblings_distinct c"
        using siblings_distinct_kids [OF _ both(2)] Tree_Node.prems(2) Some by auto
      have IH: "merge_lazy (merge_lazy c y) y = merge_lazy c y"
        if "c \<in> set kids" "old_distinct y" for c y
        using Tree_Node.IH [OF _ that(1), of y] Tree_Node.prems(1) both(1) that by simp
      have "old_distinct (?old c)" for c
        using olds by_path_member [OF olds(1)] by (cases "?old c") auto
      then have "merge_lazy (merge_lazy c (?old c)) (?old c) = merge_lazy c (?old c)" if "c \<in> set kids" for c
        using IH that by blast
      then have "map (\<lambda>c. merge_lazy c (?old c)) (map (\<lambda>c. merge_lazy c (?old c)) kids)
          = map (\<lambda>c. merge_lazy c (?old c)) kids"
        by (simp add: merge_fields)
      then show ?thesis
        using Some both merge_children [of ?n x kids olds]
          merge_children [of "with_children (map (\<lambda>c. merge_lazy c (?old c)) kids) l ?n" x _ olds]
        by (simp add: with_children_def)
    qed
  qed simp
qed

lemma merge_fresh_paths:
  "tn_loaded n \<noteq> Some False \<Longrightarrow>
   map_option (map tn_path) (tn_children (merge_lazy n old)) = map_option (map tn_path) (tn_children n)"
  by (cases n; cases old) (simp_all add: merge_fields o_def split: option.split)

lemma merge_boundary:
  "tn_loaded n = Some False \<Longrightarrow>
   (case old of
      None \<Rightarrow> merge_lazy n old = n
    | Some x \<Rightarrow> if tn_kind n = Tree_Dir \<and> tn_kind x = Tree_Dir \<and> tn_loaded x \<noteq> Some False
        then case tn_children x of
            None \<Rightarrow> merge_lazy n old = n
          | Some olds \<Rightarrow> merge_lazy n old = with_children olds (Some True) n
        else True)"
  by (cases n; cases "tn_children n") (auto simp: with_children_def split: option.split)



section \<open>The worker pool finishes\<close>

definition pool_ok :: "nat \<Rightarrow> ('a \<Rightarrow> 'r) \<Rightarrow> 'a list \<Rightarrow> 'r pool \<Rightarrow> bool" where
  "pool_ok limit f items p \<longleftrightarrow>
     pw_next p \<le> length items \<and> length (pw_results p) = length items
     \<and> distinct (pw_running p) \<and> length (pw_running p) \<le> worker_count limit items
     \<and> (\<forall>i \<in> set (pw_running p). i < pw_next p)
     \<and> (\<forall>i < pw_next p. i \<in> set (pw_running p) \<or> pw_results p ! i = Some (f (items ! i)))"

lemma pool_step_ok: "pool_step limit f items p q \<Longrightarrow> pool_ok limit f items p \<Longrightarrow> pool_ok limit f items q"
proof (induction rule: pool_step.induct)
  case (take_index p)
  then show ?case by (auto simp: pool_ok_def less_Suc_eq)
next
  case (store_result i p)
  then have "i < length (pw_results p)" by (fastforce simp: pool_ok_def)
  then show ?case
    using store_result by (auto simp: pool_ok_def nth_list_update set_remove1_eq length_remove1)
qed

lemma pool_run_ok: "pool_run limit f items p \<Longrightarrow> pool_ok limit f items p"
proof (induction rule: pool_run.induct)
  case pool_start
  show ?case by (simp add: pool_ok_def new_pool_def)
qed (rule pool_step_ok)

definition pool_work :: "'a list \<Rightarrow> 'r pool \<Rightarrow> nat" where
  "pool_work items p = 2 * (length items - pw_next p) + length (pw_running p)"

lemma pool_step_work: "pool_step limit f items p q \<Longrightarrow> pool_work items q < pool_work items p"
  by (induction rule: pool_step.induct)
    (auto simp: pool_work_def length_remove1 dest: length_pos_if_in_set)

lemma pool_progress:
  assumes "pool_run limit f items p" and "\<not> pool_done items p"
  shows "\<exists>q. pool_step limit f items p q"
proof (cases "pw_running p")
  case Nil
  then have "pw_next p < length items"
    using pool_run_ok [OF assms(1)] assms(2) by (auto simp: pool_ok_def pool_done_def)
  moreover have "0 < worker_count limit items" by (auto simp: worker_count_def less_max_iff_disj)
  ultimately show ?thesis using Nil take_index [of p items limit f] by auto
next
  case (Cons i rest)
  then show ?thesis using store_result [of i p limit f items] by auto
qed

text \<open>
  The bounded worker pool is the sequential map: whatever the order in which workers take
  indices and finish, never more than the limit run at once, some step is possible until all is
  done, every step decreases the remaining work, and at the end the results are those of the
  items in their order.
\<close>

theorem pool_is_map:
  assumes "pool_run limit f items p"
  shows "length (pw_running p) \<le> max 1 limit
    \<and> (if pool_done items p then pw_results p = map (\<lambda>x. Some (f x)) items
       else (\<exists>q. pool_step limit f items p q)
         \<and> (\<forall>q. pool_step limit f items p q \<longrightarrow> pool_work items q < pool_work items p))"
proof -
  have ok: "pool_ok limit f items p" by (rule pool_run_ok [OF assms])
  have "pw_results p = map (\<lambda>x. Some (f x)) items" if "pool_done items p"
    using ok that by (intro nth_equalityI) (auto simp: pool_ok_def pool_done_def)
  moreover have "length (pw_running p) \<le> max 1 limit"
    using ok by (auto simp: pool_ok_def worker_count_def)
  ultimately show ?thesis using pool_progress [OF assms] pool_step_work by auto
qed

text \<open>Two items on one worker, the first of them taken.\<close>

lemma pool_is_map_witness:
  "let p = \<lparr>pw_next = 1, pw_running = [0], pw_results = [None, None]\<rparr> in
   length (pw_running p) \<le> 1 \<and> (\<exists>q. pool_step 1 Suc [5, 6] p q)"
proof -
  let ?p = "new_pool [5, 6 :: nat] :: nat pool"
  have "pool_step 1 Suc [5, 6] ?p (?p\<lparr>pw_next := Suc (pw_next ?p), pw_running := pw_running ?p @ [pw_next ?p]\<rparr>)"
    by (rule take_index) (simp_all add: new_pool_def worker_count_def)
  from pool_next [OF pool_start this]
  have "pool_run 1 Suc [5, 6] \<lparr>pw_next = 1, pw_running = [0], pw_results = [None, None]\<rparr>"
    by (simp add: new_pool_def)
  from pool_is_map [OF this] show ?thesis by (simp add: pool_done_def Let_def)
qed

section \<open>Applying updates ends\<close>

text \<open>
  In a directory tree the path of a child extends the path of its parent, in the tree and in the
  children that an update brings in; \<open>M\<close> bounds the length of all paths.
\<close>

fun tree_ok :: "nat \<Rightarrow> tree_node \<Rightarrow> bool" where
  "tree_ok M (Tree_Node i nm p k ch l) \<longleftrightarrow>
     length p \<le> M
     \<and> (case ch of None \<Rightarrow> True
        | Some kids \<Rightarrow> \<forall>c \<in> set kids. length p < length (tn_path c) \<and> tree_ok M c)"

definition update_ok :: "nat \<Rightarrow> jstr \<Rightarrow> expand_result \<Rightarrow> bool" where
  "update_ok M p u \<longleftrightarrow> list_all (\<lambda>c. length p < length (tn_path c) \<and> tree_ok M c) (er_children u)"

lemma tree_ok_node:
  "tree_ok M n \<longleftrightarrow> length (tn_path n) \<le> M
     \<and> (case tn_children n of None \<Rightarrow> True
        | Some kids \<Rightarrow> \<forall>c \<in> set kids. length (tn_path n) < length (tn_path c) \<and> tree_ok M c)"
  by (cases n) (simp split: option.split)

lemma updated_base_ok:
  assumes "tree_ok M t" and "list_all (\<lambda>(p, u). update_ok M p u) updates"
  shows "tree_ok M (updated_base updates t)" and "tn_path (updated_base updates t) = tn_path t"
proof -
  show "tn_path (updated_base updates t) = tn_path t"
    by (simp add: updated_base_def with_children_def split: option.split)
  show "tree_ok M (updated_base updates t)"
  proof (cases "map_of updates (tn_path t)")
    case (Some u)
    then have "update_ok M (tn_path t) u" using assms(2) by (auto simp: list_all_iff dest!: map_of_SomeD)
    then show ?thesis
      using Some assms(1) by (cases t) (simp add: updated_base_def with_children_def update_ok_def list_all_iff)
  qed (use assms(1) in \<open>simp add: updated_base_def\<close>)
qed

lemma sequence_all:
  "(\<And>x. x \<in> set xs \<Longrightarrow> \<exists>y. f x = Some y \<and> P x y) \<Longrightarrow>
   \<exists>ys. sequence_options (map f xs) = Some ys \<and> list_all2 P xs ys"
  by (induction xs) fastforce+

text \<open>The depth is bounded by the length that paths can still grow.\<close>

lemma apply_children_ok:
  assumes "list_all (\<lambda>(p, u). update_ok M p u) updates" and "tree_ok M t"
    and "M - length (tn_path t) < fuel"
  shows "\<exists>t'. apply_children fuel updates t = Some t' \<and> tn_path t' = tn_path t \<and> tree_ok M t'"
  using assms(2,3)
proof (induction fuel arbitrary: t)
  case (Suc fuel)
  let ?base = "updated_base updates t"
  note base = updated_base_ok [OF Suc.prems(1) assms(1)]
  show ?case
  proof (cases "updates = []")
    case False
    show ?thesis
    proof (cases "tn_children ?base")
      case None
      then show ?thesis using base False by simp
    next
      case (Some kids)
      have kids: "length (tn_path t) < length (tn_path c)" "tree_ok M c" if "c \<in> set kids" for c
        using base that Some tree_ok_node [of M ?base] by auto
      have "\<exists>c'. apply_children fuel updates c = Some c' \<and> (tn_path c' = tn_path c \<and> tree_ok M c')"
        if "c \<in> set kids" for c
        using Suc.IH [of c] kids [OF that] Suc.prems(2) tree_ok_node [of M c] by auto
      then obtain ks where ks: "sequence_options (map (apply_children fuel updates) kids) = Some ks"
          "list_all2 (\<lambda>c c'. tn_path c' = tn_path c \<and> tree_ok M c') kids ks"
        using sequence_all [of kids "apply_children fuel updates"
            "\<lambda>c c'. tn_path c' = tn_path c \<and> tree_ok M c'"] by blast
      have "length (tn_path t) < length (tn_path c') \<and> tree_ok M c'" if "c' \<in> set ks" for c'
      proof -
        obtain i where i: "i < length ks" "c' = ks ! i" using \<open>c' \<in> set ks\<close> by (auto simp: in_set_conv_nth)
        then have "kids ! i \<in> set kids" "tn_path c' = tn_path (kids ! i)" "tree_ok M c'"
          using ks(2) by (simp_all add: list_all2_conv_all_nth)
        then show ?thesis using kids by metis
      qed
      then have "tree_ok M (with_children ks (tn_loaded ?base) ?base)"
        using base tree_ok_node [of M ?base] by (simp add: with_children_def)
      then show ?thesis
        using base False Some ks(1) by (auto simp: Let_def with_children_def)
    qed
  qed (use Suc.prems in simp)
qed simp

section \<open>Refreshing ends and asks once\<close>

lemma boundaries_open: "set (boundaries op t) \<subseteq> set op"
  by (induction op t rule: boundaries.induct) (auto split: option.splits)

lemma fetched_ok:
  "(\<And>p x. p \<in> set paths \<Longrightarrow> rw_fetch w r p = Some x \<Longrightarrow> update_ok M p x) \<Longrightarrow>
   list_all (\<lambda>(p, u). update_ok M p u) (fetched w r paths)"
  by (auto simp: fetched_def list_all_iff split: option.splits)

lemma fold_updates_ok:
  "list_all (\<lambda>(p, u). update_ok M p u) got \<Longrightarrow> list_all (\<lambda>(p, u). update_ok M p u) updates \<Longrightarrow>
   list_all (\<lambda>(p, u). update_ok M p u) (fold (\<lambda>(p, x) m. map_set p x m) got updates)"
proof (induction got arbitrary: updates)
  case (Cons g got)
  obtain p x where g: "g = (p, x)" by (cases g)
  have "set (map_set p x updates) \<subseteq> insert (p, x) (set updates)"
    by (induction updates) auto
  then have "list_all (\<lambda>(p, u). update_ok M p u) (map_set p x updates)"
    using Cons.prems g by (auto simp: list_all_iff)
  then show ?case using Cons g by simp
qed simp

definition rounds_ok :: "jstr list \<Rightarrow> jstr list list \<Rightarrow> bool" where
  "rounds_ok op rounds \<longleftrightarrow>
     distinct (concat (map remdups rounds)) \<and> list_all (\<lambda>ps. ps \<noteq> [] \<and> set ps \<subseteq> set op) rounds"

lemma rounds_ok_snoc:
  "rounds_ok op rounds \<Longrightarrow> ps \<noteq> [] \<Longrightarrow> set ps \<subseteq> set op \<Longrightarrow> set ps \<inter> set (concat rounds) = {} \<Longrightarrow>
   rounds_ok op (rounds @ [ps])"
  by (auto simp: rounds_ok_def)

lemma fresh_loop_ok:
  assumes "\<And>r p x. rw_fetch w r p = Some x \<Longrightarrow> update_ok M p x" and "M < fuel"
    and "tree_ok M tree" and "rounds_ok op (rr_rounds acc)"
    and "list_all (\<lambda>(p, u). update_ok M p u) (rr_updates acc)"
  shows "\<exists>res. fresh_loop fuel w op left r tree acc = Some res \<and> rounds_ok op (rr_rounds res)
    \<and> length (rr_rounds res) \<le> length (rr_rounds acc) + left"
  using assms(3-5)
proof (induction left arbitrary: r tree acc)
  case (Suc left)
  let ?paths = "filter (\<lambda>p. \<not> rw_loading w r p \<and> p \<notin> set (concat (rr_rounds acc))) (boundaries op tree)"
  let ?got = "fetched w r ?paths"
  let ?updates = "fold (\<lambda>(p, x) m. map_set p x m) ?got (rr_updates acc)"
  let ?asked = "acc\<lparr>rr_rounds := rr_rounds acc @ [?paths]\<rparr>"
  show ?case
  proof (cases "rw_before w r \<and> ?paths \<noteq> []")
    case True
    have rounds: "rounds_ok op (rr_rounds ?asked)"
      using rounds_ok_snoc [OF Suc.prems(2), of ?paths] True boundaries_open [of op tree] by auto
    show ?thesis
    proof (cases "rw_after w r \<and> ?got \<noteq> []")
      case ok: True
      have updates: "list_all (\<lambda>(p, u). update_ok M p u) ?updates"
        using fold_updates_ok [OF fetched_ok Suc.prems(3)] assms(1) by blast
      obtain t where t: "apply_children fuel ?updates tree = Some t" "tree_ok M t"
        using apply_children_ok [OF updates Suc.prems(1), of fuel] assms(2) less_imp_diff_less by blast
      show ?thesis
        using Suc.IH [of t "?asked\<lparr>rr_updates := ?updates\<rparr>" "Suc r"] True ok t updates rounds
        by (auto simp: Let_def)
    next
      case False
      then show ?thesis using True rounds by (auto simp: Let_def)
    qed
  qed (use Suc.prems in \<open>auto simp: Let_def\<close>)
qed simp

text \<open>
  C24. A refresh always ends: in a directory tree, where paths get longer towards the leaves, the
  recursion that applies the fetched children terminates, at most the given number of rounds is
  made, only folders that the user has open are asked for, and no folder is asked for in two rounds
  even when its answer stays incomplete.
\<close>

theorem refresh_ends:
  assumes "\<And>r p x. rw_fetch w r p = Some x \<Longrightarrow> update_ok M p x" and "tree_ok M tree" and "M < fuel"
  shows "case collect_fresh fuel w max_iterations op tree of
      None \<Rightarrow> False
    | Some res \<Rightarrow>
        length (rr_rounds res) \<le> max_iterations
        \<and> distinct (concat (map remdups (rr_rounds res)))
        \<and> list_all (\<lambda>ps. set ps \<subseteq> set op) (rr_rounds res)"
proof -
  have "\<exists>res. collect_fresh fuel w max_iterations op tree = Some res \<and> rounds_ok op (rr_rounds res)
      \<and> length (rr_rounds res) \<le> max_iterations"
    using fresh_loop_ok [OF assms(1,3,2), where acc = "\<lparr>rr_updates = [], rr_rounds = []\<rparr>"
        and left = max_iterations and r = 0 and op = op]
    by (simp add: collect_fresh_def rounds_ok_def)
  then show ?thesis by (auto simp: rounds_ok_def list_all_iff)
qed

definition sample_world :: refresh_world where
  "sample_world =
     \<lparr>rw_fetch = (\<lambda>r p. if p = js ''src'' then
          Some \<lparr>er_children = [Tree_Node (js ''2'') (js ''a.ts'') (js ''src/a.ts'') Tree_File None None], er_loaded = True\<rparr>
          else None),
      rw_loading = (\<lambda>r p. False), rw_before = (\<lambda>r. True), rw_after = (\<lambda>r. True)\<rparr>"

lemma refresh_ends_witness:
  "case collect_fresh 10 sample_world 3 [js ''src'']
       (Tree_Node (js ''1'') (js ''src'') (js ''src'') Tree_Dir None (Some False)) of
     None \<Rightarrow> False
   | Some res \<Rightarrow> length (rr_rounds res) \<le> 3 \<and> distinct (concat (map remdups (rr_rounds res)))
       \<and> list_all (\<lambda>ps. set ps \<subseteq> set [js ''src'']) (rr_rounds res)"
  by (rule refresh_ends [where M = 8])
    (auto simp: sample_world_def update_ok_def split: if_splits)

end
