(* ===== verification/TreeActions.thy ===== *)
theory TreeActions
  imports WorkspaceTree
begin

text \<open>
  What the user does with the workspace tree: the key bindings of treeKeyboard.ts, drag and drop of
  dropTarget.ts, names of nameValidation.ts and the undo journal of undoJournal.ts. Lower and upper
  case are functions of the language's character tables and are arguments; an error message is the
  key it is translated from.
\<close>

section \<open>Keys\<close>

datatype tree_action =
    Focus jstr bool | Collapse jstr | Expand jstr | Activate jstr | Rename_Row jstr
  | Delete_Rows | Select_All | Copy_Rows | Cut_Rows | Paste_Rows | Undo_Last | Type_Ahead jstr

record key_input =
  ki_key :: jstr
  ki_meta :: bool
  ki_ctrl :: bool
  ki_shift :: bool
  ki_alt :: bool

definition row_index :: "tree_row list \<Rightarrow> jstr option \<Rightarrow> int" where
  "row_index rows path = (case path of None \<Rightarrow> -1 | Some p \<Rightarrow> find_index (\<lambda>r. tr_path r = p) rows)"

definition command_action :: "(jstr \<Rightarrow> jstr) \<Rightarrow> key_input \<Rightarrow> tree_action option" where
  "command_action lower k =
     (let c = lower (ki_key k) in
      if c = js ''a'' then Some Select_All
      else if c = js ''c'' then Some Copy_Rows
      else if c = js ''x'' then Some Cut_Rows
      else if c = js ''v'' then Some Paste_Rows
      else if c = js ''z'' then (if ki_shift k then None else Some Undo_Last)
      else if c = js ''backspace'' then Some Delete_Rows
      else None)"

definition plain_action ::
    "key_input \<Rightarrow> tree_row list \<Rightarrow> int \<Rightarrow> tree_row option \<Rightarrow> (jstr \<Rightarrow> bool) \<Rightarrow> tree_action option" where
  "plain_action k rows idx focused is_open =
     (let key = ki_key k; n = int (length rows); at = (\<lambda>i. tr_path (rows ! nat i)) in
      if key = js ''ArrowDown'' then
        Some (Focus (at (if idx < 0 then 0 else min (idx + 1) (n - 1))) (ki_shift k))
      else if key = js ''ArrowUp'' then
        Some (Focus (at (if idx < 0 then n - 1 else max (idx - 1) 0)) (ki_shift k))
      else if key = js ''Home'' then Some (Focus (at 0) (ki_shift k))
      else if key = js ''End'' then Some (Focus (at (n - 1)) (ki_shift k))
      else if key = js ''ArrowLeft'' then
        (case focused of
           None \<Rightarrow> None
         | Some r \<Rightarrow>
             if tr_dir r \<and> is_open (tr_path r) then Some (Collapse (tr_path r))
             else if truthy (nm_parent r) then Some (Focus (the (nm_parent r)) False) else None)
      else if key = js ''ArrowRight'' then
        (case focused of
           None \<Rightarrow> None
         | Some r \<Rightarrow>
             if \<not> tr_dir r then None
             else if \<not> is_open (tr_path r) then Some (Expand (tr_path r))
             else if idx + 1 < n \<and> nm_parent (rows ! nat (idx + 1)) = Some (tr_path r)
             then Some (Focus (at (idx + 1)) False) else None)
      else if key = js ''Enter'' \<or> key = [32] then map_option (\<lambda>r. Activate (tr_path r)) focused
      else if key = js ''F2'' then map_option (\<lambda>r. Rename_Row (tr_path r)) focused
      else if key = js ''Delete'' then Some Delete_Rows
      else if length key = 1 \<and> \<not> ki_alt k \<and> key \<noteq> [32] then Some (Type_Ahead key)
      else None)"

definition tree_key_action ::
    "(jstr \<Rightarrow> jstr) \<Rightarrow> key_input \<Rightarrow> tree_row list \<Rightarrow> jstr option \<Rightarrow> (jstr \<Rightarrow> bool) \<Rightarrow> tree_action option" where
  "tree_key_action lower k rows focused_path is_open =
     (if ki_meta k \<or> ki_ctrl k then command_action lower k
      else if rows = [] then None
      else (let idx = row_index rows focused_path
            in plain_action k rows idx (if 0 \<le> idx then Some (rows ! nat idx) else None) is_open))"

fun search_ahead ::
    "(jstr \<Rightarrow> jstr) \<Rightarrow> tree_row list \<Rightarrow> int \<Rightarrow> jstr \<Rightarrow> nat \<Rightarrow> nat \<Rightarrow> jstr option" where
  "search_ahead lower rows start needle step 0 = None"
| "search_ahead lower rows start needle step (Suc left) =
     (let row = rows ! nat ((start + int step) mod int (length rows))
      in if prefix needle (lower (tn_name (nm_data row))) then Some (tr_path row)
         else search_ahead lower rows start needle (Suc step) left)"

definition type_ahead_target ::
    "(jstr \<Rightarrow> jstr) \<Rightarrow> tree_row list \<Rightarrow> jstr option \<Rightarrow> jstr \<Rightarrow> jstr option" where
  "type_ahead_target lower rows focused_path buffer =
     (if rows = [] \<or> buffer = [] then None
      else search_ahead lower rows (row_index rows focused_path) (lower buffer) 1 (length rows))"

section \<open>Drag and drop\<close>

definition parse_drop_id :: "jstr option \<Rightarrow> jstr option" where
  "parse_drop_id over_id =
     (case over_id of
        None \<Rightarrow> None
      | Some i \<Rightarrow>
          if prefix (js ''sticky:'') i then Some (drop 7 i)
          else if prefix (js ''empty:'') i then Some (drop 6 i)
          else if \<not> prefix (js ''drop:'') i then None
          else Some (drop 5 i))"

definition folder_of :: "jstr \<Rightarrow> node_meta \<Rightarrow> jstr" where
  "folder_of path meta =
     (if tn_kind (nm_data meta) = Tree_Dir then path
      else case nm_parent meta of None \<Rightarrow> [] | Some p \<Rightarrow> p)"

definition external_drop_dir :: "jstr option \<Rightarrow> meta_map \<Rightarrow> jstr" where
  "external_drop_dir path m =
     (if \<not> truthy path then []
      else case map_of m (the path) of None \<Rightarrow> [] | Some meta \<Rightarrow> folder_of (the path) meta)"

definition internal_drop_target :: "jstr option \<Rightarrow> jstr list \<Rightarrow> meta_map \<Rightarrow> jstr option" where
  "internal_drop_target over_id sources m =
     (case parse_drop_id over_id of
        None \<Rightarrow> None
      | Some over \<Rightarrow>
          (case (if over = [] then Some [] else map_option (folder_of over) (map_of m over)) of
             None \<Rightarrow> None
           | Some dir \<Rightarrow>
               if list_ex (\<lambda>src. src = dir \<or> prefix (src @ [47]) dir) sources then None
               else if sources \<noteq> [] \<and> list_all (\<lambda>p. parent_dir p = dir) sources then None
               else Some dir))"

section \<open>Names\<close>

datatype name_error =
    Empty_Name | Untrimmed | Path_Separators | Illegal_Chars | Control_Chars | Dots_Only
  | Windows_Reserved jstr

definition windows_reserved :: "jstr list" where
  "windows_reserved =
     [js ''CON'', js ''PRN'', js ''AUX'', js ''NUL'',
      js ''COM1'', js ''COM2'', js ''COM3'', js ''COM4'', js ''COM5'', js ''COM6'', js ''COM7'', js ''COM8'', js ''COM9'',
      js ''LPT1'', js ''LPT2'', js ''LPT3'', js ''LPT4'', js ''LPT5'', js ''LPT6'', js ''LPT7'', js ''LPT8'', js ''LPT9'']"

definition is_reserved :: "(jstr \<Rightarrow> jstr) \<Rightarrow> jstr \<Rightarrow> bool" where
  "is_reserved upper name =
     (let stem = takeWhile (\<lambda>c. c \<noteq> 46) name;
          bare = rev (dropWhile (\<lambda>c. c = 32 \<or> c = 46) (rev stem))
      in upper bare \<in> set windows_reserved)"

definition validate_name :: "(jstr \<Rightarrow> jstr) \<Rightarrow> jstr \<Rightarrow> name_error option" where
  "validate_name upper name =
     (if name = [] \<or> trim name = [] then Some Empty_Name
      else if name \<noteq> trim name then Some Untrimmed
      else if 47 \<in> set name \<or> 92 \<in> set name \<or> contains [46, 46] name then Some Path_Separators
      else if list_ex (\<lambda>c. c \<in> {60, 62, 58, 34, 124, 63, 42}) name then Some Illegal_Chars
      else if list_ex (\<lambda>c. c < 32 \<or> c = 127) name then Some Control_Chars
      else if list_all (\<lambda>c. c = 46) name then Some Dots_Only
      else if is_reserved upper name then Some (Windows_Reserved name)
      else None)"

section \<open>Undo\<close>

datatype undoable =
    Undo_Move "(jstr \<times> jstr) list" | Undo_Rename jstr jstr | Undo_Create "jstr list" | Undo_Copy "jstr list"

datatype undo_step = Move_Back jstr jstr jstr | Rename_Back jstr jstr | Delete_Step jstr

definition undo_plan :: "undoable \<Rightarrow> undo_step list" where
  "undo_plan entry =
     (case entry of
        Undo_Move moves \<Rightarrow> map (\<lambda>(a, b). Move_Back b (parent_dir a) (base_name a)) (rev moves)
      | Undo_Rename a b \<Rightarrow> [Rename_Back b (base_name a)]
      | Undo_Create paths \<Rightarrow> map Delete_Step paths
      | Undo_Copy paths \<Rightarrow> map Delete_Step paths)"

definition undo_cap :: nat where
  "undo_cap = 20"

definition push_undo :: "undoable list \<Rightarrow> undoable \<Rightarrow> undoable list" where
  "push_undo journal entry =
     (let all = journal @ [entry] in if undo_cap < length all then drop (length all - undo_cap) all else all)"

section \<open>Paths that are cut and joined\<close>

definition join_path :: "jstr \<Rightarrow> jstr \<Rightarrow> jstr" where
  "join_path dir name = (if dir = [] then name else dir @ [47] @ name)"

lemma last_index_split:
  assumes "c \<in> set s"
  shows "\<exists>a b. s = a @ [c] @ b \<and> c \<notin> set b \<and> last_index c s = int (length a)"
proof -
  let ?w = "takeWhile (\<lambda>x. x \<noteq> c) (rev s)"
  obtain d r where "dropWhile (\<lambda>x. x \<noteq> c) (rev s) = d # r"
    using assms by (cases "dropWhile (\<lambda>x. x \<noteq> c) (rev s)") (auto simp: dropWhile_eq_Nil_conv)
  moreover have "d = c" using hd_dropWhile [of "\<lambda>x. x \<noteq> c" "rev s"] calculation by auto
  ultimately have "rev s = ?w @ c # r" by (metis takeWhile_dropWhile_id)
  then have s: "s = rev r @ [c] @ rev ?w" by (metis append_Cons append_Nil append_assoc rev.simps(2) rev_append rev_rev_ident)
  have "c \<notin> set (rev ?w)" using set_takeWhileD [of c "\<lambda>x. x \<noteq> c" "rev s"] by auto
  moreover have "last_index c s = int (length (rev r))"
    using assms arg_cong [OF s, of length] by (simp add: last_index_def)
  ultimately show ?thesis using s by blast
qed

lemma path_parts:
  assumes "\<not> prefix [47] p"
  shows "join_path (parent_dir p) (base_name p) = p" and "47 \<notin> set (base_name p)"
proof -
  have "join_path (parent_dir p) (base_name p) = p \<and> 47 \<notin> set (base_name p)"
  proof (cases "47 \<in> set p")
    case True
    then obtain a b where p: "p = a @ [47] @ b" "47 \<notin> set b" "last_index 47 p = int (length a)"
      using last_index_split by blast
    then have "a \<noteq> []" using assms by auto
    then show ?thesis using p by (simp add: parent_dir_def base_name_def join_path_def)
  next
    case False
    then show ?thesis by (simp add: parent_dir_def base_name_def join_path_def last_index_def)
  qed
  then show "join_path (parent_dir p) (base_name p) = p" "47 \<notin> set (base_name p)" by simp_all
qed

lemma prefix_slash:
  assumes "prefix (s @ [47]) (d @ [47] @ b)" and "47 \<notin> set b"
  shows "s = d \<or> prefix (s @ [47]) d"
proof (cases "length s < length d")
  case True
  then have "prefix (s @ [47]) d"
    using assms(1) by (metis Suc_leI length_append_singleton prefix_length_prefix prefix_def)
  then show ?thesis ..
next
  case False
  then have "prefix d s" using assms(1) by (metis append_prefixD linorder_not_less prefixI prefix_length_prefix)
  then obtain t where t: "s = d @ t" by (auto simp: prefix_def)
  then have "prefix (t @ [47]) (47 # b)" using assms(1) by simp
  then show ?thesis using assms(2) t by (cases t) (auto simp: prefix_def)
qed

section \<open>Dropping is safe\<close>

text \<open>
  A drop never moves a folder into itself or below itself, and never asks for a move that changes
  nothing: of the dragged items at least one gets another path.
\<close>

lemma drop_is_safe:
  assumes "internal_drop_target over_id sources m = Some dir" and "src \<in> set sources"
    and "\<forall>p \<in> set sources. \<not> prefix [47] p"
  shows "\<not> prefix (src @ [47]) (join_path dir (base_name src))"
    and "\<exists>p \<in> set sources. join_path dir (base_name p) \<noteq> p"
proof -
  obtain over d where d: "parse_drop_id over_id = Some over"
      "(if over = [] then Some [] else map_option (folder_of over) (map_of m over)) = Some d"
      "\<not> list_ex (\<lambda>src. src = d \<or> prefix (src @ [47]) d) sources"
      "\<not> (sources \<noteq> [] \<and> list_all (\<lambda>p. parent_dir p = d) sources)" "dir = d"
    using assms(1) by (auto simp: internal_drop_target_def split: option.splits if_splits)
  have safe: "src \<noteq> dir" "\<not> prefix (src @ [47]) dir"
    using d(3,5) assms(2) by (auto simp: list_ex_iff)
  have base: "47 \<notin> set (base_name src)" using path_parts(2) assms(2,3) by blast
  show "\<not> prefix (src @ [47]) (join_path dir (base_name src))"
  proof (cases "dir = []")
    case True
    then show ?thesis using base by (auto simp: join_path_def prefix_def)
  next
    case False
    then show ?thesis using prefix_slash [of src dir "base_name src"] safe base by (auto simp: join_path_def)
  qed
  obtain p where p: "p \<in> set sources" "parent_dir p \<noteq> dir"
    using d(4,5) assms(2) by (auto simp: list_all_iff)
  have "join_path dir (base_name p) \<noteq> p"
  proof
    assume eq: "join_path dir (base_name p) = p"
    have rel: "\<not> prefix [47] p" using assms(3) p(1) by blast
    have "join_path (parent_dir p) (base_name p) = join_path dir (base_name p)"
      using path_parts(1) [OF rel] eq by simp
    then show False
      using p(2) path_parts(2) [OF rel] by (auto simp: join_path_def split: if_splits)
  qed
  then show "\<exists>p \<in> set sources. join_path dir (base_name p) \<noteq> p" using p(1) by blast
qed

section \<open>Undoing restores\<close>

text \<open>
  What a plan does to the paths of a workspace: moving or renaming a path takes everything below it
  along. A forward move is possible when nothing is at the destination or below it.
\<close>

definition under :: "jstr \<Rightarrow> jstr \<Rightarrow> bool" where
  "under a p \<longleftrightarrow> p = a \<or> prefix (a @ [47]) p"

definition relocate :: "jstr \<Rightarrow> jstr \<Rightarrow> jstr list \<Rightarrow> jstr list" where
  "relocate a b paths = map (\<lambda>p. if under a p then b @ drop (length a) p else p) paths"

fun possible :: "(jstr \<times> jstr) list \<Rightarrow> jstr list \<Rightarrow> bool" where
  "possible [] paths = True"
| "possible ((a, b) # moves) paths =
     (\<not> list_ex (under b) paths \<and> possible moves (relocate a b paths))"

definition run_moves :: "(jstr \<times> jstr) list \<Rightarrow> jstr list \<Rightarrow> jstr list" where
  "run_moves moves paths = fold (\<lambda>(a, b). relocate a b) moves paths"

definition run_step :: "undo_step \<Rightarrow> jstr list \<Rightarrow> jstr list" where
  "run_step st paths =
     (case st of
        Move_Back current dir name \<Rightarrow> relocate current (join_path dir name) paths
      | Rename_Back current name \<Rightarrow> relocate current (join_path (parent_dir current) name) paths
      | Delete_Step p \<Rightarrow> filter (\<lambda>q. \<not> under p q) paths)"

definition run_plan :: "undo_step list \<Rightarrow> jstr list \<Rightarrow> jstr list" where
  "run_plan plan paths = fold run_step plan paths"

lemma relocate_back:
  assumes "\<not> list_ex (under b) paths"
  shows "relocate b a (relocate a b paths) = paths"
proof -
  have "(if under b q then a @ drop (length b) q else q) = p"
    if "p \<in> set paths" and q: "q = (if under a p then b @ drop (length a) p else p)" for p q
  proof (cases "under a p")
    case True
    then obtain r where r: "p = a @ r" "r = [] \<or> prefix [47] r" by (auto simp: under_def prefix_def)
    then have "q = b @ r" using q True by simp
    moreover have "under b (b @ r)" using r(2) by (auto simp: under_def prefix_def)
    ultimately show ?thesis using r(1) by simp
  next
    case False
    then show ?thesis using assms that by (auto simp: list_ex_iff)
  qed
  then show ?thesis by (simp add: relocate_def o_def map_idI)
qed

lemma run_moves_back:
  "possible moves paths \<Longrightarrow>
   fold (\<lambda>(a, b). relocate b a) (rev moves) (run_moves moves paths) = paths"
  by (induction moves arbitrary: paths) (auto simp: run_moves_def relocate_back)

lemma plan_steps:
  "list_all (\<lambda>(a, b). \<not> prefix [47] a) moves \<Longrightarrow>
   fold run_step (map (\<lambda>(a, b). Move_Back b (parent_dir a) (base_name a)) moves) paths
   = fold (\<lambda>(a, b). relocate b a) moves paths"
  by (induction moves arbitrary: paths) (auto simp: run_step_def path_parts(1))


lemma under_js: "under (js a) (js p) \<longleftrightarrow> p = a \<or> prefix (a @ ''/'') p"
proof -
  have "js a @ [47] = js (a @ ''/'')" by (simp add: js_append js_Cons)
  then show ?thesis unfolding under_def by (simp only: prefix_js js_inject)
qed


lemma undo_journal_bounded: "length (push_undo journal entry) \<le> undo_cap \<and> last (push_undo journal entry) = entry"
  by (simp add: push_undo_def undo_cap_def Let_def)

section \<open>The keyboard\<close>

text \<open>
  A key never moves the focus to a row that is not shown, when the parents of shown rows are shown,
  as they are in the rows of a model.
\<close>

definition parents_shown :: "tree_row list \<Rightarrow> bool" where
  "parents_shown rows \<longleftrightarrow>
     list_all (\<lambda>r. case nm_parent r of None \<Rightarrow> True | Some p \<Rightarrow> p \<in> tr_path ` set rows) rows"

lemma rows_parents:
  "r \<in> set (build_rows op ld sel ns depth parent) \<Longrightarrow>
   nm_parent r = parent \<or> nm_parent r \<in> Some ` tr_path ` set (build_rows op ld sel ns depth parent)"
proof (induction op ld sel ns depth parent rule: build_rows.induct)
  case (2 op ld sel i nm p k ch l nodes depth parent)
  let ?kids = "case ch of
          Some kids \<Rightarrow> if k = Tree_Dir \<and> p \<in> set op \<and> kids \<noteq> [] then build_rows op ld sel kids (depth + 1) (Some p) else []
        | None \<Rightarrow> []"
  consider "r = make_row op ld sel (Tree_Node i nm p k ch l) depth parent" | "r \<in> set ?kids"
    | "r \<in> set (build_rows op ld sel nodes depth parent)"
    using 2(3) by (auto split: option.splits if_splits)
  then show ?case
  proof cases
    case 2
    then have "nm_parent r = Some p \<or> nm_parent r \<in> Some ` tr_path ` set ?kids"
      using "2.IH"(1) by (auto split: option.splits if_splits)
    then show ?thesis by (auto simp: make_row_def)
  next
    case 3
    then show ?thesis using "2.IH"(2) by auto
  qed (simp add: make_row_def)
qed simp

lemma model_parents_shown: "parents_shown (wm_rows (workspace_model root op ld sel editing))"
proof -
  let ?rows = "build_rows (visible_open (build_meta root 0 None []) op) ld sel root 0 None"
  have "p \<in> tr_path ` set ?rows" if "r \<in> set ?rows" "nm_parent r = Some p" for r p
    using rows_parents [OF that(1)] that(2) by auto
  then show ?thesis
    by (simp add: parents_shown_def workspace_model_def Let_def list_all_iff split: option.split)
qed

lemma row_index_bounds:
  "row_index rows path < int (length rows) \<or> rows = []" "-1 \<le> row_index rows path"
  using find_index_less find_index_ge by (auto simp: row_index_def split: option.split)

lemma focus_stays_shown:
  assumes "parents_shown rows" and "tree_key_action lower k rows focused is_open = Some (Focus p e)"
  shows "p \<in> tr_path ` set rows"
proof -
  let ?i = "row_index rows focused"
  have plain: "rows \<noteq> []" "plain_action k rows ?i (if 0 \<le> ?i then Some (rows ! nat ?i) else None) is_open
      = Some (Focus p e)"
    using assms(2) by (auto simp: tree_key_action_def command_action_def Let_def split: if_splits)
  have at: "tr_path (rows ! nat j) \<in> tr_path ` set rows" if "j < int (length rows)" for j
  proof -
    have "nat j < length rows" using that plain(1) by (cases "0 \<le> j") (auto simp: nat_less_iff)
    then show ?thesis by simp
  qed
  have i: "?i < int (length rows)" "-1 \<le> ?i" using row_index_bounds [of rows focused] plain(1) by auto
  have n: "0 < int (length rows)" using plain(1) by simp
  have up: "q \<in> tr_path ` set rows" if "0 \<le> ?i" "nm_parent (rows ! nat ?i) = Some q" for q
  proof -
    have "rows ! nat ?i \<in> set rows" using that(1) i(1) by (simp add: nat_less_iff)
    then show ?thesis using assms(1) that(2) by (auto simp: parents_shown_def list_all_iff split: option.splits)
  qed
  show ?thesis
    using plain(2) i n at up
    by (auto simp: plain_action_def Let_def truthy_def split: if_splits option.splits)
qed

text \<open>A type-ahead search finds a row if and only if some name starts with what was typed.\<close>

lemma search_ahead_some:
  "search_ahead lower rows start needle step left = Some p \<Longrightarrow> rows \<noteq> [] \<Longrightarrow>
   \<exists>r \<in> set rows. tr_path r = p \<and> prefix needle (lower (tn_name (nm_data r)))"
proof (induction left arbitrary: step)
  case (Suc left)
  let ?i = "nat ((start + int step) mod int (length rows))"
  have "?i < length rows" using Suc.prems(2) by (simp add: nat_less_iff)
  then show ?case using Suc by (auto simp: Let_def split: if_splits)
qed simp

lemma search_ahead_none:
  "search_ahead lower rows start needle step left = None \<Longrightarrow> step \<le> j \<Longrightarrow> j < step + left \<Longrightarrow>
   \<not> prefix needle (lower (tn_name (nm_data (rows ! nat ((start + int j) mod int (length rows))))))"
proof (induction left arbitrary: step)
  case (Suc left)
  then show ?case by (cases "j = step") (auto simp: Let_def split: if_splits)
qed simp

lemma type_ahead_complete:
  assumes "buffer \<noteq> []"
  shows "type_ahead_target lower rows focused buffer = None
    \<longleftrightarrow> list_all (\<lambda>r. \<not> prefix (lower buffer) (lower (tn_name (nm_data r)))) rows"
proof (cases "rows = []")
  case False
  let ?s = "row_index rows focused" and ?n = "int (length rows)"
  show ?thesis
  proof
    assume none: "type_ahead_target lower rows focused buffer = None"
    have "\<not> prefix (lower buffer) (lower (tn_name (nm_data (rows ! i))))" if i: "i < length rows" for i
    proof -
      define j where "j = nat ((int i - ?s - 1) mod ?n) + 1"
      have n: "0 < ?n" using False by simp
      have range: "1 \<le> j" "j < 1 + length rows"
        using n by (simp_all add: j_def nat_less_iff)
      have "(?s + int j) mod ?n = (?s + 1 + (int i - ?s - 1) mod ?n) mod ?n"
        using n by (simp add: j_def ac_simps)
      also have "\<dots> = int i" using i by (simp add: mod_add_right_eq)
      finally have "nat ((?s + int j) mod ?n) = i" by simp
      then show ?thesis
        using search_ahead_none [of lower rows ?s "lower buffer" 1 "length rows" j] none range False assms
        by (simp add: type_ahead_target_def)
    qed
    then show "list_all (\<lambda>r. \<not> prefix (lower buffer) (lower (tn_name (nm_data r)))) rows"
      by (simp add: list_all_length)
  next
    assume "list_all (\<lambda>r. \<not> prefix (lower buffer) (lower (tn_name (nm_data r)))) rows"
    then show "type_ahead_target lower rows focused buffer = None"
      using search_ahead_some [of lower rows ?s "lower buffer" 1 "length rows"] False
      by (cases "search_ahead lower rows ?s (lower buffer) 1 (length rows)")
        (auto simp: type_ahead_target_def list_all_iff)
  qed
qed (simp add: type_ahead_target_def)

section \<open>Names\<close>

lemma valid_name_joins:
  assumes "validate_name upper name = None"
  shows "name \<noteq> [] \<and> 47 \<notin> set name \<and> base_name (join_path dir name) = name
    \<and> (\<not> prefix [47] dir \<longrightarrow> parent_dir (join_path dir name) = dir)"
proof -
  have n: "name \<noteq> []" "47 \<notin> set name" using assms by (auto simp: validate_name_def split: if_splits)
  have "takeWhile (\<lambda>x. x \<noteq> 47) (rev name @ 47 # rev a) = rev name" for a
    using n(2) by (subst takeWhile_append2) auto
  then have last: "last_index 47 (a @ 47 # name) = int (length a)" for a
    by (simp add: last_index_def)
  have none: "last_index 47 name = -1" using n(2) by (simp add: last_index_def)
  show ?thesis
    using n last [of dir] none by (simp add: join_path_def base_name_def parent_dir_def)
qed

end
