(* ===== verification/LineDiff.thy ===== *)
theory LineDiff
  imports JsText
begin

text \<open>
  Comparing two versions of a document line by line and combining them again:
  markdown-editor/lineDiff.ts. The edit script comes from the diff package and is an argument; the
  code relies only on its counts, which must cover both sides.
\<close>

section \<open>Lines\<close>

record source_line =
  sl_text :: jstr
  sl_ending :: jstr
  sl_number :: nat

text \<open>The line ending at the start of a string: CR LF, CR, LF, or none at the end.\<close>

fun ending_of :: "jstr \<Rightarrow> jstr" where
  "ending_of [] = []"
| "ending_of (c # s) =
     (if c = 13 then (case s of d # _ \<Rightarrow> if d = 10 then [13, 10] else [13] | [] \<Rightarrow> [13])
      else if c = 10 then [10] else [])"

definition breaks_line :: "16 word \<Rightarrow> bool" where
  "breaks_line c \<longleftrightarrow> c = 13 \<or> c = 10"

lemma ending_of_shorter:
  assumes "s \<noteq> []"
  defines "rest \<equiv> dropWhile (\<lambda>c. \<not> breaks_line c) s"
  shows "length rest - length (ending_of rest) < length s"
proof (cases rest)
  case (Cons c r)
  have "breaks_line c" using hd_dropWhile [of "\<lambda>c. \<not> breaks_line c" s] Cons unfolding rest_def by simp
  then have "0 < length (ending_of (c # r))" by (auto simp: breaks_line_def split: list.split)
  moreover have "length (c # r) \<le> length s"
    using length_dropWhile_le [of "\<lambda>c. \<not> breaks_line c" s] Cons unfolding rest_def by simp
  moreover have "0 < length (c # r)" by simp
  ultimately show ?thesis unfolding Cons by linarith
next
  case Nil
  then show ?thesis using assms(1) by (simp only: list.size) simp
qed

function split_from :: "nat \<Rightarrow> jstr \<Rightarrow> source_line list" where
  "split_from n raw =
     (if raw = [] then []
      else (let text = takeWhile (\<lambda>c. \<not> breaks_line c) raw;
                rest = dropWhile (\<lambda>c. \<not> breaks_line c) raw
            in \<lparr>sl_text = text, sl_ending = ending_of rest, sl_number = n\<rparr>
               # split_from (Suc n) (drop (length (ending_of rest)) rest)))"
  by pat_completeness auto
termination
  by (relation "measure (\<lambda>(n, raw). length raw)") (simp_all add: ending_of_shorter Let_def)

definition split_lines :: "jstr \<Rightarrow> source_line list" where
  "split_lines raw = split_from 1 raw"

declare split_from.simps [simp del]

definition line_equals :: "source_line \<Rightarrow> source_line \<Rightarrow> bool" where
  "line_equals a b \<longleftrightarrow> sl_text a = sl_text b \<and> sl_ending a = sl_ending b"

section \<open>Aligning\<close>

datatype row_kind = Line_Row | Bom_Row

record diff_row =
  dr_id :: int
  dr_local :: "source_line option"
  dr_disk :: "source_line option"
  dr_changed :: bool
  dr_kind :: row_kind

record line_comparison =
  lc_rows :: "diff_row list"
  lc_simplified :: bool

record diff_change =
  dc_added :: bool
  dc_removed :: bool
  dc_count :: nat

definition at :: "'a list \<Rightarrow> nat \<Rightarrow> 'a option" where
  "at xs i = (if i < length xs then Some (xs ! i) else None)"

definition line_row :: "nat \<Rightarrow> source_line option \<Rightarrow> source_line option \<Rightarrow> diff_row" where
  "line_row i a b =
     \<lparr>dr_id = int i, dr_local = a, dr_disk = b,
      dr_changed = (case (a, b) of (Some x, Some y) \<Rightarrow> \<not> line_equals x y | _ \<Rightarrow> True),
      dr_kind = Line_Row\<rparr>"

definition append_rows :: "source_line list \<Rightarrow> source_line list \<Rightarrow> diff_row list \<Rightarrow> diff_row list" where
  "append_rows a b rows =
     rows @ map (\<lambda>i. line_row (length rows + i) (at a i) (at b i)) [0..<max (length a) (length b)]"

fun common_prefix :: "source_line list \<Rightarrow> source_line list \<Rightarrow> nat" where
  "common_prefix (a # as) (b # bs) = (if line_equals a b then Suc (common_prefix as bs) else 0)"
| "common_prefix _ _ = 0"

definition positional_rows :: "source_line list \<Rightarrow> source_line list \<Rightarrow> diff_row list" where
  "positional_rows local disk =
     (let p = common_prefix local disk;
          s = common_prefix (rev (drop p local)) (rev (drop p disk));
          n = length local; m = length disk;
          rows = append_rows (take (n - s - p) (drop p local)) (take (m - s - p) (drop p disk))
                   (append_rows (take p local) (take p disk) [])
      in if 0 < s then append_rows (drop (n - s) local) (drop (m - s) disk) rows else rows)"

text \<open>
  A run of added and removed changes becomes one block of rows; the counters are the lines that are
  left on both sides.
\<close>

definition is_edit :: "diff_change \<Rightarrow> bool" where
  "is_edit c \<longleftrightarrow> dc_added c \<or> dc_removed c"

definition removed_count :: "diff_change list \<Rightarrow> nat" where
  "removed_count cs = sum_list (map (\<lambda>c. if dc_removed c then dc_count c else 0) cs)"

definition added_count :: "diff_change list \<Rightarrow> nat" where
  "added_count cs = sum_list (map (\<lambda>c. if dc_removed c then 0 else dc_count c) cs)"

function script_rows ::
    "diff_change list \<Rightarrow> source_line list \<Rightarrow> source_line list \<Rightarrow> diff_row list \<Rightarrow> diff_row list" where
  "script_rows [] a b rows = rows"
| "script_rows (c # cs) a b rows =
     (if \<not> is_edit c then
        script_rows cs (drop (dc_count c) a) (drop (dc_count c) b)
          (append_rows (take (dc_count c) a) (take (dc_count c) b) rows)
      else (let run = takeWhile is_edit (c # cs); later = dropWhile is_edit (c # cs);
                r = removed_count run; d = added_count run
            in script_rows later (drop r a) (drop d b) (append_rows (take r a) (take d b) rows)))"
  by pat_completeness auto
termination
  by (relation "measure (\<lambda>(cs, _). length cs)")
    (simp_all add: less_Suc_eq_le length_dropWhile_le)

definition align_rows ::
    "source_line list \<Rightarrow> source_line list \<Rightarrow> diff_change list option \<Rightarrow> diff_row list" where
  "align_rows local disk changes =
     (case changes of
        None \<Rightarrow> positional_rows local disk
      | Some cs \<Rightarrow> script_rows cs local disk [])"

section \<open>Comparing\<close>

definition has_bom :: "jstr \<Rightarrow> bool" where
  "has_bom s \<longleftrightarrow> prefix [65279] s"

definition without_bom :: "jstr \<Rightarrow> jstr" where
  "without_bom s = (if has_bom s then drop 1 s else s)"

definition bom_line :: source_line where
  "bom_line = \<lparr>sl_text = [65279], sl_ending = [], sl_number = 1\<rparr>"

definition bom_row :: "bool \<Rightarrow> bool \<Rightarrow> diff_row" where
  "bom_row local disk =
     \<lparr>dr_id = -1, dr_local = if local then Some bom_line else None,
      dr_disk = if disk then Some bom_line else None, dr_changed = (local \<noteq> disk), dr_kind = Bom_Row\<rparr>"

type_synonym diff_tool = "source_line list \<Rightarrow> source_line list \<Rightarrow> diff_change list option"

definition compare_lines :: "diff_tool \<Rightarrow> jstr \<Rightarrow> jstr \<Rightarrow> bool \<Rightarrow> line_comparison" where
  "compare_lines tool local_raw disk_raw simplified =
     (let lb = has_bom local_raw; db = has_bom disk_raw;
          local = split_lines (without_bom local_raw); disk = split_lines (without_bom disk_raw);
          changes = (if simplified then None else tool local disk);
          rows = align_rows local disk changes
      in \<lparr>lc_rows = (if lb \<or> db then bom_row lb db # rows else rows), lc_simplified = (changes = None)\<rparr>)"

section \<open>Combining\<close>

datatype diff_side = Local | Disk

type_synonym diff_choices = "(int \<times> diff_side) list"

definition unresolved_rows :: "line_comparison \<Rightarrow> diff_choices \<Rightarrow> nat" where
  "unresolved_rows c choices =
     length (filter (\<lambda>r. dr_changed r \<and> \<not> map_has (dr_id r) choices) (lc_rows c))"

definition selected :: "diff_choices \<Rightarrow> diff_row \<Rightarrow> source_line option" where
  "selected choices r =
     (if dr_changed r then (case map_of choices (dr_id r) of Some Disk \<Rightarrow> dr_disk r | _ \<Rightarrow> dr_local r)
      else dr_local r)"

definition chosen_bom :: "diff_choices \<Rightarrow> diff_row list \<Rightarrow> jstr" where
  "chosen_bom choices rows =
     fold (\<lambda>r bom. if dr_kind r = Bom_Row
                   then (case selected choices r of Some l \<Rightarrow> sl_text l | None \<Rightarrow> []) else bom) rows []"

definition chosen_lines :: "diff_choices \<Rightarrow> diff_row list \<Rightarrow> source_line list" where
  "chosen_lines choices rows =
     concat (map (\<lambda>r. if dr_kind r = Bom_Row then [] else
       (case selected choices r of Some l \<Rightarrow> [l] | None \<Rightarrow> [])) rows)"

definition preferred_ending :: "source_line list \<Rightarrow> jstr" where
  "preferred_ending ls = (case List.find (\<lambda>l. sl_ending l \<noteq> []) ls of Some l \<Rightarrow> sl_ending l | None \<Rightarrow> [10])"

fun fill_endings :: "jstr \<Rightarrow> source_line list \<Rightarrow> jstr list" where
  "fill_endings pref [] = []"
| "fill_endings pref [l] = [sl_ending l]"
| "fill_endings pref (l # ls) = (if sl_ending l \<noteq> [] then sl_ending l else pref) # fill_endings pref ls"

fun join_lines :: "jstr list \<Rightarrow> jstr list \<Rightarrow> jstr" where
  "join_lines (t # ts) (e # es) =
     t @ (if e = [13] \<and> (case (ts, es) of (t' # _, e' # _) \<Rightarrow> t' = [] \<and> e' = [10] | _ \<Rightarrow> False)
          then [13, 10] else e) @ join_lines ts es"
| "join_lines _ _ = []"

definition combine_lines :: "line_comparison \<Rightarrow> diff_choices \<Rightarrow> jstr + jstr" where
  "combine_lines c choices =
     (if unresolved_rows c choices \<noteq> 0 then Inl (js ''Unresolved source lines'')
      else (let ls = chosen_lines choices (lc_rows c)
            in Inr (chosen_bom choices (lc_rows c)
                 @ join_lines (map sl_text ls) (fill_endings (preferred_ending ls) ls))))"

section \<open>Blocks\<close>

definition add_block :: "nat \<Rightarrow> nat \<Rightarrow> nat \<Rightarrow> (nat \<times> nat) list \<Rightarrow> (nat \<times> nat) list" where
  "add_block row_count context_lines i blocks =
     (let lo = i - context_lines; hi = min row_count (i + context_lines + 1) in
      if blocks \<noteq> [] \<and> lo \<le> snd (last blocks)
      then butlast blocks @ [(fst (last blocks), hi)] else blocks @ [(lo, hi)])"

definition comparison_blocks :: "line_comparison \<Rightarrow> nat \<Rightarrow> (nat \<times> nat) list" where
  "comparison_blocks c context_lines =
     fold (\<lambda>i blocks. if dr_changed (lc_rows c ! i)
                       then add_block (length (lc_rows c)) context_lines i blocks else blocks)
       [0..<length (lc_rows c)] []"

section \<open>Splitting and reading back\<close>

text \<open>A line's text and ending, without its number.\<close>

definition content :: "source_line \<Rightarrow> jstr \<times> jstr" where
  "content l = (sl_text l, sl_ending l)"

definition raw_of :: "source_line list \<Rightarrow> jstr" where
  "raw_of ls = concat (map (\<lambda>l. sl_text l @ sl_ending l) ls)"

lemma raw_of_simps [simp]:
  "raw_of [] = []" "raw_of (l # ls) = sl_text l @ sl_ending l @ raw_of ls"
  by (simp_all add: raw_of_def)

definition line_ok :: "source_line \<Rightarrow> bool" where
  "line_ok l \<longleftrightarrow> (\<forall>c \<in> set (sl_text l). \<not> breaks_line c) \<and> sl_ending l \<in> {[], [13], [10], [13, 10]} \<and>
     (sl_text l \<noteq> [] \<or> sl_ending l \<noteq> [])"

text \<open>Lines that reading a document can give: only the last may have no ending, and no CR meets an LF.\<close>

fun canonical :: "source_line list \<Rightarrow> bool" where
  "canonical [] = True"
| "canonical [l] = line_ok l"
| "canonical (l # m # ls) \<longleftrightarrow> line_ok l \<and> sl_ending l \<noteq> [] \<and>
     \<not> (sl_ending l = [13] \<and> sl_text m = [] \<and> sl_ending m = [10]) \<and> canonical (m # ls)"

lemma ending_prefix: "ending_of s @ drop (length (ending_of s)) s = s"
  by (cases s rule: ending_of.cases) (auto split: list.split)

lemma raw_of_split_from [simp]: "raw_of (split_from n raw) = raw"
  by (induction n raw rule: split_from.induct)
    (subst split_from.simps, simp add: Let_def ending_prefix)

lemma ending_value: "ending_of s \<in> {[], [13], [10], [13, 10]}"
  by (cases s rule: ending_of.cases) (auto split: list.split)

lemma rest_ending:
  "dropWhile (\<lambda>c. \<not> breaks_line c) s \<noteq> [] \<Longrightarrow> ending_of (dropWhile (\<lambda>c. \<not> breaks_line c) s) \<noteq> []"
  using hd_dropWhile [of "\<lambda>c. \<not> breaks_line c" s]
  by (cases "dropWhile (\<lambda>c. \<not> breaks_line c) s") (auto simp: breaks_line_def split: list.split)

lemma ending_is_cr: "ending_of s = [13] \<Longrightarrow> \<exists>r. s = 13 # r \<and> (r = [] \<or> r \<noteq> [] \<and> hd r \<noteq> 10)"
  by (cases s rule: ending_of.cases) (auto split: list.splits if_splits)

lemma head_breaks:
  "xs = [] \<or> breaks_line (hd xs) \<Longrightarrow> takeWhile (\<lambda>c. \<not> breaks_line c) xs = []"
  "xs = [] \<or> breaks_line (hd xs) \<Longrightarrow> dropWhile (\<lambda>c. \<not> breaks_line c) xs = xs"
  by (cases xs; simp)+

lemma line_ok_ending:
  "line_ok l \<Longrightarrow> sl_ending l = [] \<or> sl_ending l = [13] \<or> sl_ending l = [10] \<or> sl_ending l = [13, 10]"
  by (simp add: line_ok_def)

lemma line_ok_text: "line_ok l \<Longrightarrow> c \<in> set (sl_text l) \<Longrightarrow> \<not> breaks_line c"
  by (simp add: line_ok_def)

lemma text_unbroken: "\<forall>c \<in> set (takeWhile (\<lambda>c. \<not> breaks_line c) s). \<not> breaks_line c"
  by (blast dest: set_takeWhileD)

lemma split_unit:
  assumes l: "line_ok l" and e: "sl_ending l \<noteq> [] \<or> rest = []"
    and cr: "sl_ending l = [13] \<Longrightarrow> rest = [] \<or> hd rest \<noteq> 10"
  shows "split_from n (sl_text l @ sl_ending l @ rest) =
           \<lparr>sl_text = sl_text l, sl_ending = sl_ending l, sl_number = n\<rparr> # split_from (Suc n) rest"
proof -
  have brk: "sl_ending l @ rest = [] \<or> breaks_line (hd (sl_ending l @ rest))"
  proof (cases "sl_ending l = []")
    case False
    then show ?thesis using line_ok_ending [OF l] by (elim disjE) (simp_all add: breaks_line_def)
  qed (use e in simp)
  have tw: "takeWhile (\<lambda>c. \<not> breaks_line c) (sl_text l @ sl_ending l @ rest) = sl_text l"
    and dw: "dropWhile (\<lambda>c. \<not> breaks_line c) (sl_text l @ sl_ending l @ rest) = sl_ending l @ rest"
    using line_ok_text [OF l] head_breaks [OF brk] by (simp_all add: takeWhile_append2 dropWhile_append2)
  have eo: "ending_of (sl_ending l @ rest) = sl_ending l"
  proof (cases rest)
    case Nil
    then show ?thesis using line_ok_ending [OF l] by (elim disjE) simp_all
  next
    case (Cons c r)
    then show ?thesis using line_ok_ending [OF l] e cr by (elim disjE) simp_all
  qed
  have "sl_text l @ sl_ending l @ rest \<noteq> []" using l by (simp add: line_ok_def) blast
  then show ?thesis by (subst split_from.simps) (simp add: tw dw eo Let_def)
qed

lemma canonical_head:
  "canonical (m # ls) \<Longrightarrow>
     raw_of (m # ls) \<noteq> [] \<and> (hd (raw_of (m # ls)) = 10 \<longleftrightarrow> sl_text m = [] \<and> sl_ending m = [10])"
proof -
  assume "canonical (m # ls)"
  then have ok: "line_ok m" by (cases ls) auto
  show ?thesis
  proof (cases "sl_text m")
    case Nil
    then show ?thesis using ok by (auto simp: line_ok_def)
  next
    case (Cons c t)
    then have "c \<noteq> 10" using ok by (auto simp: line_ok_def breaks_line_def)
    then show ?thesis using Cons by simp
  qed
qed

lemma content_split_raw: "canonical ls \<Longrightarrow> map content (split_from n (raw_of ls)) = map content ls"
proof (induction ls arbitrary: n rule: canonical.induct)
  case 1
  then show ?case by (simp add: split_from.simps)
next
  case (2 l)
  then show ?case using split_unit [of l "[]" n] by (simp add: content_def split_from.simps)
next
  case (3 l m ls)
  then have "split_from n (raw_of (l # m # ls)) =
      \<lparr>sl_text = sl_text l, sl_ending = sl_ending l, sl_number = n\<rparr> # split_from (Suc n) (raw_of (m # ls))"
    using canonical_head [of m ls] by (subst raw_of_simps(2), intro split_unit) auto
  then show ?case using 3 by (simp add: content_def del: raw_of_simps)
qed

lemma canonical_cons:
  "canonical (l # ls) \<longleftrightarrow> line_ok l \<and> canonical ls \<and>
     (ls \<noteq> [] \<longrightarrow> sl_ending l \<noteq> [] \<and>
        \<not> (sl_ending l = [13] \<and> sl_text (hd ls) = [] \<and> sl_ending (hd ls) = [10]))"
  by (cases ls) auto

lemma canonical_split: "canonical (split_from n raw)"
proof (induction n raw rule: split_from.induct)
  case (1 n raw)
  show ?case
  proof (cases "raw = []")
    case False
    let ?t = "takeWhile (\<lambda>c. \<not> breaks_line c) raw" and ?r = "dropWhile (\<lambda>c. \<not> breaks_line c) raw"
    let ?later = "drop (length (ending_of ?r)) ?r"
    have ih: "canonical (split_from (Suc n) ?later)" using 1 False by simp
    have raw: "?t @ ending_of ?r @ ?later = raw" by (simp add: ending_prefix)
    have line: "line_ok \<lparr>sl_text = ?t, sl_ending = ending_of ?r, sl_number = n\<rparr>"
    proof (cases "?r = []")
      case True
      then have "?t = raw" using takeWhile_dropWhile_id [of "\<lambda>c. \<not> breaks_line c" raw] by simp
      then show ?thesis unfolding line_ok_def using False text_unbroken [of raw]
        by (simp only: True source_line.simps) simp
    next
      case more: False
      show ?thesis unfolding line_ok_def source_line.simps
        using ending_value [of ?r] rest_ending [OF more] text_unbroken [of raw] by (intro conjI disjI2)
    qed
    have eq: "split_from n raw =
        \<lparr>sl_text = ?t, sl_ending = ending_of ?r, sl_number = n\<rparr> # split_from (Suc n) ?later"
      by (subst split_from.simps) (simp add: False Let_def)
    show ?thesis
    proof (cases "split_from (Suc n) ?later")
      case Nil
      then show ?thesis using line by (simp add: eq)
    next
      case (Cons m ls)
      then have later: "?later \<noteq> []" by (auto simp: split_from.simps)
      then have ending: "ending_of ?r \<noteq> []" by (metis drop_Nil rest_ending)
      have cr: "hd ?later \<noteq> 10" if "ending_of ?r = [13]"
        using ending_is_cr [OF that] later unfolding that by (elim exE conjE) simp
      have "raw_of (m # ls) = ?later" unfolding Cons [symmetric] by (rule raw_of_split_from)
      then have "sl_text m = [] \<and> sl_ending m = [10] \<longleftrightarrow> hd ?later = 10"
        using canonical_head [of m ls] ih Cons by simp
      then show ?thesis using line ending cr ih by (auto simp: eq Cons)
    qed
  qed (simp add: split_from.simps)
qed

lemma canonical_line: "canonical ls \<Longrightarrow> l \<in> set ls \<Longrightarrow> line_ok l"
  by (induction ls rule: canonical.induct) auto

lemma canonical_content: "map content ls = map content ms \<Longrightarrow> canonical ls \<longleftrightarrow> canonical ms"
proof (induction ls arbitrary: ms)
  case (Cons l ls)
  then obtain m ns where "ms = m # ns" "content l = content m" "map content ls = map content ns" by (cases ms) auto
  moreover from this Cons.IH have "canonical ls \<longleftrightarrow> canonical ns" by blast
  moreover have "line_ok l \<longleftrightarrow> line_ok m" using \<open>content l = content m\<close> by (simp add: content_def line_ok_def)
  moreover have "ls \<noteq> [] \<Longrightarrow> content (hd ls) = content (hd ns)" and "ls = [] \<longleftrightarrow> ns = []"
    using \<open>map content ls = map content ns\<close> by (cases ls; cases ns; simp)+
  ultimately show ?case using \<open>content l = content m\<close>
    by (cases "ls = []") (simp_all add: canonical_cons content_def)
qed simp

lemma raw_of_content: "map content ls = map content ms \<Longrightarrow> raw_of ls = raw_of ms"
proof -
  have "raw_of xs = concat (map (\<lambda>(t, e). t @ e) (map content xs))" for xs
    by (simp add: raw_of_def content_def comp_def)
  then show "map content ls = map content ms \<Longrightarrow> raw_of ls = raw_of ms" by presburger
qed

section \<open>Joining the chosen lines\<close>

definition joined :: "source_line list \<Rightarrow> jstr" where
  "joined ls = join_lines (map sl_text ls) (fill_endings (preferred_ending ls) ls)"

text \<open>What joining makes of the lines: the same texts, with endings that keep them apart.\<close>

fun repaired :: "jstr \<Rightarrow> source_line list \<Rightarrow> source_line list" where
  "repaired pref [] = []"
| "repaired pref [l] = [l]"
| "repaired pref (l # m # ls) =
     (let e = (if sl_ending l \<noteq> [] then sl_ending l else pref);
          me = (if ls = [] \<or> sl_ending m \<noteq> [] then sl_ending m else pref)
      in l\<lparr>sl_ending := if e = [13] \<and> sl_text m = [] \<and> me = [10] then [13, 10] else e\<rparr>
         # repaired pref (m # ls))"

lemma fill_endings_cons:
  "fill_endings p (m # ls) = (if ls = [] \<or> sl_ending m \<noteq> [] then sl_ending m else p) # fill_endings p ls"
  by (cases ls) auto

lemma join_lines_repaired:
  "join_lines (map sl_text ls) (fill_endings p ls) = raw_of (repaired p ls)"
proof (induction p ls rule: repaired.induct)
  case (3 p l m ls)
  then show ?case by (simp add: fill_endings_cons [of p m ls] Let_def)
qed auto

lemma repaired_texts: "map sl_text (repaired p ls) = map sl_text ls"
  by (induction p ls rule: repaired.induct) (auto simp: Let_def)

lemma repaired_hd: "ls \<noteq> [] \<Longrightarrow> repaired p ls = hd (repaired p ls) # tl (repaired p ls)"
  by (cases "(p, ls)" rule: repaired.cases) (auto simp: Let_def)

lemma repaired_canonical:
  assumes "\<forall>l \<in> set ls. line_ok l" "p \<in> {[13], [10], [13, 10]}"
  shows "canonical (repaired p ls)"
  using assms
proof (induction p ls rule: repaired.induct)
  case (3 p l m ls)
  let ?e = "if sl_ending l \<noteq> [] then sl_ending l else p"
  let ?me = "if ls = [] \<or> sl_ending m \<noteq> [] then sl_ending m else p"
  have tl: "canonical (repaired p (m # ls))" using 3 by simp
  have head: "sl_text (hd (repaired p (m # ls))) = sl_text m"
    "sl_ending (hd (repaired p (m # ls))) = [10] \<Longrightarrow> ?me = [10]"
    by (cases ls; simp add: Let_def split: if_splits)+
  have e: "?e \<in> {[13], [10], [13, 10]}" using 3(2,3) by (auto simp: line_ok_def)
  then have "line_ok (l\<lparr>sl_ending := if ?e = [13] \<and> sl_text m = [] \<and> ?me = [10] then [13, 10] else ?e\<rparr>)"
    using 3(2) by (auto simp: line_ok_def)
  then show ?case using tl head e by (auto simp: Let_def canonical_cons)
qed auto

lemma repaired_same: "canonical ls \<Longrightarrow> repaired p ls = ls"
  by (induction p ls rule: repaired.induct) (auto simp: Let_def canonical_cons)

lemma preferred_ok: "\<forall>l \<in> set ls. line_ok l \<Longrightarrow> preferred_ending ls \<in> {[13], [10], [13, 10]}"
proof (cases "List.find (\<lambda>l. sl_ending l \<noteq> []) ls")
  case (Some l)
  moreover assume "\<forall>l \<in> set ls. line_ok l"
  moreover have "l \<in> set ls" "sl_ending l \<noteq> []" using Some by (auto simp: find_Some_iff)
  ultimately have "line_ok l" by blast
  then show ?thesis using Some \<open>sl_ending l \<noteq> []\<close> by (auto simp: preferred_ending_def line_ok_def)
qed (simp add: preferred_ending_def)

lemma joined_canonical: "canonical ls \<Longrightarrow> joined ls = raw_of ls"
  by (simp add: joined_def join_lines_repaired repaired_same)

section \<open>Rows keep both sides\<close>

definition rows_of :: "(diff_row \<Rightarrow> source_line option) \<Rightarrow> diff_row list \<Rightarrow> source_line list" where
  "rows_of side rows = concat (map (\<lambda>r. case side r of Some l \<Rightarrow> [l] | None \<Rightarrow> []) rows)"

lemma rows_of_simps [simp]:
  "rows_of side [] = []"
  "rows_of side (r # rs) = (case side r of Some l \<Rightarrow> [l] | None \<Rightarrow> []) @ rows_of side rs"
  "rows_of side (rs @ rs') = rows_of side rs @ rows_of side rs'"
  by (simp_all add: rows_of_def)

text \<open>A row is a line row; unless it is marked changed, both sides are there and equal.\<close>

definition row_ok :: "diff_row \<Rightarrow> bool" where
  "row_ok r \<longleftrightarrow> dr_kind r = Line_Row \<and>
     (\<not> dr_changed r \<longrightarrow> (\<exists>x y. dr_local r = Some x \<and> dr_disk r = Some y \<and> content x = content y))"

lemma line_row_ok: "row_ok (line_row i a b)"
  by (auto simp: row_ok_def line_row_def line_equals_def content_def split: option.splits)

lemma at_simps [simp]:
  "at [] i = None" "at (x # xs) 0 = Some x" "at (x # xs) (Suc i) = at xs i"
  by (simp_all add: at_def)

lemma at_list: "length xs \<le> n \<Longrightarrow> concat (map (\<lambda>i. case at xs i of Some l \<Rightarrow> [l] | None \<Rightarrow> []) [0..<n]) = xs"
proof (induction xs arbitrary: n)
  case (Cons x xs)
  then obtain k where "n = Suc k" "length xs \<le> k" by (cases n) auto
  then show ?case using Cons.IH by (simp add: upt_conv_Cons map_Suc_upt [symmetric] comp_def del: upt_Suc)
qed simp

lemma append_rows_sides:
  "rows_of dr_local (append_rows a b rows) = rows_of dr_local rows @ a"
  "rows_of dr_disk (append_rows a b rows) = rows_of dr_disk rows @ b"
  using at_list [of a "max (length a) (length b)"] at_list [of b "max (length a) (length b)"]
  by (simp_all add: append_rows_def rows_of_def line_row_def comp_def)

lemma append_rows_ok: "(\<forall>r \<in> set (append_rows a b rows). row_ok r) \<longleftrightarrow> (\<forall>r \<in> set rows. row_ok r)"
  by (auto simp: append_rows_def line_row_ok)

lemma script_rows_ok: "\<forall>r \<in> set rows. row_ok r \<Longrightarrow> \<forall>r \<in> set (script_rows cs a b rows). row_ok r"
proof (induction cs a b rows rule: script_rows.induct)
  case (2 c cs a b rows)
  show ?case
  proof (cases "is_edit c")
    case False
    then show ?thesis using 2(1) 2(3) by (simp add: append_rows_ok)
  next
    case True
    then show ?thesis using 2(2) [OF _ refl refl refl refl] 2(3)
      by (simp add: append_rows_ok Let_def del: split_paired_All)
  qed
qed simp

lemma common_prefix_le: "common_prefix a b \<le> length a \<and> common_prefix a b \<le> length b"
  by (induction a b rule: common_prefix.induct) auto

lemma three_parts: "p + s \<le> length xs \<Longrightarrow>
  take p xs @ take (length xs - s - p) (drop p xs) @ drop (length xs - s) xs = xs"
proof -
  assume le: "p + s \<le> length xs"
  have "drop (length xs - s) xs = drop (length xs - s - p) (drop p xs)" using le by simp
  then show ?thesis by (metis append_take_drop_id)
qed

lemma positional_rows_parts:
  obtains p s where "p + s \<le> length a" "p + s \<le> length b"
    "positional_rows a b =
     (let rows = append_rows (take (length a - s - p) (drop p a)) (take (length b - s - p) (drop p b))
                   (append_rows (take p a) (take p b) [])
      in if 0 < s then append_rows (drop (length a - s) a) (drop (length b - s) b) rows else rows)"
proof
  let ?p = "common_prefix a b"
  let ?s = "common_prefix (rev (drop ?p a)) (rev (drop ?p b))"
  have "?p \<le> length a \<and> ?p \<le> length b" "?s \<le> length a - ?p \<and> ?s \<le> length b - ?p"
    using common_prefix_le [of a b] common_prefix_le [of "rev (drop ?p a)" "rev (drop ?p b)"] by simp_all
  then show "?p + ?s \<le> length a" "?p + ?s \<le> length b" by linarith+
qed (simp only: positional_rows_def Let_def)

lemma positional_rows_ok: "\<forall>r \<in> set (positional_rows a b). row_ok r"
proof (rule positional_rows_parts [of a b])
  fix p s
  assume eq: "positional_rows a b =
     (let rows = append_rows (take (length a - s - p) (drop p a)) (take (length b - s - p) (drop p b))
                   (append_rows (take p a) (take p b) [])
      in if 0 < s then append_rows (drop (length a - s) a) (drop (length b - s) b) rows else rows)"
  show ?thesis by (cases "s = 0") (simp_all add: eq Let_def append_rows_ok)
qed

lemma positional_rows_sides:
  "rows_of dr_local (positional_rows a b) = a \<and> rows_of dr_disk (positional_rows a b) = b"
proof (rule positional_rows_parts [of a b])
  fix p s
  assume le: "p + s \<le> length a" "p + s \<le> length b" and eq: "positional_rows a b =
     (let rows = append_rows (take (length a - s - p) (drop p a)) (take (length b - s - p) (drop p b))
                   (append_rows (take p a) (take p b) [])
      in if 0 < s then append_rows (drop (length a - s) a) (drop (length b - s) b) rows else rows)"
  show ?thesis
    using three_parts [OF le(1)] three_parts [OF le(2)]
    by (cases "s = 0") (simp_all add: eq Let_def append_rows_sides)
qed

text \<open>The number of lines of either side that the changes walk over.\<close>

definition kept_count :: "diff_change list \<Rightarrow> nat" where
  "kept_count cs = sum_list (map (\<lambda>c. if is_edit c then 0 else dc_count c) cs)"

definition script_covers :: "diff_change list \<Rightarrow> source_line list \<Rightarrow> source_line list \<Rightarrow> bool" where
  "script_covers cs a b \<longleftrightarrow>
     length a \<le> kept_count cs + removed_count (filter is_edit cs) \<and>
     length b \<le> kept_count cs + added_count (filter is_edit cs)"

lemma covers_kept:
  "\<not> is_edit c \<Longrightarrow> script_covers (c # cs) a b \<Longrightarrow> script_covers cs (drop (dc_count c) a) (drop (dc_count c) b)"
  by (auto simp: script_covers_def kept_count_def)

lemma covers_run:
  assumes "script_covers cs a b"
  defines "run \<equiv> takeWhile is_edit cs" and "later \<equiv> dropWhile is_edit cs"
  shows "script_covers later (drop (removed_count run) a) (drop (added_count run) b)"
proof -
  have "cs = run @ later" by (simp add: run_def later_def)
  moreover have "filter is_edit run = run" unfolding run_def by (induction cs) auto
  moreover have "kept_count run = 0" unfolding run_def by (induction cs) (auto simp: kept_count_def)
  ultimately have
    "kept_count cs = kept_count later"
    "removed_count (filter is_edit cs) = removed_count run + removed_count (filter is_edit later)"
    "added_count (filter is_edit cs) = added_count run + added_count (filter is_edit later)"
    by (simp_all add: kept_count_def removed_count_def added_count_def)
  then show ?thesis using assms(1) unfolding script_covers_def by (simp only: length_drop) linarith
qed

lemma script_rows_sides:
  assumes "script_covers cs a b"
  shows "rows_of dr_local (script_rows cs a b rows) = rows_of dr_local rows @ a \<and>
         rows_of dr_disk (script_rows cs a b rows) = rows_of dr_disk rows @ b"
  using assms
proof (induction cs a b rows rule: script_rows.induct)
  case (1 a b rows)
  then show ?case by (simp add: script_covers_def kept_count_def removed_count_def added_count_def)
next
  case (2 c cs a b rows)
  show ?case
  proof (cases "is_edit c")
    case False
    then show ?thesis using 2(1) covers_kept [OF False 2(3)] by (simp add: append_rows_sides)
  next
    case True
    have "takeWhile is_edit (c # cs) = c # takeWhile is_edit cs"
      "dropWhile is_edit (c # cs) = dropWhile is_edit cs" using True by simp_all
    then show ?thesis using 2(2) [OF _ refl refl refl refl] covers_run [OF 2(3)] True
      by (simp add: append_rows_sides Let_def)
  qed
qed

section \<open>Choosing\<close>

definition tool_covers :: "diff_tool \<Rightarrow> bool" where
  "tool_covers tool \<longleftrightarrow> (\<forall>a b cs. tool a b = Some cs \<longrightarrow> script_covers cs a b)"

fun side_of :: "diff_side \<Rightarrow> diff_row \<Rightarrow> source_line option" where
  "side_of Local r = dr_local r"
| "side_of Disk r = dr_disk r"

definition chosen_side :: "diff_side \<Rightarrow> diff_choices \<Rightarrow> diff_row list \<Rightarrow> bool" where
  "chosen_side side choices rows \<longleftrightarrow>
     (\<forall>r \<in> set rows. dr_changed r \<longrightarrow> map_of choices (dr_id r) = Some side)"

lemma chosen_side_simps [simp]:
  "chosen_side side choices []"
  "chosen_side side choices (r # rs) \<longleftrightarrow>
     (dr_changed r \<longrightarrow> map_of choices (dr_id r) = Some side) \<and> chosen_side side choices rs"
  by (auto simp: chosen_side_def)

lemma chosen_lines_simps [simp]:
  "chosen_lines choices [] = []"
  "chosen_lines choices (r # rs) =
     (if dr_kind r = Bom_Row then [] else case selected choices r of Some l \<Rightarrow> [l] | None \<Rightarrow> [])
     @ chosen_lines choices rs"
  by (simp_all add: chosen_lines_def)

lemma aligned_rows:
  assumes "\<forall>cs. changes = Some cs \<longrightarrow> script_covers cs a b"
  shows "rows_of dr_local (align_rows a b changes) = a" "rows_of dr_disk (align_rows a b changes) = b"
    "\<forall>r \<in> set (align_rows a b changes). row_ok r"
  using assms script_rows_sides [of _ a b "[]"] script_rows_ok [of "[]" _ a b]
  by (cases changes; simp add: align_rows_def positional_rows_sides positional_rows_ok)+

lemma selected_side:
  "dr_changed r \<Longrightarrow> map_of choices (dr_id r) = Some side \<Longrightarrow> selected choices r = side_of side r"
  by (cases side) (simp_all add: selected_def)

lemma chosen_one_side:
  assumes "\<forall>r \<in> set rows. row_ok r" "chosen_side side choices rows"
  shows "map content (chosen_lines choices rows) = map content (rows_of (side_of side) rows)"
  using assms
proof (induction rows)
  case (Cons r rows)
  show ?case
  proof (cases "dr_changed r")
    case True
    then show ?thesis using Cons selected_side [of r choices side]
      by (cases "side_of side r") (simp_all add: row_ok_def)
  next
    case False
    with Cons.prems obtain x y where "dr_local r = Some x" "dr_disk r = Some y" "content x = content y"
      by (auto simp: row_ok_def)
    then show ?thesis using Cons False by (cases side) (simp_all add: row_ok_def selected_def)
  qed
qed simp

lemma chosen_bom_rows: "\<forall>r \<in> set rows. row_ok r \<Longrightarrow> chosen_bom choices rows = []"
  "\<forall>r \<in> set rows. row_ok r \<Longrightarrow> chosen_bom choices (bom_row lb db # rows) =
     (case selected choices (bom_row lb db) of Some l \<Rightarrow> sl_text l | None \<Rightarrow> [])"
proof -
  have keep: "fold (\<lambda>r bom. if dr_kind r = Bom_Row
      then (case selected choices r of Some l \<Rightarrow> sl_text l | None \<Rightarrow> []) else bom) rows b = b"
    if "\<forall>r \<in> set rows. row_ok r" for b
    using that by (induction rows) (auto simp: row_ok_def)
  then show "\<forall>r \<in> set rows. row_ok r \<Longrightarrow> chosen_bom choices rows = []"
    "\<forall>r \<in> set rows. row_ok r \<Longrightarrow> chosen_bom choices (bom_row lb db # rows) =
     (case selected choices (bom_row lb db) of Some l \<Rightarrow> sl_text l | None \<Rightarrow> [])"
    by (simp_all add: chosen_bom_def, simp add: bom_row_def)
qed

lemma bom_text:
  "chosen_side side choices [bom_row lb db] \<Longrightarrow>
     (case selected choices (bom_row lb db) of Some l \<Rightarrow> sl_text l | None \<Rightarrow> []) =
     (if (case side of Local \<Rightarrow> lb | Disk \<Rightarrow> db) then [65279] else [])"
  by (cases lb; cases db; cases side) (simp_all add: bom_row_def bom_line_def selected_def)

lemma resolved_chosen: "chosen_side side choices (lc_rows c) \<Longrightarrow> unresolved_rows c choices = 0"
  by (auto simp: chosen_side_def unresolved_rows_def map_has_def filter_empty_conv)

lemma joined_content: "map content ls = map content ms \<Longrightarrow> canonical ms \<Longrightarrow> joined ls = raw_of ms"
  using canonical_content joined_canonical raw_of_content by metis

definition document_lines :: "jstr \<Rightarrow> source_line list" where
  "document_lines raw = split_lines (without_bom raw)"

lemma raw_of_document: "raw_of (document_lines raw) = without_bom raw"
  by (simp add: document_lines_def split_lines_def)

lemma canonical_document: "canonical (document_lines raw)"
  by (simp add: document_lines_def split_lines_def canonical_split)

lemma compare_rows:
  assumes "tool_covers tool"
  obtains rows where
    "lc_rows (compare_lines tool l d simplified) =
       (if has_bom l \<or> has_bom d then bom_row (has_bom l) (has_bom d) # rows else rows)"
    "rows_of dr_local rows = document_lines l" "rows_of dr_disk rows = document_lines d"
    "\<forall>r \<in> set rows. row_ok r"
proof
  let ?changes = "if simplified then None else tool (document_lines l) (document_lines d)"
  have "\<forall>cs. ?changes = Some cs \<longrightarrow> script_covers cs (document_lines l) (document_lines d)"
    using assms by (simp add: tool_covers_def)
  note aligned_rows [OF this]
  then show "rows_of dr_local (align_rows (document_lines l) (document_lines d) ?changes) = document_lines l"
    "rows_of dr_disk (align_rows (document_lines l) (document_lines d) ?changes) = document_lines d"
    "\<forall>r \<in> set (align_rows (document_lines l) (document_lines d) ?changes). row_ok r" by blast+
qed (simp add: compare_lines_def document_lines_def Let_def)

lemma combine_resolved:
  "unresolved_rows c choices = 0 \<Longrightarrow>
     combine_lines c choices = Inr (chosen_bom choices (lc_rows c) @ joined (chosen_lines choices (lc_rows c)))"
  by (simp add: combine_lines_def joined_def Let_def)

text \<open>C26. Choosing the same side for every changed row gives that side's document back, byte for byte:
  its byte order mark, every line and every line ending. This holds for the positional alignment as
  it is, and for an edit script that walks over both documents.\<close>

theorem one_side_rebuilds:
  assumes tool: "tool_covers tool"
    and all: "chosen_side side choices (lc_rows (compare_lines tool l d simplified))"
  shows "combine_lines (compare_lines tool l d simplified) choices =
           Inr (case side of Local \<Rightarrow> l | Disk \<Rightarrow> d)"
proof (rule compare_rows [OF tool, where l = l and d = d and simplified = simplified])
  fix rows
  let ?c = "compare_lines tool l d simplified" and ?raw = "case side of Local \<Rightarrow> l | Disk \<Rightarrow> d"
  assume eq: "lc_rows ?c = (if has_bom l \<or> has_bom d then bom_row (has_bom l) (has_bom d) # rows else rows)"
    and sides: "rows_of dr_local rows = document_lines l" "rows_of dr_disk rows = document_lines d"
    and ok: "\<forall>r \<in> set rows. row_ok r"
  have rest: "chosen_side side choices rows" using all by (auto simp: eq split: if_splits)
  have "rows_of (side_of side) rows = document_lines ?raw" using sides by (cases side) (simp_all add: rows_of_def)
  then have "joined (chosen_lines choices rows) = without_bom ?raw"
    using joined_content [OF chosen_one_side [OF ok rest]] canonical_document raw_of_document by simp
  moreover have "chosen_lines choices (lc_rows ?c) = chosen_lines choices rows"
    by (simp add: eq bom_row_def)
  moreover have "chosen_bom choices (lc_rows ?c) = (if has_bom ?raw then [65279] else [])"
  proof (cases "has_bom l \<or> has_bom d")
    case True
    then have "chosen_side side choices [bom_row (has_bom l) (has_bom d)]" using all by (simp add: eq)
    from bom_text [OF this] show ?thesis using True chosen_bom_rows(2) [OF ok]
      by (cases side) (simp_all add: eq)
  next
    case False
    then show ?thesis using chosen_bom_rows(1) [OF ok] by (cases side) (simp_all add: eq)
  qed
  moreover have "(if has_bom ?raw then [65279] else []) @ without_bom ?raw = ?raw"
    by (auto simp: has_bom_def without_bom_def prefix_def)
  ultimately show ?thesis by (simp add: combine_resolved [OF resolved_chosen [OF all]])
qed

text \<open>A pair of documents with different byte order marks and endings, compared by position.\<close>

lemma one_side_rebuilds_witness:
  "tool_covers (\<lambda>_ _. None) \<and>
   combine_lines (compare_lines (\<lambda>_ _. None) [65279, 97, 13, 98] [97, 13, 10, 98, 10] False)
     [(-1, Disk), (0, Disk), (1, Disk)] = Inr [97, 13, 10, 98, 10]"
proof -
  have tool: "tool_covers (\<lambda>_ _. None)" by (simp add: tool_covers_def)
  have "chosen_side Disk [(-1, Disk), (0, Disk), (1, Disk)]
    (lc_rows (compare_lines (\<lambda>_ _. None) [65279, 97, 13, 98] [97, 13, 10, 98, 10] False))"
    by code_simp
  from one_side_rebuilds [OF tool this] tool show ?thesis by simp
qed

lemma chosen_lines_ok:
  assumes "\<forall>r \<in> set rows. row_ok r"
    and "\<forall>l \<in> set (rows_of dr_local rows). line_ok l" "\<forall>l \<in> set (rows_of dr_disk rows). line_ok l"
  shows "\<forall>l \<in> set (chosen_lines choices rows). line_ok l"
  using assms
  by (induction rows) (auto simp: selected_def split: option.splits diff_side.splits if_splits)

lemma joined_splits:
  assumes "\<forall>l \<in> set ls. line_ok l"
  shows "map sl_text (split_lines (joined ls)) = map sl_text ls"
proof -
  have can: "canonical (repaired (preferred_ending ls) ls)"
    using repaired_canonical [OF assms preferred_ok [OF assms]] .
  have texts: "map sl_text xs = map fst (map content xs)" for xs by (simp add: content_def)
  show ?thesis
    using arg_cong [OF content_split_raw [OF can, of 1], of "map fst"] repaired_texts [of "preferred_ending ls" ls]
    unfolding texts [symmetric] by (simp add: joined_def join_lines_repaired split_lines_def)
qed

text \<open>Whatever side is chosen row by row, the combined document reads back as exactly the chosen
  lines: no two of them run together, not even a line ending in CR before an empty line ending in
  LF, and none is split.\<close>

theorem mixed_choices_keep_lines:
  assumes tool: "tool_covers tool"
    and resolved: "unresolved_rows (compare_lines tool l d simplified) choices = 0"
  shows "\<exists>body. combine_lines (compare_lines tool l d simplified) choices =
             Inr (chosen_bom choices (lc_rows (compare_lines tool l d simplified)) @ body) \<and>
           map sl_text (split_lines body) =
             map sl_text (chosen_lines choices (lc_rows (compare_lines tool l d simplified)))"
proof (rule compare_rows [OF tool, where l = l and d = d and simplified = simplified])
  fix rows
  let ?c = "compare_lines tool l d simplified"
  assume eq: "lc_rows ?c = (if has_bom l \<or> has_bom d then bom_row (has_bom l) (has_bom d) # rows else rows)"
    and "rows_of dr_local rows = document_lines l" "rows_of dr_disk rows = document_lines d"
    and ok: "\<forall>r \<in> set rows. row_ok r"
  then have "\<forall>x \<in> set (chosen_lines choices rows). line_ok x"
    using chosen_lines_ok [OF ok] canonical_document canonical_line by metis
  moreover have "chosen_lines choices (lc_rows ?c) = chosen_lines choices rows" by (simp add: eq bom_row_def)
  ultimately have "map sl_text (split_lines (joined (chosen_lines choices (lc_rows ?c)))) =
      map sl_text (chosen_lines choices (lc_rows ?c))" using joined_splits by simp
  then show ?thesis using combine_resolved [OF resolved] by blast
qed

text \<open>The join the code repairs: a line ending in CR from one side, an empty LF line from the other.\<close>

lemma mixed_choices_keep_lines_witness:
  "tool_covers (\<lambda>_ _. None) \<and>
   unresolved_rows (compare_lines (\<lambda>_ _. None) [97, 13, 98] [120, 10, 10] False) [(0, Local), (1, Disk)] = 0 \<and>
   map sl_text (chosen_lines [(0, Local), (1, Disk)]
     (lc_rows (compare_lines (\<lambda>_ _. None) [97, 13, 98] [120, 10, 10] False))) = [[97], []] \<and>
   (\<exists>body. combine_lines (compare_lines (\<lambda>_ _. None) [97, 13, 98] [120, 10, 10] False)
       [(0, Local), (1, Disk)] = Inr body \<and> map sl_text (split_lines body) = [[97], []])"
proof -
  have tool: "tool_covers (\<lambda>_ _. None)" by (simp add: tool_covers_def)
  have res: "unresolved_rows (compare_lines (\<lambda>_ _. None) [97, 13, 98] [120, 10, 10] False) [(0, Local), (1, Disk)] = 0"
    and ls: "map sl_text (chosen_lines [(0, Local), (1, Disk)]
     (lc_rows (compare_lines (\<lambda>_ _. None) [97, 13, 98] [120, 10, 10] False))) = [[97], []]"
    and bom: "chosen_bom [(0, Local), (1, Disk)]
     (lc_rows (compare_lines (\<lambda>_ _. None) [97, 13, 98] [120, 10, 10] False)) = []"
    by code_simp+
  from mixed_choices_keep_lines [OF tool res] tool res ls show ?thesis by (simp add: bom)
qed

section \<open>Blocks cover the changed rows\<close>

definition blocks_ok :: "nat \<Rightarrow> nat \<Rightarrow> nat \<Rightarrow> (nat \<times> nat) list \<Rightarrow> bool" where
  "blocks_ok len ctx i bs \<longleftrightarrow>
     sorted_wrt (\<lambda>b c. snd b < fst c) bs \<and>
     (\<forall>b \<in> set bs. fst b < snd b \<and> fst b \<le> i - ctx \<and> snd b \<le> min len (i + ctx))"

definition covered :: "(nat \<times> nat) list \<Rightarrow> nat \<Rightarrow> nat \<Rightarrow> bool" where
  "covered bs lo hi \<longleftrightarrow> (\<exists>b \<in> set bs. fst b \<le> lo \<and> hi \<le> snd b)"

lemma blocks_ok_later: "blocks_ok len ctx i bs \<Longrightarrow> blocks_ok len ctx (Suc i) bs"
  by (force simp: blocks_ok_def)

lemma add_block_ok:
  assumes "blocks_ok len ctx i bs" "i < len"
  shows "blocks_ok len ctx (Suc i) (add_block len ctx i bs)"
proof (cases bs rule: rev_cases)
  case Nil
  then show ?thesis using assms(2) by (auto simp: add_block_def blocks_ok_def Let_def)
next
  case (snoc cs b)
  have "\<forall>c \<in> set (cs @ [b]). fst c \<le> Suc i - ctx \<and> snd c \<le> min len (Suc i + ctx)"
    using blocks_ok_later [OF assms(1)] snoc by (simp add: blocks_ok_def)
  moreover have "snd c < fst b" if "c \<in> set cs" for c
    using assms(1) snoc that by (simp add: blocks_ok_def sorted_wrt_append)
  moreover have "sorted_wrt (\<lambda>b c. snd b < fst c) cs" "fst b < snd b" "\<forall>c \<in> set cs. fst c < snd c"
    "fst b \<le> i - ctx" "snd b \<le> i + ctx"
    using assms(1) snoc by (auto simp: blocks_ok_def sorted_wrt_append)
  ultimately show ?thesis using assms(2) snoc
    by (fastforce simp: add_block_def blocks_ok_def Let_def sorted_wrt_append)
qed

lemma add_block_covers:
  assumes "blocks_ok len ctx i bs" "i < len"
  shows "covered (add_block len ctx i bs) (i - ctx) (min len (i + ctx + 1))"
    "covered bs lo hi \<Longrightarrow> covered (add_block len ctx i bs) lo hi"
  using assms
  by (cases bs rule: rev_cases; auto simp: add_block_def blocks_ok_def covered_def Let_def)+

lemma blocks_fold:
  fixes ctx :: nat and ch :: "nat \<Rightarrow> bool"
  assumes "n \<le> len"
  defines "bs \<equiv> fold (\<lambda>i blocks. if ch i then add_block len ctx i blocks else blocks) [0..<n] []"
  shows "blocks_ok len ctx n bs \<and> (\<forall>i < n. ch i \<longrightarrow> covered bs (i - ctx) (min len (i + ctx + 1)))"
  using assms(1) unfolding bs_def
proof (induction n)
  case (Suc n)
  then show ?case using add_block_ok add_block_covers blocks_ok_later
    by (auto simp: less_Suc_eq)
qed (simp add: blocks_ok_def)

text \<open>The blocks shown for a comparison are in order, do not touch one another, stay inside the
  rows, and every changed row lies in one of them together with its lines of context.\<close>

theorem blocks_cover_changes:
  "sorted_wrt (\<lambda>b c. snd b < fst c) (comparison_blocks c ctx) \<and>
   (\<forall>b \<in> set (comparison_blocks c ctx). fst b < snd b \<and> snd b \<le> length (lc_rows c)) \<and>
   (\<forall>i < length (lc_rows c). dr_changed (lc_rows c ! i) \<longrightarrow>
      (\<exists>b \<in> set (comparison_blocks c ctx).
         fst b \<le> i - ctx \<and> min (length (lc_rows c)) (i + ctx + 1) \<le> snd b))"
  using blocks_fold [where n = "length (lc_rows c)" and len = "length (lc_rows c)" and ctx = ctx
    and ch = "\<lambda>i. dr_changed (lc_rows c ! i)"]
  unfolding comparison_blocks_def blocks_ok_def covered_def by simp

end
