(* ===== verification/RuntimeConfig.thy ===== *)
theory RuntimeConfig
  imports JsText
begin

text \<open>
  The policy of runtime configuration changes: session-core/runtime-config-policy.ts with the patch of
  runtimes/types.ts. Patches that are merged in their order form a monoid, so what a sequence of
  changes amounts to is the library's \<open>sum_list\<close>.
\<close>

section \<open>Patches\<close>

text \<open>\<open>ExternalRuntimeConfigPatch\<close>: model, permission mode and reasoning effort, each undefined or a string.\<close>

datatype config_patch =
  Config_Patch (cp_model: "jstr option") (cp_permission: "jstr option") (cp_effort: "jstr option")

datatype config_key = Key_Model | Key_Permission | Key_Effort

fun patch_get :: "config_patch \<Rightarrow> config_key \<Rightarrow> jstr option" where
  "patch_get p Key_Model = cp_model p"
| "patch_get p Key_Permission = cp_permission p"
| "patch_get p Key_Effort = cp_effort p"

fun patch_set :: "config_key \<Rightarrow> jstr option \<Rightarrow> config_patch \<Rightarrow> config_patch" where
  "patch_set Key_Model v (Config_Patch m p e) = Config_Patch v p e"
| "patch_set Key_Permission v (Config_Patch m p e) = Config_Patch m v e"
| "patch_set Key_Effort v (Config_Patch m p e) = Config_Patch m p v"

definition patch_keys :: "config_patch \<Rightarrow> config_key list" where
  "patch_keys p = filter (\<lambda>k. patch_get p k \<noteq> None) [Key_Model, Key_Permission, Key_Effort]"

definition override :: "'a option \<Rightarrow> 'a option \<Rightarrow> 'a option" where
  "override base next = (case next of Some v \<Rightarrow> Some v | None \<Rightarrow> base)"

lemma override_simps [simp]: "override b None = b" "override b (Some v) = Some v" "override None n = n"
  by (simp_all add: override_def split: option.split)

definition merge_patches :: "config_patch \<Rightarrow> config_patch \<Rightarrow> config_patch" where
  "merge_patches base next =
     Config_Patch (override (cp_model base) (cp_model next))
       (override (cp_permission base) (cp_permission next))
       (override (cp_effort base) (cp_effort next))"

instantiation config_patch :: monoid_add
begin

definition zero_config_patch :: config_patch where
  "0 = Config_Patch None None None"

definition plus_config_patch :: "config_patch \<Rightarrow> config_patch \<Rightarrow> config_patch" where
  "p + q = merge_patches p q"

instance
proof
  fix p q r :: config_patch
  show "p + q + r = p + (q + r)"
    by (cases "cp_model r"; cases "cp_permission r"; cases "cp_effort r")
      (simp_all add: plus_config_patch_def merge_patches_def)
  show "0 + p = p" and "p + 0 = p"
    by (cases p; simp add: plus_config_patch_def zero_config_patch_def merge_patches_def)+
qed

end

lemma patch_get_plus [simp]: "patch_get (p + q) k = override (patch_get p k) (patch_get q k)"
  by (cases k) (simp_all add: plus_config_patch_def merge_patches_def)

lemma patch_get_zero [simp]: "patch_get 0 k = None"
  by (cases k) (simp_all add: zero_config_patch_def)

lemma patch_eqI: "(\<And>k. patch_get p k = patch_get q k) \<Longrightarrow> p = q"
proof -
  assume "\<And>k. patch_get p k = patch_get q k"
  from this [of Key_Model] this [of Key_Permission] this [of Key_Effort] show "p = q"
    by (cases p; cases q) simp
qed

text \<open>The last value that a sequence of patches gives to a field.\<close>

lemma patch_get_sum:
  "patch_get (sum_list ps) k = fold (\<lambda>p v. override v (patch_get p k)) ps None"
proof (induction ps rule: rev_induct)
  case (snoc p ps)
  then show ?case by simp
qed simp

section \<open>What a snapshotted session accepts\<close>

datatype config_source =
    From_Desktop | From_Im_Sync | From_Cron_Sync | From_Adopt_Sync | From_Runtime_Config
  | From_Message_Snapshot | From_Legacy_Model | From_Legacy_Provider | From_Legacy_Permission
  | From_Legacy_Effort

definition applies_to_snapshot :: "config_source \<Rightarrow> bool \<Rightarrow> bool" where
  "applies_to_snapshot source snapshotted =
     (if \<not> snapshotted then True
      else case source of
          From_Desktop \<Rightarrow> True | From_Runtime_Config \<Rightarrow> True | From_Message_Snapshot \<Rightarrow> True
        | From_Adopt_Sync \<Rightarrow> True | _ \<Rightarrow> False)"

definition filter_patch :: "config_patch \<Rightarrow> config_source \<Rightarrow> bool \<Rightarrow> config_patch \<times> config_key list" where
  "filter_patch patch source snapshotted =
     fold (\<lambda>k (next, skipped).
             if applies_to_snapshot source snapshotted then (patch_set k (patch_get patch k) next, skipped)
             else (next, skipped @ [k]))
       (patch_keys patch) (0, [])"

datatype apply_mode = Next_Turn_State | Live_Session_Rpc | Restart_When_Idle | Unsupported_Mode

datatype runtime_kind = Builtin | Dsh | Claude_Code | Codex

record config_capabilities =
  cc_model :: apply_mode
  cc_permission :: apply_mode
  cc_effort :: apply_mode

definition same_mode :: "apply_mode \<Rightarrow> config_capabilities" where
  "same_mode m = \<lparr>cc_model = m, cc_permission = m, cc_effort = m\<rparr>"

definition default_capabilities :: "runtime_kind \<Rightarrow> config_capabilities" where
  "default_capabilities r =
     (case r of Codex \<Rightarrow> same_mode Next_Turn_State | Claude_Code \<Rightarrow> same_mode Next_Turn_State
      | _ \<Rightarrow> same_mode Restart_When_Idle)"

section \<open>Changes that change nothing\<close>

record desired_config =
  ds_model :: jstr
  ds_live_model :: jstr
  ds_permission :: jstr
  ds_effort :: jstr

definition model_noop :: "jstr \<Rightarrow> jstr \<Rightarrow> jstr \<Rightarrow> bool \<Rightarrow> bool" where
  "model_noop new desired live allow_live \<longleftrightarrow>
     new = desired \<or> (allow_live \<and> truthy_str live \<and> new = live)"

definition or_empty :: "jstr option \<Rightarrow> jstr" where
  "or_empty v = (case v of Some s \<Rightarrow> s | None \<Rightarrow> [])"

fun key_noop :: "config_patch \<Rightarrow> desired_config \<Rightarrow> bool \<Rightarrow> config_key \<Rightarrow> bool" where
  "key_noop patch d allow_live Key_Model =
     model_noop (or_empty (cp_model patch)) (ds_model d) (ds_live_model d) allow_live"
| "key_noop patch d allow_live Key_Permission = (or_empty (cp_permission patch) = ds_permission d)"
| "key_noop patch d allow_live Key_Effort = (or_empty (cp_effort patch) = ds_effort d)"

definition patch_noop :: "config_patch \<Rightarrow> desired_config \<Rightarrow> bool \<Rightarrow> bool" where
  "patch_noop patch d allow_live =
     (let keys = patch_keys patch in if keys = [] then True else list_all (key_noop patch d allow_live) keys)"

datatype session_phase = Ph_Idle | Ph_Starting | Ph_Running | Ph_Error

definition defers_config :: "session_phase \<Rightarrow> nat \<Rightarrow> bool \<Rightarrow> bool \<Rightarrow> bool" where
  "defers_config phase queue_length draining finalizing \<longleftrightarrow>
     phase = Ph_Running \<or> 0 < queue_length \<or> draining \<or> finalizing"

section \<open>What the policy keeps\<close>

lemma patch_keys_iff [simp]: "k \<in> set (patch_keys p) \<longleftrightarrow> patch_get p k \<noteq> None"
  by (cases k) (simp_all add: patch_keys_def)

lemma patch_set_get [simp]: "patch_get (patch_set k v p) l = (if l = k then v else patch_get p l)"
  by (cases k; cases l; cases p) simp_all

text \<open>
  A patch is split between what a session takes and the keys it skips: nothing is lost and nothing is
  changed on the way.
\<close>

lemma filter_patch_splits:
  "applies_to_snapshot source snapshotted \<Longrightarrow> filter_patch patch source snapshotted = (patch, [])"
  "\<not> applies_to_snapshot source snapshotted \<Longrightarrow> filter_patch patch source snapshotted = (0, patch_keys patch)"
proof -
  have take_all: "fold (\<lambda>k (next, skipped). (patch_set k (patch_get patch k) next, skipped)) ks (p, sk) =
      (fold (\<lambda>k. patch_set k (patch_get patch k)) ks p, sk)" for ks p and sk :: "config_key list"
    by (induction ks arbitrary: p) simp_all
  have get: "patch_get (fold (\<lambda>k. patch_set k (patch_get patch k)) ks p) l =
      (if l \<in> set ks then patch_get patch l else patch_get p l)" for ks p l
    by (induction ks arbitrary: p) auto
  have skip: "fold (\<lambda>k (next, skipped). (next, skipped @ [k])) ks (p, sk) = (p, sk @ ks)"
    for ks :: "config_key list" and p :: config_patch and sk
    by (induction ks arbitrary: sk) simp_all
  show "applies_to_snapshot source snapshotted \<Longrightarrow> filter_patch patch source snapshotted = (patch, [])"
    by (auto simp: filter_patch_def take_all get intro!: patch_eqI)
  show "\<not> applies_to_snapshot source snapshotted \<Longrightarrow> filter_patch patch source snapshotted = (0, patch_keys patch)"
    by (simp add: filter_patch_def skip)
qed

text \<open>The configuration that is asked for, as a patch that gives every field.\<close>

definition desired_patch :: "desired_config \<Rightarrow> config_patch" where
  "desired_patch d = Config_Patch (Some (ds_model d)) (Some (ds_permission d)) (Some (ds_effort d))"

text \<open>A patch that is called a no-op, without the live model, leaves the desired configuration as it is.\<close>

lemma patch_noop_iff: "patch_noop patch d False \<longleftrightarrow> desired_patch d + patch = desired_patch d"
proof -
  have "patch_noop patch d False \<longleftrightarrow> (\<forall>k \<in> set (patch_keys patch). key_noop patch d False k)"
    by (cases "patch_keys patch = []") (simp_all only: patch_noop_def Let_def list_all_iff if_True if_False, simp)
  also have "\<dots> \<longleftrightarrow> (\<forall>k. patch_get patch k \<noteq> None \<longrightarrow> key_noop patch d False k)" by (simp add: Ball_def)
  also have "\<dots> \<longleftrightarrow> (\<forall>k. patch_get (desired_patch d + patch) k = patch_get (desired_patch d) k)"
  proof (intro iff_allI)
    fix k
    show "(patch_get patch k \<noteq> None \<longrightarrow> key_noop patch d False k) \<longleftrightarrow>
        patch_get (desired_patch d + patch) k = patch_get (desired_patch d) k"
      by (cases k) (auto simp: desired_patch_def or_empty_def model_noop_def override_def
          plus_config_patch_def merge_patches_def split: option.splits)
  qed
  also have "\<dots> \<longleftrightarrow> desired_patch d + patch = desired_patch d" using patch_eqI by metis
  finally show ?thesis .
qed

end
