(* ===== verification/ExternalQueue.thy ===== *)
theory ExternalQueue
  imports RuntimeConfig SessionTypes
begin

text \<open>
  The operation queue of an external runtime: runtimes/external-session/operation-queue.ts with the
  decisions of runtimes/external-queue-policy.ts. A message operation is an object that the queue, the
  drain and a running dispatch may hold at the same time, so it lives in a store and is named by a
  reference; its promise of dispatch is the result it was first settled with. A configuration
  operation is held by the queue alone. The promises of \<open>chainExternalSend\<close> are a list of sends, each
  waiting for the one before it; what settles between two awaits is a step.
\<close>

section \<open>Decisions\<close>

datatype ext_state = X_Idle | X_Running | X_Error

definition defers_send :: "ext_state \<Rightarrow> nat \<Rightarrow> response_mode \<Rightarrow> bool \<Rightarrow> bool" where
  "defers_send state queue_length mode can_steer =
     (if 0 < queue_length then True
      else if state \<noteq> X_Running then False
      else \<not> (mode = Realtime \<and> can_steer))"

definition can_drain_queue :: "ext_state \<Rightarrow> nat \<Rightarrow> bool" where
  "can_drain_queue state queue_length \<longleftrightarrow> state = X_Idle \<and> 0 < queue_length"

section \<open>Operations\<close>

record ext_send_result =
  sr_queued :: bool
  sr_error :: "jstr option"
  sr_unconfirmed :: "bool option"

definition not_queued :: ext_send_result where
  "not_queued = \<lparr>sr_queued = False, sr_error = None, sr_unconfirmed = None\<rparr>"

datatype input_source = Src_Desktop | Src_Im | Src_Inbox

datatype surface_mode = Chat_Replay | Queue_Started

text \<open>The context of a send; what the queue never looks at is in \<open>xc_other\<close>.\<close>

record send_context =
  xc_session_id :: jstr
  xc_query :: "query_draft option"
  xc_client_request :: "jstr option"
  xc_reply :: "json option"
  xc_request_id :: "jstr option"
  xc_queue_id :: "jstr option"
  xc_owner :: "turn_owner option"
  xc_guard :: "dispatch_guard option"
  xc_other :: jobj

record user_message =
  um_properties :: jobj
  um_query :: "query_draft option"
  um_metadata :: "jobj option"
  um_reply :: "json option"

record user_projection =
  up_message :: user_message
  up_surface :: surface_mode
  up_surfaced :: bool
  up_in_transcript :: bool
  up_persisted :: bool
  up_retracted :: bool

record runtime_config =
  rc_model :: "jstr option"
  rc_provider :: "json option"
  rc_permission :: "jstr option"
  rc_effort :: "jstr option"

record ext_message =
  em_order :: nat
  em_mode :: delivery_mode
  em_source :: "input_source option"
  em_queue_id :: jstr
  em_text :: jstr
  em_images :: "json list option"
  em_context :: send_context
  em_config :: runtime_config
  em_projection :: user_projection
  em_accepted :: "ext_send_result option"
  em_force :: bool

record config_op =
  co_order :: nat
  co_id :: jstr
  co_patch :: config_patch
  co_source :: config_source

datatype ext_item = Message_Item nat | Config_Item config_op

datatype send_status = Send_Waiting | Send_Running | Send_Ended | Send_Settled

record chained_send =
  cs_after :: "nat option"
  cs_generation :: nat
  cs_status :: send_status
  cs_stale :: bool

record ext_queue =
  xq_ops :: "nat \<Rightarrow> ext_message"
  xq_next :: nat
  xq_queue :: "ext_item list"
  xq_flight :: "nat list"
  xq_reserved :: "ext_item option"
  xq_admission_seq :: nat
  xq_queue_seq :: nat
  xq_config_seq :: nat
  xq_user_seq :: nat
  xq_draining :: bool
  xq_tail :: "nat option"
  xq_generation :: nat
  xq_sends :: "chained_send list"
  xq_guard_log :: "nat list"

definition blank_message :: ext_message where
  "blank_message =
     \<lparr>em_order = 0, em_mode = DeliverTurn, em_source = None, em_queue_id = [], em_text = [], em_images = None,
      em_context =
        \<lparr>xc_session_id = [], xc_query = None, xc_client_request = None, xc_reply = None, xc_request_id = None,
         xc_queue_id = None, xc_owner = None, xc_guard = None, xc_other = []\<rparr>,
      em_config = \<lparr>rc_model = None, rc_provider = None, rc_permission = None, rc_effort = None\<rparr>,
      em_projection =
        \<lparr>up_message = \<lparr>um_properties = [], um_query = None, um_metadata = None, um_reply = None\<rparr>,
         up_surface = Chat_Replay, up_surfaced = False, up_in_transcript = False, up_persisted = False,
         up_retracted = False\<rparr>,
      em_accepted = None, em_force = False\<rparr>"

definition empty_ext_queue :: ext_queue where
  "empty_ext_queue =
     \<lparr>xq_ops = (\<lambda>_. blank_message), xq_next = 0, xq_queue = [], xq_flight = [], xq_reserved = None, xq_admission_seq = 0, xq_queue_seq = 0,
      xq_config_seq = 0, xq_user_seq = 0, xq_draining = False, xq_tail = None, xq_generation = 0,
      xq_sends = [], xq_guard_log = []\<rparr>"

definition max_queue :: nat where "max_queue = 50"

text \<open>The operation a reference names.\<close>

definition op_at :: "ext_queue \<Rightarrow> nat \<Rightarrow> ext_message" where
  "op_at s r = xq_ops s r"

definition change_op :: "nat \<Rightarrow> (ext_message \<Rightarrow> ext_message) \<Rightarrow> ext_queue \<Rightarrow> ext_queue" where
  "change_op r f s = s\<lparr>xq_ops := (xq_ops s)(r := f (op_at s r))\<rparr>"

definition change_projection :: "(user_projection \<Rightarrow> user_projection) \<Rightarrow> nat \<Rightarrow> ext_queue \<Rightarrow> ext_queue" where
  "change_projection f r = change_op r (\<lambda>m. m\<lparr>em_projection := f (em_projection m)\<rparr>)"

definition mark_surfaced :: "nat \<Rightarrow> ext_queue \<Rightarrow> ext_queue" where
  "mark_surfaced = change_projection (\<lambda>p. p\<lparr>up_surfaced := True\<rparr>)"

definition mark_in_transcript :: "nat \<Rightarrow> ext_queue \<Rightarrow> ext_queue" where
  "mark_in_transcript = change_projection (\<lambda>p. p\<lparr>up_in_transcript := True\<rparr>)"

definition mark_persisted :: "nat \<Rightarrow> ext_queue \<Rightarrow> ext_queue" where
  "mark_persisted = change_projection (\<lambda>p. p\<lparr>up_persisted := True\<rparr>)"

definition mark_retracted :: "nat \<Rightarrow> ext_queue \<Rightarrow> ext_queue" where
  "mark_retracted = change_projection (\<lambda>p. p\<lparr>up_retracted := True\<rparr>)"

text \<open>A promise keeps the first result it is resolved with.\<close>

definition settle_op :: "nat \<Rightarrow> ext_send_result \<Rightarrow> ext_queue \<Rightarrow> ext_queue" where
  "settle_op r result =
     change_op r (\<lambda>m. m\<lparr>em_accepted := (case em_accepted m of None \<Rightarrow> Some result | Some x \<Rightarrow> Some x)\<rparr>)"

definition guard_calls :: "dispatch_guard option \<Rightarrow> nat list" where
  "guard_calls g = (case g of Some d \<Rightarrow> if dg_cancel d then [dg_id d] else [] | None \<Rightarrow> [])"

text \<open>What every cancellation does to a message: retract it, tell its guard, settle its dispatch.\<close>

definition cancel_op :: "nat \<Rightarrow> ext_queue \<Rightarrow> ext_queue" where
  "cancel_op r s =
     (let s1 = mark_retracted r s;
          s2 = s1\<lparr>xq_guard_log := xq_guard_log s1 @ guard_calls (xc_guard (em_context (op_at s r)))\<rparr>
      in settle_op r not_queued s2)"

section \<open>Reading the queue\<close>

definition is_message :: "ext_item \<Rightarrow> bool" where
  "is_message i = (case i of Message_Item _ \<Rightarrow> True | Config_Item _ \<Rightarrow> False)"

definition message_refs :: "ext_item list \<Rightarrow> nat list" where
  "message_refs is = concat (map (\<lambda>i. case i of Message_Item r \<Rightarrow> [r] | Config_Item _ \<Rightarrow> []) is)"

definition queued_message_count :: "ext_queue \<Rightarrow> nat" where
  "queued_message_count s = length (filter is_message (xq_queue s))"

definition has_queued_config :: "ext_queue \<Rightarrow> bool" where
  "has_queued_config s \<longleftrightarrow> (\<exists>i \<in> set (xq_queue s). \<not> is_message i)"

definition item_order :: "ext_queue \<Rightarrow> ext_item \<Rightarrow> nat" where
  "item_order s i = (case i of Message_Item r \<Rightarrow> em_order (op_at s r) | Config_Item c \<Rightarrow> co_order c)"

definition forced :: "ext_queue \<Rightarrow> ext_item \<Rightarrow> bool" where
  "forced s i = (case i of Message_Item r \<Rightarrow> em_force (op_at s r) | Config_Item _ \<Rightarrow> False)"

definition steerable :: "ext_queue \<Rightarrow> ext_item \<Rightarrow> bool" where
  "steerable s i =
     (case i of Message_Item r \<Rightarrow> em_mode (op_at s r) = DeliverRealtime \<and> \<not> em_force (op_at s r)
      | Config_Item _ \<Rightarrow> False)"

definition should_queue :: "ext_state \<Rightarrow> response_mode option \<Rightarrow> bool \<Rightarrow> ext_queue \<Rightarrow> bool" where
  "should_queue state mode can_steer s \<longleftrightarrow>
     defers_send state (length (xq_queue s)) (case mode of Some m \<Rightarrow> m | None \<Rightarrow> AtTurn) can_steer
     \<or> xq_draining s"

definition can_drain :: "ext_state \<Rightarrow> bool \<Rightarrow> ext_queue \<Rightarrow> bool" where
  "can_drain state can_steer s \<longleftrightarrow>
     (can_drain_queue state (length (xq_queue s))
      \<or> state = X_Running \<and> can_steer \<and> (\<exists>i \<in> set (xq_queue s). steerable s i))
     \<and> \<not> xq_draining s \<and> xq_tail s = None"

text \<open>\<open>[...new Set(xs)]\<close>: the first of equal elements stays.\<close>

definition js_dedup :: "'a list \<Rightarrow> 'a list" where
  "js_dedup xs = rev (remdups (rev xs))"

definition pending_messages :: "ext_queue \<Rightarrow> nat list" where
  "pending_messages s =
     js_dedup (message_refs (xq_queue s)
       @ (case xq_reserved s of Some i \<Rightarrow> message_refs [i] | None \<Rightarrow> []) @ xq_flight s)"

definition pending_projections :: "jstr \<Rightarrow> ext_queue \<Rightarrow> user_message list" where
  "pending_projections session s =
     map (\<lambda>r. up_message (em_projection (op_at s r)))
       (filter (\<lambda>r. xc_session_id (em_context (op_at s r)) = session
          \<and> up_surfaced (em_projection (op_at s r)) \<and> \<not> up_persisted (em_projection (op_at s r))
          \<and> \<not> up_retracted (em_projection (op_at s r))) (xq_flight s))"

definition owned_by :: "turn_owner \<Rightarrow> ext_queue \<Rightarrow> ext_item \<Rightarrow> bool" where
  "owned_by owner s i =
     (case i of Message_Item r \<Rightarrow> xc_owner (em_context (op_at s r)) = Some owner | Config_Item _ \<Rightarrow> False)"

definition has_owned :: "turn_owner \<Rightarrow> ext_queue \<Rightarrow> bool" where
  "has_owned owner s \<longleftrightarrow>
     (\<exists>i \<in> set (xq_queue s). owned_by owner s i)
     \<or> (case xq_reserved s of Some i \<Rightarrow> owned_by owner s i | None \<Rightarrow> False)"

record ext_pill =
  ep_id :: jstr
  ep_preview :: jstr
  ep_mentions :: "json list option"
  ep_context :: "desktop_context option"
  ep_reply :: "json option"

definition ext_pill_of :: "ext_message \<Rightarrow> ext_pill" where
  "ext_pill_of m =
     (let q = xc_query (em_context m) in
      \<lparr>ep_id = em_queue_id m, ep_preview = take 100 (strip_leading (Some (em_text m))),
       ep_mentions = Option.bind q dq_mentions, ep_context = desktop_context_of (Option.bind q dq_primary),
       ep_reply = xc_reply (em_context m)\<rparr>)"

definition ext_queue_status :: "ext_queue \<Rightarrow> ext_pill list" where
  "ext_queue_status s = map (\<lambda>r. ext_pill_of (op_at s r)) (message_refs (xq_queue s))"

section \<open>Admission\<close>

definition next_user_message_id :: "nat \<Rightarrow> ext_queue \<Rightarrow> ext_queue \<times> jstr" where
  "next_user_message_id now s =
     (s\<lparr>xq_user_seq := Suc (xq_user_seq s)\<rparr>, js ''user-'' @ dec_nat now @ js ''-'' @ dec_nat (xq_user_seq s))"

definition next_ext_queue_id :: "nat \<Rightarrow> ext_queue \<Rightarrow> ext_queue \<times> jstr" where
  "next_ext_queue_id now s =
     (s\<lparr>xq_queue_seq := Suc (xq_queue_seq s)\<rparr>, js ''xq-'' @ dec_nat now @ js ''-'' @ dec_nat (xq_queue_seq s))"

record message_input =
  mi_text :: jstr
  mi_images :: "json list option"
  mi_context :: send_context
  mi_config :: runtime_config
  mi_user_message :: user_message
  mi_surface :: "surface_mode option"
  mi_mode :: "delivery_mode option"
  mi_source :: "input_source option"
  mi_queue_id :: "jstr option"

definition projected_message :: "message_input \<Rightarrow> user_message" where
  "projected_message i =
     (let u = mi_user_message i; c = mi_context i
      in u\<lparr>um_query := xc_query c,
           um_metadata := (if truthy (xc_client_request c)
             then Some (oset (js ''clientRequestId'') (JStr (the (xc_client_request c)))
                    (oset (js ''source'') (JStr (js ''desktop''))
                      (case um_metadata u of Some m \<Rightarrow> m | None \<Rightarrow> [])))
             else um_metadata u),
           um_reply := (case xc_reply c of Some r \<Rightarrow> Some r | None \<Rightarrow> um_reply u)\<rparr>)"

definition create_message :: "nat \<Rightarrow> message_input \<Rightarrow> ext_queue \<Rightarrow> ext_queue \<times> nat" where
  "create_message now i s =
     (let (s1, q) = (case mi_queue_id i of Some q \<Rightarrow> (s, q)
                     | None \<Rightarrow> (case xc_queue_id (mi_context i) of Some q \<Rightarrow> (s, q)
                                | None \<Rightarrow> next_ext_queue_id now s));
          m = \<lparr>em_order = xq_admission_seq s1,
               em_mode = (case mi_mode i of Some d \<Rightarrow> d | None \<Rightarrow> DeliverTurn),
               em_source = mi_source i, em_queue_id = q, em_text = mi_text i, em_images = mi_images i,
               em_context = (mi_context i)\<lparr>xc_queue_id := Some q\<rparr>, em_config = mi_config i,
               em_projection = \<lparr>up_message = projected_message i,
                 up_surface = (case mi_surface i of Some d \<Rightarrow> d | None \<Rightarrow> Chat_Replay),
                 up_surfaced = False, up_in_transcript = False, up_persisted = False, up_retracted = False\<rparr>,
               em_accepted = None, em_force = False\<rparr>
      in (s1\<lparr>xq_ops := (xq_ops s1)(xq_next s1 := m), xq_next := Suc (xq_next s1),
             xq_admission_seq := Suc (xq_admission_seq s1)\<rparr>, xq_next s1))"

text \<open>The first ordinary operation that was admitted later stands behind the inserted one.\<close>

definition insert_at_order :: "nat \<Rightarrow> ext_queue \<Rightarrow> ext_item list" where
  "insert_at_order r s =
     (let goes_behind = (\<lambda>i. \<not> forced s i \<and> em_order (op_at s r) < item_order s i)
      in takeWhile (\<lambda>i. \<not> goes_behind i) (xq_queue s) @ Message_Item r
         # dropWhile (\<lambda>i. \<not> goes_behind i) (xq_queue s))"

datatype queue_error = Stale_Generation

definition enqueue_existing :: "nat \<Rightarrow> nat \<Rightarrow> ext_queue \<Rightarrow> queue_error + ext_queue" where
  "enqueue_existing r generation s =
     (if xq_generation s \<noteq> generation then Inl Stale_Generation
      else Inr (s\<lparr>xq_queue := insert_at_order r s\<rparr>))"

text \<open>A message that could not join the running turn waits for its end instead.\<close>

definition defer_to_boundary :: "nat \<Rightarrow> nat \<Rightarrow> ext_queue \<Rightarrow> queue_error + ext_queue" where
  "defer_to_boundary r generation s =
     enqueue_existing r generation (change_op r (\<lambda>m. m\<lparr>em_mode := DeliverTurn\<rparr>) s)"

definition enqueue_message :: "nat \<Rightarrow> message_input \<Rightarrow> ext_queue \<Rightarrow> ext_queue \<times> nat option" where
  "enqueue_message now i s =
     (if max_queue \<le> queued_message_count s then (s, None)
      else let (s1, r) = create_message now i s
           in (case enqueue_existing r (xq_generation s1) s1 of Inr s2 \<Rightarrow> (s2, Some r) | Inl _ \<Rightarrow> (s1, None)))"

definition enqueue_config :: "nat \<Rightarrow> config_patch \<Rightarrow> config_source \<Rightarrow> ext_queue \<Rightarrow> ext_queue \<times> nat" where
  "enqueue_config now patch source s =
     (case rev (xq_queue s) of
        Config_Item c # before \<Rightarrow>
          (s\<lparr>xq_queue := rev before @ [Config_Item (c\<lparr>co_patch := merge_patches (co_patch c) patch,
                                                       co_source := source\<rparr>)]\<rparr>,
           length (xq_queue s))
      | _ \<Rightarrow>
          (let c = \<lparr>co_order = xq_admission_seq s,
                    co_id = js ''xcfg-'' @ dec_nat now @ js ''-'' @ dec_nat (xq_config_seq s),
                    co_patch = patch, co_source = source\<rparr>
           in (s\<lparr>xq_queue := xq_queue s @ [Config_Item c], xq_admission_seq := Suc (xq_admission_seq s),
                 xq_config_seq := Suc (xq_config_seq s)\<rparr>, Suc (length (xq_queue s)))))"

section \<open>Cancellation\<close>

definition clear_operations :: "ext_queue \<Rightarrow> ext_queue \<times> nat list" where
  "clear_operations s =
     (let queued = message_refs (xq_queue s);
          held = (case xq_reserved s of Some i \<Rightarrow> message_refs [i] | None \<Rightarrow> []);
          s1 = fold cancel_op (queued @ held) s
      in (s1\<lparr>xq_queue := [], xq_reserved := None, xq_draining := False, xq_tail := None,
             xq_generation := Suc (xq_generation s1)\<rparr>, queued @ held))"

definition clear_queue :: "ext_queue \<Rightarrow> ext_queue \<times> jstr list" where
  "clear_queue s =
     (let (s', rs) = clear_operations s in (s', map (\<lambda>r. em_queue_id (op_at s' r)) rs))"

text \<open>The loop runs from the end of the queue.\<close>

fun cancel_owned :: "turn_owner \<Rightarrow> ext_item list \<Rightarrow> ext_queue \<Rightarrow> ext_queue \<times> nat list" where
  "cancel_owned owner [] s = (s, [])"
| "cancel_owned owner (i # is) s =
     (case i of
        Message_Item r \<Rightarrow>
          if owned_by owner s i
          then let (s', rs) = cancel_owned owner is (cancel_op r s) in (s', r # rs)
          else cancel_owned owner is s
      | Config_Item _ \<Rightarrow> cancel_owned owner is s)"

definition cancel_by_owner :: "turn_owner \<Rightarrow> ext_queue \<Rightarrow> ext_queue \<times> nat list" where
  "cancel_by_owner owner s =
     (let (s', rs) = cancel_owned owner (rev (xq_queue s)) s
      in (s'\<lparr>xq_queue := filter (\<lambda>i. \<not> owned_by owner s i) (xq_queue s)\<rparr>, rs))"

definition queue_index :: "jstr \<Rightarrow> ext_queue \<Rightarrow> int" where
  "queue_index q s =
     find_index (\<lambda>i. case i of Message_Item r \<Rightarrow> em_queue_id (op_at s r) = q | Config_Item _ \<Rightarrow> False) (xq_queue s)"

definition item_ref :: "ext_item \<Rightarrow> nat" where
  "item_ref i = (case i of Message_Item r \<Rightarrow> r | Config_Item _ \<Rightarrow> 0)"

definition cancel_queued :: "jstr \<Rightarrow> ext_queue \<Rightarrow> ext_queue \<times> nat option" where
  "cancel_queued q s =
     (let k = queue_index q s in
      if k < 0 then (s, None)
      else let r = item_ref (xq_queue s ! nat k)
           in (cancel_op r (s\<lparr>xq_queue := remove_at (nat k) (xq_queue s)\<rparr>), Some r))"

definition cancel_queued_text :: "jstr \<Rightarrow> ext_queue \<Rightarrow> ext_queue \<times> jstr option" where
  "cancel_queued_text q s =
     (let (s', r) = cancel_queued q s in (s', map_option (\<lambda>r. em_text (op_at s' r)) r))"

definition cancel_by_request :: "jstr \<Rightarrow> ext_queue \<Rightarrow> ext_queue \<times> nat option" where
  "cancel_by_request request s =
     (case List.find (\<lambda>r. xc_request_id (em_context (op_at s r)) = Some request) (message_refs (xq_queue s)) of
        Some r \<Rightarrow> cancel_queued (em_queue_id (op_at s r)) s
      | None \<Rightarrow> (s, None))"

definition reserved_by_request :: "jstr \<Rightarrow> ext_queue \<Rightarrow> nat option" where
  "reserved_by_request request s =
     (case xq_reserved s of
        Some (Message_Item r) \<Rightarrow> if xc_request_id (em_context (op_at s r)) = Some request then Some r else None
      | _ \<Rightarrow> None)"

section \<open>Draining\<close>

fun leading_configs :: "ext_item list \<Rightarrow> config_patch option \<Rightarrow> config_source \<Rightarrow>
    ext_item list \<times> config_patch option \<times> config_source" where
  "leading_configs (Config_Item c # is) patch source =
     leading_configs is
       (Some (merge_patches (case patch of Some p \<Rightarrow> p | None \<Rightarrow> 0) (co_patch c))) (co_source c)"
| "leading_configs is patch source = (is, patch, source)"

definition consume_configs :: "ext_queue \<Rightarrow> ext_queue \<times> (config_patch \<times> config_source) option" where
  "consume_configs s =
     (let (is, patch, source) = leading_configs (xq_queue s) None From_Runtime_Config
      in (s\<lparr>xq_queue := is\<rparr>, map_option (\<lambda>p. (p, source)) patch))"

definition shift_operation :: "ext_queue \<Rightarrow> ext_queue \<times> ext_item option" where
  "shift_operation s =
     (case xq_queue s of [] \<Rightarrow> (s, None) | i # is \<Rightarrow> (s\<lparr>xq_queue := is\<rparr>, Some i))"

definition reserve_operation :: "bool \<Rightarrow> ext_queue \<Rightarrow> ext_queue \<times> ext_item option" where
  "reserve_operation realtime_only s =
     (let k = (if realtime_only then find_index (steerable s) (xq_queue s) else 0)
      in if k < 0 \<or> length (xq_queue s) \<le> nat k then (s\<lparr>xq_reserved := None\<rparr>, None)
         else (s\<lparr>xq_queue := remove_at (nat k) (xq_queue s), xq_reserved := Some (xq_queue s ! nat k)\<rparr>,
               Some (xq_queue s ! nat k)))"

definition release_reservation :: "ext_item option \<Rightarrow> ext_queue \<Rightarrow> ext_queue" where
  "release_reservation i s =
     (case i of None \<Rightarrow> s
      | Some _ \<Rightarrow> if xq_reserved s = i then s\<lparr>xq_reserved := None\<rparr> else s)"

definition unshift_operation :: "ext_item \<Rightarrow> ext_queue \<Rightarrow> ext_queue" where
  "unshift_operation i s = s\<lparr>xq_queue := i # xq_queue s\<rparr>"

text \<open>What the drain does with a configuration operation it finds: it goes back to the front.\<close>

definition reserve_for_drain :: "bool \<Rightarrow> ext_queue \<Rightarrow> ext_queue \<times> nat option" where
  "reserve_for_drain realtime_only s =
     (case reserve_operation realtime_only s of
        (s1, None) \<Rightarrow> (s1, None)
      | (s1, Some (Message_Item r)) \<Rightarrow> (s1, Some r)
      | (s1, Some (Config_Item c)) \<Rightarrow>
          (unshift_operation (Config_Item c) (release_reservation (Some (Config_Item c)) s1), None))"

definition move_ext_to_front :: "jstr \<Rightarrow> ext_queue \<Rightarrow> ext_queue \<times> bool" where
  "move_ext_to_front q s =
     (let k = queue_index q s in
      if k < 0 then (s, False)
      else let i = xq_queue s ! nat k; s1 = change_op (item_ref i) (\<lambda>m. m\<lparr>em_force := True\<rparr>) s
           in (if 0 < k then s1\<lparr>xq_queue := i # remove_at (nat k) (xq_queue s1)\<rparr> else s1, True))"

definition begin_flight :: "nat \<Rightarrow> ext_queue \<Rightarrow> ext_queue" where
  "begin_flight r s = s\<lparr>xq_flight := xq_flight s @ [r]\<rparr>"

definition end_flight :: "nat \<Rightarrow> ext_queue \<Rightarrow> ext_queue" where
  "end_flight r s = s\<lparr>xq_flight := remove1 r (xq_flight s)\<rparr>"

section \<open>Sends one after another\<close>

definition chain_send :: "nat option \<Rightarrow> ext_queue \<Rightarrow> ext_queue \<times> nat" where
  "chain_send generation s =
     (s\<lparr>xq_sends := xq_sends s @
          [\<lparr>cs_after = xq_tail s,
            cs_generation = (case generation of Some g \<Rightarrow> g | None \<Rightarrow> xq_generation s),
            cs_status = Send_Waiting, cs_stale = False\<rparr>],
        xq_tail := Some (length (xq_sends s))\<rparr>, length (xq_sends s))"

definition set_send :: "nat \<Rightarrow> (chained_send \<Rightarrow> chained_send) \<Rightarrow> ext_queue \<Rightarrow> ext_queue" where
  "set_send n f s = s\<lparr>xq_sends := (xq_sends s)[n := f (xq_sends s ! n)]\<rparr>"

definition send_ready :: "nat \<Rightarrow> ext_queue \<Rightarrow> bool" where
  "send_ready n s \<longleftrightarrow>
     n < length (xq_sends s) \<and> cs_status (xq_sends s ! n) = Send_Waiting \<and>
     (case cs_after (xq_sends s ! n) of None \<Rightarrow> True | Some p \<Rightarrow> cs_status (xq_sends s ! p) = Send_Settled)"

text \<open>\<open>run\<close>: a send of an earlier generation is refused without a dispatch.\<close>

definition run_send :: "nat \<Rightarrow> ext_queue \<Rightarrow> ext_queue" where
  "run_send n s =
     (if cs_generation (xq_sends s ! n) \<noteq> xq_generation s
      then set_send n (\<lambda>c. c\<lparr>cs_status := Send_Ended, cs_stale := True\<rparr>) s
      else set_send n (\<lambda>c. c\<lparr>cs_status := Send_Running\<rparr>) s)"

definition end_send :: "nat \<Rightarrow> ext_queue \<Rightarrow> ext_queue" where
  "end_send n s = set_send n (\<lambda>c. c\<lparr>cs_status := Send_Ended\<rparr>) s"

text \<open>The \<open>finally\<close> of the tracked promise.\<close>

definition settle_send :: "nat \<Rightarrow> ext_queue \<Rightarrow> ext_queue" where
  "settle_send n s =
     (let s1 = set_send n (\<lambda>c. c\<lparr>cs_status := Send_Settled\<rparr>) s
      in if xq_tail s1 = Some n then s1\<lparr>xq_tail := None\<rparr> else s1)"

end
