(* ===== verification/ExternalQueueProperties.thy ===== *)
theory ExternalQueueProperties
  imports ExternalQueue
begin

text \<open>
  What the operation queue of an external runtime guarantees over every sequence of its calls:
  operations leave in the order of their admission unless the user forces one ahead, clearing
  settles everything that waited, configuration changes that wait together are applied as one, and
  dispatches of the live generation run one after another.
\<close>

section \<open>Calls\<close>

inductive ext_step :: "ext_queue \<Rightarrow> ext_queue \<Rightarrow> bool" where
  Create: "ext_step s (fst (create_message now i s))"
| Enqueue: "ext_step s (fst (enqueue_message now i s))"
| Requeue: "r < xq_next s \<Longrightarrow> enqueue_existing r g s = Inr s' \<Longrightarrow> ext_step s s'"
| Defer: "r < xq_next s \<Longrightarrow> defer_to_boundary r g s = Inr s' \<Longrightarrow> ext_step s s'"
| Config: "ext_step s (fst (enqueue_config now patch source s))"
| Clear: "ext_step s (fst (clear_operations s))"
| Cancel_Owner: "ext_step s (fst (cancel_by_owner ow s))"
| Cancel_Queued: "ext_step s (fst (cancel_queued q s))"
| Cancel_Request: "ext_step s (fst (cancel_by_request q s))"
| Consume: "ext_step s (fst (consume_configs s))"
| Reserve: "ext_step s (fst (reserve_for_drain rt s))"
| Release: "ext_step s (release_reservation item s)"
| Front: "ext_step s (fst (move_ext_to_front q s))"
| Begin_Flight: "r < xq_next s \<Longrightarrow> ext_step s (begin_flight r s)"
| End_Flight: "ext_step s (end_flight r s)"
| Project: "r < xq_next s \<Longrightarrow> ext_step s (change_projection f r s)"
| Settle: "r < xq_next s \<Longrightarrow> ext_step s (settle_op r result s)"
| Draining: "ext_step s (s\<lparr>xq_draining := b\<rparr>)"
| Chain: "g \<le> xq_generation s \<Longrightarrow> ext_step s (fst (chain_send (Some g) s))"
| Run: "send_ready n s \<Longrightarrow> ext_step s (run_send n s)"
| End_Send: "n < length (xq_sends s) \<Longrightarrow> cs_status (xq_sends s ! n) = Send_Running \<Longrightarrow> ext_step s (end_send n s)"
| Settle_Send: "n < length (xq_sends s) \<Longrightarrow> cs_status (xq_sends s ! n) = Send_Ended \<Longrightarrow> ext_step s (settle_send n s)"

inductive ext_reachable :: "ext_queue \<Rightarrow> bool" where
  Start: "ext_reachable empty_ext_queue"
| Step: "ext_reachable s \<Longrightarrow> ext_step s s' \<Longrightarrow> ext_reachable s'"

section \<open>Admission order\<close>

definition before_ok :: "ext_queue \<Rightarrow> ext_item \<Rightarrow> ext_item \<Rightarrow> bool" where
  "before_ok s i j \<longleftrightarrow> (\<not> forced s i \<and> \<not> forced s j \<longrightarrow> item_order s i \<le> item_order s j)"

definition known_item :: "ext_queue \<Rightarrow> ext_item \<Rightarrow> bool" where
  "known_item s i \<longleftrightarrow> item_order s i < xq_admission_seq s
     \<and> (case i of Message_Item r \<Rightarrow> r < xq_next s | Config_Item _ \<Rightarrow> True)"

definition admission_ok :: "ext_queue \<Rightarrow> bool" where
  "admission_ok s \<longleftrightarrow>
     sorted_wrt (before_ok s) (xq_queue s) \<and> (\<forall>i \<in> set (xq_queue s). known_item s i) \<and>
     (\<forall>r < xq_next s. em_order (op_at s r) < xq_admission_seq s)"

text \<open>A change of the state that keeps the orders and forces no fewer items.\<close>

definition keeps_orders :: "ext_queue \<Rightarrow> ext_queue \<Rightarrow> bool" where
  "keeps_orders s s' \<longleftrightarrow>
     (\<forall>r < xq_next s. em_order (op_at s' r) = em_order (op_at s r) \<and> (em_force (op_at s r) \<longrightarrow> em_force (op_at s' r)))
     \<and> xq_next s \<le> xq_next s' \<and> xq_admission_seq s \<le> xq_admission_seq s'"

lemma keeps_item:
  assumes "keeps_orders s s'" "known_item s i"
  shows "item_order s' i = item_order s i" "forced s i \<Longrightarrow> forced s' i" "known_item s' i"
  using assms by (cases i; auto simp: keeps_orders_def known_item_def item_order_def forced_def)+

lemma keeps_sorted:
  assumes "keeps_orders s s'" "sorted_wrt (before_ok s) is" "\<forall>i \<in> set is. known_item s i"
  shows "sorted_wrt (before_ok s') is"
  using assms(2)
proof (rule sorted_wrt_mono_rel [rotated])
  fix i j
  assume "i \<in> set is" "j \<in> set is" "before_ok s i j"
  then show "before_ok s' i j"
    using keeps_item(1,2) [OF assms(1)] assms(3) unfolding before_ok_def by metis
qed

text \<open>The items of the new queue are old items in their order.\<close>

lemma admission_ok_subseq:
  assumes ok: "admission_ok s" and keep: "keeps_orders s s'"
    and "sorted_wrt (before_ok s) (xq_queue s')" "set (xq_queue s') \<subseteq> set (xq_queue s)"
    and new: "\<forall>r < xq_next s'. r < xq_next s \<or> em_order (op_at s' r) < xq_admission_seq s'"
  shows "admission_ok s'"
proof -
  have known: "\<forall>i \<in> set (xq_queue s'). known_item s i" using ok assms(4) by (auto simp: admission_ok_def)
  moreover have "em_order (op_at s' r) < xq_admission_seq s'" if "r < xq_next s'" for r
    using that new ok keep by (fastforce simp: admission_ok_def keeps_orders_def)
  ultimately show ?thesis
    using keeps_sorted [OF keep assms(3) known] keeps_item(3) [OF keep] by (simp add: admission_ok_def)
qed

lemma admission_ok_same:
  assumes "admission_ok s" "keeps_orders s s'" "xq_queue s' = xq_queue s" "xq_next s' = xq_next s"
  shows "admission_ok s'"
  using assms by (intro admission_ok_subseq [OF assms(1,2)]) (auto simp: admission_ok_def)

named_theorems ext_fields "what an operation leaves alone"

lemma change_op_fields [ext_fields]:
  "xq_queue (change_op r f s) = xq_queue s" "xq_next (change_op r f s) = xq_next s"
  "xq_admission_seq (change_op r f s) = xq_admission_seq s" "xq_sends (change_op r f s) = xq_sends s"
  "xq_tail (change_op r f s) = xq_tail s" "xq_generation (change_op r f s) = xq_generation s"
  "xq_reserved (change_op r f s) = xq_reserved s" "xq_guard_log (change_op r f s) = xq_guard_log s"
  "op_at (change_op r f s) q = (if q = r then f (op_at s r) else op_at s q)"
  by (simp_all add: change_op_def op_at_def)

lemma cancel_op_fields [ext_fields]:
  "xq_queue (cancel_op r s) = xq_queue s" "xq_next (cancel_op r s) = xq_next s"
  "xq_admission_seq (cancel_op r s) = xq_admission_seq s" "xq_sends (cancel_op r s) = xq_sends s"
  "xq_tail (cancel_op r s) = xq_tail s" "xq_generation (cancel_op r s) = xq_generation s"
  "xq_reserved (cancel_op r s) = xq_reserved s"
  "xq_guard_log (cancel_op r s) = xq_guard_log s @ guard_calls (xc_guard (em_context (op_at s r)))"
  by (simp_all add: cancel_op_def Let_def settle_op_def mark_retracted_def change_projection_def ext_fields)

text \<open>What cancelling does to the operation itself.\<close>

definition cancelled :: "ext_message \<Rightarrow> ext_message" where
  "cancelled m = m\<lparr>em_projection := (em_projection m)\<lparr>up_retracted := True\<rparr>,
     em_accepted := (case em_accepted m of None \<Rightarrow> Some not_queued | Some x \<Rightarrow> Some x)\<rparr>"

lemma op_at_cancel [ext_fields]: "op_at (cancel_op r s) q = (if q = r then cancelled (op_at s r) else op_at s q)"
  by (simp add: cancel_op_def Let_def settle_op_def mark_retracted_def change_projection_def change_op_def
      op_at_def cancelled_def)

lemma cancelled_fields [simp]:
  "em_order (cancelled m) = em_order m" "em_force (cancelled m) = em_force m"
  "em_context (cancelled m) = em_context m" "em_queue_id (cancelled m) = em_queue_id m"
  "em_text (cancelled m) = em_text m"
  by (simp_all add: cancelled_def)

lemma keeps_cancel: "keeps_orders s (cancel_op r s)"
  by (auto simp: keeps_orders_def ext_fields)

lemma keeps_trans: "keeps_orders s t \<Longrightarrow> keeps_orders t u \<Longrightarrow> keeps_orders s u"
  unfolding keeps_orders_def by (metis le_trans order_less_le_trans)

lemma keeps_refl: "keeps_orders s s"
  by (simp add: keeps_orders_def)

lemma keeps_fold: "keeps_orders s (fold cancel_op rs s)"
  by (induction rs arbitrary: s) (auto intro: keeps_trans keeps_cancel keeps_refl)

lemma fold_cancel_fields [ext_fields]:
  "xq_next (fold cancel_op rs s) = xq_next s" "xq_admission_seq (fold cancel_op rs s) = xq_admission_seq s"
  "xq_sends (fold cancel_op rs s) = xq_sends s" "xq_generation (fold cancel_op rs s) = xq_generation s"
  "xq_queue (fold cancel_op rs s) = xq_queue s" "xq_tail (fold cancel_op rs s) = xq_tail s"
  by (induction rs arbitrary: s; simp add: ext_fields)+

lemma cancel_owned_fold: "\<exists>rs. cancel_owned ow items s = (fold cancel_op rs s, rs)"
proof (induction ow items s rule: cancel_owned.induct)
  case (1 ow s)
  show ?case by (rule exI [of _ "[]"]) simp
next
  case (2 ow i items s)
  show ?case
  proof (cases i)
    case (Config_Item c)
    then show ?thesis using 2(3) by simp
  next
    case (Message_Item r)
    show ?thesis
    proof (cases "owned_by ow s i")
      case True
      then obtain rs where "cancel_owned ow items (cancel_op r s) = (fold cancel_op rs (cancel_op r s), rs)"
        using 2(1) [OF Message_Item] by blast
      then show ?thesis using Message_Item True by (intro exI [of _ "r # rs"]) simp
    qed (use 2(2) [OF Message_Item] Message_Item in simp)
  qed
qed

section \<open>Every call keeps the admission order\<close>

lemma sorted_before_parts:
  "sorted_wrt (before_ok s) (xs @ y # zs) \<Longrightarrow> sorted_wrt (before_ok s) (xs @ zs)"
  by (simp add: sorted_wrt_append)

lemma sorted_remove_at: "sorted_wrt P xs \<Longrightarrow> sorted_wrt P (remove_at k xs)"
proof (induction xs arbitrary: k)
  case (Cons x xs)
  then show ?case using set_remove_at [of _ xs] by (cases k) auto
qed (simp add: remove_at_def)

lemma sorted_insert_at_order:
  assumes "sorted_wrt (before_ok s) (xq_queue s)"
  shows "sorted_wrt (before_ok s) (insert_at_order r s)"
proof -
  define behind where "behind i \<longleftrightarrow> \<not> forced s i \<and> em_order (op_at s r) < item_order s i" for i
  let ?T = "takeWhile (\<lambda>i. \<not> behind i) (xq_queue s)" and ?D = "dropWhile (\<lambda>i. \<not> behind i) (xq_queue s)"
  have sorted: "sorted_wrt (before_ok s) (?T @ ?D)" using assms by simp
  have "before_ok s i (Message_Item r)" if "i \<in> set ?T" for i
    using set_takeWhileD [OF that] by (auto simp: before_ok_def behind_def item_order_def)
  moreover have "before_ok s (Message_Item r) j" if j: "j \<in> set ?D" for j
  proof (cases ?D)
    case (Cons h rest)
    then have h: "behind h" using hd_dropWhile [of "\<lambda>i. \<not> behind i" "xq_queue s"] by simp
    have "j = h \<or> before_ok s h j" using j sorted Cons by (auto simp: sorted_wrt_append)
    then show ?thesis using h by (auto simp: before_ok_def behind_def item_order_def)
  next
    case Nil
    show ?thesis using j unfolding Nil by simp
  qed
  moreover have "insert_at_order r s = ?T @ Message_Item r # ?D"
    by (simp only: insert_at_order_def behind_def Let_def)
  ultimately show ?thesis using sorted
    by (simp only: sorted_wrt_append sorted_wrt.simps list.set) blast
qed

lemma known_at: "admission_ok s \<Longrightarrow> r < xq_next s \<Longrightarrow> known_item s (Message_Item r)"
  by (simp add: admission_ok_def known_item_def item_order_def)

lemma set_insert_at_order: "set (insert_at_order r s) = insert (Message_Item r) (set (xq_queue s))"
proof -
  have "set (takeWhile P xs @ y # dropWhile P xs) = insert y (set xs)" for P and y :: ext_item and xs
    by (metis Un_insert_right list.simps(15) set_append takeWhile_dropWhile_id)
  then show ?thesis by (simp only: insert_at_order_def Let_def)
qed

lemma requeue_ok:
  assumes ok: "admission_ok s" and r: "r < xq_next s"
  shows "admission_ok (s\<lparr>xq_queue := insert_at_order r s\<rparr>)"
proof -
  let ?s = "s\<lparr>xq_queue := insert_at_order r s\<rparr>"
  have keep: "keeps_orders s ?s" by (simp add: keeps_orders_def op_at_def)
  have known: "\<forall>i \<in> set (insert_at_order r s). known_item s i"
    using ok known_at [OF ok r] by (simp add: set_insert_at_order admission_ok_def)
  have "sorted_wrt (before_ok s) (insert_at_order r s)"
    using ok by (intro sorted_insert_at_order) (simp add: admission_ok_def)
  then show ?thesis using keeps_sorted [OF keep _ known] keeps_item(3) [OF keep] known ok
    by (simp add: admission_ok_def op_at_def)
qed

lemma create_ok:
  assumes "admission_ok s"
  shows "admission_ok (fst (create_message now i s)) \<and>
    snd (create_message now i s) < xq_next (fst (create_message now i s))"
proof -
  let ?s = "fst (create_message now i s)"
  have "keeps_orders s ?s"
    by (auto simp: create_message_def next_ext_queue_id_def keeps_orders_def op_at_def Let_def split: option.split)
  moreover have "xq_queue ?s = xq_queue s"
    by (auto simp: create_message_def next_ext_queue_id_def Let_def split: option.split)
  moreover have "r < xq_next s \<or> em_order (op_at ?s r) < xq_admission_seq ?s" if "r < xq_next ?s" for r
    using that by (auto simp: create_message_def next_ext_queue_id_def op_at_def Let_def less_Suc_eq split: option.splits)
  ultimately have "admission_ok ?s"
    using assms by (intro admission_ok_subseq [OF assms]) (auto simp: admission_ok_def)
  then show ?thesis
    by (auto simp: create_message_def next_ext_queue_id_def Let_def split: option.split)
qed

lemma enqueue_ok: "admission_ok s \<Longrightarrow> admission_ok (fst (enqueue_message now i s))"
  using create_ok [of s now i] requeue_ok
  by (auto simp: enqueue_message_def enqueue_existing_def Let_def split: prod.split)

lemma config_ok:
  assumes ok: "admission_ok s"
  shows "admission_ok (fst (enqueue_config now patch source s))"
proof (cases "\<exists>c before. rev (xq_queue s) = Config_Item c # before")
  case True
  then obtain c before where q: "xq_queue s = rev before @ [Config_Item c]" by (metis rev_rev_ident rev.simps(2))
  let ?c = "c\<lparr>co_patch := merge_patches (co_patch c) patch, co_source := source\<rparr>"
  let ?s = "s\<lparr>xq_queue := rev before @ [Config_Item ?c]\<rparr>"
  have "fst (enqueue_config now patch source s) = ?s" by (simp add: enqueue_config_def q)
  moreover have keep: "keeps_orders s ?s" by (simp add: keeps_orders_def op_at_def)
  moreover have known: "\<forall>i \<in> set (rev before @ [Config_Item ?c]). known_item s i"
    using ok by (auto simp: admission_ok_def q known_item_def item_order_def)
  moreover have "sorted_wrt (before_ok s) (rev before @ [Config_Item ?c])"
    using ok by (simp add: admission_ok_def q sorted_wrt_append before_ok_def item_order_def forced_def)
  ultimately show ?thesis using keeps_sorted [OF keep _ known] keeps_item(3) [OF keep] ok
    by (simp add: admission_ok_def op_at_def)
next
  case False
  let ?s = "fst (enqueue_config now patch source s)"
  let ?c = "\<lparr>co_order = xq_admission_seq s,
     co_id = js ''xcfg-'' @ dec_nat now @ js ''-'' @ dec_nat (xq_config_seq s), co_patch = patch, co_source = source\<rparr>"
  have eq: "?s = s\<lparr>xq_queue := xq_queue s @ [Config_Item ?c], xq_admission_seq := Suc (xq_admission_seq s),
                  xq_config_seq := Suc (xq_config_seq s)\<rparr>"
    using False by (auto simp: enqueue_config_def Let_def split: list.split ext_item.split)
  have keep: "keeps_orders s ?s" by (simp add: eq keeps_orders_def op_at_def)
  have known: "\<forall>i \<in> set (xq_queue s). known_item s i" using ok by (simp add: admission_ok_def)
  have "sorted_wrt (before_ok ?s) (xq_queue s)"
    using keeps_sorted [OF keep _ known] ok by (simp add: admission_ok_def)
  moreover have "before_ok ?s i (Config_Item ?c)" if "i \<in> set (xq_queue s)" for i
    using known that keeps_item(1) [OF keep] by (auto simp: before_ok_def known_item_def item_order_def)
  moreover have "\<forall>r < xq_next s. em_order (op_at s r) < xq_admission_seq s" using ok by (simp add: admission_ok_def)
  ultimately show ?thesis using known keeps_item(3) [OF keep]
    by (auto simp: admission_ok_def eq sorted_wrt_append op_at_def known_item_def item_order_def)
qed

lemma sorted_queue: "admission_ok s \<Longrightarrow> sorted_wrt (before_ok s) (xq_queue s)"
  by (simp add: admission_ok_def)

lemma cancel_parts_ok:
  assumes "admission_ok s" "sorted_wrt (before_ok s) (xq_queue s')" "set (xq_queue s') \<subseteq> set (xq_queue s)"
    and "\<exists>rs. xq_ops s' = xq_ops (fold cancel_op rs s)" "xq_next s' = xq_next s"
      "xq_admission_seq s' = xq_admission_seq s"
  shows "admission_ok s'"
proof -
  obtain rs where "xq_ops s' = xq_ops (fold cancel_op rs s)" using assms(4) by blast
  then have "keeps_orders s s'" using keeps_fold [of s rs] assms(5,6)
    by (simp add: keeps_orders_def op_at_def)
  then show ?thesis using assms by (intro admission_ok_subseq [of s s']) auto
qed

lemma clear_keeps_admission: "admission_ok s \<Longrightarrow> admission_ok (fst (clear_operations s))"
  by (rule cancel_parts_ok [of s])
    (auto simp: clear_operations_def Let_def ext_fields simp del: fold_append)

lemma cancel_owner_ok:
  assumes "admission_ok s"
  shows "admission_ok (fst (cancel_by_owner ow s))"
proof -
  obtain rs where "cancel_owned ow (rev (xq_queue s)) s = (fold cancel_op rs s, rs)"
    using cancel_owned_fold by blast
  then have eq: "fst (cancel_by_owner ow s) =
      (fold cancel_op rs s)\<lparr>xq_queue := filter (\<lambda>i. \<not> owned_by ow s i) (xq_queue s)\<rparr>"
    by (simp add: cancel_by_owner_def)
  show ?thesis using sorted_queue [OF assms]
    by (intro cancel_parts_ok [OF assms]) (auto simp: eq ext_fields sorted_wrt_filter)
qed

lemma cancel_queued_ok:
  assumes "admission_ok s"
  shows "admission_ok (fst (cancel_queued q s))"
proof (cases "queue_index q s < 0")
  case False
  let ?k = "nat (queue_index q s)"
  let ?r = "item_ref (xq_queue s ! ?k)"
  have eq: "fst (cancel_queued q s) = cancel_op ?r (s\<lparr>xq_queue := remove_at ?k (xq_queue s)\<rparr>)"
    using False by (simp add: cancel_queued_def Let_def)
  have "xq_ops (cancel_op r (s\<lparr>xq_queue := x\<rparr>)) = xq_ops (cancel_op r s)" for r x
    by (simp add: cancel_op_def Let_def settle_op_def mark_retracted_def change_projection_def change_op_def op_at_def)
  then have "\<exists>rs. xq_ops (fst (cancel_queued q s)) = xq_ops (fold cancel_op rs s)"
    by (intro exI [of _ "[?r]"]) (simp add: eq)
  then show ?thesis using sorted_remove_at [OF sorted_queue [OF assms]] set_remove_at
    by (intro cancel_parts_ok [OF assms]) (auto simp: eq ext_fields dest: subsetD [OF set_remove_at])
qed (use assms in \<open>simp add: cancel_queued_def Let_def\<close>)

lemma leading_configs_suffix: "\<exists>n. fst (leading_configs items p src) = drop n items"
proof (induction items p src rule: leading_configs.induct)
  case (1 c items p src)
  then obtain n where "fst (leading_configs (Config_Item c # items) p src) = drop n items" by auto
  then show ?case by (intro exI [of _ "Suc n"]) simp
qed (auto intro: exI [of _ "0::nat"])

text \<open>Calls that only take items out of the queue.\<close>

lemma taken_ok:
  assumes "admission_ok s" "xq_ops s' = xq_ops s" "xq_next s' = xq_next s"
    "xq_admission_seq s' = xq_admission_seq s"
    and "sorted_wrt (before_ok s) (xq_queue s')" "set (xq_queue s') \<subseteq> set (xq_queue s)"
  shows "admission_ok s'"
  using assms by (intro cancel_parts_ok [OF assms(1)]) (auto intro: exI [of _ "[]"])

lemma consume_ok:
  assumes "admission_ok s"
  shows "admission_ok (fst (consume_configs s))"
proof -
  obtain n where "fst (leading_configs (xq_queue s) None From_Runtime_Config) = drop n (xq_queue s)"
    using leading_configs_suffix by blast
  then have "xq_queue (fst (consume_configs s)) = drop n (xq_queue s)"
    by (cases "leading_configs (xq_queue s) None From_Runtime_Config") (simp add: consume_configs_def)
  then show ?thesis using sorted_queue [OF assms] set_drop_subset [of n "xq_queue s"]
    by (intro taken_ok [OF assms]) (auto simp: consume_configs_def sorted_wrt_drop split: prod.split)
qed

lemma reserve_ok:
  assumes "admission_ok s"
  shows "admission_ok (fst (reserve_operation rt s))"
  using sorted_remove_at [OF sorted_queue [OF assms]] sorted_queue [OF assms]
  by (intro taken_ok [OF assms]) (auto simp: reserve_operation_def Let_def dest: subsetD [OF set_remove_at])

lemma put_back:
  assumes "reserve_operation False s = (s1, Some (Config_Item c))"
  shows "xq_queue (unshift_operation (Config_Item c) (release_reservation (Some (Config_Item c)) s1)) = xq_queue s"
  using assms by (cases "xq_queue s")
    (auto simp: reserve_operation_def unshift_operation_def release_reservation_def Let_def split: if_splits)

lemma realtime_no_config: "reserve_operation True s \<noteq> (s1, Some (Config_Item c))"
  using find_index_nth [of "steerable s" "xq_queue s"]
  by (auto simp: reserve_operation_def Let_def steerable_def split: if_splits)

lemma reserve_for_drain_ok:
  assumes "admission_ok s"
  shows "admission_ok (fst (reserve_for_drain rt s))"
proof (cases "reserve_operation rt s")
  case (Pair s1 item)
  have s1: "admission_ok s1" using reserve_ok [OF assms, of rt] Pair by simp
  show ?thesis
  proof (cases "\<exists>c. item = Some (Config_Item c)")
    case True
    then obtain c where c: "item = Some (Config_Item c)" by blast
    let ?s = "unshift_operation (Config_Item c) (release_reservation (Some (Config_Item c)) s1)"
    have "rt = False" using realtime_no_config Pair c by (cases rt) auto
    then have "xq_queue ?s = xq_queue s" using put_back Pair c by simp
    moreover have "xq_ops s1 = xq_ops s \<and> xq_next s1 = xq_next s \<and> xq_admission_seq s1 = xq_admission_seq s"
      using Pair by (auto simp: reserve_operation_def Let_def split: if_splits)
    ultimately have "admission_ok ?s" using sorted_queue [OF assms]
      by (intro taken_ok [OF assms]) (auto simp: unshift_operation_def release_reservation_def)
    then show ?thesis by (simp add: reserve_for_drain_def Pair c)
  next
    case False
    then show ?thesis using s1
      by (auto simp: reserve_for_drain_def Pair split: option.split ext_item.split)
  qed
qed

lemma front_ok:
  assumes "admission_ok s"
  shows "admission_ok (fst (move_ext_to_front q s))"
proof (cases "queue_index q s < 0")
  case False
  define k where "k = nat (queue_index q s)"
  let ?P = "\<lambda>i. case i of Message_Item r \<Rightarrow> em_queue_id (op_at s r) = q | Config_Item _ \<Rightarrow> False"
  have k: "k < length (xq_queue s)" "?P (xq_queue s ! k)"
    using False find_index_nth [of ?P "xq_queue s"] by (simp_all add: queue_index_def k_def)
  then obtain r where r: "xq_queue s ! k = Message_Item r" by (cases "xq_queue s ! k") auto
  define s1 where "s1 = change_op r (\<lambda>m. m\<lparr>em_force := True\<rparr>) s"
  have keep: "keeps_orders s s1" by (auto simp: keeps_orders_def s1_def ext_fields)
  have s1: "admission_ok s1" by (rule admission_ok_same [OF assms keep]) (simp_all add: s1_def ext_fields)
  let ?q = "if 0 < k then Message_Item r # remove_at k (xq_queue s) else xq_queue s"
  have eq: "fst (move_ext_to_front q s) = s1\<lparr>xq_queue := ?q\<rparr>"
  proof -
    have "nat (queue_index q s) = k" "0 < queue_index q s \<longleftrightarrow> 0 < k" using False by (auto simp: k_def)
    then show ?thesis using False r
      by (simp add: move_ext_to_front_def Let_def s1_def item_ref_def change_op_fields)
  qed
  have "forced s1 (Message_Item r)" by (simp add: forced_def s1_def ext_fields)
  then have "before_ok s1 (Message_Item r) i" for i by (simp add: before_ok_def)
  moreover have "xq_queue s1 = xq_queue s" by (simp add: s1_def ext_fields)
  ultimately have "sorted_wrt (before_ok s1) ?q" 
    using sorted_queue [OF s1] sorted_remove_at [of "before_ok s1" "xq_queue s" k] by simp
  moreover have "set ?q \<subseteq> set (xq_queue s1)"
    using k r set_remove_at [of k "xq_queue s"] nth_mem [OF k(1)] \<open>xq_queue s1 = xq_queue s\<close> by auto
  ultimately show ?thesis by (intro taken_ok [OF s1]) (simp_all add: eq)
qed (use assms in \<open>simp add: move_ext_to_front_def Let_def\<close>)

lemma change_ok:
  assumes "admission_ok s" "\<And>m. em_order (f m) = em_order m \<and> em_force (f m) = em_force m"
  shows "admission_ok (change_op r f s)"
  using assms(2) by (intro admission_ok_same [OF assms(1)]) (auto simp: keeps_orders_def ext_fields)

lemma untouched_ok:
  assumes "admission_ok s" "xq_ops s' = xq_ops s" "xq_next s' = xq_next s"
    "xq_admission_seq s' = xq_admission_seq s" "xq_queue s' = xq_queue s"
  shows "admission_ok s'"
  using sorted_queue [OF assms(1)] assms(5) by (intro taken_ok [OF assms(1-4)]) auto

lemma set_send_fields [ext_fields]:
  "xq_queue (set_send n f s) = xq_queue s" "xq_next (set_send n f s) = xq_next s"
  "xq_admission_seq (set_send n f s) = xq_admission_seq s" "xq_ops (set_send n f s) = xq_ops s"
  "xq_tail (set_send n f s) = xq_tail s" "xq_generation (set_send n f s) = xq_generation s"
  "xq_sends (set_send n f s) = (xq_sends s)[n := f (xq_sends s ! n)]"
  by (simp_all add: set_send_def)

lemma send_steps_ok:
  assumes "admission_ok s"
  shows "admission_ok (run_send n s)" "admission_ok (end_send n s)" "admission_ok (settle_send n s)"
proof -
  have set: "admission_ok (set_send n f s)" for f
    by (rule untouched_ok [OF assms]) (simp_all add: set_send_fields)
  then show "admission_ok (run_send n s)" "admission_ok (end_send n s)" by (simp_all add: run_send_def end_send_def)
  show "admission_ok (settle_send n s)" unfolding settle_send_def Let_def
    by (rule untouched_ok [OF assms]) (simp_all add: set_send_fields)
qed

lemma ext_step_ok: "ext_step s s' \<Longrightarrow> admission_ok s \<Longrightarrow> admission_ok s'"
proof (induction rule: ext_step.induct)
  case (Requeue r s g s')
  then show ?case using requeue_ok [of s r] by (auto simp: enqueue_existing_def split: if_splits)
next
  case (Defer r s g s')
  let ?t = "change_op r (\<lambda>m. m\<lparr>em_mode := DeliverTurn\<rparr>) s"
  have "admission_ok ?t" using Defer by (simp add: change_ok)
  then show ?case using Defer requeue_ok [of ?t r]
    by (auto simp: defer_to_boundary_def enqueue_existing_def ext_fields split: if_splits)
next
  case (Cancel_Request s q)
  then show ?case using cancel_queued_ok by (auto simp: cancel_by_request_def split: option.split)
next
  case (Project r s f)
  then show ?case by (simp add: change_projection_def change_ok)
next
  case (Settle r s result)
  then show ?case by (simp add: settle_op_def change_ok)
next
  case (Release s item)
  then show ?case using untouched_ok [OF Release, of "s\<lparr>xq_reserved := None\<rparr>"]
    by (cases item) (simp_all add: release_reservation_def)
next
  case (Begin_Flight r s)
  then show ?case by (elim untouched_ok) (simp_all add: begin_flight_def)
next
  case (End_Flight s r)
  then show ?case by (elim untouched_ok) (simp_all add: end_flight_def)
next
  case (Draining s b)
  then show ?case by (elim untouched_ok) simp_all
next
  case (Chain g s)
  then show ?case by (elim untouched_ok) (simp_all add: chain_send_def)
qed (simp_all add: create_ok enqueue_ok config_ok clear_keeps_admission cancel_owner_ok cancel_queued_ok consume_ok
    reserve_for_drain_ok front_ok send_steps_ok)

lemma ext_reachable_ok: "ext_reachable s \<Longrightarrow> admission_ok s"
proof (induction rule: ext_reachable.induct)
  case Start
  then show ?case by (simp add: admission_ok_def empty_ext_queue_def)
qed (rule ext_step_ok)

section \<open>Draining\<close>

lemma reserved_parts:
  assumes "reserve_for_drain rt s = (s', Some r)"
  obtains k where "k < length (xq_queue s)" "xq_queue s ! k = Message_Item r"
    "xq_queue s' = remove_at k (xq_queue s)" "xq_ops s' = xq_ops s"
    "rt \<Longrightarrow> \<forall>j < k. \<not> steerable s (xq_queue s ! j)" "\<not> rt \<Longrightarrow> k = 0"
proof -
  let ?k = "if rt then find_index (steerable s) (xq_queue s) else 0"
  have "\<not> (?k < 0 \<or> length (xq_queue s) \<le> nat ?k)" and s': "xq_queue s ! nat ?k = Message_Item r"
    "s' = s\<lparr>xq_queue := remove_at (nat ?k) (xq_queue s), xq_reserved := Some (Message_Item r)\<rparr>"
    using assms by (auto simp: reserve_for_drain_def reserve_operation_def Let_def
        split: if_splits ext_item.splits prod.splits option.splits)
  then show ?thesis using find_index_first [where P = "steerable s" and xs = "xq_queue s"]
    by (intro that [of "nat ?k"]) auto
qed

lemma sorted_wrt_at:
  "sorted_wrt P xs \<Longrightarrow> k < length xs \<Longrightarrow> i \<in> set (drop (Suc k) xs) \<Longrightarrow> P (xs ! k) i"
  by (metis id_take_nth_drop list.set_intros(2) sorted_wrt.simps(2) sorted_wrt_append)

text \<open>C27. The queue of an external runtime drains in the order of admission: over every history of
  calls, an operation that the drain takes was admitted before every operation it leaves behind,
  unless the user forced one of the two ahead. A drain that only steers the running turn takes the
  oldest operation that may join it.\<close>

theorem drain_in_admission_order:
  assumes reach: "ext_reachable s"
    and drain: "reserve_for_drain rt s = (s', Some r)" and ordinary: "\<not> em_force (op_at s r)"
    and left: "i \<in> set (xq_queue s')" "\<not> forced s' i" "rt \<Longrightarrow> steerable s i"
  shows "em_order (op_at s r) \<le> item_order s' i"
proof -
  obtain k where k: "k < length (xq_queue s)" "xq_queue s ! k = Message_Item r"
    "xq_queue s' = remove_at k (xq_queue s)" and ops: "xq_ops s' = xq_ops s"
    and first: "rt \<Longrightarrow> \<forall>j < k. \<not> steerable s (xq_queue s ! j)" "\<not> rt \<Longrightarrow> k = 0"
    using reserved_parts [OF drain] by metis
  have same: "forced s' j = forced s j" "item_order s' j = item_order s j" for j
    using ops by (simp_all add: forced_def item_order_def op_at_def split: ext_item.split)
  have "i \<notin> set (take k (xq_queue s))"
    using first left(3) by (cases rt) (auto simp: in_set_conv_nth)
  then have "i \<in> set (drop (Suc k) (xq_queue s))" using left(1) k(3) by (simp add: remove_at_def)
  then have "before_ok s (Message_Item r) i"
    using sorted_wrt_at [OF sorted_queue [OF ext_reachable_ok [OF reach]] k(1)] k(2) by metis
  then show ?thesis using ordinary left(2) same by (simp add: before_ok_def forced_def item_order_def)
qed

definition sample_send :: "string \<Rightarrow> message_input" where
  "sample_send t =
     \<lparr>mi_text = js t, mi_images = None, mi_context = (em_context blank_message)\<lparr>xc_guard := Some \<lparr>dg_id = 7, dg_cancel = True\<rparr>\<rparr>,
      mi_config = em_config blank_message, mi_user_message = up_message (em_projection blank_message),
      mi_surface = None, mi_mode = None, mi_source = None, mi_queue_id = Some (js t)\<rparr>"

definition sample_queue :: ext_queue where
  "sample_queue = fst (enqueue_message 1 (sample_send ''b'') (fst (enqueue_message 1 (sample_send ''a'') empty_ext_queue)))"

lemma sample_reachable: "ext_reachable sample_queue"
proof -
  have "ext_reachable (fst (enqueue_message 1 (sample_send ''a'') empty_ext_queue))"
    by (rule Step [OF Start Enqueue])
  then show ?thesis unfolding sample_queue_def by (rule Step [OF _ Enqueue])
qed

lemma drain_in_admission_order_witness:
  "snd (reserve_for_drain False sample_queue) = Some 0 \<and>
   em_order (op_at sample_queue 0) \<le> item_order (fst (reserve_for_drain False sample_queue)) (Message_Item 1)"
proof -
  have r: "snd (reserve_for_drain False sample_queue) = Some 0"
    and m: "\<not> em_force (op_at sample_queue 0)"
      "Message_Item 1 \<in> set (xq_queue (fst (reserve_for_drain False sample_queue)))"
      "\<not> forced (fst (reserve_for_drain False sample_queue)) (Message_Item 1)" by code_simp+
  have "reserve_for_drain False sample_queue = (fst (reserve_for_drain False sample_queue), Some 0)"
    using r by (metis prod.collapse)
  from drain_in_admission_order [OF sample_reachable this m] r show ?thesis by simp
qed

section \<open>Clearing\<close>

lemma op_at_fold_cancel:
  "op_at (fold cancel_op rs s) r = (if r \<in> set rs then cancelled (op_at s r) else op_at s r)"
proof (induction rs arbitrary: s)
  case (Cons q rs)
  have "cancelled (cancelled m) = cancelled m" for m by (simp add: cancelled_def split: option.split)
  then show ?case by (simp add: Cons.IH ext_fields)
qed simp

lemma fold_cancel_log:
  "xq_guard_log (fold cancel_op rs s) =
     xq_guard_log s @ concat (map (\<lambda>r. guard_calls (xc_guard (em_context (op_at s r)))) rs)"
proof (induction rs arbitrary: s)
  case (Cons q rs)
  have "xc_guard (em_context (op_at (cancel_op q s) r)) = xc_guard (em_context (op_at s r))" for r
    by (simp add: ext_fields)
  then show ?case by (simp add: Cons.IH ext_fields)
qed simp

lemma clear_state:
  "fst (clear_operations s) =
     (fold cancel_op (snd (clear_operations s)) s)
       \<lparr>xq_queue := [], xq_reserved := None, xq_draining := False, xq_tail := None,
        xq_generation := Suc (xq_generation s)\<rparr>"
  by (simp add: clear_operations_def Let_def ext_fields)

text \<open>C29. Clearing the queue leaves nothing behind: no operation waits or is reserved, the messages that
  did are returned in their order, each of them is retracted and its dispatch is settled (with the
  refusal, unless it was settled before), their guards are called in that order, no other message is
  touched, and a send of the cleared generation that becomes ready is refused without a dispatch.\<close>

theorem clear_settles_waiting:
  fixes s :: ext_queue
  defines "s' \<equiv> fst (clear_operations s)" and "rs \<equiv> snd (clear_operations s)"
  shows "rs = message_refs (xq_queue s @ (case xq_reserved s of Some i \<Rightarrow> [i] | None \<Rightarrow> [])) \<and>
    xq_queue s' = [] \<and> xq_reserved s' = None \<and> xq_tail s' = None \<and>
    (\<forall>r. r \<in> set rs \<longrightarrow> up_retracted (em_projection (op_at s' r)) \<and>
      em_accepted (op_at s' r) = (case em_accepted (op_at s r) of None \<Rightarrow> Some not_queued | Some x \<Rightarrow> Some x)) \<and>
    (\<forall>r. r \<notin> set rs \<longrightarrow> op_at s' r = op_at s r) \<and>
    xq_guard_log s' = xq_guard_log s @ concat (map (\<lambda>r. guard_calls (xc_guard (em_context (op_at s r)))) rs) \<and>
    (\<forall>n. n < length (xq_sends s') \<longrightarrow> cs_generation (xq_sends s ! n) \<le> xq_generation s \<longrightarrow>
      cs_stale (xq_sends (run_send n s') ! n) \<and> cs_status (xq_sends (run_send n s') ! n) = Send_Ended)"
proof -
  have "op_at s' r = op_at (fold cancel_op rs s) r" "xq_guard_log s' = xq_guard_log (fold cancel_op rs s)"
    "xq_sends s' = xq_sends s" "xq_generation s' = Suc (xq_generation s)" for r
    unfolding s'_def rs_def by (simp_all add: clear_state op_at_def ext_fields)
  moreover have "rs = message_refs (xq_queue s @ (case xq_reserved s of Some i \<Rightarrow> [i] | None \<Rightarrow> []))"
    by (simp add: rs_def clear_operations_def Let_def message_refs_def split: option.split)
  moreover have "xq_queue s' = [] \<and> xq_reserved s' = None \<and> xq_tail s' = None"
    unfolding s'_def by (simp add: clear_state)
  ultimately show ?thesis
    by (simp add: op_at_fold_cancel fold_cancel_log run_send_def set_send_fields cancelled_def)
qed

lemma clear_settles_waiting_witness:
  "let s' = fst (clear_operations sample_queue) in
   up_retracted (em_projection (op_at s' 0)) \<and> em_accepted (op_at s' 1) = Some not_queued \<and>
   xq_guard_log s' = [7, 7] \<and>
   (let t = fst (clear_operations (fst (chain_send None sample_queue))) in cs_stale (xq_sends (run_send 0 t) ! 0))"
proof -
  have refs: "snd (clear_operations sample_queue) = [0, 1]"
    and fresh: "em_accepted (op_at sample_queue 1) = None"
    and log: "concat (map (\<lambda>r. guard_calls (xc_guard (em_context (op_at sample_queue r)))) [0, 1]) = [7, 7]"
      "xq_guard_log sample_queue = []"
    and sends: "0 < length (xq_sends (fst (clear_operations (fst (chain_send None sample_queue)))))"
      "cs_generation (xq_sends (fst (chain_send None sample_queue)) ! 0) \<le> xq_generation (fst (chain_send None sample_queue))"
    by code_simp+
  let ?s = "fst (clear_operations sample_queue)" and ?t = "fst (clear_operations (fst (chain_send None sample_queue)))"
  have rs: "\<And>r. r \<in> set [0, 1] \<Longrightarrow> up_retracted (em_projection (op_at ?s r)) \<and> em_accepted (op_at ?s r) =
        (case em_accepted (op_at sample_queue r) of None \<Rightarrow> Some not_queued | Some x \<Rightarrow> Some x)"
    and "xq_guard_log ?s = xq_guard_log sample_queue
        @ concat (map (\<lambda>r. guard_calls (xc_guard (em_context (op_at sample_queue r)))) [0, 1])"
    using clear_settles_waiting [of sample_queue, unfolded refs] by blast+
  moreover have "cs_stale (xq_sends (run_send 0 ?t) ! 0)"
    using clear_settles_waiting [of "fst (chain_send None sample_queue)"] sends by blast
  ultimately show ?thesis using rs [of 0] rs [of 1] fresh log by (simp only: Let_def) simp
qed

section \<open>Configuration changes\<close>

definition config_patches :: "ext_item list \<Rightarrow> config_patch list" where
  "config_patches items = concat (map (\<lambda>i. case i of Config_Item c \<Rightarrow> [co_patch c] | Message_Item _ \<Rightarrow> []) items)"

lemma config_patches_simps [simp]:
  "config_patches [] = []" "config_patches (Config_Item c # items) = co_patch c # config_patches items"
  "config_patches (Message_Item r # items) = config_patches items"
  "config_patches (xs @ ys) = config_patches xs @ config_patches ys"
  by (simp_all add: config_patches_def)

definition enqueue_configs :: "nat \<Rightarrow> (config_patch \<times> config_source) list \<Rightarrow> ext_queue \<Rightarrow> ext_queue" where
  "enqueue_configs now ps s = fold (\<lambda>(p, src) s. fst (enqueue_config now p src s)) ps s"

lemma leading_sum:
  "\<not> list_ex is_message items \<Longrightarrow> leading_configs items p src =
     ([], if items = [] then p else Some ((case p of Some q \<Rightarrow> q | None \<Rightarrow> 0) + sum_list (config_patches items)),
      fold (\<lambda>i src. case i of Config_Item c \<Rightarrow> co_source c | Message_Item _ \<Rightarrow> src) items src)"
proof (induction items p src rule: leading_configs.induct)
  case (1 c items p src)
  then show ?case by (simp add: is_message_def plus_config_patch_def [symmetric] add.assoc)
qed (simp_all add: is_message_def)

lemma config_after:
  assumes "\<not> list_ex is_message (xq_queue s)"
  shows "\<not> list_ex is_message (xq_queue (fst (enqueue_config now p src s)))"
    "sum_list (config_patches (xq_queue (fst (enqueue_config now p src s)))) = sum_list (config_patches (xq_queue s)) + p"
    "\<exists>before c. xq_queue (fst (enqueue_config now p src s)) = before @ [Config_Item c] \<and> co_source c = src"
  using assms
  by (cases "xq_queue s" rule: rev_cases; cases "last (xq_queue s)";
      force simp: enqueue_config_def Let_def is_message_def plus_config_patch_def [symmetric] add.assoc)+

lemma configs_after:
  assumes "\<not> list_ex is_message (xq_queue s)"
  shows "\<not> list_ex is_message (xq_queue (enqueue_configs now ps s)) \<and>
    sum_list (config_patches (xq_queue (enqueue_configs now ps s))) =
      sum_list (config_patches (xq_queue s)) + sum_list (map fst ps) \<and>
    (ps \<noteq> [] \<longrightarrow> (\<exists>before c. xq_queue (enqueue_configs now ps s) = before @ [Config_Item c] \<and> co_source c = snd (last ps)))"
proof (induction ps rule: rev_induct)
  case (snoc p ps)
  let ?t = "enqueue_configs now ps s"
  have eq: "enqueue_configs now (ps @ [p]) s = fst (enqueue_config now (fst p) (snd p) ?t)"
    by (simp add: enqueue_configs_def split: prod.split)
  have "\<not> list_ex is_message (xq_queue ?t)" using snoc.IH by blast
  from config_after [OF this, of now "fst p" "snd p"] snoc.IH show ?case by (simp add: eq add.assoc)
qed (use assms in \<open>simp add: enqueue_configs_def\<close>)



section \<open>One dispatch at a time\<close>

text \<open>The sends since the last clear, from index \<open>base\<close> on, settle one after another.\<close>

definition settled_between :: "nat \<Rightarrow> nat \<Rightarrow> chained_send list \<Rightarrow> bool" where
  "settled_between a b cs \<longleftrightarrow> (\<forall>i. a \<le> i \<and> i < b \<longrightarrow> cs_status (cs ! i) = Send_Settled)"

definition chain_ok :: "nat \<Rightarrow> nat option \<Rightarrow> nat \<Rightarrow> chained_send list \<Rightarrow> bool" where
  "chain_ok base tail generation cs \<longleftrightarrow>
     base \<le> length cs \<and>
     (case tail of None \<Rightarrow> settled_between base (length cs) cs | Some t \<Rightarrow> Suc t = length cs \<and> base \<le> t) \<and>
     (\<forall>j. base \<le> j \<and> j < length cs \<longrightarrow>
        (case cs_after (cs ! j) of None \<Rightarrow> settled_between base j cs | Some p \<Rightarrow> Suc p = j \<and> base \<le> p) \<and>
        (cs_status (cs ! j) \<noteq> Send_Waiting \<longrightarrow> settled_between base j cs)) \<and>
     (\<forall>j < length cs. cs_generation (cs ! j) \<le> generation \<and> (j < base \<longrightarrow> cs_generation (cs ! j) < generation))"

definition sends_ok :: "ext_queue \<Rightarrow> bool" where
  "sends_ok s \<longleftrightarrow> (\<exists>base. chain_ok base (xq_tail s) (xq_generation s) (xq_sends s))"

lemma settled_append: "b \<le> length cs \<Longrightarrow> settled_between a b (cs @ ds) \<longleftrightarrow> settled_between a b cs"
  by (auto simp: settled_between_def nth_append)

lemma chain_ok_chain:
  assumes "chain_ok base tail generation cs" "g \<le> generation"
  shows "chain_ok base (Some (length cs)) generation
           (cs @ [\<lparr>cs_after = tail, cs_generation = g, cs_status = Send_Waiting, cs_stale = False\<rparr>])"
  using assms unfolding chain_ok_def
  by (auto simp: nth_append settled_append less_Suc_eq split: option.splits)

lemma settled_update:
  "settled_between a b cs \<Longrightarrow> cs_status c = Send_Settled \<or> \<not> (a \<le> n \<and> n < b) \<or> b \<le> n \<Longrightarrow>
     settled_between a b (cs[n := c])"
  by (cases "n < length cs") (auto simp: settled_between_def nth_list_update list_update_beyond not_less)

lemma chain_ok_status:
  assumes ok: "chain_ok base tail generation cs" and n: "n < length cs" "cs_status (cs ! n) \<noteq> Send_Settled"
    and f: "\<And>c. cs_after (f c) = cs_after c" "\<And>c. cs_generation (f c) = cs_generation c"
    and start: "base \<le> n \<Longrightarrow> cs_status (f (cs ! n)) = Send_Waiting \<or> settled_between base n cs"
  shows "chain_ok base tail generation (cs[n := f (cs ! n)])"
proof -
  have keep: "settled_between base b (cs[n := f (cs ! n)])" if "settled_between base b cs" for b
    using that n(2) by (intro settled_update) (auto simp: settled_between_def)
  let ?cs = "cs[n := f (cs ! n)]"
  have after: "cs_after (?cs ! j) = cs_after (cs ! j)" and gen: "cs_generation (?cs ! j) = cs_generation (cs ! j)"
    and status: "j \<noteq> n \<Longrightarrow> cs_status (?cs ! j) = cs_status (cs ! j)" for j
    using n(1) f by (cases "j = n"; simp)+
  have started: "settled_between base j cs"
    if "base \<le> j" "j < length cs" "cs_status (?cs ! j) \<noteq> Send_Waiting" for j
  proof (cases "j = n")
    case True
    then show ?thesis using start that n(1) by simp
  next
    case False
    then show ?thesis using ok that status unfolding chain_ok_def by auto
  qed
  have "case tail of None \<Rightarrow> settled_between base (length ?cs) ?cs | Some t \<Rightarrow> Suc t = length ?cs \<and> base \<le> t"
    using ok keep unfolding chain_ok_def by (cases tail) auto
  moreover have "case cs_after (?cs ! j) of None \<Rightarrow> settled_between base j ?cs | Some p \<Rightarrow> Suc p = j \<and> base \<le> p"
    if "base \<le> j" "j < length cs" for j
    using ok keep that unfolding chain_ok_def after by (cases "cs_after (cs ! j)") auto
  moreover have "base \<le> length ?cs" "\<forall>j < length ?cs. cs_generation (?cs ! j) \<le> generation
      \<and> (j < base \<longrightarrow> cs_generation (?cs ! j) < generation)"
    using ok unfolding chain_ok_def gen by auto
  ultimately show ?thesis using started keep unfolding chain_ok_def by (simp only: length_list_update) blast
qed

lemma chain_ok_ready:
  assumes "chain_ok base tail generation cs" "n < length cs" "base \<le> n"
    and "case cs_after (cs ! n) of None \<Rightarrow> True | Some p \<Rightarrow> cs_status (cs ! p) = Send_Settled"
  shows "settled_between base n cs"
proof (cases "cs_after (cs ! n)")
  case (Some p)
  then have p: "Suc p = n" "base \<le> p" "cs_status (cs ! p) = Send_Settled"
    using assms by (auto simp: chain_ok_def)
  then have "settled_between base p cs" using assms(1,2) by (auto simp: chain_ok_def)
  then show ?thesis using p by (auto simp: settled_between_def less_Suc_eq)
qed (use assms in \<open>auto simp: chain_ok_def\<close>)

lemma chain_ok_untail:
  assumes ok: "chain_ok base (Some n) generation cs" and settled: "settled_between base (length cs) cs"
  shows "chain_ok base None generation cs"
  using ok settled unfolding chain_ok_def by simp

lemma run_sends: "sends_ok s \<Longrightarrow> send_ready n s \<Longrightarrow> sends_ok (run_send n s)"
proof -
  assume "sends_ok s" and ready: "send_ready n s"
  then obtain base where ok: "chain_ok base (xq_tail s) (xq_generation s) (xq_sends s)" by (auto simp: sends_ok_def)
  have n: "n < length (xq_sends s)" "cs_status (xq_sends s ! n) \<noteq> Send_Settled"
    and free: "case cs_after (xq_sends s ! n) of None \<Rightarrow> True | Some p \<Rightarrow> cs_status (xq_sends s ! p) = Send_Settled"
    using ready by (auto simp: send_ready_def)
  have "settled_between base n (xq_sends s)" if "base \<le> n" by (rule chain_ok_ready [OF ok n(1) that free])
  then show ?thesis unfolding sends_ok_def run_send_def
    by (intro exI [of _ base]) (auto simp: set_send_fields intro!: chain_ok_status [OF ok n])
qed

lemma end_sends:
  assumes "sends_ok s" "n < length (xq_sends s)" "cs_status (xq_sends s ! n) = Send_Running"
  shows "sends_ok (end_send n s)"
proof -
  obtain base where ok: "chain_ok base (xq_tail s) (xq_generation s) (xq_sends s)" using assms(1) by (auto simp: sends_ok_def)
  have "settled_between base n (xq_sends s)" if "base \<le> n" using ok assms(2,3) that by (auto simp: chain_ok_def)
  then show ?thesis unfolding sends_ok_def end_send_def using assms(2,3)
    by (intro exI [of _ base]) (auto simp: set_send_fields intro!: chain_ok_status [OF ok])
qed

lemma settle_sends:
  assumes "sends_ok s" "n < length (xq_sends s)" "cs_status (xq_sends s ! n) = Send_Ended"
  shows "sends_ok (settle_send n s)"
proof -
  obtain base where ok: "chain_ok base (xq_tail s) (xq_generation s) (xq_sends s)" using assms(1) by (auto simp: sends_ok_def)
  let ?cs = "(xq_sends s)[n := (xq_sends s ! n)\<lparr>cs_status := Send_Settled\<rparr>]"
  have before: "settled_between base n (xq_sends s)" if "base \<le> n" using ok assms(2,3) that by (auto simp: chain_ok_def)
  then have cs: "chain_ok base (xq_tail s) (xq_generation s) ?cs"
    using assms(2,3) by (intro chain_ok_status [OF ok]) auto
  show ?thesis
  proof (cases "xq_tail s = Some n")
    case True
    then have n: "Suc n = length (xq_sends s)" "base \<le> n" using ok by (auto simp: chain_ok_def)
    then have "settled_between base (length ?cs) ?cs"
      using before by (auto simp: settled_between_def nth_list_update less_Suc_eq)
    then have "chain_ok base None (xq_generation s) ?cs" using cs unfolding True by (intro chain_ok_untail)
    then show ?thesis using True
      unfolding sends_ok_def settle_send_def Let_def by (auto simp: set_send_fields)
  next
    case False
    then show ?thesis using cs unfolding sends_ok_def settle_send_def Let_def by (auto simp: set_send_fields)
  qed
qed

lemma clear_sends: "sends_ok s \<Longrightarrow> sends_ok (fst (clear_operations s))"
proof -
  assume "sends_ok s"
  then have "\<forall>j < length (xq_sends s). cs_generation (xq_sends s ! j) \<le> xq_generation s"
    by (auto simp: sends_ok_def chain_ok_def)
  then have "chain_ok (length (xq_sends s)) None (Suc (xq_generation s)) (xq_sends s)"
    by (auto simp: chain_ok_def settled_between_def)
  then show ?thesis unfolding sends_ok_def by (intro exI) (simp add: clear_state ext_fields)
qed

lemma same_sends:
  "sends_ok s \<Longrightarrow> xq_sends s' = xq_sends s \<Longrightarrow> xq_tail s' = xq_tail s \<Longrightarrow> xq_generation s' = xq_generation s \<Longrightarrow> sends_ok s'"
  by (simp add: sends_ok_def)

lemma create_sends: "sends_ok (fst (create_message now i s)) \<longleftrightarrow> sends_ok s"
  by (simp add: sends_ok_def create_message_def next_ext_queue_id_def Let_def split: option.split)

lemma cancel_queued_sends: "sends_ok s \<Longrightarrow> sends_ok (fst (cancel_queued q s))"
  by (simp add: cancel_queued_def Let_def sends_ok_def ext_fields)

lemma ext_step_sends: "ext_step s s' \<Longrightarrow> sends_ok s \<Longrightarrow> sends_ok s'"
proof (induction rule: ext_step.induct)
  case (Create s now i)
  then show ?case by (simp add: create_sends)
next
  case (Enqueue s now i)
  then show ?case
    using create_sends [of now i s] same_sends [of "fst (create_message now i s)"]
    by (simp add: enqueue_message_def enqueue_existing_def split: prod.split)
next
  case (Requeue r s g s')
  then show ?case by (elim same_sends) (auto simp: enqueue_existing_def split: if_splits)
next
  case (Defer r s g s')
  then show ?case
    by (elim same_sends) (auto simp: defer_to_boundary_def enqueue_existing_def ext_fields split: if_splits)
next
  case (Config s now patch source)
  then show ?case
    by (elim same_sends) (simp_all add: enqueue_config_def Let_def split: list.split ext_item.split)
next
  case (Clear s)
  then show ?case by (rule clear_sends)
next
  case (Cancel_Owner s ow)
  obtain rs where "cancel_owned ow (rev (xq_queue s)) s = (fold cancel_op rs s, rs)" using cancel_owned_fold by blast
  then show ?case using Cancel_Owner by (elim same_sends) (simp_all add: cancel_by_owner_def ext_fields)
next
  case (Cancel_Request s q)
  then show ?case using cancel_queued_sends by (simp add: cancel_by_request_def split: option.split)
next
  case (Consume s)
  then show ?case by (elim same_sends) (simp_all add: consume_configs_def split: prod.split)
next
  case (Reserve s rt)
  have "xq_sends (fst (reserve_operation rt s)) = xq_sends s \<and> xq_tail (fst (reserve_operation rt s)) = xq_tail s \<and>
      xq_generation (fst (reserve_operation rt s)) = xq_generation s"
    by (simp add: reserve_operation_def Let_def)
  then show ?case using Reserve
    by (cases "reserve_operation rt s"; elim same_sends)
      (simp_all add: reserve_for_drain_def unshift_operation_def release_reservation_def split: option.split ext_item.split)
next
  case (Release s item)
  then show ?case by (cases item) (simp_all add: release_reservation_def sends_ok_def)
next
  case (Front s q)
  then show ?case by (elim same_sends) (simp_all add: move_ext_to_front_def Let_def ext_fields)
next
  case (Chain g s)
  then show ?case using chain_ok_chain by (fastforce simp: sends_ok_def chain_send_def)
next
  case (Project r s f)
  then show ?case by (elim same_sends) (simp_all add: change_projection_def ext_fields)
next
  case (Settle r s result)
  then show ?case by (elim same_sends) (simp_all add: settle_op_def ext_fields)
next
  case (Begin_Flight r s)
  then show ?case by (elim same_sends) (simp_all add: begin_flight_def)
next
  case (End_Flight s r)
  then show ?case by (elim same_sends) (simp_all add: end_flight_def)
next
  case (Draining s b)
  then show ?case by (elim same_sends) simp_all
qed (blast intro: cancel_queued_sends run_sends end_sends settle_sends)+

lemma ext_reachable_sends: "ext_reachable s \<Longrightarrow> sends_ok s"
proof (induction rule: ext_reachable.induct)
  case Start
  then show ?case by (auto simp: sends_ok_def chain_ok_def empty_ext_queue_def settled_between_def)
qed (rule ext_step_sends)

text \<open>C28. Dispatches of the live generation run strictly one after another, in the order in which they
  were asked for: whatever calls came in between, a send that has left its waiting state proves that
  every earlier send of the generation is settled, so no two of them ever run together.\<close>

theorem sends_run_one_by_one:
  assumes "ext_reachable s" "i < j" "j < length (xq_sends s)"
    and "cs_generation (xq_sends s ! i) = xq_generation s" "cs_generation (xq_sends s ! j) = xq_generation s"
    and "cs_status (xq_sends s ! j) \<noteq> Send_Waiting"
  shows "cs_status (xq_sends s ! i) = Send_Settled"
proof -
  obtain base where ok: "chain_ok base (xq_tail s) (xq_generation s) (xq_sends s)"
    using ext_reachable_sends [OF assms(1)] by (auto simp: sends_ok_def)
  then have "base \<le> i" using assms(2-4) unfolding chain_ok_def by (metis less_irrefl less_trans not_le)
  moreover have "settled_between base j (xq_sends s)" using ok assms(2,3,6) \<open>base \<le> i\<close> unfolding chain_ok_def
    by (metis le_trans less_imp_le)
  ultimately show ?thesis using assms(2) by (simp add: settled_between_def)
qed

definition sample_sends :: ext_queue where
  "sample_sends = run_send 1 (settle_send 0 (end_send 0 (run_send 0
     (fst (chain_send (Some 0) (fst (chain_send (Some 0) empty_ext_queue)))))))"

lemma sends_run_one_by_one_witness:
  "cs_status (xq_sends sample_sends ! 1) = Send_Running \<and> cs_status (xq_sends sample_sends ! 0) = Send_Settled"
proof -
  let ?c = "fst (chain_send (Some 0) (fst (chain_send (Some 0) empty_ext_queue)))"
  have "ext_reachable (fst (chain_send (Some 0) empty_ext_queue))"
    by (rule Step [OF Start Chain]) simp
  then have "ext_reachable ?c" by (rule Step [OF _ Chain]) simp
  then have "ext_reachable (run_send 0 ?c)" by (rule Step [OF _ Run]) code_simp
  then have "ext_reachable (end_send 0 (run_send 0 ?c))" by (rule Step [OF _ End_Send]) code_simp+
  then have "ext_reachable (settle_send 0 (end_send 0 (run_send 0 ?c)))" by (rule Step [OF _ Settle_Send]) code_simp+
  then have reach: "ext_reachable sample_sends" unfolding sample_sends_def by (rule Step [OF _ Run]) code_simp
  have run: "cs_status (xq_sends sample_sends ! 1) = Send_Running" by code_simp
  have "cs_status (xq_sends sample_sends ! 0) = Send_Settled"
    by (rule sends_run_one_by_one [OF reach, of 0 1]) code_simp+
  then show ?thesis using run by simp
qed

end
