(* ===== verification/BridgeResponse.thy ===== *)
theory BridgeResponse
  imports JsText
begin

text \<open>
  The answers that the OpenAI bridge translates: the Anthropic messages of openai-bridge/types/anthropic.ts,
  token usage of translate/usage.ts, tool calls of translate/tools.ts, and the two non-streaming
  translations of translate/response.ts and translate/response-responses.ts. \<open>JSON.parse\<close> is an argument
  with None where it throws; fresh tool ids are a supply that is numbered.
\<close>

section \<open>Anthropic messages\<close>

datatype stop_reason = End_Turn | Max_Tokens | Stop_Sequence | Tool_Use

record anthropic_usage =
  au_input :: int
  au_output :: int
  au_cache_creation :: "int option"
  au_cache_read :: "int option"

datatype content_block =
    Text_Content jstr
  | Tool_Content jstr jstr json
  | Thinking_Content jstr jstr

record anthropic_response =
  ar_id :: jstr
  ar_content :: "content_block list"
  ar_model :: jstr
  ar_stop :: "stop_reason option"
  ar_stop_sequence :: "jstr option"
  ar_usage :: anthropic_usage

section \<open>Usage\<close>

text \<open>A field of the upstream usage: absent or null, a value that is no finite number, or a number.\<close>

datatype usage_value = Missing | Malformed | Count int

record usage_snapshot =
  us_input :: int
  us_output :: int
  us_cache_read :: int
  us_cache_creation :: int
  us_reasoning :: int

definition no_usage :: usage_snapshot where
  "no_usage = \<lparr>us_input = 0, us_output = 0, us_cache_read = 0, us_cache_creation = 0, us_reasoning = 0\<rparr>"

datatype bridge_protocol = Chat_Completions | Responses_Api

record usage_parts =
  up_protocol :: bridge_protocol
  up_total :: usage_value
  up_output :: usage_value
  up_cache_read :: usage_value
  up_cache_creation :: usage_value
  up_reasoning :: usage_value

definition finite_non_negative :: "usage_value \<Rightarrow> jstr \<Rightarrow> jstr list \<Rightarrow> int \<times> jstr list" where
  "finite_non_negative v field invalid =
     (case v of
        Count n \<Rightarrow> if 0 \<le> n then (n, invalid) else (0, invalid @ [field])
      | Malformed \<Rightarrow> (0, invalid @ [field])
      | Missing \<Rightarrow> (0, invalid))"

definition protocol_name :: "bridge_protocol \<Rightarrow> jstr" where
  "protocol_name p = (case p of Chat_Completions \<Rightarrow> js ''chat_completions'' | Responses_Api \<Rightarrow> js ''responses'')"

fun first_of_each :: "'a list \<Rightarrow> 'a list" where
  "first_of_each [] = []"
| "first_of_each (x # xs) = x # filter (\<lambda>y. y \<noteq> x) (first_of_each xs)"

text \<open>The snapshot, and the warning that is logged when a field was malformed.\<close>

definition normalize_usage :: "usage_parts \<Rightarrow> usage_snapshot \<times> jstr option" where
  "normalize_usage p =
     (let (total, f1) = finite_non_negative (up_total p) (js ''total_input'') [];
          (raw_read, f2) = finite_non_negative (up_cache_read p) (js ''cache_read'') f1;
          (raw_creation, f3) = finite_non_negative (up_cache_creation p) (js ''cache_write'') f2;
          (output, f4) = finite_non_negative (up_output p) (js ''output'') f3;
          (reasoning, f5) = finite_non_negative (up_reasoning p) (js ''reasoning'') f4;
          read = min raw_read total;
          creation = min raw_creation (total - read);
          invalid = (if total < raw_read + raw_creation then f5 @ [js ''cache_partitions_exceed_total''] else f5)
      in (\<lparr>us_input = total - read - creation, us_output = output, us_cache_read = read,
           us_cache_creation = creation, us_reasoning = reasoning\<rparr>,
          if invalid = [] then None
          else Some (js ''[bridge] Malformed '' @ protocol_name (up_protocol p) @ js '' usage fields=''
            @ join_with (js '','') (first_of_each invalid) @ js '' normalized_total='' @ dec_int total
            @ js '' normalized_read='' @ dec_int read @ js '' normalized_write='' @ dec_int creation)))"

record upstream_usage =
  ou_total :: usage_value
  ou_output :: usage_value
  ou_cache_read :: usage_value
  ou_cache_creation :: usage_value
  ou_reasoning :: usage_value

definition from_usage :: "bridge_protocol \<Rightarrow> upstream_usage option \<Rightarrow> usage_snapshot \<times> jstr option" where
  "from_usage protocol usage =
     (case usage of
        None \<Rightarrow> (no_usage, None)
      | Some u \<Rightarrow> normalize_usage
          \<lparr>up_protocol = protocol, up_total = ou_total u, up_output = ou_output u, up_cache_read = ou_cache_read u,
           up_cache_creation = ou_cache_creation u, up_reasoning = ou_reasoning u\<rparr>)"

definition to_anthropic_usage :: "usage_snapshot \<Rightarrow> anthropic_usage" where
  "to_anthropic_usage s =
     \<lparr>au_input = us_input s, au_output = us_output s,
      au_cache_creation = (if 0 < us_cache_creation s then Some (us_cache_creation s) else None),
      au_cache_read = (if 0 < us_cache_read s then Some (us_cache_read s) else None)\<rparr>"

definition or_count :: "usage_value \<Rightarrow> int \<Rightarrow> usage_value" where
  "or_count v n = (case v of Missing \<Rightarrow> Count n | _ \<Rightarrow> v)"

definition existing_total :: "usage_snapshot \<Rightarrow> int" where
  "existing_total s = us_input s + us_cache_read s + us_cache_creation s"

definition merge_bridge_usage :: "usage_snapshot \<Rightarrow> upstream_usage option \<Rightarrow> usage_snapshot \<times> jstr option" where
  "merge_bridge_usage existing usage =
     (case usage of
        None \<Rightarrow> (existing, None)
      | Some u \<Rightarrow> normalize_usage
          \<lparr>up_protocol = Chat_Completions, up_total = or_count (ou_total u) (existing_total existing),
           up_output = or_count (ou_output u) (us_output existing),
           up_cache_read = or_count (ou_cache_read u) (us_cache_read existing),
           up_cache_creation = or_count (ou_cache_creation u) (us_cache_creation existing),
           up_reasoning = or_count (ou_reasoning u) (us_reasoning existing)\<rparr>)"

text \<open>The parts that are billed apart add up to the total input.\<close>

definition usage_ok :: "usage_snapshot \<Rightarrow> bool" where
  "usage_ok s \<longleftrightarrow> 0 \<le> us_input s \<and> 0 \<le> us_output s \<and> 0 \<le> us_cache_read s \<and> 0 \<le> us_cache_creation s
     \<and> 0 \<le> us_reasoning s"

lemma finite_non_negative_ok: "0 \<le> fst (finite_non_negative v field invalid)"
  by (simp add: finite_non_negative_def split: usage_value.split)

lemma finite_non_negative_fst: "fst (finite_non_negative v field invalid) = fst (finite_non_negative v [] [])"
  by (simp add: finite_non_negative_def split: usage_value.split)

definition counted :: "usage_value \<Rightarrow> int" where
  "counted v = (case v of Count n \<Rightarrow> max 0 n | _ \<Rightarrow> 0)"

lemma finite_counted: "fst (finite_non_negative v field invalid) = counted v"
  by (simp add: finite_non_negative_def counted_def split: usage_value.split)

lemma normalize_usage_fst:
  "fst (normalize_usage p) =
     (let total = counted (up_total p); read = min (counted (up_cache_read p)) total;
          creation = min (counted (up_cache_creation p)) (total - read)
      in \<lparr>us_input = total - read - creation, us_output = counted (up_output p), us_cache_read = read,
          us_cache_creation = creation, us_reasoning = counted (up_reasoning p)\<rparr>)"
  using finite_counted by (simp add: normalize_usage_def Let_def split: prod.split) (metis fst_conv)

lemma counted_nonneg: "0 \<le> counted v"
  by (simp add: counted_def split: usage_value.split)

lemma normalize_usage_ok:
  "usage_ok (fst (normalize_usage p)) \<and> existing_total (fst (normalize_usage p)) = counted (up_total p)"
  by (simp add: normalize_usage_fst usage_ok_def existing_total_def Let_def counted_nonneg)

lemma merge_usage_ok: "usage_ok s \<Longrightarrow> usage_ok (fst (merge_bridge_usage s u))"
  by (simp add: merge_bridge_usage_def normalize_usage_ok split: option.split)

section \<open>Tool calls\<close>

definition not_object :: "json \<Rightarrow> json" where
  "not_object v = (case v of JObj _ \<Rightarrow> v | _ \<Rightarrow> JObj [(js ''value'', v)])"

definition safe_parse_json :: "(jstr \<Rightarrow> json option) \<Rightarrow> jstr \<Rightarrow> json" where
  "safe_parse_json parse str =
     (if str = [] \<or> trim str = [] then JObj []
      else (let trimmed = trim str in
        case parse trimmed of
          Some v \<Rightarrow> not_object v
        | None \<Rightarrow>
            (let last_brace = last_index 125 trimmed in
             if 0 < last_brace
             then (case parse (take (nat last_brace + 1) trimmed) of Some v \<Rightarrow> not_object v | None \<Rightarrow> JObj [])
             else JObj [])))"

record upstream_call =
  uc_id :: "jstr option"
  uc_name :: jstr
  uc_arguments :: jstr

text \<open>\<open>x || generateToolUseId()\<close>: the id, and how many ids of the supply were used before.\<close>

definition or_fresh :: "(nat \<Rightarrow> jstr) \<Rightarrow> nat \<Rightarrow> jstr option \<Rightarrow> jstr \<times> nat" where
  "or_fresh fresh n i = (if truthy i then (the i, n) else (fresh n, Suc n))"

fun translate_tool_calls ::
    "(jstr \<Rightarrow> json option) \<Rightarrow> (nat \<Rightarrow> jstr) \<Rightarrow> nat \<Rightarrow> upstream_call list \<Rightarrow> content_block list" where
  "translate_tool_calls parse fresh n [] = []"
| "translate_tool_calls parse fresh n (c # cs) =
     (let (i, n') = or_fresh fresh n (uc_id c)
      in Tool_Content i (uc_name c) (safe_parse_json parse (uc_arguments c))
         # translate_tool_calls parse fresh n' cs)"

record tool_definition =
  tf_name :: jstr
  tf_description :: "jstr option"
  tf_schema :: json

record openai_function =
  of_name :: jstr
  of_description :: "jstr option"
  of_parameters :: json

definition translate_tool_definitions :: "tool_definition list \<Rightarrow> openai_function list" where
  "translate_tool_definitions tools =
     map (\<lambda>t. \<lparr>of_name = tf_name t, of_description = tf_description t, of_parameters = tf_schema t\<rparr>) tools"

datatype tool_choice = Choose_Auto "bool option" | Choose_Any "bool option" | Choose_None | Choose_Tool jstr "bool option"

datatype openai_choice = Openai_Auto | Openai_Required | Openai_None | Openai_Function jstr

definition translate_tool_choice :: "tool_choice \<Rightarrow> openai_choice" where
  "translate_tool_choice c =
     (case c of Choose_Auto _ \<Rightarrow> Openai_Auto | Choose_Any _ \<Rightarrow> Openai_Required | Choose_None \<Rightarrow> Openai_None
      | Choose_Tool name _ \<Rightarrow> Openai_Function name)"

section \<open>Chat completions\<close>

definition translate_stop_reason :: "jstr option \<Rightarrow> stop_reason option" where
  "translate_stop_reason reason =
     (if reason = Some (js ''stop'') then Some End_Turn
      else if reason = Some (js ''length'') then Some Max_Tokens
      else if reason = Some (js ''tool_calls'') then Some Tool_Use
      else if reason = Some (js ''content_filter'') then Some End_Turn
      else if truthy reason then Some End_Turn else None)"

record upstream_message =
  un_content :: "jstr option"
  un_reasoning :: "jstr option"
  un_calls :: "upstream_call list option"

record chat_response =
  cr_choice :: "(upstream_message \<times> jstr option) option"
  cr_usage :: "upstream_usage option"

definition message_content ::
    "(jstr \<Rightarrow> json option) \<Rightarrow> (nat \<Rightarrow> jstr) \<Rightarrow> bool \<Rightarrow> upstream_message \<Rightarrow> content_block list" where
  "message_content parse fresh reasoning m =
     (if reasoning \<and> truthy (un_reasoning m) then [Thinking_Content (the (un_reasoning m)) []] else [])
     @ (if truthy (un_content m) then [Text_Content (the (un_content m))] else [])
     @ (case un_calls m of Some cs \<Rightarrow> translate_tool_calls parse fresh 0 cs | None \<Rightarrow> [])"

definition at_least_one :: "content_block list \<Rightarrow> content_block list" where
  "at_least_one content = (if content = [] then [Text_Content []] else content)"

text \<open>The message id is drawn by the caller of the model.\<close>

definition translate_response ::
    "(jstr \<Rightarrow> json option) \<Rightarrow> (nat \<Rightarrow> jstr) \<Rightarrow> jstr \<Rightarrow> chat_response \<Rightarrow> jstr \<Rightarrow> bool \<Rightarrow> anthropic_response" where
  "translate_response parse fresh message_id r model reasoning =
     \<lparr>ar_id = message_id,
      ar_content = at_least_one
        (case cr_choice r of Some (m, _) \<Rightarrow> message_content parse fresh reasoning m | None \<Rightarrow> []),
      ar_model = model,
      ar_stop = translate_stop_reason (Option.bind (cr_choice r) snd),
      ar_stop_sequence = None,
      ar_usage = to_anthropic_usage (fst (from_usage Chat_Completions (cr_usage r)))\<rparr>"

section \<open>Responses\<close>

datatype response_part = Output_Text jstr | Refusal jstr

datatype output_item =
    Message_Output "response_part list"
  | Call_Output jstr jstr jstr
  | Reasoning_Output "jstr list option"

datatype response_status = Rs_Completed | Rs_Failed | Rs_In_Progress | Rs_Incomplete

record responses_response =
  rr_status :: response_status
  rr_output :: "output_item list"
  rr_usage :: "upstream_usage option"
  rr_error :: "(jstr \<times> jstr) option"
  rr_incomplete :: "jstr option"

record responses_error =
  re_code :: jstr
  re_message :: jstr

definition response_status_name :: "response_status \<Rightarrow> jstr" where
  "response_status_name s =
     (case s of Rs_Completed \<Rightarrow> js ''completed'' | Rs_Failed \<Rightarrow> js ''failed''
      | Rs_In_Progress \<Rightarrow> js ''in_progress'' | Rs_Incomplete \<Rightarrow> js ''incomplete'')"

definition resolve_stop_reason :: "responses_response \<Rightarrow> bool \<Rightarrow> responses_error + stop_reason" where
  "resolve_stop_reason r has_tool =
     (case rr_status r of
        Rs_Failed \<Rightarrow>
          Inl (case rr_error r of
                 Some (code, message) \<Rightarrow> \<lparr>re_code = code, re_message = message\<rparr>
               | None \<Rightarrow> \<lparr>re_code = js ''api_error'', re_message = js ''Unknown upstream error''\<rparr>)
      | Rs_Incomplete \<Rightarrow>
          (let reason = (case rr_incomplete r of Some x \<Rightarrow> x | None \<Rightarrow> js ''unknown'') in
           if reason = js ''max_output_tokens'' \<and> \<not> has_tool then Inr Max_Tokens
           else Inl \<lparr>re_code = js ''api_error'',
                     re_message = js ''Upstream response incomplete: '' @ reason
                       @ (if has_tool then js '' (tool call unfinished)'' else [])\<rparr>)
      | Rs_Completed \<Rightarrow> Inr (if has_tool then Tool_Use else End_Turn)
      | Rs_In_Progress \<Rightarrow>
          Inl \<lparr>re_code = js ''api_error'',
               re_message = js ''Upstream response has no terminal status: '' @ response_status_name (rr_status r)\<rparr>)"

definition translate_output_item :: "(jstr \<Rightarrow> json option) \<Rightarrow> output_item \<Rightarrow> content_block list" where
  "translate_output_item parse item =
     (case item of
        Message_Output parts \<Rightarrow>
          concat (map (\<lambda>p. case p of
              Output_Text t \<Rightarrow> if t \<noteq> [] then [Text_Content t] else []
            | Refusal t \<Rightarrow> [Text_Content (js ''[Refusal]: '' @ t)]) parts)
      | Call_Output call_id name args \<Rightarrow> [Tool_Content call_id name (safe_parse_json parse args)]
      | Reasoning_Output summary \<Rightarrow>
          (case summary of
             None \<Rightarrow> []
           | Some ts \<Rightarrow> (let thinking = join_with [10] (filter (\<lambda>t. t \<noteq> []) ts)
                        in if thinking \<noteq> [] then [Thinking_Content thinking []] else [])))"

definition is_call :: "output_item \<Rightarrow> bool" where
  "is_call item = (case item of Call_Output _ _ _ \<Rightarrow> True | _ \<Rightarrow> False)"

definition translate_responses_response ::
    "(jstr \<Rightarrow> json option) \<Rightarrow> jstr \<Rightarrow> responses_response \<Rightarrow> jstr \<Rightarrow> responses_error + anthropic_response" where
  "translate_responses_response parse message_id r model =
     rbind (resolve_stop_reason r (list_ex is_call (rr_output r))) (\<lambda>stop.
       Inr \<lparr>ar_id = message_id,
            ar_content = at_least_one (concat (map (translate_output_item parse) (rr_output r))),
            ar_model = model, ar_stop = Some stop, ar_stop_sequence = None,
            ar_usage = to_anthropic_usage (fst (from_usage Responses_Api (rr_usage r)))\<rparr>)"

text \<open>Tool use is only reported for a response that was completed, and then it holds a call.\<close>

lemma call_content:
  assumes "list_ex is_call items"
  shows "\<exists>i name input. Tool_Content i name input \<in> set (concat (map (translate_output_item parse) items))"
proof -
  obtain i name args where "Call_Output i name args \<in> set items"
  proof -
    obtain x where "x \<in> set items" "is_call x" using assms by (auto simp: list_ex_iff)
    then show ?thesis using that by (cases x rule: output_item.exhaust) (simp_all add: is_call_def)
  qed
  moreover have "Tool_Content i name (safe_parse_json parse args) \<in> set (translate_output_item parse (Call_Output i name args))"
    by (simp add: translate_output_item_def)
  ultimately show ?thesis unfolding set_concat set_map by blast
qed

lemma tool_use_complete:
  assumes "translate_responses_response parse message_id r model = Inr a" "ar_stop a = Some Tool_Use"
  shows "rr_status r = Rs_Completed \<and> (\<exists>i name input. Tool_Content i name input \<in> set (ar_content a))"
proof -
  have "resolve_stop_reason r (list_ex is_call (rr_output r)) = Inr Tool_Use"
    and content: "ar_content a = at_least_one (concat (map (translate_output_item parse) (rr_output r)))"
    using assms by (auto simp: translate_responses_response_def rbind_def split: sum.splits)
  then have "rr_status r = Rs_Completed" and "list_ex is_call (rr_output r)"
    by (auto simp: resolve_stop_reason_def Let_def split: response_status.splits if_splits)
  then obtain i name input where
    tool: "Tool_Content i name input \<in> set (concat (map (translate_output_item parse) (rr_output r)))"
    using call_content by blast
  then have "concat (map (translate_output_item parse) (rr_output r)) \<noteq> []" by (metis empty_iff empty_set)
  then have "ar_content a = concat (map (translate_output_item parse) (rr_output r))"
    using content by (simp only: at_least_one_def if_False)
  then show ?thesis using tool \<open>rr_status r = Rs_Completed\<close> by metis
qed

end
