(* ===== verification/BridgeStream.thy ===== *)
theory BridgeStream
  imports BridgeResponse
begin

text \<open>
  Streaming: openai-bridge/translate/stream.ts turns the chunks of a chat completion into Anthropic
  events. The reader of those events is a model of its own, the protocol that the events must
  follow; the properties say what it sees.
\<close>

section \<open>Events\<close>

datatype stream_delta = Text_Delta jstr | Thinking_Delta jstr | Json_Delta jstr

datatype stream_event =
    Message_Start anthropic_response
  | Block_Start nat content_block
  | Block_Delta nat stream_delta
  | Block_Stop nat
  | Message_Delta "stop_reason option" anthropic_usage
  | Message_Stop
  | Stream_Error jstr jstr

record tool_delta =
  tk_index :: int
  tk_id :: "jstr option"
  tk_name :: "jstr option"
  tk_arguments :: "jstr option"

record stream_choice =
  sc_content :: "jstr option"
  sc_reasoning :: "jstr option"
  sc_calls :: "tool_delta list option"
  sc_finish :: "jstr option"

record stream_chunk =
  ck_choice :: "stream_choice option"
  ck_usage :: "upstream_usage option"

section \<open>The translator\<close>

datatype block_kind = Text_Block | Thinking_Block | Tool_Block

record tool_buffer =
  tb_id :: jstr
  tb_name :: jstr
  tb_args :: jstr

record translator =
  tr_message_id :: jstr
  tr_model :: jstr
  tr_index :: nat
  tr_active :: "block_kind option"
  tr_buffers :: "(int \<times> tool_buffer) list"
  tr_usage :: usage_snapshot
  tr_started :: bool
  tr_finished :: bool
  tr_stop :: "stop_reason option"
  tr_reasoning :: bool
  tr_warns :: bool
  tr_log :: "jstr list"
  tr_used_ids :: nat

definition new_translator :: "jstr \<Rightarrow> jstr \<Rightarrow> bool \<Rightarrow> bool \<Rightarrow> translator" where
  "new_translator message_id model reasoning warns =
     \<lparr>tr_message_id = message_id, tr_model = model, tr_index = 0, tr_active = None, tr_buffers = [],
      tr_usage = no_usage, tr_started = False, tr_finished = False, tr_stop = None, tr_reasoning = reasoning,
      tr_warns = warns, tr_log = [], tr_used_ids = 0\<rparr>"

text \<open>Each step returns the state of its translator and the events it pushes.\<close>

type_synonym 's step = "'s \<Rightarrow> 's \<times> stream_event list"

definition then_do :: "'s step \<Rightarrow> 's step \<Rightarrow> 's step" where
  "then_do f g t = (let (t1, e1) = f t; (t2, e2) = g t1 in (t2, e1 @ e2))"

definition do_nothing :: "'s step" where
  "do_nothing t = (t, [])"

definition close_active :: "translator step" where
  "close_active t =
     (if tr_active t \<noteq> None then (t\<lparr>tr_index := Suc (tr_index t), tr_active := None\<rparr>, [Block_Stop (tr_index t)])
      else (t, []))"

definition open_block :: "block_kind \<Rightarrow> content_block \<Rightarrow> translator step" where
  "open_block kind block t = (t\<lparr>tr_active := Some kind\<rparr>, [Block_Start (tr_index t) block])"

definition push_delta :: "stream_delta \<Rightarrow> translator step" where
  "push_delta d t = (t, [Block_Delta (tr_index t) d])"

definition reopen :: "block_kind \<Rightarrow> content_block \<Rightarrow> translator step" where
  "reopen kind block t =
     (if tr_active t = Some kind then (t, []) else then_do close_active (open_block kind block) t)"

definition start_message :: "translator \<Rightarrow> stream_event" where
  "start_message t =
     Message_Start \<lparr>ar_id = tr_message_id t, ar_content = [], ar_model = tr_model t, ar_stop = None,
       ar_stop_sequence = None, ar_usage = to_anthropic_usage (tr_usage t)\<rparr>"

definition ensure_started :: "translator step" where
  "ensure_started t = (if tr_started t then (t, []) else (t\<lparr>tr_started := True\<rparr>, [start_message t]))"

text \<open>A warning is logged once for a translator.\<close>

definition warn_once :: "jstr option \<Rightarrow> translator \<Rightarrow> translator" where
  "warn_once w t =
     (case w of Some m \<Rightarrow> if tr_warns t \<and> tr_log t = [] then t\<lparr>tr_log := [m]\<rparr> else t | None \<Rightarrow> t)"

definition track_usage :: "upstream_usage option \<Rightarrow> translator step" where
  "track_usage u t =
     (case u of None \<Rightarrow> (t, [])
      | Some _ \<Rightarrow> (let (s, w) = merge_bridge_usage (tr_usage t) u in (warn_once w (t\<lparr>tr_usage := s\<rparr>), [])))"

definition start_call :: "(nat \<Rightarrow> jstr) \<Rightarrow> tool_delta \<Rightarrow> translator step" where
  "start_call fresh d t =
     (if map_has (tk_index d) (tr_buffers t) then (t, [])
      else then_do close_active
        (\<lambda>t. let (i, n) = or_fresh fresh (tr_used_ids t) (tk_id d);
                 name = (if truthy (tk_name d) then the (tk_name d) else [])
             in open_block Tool_Block (Tool_Content i name (JObj []))
                  (t\<lparr>tr_buffers := map_set (tk_index d) \<lparr>tb_id = i, tb_name = name, tb_args = []\<rparr> (tr_buffers t),
                     tr_used_ids := n\<rparr>)) t)"

definition push_arguments :: "tool_delta \<Rightarrow> translator step" where
  "push_arguments d t =
     (if truthy (tk_arguments d)
      then (let b = the (map_of (tr_buffers t) (tk_index d))
            in push_delta (Json_Delta (the (tk_arguments d)))
                 (t\<lparr>tr_buffers := map_set (tk_index d) (b\<lparr>tb_args := tb_args b @ the (tk_arguments d)\<rparr>)
                                   (tr_buffers t)\<rparr>))
      else (t, []))"

definition handle_tool_delta :: "(nat \<Rightarrow> jstr) \<Rightarrow> tool_delta \<Rightarrow> translator step" where
  "handle_tool_delta fresh d = then_do (start_call fresh d) (push_arguments d)"

fun handle_tool_deltas :: "(nat \<Rightarrow> jstr) \<Rightarrow> tool_delta list \<Rightarrow> translator step" where
  "handle_tool_deltas fresh [] = do_nothing"
| "handle_tool_deltas fresh (d # ds) = then_do (handle_tool_delta fresh d) (handle_tool_deltas fresh ds)"

definition push_reasoning :: "jstr option \<Rightarrow> translator step" where
  "push_reasoning r t =
     (if tr_reasoning t \<and> truthy r
      then then_do (reopen Thinking_Block (Thinking_Content [] [])) (push_delta (Thinking_Delta (the r))) t
      else (t, []))"

definition push_text :: "jstr option \<Rightarrow> translator step" where
  "push_text r t =
     (if truthy r then then_do (reopen Text_Block (Text_Content [])) (push_delta (Text_Delta (the r))) t else (t, []))"

definition note_finish :: "jstr option \<Rightarrow> translator step" where
  "note_finish r t =
     (if truthy r
      then (let (t1, e) = close_active t in (t1\<lparr>tr_stop := translate_stop_reason r\<rparr>, e))
      else (t, []))"

definition translate_choice :: "(nat \<Rightarrow> jstr) \<Rightarrow> stream_choice option \<Rightarrow> translator step" where
  "translate_choice fresh choice =
     (case choice of
        None \<Rightarrow> do_nothing
      | Some c \<Rightarrow>
          then_do (push_reasoning (sc_reasoning c)) (then_do (push_text (sc_content c))
            (then_do (handle_tool_deltas fresh (case sc_calls c of Some ds \<Rightarrow> ds | None \<Rightarrow> []))
              (note_finish (sc_finish c)))))"

definition feed_chunk :: "(nat \<Rightarrow> jstr) \<Rightarrow> stream_chunk \<Rightarrow> translator step" where
  "feed_chunk fresh chunk =
     then_do ensure_started (then_do (track_usage (ck_usage chunk)) (translate_choice fresh (ck_choice chunk)))"

definition finalize_stream :: "translator step" where
  "finalize_stream t =
     (if tr_finished t \<or> \<not> tr_started t then (t, [])
      else then_do close_active
        (\<lambda>t. (t\<lparr>tr_finished := True\<rparr>,
               [Message_Delta (Some (case tr_stop t of Some r \<Rightarrow> r | None \<Rightarrow> End_Turn)) (to_anthropic_usage (tr_usage t)),
                Message_Stop])) t)"

fun feed_chunks :: "(nat \<Rightarrow> jstr) \<Rightarrow> stream_chunk list \<Rightarrow> translator step" where
  "feed_chunks fresh [] = do_nothing"
| "feed_chunks fresh (c # cs) = then_do (feed_chunk fresh c) (feed_chunks fresh cs)"

definition translate_stream :: "(nat \<Rightarrow> jstr) \<Rightarrow> stream_chunk list \<Rightarrow> translator step" where
  "translate_stream fresh cs = then_do (feed_chunks fresh cs) finalize_stream"

section \<open>The reader\<close>

text \<open>
  What a reader of the Anthropic protocol accumulates: the message, its blocks, the block that is
  open, and how the message ended. None is a violation of the protocol.
\<close>

datatype read_block = Read_Text jstr | Read_Thinking jstr | Read_Tool jstr jstr jstr

record reader =
  rd_message :: "anthropic_response option"
  rd_blocks :: "read_block list"
  rd_open :: "read_block option"
  rd_end :: "(stop_reason option \<times> anthropic_usage) option"
  rd_stopped :: bool

definition new_reader :: reader where
  "new_reader = \<lparr>rd_message = None, rd_blocks = [], rd_open = None, rd_end = None, rd_stopped = False\<rparr>"

definition starts_as :: "content_block \<Rightarrow> read_block" where
  "starts_as b =
     (case b of Text_Content s \<Rightarrow> Read_Text s | Thinking_Content s _ \<Rightarrow> Read_Thinking s
      | Tool_Content i n _ \<Rightarrow> Read_Tool i n [])"

fun extend_block :: "stream_delta \<Rightarrow> read_block \<Rightarrow> read_block option" where
  "extend_block (Text_Delta s) (Read_Text t) = Some (Read_Text (t @ s))"
| "extend_block (Thinking_Delta s) (Read_Thinking t) = Some (Read_Thinking (t @ s))"
| "extend_block (Json_Delta s) (Read_Tool i n t) = Some (Read_Tool i n (t @ s))"
| "extend_block _ _ = None"

definition still_reading :: "reader \<Rightarrow> bool" where
  "still_reading r \<longleftrightarrow> rd_message r \<noteq> None \<and> rd_end r = None"

fun read_event :: "stream_event \<Rightarrow> reader \<Rightarrow> reader option" where
  "read_event (Message_Start m) r = (if rd_message r = None then Some (r\<lparr>rd_message := Some m\<rparr>) else None)"
| "read_event (Block_Start i b) r =
     (if still_reading r \<and> rd_open r = None \<and> i = length (rd_blocks r) then Some (r\<lparr>rd_open := Some (starts_as b)\<rparr>) else None)"
| "read_event (Block_Delta i d) r =
     (if still_reading r \<and> i = length (rd_blocks r)
      then (case rd_open r of None \<Rightarrow> None
            | Some b \<Rightarrow> map_option (\<lambda>b. r\<lparr>rd_open := Some b\<rparr>) (extend_block d b))
      else None)"
| "read_event (Block_Stop i) r =
     (if still_reading r \<and> i = length (rd_blocks r)
      then (case rd_open r of None \<Rightarrow> None
            | Some b \<Rightarrow> Some (r\<lparr>rd_blocks := rd_blocks r @ [b], rd_open := None\<rparr>))
      else None)"
| "read_event (Message_Delta stop u) r =
     (if still_reading r \<and> rd_open r = None then Some (r\<lparr>rd_end := Some (stop, u)\<rparr>) else None)"
| "read_event Message_Stop r = (if rd_end r \<noteq> None \<and> \<not> rd_stopped r then Some (r\<lparr>rd_stopped := True\<rparr>) else None)"
| "read_event (Stream_Error _ _) r = None"

fun read_events :: "stream_event list \<Rightarrow> reader \<Rightarrow> reader option" where
  "read_events [] r = Some r"
| "read_events (e # es) r = Option.bind (read_event e r) (read_events es)"

text \<open>A block that was read, as the translation of the whole message gives it.\<close>

definition whole :: "(jstr \<Rightarrow> json option) \<Rightarrow> read_block \<Rightarrow> content_block" where
  "whole parse b =
     (case b of Read_Text t \<Rightarrow> Text_Content t | Read_Thinking t \<Rightarrow> Thinking_Content t []
      | Read_Tool i n a \<Rightarrow> Tool_Content i n (safe_parse_json parse a))"

lemma read_events_append: "read_events (a @ b) r = Option.bind (read_events a r) (read_events b)"
  by (induction a arbitrary: r) (auto split: Option.bind_split)

lemma then_do_parts:
  "fst (then_do f g t) = fst (g (fst (f t)))" "snd (then_do f g t) = snd (f t) @ snd (g (fst (f t)))"
  by (simp_all add: then_do_def Let_def split: prod.split)

end
