(* ===== verification/BridgeStreamProperties.thy ===== *)
theory BridgeStreamProperties
  imports BridgeStream
begin

text \<open>
  What a reader sees of a translated stream. A script of the message, without events or indices, says
  what the chunks mean; the translator refines it: the reader accepts every event and ends with the
  blocks of the script. From this follows that streaming a message in any pieces and translating it
  at once agree.
\<close>

section \<open>The script of a message\<close>

record script =
  sp_blocks :: "read_block list"
  sp_open :: "read_block option"
  sp_calls :: "int list"
  sp_current :: "int option"
  sp_used :: nat
  sp_stop :: "stop_reason option"
  sp_usage :: usage_snapshot
  sp_thinks :: bool

definition new_script :: "bool \<Rightarrow> script" where
  "new_script thinks =
     \<lparr>sp_blocks = [], sp_open = None, sp_calls = [], sp_current = None, sp_used = 0, sp_stop = None,
      sp_usage = no_usage, sp_thinks = thinks\<rparr>"

definition all_blocks :: "script \<Rightarrow> read_block list" where
  "all_blocks sp = sp_blocks sp @ (case sp_open sp of Some b \<Rightarrow> [b] | None \<Rightarrow> [])"

definition sp_close :: "script \<Rightarrow> script" where
  "sp_close sp = sp\<lparr>sp_blocks := all_blocks sp, sp_open := None, sp_current := None\<rparr>"

definition say_text :: "jstr option \<Rightarrow> script \<Rightarrow> script" where
  "say_text s sp =
     (if \<not> truthy s then sp
      else case sp_open sp of
          Some (Read_Text t) \<Rightarrow> sp\<lparr>sp_open := Some (Read_Text (t @ the s))\<rparr>
        | _ \<Rightarrow> (sp_close sp)\<lparr>sp_open := Some (Read_Text (the s))\<rparr>)"

definition say_thinking :: "jstr option \<Rightarrow> script \<Rightarrow> script" where
  "say_thinking s sp =
     (if \<not> (sp_thinks sp \<and> truthy s) then sp
      else case sp_open sp of
          Some (Read_Thinking t) \<Rightarrow> sp\<lparr>sp_open := Some (Read_Thinking (t @ the s))\<rparr>
        | _ \<Rightarrow> (sp_close sp)\<lparr>sp_open := Some (Read_Thinking (the s))\<rparr>)"

definition begin_call :: "(nat \<Rightarrow> jstr) \<Rightarrow> tool_delta \<Rightarrow> script \<Rightarrow> script" where
  "begin_call fresh d sp =
     (if tk_index d \<in> set (sp_calls sp) then sp
      else let (i, n) = or_fresh fresh (sp_used sp) (tk_id d)
           in (sp_close sp)\<lparr>sp_calls := sp_calls sp @ [tk_index d], sp_current := Some (tk_index d), sp_used := n,
                sp_open := Some (Read_Tool i (if truthy (tk_name d) then the (tk_name d) else []) [])\<rparr>)"

text \<open>Arguments are in order when the block of their call is the one that is open.\<close>

definition add_arguments :: "tool_delta \<Rightarrow> script \<Rightarrow> script option" where
  "add_arguments d sp =
     (if \<not> truthy (tk_arguments d) then Some sp
      else if sp_current sp \<noteq> Some (tk_index d) then None
      else (case sp_open sp of
          Some (Read_Tool i n a) \<Rightarrow> Some (sp\<lparr>sp_open := Some (Read_Tool i n (a @ the (tk_arguments d)))\<rparr>)
        | _ \<Rightarrow> None))"

fun say_calls :: "(nat \<Rightarrow> jstr) \<Rightarrow> tool_delta list \<Rightarrow> script \<Rightarrow> script option" where
  "say_calls fresh [] sp = Some sp"
| "say_calls fresh (d # ds) sp = Option.bind (add_arguments d (begin_call fresh d sp)) (say_calls fresh ds)"

text \<open>Text or thinking after a call ends the call: later arguments for it are out of order.\<close>

definition say_finish :: "jstr option \<Rightarrow> script \<Rightarrow> script" where
  "say_finish r sp = (if truthy r then (sp_close sp)\<lparr>sp_stop := translate_stop_reason r\<rparr> else sp)"

definition say_choice :: "(nat \<Rightarrow> jstr) \<Rightarrow> stream_choice option \<Rightarrow> script \<Rightarrow> script option" where
  "say_choice fresh choice sp =
     (case choice of
        None \<Rightarrow> Some sp
      | Some c \<Rightarrow>
          map_option (say_finish (sc_finish c))
            (say_calls fresh (case sc_calls c of Some ds \<Rightarrow> ds | None \<Rightarrow> [])
              (say_text (sc_content c) (say_thinking (sc_reasoning c) sp))))"

definition say_chunk :: "(nat \<Rightarrow> jstr) \<Rightarrow> stream_chunk \<Rightarrow> script \<Rightarrow> script option" where
  "say_chunk fresh c sp =
     say_choice fresh (ck_choice c) (sp\<lparr>sp_usage := fst (merge_bridge_usage (sp_usage sp) (ck_usage c))\<rparr>)"

fun say_chunks :: "(nat \<Rightarrow> jstr) \<Rightarrow> stream_chunk list \<Rightarrow> script \<Rightarrow> script option" where
  "say_chunks fresh [] sp = Some sp"
| "say_chunks fresh (c # cs) sp = Option.bind (say_chunk fresh c sp) (say_chunks fresh cs)"

section \<open>The translator refines the script\<close>

definition kind_of :: "read_block \<Rightarrow> block_kind" where
  "kind_of b = (case b of Read_Text _ \<Rightarrow> Text_Block | Read_Thinking _ \<Rightarrow> Thinking_Block | Read_Tool _ _ _ \<Rightarrow> Tool_Block)"

definition sim :: "translator \<Rightarrow> script \<Rightarrow> reader \<Rightarrow> bool" where
  "sim t sp r \<longleftrightarrow>
     tr_started t \<and> \<not> tr_finished t \<and> still_reading r \<and> \<not> rd_stopped r \<and>
     rd_blocks r = sp_blocks sp \<and> rd_open r = sp_open sp \<and> tr_index t = length (sp_blocks sp) \<and>
     tr_active t = map_option kind_of (sp_open sp) \<and>
     (\<forall>i. map_has i (tr_buffers t) \<longleftrightarrow> i \<in> set (sp_calls sp)) \<and> tr_used_ids t = sp_used sp \<and>
     tr_stop t = sp_stop sp \<and> tr_usage t = sp_usage sp \<and> tr_reasoning t = sp_thinks sp"

definition refines_step :: "translator step \<Rightarrow> (script \<Rightarrow> script option) \<Rightarrow> bool" where
  "refines_step f g \<longleftrightarrow>
     (\<forall>t sp r sp'. sim t sp r \<longrightarrow> g sp = Some sp' \<longrightarrow>
        (\<exists>r'. read_events (snd (f t)) r = Some r' \<and> sim (fst (f t)) sp' r'))"

lemma refines_stepI:
  "(\<And>t sp r sp'. sim t sp r \<Longrightarrow> g sp = Some sp' \<Longrightarrow>
      \<exists>r'. read_events (snd (f t)) r = Some r' \<and> sim (fst (f t)) sp' r') \<Longrightarrow> refines_step f g"
  by (simp add: refines_step_def)

lemma refines_then:
  assumes "refines_step f g" "refines_step f' g'"
  shows "refines_step (then_do f f') (\<lambda>sp. Option.bind (g sp) g')"
proof (rule refines_stepI)
  fix t sp r sp'
  assume sim: "sim t sp r" and run: "Option.bind (g sp) g' = Some sp'"
  then obtain mid where mid: "g sp = Some mid" "g' mid = Some sp'" by (auto simp: bind_eq_Some_conv)
  obtain r1 where r1: "read_events (snd (f t)) r = Some r1" "sim (fst (f t)) mid r1"
    using assms(1) sim mid(1) unfolding refines_step_def by blast
  obtain r2 where "read_events (snd (f' (fst (f t)))) r1 = Some r2" "sim (fst (f' (fst (f t)))) sp' r2"
    using assms(2) r1(2) mid(2) unfolding refines_step_def by blast
  then show "\<exists>r'. read_events (snd (then_do f f' t)) r = Some r' \<and> sim (fst (then_do f f' t)) sp' r'"
    using r1(1) by (simp add: then_do_parts read_events_append)
qed

lemma refines_nothing: "refines_step do_nothing Some"
  by (rule refines_stepI) (simp add: do_nothing_def)

lemma still_reading_simps [simp]:
  "still_reading (r\<lparr>rd_blocks := bs\<rparr>) = still_reading r" "still_reading (r\<lparr>rd_open := b\<rparr>) = still_reading r"
  by (simp_all add: still_reading_def)

lemma close_sim:
  assumes "sim t sp r"
  shows "\<exists>r'. read_events (snd (close_active t)) r = Some r' \<and> sim (fst (close_active t)) (sp_close sp) r'"
proof (cases "sp_open sp")
  case None
  then have "fst (close_active t) = t" "snd (close_active t) = []" "sp_close sp = sp\<lparr>sp_current := None\<rparr>"
    using assms by (auto simp: close_active_def sim_def sp_close_def all_blocks_def)
  then show ?thesis using assms by (simp add: sim_def)
next
  case (Some b)
  then show ?thesis using assms
    by (intro exI [of _ "r\<lparr>rd_blocks := rd_blocks r @ [b], rd_open := None\<rparr>"])
      (simp add: close_active_def sim_def sp_close_def all_blocks_def)
qed

lemma push_sim:
  assumes "sim t sp r" "sp_open sp = Some b" "extend_block d b = Some b'" "kind_of b' = kind_of b"
  shows "\<exists>r'. read_events (snd (push_delta d t)) r = Some r' \<and> sim (fst (push_delta d t)) (sp\<lparr>sp_open := Some b'\<rparr>) r'"
  using assms by (intro exI [of _ "r\<lparr>rd_open := Some b'\<rparr>"]) (simp add: push_delta_def sim_def)

text \<open>Opening a block for a closed script.\<close>

lemma open_sim:
  assumes "sim t sp r" "sp_open sp = None" "kind_of (starts_as c) = k"
  shows "\<exists>r'. read_events (snd (open_block k c t)) r = Some r'
    \<and> sim (fst (open_block k c t)) (sp\<lparr>sp_open := Some (starts_as c)\<rparr>) r'"
  using assms by (intro exI [of _ "r\<lparr>rd_open := Some (starts_as c)\<rparr>"]) (simp add: open_block_def sim_def)

lemma sp_close_open [simp]: "sp_open (sp_close sp) = None"
  by (simp add: sp_close_def)

lemma refines_step_close: "refines_step close_active (\<lambda>sp. Some (sp_close sp))"
  using close_sim by (auto intro: refines_stepI)

text \<open>Going on in a block of a kind, or opening one with its first piece.\<close>

lemma reopen_push:
  assumes sim: "sim t sp r"
    and kind: "\<And>b. kind_of b = k \<longleftrightarrow> (\<exists>x. b = mk x)" "starts_as c = mk []"
    and ext: "\<And>x. extend_block d (mk x) = Some (mk (x @ s))"
  shows "\<exists>r'. read_events (snd (then_do (reopen k c) (push_delta d) t)) r = Some r' \<and>
     sim (fst (then_do (reopen k c) (push_delta d) t))
       (case sp_open sp of
          Some b \<Rightarrow> if kind_of b = k then sp\<lparr>sp_open := Some (the (extend_block d b))\<rparr>
                    else (sp_close sp)\<lparr>sp_open := Some (mk s)\<rparr>
        | None \<Rightarrow> (sp_close sp)\<lparr>sp_open := Some (mk s)\<rparr>) r'"
proof (cases "tr_active t = Some k")
  case True
  then have "map_option kind_of (sp_open sp) = Some k" using sim unfolding sim_def by metis
  then obtain b where b: "sp_open sp = Some b" "kind_of b = k" by blast
  then obtain x where x: "b = mk x" using kind(1) by blast
  have "kind_of (mk (x @ s)) = kind_of b" using b(2) kind(1) by metis
  then have "\<exists>r'. read_events (snd (push_delta d t)) r = Some r' \<and>
      sim (fst (push_delta d t)) (sp\<lparr>sp_open := Some (mk (x @ s))\<rparr>) r'"
    using push_sim [OF sim b(1), of d "mk (x @ s)"] ext x by simp
  then show ?thesis using True b x ext by (simp add: reopen_def then_do_parts)
next
  case False
  then have closed: "(case sp_open sp of
      Some b \<Rightarrow> if kind_of b = k then sp\<lparr>sp_open := Some (the (extend_block d b))\<rparr>
                else (sp_close sp)\<lparr>sp_open := Some (mk s)\<rparr>
    | None \<Rightarrow> (sp_close sp)\<lparr>sp_open := Some (mk s)\<rparr>) = (sp_close sp)\<lparr>sp_open := Some (mk s)\<rparr>"
    using sim by (auto simp: sim_def split: option.split)
  obtain r1 where r1: "read_events (snd (close_active t)) r = Some r1" "sim (fst (close_active t)) (sp_close sp) r1"
    using close_sim [OF sim] by blast
  have k: "kind_of (starts_as c) = k" using kind by metis
  obtain r2 where r2: "read_events (snd (open_block k c (fst (close_active t)))) r1 = Some r2"
    "sim (fst (open_block k c (fst (close_active t)))) ((sp_close sp)\<lparr>sp_open := Some (mk [])\<rparr>) r2"
    using open_sim [OF r1(2) sp_close_open k] kind(2) by metis
  have "kind_of (mk ([] @ s)) = kind_of (mk [])" using kind(1) by metis
  from push_sim [OF r2(2) _ ext [of "[]"] this]
  obtain r3 where "read_events (snd (push_delta d (fst (open_block k c (fst (close_active t)))))) r2 = Some r3"
    "sim (fst (push_delta d (fst (open_block k c (fst (close_active t)))))) ((sp_close sp)\<lparr>sp_open := Some (mk s)\<rparr>) r3"
    by auto
  then show ?thesis using False r1 r2 closed
    by (simp add: reopen_def then_do_parts read_events_append)
qed

lemma text_refines: "refines_step (push_text s) (\<lambda>sp. Some (say_text s sp))"
proof (rule refines_stepI)
  fix t sp r sp'
  assume sim: "sim t sp r" and run: "Some (say_text s sp) = Some sp'"
  show "\<exists>r'. read_events (snd (push_text s t)) r = Some r' \<and> sim (fst (push_text s t)) sp' r'"
  proof (cases "truthy s")
    case True
    have kind: "kind_of b = Text_Block \<longleftrightarrow> (\<exists>x. b = Read_Text x)" for b by (cases b) (auto simp: kind_of_def)
    have "sp' = (case sp_open sp of
          Some b \<Rightarrow> if kind_of b = Text_Block then sp\<lparr>sp_open := Some (the (extend_block (Text_Delta (the s)) b))\<rparr>
                    else (sp_close sp)\<lparr>sp_open := Some (Read_Text (the s))\<rparr>
        | None \<Rightarrow> (sp_close sp)\<lparr>sp_open := Some (Read_Text (the s))\<rparr>)"
      using run True by (auto simp: say_text_def kind_of_def split: option.split read_block.split)
    then show ?thesis
      using reopen_push [OF sim kind, of "Text_Content []" "Text_Delta (the s)" "the s"] True
      by (simp add: push_text_def starts_as_def)
  qed (use sim run in \<open>simp add: push_text_def say_text_def\<close>)
qed

lemma thinking_refines: "refines_step (push_reasoning s) (\<lambda>sp. Some (say_thinking s sp))"
proof (rule refines_stepI)
  fix t sp r sp'
  assume sim: "sim t sp r" and run: "Some (say_thinking s sp) = Some sp'"
  have flag: "tr_reasoning t = sp_thinks sp" using sim by (simp add: sim_def)
  show "\<exists>r'. read_events (snd (push_reasoning s t)) r = Some r' \<and> sim (fst (push_reasoning s t)) sp' r'"
  proof (cases "sp_thinks sp \<and> truthy s")
    case True
    have kind: "kind_of b = Thinking_Block \<longleftrightarrow> (\<exists>x. b = Read_Thinking x)" for b by (cases b) (auto simp: kind_of_def)
    have "sp' = (case sp_open sp of
          Some b \<Rightarrow> if kind_of b = Thinking_Block then sp\<lparr>sp_open := Some (the (extend_block (Thinking_Delta (the s)) b))\<rparr>
                    else (sp_close sp)\<lparr>sp_open := Some (Read_Thinking (the s))\<rparr>
        | None \<Rightarrow> (sp_close sp)\<lparr>sp_open := Some (Read_Thinking (the s))\<rparr>)"
      using run True by (auto simp: say_thinking_def kind_of_def split: option.split read_block.split)
    then show ?thesis
      using reopen_push [OF sim kind, of "Thinking_Content [] []" "Thinking_Delta (the s)" "the s"] True flag
      by (simp add: push_reasoning_def starts_as_def)
  next
    case False
    then have "push_reasoning s t = (t, [])" "say_thinking s sp = sp"
      using flag by (auto simp: push_reasoning_def say_thinking_def)
    then show ?thesis using sim run by simp
  qed
qed

lemma map_has_set [simp]: "map_has i (map_set k v m) \<longleftrightarrow> i = k \<or> map_has i m"
  by (auto simp: map_has_def map_of_map_set)

lemma sim_stop: "sim t sp r \<Longrightarrow> sim (t\<lparr>tr_stop := x\<rparr>) (sp\<lparr>sp_stop := x\<rparr>) r"
  by (simp add: sim_def)

lemma finish_refines: "refines_step (note_finish x) (\<lambda>sp. Some (say_finish x sp))"
proof (rule refines_stepI)
  fix t sp r sp'
  assume sim: "sim t sp r" and run: "Some (say_finish x sp) = Some sp'"
  show "\<exists>r'. read_events (snd (note_finish x t)) r = Some r' \<and> sim (fst (note_finish x t)) sp' r'"
  proof (cases "truthy x")
    case True
    obtain r' where "read_events (snd (close_active t)) r = Some r'" "sim (fst (close_active t)) (sp_close sp) r'"
      using close_sim [OF sim] by blast
    moreover have "note_finish x t = ((fst (close_active t))\<lparr>tr_stop := translate_stop_reason x\<rparr>, snd (close_active t))"
      using True by (simp add: note_finish_def split_beta)
    moreover have "sp' = (sp_close sp)\<lparr>sp_stop := translate_stop_reason x\<rparr>" using True run by (simp add: say_finish_def)
    ultimately show ?thesis using sim_stop by simp
  qed (use sim run in \<open>simp add: note_finish_def say_finish_def\<close>)
qed

lemma begin_refines: "refines_step (start_call fresh d) (\<lambda>sp. Some (begin_call fresh d sp))"
proof (rule refines_stepI)
  fix t sp r sp'
  assume sim: "sim t sp r" and run: "Some (begin_call fresh d sp) = Some sp'"
  have known: "map_has (tk_index d) (tr_buffers t) \<longleftrightarrow> tk_index d \<in> set (sp_calls sp)" using sim by (simp add: sim_def)
  show "\<exists>r'. read_events (snd (start_call fresh d t)) r = Some r' \<and> sim (fst (start_call fresh d t)) sp' r'"
  proof (cases "tk_index d \<in> set (sp_calls sp)")
    case False
    obtain r1 where r1: "read_events (snd (close_active t)) r = Some r1" "sim (fst (close_active t)) (sp_close sp) r1"
      using close_sim [OF sim] by blast
    define u where "u = fst (close_active t)"
    obtain i n where id: "or_fresh fresh (tr_used_ids u) (tk_id d) = (i, n)" by fastforce
    let ?name = "if truthy (tk_name d) then the (tk_name d) else []"
    let ?u = "u\<lparr>tr_buffers := map_set (tk_index d) \<lparr>tb_id = i, tb_name = ?name, tb_args = []\<rparr> (tr_buffers u), tr_used_ids := n\<rparr>"
    let ?sp = "(sp_close sp)\<lparr>sp_calls := sp_calls sp @ [tk_index d], sp_current := Some (tk_index d), sp_used := n\<rparr>"
    have "sim ?u ?sp r1" using r1(2) unfolding u_def [symmetric] by (simp add: sim_def sp_close_def)
    from open_sim [OF this, of "Tool_Content i ?name (JObj [])" Tool_Block]
    obtain r2 where r2: "read_events (snd (open_block Tool_Block (Tool_Content i ?name (JObj [])) ?u)) r1 = Some r2"
      "sim (fst (open_block Tool_Block (Tool_Content i ?name (JObj [])) ?u)) (?sp\<lparr>sp_open := Some (Read_Tool i ?name [])\<rparr>) r2"
      by (auto simp: starts_as_def kind_of_def)
    have "tr_used_ids u = sp_used sp" using r1(2) by (simp add: sim_def sp_close_def u_def)
    then have "sp' = ?sp\<lparr>sp_open := Some (Read_Tool i ?name [])\<rparr>"
      using run False id by (simp add: begin_call_def)
    then show ?thesis using r1 r2 known False id
      by (simp add: start_call_def then_do_parts read_events_append u_def [symmetric] Let_def)
  qed (use sim run known in \<open>simp add: start_call_def begin_call_def\<close>)
qed

lemma arguments_refine:
  "refines_step (push_arguments d) (\<lambda>sp. if tk_index d \<in> set (sp_calls sp) then add_arguments d sp else None)"
proof (rule refines_stepI)
  fix t sp r sp'
  assume sim: "sim t sp r" and run: "(if tk_index d \<in> set (sp_calls sp) then add_arguments d sp else None) = Some sp'"
  show "\<exists>r'. read_events (snd (push_arguments d t)) r = Some r' \<and> sim (fst (push_arguments d t)) sp' r'"
  proof (cases "truthy (tk_arguments d)")
    case True
    then obtain i n a where tool: "sp_open sp = Some (Read_Tool i n a)"
      "sp' = sp\<lparr>sp_open := Some (Read_Tool i n (a @ the (tk_arguments d)))\<rparr>" "tk_index d \<in> set (sp_calls sp)"
      using run by (auto simp: add_arguments_def split: if_splits option.splits read_block.splits)
    let ?b = "the (map_of (tr_buffers t) (tk_index d))"
    let ?t = "t\<lparr>tr_buffers := map_set (tk_index d) (?b\<lparr>tb_args := tb_args ?b @ the (tk_arguments d)\<rparr>) (tr_buffers t)\<rparr>"
    have "sim ?t sp r" using sim tool(3) by (auto simp: sim_def)
    from push_sim [OF this tool(1), of "Json_Delta (the (tk_arguments d))"] show ?thesis
      using True tool(2) by (simp add: push_arguments_def kind_of_def Let_def)
  next
    case False
    then have "sp' = sp" using run by (auto simp: add_arguments_def split: if_splits)
    then show ?thesis using sim False by (simp add: push_arguments_def)
  qed
qed

lemma begin_known: "tk_index d \<in> set (sp_calls (begin_call fresh d sp))"
  by (auto simp: begin_call_def split: prod.split)

lemma call_refines:
  "refines_step (handle_tool_delta fresh d) (\<lambda>sp. add_arguments d (begin_call fresh d sp))"
proof -
  show ?thesis using refines_then [OF begin_refines [of fresh d] arguments_refine [of d]]
    by (simp add: handle_tool_delta_def begin_known)
qed

lemma calls_refine: "refines_step (handle_tool_deltas fresh ds) (say_calls fresh ds)"
proof (induction ds)
  case (Cons d ds)
  have "say_calls fresh (d # ds) = (\<lambda>sp. Option.bind (add_arguments d (begin_call fresh d sp)) (say_calls fresh ds))"
    by (rule ext) simp
  then show ?case using refines_then [OF call_refines Cons.IH] by simp
qed (use refines_nothing in \<open>simp add: fun_eq_iff [symmetric]\<close>)

lemma choice_refines: "refines_step (translate_choice fresh choice) (say_choice fresh choice)"
proof (cases choice)
  case None
  then have "translate_choice fresh choice = do_nothing" "say_choice fresh choice = Some"
    by (simp_all add: translate_choice_def say_choice_def fun_eq_iff)
  then show ?thesis by (simp add: refines_nothing)
next
  case (Some c)
  have "say_choice fresh choice = (\<lambda>sp. Option.bind (Some (say_thinking (sc_reasoning c) sp)) (\<lambda>sp.
      Option.bind (Some (say_text (sc_content c) sp)) (\<lambda>sp.
      Option.bind (say_calls fresh (case sc_calls c of Some ds \<Rightarrow> ds | None \<Rightarrow> []) sp) (\<lambda>sp.
      Some (say_finish (sc_finish c) sp)))))"
    by (rule ext) (simp add: Some say_choice_def map_conv_bind_option comp_def)
  then show ?thesis
    using refines_then [OF thinking_refines refines_then [OF text_refines refines_then [OF calls_refine finish_refines]]]
    by (simp add: Some translate_choice_def)
qed

lemma usage_refines:
  "refines_step (track_usage u) (\<lambda>sp. Some (sp\<lparr>sp_usage := fst (merge_bridge_usage (sp_usage sp) u)\<rparr>))"
proof (rule refines_stepI)
  fix t sp r sp'
  assume sim: "sim t sp r" and run: "Some (sp\<lparr>sp_usage := fst (merge_bridge_usage (sp_usage sp) u)\<rparr>) = Some sp'"
  have warn: "sim (warn_once w t) sp r" if "sim t sp r" for w t sp
    using that by (simp add: warn_once_def sim_def split: option.split)
  have usage: "sim (t\<lparr>tr_usage := x\<rparr>) (sp\<lparr>sp_usage := x\<rparr>) r" for x using sim by (simp add: sim_def)
  have same: "tr_usage t = sp_usage sp" using sim by (simp add: sim_def)
  show "\<exists>r'. read_events (snd (track_usage u t)) r = Some r' \<and> sim (fst (track_usage u t)) sp' r'"
  proof (cases u)
    case None
    then show ?thesis using sim run by (simp add: track_usage_def merge_bridge_usage_def)
  next
    case (Some v)
    let ?m = "merge_bridge_usage (sp_usage sp) u"
    have "track_usage u t = (warn_once (snd ?m) (t\<lparr>tr_usage := fst ?m\<rparr>), [])"
      using Some same by (simp add: track_usage_def split_beta)
    moreover have "sp' = sp\<lparr>sp_usage := fst ?m\<rparr>" using run by simp
    ultimately show ?thesis using warn [OF usage, of "snd ?m" "fst ?m"] by simp
  qed
qed

lemma started_refines: "refines_step ensure_started Some"
  by (rule refines_stepI) (simp add: ensure_started_def sim_def)

lemma chunk_refines: "refines_step (feed_chunk fresh c) (say_chunk fresh c)"
  using refines_then [OF started_refines refines_then [OF usage_refines choice_refines]]
  by (simp add: feed_chunk_def say_chunk_def [abs_def])

lemma chunks_refine: "refines_step (feed_chunks fresh cs) (say_chunks fresh cs)"
proof (induction cs)
  case Nil
  have "say_chunks fresh [] = Some" by (rule ext) simp
  then show ?case by (simp add: refines_nothing)
next
  case (Cons c cs)
  have "say_chunks fresh (c # cs) = (\<lambda>sp. Option.bind (say_chunk fresh c sp) (say_chunks fresh cs))"
    by (rule ext) simp
  then show ?case using refines_then [OF chunk_refines Cons.IH] by simp
qed

text \<open>The first chunk starts the message.\<close>

lemma first_chunk:
  fixes mid model :: jstr and thinks warns :: bool
  assumes "cs \<noteq> []"
  defines "t \<equiv> new_translator mid model thinks warns"
  defines "t0 \<equiv> t\<lparr>tr_started := True\<rparr>"
  shows "fst (feed_chunks fresh cs t) = fst (feed_chunks fresh cs t0)"
    "snd (feed_chunks fresh cs t) = start_message t # snd (feed_chunks fresh cs t0)"
    "\<exists>r. read_event (start_message t) new_reader = Some r \<and> sim t0 (new_script thinks) r"
proof -
  have "ensure_started t = (t0, [start_message t])" "ensure_started t0 = (t0, [])"
    by (simp_all add: ensure_started_def t_def t0_def new_translator_def)
  then show "fst (feed_chunks fresh cs t) = fst (feed_chunks fresh cs t0)"
    "snd (feed_chunks fresh cs t) = start_message t # snd (feed_chunks fresh cs t0)"
    using assms(1) by (cases cs; simp add: feed_chunk_def then_do_parts)+
  show "\<exists>r. read_event (start_message t) new_reader = Some r \<and> sim t0 (new_script thinks) r"
    by (simp add: start_message_def new_reader_def sim_def t0_def t_def new_translator_def new_script_def still_reading_def
        map_has_def)
qed

lemma finalize_reads:
  assumes "sim t sp r"
  shows "\<exists>r'. read_events (snd (finalize_stream t)) r = Some r' \<and> rd_blocks r' = all_blocks sp \<and> rd_open r' = None \<and>
    rd_stopped r' \<and> rd_message r' \<noteq> None \<and>
    rd_end r' = Some (Some (case sp_stop sp of Some x \<Rightarrow> x | None \<Rightarrow> End_Turn), to_anthropic_usage (sp_usage sp))"
proof -
  obtain r1 where r1: "read_events (snd (close_active t)) r = Some r1" "sim (fst (close_active t)) (sp_close sp) r1"
    using close_sim [OF assms] by blast
  define u where "u = fst (close_active t)"
  have u: "still_reading r1" "rd_open r1 = None" "\<not> rd_stopped r1" "rd_blocks r1 = all_blocks sp"
    "tr_stop u = sp_stop sp" "tr_usage u = sp_usage sp"
    using r1(2) by (simp_all add: sim_def u_def) (simp_all add: sp_close_def)
  let ?fin = "(Some (case sp_stop sp of Some x \<Rightarrow> x | None \<Rightarrow> End_Turn), to_anthropic_usage (sp_usage sp))"
  have "tr_started t" "\<not> tr_finished t" using assms by (simp_all add: sim_def)
  then have "read_events (snd (finalize_stream t)) r = Some (r1\<lparr>rd_end := Some ?fin, rd_stopped := True\<rparr>)"
    using r1(1) u by (simp add: finalize_stream_def then_do_parts read_events_append u_def)
  then show ?thesis using u by (auto simp: still_reading_def)
qed

lemma finalized_script:
  assumes "say_chunks fresh cs (new_script thinks) = Some sp" "cs \<noteq> []"
  shows "\<exists>r. read_events (snd (translate_stream fresh cs (new_translator mid model thinks warns))) new_reader = Some r \<and>
    rd_blocks r = all_blocks sp \<and> rd_open r = None \<and> rd_stopped r \<and>
    rd_end r = Some (Some (case sp_stop sp of Some x \<Rightarrow> x | None \<Rightarrow> End_Turn), to_anthropic_usage (sp_usage sp))"
proof -
  let ?t = "new_translator mid model thinks warns"
  let ?started = "?t\<lparr>tr_started := True\<rparr>"
  obtain r0 where r0: "read_event (start_message ?t) new_reader = Some r0" "sim ?started (new_script thinks) r0"
    using first_chunk(3) [OF assms(2)] by blast
  then obtain r1 where r1: "read_events (snd (feed_chunks fresh cs ?started)) r0 = Some r1"
    "sim (fst (feed_chunks fresh cs ?started)) sp r1"
    using chunks_refine assms(1) unfolding refines_step_def by blast
  from finalize_reads [OF r1(2)] show ?thesis
    using r0(1) r1(1) first_chunk(1,2) [OF assms(2), of fresh mid model thinks warns]
    by (auto simp: translate_stream_def then_do_parts read_events_append)
qed

text \<open>C31. What a reader of the translated stream sees is what the chunks say: when the arguments of each
  call arrive while its block is open, every event is accepted by the protocol (one start, blocks
  numbered from zero that are opened, extended by deltas of their own kind and closed, then one
  message delta and one stop), and the message has the blocks, the stop reason and the usage of the
  script.\<close>

theorem reader_sees_script:
  assumes "say_chunks fresh cs (new_script thinks) = Some sp" "cs \<noteq> []"
  shows "\<exists>r. read_events (snd (translate_stream fresh cs (new_translator mid model thinks warns))) new_reader = Some r \<and>
    rd_blocks r = all_blocks sp \<and> rd_open r = None \<and> rd_stopped r \<and>
    rd_end r = Some (Some (case sp_stop sp of Some x \<Rightarrow> x | None \<Rightarrow> End_Turn), to_anthropic_usage (sp_usage sp))"
  using finalized_script [OF assms] by blast

section \<open>Chunks of a message in pieces\<close>

definition blank_choice :: stream_choice where
  "blank_choice = \<lparr>sc_content = None, sc_reasoning = None, sc_calls = None, sc_finish = None\<rparr>"

definition choice_chunk :: "stream_choice \<Rightarrow> stream_chunk" where
  "choice_chunk c = \<lparr>ck_choice = Some c, ck_usage = None\<rparr>"

definition thinking_chunk :: "jstr \<Rightarrow> stream_chunk" where
  "thinking_chunk p = choice_chunk (blank_choice\<lparr>sc_reasoning := Some p\<rparr>)"

definition text_chunk :: "jstr \<Rightarrow> stream_chunk" where
  "text_chunk p = choice_chunk (blank_choice\<lparr>sc_content := Some p\<rparr>)"

definition call_chunk :: "tool_delta \<Rightarrow> stream_chunk" where
  "call_chunk d = choice_chunk (blank_choice\<lparr>sc_calls := Some [d]\<rparr>)"

definition finish_chunk :: "jstr \<Rightarrow> stream_chunk" where
  "finish_chunk r = choice_chunk (blank_choice\<lparr>sc_finish := Some r\<rparr>)"

definition usage_chunk :: "upstream_usage \<Rightarrow> stream_chunk" where
  "usage_chunk u = \<lparr>ck_choice = None, ck_usage = Some u\<rparr>"

text \<open>A call and the pieces of its arguments.\<close>

definition call_chunks :: "int \<Rightarrow> upstream_call \<Rightarrow> jstr list \<Rightarrow> stream_chunk list" where
  "call_chunks k c ps =
     call_chunk \<lparr>tk_index = k, tk_id = uc_id c, tk_name = Some (uc_name c), tk_arguments = None\<rparr>
     # map (\<lambda>p. call_chunk \<lparr>tk_index = k, tk_id = None, tk_name = None, tk_arguments = Some p\<rparr>) ps"

fun all_call_chunks :: "int \<Rightarrow> (upstream_call \<times> jstr list) list \<Rightarrow> stream_chunk list" where
  "all_call_chunks k [] = []"
| "all_call_chunks k ((c, ps) # cs) = call_chunks k c ps @ all_call_chunks (k + 1) cs"

lemma reader_sees_script_witness:
  "\<exists>r. read_events (snd (translate_stream (\<lambda>_. [])
      [thinking_chunk [1], text_chunk [2], text_chunk [3],
       call_chunk \<lparr>tk_index = 0, tk_id = Some [9], tk_name = Some [8], tk_arguments = Some [4]\<rparr>,
       call_chunk \<lparr>tk_index = 0, tk_id = None, tk_name = None, tk_arguments = Some [5]\<rparr>,
       finish_chunk (js ''tool_calls'')] (new_translator [] [] True False))) new_reader = Some r \<and>
     rd_blocks r = [Read_Thinking [1], Read_Text [2, 3], Read_Tool [9] [8] [4, 5]] \<and> rd_stopped r"
proof -
  let ?cs = "[thinking_chunk [1], text_chunk [2], text_chunk [3],
       call_chunk \<lparr>tk_index = 0, tk_id = Some [9], tk_name = Some [8], tk_arguments = Some [4]\<rparr>,
       call_chunk \<lparr>tk_index = 0, tk_id = None, tk_name = None, tk_arguments = Some [5]\<rparr>,
       finish_chunk (js ''tool_calls'')]"
  have run: "map_option all_blocks (say_chunks (\<lambda>_. []) ?cs (new_script True)) =
      Some [Read_Thinking [1], Read_Text [2, 3], Read_Tool [9] [8] [4, 5]]" by code_simp
  then obtain sp where sp: "say_chunks (\<lambda>_. []) ?cs (new_script True) = Some sp"
    "all_blocks sp = [Read_Thinking [1], Read_Text [2, 3], Read_Tool [9] [8] [4, 5]]" by auto
  have "?cs \<noteq> []" by simp
  from reader_sees_script [OF sp(1) this, of "[]" "[]" False] sp(2) show ?thesis by auto
qed

text \<open>
  The hypothesis is needed: arguments of a first call that arrive after a second call was opened are
  pushed into the block of the second one, although the translator keeps a buffer for each.
\<close>

lemma interleaved_calls_mix:
  "map_option rd_blocks (read_events (snd (translate_stream (\<lambda>_. [])
      [call_chunk \<lparr>tk_index = 0, tk_id = Some [1], tk_name = Some [65], tk_arguments = None\<rparr>,
       call_chunk \<lparr>tk_index = 1, tk_id = Some [2], tk_name = Some [66], tk_arguments = None\<rparr>,
       call_chunk \<lparr>tk_index = 0, tk_id = None, tk_name = None, tk_arguments = Some [97]\<rparr>]
      (new_translator [] [] True False))) new_reader) =
   Some [Read_Tool [1] [65] [], Read_Tool [2] [66] [97]]"
  by code_simp

lemma say_chunks_append: "say_chunks fresh (xs @ ys) sp = Option.bind (say_chunks fresh xs sp) (say_chunks fresh ys)"
  by (induction xs arbitrary: sp) (auto split: Option.bind_split)

lemma say_text_chunk: "say_chunk fresh (text_chunk p) sp = Some (say_text (Some p) sp)"
  by (simp add: say_chunk_def text_chunk_def choice_chunk_def blank_choice_def say_choice_def
      merge_bridge_usage_def say_finish_def say_thinking_def truthy_def)

lemma say_thinking_chunk: "say_chunk fresh (thinking_chunk p) sp = Some (say_thinking (Some p) sp)"
  by (simp add: say_chunk_def thinking_chunk_def choice_chunk_def blank_choice_def say_choice_def
      merge_bridge_usage_def say_finish_def say_text_def truthy_def)

lemma say_call_chunk: "say_chunk fresh (call_chunk d) sp = add_arguments d (begin_call fresh d sp)"
  by (cases "add_arguments d (begin_call fresh d sp)")
    (simp_all add: say_chunk_def call_chunk_def choice_chunk_def blank_choice_def say_choice_def
      merge_bridge_usage_def say_finish_def say_text_def say_thinking_def truthy_def)

lemma say_finish_chunk: "say_chunk fresh (finish_chunk x) sp = Some (say_finish (Some x) sp)"
  by (simp add: say_chunk_def finish_chunk_def choice_chunk_def blank_choice_def say_choice_def
      merge_bridge_usage_def say_text_def say_thinking_def truthy_def)

lemma say_usage_chunk:
  "say_chunk fresh (usage_chunk u) sp = Some (sp\<lparr>sp_usage := fst (merge_bridge_usage (sp_usage sp) (Some u))\<rparr>)"
  by (simp add: say_chunk_def usage_chunk_def say_choice_def)

text \<open>The part of a script that pieces leave alone.\<close>

definition rest_of :: "script \<Rightarrow> int list \<times> nat \<times> stop_reason option \<times> usage_snapshot \<times> bool" where
  "rest_of sp = (sp_calls sp, sp_used sp, sp_stop sp, sp_usage sp, sp_thinks sp)"

definition text_open :: "script \<Rightarrow> jstr option" where
  "text_open sp = (case sp_open sp of Some (Read_Text t) \<Rightarrow> Some t | _ \<Rightarrow> None)"

definition thinking_open :: "script \<Rightarrow> jstr option" where
  "thinking_open sp = (case sp_open sp of Some (Read_Thinking t) \<Rightarrow> Some t | _ \<Rightarrow> None)"

lemma text_pieces_open:
  "text_open sp = Some t \<Longrightarrow> \<exists>sp'. say_chunks fresh (map text_chunk ps) sp = Some sp' \<and> rest_of sp' = rest_of sp \<and>
     text_open sp' = Some (t @ concat ps) \<and> sp_blocks sp' = sp_blocks sp"
proof (induction ps arbitrary: sp t)
  case (Cons p ps)
  have "text_open (say_text (Some p) sp) = Some (t @ p)" "rest_of (say_text (Some p) sp) = rest_of sp"
    "sp_blocks (say_text (Some p) sp) = sp_blocks sp"
    using Cons.prems by (auto simp: text_open_def say_text_def rest_of_def truthy_def truthy_str_def
        split: option.splits read_block.splits)
  then show ?case using Cons.IH [of "say_text (Some p) sp" "t @ p"] by (simp add: say_text_chunk)
qed simp

lemma thinking_pieces_open:
  "sp_thinks sp \<Longrightarrow> thinking_open sp = Some t \<Longrightarrow>
     \<exists>sp'. say_chunks fresh (map thinking_chunk ps) sp = Some sp' \<and> rest_of sp' = rest_of sp \<and>
       thinking_open sp' = Some (t @ concat ps) \<and> sp_blocks sp' = sp_blocks sp"
proof (induction ps arbitrary: sp t)
  case (Cons p ps)
  have "thinking_open (say_thinking (Some p) sp) = Some (t @ p)" "rest_of (say_thinking (Some p) sp) = rest_of sp"
    "sp_blocks (say_thinking (Some p) sp) = sp_blocks sp" "sp_thinks (say_thinking (Some p) sp)"
    using Cons.prems by (auto simp: thinking_open_def say_thinking_def rest_of_def truthy_def truthy_str_def
        split: option.splits read_block.splits)
  then show ?case using Cons.IH [of "say_thinking (Some p) sp" "t @ p"] by (simp add: say_thinking_chunk)
qed simp

lemma all_blocks_text: "text_open sp = Some t \<Longrightarrow> all_blocks sp = sp_blocks sp @ [Read_Text t]"
  by (auto simp: text_open_def all_blocks_def split: option.splits read_block.splits)

lemma all_blocks_thinking: "thinking_open sp = Some t \<Longrightarrow> all_blocks sp = sp_blocks sp @ [Read_Thinking t]"
  by (auto simp: thinking_open_def all_blocks_def split: option.splits read_block.splits)

lemma text_pieces:
  "text_open sp = None \<Longrightarrow> \<exists>sp'. say_chunks fresh (map text_chunk ps) sp = Some sp' \<and> rest_of sp' = rest_of sp \<and>
     all_blocks sp' = all_blocks sp @ (if concat ps = [] then [] else [Read_Text (concat ps)])"
proof (induction ps)
  case (Cons p ps)
  show ?case
  proof (cases "p = []")
    case True
    then have "say_text (Some p) sp = sp" by (simp add: say_text_def truthy_def truthy_str_def)
    then show ?thesis using Cons True by (auto simp: say_text_chunk)
  next
    case False
    have "text_open (say_text (Some p) sp) = Some p" "rest_of (say_text (Some p) sp) = rest_of sp"
      "sp_blocks (say_text (Some p) sp) = all_blocks sp"
      using Cons.prems False by (auto simp: text_open_def say_text_def rest_of_def truthy_def truthy_str_def sp_close_def
          split: option.splits read_block.splits)
    then show ?thesis using text_pieces_open [of "say_text (Some p) sp" p fresh ps] False all_blocks_text
      by (fastforce simp: say_text_chunk)
  qed
qed simp

lemma thinking_pieces:
  assumes "sp_open sp = None" "sp_thinks sp"
  shows "\<exists>sp'. say_chunks fresh (map thinking_chunk ps) sp = Some sp' \<and> rest_of sp' = rest_of sp \<and> text_open sp' = None \<and>
     all_blocks sp' = all_blocks sp @ (if concat ps = [] then [] else [Read_Thinking (concat ps)])"
proof (induction ps)
  case (Cons p ps)
  show ?case
  proof (cases "p = []")
    case True
    then have "say_thinking (Some p) sp = sp" by (simp add: say_thinking_def truthy_def truthy_str_def)
    then show ?thesis using Cons True by (auto simp: say_thinking_chunk)
  next
    case False
    have sp: "thinking_open (say_thinking (Some p) sp) = Some p" "rest_of (say_thinking (Some p) sp) = rest_of sp"
      "sp_blocks (say_thinking (Some p) sp) = all_blocks sp" "sp_thinks (say_thinking (Some p) sp)"
      using assms False by (auto simp: thinking_open_def say_thinking_def rest_of_def truthy_def truthy_str_def sp_close_def)
    have "thinking_open t = Some x \<Longrightarrow> text_open t = None" for t x
      by (auto simp: thinking_open_def text_open_def split: option.splits read_block.splits)
    then show ?thesis using thinking_pieces_open [OF sp(4,1), of fresh ps] False all_blocks_thinking sp
      by (fastforce simp: say_thinking_chunk)
  qed
qed (use assms in \<open>simp add: text_open_def\<close>)

lemma no_thinking_pieces: "\<not> sp_thinks sp \<Longrightarrow> say_chunks fresh (map thinking_chunk ps) sp = Some sp"
  by (induction ps) (simp_all add: say_thinking_chunk say_thinking_def)

definition call_open :: "script \<Rightarrow> int \<Rightarrow> jstr \<Rightarrow> jstr \<Rightarrow> jstr \<Rightarrow> bool" where
  "call_open sp k i n a \<longleftrightarrow> sp_open sp = Some (Read_Tool i n a) \<and> sp_current sp = Some k \<and> k \<in> set (sp_calls sp)"

lemma argument_pieces:
  "call_open sp k i n a \<Longrightarrow> \<exists>sp'. say_chunks fresh
       (map (\<lambda>p. call_chunk \<lparr>tk_index = k, tk_id = None, tk_name = None, tk_arguments = Some p\<rparr>) ps) sp = Some sp' \<and>
     rest_of sp' = rest_of sp \<and> sp_blocks sp' = sp_blocks sp \<and> call_open sp' k i n (a @ concat ps)"
proof (induction ps arbitrary: sp a)
  case (Cons p ps)
  let ?d = "\<lparr>tk_index = k, tk_id = None, tk_name = None, tk_arguments = Some p\<rparr>"
  obtain sp1 where sp1: "add_arguments ?d (begin_call fresh ?d sp) = Some sp1" "call_open sp1 k i n (a @ p)"
    "rest_of sp1 = rest_of sp" "sp_blocks sp1 = sp_blocks sp"
  proof -
    have "begin_call fresh ?d sp = sp" using Cons.prems by (simp add: begin_call_def call_open_def)
    moreover have "add_arguments ?d sp = Some (if p = [] then sp else sp\<lparr>sp_open := Some (Read_Tool i n (a @ p))\<rparr>)"
      using Cons.prems by (simp add: add_arguments_def call_open_def truthy_def truthy_str_def)
    ultimately show ?thesis using Cons.prems
      by (intro that [of "if p = [] then sp else sp\<lparr>sp_open := Some (Read_Tool i n (a @ p))\<rparr>"])
        (auto simp: call_open_def rest_of_def)
  qed
  then show ?case using Cons.IH [OF sp1(2)] by (simp add: say_call_chunk)
qed simp

lemma call_pieces:
  assumes "k \<notin> set (sp_calls sp)"
  shows "\<exists>sp'. say_chunks fresh (call_chunks k c ps) sp = Some sp' \<and>
     all_blocks sp' = all_blocks sp @ [Read_Tool (fst (or_fresh fresh (sp_used sp) (uc_id c))) (uc_name c) (concat ps)] \<and>
     rest_of sp' = (sp_calls sp @ [k], snd (or_fresh fresh (sp_used sp) (uc_id c)), sp_stop sp, sp_usage sp, sp_thinks sp)"
proof -
  let ?d = "\<lparr>tk_index = k, tk_id = uc_id c, tk_name = Some (uc_name c), tk_arguments = None\<rparr>"
  let ?f = "or_fresh fresh (sp_used sp) (uc_id c)"
  obtain sp1 where sp1: "add_arguments ?d (begin_call fresh ?d sp) = Some sp1" "call_open sp1 k (fst ?f) (uc_name c) []"
    "sp_blocks sp1 = all_blocks sp"
    "rest_of sp1 = (sp_calls sp @ [k], snd ?f, sp_stop sp, sp_usage sp, sp_thinks sp)"
  proof -
    have "(if truthy (Some (uc_name c)) then uc_name c else []) = uc_name c" by (simp add: truthy_def truthy_str_def)
    then have "begin_call fresh ?d sp = (sp_close sp)\<lparr>sp_calls := sp_calls sp @ [k], sp_current := Some k,
        sp_used := snd ?f, sp_open := Some (Read_Tool (fst ?f) (uc_name c) [])\<rparr>" (is "_ = ?sp")
      using assms by (simp add: begin_call_def split_beta)
    moreover have "add_arguments ?d x = Some x" for x by (simp add: add_arguments_def truthy_def)
    moreover have "call_open ?sp k (fst ?f) (uc_name c) []" "sp_blocks ?sp = all_blocks sp"
      "rest_of ?sp = (sp_calls sp @ [k], snd ?f, sp_stop sp, sp_usage sp, sp_thinks sp)"
      by (simp_all add: call_open_def rest_of_def sp_close_def)
    ultimately show ?thesis using that by metis
  qed
  from argument_pieces [OF sp1(2), of fresh ps] sp1 show ?thesis
    by (auto simp: call_chunks_def say_call_chunk call_open_def all_blocks_def)
qed

lemma all_call_pieces:
  assumes "\<forall>x \<in> set (sp_calls sp). x < k" "\<forall>(c, ps) \<in> set cs. concat ps = uc_arguments c"
  shows "\<exists>sp'. say_chunks fresh (all_call_chunks k cs) sp = Some sp' \<and>
     map (whole parse) (all_blocks sp') =
       map (whole parse) (all_blocks sp) @ translate_tool_calls parse fresh (sp_used sp) (map fst cs) \<and>
     sp_stop sp' = sp_stop sp \<and> sp_usage sp' = sp_usage sp"
  using assms
proof (induction k cs arbitrary: sp rule: all_call_chunks.induct)
  case (2 k c ps cs)
  have "k \<notin> set (sp_calls sp)" using 2(2) by auto
  from call_pieces [OF this, of fresh c ps] obtain sp1 where sp1:
    "say_chunks fresh (call_chunks k c ps) sp = Some sp1"
    "all_blocks sp1 = all_blocks sp @ [Read_Tool (fst (or_fresh fresh (sp_used sp) (uc_id c))) (uc_name c) (concat ps)]"
    "sp_calls sp1 = sp_calls sp @ [k]" "sp_used sp1 = snd (or_fresh fresh (sp_used sp) (uc_id c))"
    "sp_stop sp1 = sp_stop sp" "sp_usage sp1 = sp_usage sp"
    by (auto simp: rest_of_def)
  have "\<forall>x \<in> set (sp_calls sp1). x < k + 1" using 2(2) sp1(3) by auto
  moreover have "\<forall>(c, ps) \<in> set cs. concat ps = uc_arguments c" "concat ps = uc_arguments c" using 2(3) by auto
  ultimately obtain sp2 where sp2: "say_chunks fresh (all_call_chunks (k + 1) cs) sp1 = Some sp2"
    "map (whole parse) (all_blocks sp2) =
       map (whole parse) (all_blocks sp1) @ translate_tool_calls parse fresh (sp_used sp1) (map fst cs)"
    "sp_stop sp2 = sp_stop sp1" "sp_usage sp2 = sp_usage sp1"
    using 2(1) [of sp1] by blast
  have tool: "whole parse (Read_Tool i n (concat ps)) = Tool_Content i n (safe_parse_json parse (uc_arguments c))" for i n
    using \<open>concat ps = uc_arguments c\<close> by (simp add: whole_def)
  show ?case
    by (rule exI [of _ sp2]) (simp add: say_chunks_append sp1 sp2 tool split_beta)
qed simp

lemma merge_first: "fst (merge_bridge_usage no_usage u) = fst (from_usage Chat_Completions u)"
proof -
  have "counted (or_count v 0) = counted v" for v by (simp add: counted_def or_count_def split: usage_value.split)
  then show ?thesis
    by (simp add: merge_bridge_usage_def from_usage_def normalize_usage_fst no_usage_def existing_total_def
        split: option.split)
qed

definition pieces_of :: "jstr list \<Rightarrow> jstr list \<Rightarrow> (upstream_call \<times> jstr list) list \<Rightarrow> jstr \<Rightarrow> upstream_usage \<Rightarrow> stream_chunk list" where
  "pieces_of ths txts cs reason u =
     map thinking_chunk ths @ map text_chunk txts @ all_call_chunks 0 cs @ [finish_chunk reason, usage_chunk u]"

definition message_of :: "jstr list \<Rightarrow> jstr list \<Rightarrow> (upstream_call \<times> jstr list) list \<Rightarrow> upstream_message" where
  "message_of ths txts cs =
     \<lparr>un_content = Some (concat txts), un_reasoning = Some (concat ths), un_calls = Some (map fst cs)\<rparr>"

lemma say_pieces:
  assumes "\<forall>(c, ps) \<in> set cs. concat ps = uc_arguments c" "reason \<noteq> []"
  shows "\<exists>sp. say_chunks fresh (pieces_of ths txts cs reason u) (new_script thinks) = Some sp \<and>
     map (whole parse) (all_blocks sp) = message_content parse fresh thinks (message_of ths txts cs) \<and>
     sp_stop sp = translate_stop_reason (Some reason) \<and> sp_usage sp = fst (from_usage Chat_Completions (Some u))"
proof -
  let ?think = "if thinks \<and> concat ths \<noteq> [] then [Read_Thinking (concat ths)] else []"
  let ?text = "if concat txts \<noteq> [] then [Read_Text (concat txts)] else []"
  obtain sp1 where sp1: "say_chunks fresh (map thinking_chunk ths) (new_script thinks) = Some sp1"
    "rest_of sp1 = rest_of (new_script thinks)" "text_open sp1 = None" "all_blocks sp1 = ?think"
  proof (cases thinks)
    case True
    then show ?thesis using thinking_pieces [of "new_script thinks" fresh ths] that
      by (auto simp: new_script_def all_blocks_def)
  next
    case False
    then show ?thesis using no_thinking_pieces [of "new_script thinks" fresh ths] that
      by (auto simp: new_script_def all_blocks_def text_open_def)
  qed
  from text_pieces [OF sp1(3), of fresh txts] obtain sp2 where
    sp2: "say_chunks fresh (map text_chunk txts) sp1 = Some sp2" "rest_of sp2 = rest_of sp1" "all_blocks sp2 = ?think @ ?text"
    using sp1(4) by auto
  have rest: "sp_calls sp2 = []" "sp_used sp2 = 0" "sp_stop sp2 = None" "sp_usage sp2 = no_usage"
    using sp2(2) sp1(2) by (simp_all add: rest_of_def new_script_def)
  then have "\<forall>x \<in> set (sp_calls sp2). x < 0" by simp
  from all_call_pieces [OF this assms(1), of fresh parse] obtain sp3 where
    sp3: "say_chunks fresh (all_call_chunks 0 cs) sp2 = Some sp3"
    "map (whole parse) (all_blocks sp3) =
       map (whole parse) (?think @ ?text) @ translate_tool_calls parse fresh 0 (map fst cs)"
    "sp_usage sp3 = no_usage" using rest sp2(3) by auto
  let ?sp = "(say_finish (Some reason) sp3)\<lparr>sp_usage := fst (merge_bridge_usage no_usage (Some u))\<rparr>"
  have finish: "say_finish (Some reason) sp3 = (sp_close sp3)\<lparr>sp_stop := translate_stop_reason (Some reason)\<rparr>"
    using assms(2) by (simp add: say_finish_def truthy_def truthy_str_def)
  have "say_chunks fresh (pieces_of ths txts cs reason u) (new_script thinks) = Some ?sp"
    using sp3(3) by (simp add: pieces_of_def say_chunks_append sp1(1) sp2(1) sp3(1) say_finish_chunk say_usage_chunk
        finish sp_close_def)
  moreover have "all_blocks ?sp = all_blocks sp3" by (simp add: finish sp_close_def all_blocks_def)
  moreover have "map (whole parse) (all_blocks sp3) = message_content parse fresh thinks (message_of ths txts cs)"
    unfolding sp3(2) by (auto simp: message_content_def message_of_def whole_def truthy_def truthy_str_def)
  ultimately show ?thesis by (intro exI [of _ ?sp]) (simp add: finish merge_first)
qed

text \<open>C32. Streaming and translating at once agree: a message whose thinking, text and call arguments arrive
  in any pieces, with the finish reason and then the usage, is read from the translated stream with
  the same blocks, stop reason and usage that the translation of the whole response gives (which
  only adds an empty text block to a message that has no block at all).\<close>

theorem streaming_agrees_with_whole:
  assumes "\<forall>(c, ps) \<in> set cs. concat ps = uc_arguments c" "reason \<noteq> []"
  shows "\<exists>r. read_events (snd (translate_stream fresh (pieces_of ths txts cs reason u)
        (new_translator mid model thinks warns))) new_reader = Some r \<and>
     (let whole_response = translate_response parse fresh mid
        \<lparr>cr_choice = Some (message_of ths txts cs, Some reason), cr_usage = Some u\<rparr> model thinks
      in at_least_one (map (whole parse) (rd_blocks r)) = ar_content whole_response \<and>
         rd_end r = Some (ar_stop whole_response, ar_usage whole_response) \<and> rd_stopped r)"
proof -
  obtain sp where sp: "say_chunks fresh (pieces_of ths txts cs reason u) (new_script thinks) = Some sp"
    "map (whole parse) (all_blocks sp) = message_content parse fresh thinks (message_of ths txts cs)"
    "sp_stop sp = translate_stop_reason (Some reason)" "sp_usage sp = fst (from_usage Chat_Completions (Some u))"
    using say_pieces [OF assms] by blast
  have ne: "pieces_of ths txts cs reason u \<noteq> []" by (simp add: pieces_of_def)
  obtain r where "read_events (snd (translate_stream fresh (pieces_of ths txts cs reason u)
        (new_translator mid model thinks warns))) new_reader = Some r"
      "rd_blocks r = all_blocks sp" "rd_stopped r"
      "rd_end r = Some (Some (case sp_stop sp of Some x \<Rightarrow> x | None \<Rightarrow> End_Turn), to_anthropic_usage (sp_usage sp))"
    using finalized_script [OF sp(1) ne] by blast
  moreover have "\<exists>x. translate_stop_reason (Some reason) = Some x"
    using assms(2) by (simp add: translate_stop_reason_def truthy_def truthy_str_def)
  ultimately show ?thesis using sp(2-4)
    by (intro exI [of _ r]) (auto simp: translate_response_def Let_def)
qed

lemma streaming_agrees_with_whole_witness:
  "\<exists>r. read_events (snd (translate_stream (\<lambda>_. []) (pieces_of [[7]] [[1], [2, 3]]
        [(\<lparr>uc_id = Some [4], uc_name = [5], uc_arguments = [8, 9]\<rparr>, [[8], [], [9]])] (js ''tool_calls'') \<lparr>ou_total = Count 3, ou_output = Count 2, ou_cache_read = Count 1, ou_cache_creation = Missing, ou_reasoning = Missing\<rparr>)
        (new_translator [1] [2] True False))) new_reader = Some r \<and>
     (let whole_response = translate_response (\<lambda>_. None) (\<lambda>_. []) [1]
        \<lparr>cr_choice = Some (message_of [[7]] [[1], [2, 3]]
            [(\<lparr>uc_id = Some [4], uc_name = [5], uc_arguments = [8, 9]\<rparr>, [[8], [], [9]])], Some (js ''tool_calls'')),
         cr_usage = Some \<lparr>ou_total = Count 3, ou_output = Count 2, ou_cache_read = Count 1, ou_cache_creation = Missing, ou_reasoning = Missing\<rparr>\<rparr> [2] True
      in at_least_one (map (whole (\<lambda>_. None)) (rd_blocks r)) = ar_content whole_response \<and>
         rd_end r = Some (ar_stop whole_response, ar_usage whole_response) \<and> rd_stopped r)"
  by (rule streaming_agrees_with_whole) (simp_all add: js_def)

end
