(* ===== verification/ResponsesStream.thy ===== *)
theory ResponsesStream
  imports BridgeStream
begin

text \<open>
  Streaming over the Responses API: openai-bridge/translate/stream-responses.ts turns its events into
  Anthropic events. The state is the one of the translator class; the three terminal events of the
  API share a handler, and every event that the switch does not name is \<open>Other_Event\<close>.
\<close>

datatype responses_event =
    Text_Piece jstr
  | Text_Ended
  | Arguments_Piece int jstr
  | Arguments_Ended int
  | Item_Added int output_item
  | Reasoning_Piece jstr
  | Reasoning_Ended
  | Response_Completed responses_response
  | Response_Failed responses_response
  | Response_Incomplete responses_response
  | Upstream_Error jstr
  | Other_Event

record call_buffer =
  cb_id :: jstr
  cb_name :: jstr
  cb_args :: jstr
  cb_index :: nat

record responses_translator =
  rt_message_id :: jstr
  rt_model :: jstr
  rt_index :: nat
  rt_active :: "block_kind option"
  rt_started :: bool
  rt_finished :: bool
  rt_usage :: usage_snapshot
  rt_warns :: bool
  rt_log :: "jstr list"
  rt_buffers :: "(int \<times> call_buffer) list"
  rt_reasoning :: bool
  rt_used_ids :: nat

definition new_responses :: "jstr \<Rightarrow> jstr \<Rightarrow> bool \<Rightarrow> responses_translator" where
  "new_responses message_id model warns =
     \<lparr>rt_message_id = message_id, rt_model = model, rt_index = 0, rt_active = None, rt_started = False,
      rt_finished = False, rt_usage = no_usage, rt_warns = warns, rt_log = [], rt_buffers = [],
      rt_reasoning = False, rt_used_ids = 0\<rparr>"

definition end_active :: "responses_translator step" where
  "end_active t =
     (if rt_active t \<noteq> None then (t\<lparr>rt_index := Suc (rt_index t), rt_active := None\<rparr>, [Block_Stop (rt_index t)])
      else (t, []))"

definition make_message_start :: "responses_translator \<Rightarrow> stream_event" where
  "make_message_start t =
     Message_Start \<lparr>ar_id = rt_message_id t, ar_content = [], ar_model = rt_model t, ar_stop = None,
       ar_stop_sequence = None, ar_usage = to_anthropic_usage (rt_usage t)\<rparr>"

definition handle_text_delta :: "jstr \<Rightarrow> responses_translator step" where
  "handle_text_delta delta =
     then_do
       (\<lambda>t. if rt_active t = Some Text_Block then (t, [])
            else then_do end_active
              (\<lambda>t. (t\<lparr>rt_active := Some Text_Block\<rparr>, [Block_Start (rt_index t) (Text_Content [])])) t)
       (\<lambda>t. (t, [Block_Delta (rt_index t) (Text_Delta delta)]))"

definition handle_reasoning_delta :: "jstr \<Rightarrow> responses_translator step" where
  "handle_reasoning_delta delta =
     then_do
       (\<lambda>t. if rt_active t = Some Thinking_Block then (t, [])
            else then_do end_active
              (\<lambda>t. (t\<lparr>rt_active := Some Thinking_Block, rt_reasoning := True\<rparr>,
                     [Block_Start (rt_index t) (Thinking_Content [] [])])) t)
       (\<lambda>t. (t, [Block_Delta (rt_index t) (Thinking_Delta delta)]))"

definition end_reasoning :: "responses_translator step" where
  "end_reasoning t =
     (if rt_reasoning t then (let (t1, es) = end_active t in (t1\<lparr>rt_reasoning := False\<rparr>, es)) else (t, []))"

text \<open>A call opens its block and remembers where it stands.\<close>

definition open_call :: "(nat \<Rightarrow> jstr) \<Rightarrow> int \<Rightarrow> jstr option \<Rightarrow> jstr \<Rightarrow> responses_translator step" where
  "open_call fresh k call_id name =
     then_do end_active
       (\<lambda>t. let (i, n) = or_fresh fresh (rt_used_ids t) call_id
            in (t\<lparr>rt_active := Some Tool_Block, rt_used_ids := n,
                  rt_buffers := map_set k \<lparr>cb_id = i, cb_name = name, cb_args = [], cb_index = rt_index t\<rparr> (rt_buffers t)\<rparr>,
                [Block_Start (rt_index t) (Tool_Content i name (JObj []))]))"

definition add_item :: "(nat \<Rightarrow> jstr) \<Rightarrow> int \<Rightarrow> output_item \<Rightarrow> responses_translator step" where
  "add_item fresh k item =
     (case item of Call_Output call_id name _ \<Rightarrow> open_call fresh k (Some call_id) name | _ \<Rightarrow> do_nothing)"

definition handle_call_delta :: "(nat \<Rightarrow> jstr) \<Rightarrow> int \<Rightarrow> jstr \<Rightarrow> responses_translator step" where
  "handle_call_delta fresh k delta =
     then_do
       (\<lambda>t. if map_has k (rt_buffers t) then (t, []) else open_call fresh k None [] t)
       (\<lambda>t. let b = the (map_of (rt_buffers t) k)
            in (t\<lparr>rt_buffers := map_set k (b\<lparr>cb_args := cb_args b @ delta\<rparr>) (rt_buffers t)\<rparr>,
                [Block_Delta (cb_index b) (Json_Delta delta)]))"

definition close_call :: "int \<Rightarrow> responses_translator step" where
  "close_call k t =
     (case map_of (rt_buffers t) k of
        Some b \<Rightarrow>
          (let t1 = (if cb_index b = rt_index t then t\<lparr>rt_index := Suc (rt_index t)\<rparr> else t);
               t2 = (if rt_active t1 = Some Tool_Block then t1\<lparr>rt_active := None\<rparr> else t1)
           in (t2, [Block_Stop (cb_index b)]))
      | None \<Rightarrow> end_active t)"

definition finish_error :: "jstr \<Rightarrow> responses_translator step" where
  "finish_error message =
     then_do end_active (\<lambda>t. (t\<lparr>rt_finished := True\<rparr>, [Stream_Error (js ''api_error'') message]))"

definition log_warning :: "jstr option \<Rightarrow> responses_translator \<Rightarrow> responses_translator" where
  "log_warning w t =
     (case w of Some m \<Rightarrow> if rt_warns t \<and> rt_log t = [] then t\<lparr>rt_log := [m]\<rparr> else t | None \<Rightarrow> t)"

definition set_usage :: "upstream_usage option \<Rightarrow> responses_translator \<Rightarrow> responses_translator" where
  "set_usage u t =
     (if u = None then t else (let (s, w) = from_usage Responses_Api u in (log_warning w t)\<lparr>rt_usage := s\<rparr>))"

definition handle_terminal :: "responses_response \<Rightarrow> responses_translator step" where
  "handle_terminal r =
     then_do end_active
       (\<lambda>t. let t1 = set_usage (rr_usage r) (t\<lparr>rt_finished := True\<rparr>) in
          (case resolve_stop_reason r (rt_buffers t1 \<noteq> []) of
             Inr stop \<Rightarrow> (t1, [Message_Delta (Some stop) (to_anthropic_usage (rt_usage t1)), Message_Stop])
           | Inl err \<Rightarrow>
               then_do (\<lambda>t. (t, [Message_Delta None (to_anthropic_usage (rt_usage t))])) (finish_error (re_message err)) t1))"

definition handle_event :: "(nat \<Rightarrow> jstr) \<Rightarrow> responses_event \<Rightarrow> responses_translator step" where
  "handle_event fresh e =
     (case e of
        Text_Piece delta \<Rightarrow> handle_text_delta delta
      | Text_Ended \<Rightarrow> end_active
      | Arguments_Piece k delta \<Rightarrow> handle_call_delta fresh k delta
      | Arguments_Ended k \<Rightarrow> close_call k
      | Item_Added k item \<Rightarrow> add_item fresh k item
      | Reasoning_Piece delta \<Rightarrow> handle_reasoning_delta delta
      | Reasoning_Ended \<Rightarrow> end_reasoning
      | Response_Completed r \<Rightarrow> handle_terminal r
      | Response_Failed r \<Rightarrow> handle_terminal r
      | Response_Incomplete r \<Rightarrow> handle_terminal r
      | Upstream_Error message \<Rightarrow> finish_error message
      | Other_Event \<Rightarrow> do_nothing)"

definition start_once :: "responses_translator step" where
  "start_once t = (if rt_started t then (t, []) else (t\<lparr>rt_started := True\<rparr>, [make_message_start t]))"

definition feed_event :: "(nat \<Rightarrow> jstr) \<Rightarrow> responses_event \<Rightarrow> responses_translator step" where
  "feed_event fresh e t = (if rt_finished t then (t, []) else then_do start_once (handle_event fresh e) t)"

definition finalize_responses :: "responses_translator step" where
  "finalize_responses t =
     (if rt_finished t then (t, [])
      else finish_error (js ''Upstream Responses stream ended without a terminal event'') t)"

fun feed_events :: "(nat \<Rightarrow> jstr) \<Rightarrow> responses_event list \<Rightarrow> responses_translator step" where
  "feed_events fresh [] = do_nothing"
| "feed_events fresh (e # es) = then_do (feed_event fresh e) (feed_events fresh es)"

definition translate_responses :: "(nat \<Rightarrow> jstr) \<Rightarrow> responses_event list \<Rightarrow> responses_translator step" where
  "translate_responses fresh es = then_do (feed_events fresh es) finalize_responses"

end
