(* ===== verification/ResponsesStreamProperties.thy ===== *)
theory ResponsesStreamProperties
  imports ResponsesStream
begin

text \<open>
  Streaming over the Responses API ends in exactly one terminal event, and a response that is streamed
  item by item is read as the translation of the whole response. Calls that overlap are not covered:
  the last section shows what the translator does with them.
\<close>

section \<open>How a stream ends\<close>

definition ends_message :: "stream_event \<Rightarrow> bool" where
  "ends_message e = (case e of Message_Stop \<Rightarrow> True | Stream_Error _ _ \<Rightarrow> True | _ \<Rightarrow> False)"

definition quiet :: "stream_event list \<Rightarrow> bool" where
  "quiet es = list_all (\<lambda>e. \<not> ends_message e) es"

text \<open>The stop reason of a stream that succeeds: the first event that ends it decides.\<close>

definition verdict :: "responses_response \<Rightarrow> bool \<Rightarrow> stop_reason option" where
  "verdict r tool = (case resolve_stop_reason r tool of Inr s \<Rightarrow> Some s | Inl _ \<Rightarrow> None)"

fun outcome :: "responses_event list \<Rightarrow> bool \<Rightarrow> stop_reason option" where
  "outcome [] tool = None"
| "outcome (e # es) tool =
     (case e of
        Response_Completed r \<Rightarrow> verdict r tool
      | Response_Failed r \<Rightarrow> verdict r tool
      | Response_Incomplete r \<Rightarrow> verdict r tool
      | Upstream_Error _ \<Rightarrow> None
      | Item_Added _ item \<Rightarrow> outcome es (tool \<or> is_call item)
      | Arguments_Piece _ _ \<Rightarrow> outcome es True
      | _ \<Rightarrow> outcome es tool)"

definition ends_stream :: "responses_event \<Rightarrow> bool" where
  "ends_stream e =
     (case e of Response_Completed _ \<Rightarrow> True | Response_Failed _ \<Rightarrow> True | Response_Incomplete _ \<Rightarrow> True
      | Upstream_Error _ \<Rightarrow> True | _ \<Rightarrow> False)"

definition makes_call :: "responses_event \<Rightarrow> bool" where
  "makes_call e = (case e of Item_Added _ item \<Rightarrow> is_call item | Arguments_Piece _ _ \<Rightarrow> True | _ \<Rightarrow> False)"

lemma quiet_simps [simp]:
  "quiet []" "quiet (a @ b) \<longleftrightarrow> quiet a \<and> quiet b" "quiet (e # es) \<longleftrightarrow> \<not> ends_message e \<and> quiet es"
  by (auto simp: quiet_def)

lemma terminal_simps [simp]:
  "\<not> ends_message (Message_Start m)" "\<not> ends_message (Block_Start i b)" "\<not> ends_message (Block_Delta i d)"
  "\<not> ends_message (Block_Stop i)" "\<not> ends_message (Message_Delta s u)" "ends_message Message_Stop"
  "ends_message (Stream_Error c x)"
  by (simp_all add: ends_message_def)

lemma map_set_not_empty [simp]: "map_set k v m \<noteq> []"
  by (cases m) auto

lemma end_active_keeps [simp]:
  "quiet (snd (end_active t))" "rt_finished (fst (end_active t)) = rt_finished t"
  "rt_buffers (fst (end_active t)) = rt_buffers t"
  by (simp_all add: end_active_def)

lemma open_call_keeps [simp]:
  "quiet (snd (open_call fresh k i n t))" "rt_finished (fst (open_call fresh k i n t)) = rt_finished t"
  "rt_buffers (fst (open_call fresh k i n t)) \<noteq> []"
  by (simp_all add: open_call_def then_do_parts split_beta Let_def)

text \<open>An event that does not end the stream.\<close>

lemma goes_on:
  assumes "\<not> ends_stream e"
  shows "quiet (snd (handle_event fresh e t)) \<and> rt_finished (fst (handle_event fresh e t)) = rt_finished t \<and>
    (rt_buffers (fst (handle_event fresh e t)) \<noteq> []) = (rt_buffers t \<noteq> [] \<or> makes_call e)"
proof (cases e rule: responses_event.exhaust)
  case (Arguments_Ended k)
  then show ?thesis
    by (cases "map_of (rt_buffers t) k") (simp_all add: handle_event_def close_call_def makes_call_def)
next
  case (Item_Added k item)
  then show ?thesis
    by (cases item rule: output_item.exhaust)
      (simp_all add: handle_event_def add_item_def makes_call_def is_call_def do_nothing_def)
qed (use assms in \<open>simp_all add: handle_event_def handle_text_delta_def handle_call_delta_def
       handle_reasoning_delta_def end_reasoning_def do_nothing_def then_do_parts makes_call_def ends_stream_def
       split_beta Let_def\<close>)

lemma finish_error_ends:
  "\<exists>pre. snd (finish_error m t) = pre @ [Stream_Error (js ''api_error'') m] \<and> quiet pre"
  "rt_finished (fst (finish_error m t))"
  by (simp_all add: finish_error_def then_do_parts)

lemma set_usage_keeps [simp]: "rt_buffers (set_usage u t) = rt_buffers t" "rt_finished (set_usage u t) = rt_finished t"
  by (simp_all add: set_usage_def log_warning_def split_beta Let_def split: option.split)

lemma terminal_ends:
  "\<exists>pre l. snd (handle_terminal r t) = pre @ [l] \<and> quiet pre \<and> ends_message l \<and>
     (l = Message_Stop \<longleftrightarrow> verdict r (rt_buffers t \<noteq> []) \<noteq> None)"
  "rt_finished (fst (handle_terminal r t))"
proof -
  let ?t1 = "set_usage (rr_usage r) ((fst (end_active t))\<lparr>rt_finished := True\<rparr>)"
  let ?d = "\<lambda>s. Message_Delta s (to_anthropic_usage (rt_usage ?t1))"
  have "(\<exists>pre l. snd (handle_terminal r t) = pre @ [l] \<and> quiet pre \<and> ends_message l \<and>
     (l = Message_Stop \<longleftrightarrow> verdict r (rt_buffers t \<noteq> []) \<noteq> None)) \<and> rt_finished (fst (handle_terminal r t))"
  proof (cases "resolve_stop_reason r (rt_buffers t \<noteq> [])")
    case (Inl err)
    obtain pre where "snd (finish_error (re_message err) ?t1) = pre @ [Stream_Error (js ''api_error'') (re_message err)]"
      "quiet pre" using finish_error_ends(1) by blast
    then show ?thesis using Inl finish_error_ends(2)
      by (intro conjI exI [of _ "snd (end_active t) @ ?d None # pre"] exI [of _ "Stream_Error (js ''api_error'') (re_message err)"])
        (simp_all add: handle_terminal_def then_do_parts Let_def verdict_def)
  next
    case (Inr stop)
    then show ?thesis
      by (intro conjI exI [of _ "snd (end_active t) @ [?d (Some stop)]"] exI [of _ Message_Stop])
        (simp_all add: handle_terminal_def then_do_parts Let_def verdict_def)
  qed
  then show "\<exists>pre l. snd (handle_terminal r t) = pre @ [l] \<and> quiet pre \<and> ends_message l \<and>
     (l = Message_Stop \<longleftrightarrow> verdict r (rt_buffers t \<noteq> []) \<noteq> None)" "rt_finished (fst (handle_terminal r t))"
    by blast+
qed

lemma ending_event:
  assumes "ends_stream e"
  shows "(\<exists>pre l. snd (handle_event fresh e t) = pre @ [l] \<and> quiet pre \<and> ends_message l \<and>
     (l = Message_Stop \<longleftrightarrow> outcome (e # es) (rt_buffers t \<noteq> []) \<noteq> None)) \<and> rt_finished (fst (handle_event fresh e t))"
proof (cases e rule: responses_event.exhaust)
  case (Upstream_Error m)
  then show ?thesis using finish_error_ends [of m t] by (auto simp: handle_event_def)
qed (use assms terminal_ends in \<open>auto simp: handle_event_def ends_stream_def\<close>)

lemma start_once_keeps [simp]:
  "quiet (snd (start_once t))" "rt_finished (fst (start_once t)) = rt_finished t"
  "rt_buffers (fst (start_once t)) = rt_buffers t"
  by (simp_all add: start_once_def make_message_start_def)

lemma finished_silent: "rt_finished t \<Longrightarrow> translate_responses fresh es t = (t, [])"
proof (induction es)
  case (Cons e es)
  then show ?case by (simp add: translate_responses_def then_do_def feed_event_def)
qed (simp add: translate_responses_def then_do_def do_nothing_def finalize_responses_def)

lemma translate_first:
  "snd (translate_responses fresh (e # es) t) =
     snd (feed_event fresh e t) @ snd (translate_responses fresh es (fst (feed_event fresh e t)))"
  by (simp add: translate_responses_def then_do_parts)

lemma ends_once:
  "\<not> rt_finished t \<Longrightarrow> \<exists>pre l. snd (translate_responses fresh es t) = pre @ [l] \<and> quiet pre \<and> ends_message l \<and>
     (l = Message_Stop \<longleftrightarrow> outcome es (rt_buffers t \<noteq> []) \<noteq> None)"
proof (induction es arbitrary: t)
  case Nil
  have "snd (translate_responses fresh [] t) = snd (finalize_responses t)"
    by (simp add: translate_responses_def then_do_parts do_nothing_def)
  then show ?case using Nil
    finish_error_ends(1) [of "js ''Upstream Responses stream ended without a terminal event''" t]
    by (auto simp: finalize_responses_def)
next
  case (Cons e es)
  let ?s = "fst (start_once t)"
  have feed: "snd (feed_event fresh e t) = snd (start_once t) @ snd (handle_event fresh e ?s)"
    "fst (feed_event fresh e t) = fst (handle_event fresh e ?s)"
    using Cons.prems by (simp_all add: feed_event_def then_do_parts)
  show ?case
  proof (cases "ends_stream e")
    case True
    obtain pre l where "snd (handle_event fresh e ?s) = pre @ [l]" "quiet pre" "ends_message l"
      "l = Message_Stop \<longleftrightarrow> outcome (e # es) (rt_buffers ?s \<noteq> []) \<noteq> None" "rt_finished (fst (handle_event fresh e ?s))"
      using ending_event [OF True] by blast
    then show ?thesis
      by (intro exI [of _ "snd (start_once t) @ pre"] exI [of _ l])
        (simp add: translate_first feed finished_silent del: outcome.simps)
  next
    case False
    note step = goes_on [OF False, of fresh ?s]
    then have "\<not> rt_finished (fst (handle_event fresh e ?s))" using Cons.prems by simp
    from Cons.IH [OF this] obtain pre l where IH: "snd (translate_responses fresh es (fst (handle_event fresh e ?s))) = pre @ [l]"
      "quiet pre" "ends_message l"
      "l = Message_Stop \<longleftrightarrow> outcome es (rt_buffers (fst (handle_event fresh e ?s)) \<noteq> []) \<noteq> None" by blast
    have "outcome (e # es) tool = outcome es (tool \<or> makes_call e)" for tool
      using False by (cases e rule: responses_event.exhaust) (simp_all add: ends_stream_def makes_call_def)
    then show ?thesis using IH step
      by (intro exI [of _ "snd (start_once t) @ snd (handle_event fresh e ?s) @ pre"] exI [of _ l])
        (simp add: translate_first feed)
  qed
qed

text \<open>C33. Every stream of the Responses API, whatever its events and wherever it breaks off, becomes a
  stream that ends in exactly one terminal event, which is the last: the stop of the message exactly
  when the first event that ends the upstream stream carries a response that completed, or one that only
  ran out of tokens before any call, and an error otherwise, an upstream that breaks off included.\<close>

theorem responses_end_once:
  "\<exists>pre l. snd (translate_responses fresh es (new_responses mid model warns)) = pre @ [l] \<and>
     quiet pre \<and> ends_message l \<and> (l = Message_Stop \<longleftrightarrow> outcome es False \<noteq> None)"
  using ends_once [of "new_responses mid model warns" fresh es] by (simp add: new_responses_def)

section \<open>A response that is streamed item by item\<close>

datatype streamed_item = Said "jstr list" | Thought "jstr list" | Called int jstr jstr "jstr list"

definition item_events :: "streamed_item \<Rightarrow> responses_event list" where
  "item_events it =
     (case it of
        Said ps \<Rightarrow> map Text_Piece ps @ [Text_Ended]
      | Thought ps \<Rightarrow> map Reasoning_Piece ps @ [Reasoning_Ended]
      | Called k i n ps \<Rightarrow> Item_Added k (Call_Output i n []) # map (Arguments_Piece k) ps @ [Arguments_Ended k])"

definition item_output :: "streamed_item \<Rightarrow> output_item" where
  "item_output it =
     (case it of
        Said ps \<Rightarrow> Message_Output [Output_Text (concat ps)]
      | Thought ps \<Rightarrow> Reasoning_Output (Some [concat ps])
      | Called _ i n ps \<Rightarrow> Call_Output i n (concat ps))"

text \<open>No piece of text or thinking is empty, and a call has an id.\<close>

definition well_streamed :: "streamed_item \<Rightarrow> bool" where
  "well_streamed it =
     (case it of
        Said ps \<Rightarrow> list_all (\<lambda>p. p \<noteq> []) ps
      | Thought ps \<Rightarrow> list_all (\<lambda>p. p \<noteq> []) ps
      | Called _ i _ _ \<Rightarrow> i \<noteq> [])"

definition at_rest :: "responses_translator \<Rightarrow> reader \<Rightarrow> bool \<Rightarrow> bool" where
  "at_rest t r tool \<longleftrightarrow>
     rt_started t \<and> \<not> rt_finished t \<and> rt_active t = None \<and> \<not> rt_reasoning t \<and> (rt_buffers t \<noteq> []) = tool \<and>
     rt_usage t = no_usage \<and> still_reading r \<and> \<not> rd_stopped r \<and> rd_open r = None \<and> rt_index t = length (rd_blocks r)"

lemma feed_events_append:
  "snd (feed_events fresh (a @ b) t) = snd (feed_events fresh a t) @ snd (feed_events fresh b (fst (feed_events fresh a t)))"
  "fst (feed_events fresh (a @ b) t) = fst (feed_events fresh b (fst (feed_events fresh a t)))"
  by (induction a arbitrary: t) (simp_all add: then_do_parts do_nothing_def)

lemma feed_started: "rt_started t \<Longrightarrow> \<not> rt_finished t \<Longrightarrow> feed_event fresh e t = handle_event fresh e t"
  by (simp add: feed_event_def start_once_def then_do_def split_beta)

lemma still_reading_open [simp]: "still_reading (r\<lparr>rd_open := b\<rparr>) = still_reading r" "still_reading (r\<lparr>rd_blocks := bs\<rparr>) = still_reading r"
  by (simp_all add: still_reading_def)

text \<open>The pieces of the block that is open.\<close>

lemma piece_run:
  assumes step: "\<And>t p. P t \<Longrightarrow> P (fst (feed_event fresh (E p) t)) \<and> snd (feed_event fresh (E p) t) = [Block_Delta n (D p)]"
    and extend: "\<And>s p. extend_block (D p) (B s) = Some (B (s @ p))"
  shows "P t \<Longrightarrow> rd_open r = Some (B s) \<Longrightarrow> still_reading r \<Longrightarrow> n = length (rd_blocks r) \<Longrightarrow>
    P (fst (feed_events fresh (map E ps) t)) \<and>
    read_events (snd (feed_events fresh (map E ps) t)) r = Some (r\<lparr>rd_open := Some (B (s @ concat ps))\<rparr>)"
proof (induction ps arbitrary: t r s)
  case (Cons p ps)
  have P: "P (fst (feed_event fresh (E p) t))" and es: "snd (feed_event fresh (E p) t) = [Block_Delta n (D p)]"
    using step [OF Cons.prems(1)] by simp_all
  have read: "read_event (Block_Delta n (D p)) r = Some (r\<lparr>rd_open := Some (B (s @ p))\<rparr>)"
    using Cons.prems extend by simp
  have "rd_open (r\<lparr>rd_open := Some (B (s @ p))\<rparr>) = Some (B (s @ p))" "still_reading (r\<lparr>rd_open := Some (B (s @ p))\<rparr>)"
    "n = length (rd_blocks (r\<lparr>rd_open := Some (B (s @ p))\<rparr>))" using Cons.prems by simp_all
  from Cons.IH [OF P this] show ?case by (simp add: then_do_parts es read del: read_event.simps)
qed (simp add: do_nothing_def)

text \<open>A block of pieces, from the state that opened it to the state that closed it.\<close>

definition reads_as :: "(jstr \<Rightarrow> json option) \<Rightarrow> (nat \<Rightarrow> jstr) \<Rightarrow> responses_event list \<Rightarrow> content_block list \<Rightarrow> bool \<Rightarrow> bool" where
  "reads_as parse fresh es content calls \<longleftrightarrow>
     (\<forall>t r tool. at_rest t r tool \<longrightarrow>
        (\<exists>r'. read_events (snd (feed_events fresh es t)) r = Some r' \<and>
           at_rest (fst (feed_events fresh es t)) r' (tool \<or> calls) \<and>
           map (whole parse) (rd_blocks r') = map (whole parse) (rd_blocks r) @ content))"

lemma reads_as_append:
  assumes "reads_as parse fresh a c1 b1" "reads_as parse fresh b c2 b2"
  shows "reads_as parse fresh (a @ b) (c1 @ c2) (b1 \<or> b2)"
  unfolding reads_as_def
proof (intro allI impI)
  fix t r tool
  assume "at_rest t r tool"
  then obtain r1 where r1: "read_events (snd (feed_events fresh a t)) r = Some r1"
    "at_rest (fst (feed_events fresh a t)) r1 (tool \<or> b1)"
    "map (whole parse) (rd_blocks r1) = map (whole parse) (rd_blocks r) @ c1"
    using assms(1) unfolding reads_as_def by blast
  then obtain r2 where "read_events (snd (feed_events fresh b (fst (feed_events fresh a t)))) r1 = Some r2"
    "at_rest (fst (feed_events fresh b (fst (feed_events fresh a t)))) r2 ((tool \<or> b1) \<or> b2)"
    "map (whole parse) (rd_blocks r2) = map (whole parse) (rd_blocks r1) @ c2"
    using assms(2) unfolding reads_as_def by blast
  then show "\<exists>r'. read_events (snd (feed_events fresh (a @ b) t)) r = Some r' \<and>
     at_rest (fst (feed_events fresh (a @ b) t)) r' (tool \<or> b1 \<or> b2) \<and>
     map (whole parse) (rd_blocks r') = map (whole parse) (rd_blocks r) @ c1 @ c2"
    using r1 by (simp add: feed_events_append read_events_append disj_assoc)
qed

lemma concat_not_empty: "list_all (\<lambda>p. p \<noteq> []) ps \<Longrightarrow> ps \<noteq> [] \<Longrightarrow> concat ps \<noteq> []"
  by (cases ps) auto

lemma silent_reads: "(\<And>t r tool. at_rest t r tool \<Longrightarrow> feed_events fresh es t = (t, [])) \<Longrightarrow> reads_as parse fresh es [] False"
  by (auto simp: reads_as_def)

lemma text_active:
  assumes "rt_started t" "\<not> rt_finished t"
  shows "rt_active t = Some Text_Block \<Longrightarrow> feed_event fresh (Text_Piece p) t = (t, [Block_Delta (rt_index t) (Text_Delta p)])"
    "rt_active t = None \<Longrightarrow> feed_event fresh (Text_Piece p) t =
      (t\<lparr>rt_active := Some Text_Block\<rparr>, [Block_Start (rt_index t) (Text_Content []), Block_Delta (rt_index t) (Text_Delta p)])"
  using assms by (simp_all add: feed_started handle_event_def handle_text_delta_def then_do_def end_active_def)

lemma thinking_active:
  assumes "rt_started t" "\<not> rt_finished t"
  shows "rt_active t = Some Thinking_Block \<Longrightarrow>
      feed_event fresh (Reasoning_Piece p) t = (t, [Block_Delta (rt_index t) (Thinking_Delta p)])"
    "rt_active t = None \<Longrightarrow> feed_event fresh (Reasoning_Piece p) t =
      (t\<lparr>rt_active := Some Thinking_Block, rt_reasoning := True\<rparr>,
       [Block_Start (rt_index t) (Thinking_Content [] []), Block_Delta (rt_index t) (Thinking_Delta p)])"
  using assms by (simp_all add: feed_started handle_event_def handle_reasoning_delta_def then_do_def end_active_def)

lemma said_reads:
  assumes "list_all (\<lambda>p. p \<noteq> []) ps"
  shows "reads_as parse fresh (item_events (Said ps)) (translate_output_item parse (item_output (Said ps))) False"
proof (cases ps)
  case Nil
  then show ?thesis
    by (auto simp: item_events_def item_output_def translate_output_item_def at_rest_def handle_event_def end_active_def
        then_do_def do_nothing_def feed_started intro!: silent_reads)
next
  case (Cons p rest)
  have full: "concat ps \<noteq> []" using concat_not_empty assms Cons by blast
  show ?thesis unfolding reads_as_def
  proof (intro allI impI)
    fix t r tool
    assume rest: "at_rest t r tool"
    let ?u = "t\<lparr>rt_active := Some Text_Block\<rparr>"
    let ?r = "r\<lparr>rd_open := Some (Read_Text [])\<rparr>"
    have ready: "rt_started t" "\<not> rt_finished t" "rt_active t = None" "rt_started ?u" "\<not> rt_finished ?u"
      "rt_active ?u = Some Text_Block" using rest by (simp_all add: at_rest_def)
    have first: "snd (feed_events fresh (map Text_Piece ps) t) =
          Block_Start (rt_index t) (Text_Content []) # snd (feed_events fresh (map Text_Piece ps) ?u)"
        "fst (feed_events fresh (map Text_Piece ps) t) = fst (feed_events fresh (map Text_Piece ps) ?u)"
      using ready by (simp_all add: Cons then_do_parts text_active)
    have "fst (feed_events fresh (map Text_Piece ps) ?u) = ?u \<and>
      read_events (snd (feed_events fresh (map Text_Piece ps) ?u)) ?r = Some (?r\<lparr>rd_open := Some (Read_Text ([] @ concat ps))\<rparr>)"
      by (rule piece_run [where D = Text_Delta and P = "\<lambda>u. u = ?u" and n = "rt_index t"])
        (use ready rest in \<open>simp_all add: text_active at_rest_def\<close>)
    then show "\<exists>r'. read_events (snd (feed_events fresh (item_events (Said ps)) t)) r = Some r' \<and>
           at_rest (fst (feed_events fresh (item_events (Said ps)) t)) r' (tool \<or> False) \<and>
           map (whole parse) (rd_blocks r') = map (whole parse) (rd_blocks r) @ translate_output_item parse (item_output (Said ps))"
      using rest full
      by (intro exI [of _ "r\<lparr>rd_open := None, rd_blocks := rd_blocks r @ [Read_Text (concat ps)]\<rparr>"])
        (simp add: item_events_def item_output_def translate_output_item_def feed_events_append first read_events_append
          starts_as_def at_rest_def then_do_parts do_nothing_def feed_started handle_event_def end_active_def whole_def)
  qed
qed

lemma thought_reads:
  assumes "list_all (\<lambda>p. p \<noteq> []) ps"
  shows "reads_as parse fresh (item_events (Thought ps)) (translate_output_item parse (item_output (Thought ps))) False"
proof (cases ps)
  case Nil
  then show ?thesis
    by (auto simp: item_events_def item_output_def translate_output_item_def at_rest_def handle_event_def end_reasoning_def
        then_do_def do_nothing_def feed_started intro!: silent_reads)
next
  case (Cons p rest)
  have full: "concat ps \<noteq> []" using concat_not_empty assms Cons by blast
  show ?thesis unfolding reads_as_def
  proof (intro allI impI)
    fix t r tool
    assume rest: "at_rest t r tool"
    let ?u = "t\<lparr>rt_active := Some Thinking_Block, rt_reasoning := True\<rparr>"
    let ?r = "r\<lparr>rd_open := Some (Read_Thinking [])\<rparr>"
    have ready: "rt_started t" "\<not> rt_finished t" "rt_active t = None" "rt_started ?u" "\<not> rt_finished ?u"
      "rt_active ?u = Some Thinking_Block" using rest by (simp_all add: at_rest_def)
    have first: "snd (feed_events fresh (map Reasoning_Piece ps) t) =
          Block_Start (rt_index t) (Thinking_Content [] []) # snd (feed_events fresh (map Reasoning_Piece ps) ?u)"
        "fst (feed_events fresh (map Reasoning_Piece ps) t) = fst (feed_events fresh (map Reasoning_Piece ps) ?u)"
      using ready by (simp_all add: Cons then_do_parts thinking_active)
    have "fst (feed_events fresh (map Reasoning_Piece ps) ?u) = ?u \<and>
      read_events (snd (feed_events fresh (map Reasoning_Piece ps) ?u)) ?r
        = Some (?r\<lparr>rd_open := Some (Read_Thinking ([] @ concat ps))\<rparr>)"
      by (rule piece_run [where D = Thinking_Delta and P = "\<lambda>u. u = ?u" and n = "rt_index t"])
        (use ready rest in \<open>simp_all add: thinking_active at_rest_def\<close>)
    then show "\<exists>r'. read_events (snd (feed_events fresh (item_events (Thought ps)) t)) r = Some r' \<and>
           at_rest (fst (feed_events fresh (item_events (Thought ps)) t)) r' (tool \<or> False) \<and>
           map (whole parse) (rd_blocks r') = map (whole parse) (rd_blocks r) @ translate_output_item parse (item_output (Thought ps))"
      using rest full
      by (intro exI [of _ "r\<lparr>rd_open := None, rd_blocks := rd_blocks r @ [Read_Thinking (concat ps)]\<rparr>"])
        (simp add: item_events_def item_output_def translate_output_item_def feed_events_append first read_events_append
          starts_as_def at_rest_def then_do_parts do_nothing_def feed_started handle_event_def end_reasoning_def
          end_active_def whole_def Let_def)
  qed
qed

text \<open>A call that is open: its buffer stands at the current block.\<close>

definition call_state :: "int \<Rightarrow> nat \<Rightarrow> responses_translator \<Rightarrow> bool" where
  "call_state k n t \<longleftrightarrow>
     rt_started t \<and> \<not> rt_finished t \<and> rt_active t = Some Tool_Block \<and> \<not> rt_reasoning t \<and> rt_usage t = no_usage \<and>
     rt_index t = n \<and> rt_buffers t \<noteq> [] \<and> (\<exists>b. map_of (rt_buffers t) k = Some b \<and> cb_index b = n)"

lemma call_piece:
  assumes "call_state k n t"
  shows "call_state k n (fst (feed_event fresh (Arguments_Piece k p) t)) \<and>
    snd (feed_event fresh (Arguments_Piece k p) t) = [Block_Delta n (Json_Delta p)]"
  using assms
  by (auto simp: call_state_def feed_started handle_event_def handle_call_delta_def then_do_parts map_has_def Let_def)

lemma call_begun:
  assumes "at_rest t r tool" "i \<noteq> []"
  shows "call_state k (rt_index t) (fst (feed_event fresh (Item_Added k (Call_Output i m a)) t))"
    "snd (feed_event fresh (Item_Added k (Call_Output i m a)) t) = [Block_Start (rt_index t) (Tool_Content i m (JObj []))]"
  using assms
  by (simp_all add: at_rest_def call_state_def feed_started handle_event_def add_item_def open_call_def then_do_parts
      end_active_def or_fresh_def truthy_def truthy_str_def)

lemma call_ended:
  assumes "call_state k n t"
  shows "feed_event fresh (Arguments_Ended k) t = (t\<lparr>rt_index := Suc n, rt_active := None\<rparr>, [Block_Stop n])"
  using assms by (auto simp: call_state_def feed_started handle_event_def close_call_def Let_def)

lemma called_reads:
  assumes "i \<noteq> []"
  shows "reads_as parse fresh (item_events (Called k i m ps)) (translate_output_item parse (item_output (Called k i m ps))) True"
  unfolding reads_as_def
proof (intro allI impI)
  fix t r tool
  assume rest: "at_rest t r tool"
  let ?n = "rt_index t"
  define u where "u = fst (feed_event fresh (Item_Added k (Call_Output i m [])) t)"
  define v where "v = fst (feed_events fresh (map (Arguments_Piece k) ps) u)"
  let ?r = "r\<lparr>rd_open := Some (Read_Tool i m [])\<rparr>"
  note begun = call_begun [OF rest assms, where fresh = fresh and k = k and m = m and a = "[]", folded u_def]
  have run: "call_state k ?n v \<and>
      read_events (snd (feed_events fresh (map (Arguments_Piece k) ps) u)) ?r
        = Some (?r\<lparr>rd_open := Some (Read_Tool i m ([] @ concat ps))\<rparr>)"
    unfolding v_def
    by (rule piece_run [where D = Json_Delta and P = "call_state k ?n" and n = ?n])
      (use rest begun(1) call_piece in \<open>simp_all add: at_rest_def\<close>)
  have events: "snd (feed_events fresh (item_events (Called k i m ps)) t) =
      Block_Start ?n (Tool_Content i m (JObj [])) # snd (feed_events fresh (map (Arguments_Piece k) ps) u) @ [Block_Stop ?n]"
    "fst (feed_events fresh (item_events (Called k i m ps)) t) = v\<lparr>rt_index := Suc ?n, rt_active := None\<rparr>"
    using begun(2) call_ended [of k ?n v fresh] run
    by (simp_all add: item_events_def then_do_parts feed_events_append do_nothing_def u_def [symmetric] v_def [symmetric])
  let ?fin = "r\<lparr>rd_open := None, rd_blocks := rd_blocks r @ [Read_Tool i m (concat ps)]\<rparr>"
  have "read_events (snd (feed_events fresh (item_events (Called k i m ps)) t)) r = Some ?fin"
    using run rest by (simp add: events read_events_append starts_as_def at_rest_def)
  moreover have "at_rest (v\<lparr>rt_index := Suc ?n, rt_active := None\<rparr>) ?fin True"
    using run rest by (simp add: at_rest_def call_state_def)
  ultimately show "\<exists>r'. read_events (snd (feed_events fresh (item_events (Called k i m ps)) t)) r = Some r' \<and>
         at_rest (fst (feed_events fresh (item_events (Called k i m ps)) t)) r' (tool \<or> True) \<and>
         map (whole parse) (rd_blocks r') = map (whole parse) (rd_blocks r) @ translate_output_item parse (item_output (Called k i m ps))"
    by (intro exI [of _ ?fin]) (simp add: events(2) item_output_def translate_output_item_def whole_def)
qed

lemma item_reads:
  assumes "well_streamed it"
  shows "reads_as parse fresh (item_events it) (translate_output_item parse (item_output it)) (is_call (item_output it))"
  using assms said_reads thought_reads called_reads
  by (cases it) (simp_all add: well_streamed_def is_call_def item_output_def)

lemma items_read:
  "list_all well_streamed items \<Longrightarrow>
    reads_as parse fresh (concat (map item_events items)) (concat (map (translate_output_item parse) (map item_output items)))
      (list_ex is_call (map item_output items))"
proof (induction items)
  case (Cons it items)
  then show ?case using reads_as_append [OF item_reads] by simp
qed (simp add: silent_reads do_nothing_def)

definition ending_event_of :: "responses_response \<Rightarrow> responses_event" where
  "ending_event_of r =
     (case rr_status r of Rs_Failed \<Rightarrow> Response_Failed r | Rs_Incomplete \<Rightarrow> Response_Incomplete r
      | _ \<Rightarrow> Response_Completed r)"

definition streamed_response :: "streamed_item list \<Rightarrow> responses_response \<Rightarrow> responses_event list" where
  "streamed_response items r = concat (map item_events items) @ [ending_event_of r]"

text \<open>The terminal event, from the state between two items.\<close>

lemma terminal_run:
  assumes "at_rest t r tool"
  shows "snd (translate_responses fresh [ending_event_of resp] t) =
    (let u = to_anthropic_usage (fst (from_usage Responses_Api (rr_usage resp)))
     in case resolve_stop_reason resp tool of
          Inr stop \<Rightarrow> [Message_Delta (Some stop) u, Message_Stop]
        | Inl err \<Rightarrow> [Message_Delta None u, Stream_Error (js ''api_error'') (re_message err)])"
proof -
  let ?t1 = "set_usage (rr_usage resp) (t\<lparr>rt_finished := True\<rparr>)"
  have idle: "end_active t = (t, [])" using assms by (simp add: at_rest_def end_active_def)
  have usage: "rt_usage ?t1 = fst (from_usage Responses_Api (rr_usage resp))"
    using assms by (simp add: set_usage_def split_beta at_rest_def from_usage_def)
  have idle1: "end_active ?t1 = (?t1, [])"
    using assms by (simp add: at_rest_def end_active_def set_usage_def log_warning_def split_beta split: option.split)
  have "handle_event fresh (ending_event_of resp) = handle_terminal resp"
    by (simp add: ending_event_of_def handle_event_def split: response_status.split)
  moreover have "rt_buffers t \<noteq> [] \<longleftrightarrow> tool" using assms by (simp add: at_rest_def)
  moreover have "feed_event fresh (ending_event_of resp) t = handle_event fresh (ending_event_of resp) t"
    using assms by (simp add: feed_started at_rest_def)
  moreover have "finalize_responses (fst (handle_terminal resp t)) = (fst (handle_terminal resp t), [])"
    using terminal_ends(2) by (simp add: finalize_responses_def)
  ultimately show ?thesis
    by (simp add: translate_responses_def then_do_parts do_nothing_def handle_terminal_def idle idle1 usage Let_def
        finish_error_def split: sum.split)
qed

lemma terminal_success:
  assumes "at_rest t r tool" "resolve_stop_reason resp tool = Inr stop"
  shows "\<exists>r'. read_events (snd (translate_responses fresh [ending_event_of resp] t)) r = Some r' \<and>
    rd_blocks r' = rd_blocks r \<and> rd_stopped r' \<and>
    rd_end r' = Some (Some stop, to_anthropic_usage (fst (from_usage Responses_Api (rr_usage resp))))"
  using assms
  by (intro exI [of _ "r\<lparr>rd_end := Some (Some stop, to_anthropic_usage (fst (from_usage Responses_Api (rr_usage resp)))),
      rd_stopped := True\<rparr>"]) (simp add: terminal_run [OF assms(1)] at_rest_def)

lemma feed_start:
  assumes "es \<noteq> []"
  shows "snd (translate_responses fresh es (new_responses mid model warns)) =
    make_message_start (new_responses mid model warns)
      # snd (translate_responses fresh es ((new_responses mid model warns)\<lparr>rt_started := True\<rparr>))"
proof -
  obtain e rest where es: "es = e # rest" using assms by (cases es) auto
  have "feed_event fresh e (new_responses mid model warns) =
      (fst (feed_event fresh e ((new_responses mid model warns)\<lparr>rt_started := True\<rparr>)),
       make_message_start (new_responses mid model warns)
         # snd (feed_event fresh e ((new_responses mid model warns)\<lparr>rt_started := True\<rparr>)))"
    by (simp add: feed_event_def new_responses_def start_once_def then_do_def split_beta)
  then show ?thesis by (simp add: es translate_first)
qed

lemma start_reads:
  "\<exists>r0. read_event (make_message_start (new_responses mid model warns)) new_reader = Some r0 \<and>
     at_rest ((new_responses mid model warns)\<lparr>rt_started := True\<rparr>) r0 False \<and> rd_blocks r0 = []"
  by (simp add: make_message_start_def new_reader_def at_rest_def new_responses_def still_reading_def)

lemma translate_append:
  "snd (translate_responses fresh (a @ b) t) =
     snd (feed_events fresh a t) @ snd (translate_responses fresh b (fst (feed_events fresh a t)))"
  by (simp add: translate_responses_def then_do_parts feed_events_append)



section \<open>Calls that overlap, and refusals\<close>

text \<open>Two calls that are open at once: the first done event closes a block that was closed when the second call
  began, and leaves the second without an active block, so that text after it opens at the index that the
  second call still holds.\<close>

lemma overlapping_calls_break:
  "read_events (snd (translate_responses (\<lambda>_. [])
     [Item_Added 0 (Call_Output [1] [2] []), Item_Added 1 (Call_Output [3] [4] []), Arguments_Ended 0, Arguments_Ended 1]
     (new_responses [] [] False))) new_reader = None"
  by (simp add: translate_responses_def then_do_def do_nothing_def feed_event_def start_once_def new_responses_def
      handle_event_def add_item_def open_call_def end_active_def or_fresh_def truthy_def truthy_str_def Let_def
      close_call_def finalize_responses_def finish_error_def make_message_start_def new_reader_def still_reading_def starts_as_def)

text \<open>A refusal: the whole translation shows it, while the events that carry it are none that the stream
  translates, so that the reader of the stream sees a message without a block.\<close>

lemma refusal_lost:
  assumes "rr_status resp = Rs_Completed" "rr_output resp = [Message_Output [Refusal t]]"
  shows "\<exists>rd a. read_events (snd (translate_responses fresh [Other_Event, Response_Completed resp]
      (new_responses mid model warns))) new_reader = Some rd \<and> rd_blocks rd = [] \<and> rd_stopped rd \<and>
    translate_responses_response parse mid resp model = Inr a \<and> ar_content a = [Text_Content (js ''[Refusal]: '' @ t)]"
proof -
  let ?new = "new_responses mid model warns"
  let ?t = "?new\<lparr>rt_started := True\<rparr>"
  obtain r0 where r0: "read_event (make_message_start ?new) new_reader = Some r0" "at_rest ?t r0 False" "rd_blocks r0 = []"
    using start_reads by blast
  have verdict: "resolve_stop_reason resp False = Inr End_Turn" using assms(1) by (simp add: resolve_stop_reason_def)
  have ending: "ending_event_of resp = Response_Completed resp" using assms(1) by (simp add: ending_event_of_def)
  from terminal_success [OF r0(2) verdict, of fresh] obtain rd where rd: "rd_blocks rd = []" "rd_stopped rd"
    "read_events (snd (translate_responses fresh [Response_Completed resp] ?t)) r0 = Some rd"
    using r0(3) ending by auto
  have "feed_event fresh Other_Event ?t = (?t, [])"
    using r0(2) by (simp add: feed_started at_rest_def handle_event_def do_nothing_def)
  then have "snd (translate_responses fresh [Other_Event, Response_Completed resp] ?new) =
      make_message_start ?new # snd (translate_responses fresh [Response_Completed resp] ?t)"
    using feed_start [of "[Other_Event, Response_Completed resp]" fresh mid model warns]
      translate_first [of fresh Other_Event "[Response_Completed resp]" ?t] by simp
  then have "read_events (snd (translate_responses fresh [Other_Event, Response_Completed resp] ?new)) new_reader = Some rd"
    by (simp add: r0(1) rd(3))
  moreover have "translate_responses_response parse mid resp model = Inr
     \<lparr>ar_id = mid, ar_content = [Text_Content (js ''[Refusal]: '' @ t)], ar_model = model, ar_stop = Some End_Turn,
      ar_stop_sequence = None, ar_usage = to_anthropic_usage (fst (from_usage Responses_Api (rr_usage resp)))\<rparr>"
    using verdict by (simp add: translate_responses_response_def assms(2) is_call_def rbind_def translate_output_item_def
        at_least_one_def)
  ultimately show ?thesis using rd(1,2) by (intro exI [of _ rd]) simp
qed

end
