(* ===== verification/BridgeRequest.thy ===== *)
theory BridgeRequest
  imports BridgeResponse
begin

text \<open>
  Requests of the OpenAI bridge: openai-bridge/translate/messages.ts, request.ts and request-responses.ts
  turn an Anthropic request into one of the two OpenAI protocols. The saver of tool images writes a file
  with a fresh name, so it is a parameter that is told how many images were saved before; None is a saver
  that throws. \<open>JSON.stringify\<close> is a parameter. Fields of a request that neither translation reads
  (max_tokens, temperature, top_p, top_k, stop_sequences, metadata) are left out.
\<close>

section \<open>Anthropic requests\<close>

datatype cache_control = Ephemeral "jstr option"

datatype image_kind = Image_Base64 | Image_Url

record image_source =
  is_kind :: image_kind
  is_media :: "jstr option"
  is_data :: "jstr option"
  is_url :: "jstr option"

datatype result_part = Result_Text jstr | Result_Image jstr jstr

record tool_result =
  tl_use :: jstr
  tl_content :: "(jstr + result_part list) option"
  tl_error :: bool
  tl_cache :: "cache_control option"

datatype message_block =
    Msg_Text jstr "cache_control option"
  | Msg_Image image_source "cache_control option"
  | Msg_Tool_Use jstr jstr json
  | Msg_Tool_Result tool_result
  | Msg_Thinking jstr

datatype message_body = Plain jstr | Blocks "message_block list"

datatype request_message = From_User message_body | From_Assistant message_body

datatype system_prompt = System_Text jstr | System_Blocks "(jstr \<times> cache_control option) list"

record anthropic_request =
  aq_model :: jstr
  aq_messages :: "request_message list"
  aq_system :: "system_prompt option"
  aq_stream :: "bool option"
  aq_tools :: "tool_definition list option"
  aq_tool_choice :: "tool_choice option"
  aq_thinking :: "bool option"

section \<open>Shared parts\<close>

type_synonym image_saver = "(nat \<Rightarrow> jstr \<Rightarrow> jstr \<Rightarrow> jstr option) option"

definition breakpoint :: "bool \<Rightarrow> cache_control option \<Rightarrow> bool" where
  "breakpoint enabled cache \<longleftrightarrow> enabled \<and> (case cache of Some (Ephemeral _) \<Rightarrow> True | None \<Rightarrow> False)"

definition or_default :: "jstr option \<Rightarrow> jstr \<Rightarrow> jstr" where
  "or_default s d = (if truthy s then the s else d)"

fun result_texts :: "image_saver \<Rightarrow> nat \<Rightarrow> result_part list \<Rightarrow> jstr list \<times> nat" where
  "result_texts saver n [] = ([], n)"
| "result_texts saver n (Result_Text t # ps) = (let (ts, n') = result_texts saver n ps in (t # ts, n'))"
| "result_texts saver n (Result_Image media data # ps) =
     (if saver \<noteq> None \<and> truthy_str data
      then (let (ts, n') = result_texts saver (Suc n) ps
            in ((case the saver n data (if truthy_str media then media else js ''image/png'') of
                   Some path \<Rightarrow> js ''[Tool returned an image, saved to '' @ path @ js '']''
                 | None \<Rightarrow> js ''[Tool returned an image, failed to save]'') # ts, n'))
      else (let (ts, n') = result_texts saver n ps
            in (js ''[Image content omitted - tool returned an image]'' # ts, n')))"

definition tag_error :: "tool_result \<Rightarrow> jstr \<Rightarrow> jstr" where
  "tag_error tr t = (if tl_error tr then js ''<error>'' @ t @ js ''</error>'' else t)"

text \<open>An absent content and an empty string are both falsy; an empty list is not.\<close>

definition result_text :: "image_saver \<Rightarrow> nat \<Rightarrow> tool_result \<Rightarrow> jstr \<times> nat" where
  "result_text saver n tr =
     (case tl_content tr of
        None \<Rightarrow> (tag_error tr [], n)
      | Some (Inl s) \<Rightarrow> (tag_error tr s, n)
      | Some (Inr ps) \<Rightarrow> (let (ts, n') = result_texts saver n ps in (tag_error tr (join_with [10] ts), n')))"

fun result_text_list :: "image_saver \<Rightarrow> nat \<Rightarrow> tool_result list \<Rightarrow> (tool_result \<times> jstr) list \<times> nat" where
  "result_text_list saver n [] = ([], n)"
| "result_text_list saver n (r # rs) =
     (let (t, n1) = result_text saver n r; (ts, n2) = result_text_list saver n1 rs in ((r, t) # ts, n2))"

definition blocks_of :: "request_message \<Rightarrow> message_block list" where
  "blocks_of m = (case m of From_Assistant (Blocks bs) \<Rightarrow> bs | _ \<Rightarrow> [])"

definition tool_use_id :: "message_block \<Rightarrow> jstr list" where
  "tool_use_id b = (case b of Msg_Tool_Use i _ _ \<Rightarrow> [i] | _ \<Rightarrow> [])"

definition tool_ids :: "request_message \<Rightarrow> jstr list" where
  "tool_ids m = concat (map tool_use_id (blocks_of m))"

definition known_tool_ids :: "request_message list \<Rightarrow> jstr set" where
  "known_tool_ids ms = set (concat (map tool_ids ms))"

definition has_thinking :: "request_message \<Rightarrow> bool" where
  "has_thinking m = list_ex (\<lambda>b. case b of Msg_Thinking t \<Rightarrow> truthy_str t | _ \<Rightarrow> False) (blocks_of m)"

definition tool_results :: "message_block list \<Rightarrow> tool_result list" where
  "tool_results bs = concat (map (\<lambda>b. case b of Msg_Tool_Result r \<Rightarrow> [r] | _ \<Rightarrow> []) bs)"

definition known_results :: "jstr set \<Rightarrow> message_block list \<Rightarrow> tool_result list" where
  "known_results known bs = filter (\<lambda>r. tl_use r \<in> known) (tool_results bs)"

definition orphans :: "jstr set \<Rightarrow> message_block list \<Rightarrow> tool_result list" where
  "orphans known bs = filter (\<lambda>r. tl_use r \<notin> known) (tool_results bs)"

definition previous_result :: "jstr \<Rightarrow> jstr" where
  "previous_result t = js ''[Previous tool result]:'' @ [10] @ t"

section \<open>Chat completions\<close>

datatype content_part = Part_Text jstr bool | Part_Image jstr bool

datatype part_body = Whole_Text jstr | Parts "content_part list"

datatype openai_message =
    System_Message part_body
  | User_Message part_body
  | Assistant_Message "part_body option" "jstr option" "upstream_call list option"
  | Tool_Message jstr part_body

definition data_uri :: "jstr \<Rightarrow> jstr \<Rightarrow> jstr" where
  "data_uri media data = js ''data:'' @ media @ js '';base64,'' @ data"

definition translate_image_block :: "image_source \<Rightarrow> jstr" where
  "translate_image_block s =
     (if is_kind s = Image_Url \<and> truthy (is_url s) then the (is_url s)
      else data_uri (or_default (is_media s) (js ''image/png'')) (or_default (is_data s) []))"

definition openai_part :: "bool \<Rightarrow> message_block \<Rightarrow> content_part list" where
  "openai_part points b =
     (case b of
        Msg_Text t c \<Rightarrow> [Part_Text t (breakpoint points c)]
      | Msg_Image s c \<Rightarrow> [Part_Image (translate_image_block s) (breakpoint points c)]
      | _ \<Rightarrow> [])"

definition translate_user ::
    "image_saver \<Rightarrow> bool \<Rightarrow> jstr set \<Rightarrow> nat \<Rightarrow> message_body \<Rightarrow> openai_message list \<times> nat" where
  "translate_user saver points known n body =
     (case body of
        Plain t \<Rightarrow> ([User_Message (Whole_Text t)], n)
      | Blocks bs \<Rightarrow>
          (let (told, n1) = result_text_list saver n (known_results known bs);
               (lost, n2) = result_text_list saver n1 (orphans known bs);
               tools = map (\<lambda>(r, t). Tool_Message (tl_use r)
                   (if breakpoint points (tl_cache r) then Parts [Part_Text t True] else Whole_Text t)) told;
               others = filter (\<lambda>b. case b of Msg_Tool_Result _ \<Rightarrow> False | Msg_Thinking _ \<Rightarrow> False | _ \<Rightarrow> True) bs
                 @ map (\<lambda>(_, t). Msg_Text (previous_result t) None) (filter (\<lambda>(_, t). truthy_str t) lost);
               parts = concat (map (openai_part points) others)
           in (tools @ (case parts of
                   [] \<Rightarrow> []
                 | [Part_Text t False] \<Rightarrow> [User_Message (Whole_Text t)]
                 | _ \<Rightarrow> [User_Message (Parts parts)]), n2)))"

definition assistant_texts :: "message_block list \<Rightarrow> (jstr \<times> cache_control option) list" where
  "assistant_texts bs = concat (map (\<lambda>b. case b of Msg_Text t c \<Rightarrow> [(t, c)] | _ \<Rightarrow> []) bs)"

definition assistant_thinking :: "message_block list \<Rightarrow> jstr list" where
  "assistant_thinking bs =
     concat (map (\<lambda>b. case b of Msg_Thinking t \<Rightarrow> if t \<noteq> [] then [t] else [] | _ \<Rightarrow> []) bs)"

definition assistant_calls :: "(json \<Rightarrow> jstr) \<Rightarrow> message_block list \<Rightarrow> upstream_call list" where
  "assistant_calls stringify bs =
     concat (map (\<lambda>b. case b of
         Msg_Tool_Use i n v \<Rightarrow> [\<lparr>uc_id = Some i, uc_name = n, uc_arguments = stringify v\<rparr>] | _ \<Rightarrow> []) bs)"

definition translate_assistant :: "(json \<Rightarrow> jstr) \<Rightarrow> bool \<Rightarrow> bool \<Rightarrow> message_body \<Rightarrow> openai_message" where
  "translate_assistant stringify thinking points body =
     (case body of
        Plain t \<Rightarrow> Assistant_Message (Some (Whole_Text t)) None None
      | Blocks bs \<Rightarrow>
          (let texts = assistant_texts bs; thoughts = assistant_thinking bs; calls = assistant_calls stringify bs;
               structured = map (\<lambda>(t, c). Part_Text t (breakpoint points c)) texts
           in Assistant_Message
                (if texts = [] then None
                 else if list_ex (\<lambda>(t, c). breakpoint points c) texts then Some (Parts structured)
                 else Some (Whole_Text (concat (map fst texts))))
                (if thoughts \<noteq> [] \<or> thinking \<and> calls \<noteq> [] then Some (join_with [10] thoughts) else None)
                (if calls \<noteq> [] then Some calls else None)))"

definition system_text :: "system_prompt \<Rightarrow> jstr" where
  "system_text s = (case s of System_Text t \<Rightarrow> t | System_Blocks bs \<Rightarrow> join_with [10, 10] (map fst bs))"

text \<open>The blocks of a system prompt, each but the first after a blank line.\<close>

fun system_parts :: "bool \<Rightarrow> (jstr \<times> cache_control option) list \<Rightarrow> (jstr \<times> bool) list" where
  "system_parts start [] = []"
| "system_parts start ((t, c) # bs) = ((if start then t else [10, 10] @ t), breakpoint True c) # system_parts False bs"

definition translate_system :: "bool \<Rightarrow> system_prompt option \<Rightarrow> openai_message list" where
  "translate_system points s =
     (case s of
        None \<Rightarrow> []
      | Some p \<Rightarrow>
          (if system_text p = [] then []
           else (case p of
               System_Blocks bs \<Rightarrow>
                 if points then [System_Message (Parts (map (\<lambda>(t, b). Part_Text t b) (system_parts True bs)))]
                 else [System_Message (Whole_Text (system_text p))]
             | System_Text t \<Rightarrow> [System_Message (Whole_Text t)])))"

fun translate_each :: "(json \<Rightarrow> jstr) \<Rightarrow> image_saver \<Rightarrow> bool \<Rightarrow> bool \<Rightarrow> jstr set \<Rightarrow> nat \<Rightarrow> request_message list
    \<Rightarrow> openai_message list" where
  "translate_each stringify saver thinking points known n [] = []"
| "translate_each stringify saver thinking points known n (From_User body # ms) =
     (let (out, n') = translate_user saver points known n body
      in out @ translate_each stringify saver thinking points known n' ms)"
| "translate_each stringify saver thinking points known n (From_Assistant body # ms) =
     translate_assistant stringify thinking points body
       # translate_each stringify saver thinking points known n ms"

definition translate_messages :: "(json \<Rightarrow> jstr) \<Rightarrow> system_prompt option \<Rightarrow> request_message list \<Rightarrow> bool \<Rightarrow> image_saver \<Rightarrow>
    bool \<Rightarrow> openai_message list" where
  "translate_messages stringify system ms thinking saver points =
     translate_system points system @
     translate_each stringify saver (thinking \<or> list_ex has_thinking ms) points (known_tool_ids ms) 0 ms"

section \<open>The Responses API\<close>

datatype input_part = Input_Text jstr bool | Input_Image jstr bool | Replayed_Text jstr

datatype input_role = Developer_Role | User_Role | Assistant_Role

datatype input_body = Plain_Input jstr | Input_Parts "input_part list"

datatype input_item =
    Input_Message input_role input_body
  | Input_Call jstr jstr jstr
  | Input_Call_Output jstr jstr

definition input_part_of :: "bool \<Rightarrow> message_block \<Rightarrow> input_part list" where
  "input_part_of points b =
     (case b of
        Msg_Text t c \<Rightarrow> [Input_Text t (breakpoint points c)]
      | Msg_Image s c \<Rightarrow>
          if is_kind s = Image_Url \<and> truthy (is_url s) then [Input_Image (the (is_url s)) (breakpoint points c)]
          else if truthy (is_data s)
          then [Input_Image (data_uri (or_default (is_media s) (js ''image/png'')) (the (is_data s))) (breakpoint points c)]
          else []
      | _ \<Rightarrow> [])"

text \<open>Here the results without a known call are read first, in the loop that sorts the blocks.\<close>

definition input_user ::
    "image_saver \<Rightarrow> bool \<Rightarrow> jstr set \<Rightarrow> nat \<Rightarrow> message_body \<Rightarrow> input_item list \<times> nat" where
  "input_user saver points known n body =
     (case body of
        Plain t \<Rightarrow> ([Input_Message User_Role (Plain_Input t)], n)
      | Blocks bs \<Rightarrow>
          (let (lost, n1) = result_text_list saver n (orphans known bs);
               (told, n2) = result_text_list saver n1 (known_results known bs);
               outputs = map (\<lambda>(r, t). Input_Call_Output (tl_use r) t) told;
               parts = concat (map (input_part_of points) bs)
                 @ map (\<lambda>(_, t). Input_Text (previous_result t) False) (filter (\<lambda>(_, t). truthy_str t) lost)
           in (outputs @ (case parts of
                   [] \<Rightarrow> []
                 | [Input_Text t False] \<Rightarrow> [Input_Message User_Role (Plain_Input t)]
                 | _ \<Rightarrow> [Input_Message User_Role (Input_Parts parts)]), n2)))"

definition input_call :: "(json \<Rightarrow> jstr) \<Rightarrow> message_block \<Rightarrow> input_item list" where
  "input_call stringify b =
     (case b of
        Msg_Tool_Use i n v \<Rightarrow> [Input_Call i n (case v of JStr s \<Rightarrow> s | _ \<Rightarrow> stringify v)]
      | _ \<Rightarrow> [])"

definition input_assistant :: "(json \<Rightarrow> jstr) \<Rightarrow> message_body \<Rightarrow> input_item list" where
  "input_assistant stringify body =
     (case body of
        Plain t \<Rightarrow> [Input_Message Assistant_Role (Plain_Input t)]
      | Blocks bs \<Rightarrow>
          (let parts = map (\<lambda>(t, _). Replayed_Text t) (assistant_texts bs);
               calls = concat (map (input_call stringify) bs)
           in (if parts \<noteq> [] then [Input_Message Assistant_Role (Input_Parts parts)] else []) @ calls
              @ (if parts = [] \<and> calls = [] then [Input_Message Assistant_Role (Plain_Input [])] else [])))"

fun input_each :: "(json \<Rightarrow> jstr) \<Rightarrow> image_saver \<Rightarrow> bool \<Rightarrow> jstr set \<Rightarrow> nat \<Rightarrow> request_message list
    \<Rightarrow> input_item list" where
  "input_each stringify saver points known n [] = []"
| "input_each stringify saver points known n (From_User body # ms) =
     (let (out, n') = input_user saver points known n body
      in out @ input_each stringify saver points known n' ms)"
| "input_each stringify saver points known n (From_Assistant body # ms) =
     input_assistant stringify body @ input_each stringify saver points known n ms"

definition translate_input :: "(json \<Rightarrow> jstr) \<Rightarrow> request_message list \<Rightarrow> image_saver \<Rightarrow> bool \<Rightarrow> input_item list" where
  "translate_input stringify ms saver points =
     input_each stringify saver points (known_tool_ids ms) 0 ms"

section \<open>The whole request\<close>

text \<open>The size mark \<open>[1m]\<close> or \<open> 1m\<close> at the end of a model name.\<close>

definition one_m :: "jstr \<Rightarrow> bool" where
  "one_m s \<longleftrightarrow> s = js ''1m'' \<or> s = js ''1M''"

definition bare_model :: "jstr \<Rightarrow> jstr" where
  "bare_model m =
     (let e = trim_end m; n = length e in
      trim (if 4 \<le> n \<and> e ! (n - 4) = 91 \<and> one_m (take 2 (drop (n - 3) e)) \<and> e ! (n - 1) = 93 then take (n - 4) e
            else if 3 \<le> n \<and> one_m (drop (n - 2) e) \<and> is_space (e ! (n - 3)) then take (n - 2) e
            else m))"

definition strip_model_suffix :: "jstr option \<Rightarrow> jstr option" where
  "strip_model_suffix m =
     (if \<not> truthy m then None else if bare_model (the m) = [] then None else Some (bare_model (the m)))"

definition resolve_bridge_model :: "jstr \<Rightarrow> jstr option \<Rightarrow> (jstr \<Rightarrow> jstr option) option \<Rightarrow> jstr" where
  "resolve_bridge_model model override mapping =
     (let target = (if truthy override then the override
                    else if truthy (Option.bind mapping (\<lambda>f. f model)) then the (Option.bind mapping (\<lambda>f. f model))
                    else model)
      in case strip_model_suffix (Some target) of Some b \<Rightarrow> b | None \<Rightarrow> target)"

record bridge_options =
  bo_mapping :: "(jstr \<Rightarrow> jstr option) option"
  bo_override :: "jstr option"
  bo_saver :: image_saver
  bo_effort :: "jstr option"
  bo_cache_key :: "jstr option"
  bo_points :: "bool option"

definition truthy_flag :: "bool option \<Rightarrow> bool" where
  "truthy_flag b \<longleftrightarrow> b = Some True"

definition when_truthy :: "jstr option \<Rightarrow> jstr option" where
  "when_truthy s = (if truthy s then s else None)"

definition no_parallel :: "tool_choice option \<Rightarrow> bool" where
  "no_parallel c =
     (case c of
        Some (Choose_Auto d) \<Rightarrow> truthy_flag d | Some (Choose_Any d) \<Rightarrow> truthy_flag d
      | Some (Choose_Tool _ d) \<Rightarrow> truthy_flag d | _ \<Rightarrow> False)"

record openai_request =
  oq_model :: jstr
  oq_messages :: "openai_message list"
  oq_cache_key :: "jstr option"
  oq_tools :: "openai_function list option"
  oq_tool_choice :: "openai_choice option"
  oq_parallel :: "bool option"
  oq_stream :: "bool option"
  oq_include_usage :: "bool option"
  oq_effort :: "jstr option"

definition translate_request :: "(json \<Rightarrow> jstr) \<Rightarrow> bridge_options \<Rightarrow> anthropic_request \<Rightarrow> openai_request" where
  "translate_request stringify opts q =
     \<lparr>oq_model = resolve_bridge_model (aq_model q) (bo_override opts) (bo_mapping opts),
      oq_messages = translate_messages stringify (aq_system q) (aq_messages q) (truthy_flag (aq_thinking q))
        (bo_saver opts) (truthy_flag (bo_points opts)),
      oq_cache_key = when_truthy (bo_cache_key opts),
      oq_tools = (case aq_tools q of
          Some ts \<Rightarrow> if ts \<noteq> [] then Some (translate_tool_definitions ts) else None | None \<Rightarrow> None),
      oq_tool_choice = map_option translate_tool_choice (aq_tool_choice q),
      oq_parallel = (if no_parallel (aq_tool_choice q) then Some False else None),
      oq_stream = (if truthy_flag (aq_stream q) then Some True else None),
      oq_include_usage = (if truthy_flag (aq_stream q) then Some True else None),
      oq_effort = when_truthy (bo_effort opts)\<rparr>"

record responses_tool =
  rx_name :: jstr
  rx_description :: "jstr option"
  rx_parameters :: json
  rx_strict :: bool

record responses_request =
  rq_model :: jstr
  rq_input :: "input_item list"
  rq_store :: bool
  rq_instructions :: "jstr option"
  rq_cache_key :: "jstr option"
  rq_tools :: "responses_tool list option"
  rq_tool_choice :: "openai_choice option"
  rq_parallel :: "bool option"
  rq_stream :: "bool option"
  rq_effort :: "jstr option"

text \<open>The instructions, or the developer message that carries the breakpoints of a system prompt.\<close>

definition instructions_of :: "bool \<Rightarrow> system_prompt option \<Rightarrow> jstr option \<times> input_item list" where
  "instructions_of points s =
     (case s of
        None \<Rightarrow> (None, [])
      | Some (System_Text t) \<Rightarrow> (when_truthy (Some t), [])
      | Some (System_Blocks bs) \<Rightarrow>
          if points \<and> list_ex (\<lambda>(_, c). breakpoint True c) bs
          then (None, if system_text (System_Blocks bs) = [] then []
                      else [Input_Message Developer_Role
                              (Input_Parts (map (\<lambda>(t, b). Input_Text t b) (system_parts True bs)))])
          else (when_truthy (Some (system_text (System_Blocks bs))), []))"

definition translate_request_to_responses ::
    "(json \<Rightarrow> jstr) \<Rightarrow> bridge_options \<Rightarrow> anthropic_request \<Rightarrow> responses_request" where
  "translate_request_to_responses stringify opts q =
     (let points = truthy_flag (bo_points opts); (instructions, developer) = instructions_of points (aq_system q)
      in \<lparr>rq_model = resolve_bridge_model (aq_model q) (bo_override opts) (bo_mapping opts),
          rq_input = developer @ translate_input stringify (aq_messages q) (bo_saver opts) points,
          rq_store = False,
          rq_instructions = instructions,
          rq_cache_key = when_truthy (bo_cache_key opts),
          rq_tools = (case aq_tools q of
              Some ts \<Rightarrow> if ts \<noteq> []
                then Some (map (\<lambda>t. \<lparr>rx_name = tf_name t, rx_description = tf_description t, rx_parameters = tf_schema t,
                                     rx_strict = False\<rparr>) ts)
                else None
            | None \<Rightarrow> None),
          rq_tool_choice = map_option translate_tool_choice (aq_tool_choice q),
          rq_parallel = (if no_parallel (aq_tool_choice q) then Some False else None),
          rq_stream = (if truthy_flag (aq_stream q) then Some True else None),
          rq_effort = when_truthy (bo_effort opts)\<rparr>)"

end
