(* ===== verification/BridgeRequestProperties.thy ===== *)
theory BridgeRequestProperties
  imports BridgeRequest "HOL-Library.Multiset"
begin

text \<open>
  What the two OpenAI protocols demand of a conversation holds of the translated requests: the results of
  tool calls follow the calls at once. And an answer that the bridge translated is sent back, in the next
  request, as the upstream sent it.
\<close>

section \<open>Tool results follow their calls\<close>

definition body_blocks :: "message_body \<Rightarrow> message_block list" where
  "body_blocks body = (case body of Plain _ \<Rightarrow> [] | Blocks bs \<Rightarrow> bs)"

text \<open>The conversation of the agent: the calls of an assistant message are answered by the user message after
  it. Results whose call is not in the conversation may stand anywhere.\<close>

fun uses_answered :: "jstr set \<Rightarrow> jstr list \<Rightarrow> request_message list \<Rightarrow> bool" where
  "uses_answered known pending [] \<longleftrightarrow> pending = []"
| "uses_answered known pending (From_User body # ms) \<longleftrightarrow>
     mset (map tl_use (known_results known (body_blocks body))) = mset pending \<and> uses_answered known [] ms"
| "uses_answered known pending (From_Assistant body # ms) \<longleftrightarrow>
     pending = [] \<and> uses_answered known (tool_ids (From_Assistant body)) ms"

definition call_ids :: "upstream_call list option \<Rightarrow> jstr list" where
  "call_ids calls = (case calls of Some cs \<Rightarrow> map (\<lambda>c. the (uc_id c)) cs | None \<Rightarrow> [])"

text \<open>Chat completions: the tool messages after an assistant message answer its calls, each once, and stand
  nowhere else.\<close>

fun calls_answered :: "jstr list \<Rightarrow> openai_message list \<Rightarrow> bool" where
  "calls_answered pending [] \<longleftrightarrow> pending = []"
| "calls_answered pending (Tool_Message i _ # ms) \<longleftrightarrow> i \<in> set pending \<and> calls_answered (remove1 i pending) ms"
| "calls_answered pending (Assistant_Message _ _ calls # ms) \<longleftrightarrow> pending = [] \<and> calls_answered (call_ids calls) ms"
| "calls_answered pending (User_Message _ # ms) \<longleftrightarrow> pending = [] \<and> calls_answered [] ms"
| "calls_answered pending (System_Message _ # ms) \<longleftrightarrow> pending = [] \<and> calls_answered [] ms"

text \<open>The Responses API: the same for items, where every call is an item of its own.\<close>

fun outputs_follow :: "jstr list \<Rightarrow> input_item list \<Rightarrow> bool" where
  "outputs_follow pending [] \<longleftrightarrow> pending = []"
| "outputs_follow pending (Input_Call_Output i _ # ms) \<longleftrightarrow> i \<in> set pending \<and> outputs_follow (remove1 i pending) ms"
| "outputs_follow pending (Input_Call i _ _ # ms) \<longleftrightarrow> outputs_follow (pending @ [i]) ms"
| "outputs_follow pending (Input_Message _ _ # ms) \<longleftrightarrow> pending = [] \<and> outputs_follow [] ms"

lemma results_keep_order: "map fst (fst (result_text_list saver n rs)) = rs"
  by (induction rs arbitrary: n) (simp_all add: split_beta Let_def)

lemma results_ids: "map (\<lambda>(r, t). tl_use r) (fst (result_text_list saver n rs)) = map tl_use rs"
  using arg_cong [OF results_keep_order, of "map tl_use" saver n rs] by (simp add: case_prod_unfold comp_def)

lemma tools_answer:
  "mset (map f rs) = mset pending \<Longrightarrow>
    calls_answered pending (map (\<lambda>r. Tool_Message (f r) (g r)) rs @ ms) = calls_answered [] ms"
proof (induction rs arbitrary: pending)
  case (Cons r rs)
  then have "f r \<in> set pending" by (metis list.set_intros(1) list.simps(9) mset_eq_setD)
  moreover have "mset (map f rs) = mset (remove1 (f r) pending)"
    using Cons.prems by (metis add_mset_remove_trivial list.simps(9) mset.simps(2) mset_remove1)
  ultimately show ?case using Cons.IH by simp
qed simp

lemma outputs_answer:
  "mset (map f rs) = mset pending \<Longrightarrow>
    outputs_follow pending (map (\<lambda>r. Input_Call_Output (f r) (g r)) rs @ ms) = outputs_follow [] ms"
proof (induction rs arbitrary: pending)
  case (Cons r rs)
  then have "f r \<in> set pending" by (metis list.set_intros(1) list.simps(9) mset_eq_setD)
  moreover have "mset (map f rs) = mset (remove1 (f r) pending)"
    using Cons.prems by (metis add_mset_remove_trivial list.simps(9) mset.simps(2) mset_remove1)
  ultimately show ?case using Cons.IH by simp
qed simp

lemma calls_added: "outputs_follow pending (map (\<lambda>c. Input_Call (f c) (g c) (h c)) cs @ ms) = outputs_follow (pending @ map f cs) ms"
  by (induction cs arbitrary: pending) simp_all

text \<open>A translated user message: the results of known calls, then at most one user message.\<close>

definition tool_message :: "bool \<Rightarrow> tool_result \<times> jstr \<Rightarrow> openai_message" where
  "tool_message points x =
     Tool_Message (tl_use (fst x)) (if breakpoint points (tl_cache (fst x)) then Parts [Part_Text (snd x) True] else Whole_Text (snd x))"

lemma user_shape:
  "\<exists>tail. fst (translate_user saver points known n (Blocks bs)) =
      map (tool_message points) (fst (result_text_list saver n (known_results known bs))) @ tail \<and>
    (tail = [] \<or> (\<exists>b. tail = [User_Message b]))"
  by (auto simp: translate_user_def tool_message_def split_beta Let_def comp_def
      split: list.split content_part.split bool.split)

lemma user_answers:
  assumes "mset (map tl_use (known_results known (body_blocks body))) = mset pending"
  shows "calls_answered pending (fst (translate_user saver points known n body) @ ms) = calls_answered [] ms"
proof (cases body)
  case (Plain t)
  then show ?thesis using assms by (simp add: translate_user_def body_blocks_def known_results_def tool_results_def)
next
  case (Blocks bs)
  let ?told = "fst (result_text_list saver n (known_results known bs))"
  have ids: "mset (map (\<lambda>x. tl_use (fst x)) ?told) = mset pending"
    using assms Blocks results_ids [of saver n "known_results known bs"] by (simp add: body_blocks_def case_prod_unfold)
  obtain tail where out: "fst (translate_user saver points known n body) = map (tool_message points) ?told @ tail"
    "tail = [] \<or> (\<exists>b. tail = [User_Message b])" using user_shape Blocks by blast
  show ?thesis using out(2) tools_answer [OF ids]
    by (auto simp: out(1) tool_message_def [abs_def])
qed

lemma user_outputs:
  assumes "mset (map tl_use (known_results known (body_blocks body))) = mset pending"
  shows "outputs_follow pending (fst (input_user saver points known n body) @ ms) = outputs_follow [] ms"
proof (cases body)
  case (Plain t)
  then show ?thesis using assms by (simp add: input_user_def body_blocks_def known_results_def tool_results_def)
next
  case (Blocks bs)
  obtain told where told: "told = fst (result_text_list saver (snd (result_text_list saver n (orphans known bs))) (known_results known bs))"
    by simp
  have ids: "mset (map (\<lambda>(r, t). tl_use r) told) = mset pending"
    using assms Blocks unfolding told by (simp only: results_ids) (simp add: body_blocks_def)
  obtain tools tail n' where out: "input_user saver points known n body = (tools @ tail, n')"
    "tools = map (\<lambda>x. Input_Call_Output ((\<lambda>(r, t). tl_use r) x) (snd x)) told"
    "tail = [] \<or> (\<exists>b. tail = [Input_Message User_Role b])"
    by (rule that) (auto simp: told input_user_def Blocks split_beta Let_def split: list.split input_part.split bool.split)
  show ?thesis using out(3) by (auto simp: out(1,2) outputs_answer [OF ids])
qed

lemma assistant_call_ids: "map (\<lambda>c. the (uc_id c)) (assistant_calls stringify bs) = concat (map tool_use_id bs)"
  by (induction bs) (simp_all add: assistant_calls_def tool_use_id_def split: message_block.split)

lemma assistant_asks:
  "calls_answered [] (translate_assistant stringify thinking points body # ms)
    = calls_answered (tool_ids (From_Assistant body)) ms"
proof (cases body)
  case (Blocks bs)
  then show ?thesis
    by (simp add: translate_assistant_def Let_def tool_ids_def blocks_of_def call_ids_def
        assistant_call_ids [of stringify, symmetric])
qed (simp add: translate_assistant_def tool_ids_def blocks_of_def call_ids_def)

lemma input_call_id:
  "\<exists>cs. input_call stringify b = map (\<lambda>(i, n, a). Input_Call i n a) cs \<and> map fst cs = tool_use_id b"
proof (cases b rule: message_block.exhaust)
  case (Msg_Tool_Use i n v)
  then show ?thesis
    by (intro exI [of _ "[(i, n, case v of JStr s \<Rightarrow> s | _ \<Rightarrow> stringify v)]"]) (simp add: input_call_def tool_use_id_def)
qed (simp_all add: input_call_def tool_use_id_def)

lemma input_call_ids:
  "\<exists>cs. concat (map (input_call stringify) bs) = map (\<lambda>(i, n, a). Input_Call i n a) cs \<and> map fst cs = concat (map tool_use_id bs)"
proof (induction bs)
  case (Cons b bs)
  then obtain cs where "concat (map (input_call stringify) bs) = map (\<lambda>(i, n, a). Input_Call i n a) cs"
    "map fst cs = concat (map tool_use_id bs)" by blast
  moreover obtain c where "input_call stringify b = map (\<lambda>(i, n, a). Input_Call i n a) c" "map fst c = tool_use_id b"
    using input_call_id by blast
  ultimately show ?case by (intro exI [of _ "c @ cs"]) simp
qed simp

lemma assistant_items:
  "outputs_follow [] (input_assistant stringify body @ ms) = outputs_follow (tool_ids (From_Assistant body)) ms"
proof (cases body)
  case (Blocks bs)
  obtain cs where cs: "concat (map (input_call stringify) bs) = map (\<lambda>(i, n, a). Input_Call i n a) cs"
    "map fst cs = concat (map tool_use_id bs)" using input_call_ids by blast
  have "outputs_follow [] (map (\<lambda>(i, n, a). Input_Call i n a) cs @ ms) = outputs_follow (map fst cs) ms"
    using calls_added [of "[]" fst "\<lambda>c. fst (snd c)" "\<lambda>c. snd (snd c)" cs ms] by (simp add: case_prod_unfold)
  then show ?thesis
    by (simp add: Blocks input_assistant_def Let_def tool_ids_def blocks_of_def cs(1) cs(2) [symmetric])
qed (simp add: input_assistant_def tool_ids_def blocks_of_def)

lemma each_answered:
  "uses_answered known pending ms \<Longrightarrow>
    calls_answered pending (translate_each stringify saver thinking points known n ms)"
proof (induction stringify saver thinking points known n ms arbitrary: pending rule: translate_each.induct)
  case (2 stringify saver thinking points known n body ms)
  obtain out n' where out: "translate_user saver points known n body = (out, n')" by fastforce
  have "calls_answered [] (translate_each stringify saver thinking points known n' ms)"
    using 2(1) [OF out [symmetric] refl] 2(2) by simp
  then show ?case using user_answers [of known body pending saver points n] 2(2) out by simp
qed (simp_all del: calls_answered.simps(3) add: assistant_asks)

lemma each_output_follows:
  "uses_answered known pending ms \<Longrightarrow> outputs_follow pending (input_each stringify saver points known n ms)"
proof (induction stringify saver points known n ms arbitrary: pending rule: input_each.induct)
  case (2 stringify saver points known n body ms)
  obtain out n' where out: "input_user saver points known n body = (out, n')" by fastforce
  have "outputs_follow [] (input_each stringify saver points known n' ms)"
    using 2(1) [OF out [symmetric] refl] 2(2) by simp
  then show ?case using user_outputs [of known body pending saver points n] 2(2) out by simp
qed (simp_all add: assistant_items)

text \<open>Models that think want the reasoning on every message with calls, once any message has thought.\<close>

definition carries_reasoning :: "openai_message \<Rightarrow> bool" where
  "carries_reasoning m = (case m of Assistant_Message _ r (Some _) \<Rightarrow> r \<noteq> None | _ \<Rightarrow> True)"

lemma each_carries_reasoning:
  "list_all carries_reasoning (translate_each stringify saver True points known n ms)"
proof (induction stringify saver True points known n ms rule: translate_each.induct)
  case (2 stringify saver points known n body ms)
  have "list_all carries_reasoning (fst (translate_user saver points known n body))"
  proof (cases body)
    case (Blocks bs)
    then show ?thesis using user_shape [of saver points known n bs]
      by (auto simp: carries_reasoning_def list_all_iff tool_message_def)
  qed (simp add: translate_user_def carries_reasoning_def)
  then show ?case using 2 [OF refl prod.collapse] by (simp add: split_beta)
next
  case (3 stringify saver points known n body ms)
  have "carries_reasoning (translate_assistant stringify True points body)"
    by (simp add: translate_assistant_def carries_reasoning_def Let_def split: message_body.split)
  then show ?case using 3 by simp
qed simp

definition starts_with_system :: "openai_message list \<Rightarrow> bool" where
  "starts_with_system ms = (case ms of [] \<Rightarrow> True | [System_Message _] \<Rightarrow> True | _ \<Rightarrow> False)"

lemma system_alone: "starts_with_system (translate_system points s)"
  by (simp add: translate_system_def starts_with_system_def split: option.split system_prompt.split)

lemma system_answered: "calls_answered [] (translate_system points s @ ms) = calls_answered [] ms"
  by (simp add: translate_system_def split: option.split system_prompt.split)

lemma system_reasoning: "list_all carries_reasoning (translate_system points s)"
  by (simp add: translate_system_def carries_reasoning_def split: option.split system_prompt.split)

text \<open>C35. When the calls of the agent's conversation are answered by the message after them, the same holds of
  both translated requests: the results follow their calls at once, each call is answered once, a result
  whose call is gone (after a rewind) never stands alone, and once thinking is on or a message has
  thought, every message with calls carries its reasoning.\<close>

theorem requests_answer_calls:
  assumes "uses_answered (known_tool_ids ms) [] ms"
  shows "calls_answered [] (translate_messages stringify system ms thinking saver points) \<and>
    outputs_follow [] (translate_input stringify ms saver points) \<and>
    (thinking \<or> list_ex has_thinking ms \<longrightarrow>
      list_all carries_reasoning (translate_messages stringify system ms thinking saver points))"
  using each_answered [OF assms] each_output_follows [OF assms] each_carries_reasoning system_reasoning
  by (auto simp: translate_messages_def translate_input_def system_answered)

definition sample_conversation :: "request_message list" where
  "sample_conversation =
     [From_User (Blocks [Msg_Text [1] None, Msg_Tool_Result \<lparr>tl_use = [9], tl_content = Some (Inl [2]), tl_error = False, tl_cache = None\<rparr>]),
      From_Assistant (Blocks [Msg_Thinking [3], Msg_Tool_Use [4] [5] (JObj []), Msg_Tool_Use [6] [5] (JObj [])]),
      From_User (Blocks [Msg_Tool_Result \<lparr>tl_use = [6], tl_content = None, tl_error = True, tl_cache = None\<rparr>,
        Msg_Text [7] None, Msg_Tool_Result \<lparr>tl_use = [4], tl_content = Some (Inr [Result_Image [] [8]]), tl_error = False, tl_cache = None\<rparr>])]"

lemma requests_answer_calls_witness:
  "calls_answered [] (translate_messages (\<lambda>_. []) None sample_conversation False None False) \<and>
    outputs_follow [] (translate_input (\<lambda>_. []) sample_conversation None False) \<and>
    list_all carries_reasoning (translate_messages (\<lambda>_. []) None sample_conversation False None False)"
proof -
  have "uses_answered (known_tool_ids sample_conversation) [] sample_conversation"
    by (simp add: sample_conversation_def known_tool_ids_def tool_ids_def blocks_of_def tool_use_id_def known_results_def
        tool_results_def body_blocks_def)
  moreover have "list_ex has_thinking sample_conversation"
    by (simp add: sample_conversation_def has_thinking_def blocks_of_def)
  ultimately show ?thesis
    using requests_answer_calls [of sample_conversation "\<lambda>_. []" None False None False] by blast
qed

section \<open>An answer is sent back\<close>

text \<open>The agent stores the blocks of an answer and sends them with the next request.\<close>

definition as_request_block :: "content_block \<Rightarrow> message_block" where
  "as_request_block b =
     (case b of Text_Content t \<Rightarrow> Msg_Text t None | Tool_Content i n v \<Rightarrow> Msg_Tool_Use i n v
      | Thinking_Content t _ \<Rightarrow> Msg_Thinking t)"

lemma assistant_blocks_append:
  "assistant_texts (a @ b) = assistant_texts a @ assistant_texts b"
  "assistant_thinking (a @ b) = assistant_thinking a @ assistant_thinking b"
  "assistant_calls stringify (a @ b) = assistant_calls stringify a @ assistant_calls stringify b"
  by (simp_all add: assistant_texts_def assistant_thinking_def assistant_calls_def)

definition settled_call :: "(jstr \<Rightarrow> json option) \<Rightarrow> (json \<Rightarrow> jstr) \<Rightarrow> upstream_call \<Rightarrow> bool" where
  "settled_call parse stringify c \<longleftrightarrow>
     truthy (uc_id c) \<and> stringify (safe_parse_json parse (uc_arguments c)) = uc_arguments c"

lemma replayed_calls:
  "list_all (settled_call parse stringify) cs \<Longrightarrow>
    assistant_calls stringify (map as_request_block (translate_tool_calls parse fresh n cs)) = cs"
proof (induction cs arbitrary: n)
  case (Cons c cs)
  then obtain i where "uc_id c = Some i" "truthy_str i" "stringify (safe_parse_json parse (uc_arguments c)) = uc_arguments c"
    by (cases "uc_id c") (auto simp: settled_call_def truthy_def)
  then show ?case using Cons
    by (cases c) (auto simp: or_fresh_def as_request_block_def assistant_calls_def truthy_def)
qed (simp add: assistant_calls_def)

lemma calls_only_call:
  "assistant_texts (map as_request_block (translate_tool_calls parse fresh n cs)) = [] \<and>
   assistant_thinking (map as_request_block (translate_tool_calls parse fresh n cs)) = []"
  by (induction cs arbitrary: n)
    (simp_all add: split_beta as_request_block_def assistant_thinking_def assistant_texts_def)

text \<open>C36. What a model answered is what it is told it answered: the blocks of a translated answer, sent back by
  the agent in the next request, become the assistant message with the same text, the same reasoning
  and the same calls, in order and with their ids and arguments, for every answer whose calls have ids
  and arguments that parsing and printing does not change.\<close>

theorem answer_is_sent_back:
  assumes "list_all (settled_call parse stringify) (case un_calls m of Some cs \<Rightarrow> cs | None \<Rightarrow> [])"
  shows "translate_assistant stringify thinking points (Blocks (map as_request_block
      (ar_content (translate_response parse fresh mid \<lparr>cr_choice = Some (m, reason), cr_usage = u\<rparr> model True)))) =
    (let calls = (case un_calls m of Some cs \<Rightarrow> cs | None \<Rightarrow> [])
     in Assistant_Message
       (if truthy (un_content m) then Some (Whole_Text (the (un_content m)))
        else if truthy (un_reasoning m) \<or> calls \<noteq> [] then None else Some (Whole_Text []))
       (if truthy (un_reasoning m) then un_reasoning m else if thinking \<and> calls \<noteq> [] then Some [] else None)
       (if calls \<noteq> [] then Some calls else None))"
proof -
  define calls where "calls = (case un_calls m of Some cs \<Rightarrow> cs | None \<Rightarrow> [])"
  let ?tools = "translate_tool_calls parse fresh 0 calls"
  have ok: "list_all (settled_call parse stringify) calls" using assms by (simp add: calls_def)
  have content: "ar_content (translate_response parse fresh mid \<lparr>cr_choice = Some (m, reason), cr_usage = u\<rparr> model True) =
     at_least_one ((if truthy (un_reasoning m) then [Thinking_Content (the (un_reasoning m)) []] else [])
       @ (if truthy (un_content m) then [Text_Content (the (un_content m))] else []) @ ?tools)"
    by (simp add: translate_response_def message_content_def calls_def split: option.split)
  have empty: "?tools = [] \<longleftrightarrow> calls = []" by (cases calls) (simp_all add: split_beta)
  let ?think = "if truthy (un_reasoning m) then [Thinking_Content (the (un_reasoning m)) []] else []"
  let ?text = "if truthy (un_content m) then [Text_Content (the (un_content m))] else []"
  have some: "Some (the s) = s" "the s \<noteq> []" if "truthy s" for s :: "jstr option"
    using that by (auto simp: truthy_def split: option.splits)
  define bs where "bs = map as_request_block (at_least_one (?think @ ?text @ ?tools))"
  have bare: "at_least_one (?think @ ?text @ ?tools) =
      (if \<not> truthy (un_reasoning m) \<and> \<not> truthy (un_content m) \<and> calls = [] then [Text_Content []] else ?think @ ?text @ ?tools)"
    using empty by (simp add: at_least_one_def)
  have one: "assistant_texts (Msg_Text t c # bs) = (t, c) # assistant_texts bs"
    "assistant_thinking (Msg_Text t c # bs) = assistant_thinking bs"
    "assistant_calls stringify (Msg_Text t c # bs) = assistant_calls stringify bs"
    "assistant_texts (Msg_Thinking t # bs) = assistant_texts bs"
    "assistant_thinking (Msg_Thinking t # bs) = (if t \<noteq> [] then t # assistant_thinking bs else assistant_thinking bs)"
    "assistant_calls stringify (Msg_Thinking t # bs) = assistant_calls stringify bs"
    "assistant_texts [] = []" "assistant_thinking [] = []" "assistant_calls stringify [] = []" for t c bs
    by (simp_all add: assistant_texts_def assistant_thinking_def assistant_calls_def)
  have parts: "assistant_calls stringify bs = calls"
      "assistant_texts bs = (if truthy (un_content m) then [(the (un_content m), None)]
         else if truthy (un_reasoning m) \<or> calls \<noteq> [] then [] else [([], None)])"
      "assistant_thinking bs = (if truthy (un_reasoning m) then [the (un_reasoning m)] else [])"
  proof -
    have block: "as_request_block (Text_Content t) = Msg_Text t None"
      "as_request_block (Thinking_Content t []) = Msg_Thinking t" for t by (simp_all add: as_request_block_def)
    note facts = bs_def bare block one replayed_calls [OF ok] calls_only_call some
    show "assistant_calls stringify bs = calls" by (simp add: facts)
    show "assistant_texts bs = (if truthy (un_content m) then [(the (un_content m), None)]
         else if truthy (un_reasoning m) \<or> calls \<noteq> [] then [] else [([], None)])"
      by (simp add: facts)
    show "assistant_thinking bs = (if truthy (un_reasoning m) then [the (un_reasoning m)] else [])"
      by (simp add: facts)
  qed
  show ?thesis
    unfolding content calls_def [symmetric] bs_def [symmetric]
    by (simp add: translate_assistant_def parts some breakpoint_def Let_def)
qed

definition sample_answer :: upstream_message where
  "sample_answer = \<lparr>un_content = Some [1], un_reasoning = None, un_calls = Some [\<lparr>uc_id = Some [3], uc_name = [4], uc_arguments = js ''{}''\<rparr>]\<rparr>"

lemma answer_is_sent_back_witness:
  "translate_assistant (\<lambda>_. js ''{}'') True False (Blocks (map as_request_block
      (ar_content (translate_response (\<lambda>_. Some (JObj [])) (\<lambda>_. []) [7] \<lparr>cr_choice = Some (sample_answer, None), cr_usage = None\<rparr> [8] True)))) =
    (let calls = (case un_calls sample_answer of Some cs \<Rightarrow> cs | None \<Rightarrow> [])
     in Assistant_Message
       (if truthy (un_content sample_answer) then Some (Whole_Text (the (un_content sample_answer)))
        else if truthy (un_reasoning sample_answer) \<or> calls \<noteq> [] then None else Some (Whole_Text []))
       (if truthy (un_reasoning sample_answer) then un_reasoning sample_answer else if True \<and> calls \<noteq> [] then Some [] else None)
       (if calls \<noteq> [] then Some calls else None))"
  by (rule answer_is_sent_back) (simp add: settled_call_def sample_answer_def)

end
