(* ===== verification/BridgeRegistry.thy ===== *)
theory BridgeRegistry
  imports Prelude
begin

text \<open>
  openai-bridge/bridge-registry.ts: every agent process has a token, the token names a resolver of its
  upstream and two sets of targets that refused a prompt cache field. The sets are mutable objects that a
  lookup captures before it waits for the resolver, so they live in a store and entries and captured
  handles hold references. A resolver is opaque.
\<close>

section \<open>The registry\<close>

record 'r bridge_entry =
  be_resolve :: 'r
  be_registered_at :: int
  be_description :: jstr
  be_keys :: nat
  be_points :: nat

record 'r bridge_registry =
  br_entries :: "(jstr \<times> 'r bridge_entry) list"
  br_sets :: "nat \<Rightarrow> jstr list"
  br_next :: nat

definition empty_registry :: "'r bridge_registry" where
  "empty_registry = \<lparr>br_entries = [], br_sets = (\<lambda>_. []), br_next = 0\<rparr>"

text \<open>A new registration of a token keeps the sets of the old one; \<open>new Set()\<close> is a fresh reference.\<close>

definition register_bridge :: "int \<Rightarrow> jstr \<Rightarrow> 'r \<Rightarrow> jstr \<Rightarrow> 'r bridge_registry \<Rightarrow> 'r bridge_registry" where
  "register_bridge now token resolver description s =
     (case map_of (br_entries s) token of
        Some e \<Rightarrow> s\<lparr>br_entries := map_set token
            \<lparr>be_resolve = resolver, be_registered_at = now, be_description = description,
             be_keys = be_keys e, be_points = be_points e\<rparr> (br_entries s)\<rparr>
      | None \<Rightarrow> s\<lparr>br_entries := map_set token
            \<lparr>be_resolve = resolver, be_registered_at = now, be_description = description,
             be_keys = br_next s, be_points = br_next s + 1\<rparr> (br_entries s),
            br_sets := (br_sets s)(br_next s := [], br_next s + 1 := []), br_next := br_next s + 2\<rparr>)"

definition unregister_bridge :: "jstr \<Rightarrow> 'r bridge_registry \<Rightarrow> 'r bridge_registry" where
  "unregister_bridge token s = s\<lparr>br_entries := map_del token (br_entries s)\<rparr>"

text \<open>What the compatibility object of a lookup has captured of the entry.\<close>

record compatibility =
  cm_keys :: nat
  cm_points :: nat

definition lookup_bridge :: "jstr \<Rightarrow> 'r bridge_registry \<Rightarrow> ('r \<times> compatibility) option" where
  "lookup_bridge token s =
     map_option (\<lambda>e. (be_resolve e, \<lparr>cm_keys = be_keys e, cm_points = be_points e\<rparr>)) (map_of (br_entries s) token)"

definition add_target :: "nat \<Rightarrow> jstr \<Rightarrow> 'r bridge_registry \<Rightarrow> 'r bridge_registry" where
  "add_target k target s =
     s\<lparr>br_sets := (br_sets s)(k := if target \<in> set (br_sets s k) then br_sets s k else br_sets s k @ [target])\<rparr>"

definition is_key_disabled :: "compatibility \<Rightarrow> jstr \<Rightarrow> 'r bridge_registry \<Rightarrow> bool" where
  "is_key_disabled c target s \<longleftrightarrow> target \<in> set (br_sets s (cm_keys c))"

definition is_points_disabled :: "compatibility \<Rightarrow> jstr \<Rightarrow> 'r bridge_registry \<Rightarrow> bool" where
  "is_points_disabled c target s \<longleftrightarrow> target \<in> set (br_sets s (cm_points c))"

definition disable_key :: "compatibility \<Rightarrow> jstr \<Rightarrow> 'r bridge_registry \<Rightarrow> 'r bridge_registry" where
  "disable_key c target = add_target (cm_keys c) target"

definition disable_points :: "compatibility \<Rightarrow> jstr \<Rightarrow> 'r bridge_registry \<Rightarrow> 'r bridge_registry" where
  "disable_points c target = add_target (cm_points c) target"

definition has_bridge :: "jstr \<Rightarrow> 'r bridge_registry \<Rightarrow> bool" where
  "has_bridge token s \<longleftrightarrow> map_has token (br_entries s)"

definition list_bridges :: "int \<Rightarrow> 'r bridge_registry \<Rightarrow> (jstr \<times> jstr \<times> int) list" where
  "list_bridges now s =
     map (\<lambda>(token, e). (token, be_description e, now - be_registered_at e)) (br_entries s)"

definition clear_bridges :: "'r bridge_registry \<Rightarrow> 'r bridge_registry" where
  "clear_bridges s = s\<lparr>br_entries := []\<rparr>"

text \<open>One tick of the orphan watchdog; the number of entries it dropped is logged.\<close>

definition watchdog_tick :: "int \<Rightarrow> int \<Rightarrow> 'r bridge_registry \<Rightarrow> 'r bridge_registry \<times> nat" where
  "watchdog_tick now ttl s =
     (let stale = filter (\<lambda>(_, e). ttl < now - be_registered_at e) (br_entries s)
      in (s\<lparr>br_entries := fold (\<lambda>(token, _). map_del token) stale (br_entries s)\<rparr>, length stale))"

section \<open>Histories\<close>

text \<open>The calls between two lookups. A refusal is reported through a captured object.\<close>

datatype 'r bridge_call =
    Register int jstr 'r jstr
  | Unregister jstr
  | Disable_Key compatibility jstr
  | Disable_Points compatibility jstr
  | Tick int int
  | Clear_All

fun registry_step :: "'r bridge_call \<Rightarrow> 'r bridge_registry \<Rightarrow> 'r bridge_registry" where
  "registry_step (Register now token r d) s = register_bridge now token r d s"
| "registry_step (Unregister token) s = unregister_bridge token s"
| "registry_step (Disable_Key c target) s = disable_key c target s"
| "registry_step (Disable_Points c target) s = disable_points c target s"
| "registry_step (Tick now ttl) s = fst (watchdog_tick now ttl s)"
| "registry_step Clear_All s = clear_bridges s"

definition run_registry :: "'r bridge_call list \<Rightarrow> 'r bridge_registry \<Rightarrow> 'r bridge_registry" where
  "run_registry calls s = fold registry_step calls s"

lemma drop_entries:
  "map_of (fold (\<lambda>(token, _). map_del token) xs m) t = None \<or> map_of (fold (\<lambda>(token, _). map_del token) xs m) t = map_of m t"
proof (induction xs arbitrary: m)
  case (Cons x xs)
  have "map_of (map_del (fst x) m) t = None \<or> map_of (map_del (fst x) m) t = map_of m t" by simp
  then show ?case using Cons.IH [of "map_del (fst x) m"] by (auto simp add: case_prod_unfold simp del: map_of_map_del)
qed simp

lemma tick_entries:
  "map_of (br_entries (fst (watchdog_tick now ttl s))) token = None \<or>
   map_of (br_entries (fst (watchdog_tick now ttl s))) token = map_of (br_entries s) token"
  using drop_entries by (simp add: watchdog_tick_def Let_def)

text \<open>A reference that belongs to a token: no entry of another token holds it.\<close>

definition belongs :: "nat \<Rightarrow> jstr \<Rightarrow> 'r bridge_registry \<Rightarrow> bool" where
  "belongs k token s \<longleftrightarrow>
     k < br_next s \<and> (\<forall>t e. map_of (br_entries s) t = Some e \<longrightarrow> k = be_keys e \<or> k = be_points e \<longrightarrow> t = token)"

definition bridges_ok :: "'r bridge_registry \<Rightarrow> bool" where
  "bridges_ok s \<longleftrightarrow>
     (\<forall>t e. map_of (br_entries s) t = Some e \<longrightarrow> be_keys e \<noteq> be_points e \<and> belongs (be_keys e) t s \<and> belongs (be_points e) t s)"

text \<open>A reference that no entry holds any more, and none will hold again.\<close>

definition retired :: "nat \<Rightarrow> 'r bridge_registry \<Rightarrow> bool" where
  "retired k s \<longleftrightarrow>
     k < br_next s \<and> (\<forall>t e. map_of (br_entries s) t = Some e \<longrightarrow> k \<noteq> be_keys e \<and> k \<noteq> be_points e)"

lemma step_entries:
  assumes "map_of (br_entries (registry_step c s)) t = Some e"
  shows "(\<exists>e'. map_of (br_entries s) t = Some e' \<and> be_keys e = be_keys e' \<and> be_points e = be_points e') \<or>
    ((\<exists>now r d. c = Register now t r d) \<and> map_of (br_entries s) t = None \<and> be_keys e = br_next s \<and> be_points e = br_next s + 1 \<and>
     br_next (registry_step c s) = br_next s + 2)"
proof (cases c)
  case (Register now token r d)
  then show ?thesis using assms
    by (cases "map_of (br_entries s) token") (auto simp: register_bridge_def split: if_splits)
next
  case (Tick now ttl)
  then have "map_of (br_entries s) t = Some e" using assms tick_entries [of now ttl s t] by auto
  then show ?thesis by blast
qed (use assms in \<open>auto simp: unregister_bridge_def disable_key_def disable_points_def add_target_def clear_bridges_def
       split: if_splits\<close>)

lemma step_next: "br_next s \<le> br_next (registry_step c s)"
  by (cases c) (auto simp: register_bridge_def unregister_bridge_def disable_key_def disable_points_def add_target_def
      clear_bridges_def watchdog_tick_def Let_def split: option.split)

lemma belongs_step: "belongs k token s \<Longrightarrow> belongs k token (registry_step c s)"
  using step_next [of s c] unfolding belongs_def by (fastforce dest: step_entries)

lemma retired_step: "retired k s \<Longrightarrow> retired k (registry_step c s)"
  using step_next [of s c] unfolding retired_def by (fastforce dest: step_entries)

lemma bridges_ok_step:
  assumes "bridges_ok s"
  shows "bridges_ok (registry_step c s)"
  unfolding bridges_ok_def
proof (intro allI impI)
  fix t e
  assume e: "map_of (br_entries (registry_step c s)) t = Some e"
  from step_entries [OF e] show "be_keys e \<noteq> be_points e \<and> belongs (be_keys e) t (registry_step c s) \<and>
      belongs (be_points e) t (registry_step c s)"
  proof (elim disjE conjE exE)
    fix e'
    assume "map_of (br_entries s) t = Some e'" "be_keys e = be_keys e'" "be_points e = be_points e'"
    then show ?thesis using assms belongs_step unfolding bridges_ok_def by metis
  next
    fix now r d
    assume c: "c = Register now t r d" and new: "be_keys e = br_next s" "be_points e = br_next s + 1"
      "br_next (registry_step c s) = br_next s + 2"
    have only: "t' = t"
      if e': "map_of (br_entries (registry_step c s)) t' = Some e'" and k: "k = be_keys e' \<or> k = be_points e'" "br_next s \<le> k"
      for t' e' k
      using step_entries [OF e']
    proof (elim disjE conjE exE)
      fix e0
      assume "map_of (br_entries s) t' = Some e0" "be_keys e' = be_keys e0" "be_points e' = be_points e0"
      then have "k < br_next s" using assms k(1) unfolding bridges_ok_def belongs_def by metis
      then show ?thesis using k(2) by simp
    qed (simp add: c)
    have "belongs k t (registry_step c s)" if "br_next s \<le> k" "k < br_next s + 2" for k
      unfolding belongs_def using that new(3) only by auto
    then show ?thesis using new by simp
  qed
qed

lemma bridges_ok_run: "bridges_ok s \<Longrightarrow> bridges_ok (run_registry calls s)"
  unfolding run_registry_def by (induction calls arbitrary: s) (simp_all add: bridges_ok_step)

lemma belongs_run: "belongs k token s \<Longrightarrow> belongs k token (run_registry calls s)"
  unfolding run_registry_def by (induction calls arbitrary: s) (simp_all add: belongs_step)

lemma retired_run: "retired k s \<Longrightarrow> retired k (run_registry calls s)"
  unfolding run_registry_def by (induction calls arbitrary: s) (simp_all add: retired_step)

lemma bridges_reachable: "bridges_ok (run_registry calls empty_registry)"
  by (rule bridges_ok_run) (simp add: bridges_ok_def empty_registry_def)

lemma run_append: "run_registry (a @ b) s = run_registry b (run_registry a s)"
  by (simp add: run_registry_def)

text \<open>A captured reference is never one that a lookup of another registration captures.\<close>

lemma captured_apart:
  assumes "bridges_ok s0" "map_of (br_entries s0) a = Some ea" "k = be_keys ea \<or> k = be_points ea"
    "map_of (br_entries (run_registry (mid @ later) s0)) b = Some eb" "b \<noteq> a \<or> \<not> has_bridge a (run_registry mid s0)"
  shows "k \<noteq> be_keys eb \<and> k \<noteq> be_points eb"
proof (cases "b = a")
  case False
  have "belongs k a s0" using assms(1-3) unfolding bridges_ok_def by blast
  then have "belongs k a (run_registry (mid @ later) s0)" by (rule belongs_run)
  then show ?thesis using assms(4) False unfolding belongs_def by blast
next
  case True
  then have gone: "map_of (br_entries (run_registry mid s0)) a = None" using assms(5) by (simp add: has_bridge_def map_has_def)
  have "belongs k a s0" using assms(1-3) unfolding bridges_ok_def by blast
  then have "belongs k a (run_registry mid s0)" by (rule belongs_run)
  then have "retired k (run_registry mid s0)" using gone unfolding belongs_def retired_def by fastforce
  then have "retired k (run_registry later (run_registry mid s0))" by (rule retired_run)
  then show ?thesis using assms(4) unfolding retired_def run_append by blast
qed

text \<open>C37. A refusal that a request learns counts for its own registration only: over every history, what is
  reported through the object that a lookup captured, however late it arrives, changes nothing for another
  token, and nothing for a later registration of the same token once the first was removed; and a
  refusal of one cache field never disables the other.\<close>

theorem refusals_stay_with_registration:
  assumes "lookup_bridge a (run_registry before empty_registry) = Some (ra, ca)"
    and "lookup_bridge b (run_registry (mid @ later) (run_registry before empty_registry)) = Some (rb, cb)"
    and "b \<noteq> a \<or> \<not> has_bridge a (run_registry mid (run_registry before empty_registry))"
  shows "let s = run_registry (mid @ later) (run_registry before empty_registry) in
     is_key_disabled cb target (disable_key ca refused s) = is_key_disabled cb target s \<and>
     is_points_disabled cb target (disable_key ca refused s) = is_points_disabled cb target s \<and>
     is_key_disabled cb target (disable_points ca refused s) = is_key_disabled cb target s \<and>
     is_points_disabled cb target (disable_points ca refused s) = is_points_disabled cb target s \<and>
     is_points_disabled cb target (disable_key cb refused s) = is_points_disabled cb target s \<and>
     is_key_disabled cb target (disable_points cb refused s) = is_key_disabled cb target s"
proof -
  let ?start = "run_registry before empty_registry"
  let ?s = "run_registry (mid @ later) ?start"
  obtain ea where ea: "map_of (br_entries ?start) a = Some ea" "cm_keys ca = be_keys ea" "cm_points ca = be_points ea"
    using assms(1) by (auto simp: lookup_bridge_def)
  obtain eb where eb: "map_of (br_entries ?s) b = Some eb" "cm_keys cb = be_keys eb" "cm_points cb = be_points eb"
    using assms(2) by (auto simp: lookup_bridge_def)
  have apart: "k \<noteq> be_keys eb \<and> k \<noteq> be_points eb" if "k = be_keys ea \<or> k = be_points ea" for k
    by (rule captured_apart [OF bridges_reachable ea(1) that eb(1) assms(3)])
  have "bridges_ok ?s" by (rule bridges_ok_run [OF bridges_reachable])
  then have own: "be_keys eb \<noteq> be_points eb" using eb(1) unfolding bridges_ok_def by blast
  show ?thesis using apart [of "be_keys ea"] apart [of "be_points ea"] own
    by (simp add: is_key_disabled_def is_points_disabled_def disable_key_def disable_points_def add_target_def ea eb Let_def)
qed

lemma refusals_stay_with_registration_witness:
  "let s = run_registry ([Unregister [1]] @ [Register 5 [1] False [3]]) (run_registry [Register 0 [1] True [2]] empty_registry) in
     is_key_disabled \<lparr>cm_keys = 2, cm_points = 3\<rparr> [4] (disable_key \<lparr>cm_keys = 0, cm_points = 1\<rparr> [4] s)
       = is_key_disabled \<lparr>cm_keys = 2, cm_points = 3\<rparr> [4] s \<and>
     is_points_disabled \<lparr>cm_keys = 2, cm_points = 3\<rparr> [4] (disable_key \<lparr>cm_keys = 0, cm_points = 1\<rparr> [4] s)
       = is_points_disabled \<lparr>cm_keys = 2, cm_points = 3\<rparr> [4] s \<and>
     is_key_disabled \<lparr>cm_keys = 2, cm_points = 3\<rparr> [4] (disable_points \<lparr>cm_keys = 0, cm_points = 1\<rparr> [4] s)
       = is_key_disabled \<lparr>cm_keys = 2, cm_points = 3\<rparr> [4] s \<and>
     is_points_disabled \<lparr>cm_keys = 2, cm_points = 3\<rparr> [4] (disable_points \<lparr>cm_keys = 0, cm_points = 1\<rparr> [4] s)
       = is_points_disabled \<lparr>cm_keys = 2, cm_points = 3\<rparr> [4] s \<and>
     is_points_disabled \<lparr>cm_keys = 2, cm_points = 3\<rparr> [4] (disable_key \<lparr>cm_keys = 2, cm_points = 3\<rparr> [4] s)
       = is_points_disabled \<lparr>cm_keys = 2, cm_points = 3\<rparr> [4] s \<and>
     is_key_disabled \<lparr>cm_keys = 2, cm_points = 3\<rparr> [4] (disable_points \<lparr>cm_keys = 2, cm_points = 3\<rparr> [4] s)
       = is_key_disabled \<lparr>cm_keys = 2, cm_points = 3\<rparr> [4] s"
  by (rule refusals_stay_with_registration [where a = "[1]" and b = "[1]" and ra = True and rb = False])
    (simp_all add: run_registry_def register_bridge_def unregister_bridge_def empty_registry_def lookup_bridge_def
      has_bridge_def map_has_def)

text \<open>A token that registers again while it is registered keeps what its requests learned.\<close>

lemma registering_again_keeps:
  assumes "lookup_bridge token s = Some (r, c)"
  shows "lookup_bridge token (register_bridge now token r' d s) = Some (r', c)"
  using assms by (auto simp: lookup_bridge_def register_bridge_def)

end
