(* ===== verification/BridgeError.thy ===== *)
theory BridgeError
  imports JsText
begin

text \<open>
  Errors of the upstream: openai-bridge/translate/errors.ts reads the message, code and type out of the
  error bodies that providers send, decides whether a refusal is final (billing) or may be retried, and
  projects it on the Anthropic error format. \<open>JSON.parse\<close> and \<open>toLowerCase\<close> are arguments.
\<close>

section \<open>Reading a body\<close>

text \<open>\<open>v?.k\<close>: only objects have properties of these names.\<close>

definition prop_of :: "string \<Rightarrow> json option \<Rightarrow> json option" where
  "prop_of k v = (case v of Some (JObj obj) \<Rightarrow> oget obj (js k) | _ \<Rightarrow> None)"

text \<open>\<open>a ?? b\<close>.\<close>

definition nullish_or :: "json option \<Rightarrow> json option \<Rightarrow> json option" where
  "nullish_or a b = (case a of None \<Rightarrow> b | Some JNull \<Rightarrow> b | _ \<Rightarrow> a)"

definition identifier_of :: "(jstr \<Rightarrow> jstr) \<Rightarrow> json option \<Rightarrow> jstr option" where
  "identifier_of lower v =
     (let name = (\<lambda>x. let n = lower (trim (json_string x)) in if n \<noteq> [] then Some n else None)
      in case v of
           Some (JStr s) \<Rightarrow> name (JStr s)
         | Some (JNum i) \<Rightarrow> name (JNum i)
         | Some (JFloat s e) \<Rightarrow> name (JFloat s e)
         | _ \<Rightarrow> None)"

record error_fields =
  ef_message :: jstr
  ef_code :: "jstr option"
  ef_type :: "jstr option"

text \<open>\<open>typeof v === 'object'\<close> for a value that is truthy.\<close>

definition is_object_value :: "json option \<Rightarrow> bool" where
  "is_object_value v = (case v of Some (JObj _) \<Rightarrow> True | Some (JArr _) \<Rightarrow> True | _ \<Rightarrow> False)"

text \<open>\<open>details.map(d => d.msg).join('; ')\<close>: reading a property of null throws; an absent or null message is
  joined as an empty string.\<close>

definition detail_messages :: "json list \<Rightarrow> jstr option" where
  "detail_messages ds =
     (if JNull \<in> set ds then None
      else Some (join_with (js ''; '')
        (map (\<lambda>d. case prop_of ''msg'' (Some d) of None \<Rightarrow> [] | Some JNull \<Rightarrow> [] | Some m \<Rightarrow> json_string m) ds)))"

definition first_item :: "json \<Rightarrow> json option" where
  "first_item v = (case v of JArr (x # _) \<Rightarrow> Some x | JArr [] \<Rightarrow> None | _ \<Rightarrow> Some v)"

definition fallback_message :: "int \<Rightarrow> jstr" where
  "fallback_message status = js ''Upstream error ('' @ dec_int status @ js '')''"

text \<open>What the try block returns, with None where it throws.\<close>

definition parsed_fields :: "(jstr \<Rightarrow> jstr) \<Rightarrow> int \<Rightarrow> json \<Rightarrow> error_fields option" where
  "parsed_fields lower status parsed =
     (let container = first_item parsed;
          error = (if json_truthy (prop_of ''error'' container) \<and> is_object_value (prop_of ''error'' container)
                   then prop_of ''error'' container else container);
          code = identifier_of lower (nullish_or (prop_of ''code'' error) (prop_of ''code'' container));
          type = identifier_of lower (nullish_or (prop_of ''type'' error) (prop_of ''type'' container));
          with_message = (\<lambda>m. Some \<lparr>ef_message = m, ef_code = code, ef_type = type\<rparr>);
          plain = (case as_string (prop_of ''message'' container) of
              Some m \<Rightarrow> with_message m
            | None \<Rightarrow> (case as_string (prop_of ''error'' container) of
                Some m \<Rightarrow> with_message m
              | None \<Rightarrow> with_message (fallback_message status)))
      in if truthy (as_string (prop_of ''message'' error)) then with_message (the (as_string (prop_of ''message'' error)))
         else if json_truthy (prop_of ''detail'' container) then
           (case prop_of ''detail'' container of
              Some (JStr m) \<Rightarrow> with_message m
            | Some (JArr (d # ds)) \<Rightarrow>
                if json_truthy (prop_of ''msg'' (Some d))
                then (case detail_messages (d # ds) of Some m \<Rightarrow> with_message m | None \<Rightarrow> None)
                else plain
            | _ \<Rightarrow> plain)
         else plain)"

definition extract_error_fields :: "(jstr \<Rightarrow> json option) \<Rightarrow> (jstr \<Rightarrow> jstr) \<Rightarrow> jstr \<Rightarrow> int \<Rightarrow> error_fields" where
  "extract_error_fields parse lower body status =
     (case Option.bind (parse body) (parsed_fields lower status) of
        Some f \<Rightarrow> f
      | None \<Rightarrow> \<lparr>ef_message = (if body \<noteq> [] then take 500 body else fallback_message status),
                 ef_code = None, ef_type = None\<rparr>)"

section \<open>Classifying\<close>

datatype failure_kind = Transient_Rate_Limit | Permanent_Billing | Other_Failure

datatype failure_evidence = Structured_Identifier | Billing_Message | Http_Status | By_Default

record upstream_failure =
  uf_status :: int
  uf_message :: jstr
  uf_code :: "jstr option"
  uf_type :: "jstr option"
  uf_kind :: failure_kind
  uf_evidence :: failure_evidence

definition billing_identifiers :: "jstr list" where
  "billing_identifiers =
     [js ''insufficient_quota'', js ''quota_exhausted'', js ''quota_exceeded'', js ''billing_not_active'',
      js ''billing_hard_limit'', js ''billing_hard_limit_reached'', js ''payment_required'']"

definition billing_phrases :: "jstr list" where
  "billing_phrases =
     [js ''payment required'', js ''billing not active'', js ''billing_not_active'', js ''billing hard limit'',
      js ''billing_hard_limit'', js ''insufficient balance'', js ''account balance is insufficient'',
      [0x4F59, 0x989D, 0x4E0D, 0x8DB3], [0x8D26, 0x6237, 0x6B20, 0x8D39]]"

definition explicit_billing :: "(jstr \<Rightarrow> jstr) \<Rightarrow> jstr \<Rightarrow> bool" where
  "explicit_billing lower message = list_ex (\<lambda>p. contains p (lower message)) billing_phrases"

definition names_billing :: "jstr option \<Rightarrow> bool" where
  "names_billing i = (case i of Some x \<Rightarrow> x \<in> set billing_identifiers | None \<Rightarrow> False)"

definition classify_failure :: "(jstr \<Rightarrow> json option) \<Rightarrow> (jstr \<Rightarrow> jstr) \<Rightarrow> int \<Rightarrow> jstr \<Rightarrow> upstream_failure" where
  "classify_failure parse lower status body =
     (let f = extract_error_fields parse lower body status;
          fail = (\<lambda>kind evidence. \<lparr>uf_status = status, uf_message = ef_message f, uf_code = ef_code f,
                     uf_type = ef_type f, uf_kind = kind, uf_evidence = evidence\<rparr>)
      in if status = 402 then fail Permanent_Billing Http_Status
         else if status = 429 then
           (if names_billing (ef_code f) \<or> names_billing (ef_type f) then fail Permanent_Billing Structured_Identifier
            else if explicit_billing lower (ef_message f) then fail Permanent_Billing Billing_Message
            else fail Transient_Rate_Limit By_Default)
         else fail Other_Failure Http_Status)"

section \<open>Projection\<close>

definition status_error_type :: "int \<Rightarrow> jstr" where
  "status_error_type status =
     (if status = 400 then js ''invalid_request_error''
      else if status = 401 then js ''authentication_error''
      else if status = 403 then js ''permission_error''
      else if status = 404 then js ''not_found_error''
      else if status = 429 then js ''rate_limit_error''
      else if status = 529 then js ''overloaded_error''
      else if status = 500 \<or> status = 502 \<or> status = 503 then js ''api_error''
      else if 500 \<le> status then js ''api_error'' else js ''invalid_request_error'')"

record translated_error =
  te_status :: int
  te_type :: jstr
  te_message :: jstr
  te_failure :: upstream_failure

definition translate_error :: "(jstr \<Rightarrow> json option) \<Rightarrow> (jstr \<Rightarrow> jstr) \<Rightarrow> int \<Rightarrow> jstr \<Rightarrow> translated_error" where
  "translate_error parse lower status body =
     (let failure = classify_failure parse lower status body in
      if status = 429 \<and> uf_kind failure = Permanent_Billing
      then \<lparr>te_status = 402, te_type = js ''invalid_request_error'', te_message = uf_message failure, te_failure = failure\<rparr>
      else \<lparr>te_status = (if status = 402 then 400 else status), te_type = status_error_type status,
            te_message = uf_message failure, te_failure = failure\<rparr>)"

text \<open>402 tells the agent not to retry: it is only sent for a rate limit with evidence of billing, so that an
  upstream 402, which is final too, is sent as the 400 of a malformed request.\<close>

lemma final_refusal_iff:
  "te_status (translate_error parse lower status body) = 402 \<longleftrightarrow>
     status = 429 \<and> (let f = extract_error_fields parse lower body 429
       in names_billing (ef_code f) \<or> names_billing (ef_type f) \<or> explicit_billing lower (ef_message f))"
  by (auto simp: translate_error_def classify_failure_def Let_def)

lemma unparsed_body_bounded:
  assumes "parse body = None"
  shows "te_message (translate_error parse lower status body) =
    (if body \<noteq> [] then take 500 body else fallback_message status)"
  using assms by (simp add: translate_error_def classify_failure_def extract_error_fields_def Let_def)

end
