(* ===== verification/JsRegex.thy ===== *)
theory JsRegex
  imports JsText
begin

text \<open>
  JavaScript regular expressions without captures, for tests: a pattern is a tree, and \<open>ends\<close> computes the
  positions where a match that starts at a position can end. \<open>matches\<close> is the relation that the
  standard describes; the two agree. Greediness only chooses among matches, so a test does not see it.
\<close>

section \<open>Patterns\<close>

datatype regex =
    Nothing_Left
  | Unit_In "16 word \<Rightarrow> bool"
  | Cat regex regex
  | Alt regex regex
  | Star regex
  | Word_Edge
  | At_Start
  | At_End

definition word_unit :: "16 word \<Rightarrow> bool" where
  "word_unit c \<longleftrightarrow> (48 \<le> c \<and> c \<le> 57) \<or> (65 \<le> c \<and> c \<le> 90) \<or> c = 95 \<or> (97 \<le> c \<and> c \<le> 122)"

definition word_before :: "jstr \<Rightarrow> nat \<Rightarrow> bool" where
  "word_before s i \<longleftrightarrow> 0 < i \<and> i \<le> length s \<and> word_unit (s ! (i - 1))"

definition word_after :: "jstr \<Rightarrow> nat \<Rightarrow> bool" where
  "word_after s i \<longleftrightarrow> i < length s \<and> word_unit (s ! i)"

inductive matches :: "jstr \<Rightarrow> regex \<Rightarrow> nat \<Rightarrow> nat \<Rightarrow> bool" for s where
  nothing: "matches s Nothing_Left i i"
| unit: "i < length s \<Longrightarrow> P (s ! i) \<Longrightarrow> matches s (Unit_In P) i (Suc i)"
| cat: "matches s a i j \<Longrightarrow> matches s b j k \<Longrightarrow> matches s (Cat a b) i k"
| alt_left: "matches s a i j \<Longrightarrow> matches s (Alt a b) i j"
| alt_right: "matches s b i j \<Longrightarrow> matches s (Alt a b) i j"
| star_none: "matches s (Star a) i i"
| star_more: "matches s a i j \<Longrightarrow> matches s (Star a) j k \<Longrightarrow> matches s (Star a) i k"
| edge: "word_before s i \<noteq> word_after s i \<Longrightarrow> matches s Word_Edge i i"
| at_start: "matches s At_Start 0 0"
| at_end: "matches s At_End (length s) (length s)"

inductive_cases matchesE:
  "matches s Nothing_Left i j" "matches s (Unit_In P) i j" "matches s (Cat a b) i j" "matches s (Alt a b) i j"
  "matches s Word_Edge i j" "matches s At_Start i j" "matches s At_End i j"

section \<open>The matcher\<close>

text \<open>Positions that are reached from some by steps, in as many rounds as there are positions.\<close>

fun reach :: "nat \<Rightarrow> (nat \<Rightarrow> nat list) \<Rightarrow> nat list \<Rightarrow> nat list" where
  "reach 0 f xs = xs"
| "reach (Suc n) f xs = reach n f (remdups (xs @ concat (map f xs)))"

fun ends :: "jstr \<Rightarrow> regex \<Rightarrow> nat \<Rightarrow> nat list" where
  "ends s Nothing_Left i = [i]"
| "ends s (Unit_In P) i = (if i < length s \<and> P (s ! i) then [Suc i] else [])"
| "ends s (Cat a b) i = remdups (concat (map (ends s b) (ends s a i)))"
| "ends s (Alt a b) i = remdups (ends s a i @ ends s b i)"
| "ends s (Star a) i = reach (length s) (ends s a) [i]"
| "ends s Word_Edge i = (if word_before s i \<noteq> word_after s i then [i] else [])"
| "ends s At_Start i = (if i = 0 then [0] else [])"
| "ends s At_End i = (if i = length s then [i] else [])"

text \<open>\<open>pattern.test(s)\<close>: some position starts a match.\<close>

definition regex_test :: "regex \<Rightarrow> jstr \<Rightarrow> bool" where
  "regex_test r s \<longleftrightarrow> list_ex (\<lambda>i. ends s r i \<noteq> []) [0..<Suc (length s)]"

text \<open>The first position that starts a match.\<close>

definition regex_search :: "regex \<Rightarrow> jstr \<Rightarrow> nat option" where
  "regex_search r s = find (\<lambda>i. ends s r i \<noteq> []) [0..<Suc (length s)]"

section \<open>The matcher is exact\<close>

lemma match_forward: "matches s r i j \<Longrightarrow> i \<le> j"
  by (induction rule: matches.induct) auto

lemma match_inside: "matches s r i j \<Longrightarrow> i \<le> length s \<Longrightarrow> j \<le> length s"
  by (induction rule: matches.induct) auto

text \<open>Reaching in so many rounds is reaching in so many steps.\<close>

lemma reach_iff: "j \<in> set (reach n f xs) \<longleftrightarrow> (\<exists>k\<le>n. \<exists>i \<in> set xs. (i, j) \<in> {(i, j). j \<in> set (f i)} ^^ k)"
proof (induction n arbitrary: xs)
  case (Suc n)
  let ?R = "{(i, j). j \<in> set (f i)}"
  have "(\<exists>k\<le>n. \<exists>i \<in> set xs \<union> (\<Union>x\<in>set xs. set (f x)). (i, j) \<in> ?R ^^ k) \<longleftrightarrow> (\<exists>k\<le>Suc n. \<exists>i \<in> set xs. (i, j) \<in> ?R ^^ k)"
  proof
    assume "\<exists>k\<le>n. \<exists>i \<in> set xs \<union> (\<Union>x\<in>set xs. set (f x)). (i, j) \<in> ?R ^^ k"
    then obtain k i where k: "k \<le> n" "(i, j) \<in> ?R ^^ k" and i: "i \<in> set xs \<or> (\<exists>x \<in> set xs. i \<in> set (f x))" by auto
    from i show "\<exists>k\<le>Suc n. \<exists>i \<in> set xs. (i, j) \<in> ?R ^^ k"
    proof
      assume "i \<in> set xs"
      then show ?thesis using k by (meson le_SucI)
    next
      assume "\<exists>x \<in> set xs. i \<in> set (f x)"
      then obtain x where "x \<in> set xs" "(x, i) \<in> ?R" by auto
      then have "(x, j) \<in> ?R ^^ Suc k" using k(2) by (meson relpow_Suc_I2)
      then show ?thesis using \<open>x \<in> set xs\<close> k(1) by (meson Suc_le_mono)
    qed
  next
    assume "\<exists>k\<le>Suc n. \<exists>i \<in> set xs. (i, j) \<in> ?R ^^ k"
    then obtain k i where k: "k \<le> Suc n" "(i, j) \<in> ?R ^^ k" "i \<in> set xs" by auto
    show "\<exists>k\<le>n. \<exists>i \<in> set xs \<union> (\<Union>x\<in>set xs. set (f x)). (i, j) \<in> ?R ^^ k"
    proof (cases k)
      case 0
      then show ?thesis using k by auto
    next
      case (Suc m)
      then obtain x where "(i, x) \<in> ?R" "(x, j) \<in> ?R ^^ m" using k(2) relpow_Suc_D2 by metis
      then show ?thesis using k Suc by (intro exI [of _ m]) auto
    qed
  qed
  then show ?case by (simp add: Suc.IH)
qed auto

text \<open>The rounds suffice: a step that stays can be left out, and the others advance.\<close>

lemma star_steps:
  assumes "matches s r i j" "r = Star a" "i \<le> length s"
    and "\<And>x y. x \<le> length s \<Longrightarrow> y \<in> set (ends s a x) \<longleftrightarrow> matches s a x y"
  shows "\<exists>k \<le> j - i. (i, j) \<in> {(i, j). j \<in> set (ends s a i)} ^^ k"
  using assms
proof (induction rule: matches.induct)
  case (star_more b i x j)
  have a: "b = a" "matches s a i x" using star_more.hyps star_more.prems(1) by simp_all
  have x: "i \<le> x" "x \<le> length s" "x \<le> j" using match_forward match_inside star_more.hyps star_more.prems(2) by blast+
  obtain k where k: "k \<le> j - x" "(x, j) \<in> {(i, j). j \<in> set (ends s a i)} ^^ k"
    using star_more.IH(2) star_more.prems x(2) by blast
  show ?case
  proof (cases "i = x")
    case False
    have "(i, x) \<in> {(i, j). j \<in> set (ends s a i)}" using a star_more.prems by simp
    then have "(i, j) \<in> {(i, j). j \<in> set (ends s a i)} ^^ Suc k" using k(2) by (rule relpow_Suc_I2)
    then show ?thesis using k(1) x False by (intro exI [of _ "Suc k"]) simp
  qed (use k in blast)
qed (auto intro: exI [of _ 0])

lemma steps_star:
  assumes "\<And>x y. x \<le> length s \<Longrightarrow> y \<in> set (ends s a x) \<longleftrightarrow> matches s a x y"
  shows "(i, j) \<in> {(i, j). j \<in> set (ends s a i)} ^^ k \<Longrightarrow> i \<le> length s \<Longrightarrow> matches s (Star a) i j"
proof (induction k arbitrary: i)
  case (Suc k)
  then obtain x where x: "x \<in> set (ends s a i)" "(x, j) \<in> {(i, j). j \<in> set (ends s a i)} ^^ k"
    using relpow_Suc_D2 [OF Suc.prems(1)] by blast
  have "matches s a i x" using assms Suc.prems(2) x(1) by blast
  moreover have "x \<le> length s" using match_inside calculation Suc.prems(2) by blast
  ultimately show ?case using Suc.IH x(2) star_more by blast
qed (simp add: star_none)

theorem ends_exact: "i \<le> length s \<Longrightarrow> j \<in> set (ends s r i) \<longleftrightarrow> matches s r i j"
proof (induction r arbitrary: i j)
  case (Cat a b)
  have "j \<in> set (ends s (Cat a b) i) \<longleftrightarrow> (\<exists>x. matches s a i x \<and> j \<in> set (ends s b x))" using Cat.IH(1) Cat.prems by auto
  also have "\<dots> \<longleftrightarrow> (\<exists>x. matches s a i x \<and> matches s b x j)" using Cat.IH(2) Cat.prems match_inside by blast
  finally show ?case by (auto intro: cat elim: matchesE)
next
  case (Star a)
  have "j - i \<le> length s" if "matches s (Star a) i j" using match_inside that Star.prems by fastforce
  then show ?case
    using steps_star [OF Star.IH] star_steps [OF _ refl Star.prems Star.IH] Star.prems
    by (simp add: reach_iff) (meson le_trans)
qed (auto intro: matches.intros elim: matchesE)

lemma regex_test_iff: "regex_test r s \<longleftrightarrow> (\<exists>i j. i \<le> length s \<and> matches s r i j)"
proof -
  have "ends s r i \<noteq> [] \<longleftrightarrow> (\<exists>j. matches s r i j)" if "i \<le> length s" for i
    using ends_exact [OF that] by (metis list.set_intros(1) list.set_cases neq_Nil_conv empty_iff empty_set)
  then show ?thesis by (fastforce simp add: regex_test_def list_ex_iff atLeast0LessThan less_Suc_eq_le simp del: upt_Suc)
qed

section \<open>Building patterns\<close>

definition lower_unit :: "16 word \<Rightarrow> 16 word" where
  "lower_unit c = (if 65 \<le> c \<and> c \<le> 90 then c + 32 else c)"

text \<open>A literal, and a literal under the flag \<open>i\<close>: it is written in lower case, and a code unit
  outside ASCII never folds into ASCII.\<close>

fun lit :: "jstr \<Rightarrow> regex" where
  "lit [] = Nothing_Left"
| "lit (c # s) = Cat (Unit_In (\<lambda>x. x = c)) (lit s)"

fun lit_i :: "jstr \<Rightarrow> regex" where
  "lit_i [] = Nothing_Left"
| "lit_i (c # s) = Cat (Unit_In (\<lambda>x. lower_unit x = c)) (lit_i s)"

fun cats :: "regex list \<Rightarrow> regex" where
  "cats [] = Nothing_Left"
| "cats [r] = r"
| "cats (r # rs) = Cat r (cats rs)"

fun alts :: "regex list \<Rightarrow> regex" where
  "alts [] = Unit_In (\<lambda>_. False)"
| "alts [r] = r"
| "alts (r # rs) = Alt r (alts rs)"

definition maybe :: "regex \<Rightarrow> regex" where
  "maybe r = Alt r Nothing_Left"

definition some_of :: "regex \<Rightarrow> regex" where
  "some_of r = Cat r (Star r)"

definition words_i :: "string list \<Rightarrow> regex" where
  "words_i ws = alts (map (\<lambda>w. lit_i (js w)) ws)"

definition any_units :: regex where
  "any_units = Star (Unit_In (\<lambda>c. c \<noteq> 10 \<and> c \<noteq> 13 \<and> c \<noteq> 0x2028 \<and> c \<noteq> 0x2029))"

definition spaces :: regex where
  "spaces = Star (Unit_In is_space)"

definition digit_unit :: "16 word \<Rightarrow> bool" where
  "digit_unit c \<longleftrightarrow> 48 \<le> c \<and> c \<le> 57"

definition digits :: regex where
  "digits = some_of (Unit_In digit_unit)"

definition quote_maybe :: regex where
  "quote_maybe = maybe (Unit_In (\<lambda>c. c = 39 \<or> c = 34))"

end
