(* ===== verification/BridgeCompat.thy ===== *)
theory BridgeCompat
  imports JsRegex BridgeRequest
begin

text \<open>
  What the bridge reads out of a refused request (openai-bridge/handler.ts): whether the upstream refuses a
  prompt cache field that the request carries, and what of its error body may be shown and logged.
  The patterns are those of the source. An object with a property named \<open>__proto__\<close>, which an
  assignment drops, is not considered.
\<close>

section \<open>The fields of an error\<close>

record error_descriptor =
  ed_message :: "jstr option"
  ed_param :: "jstr option"
  ed_code :: "jstr option"
  ed_type :: "jstr option"

definition names_cache_field :: "json \<Rightarrow> bool" where
  "names_cache_field item =
     (case item of
        JObj obj \<Rightarrow> (case as_array (oget obj (js ''loc'')) of
            Some ps \<Rightarrow> JStr (js ''prompt_cache_key'') \<in> set ps \<or> JStr (js ''prompt_cache_breakpoint'') \<in> set ps
          | None \<Rightarrow> False)
      | _ \<Rightarrow> False)"

text \<open>The envelopes around the error that are known, at most as many as the loop unwraps.\<close>

fun unwrap_error :: "nat \<Rightarrow> json \<Rightarrow> json option" where
  "unwrap_error 0 root = Some root"
| "unwrap_error (Suc n) root =
     (case root of
        JObj obj \<Rightarrow>
          (case as_object (oget obj (js ''error'')) of
             Some e \<Rightarrow> unwrap_error n (JObj e)
           | None \<Rightarrow>
               (case as_object (Option.bind (as_object (oget obj (js ''data''))) (\<lambda>d. oget d (js ''error''))) of
                  Some e \<Rightarrow> unwrap_error n (JObj e)
                | None \<Rightarrow>
                    (case as_array (oget obj (js ''detail'')) of
                       Some ds \<Rightarrow> (case find names_cache_field ds of
                           Some item \<Rightarrow> Some item
                         | None \<Rightarrow> (case ds of [] \<Rightarrow> None | d # _ \<Rightarrow> Some d))
                     | None \<Rightarrow> Some root)))
      | _ \<Rightarrow> Some root)"

definition location_part :: "json \<Rightarrow> bool" where
  "location_part p = (case p of JStr _ \<Rightarrow> True | JNum _ \<Rightarrow> True | JFloat _ _ \<Rightarrow> True | _ \<Rightarrow> False)"

definition location_text :: "json list \<Rightarrow> jstr" where
  "location_text ps =
     (let parts = filter location_part ps
      in join_with (js ''.'')
           (map json_string (case parts of p # rest \<Rightarrow> if p = JStr (js ''body'') then rest else parts | [] \<Rightarrow> [])))"

definition first_string :: "jobj \<Rightarrow> string \<Rightarrow> string \<Rightarrow> jstr option" where
  "first_string obj a b =
     (case as_string (oget obj (js a)) of Some s \<Rightarrow> Some s | None \<Rightarrow> as_string (oget obj (js b)))"

definition error_descriptor_of :: "(jstr \<Rightarrow> json option) \<Rightarrow> jstr \<Rightarrow> error_descriptor option" where
  "error_descriptor_of parse body =
     (case Option.bind (parse body) (unwrap_error 4) of
        Some (JObj obj) \<Rightarrow> Some
          \<lparr>ed_message = first_string obj ''message'' ''msg'',
           ed_param = (case first_string obj ''param'' ''parameter'' of
               Some s \<Rightarrow> Some s
             | None \<Rightarrow> map_option location_text (as_array (oget obj (js ''loc'')))),
           ed_code = as_string (oget obj (js ''code'')),
           ed_type = as_string (oget obj (js ''type''))\<rparr>
      | _ \<Rightarrow> None)"

section \<open>Refusals of the prompt cache key\<close>

definition unknown_words :: "string list" where
  "unknown_words = [''unknown'', ''unsupported'', ''unrecognized'', ''unexpected'']"

definition field_words :: "string list" where
  "field_words = [''parameter'', ''field'', ''argument'', ''property'']"

definition word_i :: "string list \<Rightarrow> regex" where
  "word_i ws = cats [Word_Edge, words_i ws, Word_Edge]"

definition unknown_then_field :: "string \<Rightarrow> regex" where
  "unknown_then_field name =
     cats [word_i unknown_words, any_units, Word_Edge, maybe (words_i field_words), Word_Edge, any_units, word_i [name]]"

definition field_then_unknown :: "string \<Rightarrow> string list \<Rightarrow> regex" where
  "field_then_unknown name verdicts = cats [word_i [name], any_units, word_i verdicts]"

definition extra_field :: "string \<Rightarrow> regex" where
  "extra_field name =
     cats [word_i [''additional'', ''extra''], any_units, word_i field_words, any_units, word_i [name]]"

definition unsupported_key_text :: "jstr \<Rightarrow> bool" where
  "unsupported_key_text s \<longleftrightarrow>
     regex_test (unknown_then_field ''prompt_cache_key'') s
     \<or> regex_test (field_then_unknown ''prompt_cache_key'' (unknown_words @ [''not supported''])) s
     \<or> regex_test (extra_field ''prompt_cache_key'') s"

definition refuses_cache_key :: "(jstr \<Rightarrow> json option) \<Rightarrow> int \<Rightarrow> jstr \<Rightarrow> bool" where
  "refuses_cache_key parse status body =
     (if status \<noteq> 400 \<and> status \<noteq> 422 then False
      else let param = Option.bind (error_descriptor_of parse body) ed_param in
        if truthy param then param = Some (js ''prompt_cache_key'')
        else unsupported_key_text body \<and> regex_test (word_i [''prompt_cache_key'']) body)"

section \<open>Refusals of breakpoints\<close>

datatype bridge_request = Chat_Request openai_request | Responses_Request responses_request

text \<open>The content of the items of a request: None where an item has none, or where it is no list.\<close>

definition chat_points :: "openai_message \<Rightarrow> bool list option" where
  "chat_points m =
     (let parts = (\<lambda>b. case b of Parts ps \<Rightarrow> Some (map (\<lambda>p. case p of Part_Text _ x \<Rightarrow> x | Part_Image _ x \<Rightarrow> x) ps)
                     | Whole_Text _ \<Rightarrow> None)
      in case m of
           System_Message b \<Rightarrow> parts b
         | User_Message b \<Rightarrow> parts b
         | Assistant_Message b _ _ \<Rightarrow> Option.bind b parts
         | Tool_Message _ b \<Rightarrow> parts b)"

definition input_points :: "input_item \<Rightarrow> bool list option" where
  "input_points i =
     (case i of
        Input_Message _ (Input_Parts ps) \<Rightarrow>
          Some (map (\<lambda>p. case p of Input_Text _ x \<Rightarrow> x | Input_Image _ x \<Rightarrow> x | Replayed_Text _ \<Rightarrow> False) ps)
      | _ \<Rightarrow> None)"

definition request_points :: "bridge_request \<Rightarrow> bool list option list" where
  "request_points q =
     (case q of Chat_Request c \<Rightarrow> map chat_points (oq_messages c) | Responses_Request r \<Rightarrow> map input_points (rq_input r))"

definition items_name :: "bridge_request \<Rightarrow> jstr" where
  "items_name q = (case q of Chat_Request _ \<Rightarrow> js ''messages'' | Responses_Request _ \<Rightarrow> js ''input'')"

definition has_point :: "bridge_request \<Rightarrow> bool" where
  "has_point q = list_ex (\<lambda>ps. case ps of Some xs \<Rightarrow> True \<in> set xs | None \<Rightarrow> False) (request_points q)"

definition point_at :: "bridge_request \<Rightarrow> nat \<Rightarrow> nat \<Rightarrow> bool" where
  "point_at q i j =
     (i < length (request_points q) \<and>
      (case request_points q ! i of Some xs \<Rightarrow> j < length xs \<and> xs ! j | None \<Rightarrow> False))"

definition number_of :: "jstr \<Rightarrow> nat" where
  "number_of s = foldl (\<lambda>n c. 10 * n + (unat c - 48)) 0 s"

text \<open>A path \<open>name[3]\<close> as \<open>name.3\<close>: a bracket around digits becomes a dot before them.\<close>

function dotted :: "jstr \<Rightarrow> jstr" where
  "dotted [] = []"
| "dotted (c # s) =
     (let ds = takeWhile digit_unit s; rest = dropWhile digit_unit s in
      if c = 91 \<and> ds \<noteq> [] \<and> rest \<noteq> [] \<and> hd rest = 93 then 46 # ds @ dotted (tl rest) else c # dotted s)"
  by pat_completeness auto
termination
  by (relation "measure length") (auto simp: less_Suc_eq_le intro: le_trans [OF diff_le_self length_dropWhile_le])

text \<open>\<open>s.split('.')\<close>.\<close>

fun split_dots :: "jstr \<Rightarrow> jstr list" where
  "split_dots [] = [[]]"
| "split_dots (c # s) =
     (if c = 46 then [] # split_dots s
      else (case split_dots s of p # ps \<Rightarrow> (c # p) # ps | [] \<Rightarrow> [[c]]))"

definition all_digits :: "jstr \<Rightarrow> bool" where
  "all_digits s \<longleftrightarrow> s \<noteq> [] \<and> list_all digit_unit s"

text \<open>A refusal counts only for a marker that stands in the content of the request: a tool schema may have
  a property of the same name.\<close>

definition projected_path :: "bridge_request \<Rightarrow> jstr \<Rightarrow> bool" where
  "projected_path q param =
     (let path = dotted param in
      if path = js ''prompt_cache_breakpoint'' then has_point q
      else (case split_dots path of
          name # i # c # j # field # rest \<Rightarrow>
            (name = js ''input'' \<or> name = js ''messages'') \<and> all_digits i \<and> c = js ''content'' \<and> all_digits j
            \<and> field = js ''prompt_cache_breakpoint'' \<and> (rest = [] \<or> rest = [js ''mode''])
            \<and> name = items_name q \<and> point_at q (number_of i) (number_of j)
        | _ \<Rightarrow> False))"

definition unsupported_point_text :: "jstr \<Rightarrow> bool" where
  "unsupported_point_text s \<longleftrightarrow>
     regex_test (unknown_then_field ''prompt_cache_breakpoint'') s
     \<or> regex_test (field_then_unknown ''prompt_cache_breakpoint'' (unknown_words @ [''not supported'', ''not allowed''])) s
     \<or> regex_test (extra_field ''prompt_cache_breakpoint'') s"

definition unsupported_schema_text :: "jstr \<Rightarrow> bool" where
  "unsupported_schema_text s \<longleftrightarrow>
     regex_test (word_i (unknown_words @ [''not supported'', ''not allowed'', ''additional'', ''extra''])) s"

definition developer_role_text :: "jstr \<Rightarrow> bool" where
  "developer_role_text s \<longleftrightarrow>
     (let gap = cats [spaces, maybe (Unit_In (\<lambda>c. c = 58 \<or> c = 61)), spaces, quote_maybe, lit_i (js ''developer'')];
          space = some_of (Unit_In is_space) in
      regex_test (cats [Word_Edge, words_i unknown_words, space, maybe (cats [lit_i (js ''message''), space]), lit_i (js ''role''), gap, Word_Edge]) s
      \<or> regex_test (cats [Word_Edge, lit_i (js ''role''), gap, Word_Edge, any_units, word_i (unknown_words @ [''not allowed''])]) s
      \<or> regex_test (cats [Word_Edge, lit_i (js ''invalid''), space, lit_i (js ''value''), spaces, lit (js '':''), spaces,
            Unit_In (\<lambda>c. c = 39 \<or> c = 34), lit_i (js ''developer''), Unit_In (\<lambda>c. c = 39 \<or> c = 34)]) s)"

definition index_pattern :: regex where
  "index_pattern = Alt (cats [lit (js ''[''), digits, lit (js '']'')]) (cats [lit (js ''.''), digits])"

definition role_path :: "jstr \<Rightarrow> jstr option" where
  "role_path param =
     (if regex_test (cats [At_Start, lit_i (js ''input''), index_pattern, lit_i (js ''.role''), At_End]) param
      then Some (takeWhile digit_unit (drop 6 param)) else None)"

text \<open>The first content path of a text: its array and the digits of its index.\<close>

definition content_path :: "jstr \<Rightarrow> (jstr \<times> jstr) option" where
  "content_path s =
     map_option
       (\<lambda>i. let t = drop i s; name = (if lower_unit (hd t) = 109 then js ''messages'' else js ''input'')
            in (name, takeWhile digit_unit (drop (length name + 1) t)))
       (regex_search (cats [Word_Edge, words_i [''messages'', ''input''], index_pattern, lit_i (js ''.content''),
          alts [At_End, lit (js ''.''), lit (js ''['')]]) s)"

definition wants_string_text :: "jstr \<Rightarrow> bool" where
  "wants_string_text s \<longleftrightarrow>
     regex_test (cats [word_i [''expected'', ''must be'', ''should be''], any_units, Word_Edge,
       maybe (cats [lit_i (js ''valid''), some_of (Unit_In is_space)]), lit_i (js ''string''), Word_Edge]) s
     \<or> regex_test (cats [word_i [''string''], any_units, word_i [''expected'', ''required'']]) s"

definition is_developer :: "input_item \<Rightarrow> bool" where
  "is_developer i = (case i of Input_Message Developer_Role _ \<Rightarrow> True | _ \<Rightarrow> False)"

definition input_items :: "bridge_request \<Rightarrow> input_item list" where
  "input_items q = (case q of Responses_Request r \<Rightarrow> rq_input r | Chat_Request _ \<Rightarrow> [])"

definition injected_developer :: "bridge_request \<Rightarrow> jstr \<Rightarrow> bool" where
  "injected_developer q param =
     (if param = [] \<or> param = js ''role'' then list_ex is_developer (input_items q)
      else (case role_path param of
          Some ds \<Rightarrow> number_of ds < length (input_items q) \<and> is_developer (input_items q ! number_of ds)
        | None \<Rightarrow> False))"

datatype point_refusal = Field_Refused | Developer_Refused | Shape_Refused jstr jstr

definition classify_points :: "(jstr \<Rightarrow> json option) \<Rightarrow> int \<Rightarrow> jstr \<Rightarrow> bridge_request \<Rightarrow> point_refusal option" where
  "classify_points parse status body q =
     (if status \<noteq> 400 \<and> status \<noteq> 422 then None
      else let d = error_descriptor_of parse body;
               param = or_default (Option.bind d ed_param) [];
               descriptor = join_with (js '' '') (map the (filter truthy
                   [Option.bind d ed_message, Option.bind d ed_code, Option.bind d ed_type]));
               point = regex_test (lit_i (js ''prompt_cache_breakpoint''))
           in if point param then (if projected_path q param then Some Field_Refused else None)
              else if param = [] \<and> point body \<and> unsupported_point_text body \<and> has_point q then Some Field_Refused
              else let shape = (if descriptor \<noteq> [] then descriptor else body);
                       role_param = (param = js ''role'' \<or> role_path param \<noteq> None);
                       refuses_role = (role_param \<and> regex_test (word_i [''developer'']) shape \<and> unsupported_schema_text shape
                         \<or> developer_role_text shape);
                       path = (case content_path param of Some x \<Rightarrow> Some x | None \<Rightarrow> content_path shape)
                   in if refuses_role \<and> injected_developer q param then Some Developer_Refused
                      else (case path of
                          Some (name, ds) \<Rightarrow> if wants_string_text shape then Some (Shape_Refused name ds) else None
                        | None \<Rightarrow> None))"

text \<open>Whether the request without breakpoints differs where the shape was refused.\<close>

datatype content_kind = Content_List | Content_String | Content_Absent

definition chat_kind :: "openai_message \<Rightarrow> content_kind" where
  "chat_kind m =
     (let kind = (\<lambda>b. case b of Parts _ \<Rightarrow> Content_List | Whole_Text _ \<Rightarrow> Content_String)
      in case m of
           System_Message b \<Rightarrow> kind b
         | User_Message b \<Rightarrow> kind b
         | Assistant_Message b _ _ \<Rightarrow> (case b of Some x \<Rightarrow> kind x | None \<Rightarrow> Content_Absent)
         | Tool_Message _ b \<Rightarrow> kind b)"

definition input_kind :: "input_item \<Rightarrow> content_kind" where
  "input_kind i =
     (case i of
        Input_Message _ (Input_Parts _) \<Rightarrow> Content_List
      | Input_Message _ (Plain_Input _) \<Rightarrow> Content_String
      | _ \<Rightarrow> Content_Absent)"

definition item_kinds :: "bridge_request \<Rightarrow> (bool \<times> content_kind) list" where
  "item_kinds q =
     (case q of
        Chat_Request c \<Rightarrow> map (\<lambda>m. (False, chat_kind m)) (oq_messages c)
      | Responses_Request r \<Rightarrow> map (\<lambda>i. (is_developer i, input_kind i)) (rq_input r))"

definition fallback_changes :: "bridge_request \<Rightarrow> bridge_request \<Rightarrow> jstr \<Rightarrow> jstr \<Rightarrow> bool" where
  "fallback_changes q legacy name ds =
     (let i = number_of ds; old = item_kinds q; new = item_kinds legacy in
      name = items_name q \<and> name = items_name legacy \<and> i < length old \<and>
      (fst (old ! i) \<and> (i < length new \<longrightarrow> \<not> fst (new ! i))
       \<or> snd (old ! i) = Content_List \<and> i < length new \<and> snd (new ! i) = Content_String))"

section \<open>What of an error body is shown\<close>

definition cache_key_value :: regex where
  "cache_key_value =
     cats ([lit (js ''myagents:''), alts [lit (js ''chat_completions''), lit (js ''responses'')], lit (js '':'')]
       @ replicate 32 (Unit_In (\<lambda>c. (97 \<le> c \<and> c \<le> 102) \<or> (48 \<le> c \<and> c \<le> 57))))"

text \<open>\<open>replace\<close> with the flag \<open>g\<close>; a match is never empty.\<close>

definition redaction_mark :: jstr where
  "redaction_mark = js ''[redacted-prompt-cache-key]''"

function redact_keys :: "jstr \<Rightarrow> jstr" where
  "redact_keys [] = []"
| "redact_keys (c # s) =
     (case ends (c # s) cache_key_value 0 of
        n # _ \<Rightarrow> redaction_mark @ redact_keys (drop (max 1 n) (c # s))
      | [] \<Rightarrow> c # redact_keys s)"
  by pat_completeness auto
termination
  by (relation "measure length") auto

definition echoed_request :: "(jstr \<Rightarrow> jstr) \<Rightarrow> jstr \<Rightarrow> bool" where
  "echoed_request lower s \<longleftrightarrow>
     contains (js ''\"input\"'') (lower s) \<or> contains (js ''\"messages\"'') (lower s)
     \<or> contains (js ''\"instructions\"'') (lower s) \<or> contains (js ''\"content\"'') (lower s)
     \<or> regex_test (cats [Alt At_Start (Unit_In (\<lambda>c. is_space c \<or> c = 44 \<or> c = 123)),
          words_i [''input'', ''messages'', ''instructions'', ''content'', ''prompt'', ''system''], spaces,
          Unit_In (\<lambda>c. c = 58 \<or> c = 61)]) s"

definition secret_key :: regex where
  "secret_key =
     alts [cats [lit_i (js ''api''), maybe (Unit_In (\<lambda>c. c = 95 \<or> c = 45)), lit_i (js ''key'')],
           lit_i (js ''authorization''), lit_i (js ''bearer''), lit_i (js ''secret''), lit_i (js ''token'')]"

definition echo_keys :: "jstr list" where
  "echo_keys = [js ''content'', js ''input'', js ''instructions'', js ''messages'', js ''prompt'', js ''system'']"

definition echo_text_mark :: jstr where
  "echo_text_mark = js ''[redacted upstream error text containing echoed request]''"

definition echo_body_mark :: jstr where
  "echo_body_mark = js ''[redacted upstream error body containing echoed request]''"

definition redacted_entry :: "(jstr \<Rightarrow> jstr) \<Rightarrow> bool \<Rightarrow> jstr \<Rightarrow> jstr option" where
  "redacted_entry lower echo k =
     (let name = lower k in
      if name = js ''prompt_cache_key'' then Some redaction_mark
      else if regex_test secret_key name then Some (js ''[redacted-secret]'')
      else if echo \<and> name \<in> set echo_keys then Some (js ''[redacted-'' @ name @ js '']'')
      else None)"

fun sanitize_value :: "(jstr \<Rightarrow> jstr) \<Rightarrow> bool \<Rightarrow> json \<Rightarrow> json" where
  "sanitize_value lower echo (JStr s) =
     (let redacted = redact_keys s
      in if echo \<and> echoed_request lower redacted then JStr echo_text_mark else JStr redacted)"
| "sanitize_value lower echo (JArr xs) = JArr (map (sanitize_value lower echo) xs)"
| "sanitize_value lower echo (JObj obj) =
     JObj (map (\<lambda>(k, v). (k, case redacted_entry lower echo k of Some m \<Rightarrow> JStr m | None \<Rightarrow> sanitize_value lower echo v)) obj)"
| "sanitize_value lower echo v = v"

definition sanitize_body :: "(jstr \<Rightarrow> json option) \<Rightarrow> (json \<Rightarrow> jstr) \<Rightarrow> (jstr \<Rightarrow> jstr) \<Rightarrow> jstr \<Rightarrow> jstr" where
  "sanitize_body parse stringify lower body =
     (let redacted = redact_keys body in
      case parse redacted of
        Some v \<Rightarrow> stringify (sanitize_value lower True v)
      | None \<Rightarrow> if echoed_request lower redacted then echo_body_mark else redacted)"

end
