(* ===== verification/BridgeCompatProperties.thy ===== *)
theory BridgeCompatProperties
  imports BridgeCompat
begin

text \<open>
  What the error body that is shown does not hold any more: no prompt cache key, no text that echoes the
  request, and nothing under a name that holds a secret or a part of the request.
\<close>

section \<open>Patterns that see only the units they take\<close>

fun plain :: "(16 word \<Rightarrow> bool) \<Rightarrow> regex \<Rightarrow> bool" where
  "plain Q Nothing_Left \<longleftrightarrow> True"
| "plain Q (Unit_In P) \<longleftrightarrow> P \<le> Q"
| "plain Q (Cat a b) \<longleftrightarrow> plain Q a \<and> plain Q b"
| "plain Q (Alt a b) \<longleftrightarrow> plain Q a \<and> plain Q b"
| "plain Q (Star a) \<longleftrightarrow> plain Q a"
| "plain Q Word_Edge \<longleftrightarrow> False"
| "plain Q At_Start \<longleftrightarrow> False"
| "plain Q At_End \<longleftrightarrow> False"

lemma plain_units:
  "matches s r i j \<Longrightarrow> plain Q r \<Longrightarrow> i \<le> x \<Longrightarrow> x < j \<Longrightarrow> x < length s \<and> Q (s ! x)"
proof (induction arbitrary: x rule: matches.induct)
  case (unit i P)
  then have x: "x = i" by simp
  show ?case unfolding x using unit by (auto simp: le_fun_def)
next
  case (cat a i j b k)
  then show ?case by (cases "x < j") auto
next
  case (star_more a i j k)
  then show ?case by (cases "x < j") auto
qed auto

text \<open>Moving a match to another text that has the same units there, a distance to the left.\<close>

lemma plain_moves:
  "matches s r i j \<Longrightarrow> plain Q r \<Longrightarrow> (\<And>x. i \<le> x \<Longrightarrow> x < j \<Longrightarrow> x - d < length t \<and> t ! (x - d) = s ! x) \<Longrightarrow>
    d \<le> i \<Longrightarrow> matches t r (i - d) (j - d)"
proof (induction rule: matches.induct)
  case (unit i P)
  then have "i - d < length t" "t ! (i - d) = s ! i" by simp_all
  then have "matches t (Unit_In P) (i - d) (Suc (i - d))" using unit.hyps by (intro matches.unit) simp_all
  then show ?case using unit.prems(3) by (simp add: Suc_diff_le)
next
  case (cat a i j b k)
  have "i \<le> j" "j \<le> k" using cat.hyps match_forward by blast+
  then have "matches t a (i - d) (j - d)" "matches t b (j - d) (k - d)"
    using cat by (auto intro!: cat.IH)
  then show ?case by (rule matches.cat)
next
  case (star_more a i j k)
  have "i \<le> j" "j \<le> k" using star_more.hyps match_forward by blast+
  then have "matches t a (i - d) (j - d)" "matches t (Star a) (j - d) (k - d)"
    using star_more by (auto intro!: star_more.IH)
  then show ?case by (rule matches.star_more)
qed (auto intro: matches.intros)

lemma plain_lit: "plain Q (lit s) \<longleftrightarrow> list_all Q s"
  by (induction s) (auto simp: le_fun_def)

lemma plain_cats: "list_all (plain Q) rs \<Longrightarrow> plain Q (cats rs)"
  by (induction rs rule: cats.induct) simp_all

section \<open>No cache key is left\<close>

definition key_unit :: "16 word \<Rightarrow> bool" where
  "key_unit c \<longleftrightarrow> c \<noteq> 91 \<and> c \<noteq> 93"

definition holds_key :: "jstr \<Rightarrow> bool" where
  "holds_key s \<longleftrightarrow> regex_test cache_key_value s"

lemma key_plain: "plain key_unit cache_key_value"
proof -
  have "list_all key_unit (js ''myagents:'')" "list_all key_unit (js ''chat_completions'')" "list_all key_unit (js ''responses'')"
    "list_all key_unit (js '':'')" by (simp_all add: js_def key_unit_def)
  moreover have "plain key_unit (Unit_In (\<lambda>c. (97 \<le> c \<and> c \<le> 102) \<or> (48 \<le> c \<and> c \<le> 57)))"
    by (auto simp: le_fun_def key_unit_def)
  ultimately show ?thesis unfolding cache_key_value_def
    by (intro plain_cats) (simp add: plain_lit del: plain.simps(2), simp add: list_all_iff del: plain.simps(2))
qed

lemma holds_key_iff: "holds_key s \<longleftrightarrow> (\<exists>i j. i \<le> length s \<and> matches s cache_key_value i j)"
  by (simp add: holds_key_def regex_test_iff)

lemma mark_holds_none: "\<not> holds_key redaction_mark"
  by code_simp

lemma unit_not_empty: "matches s (Cat (Cat (Unit_In P) a) b) i j \<Longrightarrow> i < j"
proof -
  assume "matches s (Cat (Cat (Unit_In P) a) b) i j"
  then obtain k l where "k = Suc i" "matches s a k l" "matches s b l j" by (auto elim!: matchesE)
  then show "i < j" using match_forward [of s a k l] match_forward [of s b l j] by simp
qed

lemma key_not_empty: "matches s cache_key_value i j \<Longrightarrow> i < j"
proof -
  have "\<exists>P a b. cache_key_value = Cat (Cat (Unit_In P) a) b" by (simp add: cache_key_value_def js_Cons)
  then show "matches s cache_key_value i j \<Longrightarrow> i < j" using unit_not_empty by metis
qed

text \<open>Up to the first bracket the redacted text is the text.\<close>

lemma redact_agrees:
  "n \<le> length (redact_keys s) \<Longrightarrow> list_all key_unit (take n (redact_keys s)) \<Longrightarrow>
    n \<le> length s \<and> take n (redact_keys s) = take n s"
proof (induction s arbitrary: n rule: redact_keys.induct)
  case (2 c s)
  show ?case
  proof (cases "ends (c # s) cache_key_value 0")
    case Nil
    then show ?thesis using 2 by (cases n) auto
  next
    case (Cons m ms)
    have "redaction_mark = 91 # tl redaction_mark" by (simp add: redaction_mark_def js_def)
    then have "redact_keys (c # s) = 91 # (tl redaction_mark @ redact_keys (drop (max 1 m) (c # s)))"
      using Cons by (metis append_Cons list.simps(5) redact_keys.simps(2))
    then have "n = 0" using 2(4) by (cases n) (simp_all add: key_unit_def)
    then show ?thesis by simp
  qed
qed simp

lemma redact_holds_none: "\<not> holds_key (redact_keys s)"
proof (induction s rule: redact_keys.induct)
  case 1
  show ?case by code_simp
next
  case (2 c s)
  let ?out = "redact_keys (c # s)"
  have "\<not> matches ?out cache_key_value i j" if bound: "i \<le> length ?out" for i j
  proof
    assume m: "matches ?out cache_key_value i j"
    note units = plain_units [OF m key_plain]
    have ij: "i < j" "j \<le> length ?out" using key_not_empty [OF m] match_inside [OF m bound] by simp_all
    show False
    proof (cases "ends (c # s) cache_key_value 0")
      case Nil
      then have out: "?out = c # redact_keys s" by simp
      show False
      proof (cases i)
        case 0
        have "list_all key_unit (take j ?out)" using units 0 ij(2) by (auto simp: list_all_length)
        then have "j \<le> length (c # s) \<and> take j ?out = take j (c # s)" by (rule redact_agrees [OF ij(2)])
        then have "x < length (c # s) \<and> (c # s) ! x = ?out ! x" if "x < j" for x
          using that by (metis nth_take order_less_le_trans)
        then have "matches (c # s) cache_key_value (0 - 0) (j - 0)"
          using 0 by (intro plain_moves [OF m [unfolded 0] key_plain]) auto
        then have "j \<in> set (ends (c # s) cache_key_value 0)" by (simp add: ends_exact)
        then show False using Nil by simp
      next
        case (Suc k)
        have "matches (redact_keys s) cache_key_value (i - 1) (j - 1)"
          using units ij Suc out by (intro plain_moves [OF m key_plain]) (auto simp: nth_Cons' less_diff_conv)
        moreover have "i - 1 \<le> length (redact_keys s)" using bound out by simp
        ultimately show False using 2(1) Nil unfolding holds_key_iff by blast
      qed
    next
      case (Cons n ns)
      then obtain rest where out: "?out = redaction_mark @ rest" "\<not> holds_key rest" using 2(2) by simp
      let ?l = "length redaction_mark"
      have mark: "redaction_mark ! (?l - 1) = 93" "0 < ?l" by (simp_all add: redaction_mark_def js_def)
      have close: "?out ! (?l - 1) = 93" unfolding out(1) nth_append using mark by simp
      show False
      proof (cases "?l \<le> i")
        case True
        have "matches rest cache_key_value (i - ?l) (j - ?l)"
          using units ij True out(1) by (intro plain_moves [OF m key_plain]) (auto simp: nth_append less_diff_conv2)
        moreover have "i - ?l \<le> length rest" using bound out(1) by simp
        ultimately show False using out(2) unfolding holds_key_iff by blast
      next
        case False
        have "j \<le> ?l - 1"
        proof (rule ccontr)
          assume "\<not> j \<le> ?l - 1"
          then have "key_unit (?out ! (?l - 1))" using units [of "?l - 1"] False by simp
          then show False using close by (simp add: key_unit_def)
        qed
        then have "matches redaction_mark cache_key_value (i - 0) (j - 0)"
          using units ij False out(1) by (intro plain_moves [OF m key_plain]) (auto simp: nth_append)
        then show False using mark_holds_none False unfolding holds_key_iff by (metis diff_zero nat_le_linear)
      qed
    qed
  qed
  then show ?case unfolding holds_key_iff by blast
qed

section \<open>What is shown is safe\<close>

definition hidden_name :: "(jstr \<Rightarrow> jstr) \<Rightarrow> jstr \<Rightarrow> bool" where
  "hidden_name lower k \<longleftrightarrow>
     lower k = js ''prompt_cache_key'' \<or> regex_test secret_key (lower k) \<or> lower k \<in> set echo_keys"

definition hidden_value :: "json \<Rightarrow> bool" where
  "hidden_value v = (case v of JStr m \<Rightarrow> prefix (js ''[redacted-'') m \<and> \<not> holds_key m | _ \<Rightarrow> False)"

definition text_shown :: "(jstr \<Rightarrow> jstr) \<Rightarrow> jstr \<Rightarrow> jstr \<Rightarrow> bool" where
  "text_shown lower mark s \<longleftrightarrow> \<not> holds_key s \<and> (s = mark \<or> \<not> echoed_request lower s)"

fun shown_safe :: "(jstr \<Rightarrow> jstr) \<Rightarrow> json \<Rightarrow> bool" where
  "shown_safe lower (JStr s) \<longleftrightarrow> text_shown lower echo_text_mark s"
| "shown_safe lower (JArr xs) \<longleftrightarrow> list_all (shown_safe lower) xs"
| "shown_safe lower (JObj obj) \<longleftrightarrow>
     list_all (\<lambda>(k, v). if hidden_name lower k then hidden_value v else shown_safe lower v) obj"
| "shown_safe lower v \<longleftrightarrow> True"

lemma marks_hold_none:
  "\<not> holds_key echo_text_mark" "\<not> holds_key echo_body_mark" "\<not> holds_key (js ''[redacted-secret]'')"
  by code_simp+

lemma entry_redacted:
  "(case redacted_entry lower True k of None \<Rightarrow> \<not> hidden_name lower k | Some m \<Rightarrow> hidden_value (JStr m))"
proof -
  have "list_all (\<lambda>n. hidden_value (JStr (js ''[redacted-'' @ n @ js '']''))) echo_keys" by code_simp
  moreover have "hidden_value (JStr redaction_mark)" by code_simp
  moreover have "hidden_value (JStr (js ''[redacted-secret]''))" by code_simp
  ultimately show ?thesis by (auto simp: redacted_entry_def hidden_name_def Let_def list_all_iff)
qed

lemma value_sanitized: "echo = True \<Longrightarrow> shown_safe lower (sanitize_value lower echo v)"
proof (induction lower echo v rule: sanitize_value.induct)
  case (3 lower echo obj)
  have "if hidden_name lower k then hidden_value w else shown_safe lower w"
    if "(k, v) \<in> set obj" "w = (case redacted_entry lower True k of Some m \<Rightarrow> JStr m | None \<Rightarrow> sanitize_value lower True v)"
    for k v w
  proof (cases "redacted_entry lower True k")
    case None
    then show ?thesis using entry_redacted [of lower k] that 3 by auto
  next
    case (Some m)
    have "hidden_name lower k"
      using Some by (auto simp: redacted_entry_def hidden_name_def Let_def split: if_splits)
    then show ?thesis using entry_redacted [of lower k] Some that(2) by simp
  qed
  then show ?case using 3(2) by (auto simp: list_all_iff)
qed (auto simp: list_all_iff Let_def text_shown_def marks_hold_none redact_holds_none)

text \<open>C39. The error body that is shown and logged is safe, whatever the upstream sent: no string value of it holds
  a cache affinity key or echoes the request, and under a name that holds a secret, the cache
  key or a part of the request there is only a mark, at every depth; a body that is not JSON holds no
  key and is replaced when it echoes the request.\<close>

theorem shown_error_is_safe:
  "(case parse (redact_keys body) of
      Some v \<Rightarrow> \<exists>w. sanitize_body parse stringify lower body = stringify w \<and> shown_safe lower w
    | None \<Rightarrow> text_shown lower echo_body_mark (sanitize_body parse stringify lower body))"
  using value_sanitized by (auto simp: sanitize_body_def Let_def text_shown_def marks_hold_none redact_holds_none split: option.split)

end
