(* ===== verification/BridgeHandler.thy ===== *)
theory BridgeHandler
  imports BridgeCompat BridgeError
begin

text \<open>
  One request through the bridge (openai-bridge/handler.ts): the translation of an attempt, the loop that
  sends it and retries after a refused credential or a refused prompt cache field, and the cache of
  thought signatures. The environment answers each fetch; what the handler tells others (the owner of
  the credential, the registry) and the images it writes are a log; the functions of the owner are given
  together, as agent-session.ts supplies them. The outgoing body is the request
  itself, since \<open>JSON.stringify\<close> adds nothing to it.
\<close>

section \<open>Thought signatures\<close>

record signed_call =
  sg_id :: jstr
  sg_direct :: "jstr option"
  sg_extra :: "jstr option"

type_synonym signature_cache = "(jstr \<times> jstr) list"

definition signature_cache_max :: nat where
  "signature_cache_max = 500"

definition skip_signature :: jstr where
  "skip_signature = js ''skip_thought_signature_validator''"

definition cache_signature :: "signed_call \<Rightarrow> signature_cache \<Rightarrow> signature_cache" where
  "cache_signature c cache =
     (let s = (if truthy (sg_direct c) then sg_direct c else sg_extra c)
      in if sg_id c \<noteq> [] \<and> truthy s then map_set (sg_id c) (the s) cache else cache)"

text \<open>The oldest entries are evicted, in the order of insertion.\<close>

definition evict_signatures :: "nat \<Rightarrow> signature_cache \<Rightarrow> signature_cache" where
  "evict_signatures limit cache = (if limit < length cache then drop (length cache - limit) cache else cache)"

definition cache_signatures :: "nat \<Rightarrow> signed_call list option \<Rightarrow> signature_cache \<Rightarrow> signature_cache" where
  "cache_signatures limit calls cache =
     (case calls of None \<Rightarrow> cache | Some cs \<Rightarrow> evict_signatures limit (fold cache_signature cs cache))"

text \<open>The signature of each call of a chat request; a translated call carries none of its own.\<close>

definition call_signatures :: "signature_cache \<Rightarrow> openai_message list \<Rightarrow> jstr list" where
  "call_signatures cache ms =
     concat (map (\<lambda>m. case m of
         Assistant_Message _ _ (Some cs) \<Rightarrow>
           map (\<lambda>c. or_default (map_of cache (or_default (uc_id c) [])) skip_signature) cs
       | _ \<Rightarrow> []) ms)"

section \<open>One attempt\<close>

definition provider_effort_choices :: "jstr \<Rightarrow> jstr \<Rightarrow> jstr list option option" where
  "provider_effort_choices provider model =
     (if provider \<noteq> js ''xai-sub'' then None
      else if model = js ''grok-4.6'' then Some (Some [js ''low'', js ''medium'', js ''high'', js ''xhigh''])
      else if model = js ''grok-4.5'' then Some (Some [js ''low'', js ''medium'', js ''high''])
      else if model = js ''grok-4.3'' then Some (Some [js ''none'', js ''low'', js ''medium'', js ''high''])
      else Some None)"

definition sends_effort :: "jstr \<Rightarrow> jstr \<Rightarrow> jstr option \<Rightarrow> bool" where
  "sends_effort provider model effort \<longleftrightarrow>
     truthy effort \<and>
     (case provider_effort_choices provider model of
        None \<Rightarrow> True | Some None \<Rightarrow> False | Some (Some cs) \<Rightarrow> the effort \<in> set cs)"

text \<open>The images of a request in the order in which the translation saves them.\<close>

definition result_images :: "tool_result \<Rightarrow> (jstr \<times> jstr) list" where
  "result_images r =
     (case tl_content r of
        Some (Inr ps) \<Rightarrow> concat (map (\<lambda>p. case p of
            Result_Image media data \<Rightarrow>
              if data \<noteq> [] then [(data, if media \<noteq> [] then media else js ''image/png'')] else []
          | Result_Text _ \<Rightarrow> []) ps)
      | _ \<Rightarrow> [])"

definition request_images :: "bool \<Rightarrow> request_message list \<Rightarrow> (jstr \<times> jstr) list" where
  "request_images responses ms =
     (let known = known_tool_ids ms in
      concat (map (\<lambda>m. case m of
          From_User (Blocks bs) \<Rightarrow> concat (map result_images
            (if responses then orphans known bs @ known_results known bs else known_results known bs @ orphans known bs))
        | _ \<Rightarrow> []) ms))"

record image_store =
  im_saved :: "nat \<Rightarrow> (jstr \<times> jstr \<times> jstr) option"
  im_writes :: "(jstr \<times> jstr) list"

text \<open>The saver of the workspace is told how many images were written before; None is a failed write.\<close>

fun save_images :: "(nat \<Rightarrow> jstr \<Rightarrow> jstr \<Rightarrow> jstr option) \<Rightarrow> nat \<Rightarrow> (jstr \<times> jstr) list \<Rightarrow> image_store \<Rightarrow> image_store" where
  "save_images disk n [] st = st"
| "save_images disk n ((d, m) # rest) st =
     save_images disk (Suc n) rest
       (case im_saved st n of
          Some (d', m', p) \<Rightarrow> if d' = d \<and> m' = m then st else
            (st\<lparr>im_saved := (case disk (length (im_writes st)) d m of
                Some q \<Rightarrow> (im_saved st)(n \<mapsto> (d, m, q)) | None \<Rightarrow> im_saved st),
               im_writes := im_writes st @ [(d, m)]\<rparr>)
        | None \<Rightarrow>
            (st\<lparr>im_saved := (case disk (length (im_writes st)) d m of
                Some q \<Rightarrow> (im_saved st)(n \<mapsto> (d, m, q)) | None \<Rightarrow> im_saved st),
               im_writes := im_writes st @ [(d, m)]\<rparr>))"

definition stored_image :: "image_store \<Rightarrow> nat \<Rightarrow> jstr \<Rightarrow> jstr \<Rightarrow> jstr option" where
  "stored_image st n d m =
     (case im_saved st n of Some (d', m', p) \<Rightarrow> if d' = d \<and> m' = m then Some p else None | None \<Rightarrow> None)"

record bridge_context =
  bc_request :: anthropic_request
  bc_responses :: bool
  bc_provider :: jstr
  bc_target_model :: jstr
  bc_mapping :: "(jstr \<Rightarrow> jstr option) option"
  bc_effort :: "jstr option"
  bc_cap :: "int option"
  bc_cap_name :: "jstr option"
  bc_disk :: image_saver
  bc_signatures :: signature_cache
  bc_recovers :: bool
  bc_compatible :: bool

record outgoing =
  og_request :: bridge_request
  og_signatures :: "jstr list"
  og_cap :: "(jstr \<times> int) option"

definition without_effort :: "bridge_request \<Rightarrow> bridge_request" where
  "without_effort q =
     (case q of Chat_Request c \<Rightarrow> Chat_Request (c\<lparr>oq_effort := None\<rparr>)
      | Responses_Request r \<Rightarrow> Responses_Request (r\<lparr>rq_effort := None\<rparr>))"

definition request_model :: "bridge_request \<Rightarrow> jstr" where
  "request_model q = (case q of Chat_Request c \<Rightarrow> oq_model c | Responses_Request r \<Rightarrow> rq_model r)"

definition request_key :: "bridge_request \<Rightarrow> jstr option" where
  "request_key q = (case q of Chat_Request c \<Rightarrow> oq_cache_key c | Responses_Request r \<Rightarrow> rq_cache_key r)"

definition attempt_options :: "bridge_context \<Rightarrow> image_store \<Rightarrow> jstr option \<Rightarrow> bool \<Rightarrow> bridge_options" where
  "attempt_options cx images key points =
     \<lparr>bo_mapping = bc_mapping cx, bo_override = Some (bc_target_model cx),
      bo_saver = (if bc_disk cx = None then None else Some (stored_image images)),
      bo_effort = bc_effort cx, bo_cache_key = key, bo_points = Some points\<rparr>"

definition translate_attempt ::
    "(json \<Rightarrow> jstr) \<Rightarrow> bridge_context \<Rightarrow> jstr option \<Rightarrow> bool \<Rightarrow> image_store \<Rightarrow> outgoing \<times> image_store" where
  "translate_attempt stringify cx key points images =
     (let images' = (case bc_disk cx of
            Some disk \<Rightarrow> save_images disk 0 (request_images (bc_responses cx) (aq_messages (bc_request cx))) images
          | None \<Rightarrow> images);
          opts = attempt_options cx images' key points;
          q = (if bc_responses cx then Responses_Request (translate_request_to_responses stringify opts (bc_request cx))
               else Chat_Request (translate_request stringify opts (bc_request cx)));
          q' = (if truthy (bc_effort cx) \<and> \<not> sends_effort (bc_provider cx) (request_model q) (bc_effort cx)
                then without_effort q else q)
      in (\<lparr>og_request = q',
           og_signatures = (case q' of Chat_Request c \<Rightarrow> call_signatures (bc_signatures cx) (oq_messages c)
               | Responses_Request _ \<Rightarrow> []),
           og_cap = (case bc_cap cx of
               Some n \<Rightarrow> if n \<noteq> 0 then Some (if bc_responses cx then js ''max_output_tokens''
                   else (case bc_cap_name cx of Some x \<Rightarrow> x | None \<Rightarrow> js ''max_tokens''), n) else None
             | None \<Rightarrow> None)\<rparr>, images'))"

section \<open>The attempts\<close>

text \<open>What a fetch comes to: no connection, an answer that is a success, a refusal with its body, or a refusal
  whose body cannot be read.\<close>

datatype fetch_outcome = Unconnected bool jstr | Accepted | Refused int jstr | Unreadable int

datatype bridge_event =
    Fetched outgoing jstr
  | Asked_Credential int
  | Quarantined int
  | Key_Disabled
  | Points_Disabled
  | Reported int int

datatype bridge_result =
    Streams
  | Local_Error int jstr jstr
  | Upstream_Refusal translated_error
  | Thrown

record attempt_state =
  at_bearer :: jstr
  at_version :: "int option"
  at_key :: "jstr option"
  at_points :: bool
  at_outgoing :: outgoing
  at_images :: image_store
  at_auth_tried :: bool
  at_key_tried :: bool
  at_points_tried :: bool
  at_log :: "bridge_event list"

record bridge_world =
  bw_parse :: "jstr \<Rightarrow> json option"
  bw_stringify :: "json \<Rightarrow> jstr"
  bw_lower :: "jstr \<Rightarrow> jstr"
  bw_fetch :: "nat \<Rightarrow> outgoing \<Rightarrow> jstr \<Rightarrow> fetch_outcome"
  bw_recover :: "int \<Rightarrow> (jstr \<times> int) option"

definition log_event :: "bridge_event \<Rightarrow> attempt_state \<Rightarrow> attempt_state" where
  "log_event e st = st\<lparr>at_log := at_log st @ [e]\<rparr>"

definition fetch_count :: "attempt_state \<Rightarrow> nat" where
  "fetch_count st = length (filter (\<lambda>e. case e of Fetched _ _ \<Rightarrow> True | _ \<Rightarrow> False) (at_log st))"

definition retranslate :: "bridge_world \<Rightarrow> bridge_context \<Rightarrow> attempt_state \<Rightarrow> attempt_state" where
  "retranslate w cx st =
     (let (q, images) = translate_attempt (bw_stringify w) cx (at_key st) (at_points st) (at_images st)
      in st\<lparr>at_outgoing := q, at_images := images\<rparr>)"

definition start_attempts ::
    "bridge_world \<Rightarrow> bridge_context \<Rightarrow> jstr \<Rightarrow> int option \<Rightarrow> jstr option \<Rightarrow> bool \<Rightarrow> attempt_state" where
  "start_attempts w cx bearer version key points =
     (let (q, images) = translate_attempt (bw_stringify w) cx key points \<lparr>im_saved = (\<lambda>_. None), im_writes = []\<rparr>
      in \<lparr>at_bearer = bearer, at_version = version, at_key = key, at_points = points, at_outgoing = q,
          at_images = images, at_auth_tried = False, at_key_tried = False, at_points_tried = False, at_log = []\<rparr>)"

text \<open>A credential that was refused again is quarantined; a failure to do so is only logged.\<close>

definition quarantine :: "int \<Rightarrow> attempt_state \<Rightarrow> attempt_state" where
  "quarantine status st =
     (case at_version st of
        Some v \<Rightarrow> if status = 401 \<and> at_auth_tried st then log_event (Quarantined v) st else st
      | None \<Rightarrow> st)"

definition give_up :: "bridge_world \<Rightarrow> int \<Rightarrow> jstr \<Rightarrow> attempt_state \<Rightarrow> attempt_state \<times> bridge_result" where
  "give_up w status body st =
     ((case at_version st of Some v \<Rightarrow> log_event (Reported v status) st | None \<Rightarrow> st),
      Upstream_Refusal (translate_error (bw_parse w) (bw_lower w) status
        (sanitize_body (bw_parse w) (bw_stringify w) (bw_lower w) body)))"

definition can_drop_key :: "bridge_world \<Rightarrow> bridge_context \<Rightarrow> int \<Rightarrow> jstr \<Rightarrow> attempt_state \<Rightarrow> bool" where
  "can_drop_key w cx status body st \<longleftrightarrow>
     \<not> at_key_tried st \<and> truthy (request_key (og_request (at_outgoing st))) \<and> bc_compatible cx
     \<and> refuses_cache_key (bw_parse w) status body"

text \<open>The request without breakpoints that is tried after this refusal, if one is. Where the shape of a content
  was refused, it is only tried if it differs there; the images that it saves are kept.\<close>

definition drop_points :: "bridge_world \<Rightarrow> bridge_context \<Rightarrow> int \<Rightarrow> jstr \<Rightarrow> attempt_state \<Rightarrow> attempt_state \<times> bool" where
  "drop_points w cx status body st =
     (let refusal = (if \<not> at_points_tried st \<and> at_points st \<and> bc_compatible cx
            then classify_points (bw_parse w) status body (og_request (at_outgoing st)) else None);
          plain_st = retranslate w cx (st\<lparr>at_points := False\<rparr>)
      in case refusal of
           None \<Rightarrow> (st, False)
         | Some (Shape_Refused name ds) \<Rightarrow>
             (if fallback_changes (og_request (at_outgoing st)) (og_request (at_outgoing plain_st)) name ds
              then (log_event Points_Disabled (plain_st\<lparr>at_points_tried := True\<rparr>), True)
              else (st\<lparr>at_images := at_images plain_st\<rparr>, False))
         | Some _ \<Rightarrow> (log_event Points_Disabled (plain_st\<lparr>at_points_tried := True\<rparr>), True))"

definition after_refusal ::
    "bridge_world \<Rightarrow> bridge_context \<Rightarrow> int \<Rightarrow> jstr \<Rightarrow> attempt_state \<Rightarrow> attempt_state \<times> bridge_result option" where
  "after_refusal w cx status body st =
     (let st1 = quarantine status st in
      if can_drop_key w cx status body st1
      then (retranslate w cx (log_event Key_Disabled (st1\<lparr>at_key_tried := True, at_key := None\<rparr>)), None)
      else (case drop_points w cx status body st1 of
          (st2, True) \<Rightarrow> (st2, None)
        | (st2, False) \<Rightarrow> (let (st3, r) = give_up w status body st2 in (st3, Some r))))"

definition recover_credential ::
    "bridge_world \<Rightarrow> int \<Rightarrow> attempt_state \<Rightarrow> attempt_state \<times> bridge_result option" where
  "recover_credential w v st =
     (let st1 = log_event (Asked_Credential v) (st\<lparr>at_auth_tried := True\<rparr>)
      in case bw_recover w v of
           Some (bearer, version) \<Rightarrow> (st1\<lparr>at_bearer := bearer, at_version := Some version\<rparr>, None)
         | None \<Rightarrow> (st1, Some (Local_Error 401 (js ''authentication_error'')
                       (js ''Managed provider login is unavailable; sign in again.''))))"

text \<open>One round of the loop: None is \<open>continue\<close>.\<close>

definition attempt_round :: "bridge_world \<Rightarrow> bridge_context \<Rightarrow> attempt_state \<Rightarrow> attempt_state \<times> bridge_result option" where
  "attempt_round w cx st =
     (let st1 = log_event (Fetched (at_outgoing st) (at_bearer st)) st in
      case bw_fetch w (fetch_count st) (at_outgoing st) (at_bearer st) of
        Unconnected timed_out message \<Rightarrow>
          (st1, Some (if timed_out then Local_Error 408 (js ''api_error'') (js ''Upstream request timed out'')
                      else Local_Error 502 (js ''api_error'') (js ''Upstream connection error: '' @ message)))
      | Accepted \<Rightarrow> (st1, Some Streams)
      | Unreadable _ \<Rightarrow> (st1, Some Thrown)
      | Refused status body \<Rightarrow>
          (case at_version st1 of
             Some v \<Rightarrow> if status = 401 \<and> bc_recovers cx \<and> \<not> at_auth_tried st1 then recover_credential w v st1
                        else after_refusal w cx status body st1
           | None \<Rightarrow> after_refusal w cx status body st1))"

definition retries_left :: "attempt_state \<Rightarrow> nat" where
  "retries_left st =
     (if at_auth_tried st then 0 else 1) + (if at_key_tried st then 0 else 1) + (if at_points_tried st then 0 else 1)"

lemma retranslate_simps [simp]:
  "at_auth_tried (retranslate w cx st) = at_auth_tried st" "at_key_tried (retranslate w cx st) = at_key_tried st"
  "at_points_tried (retranslate w cx st) = at_points_tried st" "at_log (retranslate w cx st) = at_log st"
  "at_key (retranslate w cx st) = at_key st" "at_points (retranslate w cx st) = at_points st"
  "at_version (retranslate w cx st) = at_version st" "at_bearer (retranslate w cx st) = at_bearer st"
  by (simp_all add: retranslate_def split_beta Let_def)

lemma quarantine_simps [simp]:
  "at_auth_tried (quarantine status st) = at_auth_tried st" "at_key_tried (quarantine status st) = at_key_tried st"
  "at_points_tried (quarantine status st) = at_points_tried st" "at_outgoing (quarantine status st) = at_outgoing st"
  "at_key (quarantine status st) = at_key st" "at_points (quarantine status st) = at_points st"
  "at_images (quarantine status st) = at_images st"
  by (simp_all add: quarantine_def log_event_def split: option.split)

lemma log_event_simps [simp]:
  "at_auth_tried (log_event e st) = at_auth_tried st" "at_key_tried (log_event e st) = at_key_tried st"
  "at_points_tried (log_event e st) = at_points_tried st" "at_outgoing (log_event e st) = at_outgoing st"
  "at_key (log_event e st) = at_key st" "at_points (log_event e st) = at_points st"
  "at_images (log_event e st) = at_images st" "at_log (log_event e st) = at_log st @ [e]"
  "at_version (log_event e st) = at_version st"
  by (simp_all add: log_event_def)

lemma dropping_uses_a_retry:
  "drop_points w cx status body st = (st', True) \<Longrightarrow> retries_left st' < retries_left st"
  by (auto simp: drop_points_def retries_left_def Let_def split: if_splits option.splits point_refusal.splits)

lemma round_uses_a_retry:
  assumes "attempt_round w cx st = (st', None)"
  shows "retries_left st' < retries_left st"
proof -
  let ?st = "log_event (Fetched (at_outgoing st) (at_bearer st)) st"
  obtain status body where out: "bw_fetch w (fetch_count st) (at_outgoing st) (at_bearer st) = Refused status body"
    using assms by (auto simp: attempt_round_def Let_def split: fetch_outcome.splits)
  have after: "retries_left st' < retries_left st" if "after_refusal w cx status body ?st = (st', None)"
  proof (cases "can_drop_key w cx status body (quarantine status ?st)")
    case True
    then have "\<not> at_key_tried st" by (simp add: can_drop_key_def)
    then show ?thesis using that True by (auto simp: after_refusal_def retries_left_def Let_def)
  next
    case False
    obtain st2 b where drop: "drop_points w cx status body (quarantine status ?st) = (st2, b)" by fastforce
    then have "b" "st2 = st'" using that False by (cases b; simp add: after_refusal_def Let_def split_beta)+
    then have "drop_points w cx status body (quarantine status ?st) = (st', True)" using drop by simp
    from dropping_uses_a_retry [OF this] show ?thesis by (simp add: retries_left_def)
  qed
  have recovered: "retries_left st' < retries_left st"
    if "recover_credential w v ?st = (st', None)" "\<not> at_auth_tried st" for v
    using that by (auto simp: recover_credential_def retries_left_def Let_def split: option.splits)
  show ?thesis using assms out after recovered
    by (auto simp: attempt_round_def Let_def split: option.splits if_splits)
qed

function attempt_loop :: "bridge_world \<Rightarrow> bridge_context \<Rightarrow> attempt_state \<Rightarrow> attempt_state \<times> bridge_result" where
  "attempt_loop w cx st =
     (case attempt_round w cx st of
        (st', Some r) \<Rightarrow> (st', r)
      | (st', None) \<Rightarrow> attempt_loop w cx st')"
  by pat_completeness auto
termination
  by (relation "measure (\<lambda>(w, cx, st). retries_left st)") (simp_all add: round_uses_a_retry)

declare attempt_loop.simps [simp del]

end
