(* ===== verification/BridgeHandlerRequests.thy ===== *)
theory BridgeHandlerRequests
  imports BridgeHandler
begin

text \<open>
  A request that is translated without breakpoints has none, in either protocol, and one without a cache
  key carries none.
\<close>

section \<open>A request without breakpoints\<close>

lemma no_point [simp]: "\<not> breakpoint False c"
  by (simp add: breakpoint_def)

definition pointless :: "bool list option \<Rightarrow> bool" where
  "pointless ps = (case ps of Some xs \<Rightarrow> True \<notin> set xs | None \<Rightarrow> True)"

lemma has_point_iff: "has_point q \<longleftrightarrow> \<not> list_all pointless (request_points q)"
  by (auto simp: has_point_def pointless_def list_ex_iff list_all_iff split: option.splits)

abbreviation part_flag :: "content_part \<Rightarrow> bool" where
  "part_flag p \<equiv> (case p of Part_Text _ x \<Rightarrow> x | Part_Image _ x \<Rightarrow> x)"

abbreviation input_flag :: "input_part \<Rightarrow> bool" where
  "input_flag p \<equiv> (case p of Input_Text _ x \<Rightarrow> x | Input_Image _ x \<Rightarrow> x | Replayed_Text _ \<Rightarrow> False)"

lemma parts_plain: "\<forall>p \<in> set (concat (map (openai_part False) bs)). \<not> part_flag p"
proof -
  have "\<forall>p \<in> set (openai_part False b). \<not> part_flag p" for b by (cases b) (simp_all add: openai_part_def)
  then show ?thesis by auto
qed

lemma whole_parts_pointless:
  assumes "\<forall>p \<in> set ps. \<not> part_flag p"
  shows "list_all (\<lambda>m. pointless (chat_points m)) (case ps of [] \<Rightarrow> [] | [Part_Text t False] \<Rightarrow> [User_Message (Whole_Text t)]
      | _ \<Rightarrow> [User_Message (Parts ps)])"
proof -
  have "pointless (chat_points (User_Message (Parts ps)))" using assms by (auto simp: chat_points_def pointless_def)
  moreover have "pointless (chat_points (User_Message (Whole_Text t)))" for t by (simp add: chat_points_def pointless_def)
  ultimately show ?thesis by (auto split: list.split content_part.split bool.split)
qed

lemma user_pointless: "list_all (\<lambda>m. pointless (chat_points m)) (fst (translate_user saver False known n body))"
proof (cases body)
  case (Blocks bs)
  define told where "told = fst (result_text_list saver n (known_results known bs))"
  define lost where "lost = fst (result_text_list saver (snd (result_text_list saver n (known_results known bs))) (orphans known bs))"
  define others where "others = filter (\<lambda>b. case b of Msg_Tool_Result _ \<Rightarrow> False | Msg_Thinking _ \<Rightarrow> False | _ \<Rightarrow> True) bs
      @ map (\<lambda>(_, t). Msg_Text (previous_result t) None) (filter (\<lambda>(_, t). truthy_str t) lost)"
  have out: "fst (translate_user saver False known n body) =
      map (\<lambda>(r, t). Tool_Message (tl_use r) (Whole_Text t)) told @
        (case concat (map (openai_part False) others) of [] \<Rightarrow> [] | [Part_Text t False] \<Rightarrow> [User_Message (Whole_Text t)]
          | _ \<Rightarrow> [User_Message (Parts (concat (map (openai_part False) others)))])"
    by (simp only: told_def lost_def others_def translate_user_def Blocks message_body.case split_beta Let_def no_point if_False fst_conv snd_conv)
  have "list_all (\<lambda>m. pointless (chat_points m)) (map (\<lambda>(r, t). Tool_Message (tl_use r) (Whole_Text t)) told)"
    by (induction told) (auto simp: chat_points_def pointless_def)
  then show ?thesis using whole_parts_pointless [OF parts_plain [of others]] by (simp only: out list_all_append)
qed (simp add: translate_user_def chat_points_def pointless_def)

lemma no_point_among: "\<not> list_ex (\<lambda>(t, c). breakpoint False c) xs"
  by (induction xs) auto

lemma assistant_pointless: "pointless (chat_points (translate_assistant stringify thinking False body))"
  by (simp add: translate_assistant_def chat_points_def pointless_def Let_def no_point_among del: no_point split: message_body.split)

lemma each_pointless:
  "list_all (\<lambda>m. pointless (chat_points m)) (translate_each stringify saver thinking False known n ms)"
proof (induction stringify saver thinking False known n ms rule: translate_each.induct)
  case (2 stringify saver thinking known n body ms)
  then show ?case using user_pointless [of saver known n body] 2 [OF refl prod.collapse] by (simp add: split_beta)
next
  case (3 stringify saver thinking known n body ms)
  then show ?case using assistant_pointless by simp
qed simp

lemma system_pointless: "list_all (\<lambda>m. pointless (chat_points m)) (translate_system False s)"
  by (simp add: translate_system_def chat_points_def pointless_def split: option.split system_prompt.split)

lemma messages_pointless:
  "list_all (\<lambda>m. pointless (chat_points m)) (translate_messages stringify system ms thinking saver False)"
  by (simp add: translate_messages_def each_pointless system_pointless)

lemma whole_input_pointless:
  assumes "\<forall>p \<in> set ps. \<not> input_flag p"
  shows "list_all (\<lambda>i. pointless (input_points i)) (case ps of [] \<Rightarrow> []
      | [Input_Text t False] \<Rightarrow> [Input_Message User_Role (Plain_Input t)] | _ \<Rightarrow> [Input_Message User_Role (Input_Parts ps)])"
proof -
  have "pointless (input_points (Input_Message User_Role (Input_Parts ps)))"
    using assms by (auto simp: input_points_def pointless_def)
  moreover have "pointless (input_points (Input_Message User_Role (Plain_Input t)))" for t
    by (simp add: input_points_def pointless_def)
  ultimately show ?thesis by (auto split: list.split input_part.split bool.split)
qed

lemma input_user_pointless: "list_all (\<lambda>i. pointless (input_points i)) (fst (input_user saver False known n body))"
proof (cases body)
  case (Blocks bs)
  define lost where "lost = filter (\<lambda>(_, t). truthy_str t) (fst (result_text_list saver n (orphans known bs)))"
  define told where "told = fst (result_text_list saver (snd (result_text_list saver n (orphans known bs))) (known_results known bs))"
  define parts where "parts = concat (map (input_part_of False) bs) @ map (\<lambda>(_, t). Input_Text (previous_result t) False) lost"
  have out: "fst (input_user saver False known n body) =
      map (\<lambda>(r, t). Input_Call_Output (tl_use r) t) told @ (case parts of [] \<Rightarrow> []
        | [Input_Text t False] \<Rightarrow> [Input_Message User_Role (Plain_Input t)] | _ \<Rightarrow> [Input_Message User_Role (Input_Parts parts)])"
    by (simp only: told_def lost_def parts_def input_user_def Blocks message_body.case split_beta Let_def fst_conv snd_conv)
  have "\<forall>p \<in> set (input_part_of False b). \<not> input_flag p" for b
    by (cases b) (simp_all add: input_part_of_def)
  then have "\<forall>p \<in> set parts. \<not> input_flag p" unfolding parts_def by auto
  moreover have "list_all (\<lambda>i. pointless (input_points i)) (map (\<lambda>(r, t). Input_Call_Output (tl_use r) t) told)"
    by (induction told) (auto simp: input_points_def pointless_def)
  ultimately show ?thesis using whole_input_pointless [of parts] by (simp only: out list_all_append)
qed (simp add: input_user_def input_points_def pointless_def)

lemma input_assistant_pointless: "list_all (\<lambda>i. pointless (input_points i)) (input_assistant stringify body)"
proof (cases body)
  case (Blocks bs)
  have "list_all (\<lambda>i. pointless (input_points i)) (input_call stringify b)" for b
    by (cases b) (simp_all add: input_call_def input_points_def pointless_def)
  then show ?thesis
    by (auto simp: Blocks input_assistant_def Let_def list_all_iff input_points_def pointless_def)
qed (simp add: input_assistant_def input_points_def pointless_def)

lemma input_pointless: "list_all (\<lambda>i. pointless (input_points i)) (input_each stringify saver False known n ms)"
proof (induction stringify saver False known n ms rule: input_each.induct)
  case (2 stringify saver known n body ms)
  then show ?case using input_user_pointless [of saver known n body] 2 [OF refl prod.collapse] by (simp add: split_beta)
next
  case (3 stringify saver known n body ms)
  then show ?case using input_assistant_pointless [of stringify body] by simp
qed simp

lemma attempt_pointless: "\<not> has_point (og_request (fst (translate_attempt stringify cx key False images)))"
proof -
  have "list_all pointless (map chat_points (oq_messages (translate_request stringify opts q)))"
    if "bo_points opts = Some False" for opts q
    using messages_pointless that by (simp add: translate_request_def truthy_flag_def list_all_iff)
  moreover have "list_all pointless (map input_points (rq_input (translate_request_to_responses stringify opts q)))"
    if "bo_points opts = Some False" for opts q
    using input_pointless that
    by (simp add: translate_request_to_responses_def truthy_flag_def list_all_iff Let_def split_beta translate_input_def
        instructions_of_def split: option.split system_prompt.split)
  ultimately show ?thesis
    by (simp add: has_point_iff translate_attempt_def Let_def attempt_options_def request_points_def without_effort_def
        split: bridge_request.split)
qed

lemma attempt_key: "request_key (og_request (fst (translate_attempt stringify cx key points images))) = when_truthy key"
  by (simp add: translate_attempt_def Let_def attempt_options_def request_key_def without_effort_def translate_request_def
      translate_request_to_responses_def split_beta split: bridge_request.split)

end
