(* ===== verification/BridgeHandlerProperties.thy ===== *)
theory BridgeHandlerProperties
  imports BridgeHandlerRequests
begin

text \<open>
  The loop over attempts ends after at most four fetches, gives up each optional field at most once, and
  then never sends it again; the images of a request are written once, however often it is sent.
\<close>

section \<open>The order of events\<close>

text \<open>How far the attempts are: they go on, the recovered credential was refused too, or the refusal was reported.\<close>

datatype attempts_phase = Trying | Lapsed | Over

record attempts_seen =
  sn_asked :: bool
  sn_keyless :: bool
  sn_pointless :: bool
  sn_phase :: attempts_phase

definition nothing_seen :: attempts_seen where
  "nothing_seen = \<lparr>sn_asked = False, sn_keyless = False, sn_pointless = False, sn_phase = Trying\<rparr>"

text \<open>Whether an event may follow the events before it. A field that was given up is not sent again, and each is
  given up once; the owner of the credential is asked once.\<close>

definition event_follows :: "attempts_seen \<Rightarrow> bridge_event \<Rightarrow> attempts_seen option" where
  "event_follows s e =
     (case e of
        Fetched q _ \<Rightarrow>
          if sn_phase s = Trying \<and> (sn_keyless s \<longrightarrow> request_key (og_request q) = None)
             \<and> (sn_pointless s \<longrightarrow> \<not> has_point (og_request q)) then Some s else None
      | Asked_Credential _ \<Rightarrow> if sn_phase s = Trying \<and> \<not> sn_asked s then Some (s\<lparr>sn_asked := True\<rparr>) else None
      | Quarantined _ \<Rightarrow> if sn_phase s = Trying \<and> sn_asked s then Some (s\<lparr>sn_phase := Lapsed\<rparr>) else None
      | Key_Disabled \<Rightarrow> if sn_phase s = Trying \<and> \<not> sn_keyless s then Some (s\<lparr>sn_keyless := True\<rparr>) else None
      | Points_Disabled \<Rightarrow> if sn_phase s = Trying \<and> \<not> sn_pointless s then Some (s\<lparr>sn_pointless := True\<rparr>) else None
      | Reported _ _ \<Rightarrow> if sn_phase s \<noteq> Over then Some (s\<lparr>sn_phase := Over\<rparr>) else None)"

fun events_follow :: "attempts_seen \<Rightarrow> bridge_event list \<Rightarrow> attempts_seen option" where
  "events_follow s [] = Some s"
| "events_follow s (e # es) = Option.bind (event_follows s e) (\<lambda>s'. events_follow s' es)"

lemma events_follow_append:
  "events_follow s (xs @ ys) = Option.bind (events_follow s xs) (\<lambda>s'. events_follow s' ys)"
  by (induction xs arbitrary: s) (auto split: bind_split)

definition seen_by :: "attempt_state \<Rightarrow> attempts_seen" where
  "seen_by st = \<lparr>sn_asked = at_auth_tried st, sn_keyless = at_key_tried st, sn_pointless = at_points_tried st,
     sn_phase = Trying\<rparr>"

definition given_up :: "attempt_state \<Rightarrow> bool" where
  "given_up st \<longleftrightarrow>
     (at_key_tried st \<longrightarrow> at_key st = None \<and> request_key (og_request (at_outgoing st)) = None)
     \<and> (at_points_tried st \<longrightarrow> \<not> at_points st \<and> \<not> has_point (og_request (at_outgoing st)))"

definition follows :: "attempt_state \<Rightarrow> bool" where
  "follows st \<longleftrightarrow> events_follow nothing_seen (at_log st) = Some (seen_by st)"

definition ready :: "attempt_state \<Rightarrow> bool" where
  "ready st \<longleftrightarrow> follows st \<and> given_up st \<and> fetch_count st + retries_left st \<le> 3"

lemma retranslate_outgoing:
  "at_outgoing (retranslate w cx st) =
     fst (translate_attempt (bw_stringify w) cx (at_key st) (at_points st) (at_images st))"
  by (simp add: retranslate_def split_beta Let_def)

lemma retranslated_given_up:
  "(at_key_tried st \<longrightarrow> at_key st = None) \<Longrightarrow> (at_points_tried st \<longrightarrow> \<not> at_points st) \<Longrightarrow> given_up (retranslate w cx st)"
  using attempt_pointless by (auto simp: given_up_def retranslate_outgoing attempt_key when_truthy_def truthy_def)

lemma fetch_count_simps [simp]:
  "fetch_count (retranslate w cx st) = fetch_count st"
  "fetch_count (log_event e st) = fetch_count st + (case e of Fetched _ _ \<Rightarrow> 1 | _ \<Rightarrow> 0)"
  by (simp_all add: fetch_count_def split: bridge_event.split)

lemma fetch_count_updates [simp]:
  "fetch_count (st\<lparr>at_points := b\<rparr>) = fetch_count st" "fetch_count (st\<lparr>at_points_tried := b\<rparr>) = fetch_count st"
  "fetch_count (st\<lparr>at_key_tried := b\<rparr>) = fetch_count st" "fetch_count (st\<lparr>at_key := k\<rparr>) = fetch_count st"
  "fetch_count (st\<lparr>at_images := i\<rparr>) = fetch_count st" "fetch_count (st\<lparr>at_auth_tried := b\<rparr>) = fetch_count st"
  "fetch_count (st\<lparr>at_bearer := t\<rparr>) = fetch_count st" "fetch_count (st\<lparr>at_version := v\<rparr>) = fetch_count st"
  by (simp_all add: fetch_count_def)

lemma log_event_follows:
  "follows st \<Longrightarrow> event_follows (seen_by st) e = Some s \<Longrightarrow> events_follow nothing_seen (at_log (log_event e st)) = Some s"
  by (simp add: follows_def events_follow_append)

lemma fetched_follows:
  assumes "ready st"
  shows "follows (log_event (Fetched (at_outgoing st) t) st)" "given_up (log_event (Fetched (at_outgoing st) t) st)"
proof -
  have "event_follows (seen_by st) (Fetched (at_outgoing st) t) = Some (seen_by st)"
    using assms by (auto simp: ready_def given_up_def event_follows_def seen_by_def)
  from log_event_follows [OF _ this] show "follows (log_event (Fetched (at_outgoing st) t) st)"
    using assms by (simp add: ready_def follows_def seen_by_def)
  show "given_up (log_event (Fetched (at_outgoing st) t) st)" using assms by (simp add: ready_def given_up_def)
qed

lemma quarantine_other: "status \<noteq> 401 \<Longrightarrow> quarantine status st = st"
  by (simp add: quarantine_def split: option.split)

lemma authentication_keeps_fields:
  "\<not> can_drop_key w cx 401 body st" "drop_points w cx 401 body st = (st, False)"
  by (simp_all add: can_drop_key_def refuses_cache_key_def drop_points_def classify_points_def)

lemma key_dropped:
  assumes "follows st" "given_up st" "can_drop_key w cx status body st"
  shows "follows (retranslate w cx (log_event Key_Disabled (st\<lparr>at_key_tried := True, at_key := None\<rparr>)))"
    "given_up (retranslate w cx (log_event Key_Disabled (st\<lparr>at_key_tried := True, at_key := None\<rparr>)))"
proof -
  have "event_follows (seen_by st) Key_Disabled = Some (seen_by (st\<lparr>at_key_tried := True, at_key := None\<rparr>))"
    using assms(3) by (simp add: event_follows_def seen_by_def can_drop_key_def)
  from log_event_follows [OF assms(1) this]
  show "follows (retranslate w cx (log_event Key_Disabled (st\<lparr>at_key_tried := True, at_key := None\<rparr>)))"
    by (simp add: follows_def seen_by_def)
  show "given_up (retranslate w cx (log_event Key_Disabled (st\<lparr>at_key_tried := True, at_key := None\<rparr>)))"
    using assms(2) by (intro retranslated_given_up) (auto simp: given_up_def)
qed

lemma points_dropped:
  assumes "follows st" "given_up st" "drop_points w cx status body st = (st', True)"
  shows "follows st'" "given_up st'"
proof -
  define plain_st where "plain_st = retranslate w cx (st\<lparr>at_points := False\<rparr>)"
  have st': "st' = log_event Points_Disabled (plain_st\<lparr>at_points_tried := True\<rparr>)" and tried: "\<not> at_points_tried st"
    using assms(3) by (auto simp: drop_points_def plain_st_def Let_def split: if_splits option.splits point_refusal.splits)
  have "event_follows (seen_by st) Points_Disabled = Some (seen_by st')"
    using tried by (simp add: event_follows_def seen_by_def st' plain_st_def)
  from log_event_follows [OF assms(1) this] show "follows st'" by (simp add: follows_def st' plain_st_def)
  have "given_up plain_st" using assms(2) tried unfolding plain_st_def by (intro retranslated_given_up) (auto simp: given_up_def)
  then show "given_up st'" using attempt_pointless unfolding st'
    by (auto simp: given_up_def plain_st_def retranslate_outgoing)
qed

lemma points_kept:
  assumes "drop_points w cx status body st = (st', False)"
  shows "at_log st' = at_log st" "seen_by st' = seen_by st" "at_version st' = at_version st"
  using assms by (auto simp: drop_points_def seen_by_def Let_def split: if_splits option.splits point_refusal.splits)

text \<open>A run that ended is in order too, and has at most one more fetch.\<close>

definition in_order :: "attempt_state \<Rightarrow> bool" where
  "in_order st \<longleftrightarrow> events_follow nothing_seen (at_log st) \<noteq> None"

lemma given_up_in_order:
  assumes "give_up w status body (quarantine status st) = (st', r)" "follows st"
  shows "in_order st'" "fetch_count st' = fetch_count st"
proof -
  have "in_order (fst (give_up w status body (quarantine status st)))"
    using assms(2) by (auto simp: give_up_def quarantine_def in_order_def follows_def events_follow_append event_follows_def
        seen_by_def split: option.split)
  then show "in_order st'" using assms(1) by simp
  have "fetch_count (fst (give_up w status body (quarantine status st))) = fetch_count st"
    by (simp add: give_up_def quarantine_def split: option.split)
  then show "fetch_count st' = fetch_count st" using assms(1) by simp
qed

lemma drop_points_fetches: "fetch_count (fst (drop_points w cx status body st)) = fetch_count st"
  by (auto simp: drop_points_def Let_def split: option.split point_refusal.split)

lemma refusal_continues:
  assumes "follows st" "given_up st" "after_refusal w cx status body st = (st', None)"
  shows "follows st' \<and> given_up st' \<and> fetch_count st' = fetch_count st"
proof -
  have status: "status \<noteq> 401"
    using assms(3) authentication_keeps_fields by (auto simp: after_refusal_def Let_def split_beta)
  show ?thesis
  proof (cases "can_drop_key w cx status body st")
    case True
    then have "st' = retranslate w cx (log_event Key_Disabled (st\<lparr>at_key_tried := True, at_key := None\<rparr>))"
      using assms(3) status by (simp add: after_refusal_def quarantine_other)
    then show ?thesis using key_dropped [OF assms(1,2) True] by simp
  next
    case False
    obtain st2 b where drop: "drop_points w cx status body st = (st2, b)" by fastforce
    then have "b" "st2 = st'"
      using assms(3) False status by (cases b; simp add: after_refusal_def quarantine_other Let_def split_beta)+
    then show ?thesis using points_dropped [OF assms(1,2)] drop drop_points_fetches [of w cx status body st] by simp
  qed
qed

lemma refusal_ends:
  assumes "follows st" "after_refusal w cx status body st = (st', Some r)"
  shows "in_order st' \<and> fetch_count st' = fetch_count st"
proof (cases "status = 401")
  case True
  then have "give_up w status body (quarantine status st) = (st', r)"
    using assms(2) authentication_keeps_fields by (simp add: after_refusal_def Let_def split_beta prod_eq_iff)
  then show ?thesis using given_up_in_order assms(1) by blast
next
  case False
  obtain st2 b where drop: "drop_points w cx status body st = (st2, b)" by fastforce
  then have "\<not> b" "give_up w status body st2 = (st', r)"
    using assms(2) False by (cases b; simp add: after_refusal_def quarantine_other Let_def split_beta prod_eq_iff split: if_splits)+
  then have "give_up w status body (quarantine status st2) = (st', r)" "follows st2"
    using drop points_kept [of w cx status body st st2] assms(1) False by (simp_all add: quarantine_other follows_def)
  then show ?thesis using given_up_in_order drop drop_points_fetches [of w cx status body st] by fastforce
qed

lemma credential_recovered:
  assumes "follows st" "given_up st" "\<not> at_auth_tried st" "recover_credential w v st = (st', r)"
  shows "follows st' \<and> given_up st' \<and> fetch_count st' = fetch_count st"
proof -
  have "event_follows (seen_by st) (Asked_Credential v) = Some (seen_by (st\<lparr>at_auth_tried := True\<rparr>))"
    using assms(3) by (simp add: event_follows_def seen_by_def)
  from log_event_follows [OF assms(1) this] show ?thesis
    using assms(2,4) by (auto simp: recover_credential_def follows_def seen_by_def given_up_def Let_def log_event_def
        fetch_count_def split: option.splits)
qed

lemma round_continues:
  assumes "ready st" "attempt_round w cx st = (st', None)"
  shows "ready st'" "fetch_count st' = Suc (fetch_count st)"
proof -
  let ?F = "log_event (Fetched (at_outgoing st) (at_bearer st)) st"
  note F = fetched_follows [OF assms(1)]
  obtain status body where out: "bw_fetch w (fetch_count st) (at_outgoing st) (at_bearer st) = Refused status body"
    using assms(2) by (auto simp: attempt_round_def Let_def split: fetch_outcome.splits)
  consider "after_refusal w cx status body ?F = (st', None)"
    | v where "\<not> at_auth_tried ?F" "recover_credential w v ?F = (st', None)"
    using assms(2) out by (auto simp: attempt_round_def Let_def split: option.splits if_splits)
  then have "follows st' \<and> given_up st' \<and> fetch_count st' = fetch_count ?F"
    using refusal_continues [OF F] credential_recovered [OF F] by cases blast+
  then show "ready st'" "fetch_count st' = Suc (fetch_count st)"
    using round_uses_a_retry [OF assms(2)] assms(1) by (simp_all add: ready_def)
qed

lemma round_ends:
  assumes "ready st" "attempt_round w cx st = (st', Some r)"
  shows "in_order st' \<and> fetch_count st' = Suc (fetch_count st)"
proof -
  let ?F = "log_event (Fetched (at_outgoing st) (at_bearer st)) st"
  note F = fetched_follows [OF assms(1)]
  consider "st' = ?F" | status body where "after_refusal w cx status body ?F = (st', Some r)"
    | v where "\<not> at_auth_tried ?F" "recover_credential w v ?F = (st', Some r)"
    using assms(2) by (auto simp: attempt_round_def Let_def split: fetch_outcome.splits option.splits if_splits)
  then have "in_order st' \<and> fetch_count st' = fetch_count ?F"
    using refusal_ends [OF F(1)] credential_recovered [OF F] F(1) by cases (auto simp: in_order_def follows_def)
  then show ?thesis by simp
qed

lemma loop_in_order: "ready st \<Longrightarrow> in_order (fst (attempt_loop w cx st)) \<and> fetch_count (fst (attempt_loop w cx st)) \<in> {1..4}"
proof (induction w cx st rule: attempt_loop.induct)
  case (1 w cx st)
  obtain st' r where round: "attempt_round w cx st = (st', r)" by fastforce
  show ?case
  proof (cases r)
    case None
    then show ?thesis using 1 round round_continues [of st w cx st'] by (simp add: attempt_loop.simps [of w cx st])
  next
    case (Some x)
    then show ?thesis using round_ends [of st w cx st' x] 1(2) round by (simp add: attempt_loop.simps [of w cx st] ready_def)
  qed
qed

lemma starts_ready: "ready (start_attempts w cx bearer version key points)"
  by (simp add: ready_def start_attempts_def split_beta Let_def follows_def given_up_def fetch_count_def retries_left_def
      seen_by_def nothing_seen_def)

text \<open>C38. However the upstream answers, the bridge sends a request at least once and at most four times, and what
  happens on the way is in order: the owner of the credential is asked once at most and only a credential it
  gave is quarantined, each prompt cache field is given up once at most and is in no later request, in
  whichever order they are refused, and a reported refusal is the end.\<close>

theorem attempts_end_in_order:
  "(let st = fst (attempt_loop w cx (start_attempts w cx bearer version key points))
    in 1 \<le> fetch_count st \<and> fetch_count st \<le> 4 \<and> events_follow nothing_seen (at_log st) \<noteq> None)"
  using loop_in_order [OF starts_ready] by (simp add: in_order_def)

section \<open>The images of a request\<close>

definition holds_images :: "nat \<Rightarrow> (jstr \<times> jstr) list \<Rightarrow> image_store \<Rightarrow> bool" where
  "holds_images n xs st \<longleftrightarrow> (\<forall>i < length xs. \<exists>p. im_saved st (n + i) = Some (fst (xs ! i), snd (xs ! i), p))"

lemma holds_images_Cons:
  "holds_images n (x # xs) st \<longleftrightarrow> (\<exists>p. im_saved st n = Some (fst x, snd x, p)) \<and> holds_images (Suc n) xs st"
  by (auto simp: holds_images_def less_Suc_eq_0_disj)

lemma held_images_stay: "holds_images n xs st \<Longrightarrow> save_images disk n xs st = st"
proof (induction xs arbitrary: n)
  case (Cons x xs)
  then show ?case by (cases x) (auto simp: holds_images_Cons)
qed simp

lemma images_saved:
  assumes "\<And>n d m. disk n d m \<noteq> None"
  shows "\<forall>k \<ge> n. im_saved st k = None \<Longrightarrow>
    im_writes (save_images disk n xs st) = im_writes st @ xs \<and> holds_images n xs (save_images disk n xs st)
    \<and> (\<forall>k < n. im_saved (save_images disk n xs st) k = im_saved st k)"
proof (induction xs arbitrary: n st)
  case (Cons x xs)
  obtain d m where x: "x = (d, m)" by fastforce
  obtain q where q: "disk (length (im_writes st)) d m = Some q" using assms [of "length (im_writes st)" d m] by auto
  define st' where "st' = st\<lparr>im_saved := (im_saved st)(n \<mapsto> (d, m, q)), im_writes := im_writes st @ [(d, m)]\<rparr>"
  have step: "save_images disk n (x # xs) st = save_images disk (Suc n) xs st'" using Cons.prems q by (simp add: x st'_def)
  have rest: "im_writes (save_images disk (Suc n) xs st') = im_writes st' @ xs"
    "holds_images (Suc n) xs (save_images disk (Suc n) xs st')"
    "\<forall>k < Suc n. im_saved (save_images disk (Suc n) xs st') k = im_saved st' k"
    using Cons.IH [of "Suc n" st'] Cons.prems by (simp_all add: st'_def)
  show ?case unfolding step holds_images_Cons using rest by (simp add: st'_def x)
qed (simp add: holds_images_def)

definition images_held :: "bridge_context \<Rightarrow> attempt_state \<Rightarrow> bool" where
  "images_held cx st \<longleftrightarrow> holds_images 0 (request_images (bc_responses cx) (aq_messages (bc_request cx))) (at_images st)"

lemma retranslate_images: "images_held cx st \<Longrightarrow> at_images (retranslate w cx st) = at_images st"
  by (simp add: retranslate_def translate_attempt_def images_held_def held_images_stay split_beta Let_def split: option.split)

lemma recover_images: "at_images (fst (recover_credential w v st)) = at_images st"
  by (simp add: recover_credential_def Let_def split: option.split)

lemma give_up_images: "at_images (fst (give_up w status body st)) = at_images st"
  by (simp add: give_up_def split: option.split)

lemma drop_points_images: "images_held cx st \<Longrightarrow> at_images (fst (drop_points w cx status body st)) = at_images st"
  using retranslate_images [of cx "st\<lparr>at_points := False\<rparr>" w]
  by (simp add: drop_points_def images_held_def Let_def split: option.split point_refusal.split)

lemma refusal_images: "images_held cx st \<Longrightarrow> at_images (fst (after_refusal w cx status body st)) = at_images st"
proof -
  assume held: "images_held cx st"
  then have held': "images_held cx (quarantine status st)" by (simp add: images_held_def)
  obtain st2 b where drop: "drop_points w cx status body (quarantine status st) = (st2, b)" by fastforce
  have "at_images st2 = at_images st" using drop_points_images [OF held', of w status body] drop by simp
  then show ?thesis using held drop
    by (cases b) (simp_all add: after_refusal_def retranslate_images images_held_def Let_def split_beta give_up_images)
qed

lemma round_images: "images_held cx st \<Longrightarrow> at_images (fst (attempt_round w cx st)) = at_images st"
  by (simp add: attempt_round_def Let_def recover_images refusal_images images_held_def split: fetch_outcome.split option.split)

lemma loop_images: "images_held cx st \<Longrightarrow> at_images (fst (attempt_loop w cx st)) = at_images st"
proof (induction w cx st rule: attempt_loop.induct)
  case (1 w cx st)
  obtain st' r where round: "attempt_round w cx st = (st', r)" by fastforce
  then have same: "at_images st' = at_images st" using round_images [OF 1(2), of w] by simp
  then show ?case using 1 round
    by (cases r) (simp_all add: attempt_loop.simps [of w cx st] images_held_def)
qed

text \<open>C40. While the workspace can be written, each image of the tool results is written exactly once, in the order
  of the request, however often the request is translated again.\<close>

theorem images_written_once:
  assumes "bc_disk cx = Some disk" "\<And>n d m. disk n d m \<noteq> None"
  shows "im_writes (at_images (fst (attempt_loop w cx (start_attempts w cx bearer version key points)))) =
    request_images (bc_responses cx) (aq_messages (bc_request cx))"
proof -
  let ?start = "start_attempts w cx bearer version key points"
  have images: "at_images ?start = save_images disk 0 (request_images (bc_responses cx) (aq_messages (bc_request cx)))
      \<lparr>im_saved = (\<lambda>_. None), im_writes = []\<rparr>"
    by (simp add: start_attempts_def translate_attempt_def assms(1) Let_def split_beta)
  then have "images_held cx ?start"
    using images_saved [OF assms(2), where n = 0 and st = "\<lparr>im_saved = (\<lambda>_. None), im_writes = []\<rparr>"]
    by (simp add: images_held_def)
  from loop_images [OF this] show ?thesis
    using images images_saved [OF assms(2), where n = 0 and st = "\<lparr>im_saved = (\<lambda>_. None), im_writes = []\<rparr>"] by simp
qed

definition image_request :: anthropic_request where
  "image_request = \<lparr>aq_model = js ''m'',
     aq_messages = [From_Assistant (Blocks [Msg_Tool_Use (js ''a'') (js ''shot'') JNull]),
       From_User (Blocks [
         Msg_Tool_Result \<lparr>tl_use = js ''gone'', tl_content = Some (Inr [Result_Image [] (js ''old'')]), tl_error = False, tl_cache = None\<rparr>,
         Msg_Tool_Result \<lparr>tl_use = js ''a'', tl_content = Some (Inr [Result_Image (js ''image/jpeg'') (js ''new''), Result_Image [] []]),
           tl_error = False, tl_cache = Some (Ephemeral None)\<rparr>])],
     aq_system = None, aq_stream = None, aq_tools = None, aq_tool_choice = None, aq_thinking = None\<rparr>"

definition image_context :: bridge_context where
  "image_context = \<lparr>bc_request = image_request, bc_responses = True, bc_provider = js ''p'', bc_target_model = js ''m'',
     bc_mapping = None, bc_effort = None, bc_cap = None, bc_cap_name = None, bc_disk = Some (\<lambda>n d m. Some (d @ m)),
     bc_signatures = [], bc_recovers = True, bc_compatible = True\<rparr>"

definition image_world :: bridge_world where
  "image_world = \<lparr>bw_parse = (\<lambda>_. Some (JObj [(js ''param'', JStr (js ''prompt_cache_key''))])), bw_stringify = (\<lambda>_. []), bw_lower = (\<lambda>s. s),
     bw_fetch = (\<lambda>n q t. if n = 0 then Refused 400 [] else Accepted),
     bw_recover = (\<lambda>_. None)\<rparr>"

definition image_run :: "attempt_state \<times> bridge_result" where
  "image_run = attempt_loop image_world image_context (start_attempts image_world image_context [] None (Some (js ''key'')) True)"

lemma images_written_once_witness:
  "im_writes (at_images (fst image_run)) = [(js ''old'', js ''image/png''), (js ''new'', js ''image/jpeg'')]"
proof -
  have "request_images (bc_responses image_context) (aq_messages (bc_request image_context)) =
      [(js ''old'', js ''image/png''), (js ''new'', js ''image/jpeg'')]" by code_simp
  moreover have "bc_disk image_context = Some (\<lambda>n d m. Some (d @ m))" by (simp add: image_context_def)
  ultimately show ?thesis
    using images_written_once [of image_context "\<lambda>n d m. Some (d @ m)"] by (simp add: image_run_def)
qed

end
