(* ===== verification/Spec2Isabelle.thy ===== *)
theory Spec2Isabelle
  imports TranscriptDurability QueueProperties TurnProperties SseParser McpPrewarm ExternalInteractive PartialJson TreeMerge TreeActions LineDiff ExternalQueueProperties
    BridgeStreamProperties ResponsesStreamProperties BridgeRequestProperties BridgeRegistry BridgeError
    BridgeCompatProperties BridgeHandlerProperties
begin

text \<open>
  MyAgents: a verification library for the core of the desktop agent.

  \<^bold>\<open>The program.\<close> MyAgents is a desktop shell (src-tauri, Rust) that runs one server process per
  session (src/server, TypeScript) and a React user interface (src/renderer), with code that all of
  them share in src/shared. A server session drives an agent, either the Claude Agent SDK (the
  built-in session) or another command line agent (an external runtime). Inputs come from the
  desktop, from messaging channels (IM), from scheduled tasks and from other sessions (the inbox).
  An input is admitted to the queue, becomes a turn, and the frames of the turn become operations of
  the transcript; the transcript is held in memory, written behind to a file, and sent to the
  interface. This library models the parts that carry state or protocols of their own and leaves out
  what only moves data between the operating system, the network and the screen.

  \<^bold>\<open>Conventions.\<close> A JavaScript string is a list of 16-bit code units (\<open>jstr\<close> of \<open>Prelude\<close>), since
  lengths, slices and regular expressions count units; a JSON value is a \<open>json\<close> and an object keeps
  the insertion order of its keys (\<open>JsValue\<close>), because the order is visible in what is written. A
  \<open>Map\<close> or a \<open>Set\<close> is an association list or a list in insertion order, with the operations of
  \<open>Prelude\<close>. A value that is absent is None; a thrown error is the left side of a sum. Objects that
  several owners mutate live in a store and are named by a reference. An asynchronous method is cut
  where it awaits: every stretch between two awaits is one function on the state, and an interleaving
  is a list of such steps or a reachability relation. Clocks, fresh identifiers, SHA-256, \<open>JSON.parse\<close>
  and \<open>JSON.stringify\<close>, schemas, the edit script of the diff package, letter case outside ASCII and
  the answers of remote services are arguments; what the code relies on is a named hypothesis and
  every property with one has a witness that instantiates it.

  \<^bold>\<open>Text.\<close> \<open>JsText\<close> models trim, split, join, search and character classes of JavaScript; \<open>JsonText\<close> the
  serialisation of a batch and the hex digest.

  \<^bold>\<open>The transcript.\<close> \<open>Transcript\<close> is shared/sessionTranscript.ts: messages and turns in display order,
  the eleven operations, and \<open>apply_batch\<close>, which undoes a refused batch; \<open>TranscriptBatch\<close> shows the
  batch is atomic. \<open>TranscriptOps\<close> is session-transcript/operations.ts: merging, coalescing and
  cutting of text appends, with their equivalence to the operations they replace;
  \<open>TranscriptBaseline\<close> shows that the baseline operations rebuild every projection. \<open>TranscriptCodec\<close> is
  codec.ts: the checksummed rows, and the decoder that accepts a contiguous prefix; its lemmas are the
  round trip of a row and the recovery of a damaged file. \<open>TranscriptFile\<close> is file.ts over the rows of
  a file with a fault script, \<open>TranscriptWriter\<close> is writer.ts, the queue of writes behind the live
  state. \<open>TranscriptSaving\<close> states what the writer needs of a store as the locale
  \<open>transcript_storage\<close> and proves the invariant of their composition inside it;
  \<open>TranscriptDurability\<close> interprets the locale on the model of file.ts and concludes that under every
  interleaving and failure the file holds the projection of its revision, and that unsaved content
  always has a write or a timer.

  \<^bold>\<open>Input and turns.\<close> \<open>SessionTypes\<close> is builtin-session/types.ts. \<open>TurnQueue\<close>
  (session-core/turn-queue.ts) decides how an input is admitted and when a waiting one may start;
  \<open>SessionQueue\<close> (builtin-session/queue.ts) is the state of the three waiting arrays, the admission
  ticket, the promoted item and the slot of the SDK. \<open>QueueProperties\<close> has the locale \<open>lane\<close>,
  interpreted on each of the three arrays, removal by identifier, and the history property that a
  guard is cancelled at most once. \<open>TurnState\<close> (builtin-session/turn.ts) collects usage, text and
  owners of the running turn; \<open>TurnProperties\<close> (locale \<open>usage_counter\<close>, interpreted on the four counters)
  shows that usage does not depend on the order of frames and that a turn is reported once. \<open>ChannelDelivery\<close> (session-core/channel-delivery.ts) decides who
  delivers the output; \<open>McpPrewarm\<close> (session-core/mcp-prewarm-policy.ts) is the bounded wait for MCP
  servers.

  \<^bold>\<open>Prompts.\<close> \<open>SystemReminder\<close> (shared/systemReminder.ts) builds and reads the hidden envelopes;
  \<open>QueryContext\<close> the context of a desktop query; \<open>TagNeutralizer\<close>, \<open>SessionEvent\<close> and
  \<open>SessionEventDisplay\<close> (server/inbox/session-event.ts) the prompts that carry text of another session,
  which must not close its envelope. \<open>InboxLabel\<close>, \<open>InboxDrain\<close> and \<open>SessionWatch\<close> are the rest of
  server/inbox: labels, the drain of a batch of messages, and the registry of watches with their
  delivery at the end of a turn.

  \<^bold>\<open>Messaging channels.\<close> \<open>ImRequestRegistry\<close> (utils/im-request-registry.ts) holds cancellation and
  retained terminals of requests, \<open>ImEventBus\<close> (utils/im-event-bus.ts) the ring of events with replay
  and gap markers, \<open>ImLifecycle\<close> (routes/im-request-lifecycle.ts) the routes over both, and
  \<open>ExternalInteractive\<close> (runtimes/external-session/interactive.ts) the requests that share one turn of
  an external runtime.

  \<^bold>\<open>External runtimes.\<close> \<open>RuntimeConfig\<close> (session-core/runtime-config-policy.ts) merges, filters and compares
  configuration changes, which form a monoid; \<open>ExternalQueue\<close>
  (runtimes/external-session/operation-queue.ts, external-queue-policy.ts) holds the messages and
  changes that wait for a turn, the operation reserved for the drain, and the chain of dispatches with
  the generation that a clear ends. \<open>ExternalQueueProperties\<close> shows the order of the drain over every
  history, what a clear settles, that changes which wait together are one change, and that dispatches do
  not overlap.

  \<^bold>\<open>Streams.\<close> \<open>SseParser\<close> (openai-bridge/utils/sse-parser.ts) does not depend on how a stream is cut;
  \<open>PartialJson\<close> (shared/parsePartialJson.ts) completes JSON that is still arriving. \<open>BridgeResponse\<close>
  (openai-bridge/translate/response.ts, response-responses.ts, usage.ts, tools.ts) translates the
  answers of the two OpenAI protocols, \<open>BridgeStream\<close> (stream.ts) and \<open>ResponsesStream\<close>
  (stream-responses.ts) their streams. A reader of the Anthropic protocol, which accepts only events that
  follow it, states what the streams must do: \<open>BridgeStreamProperties\<close> refines a script of the message
  and shows that streaming agrees with the translation of the whole answer, and
  \<open>ResponsesStreamProperties\<close> the same for the Responses API, with exactly one terminal event at the end.
  \<open>BridgeRequest\<close> (messages.ts, request.ts, request-responses.ts) builds the requests in the other
  direction; \<open>BridgeRequestProperties\<close> shows that the results of tool calls follow their calls as both
  protocols demand and that an answer is sent back as it came. \<open>BridgeError\<close> (errors.ts) reads and
  classifies the errors of providers, and \<open>BridgeRegistry\<close> (bridge-registry.ts) holds the routing
  tokens with the cache refusals that a request may report late. \<open>BridgeHandler\<close> (handler.ts) joins them:
  each attempt is a translation, and the loop recovers a refused credential once and gives up the cache
  key and the cache breakpoints once each, when \<open>BridgeCompat\<close> reads in the error body that they are
  refused; the patterns of the source run on the regular expressions of \<open>JsRegex\<close>, whose executable
  search is exact. \<open>BridgeHandlerRequests\<close> and \<open>BridgeHandlerProperties\<close> bound the fetches by four and
  show that a field that was given up never comes back, \<open>BridgeCompatProperties\<close> that an error body is
  redacted before it is shown. The proxy, the headers, the lookup of the configuration and the pipes
  around the stream translators are not modelled.

  \<^bold>\<open>The interface.\<close> \<open>WorkspaceTree\<close>, \<open>TreeMerge\<close> and \<open>TreeActions\<close> (components/workspace-tree) are the
  rows of the file tree, its refresh with a bounded pool of reads, and keys, drops, names and undo;
  \<open>LineDiff\<close> (components/markdown-editor/lineDiff.ts) compares two versions of a document and combines
  them.

  \<^bold>\<open>Bounds.\<close> Loops of the source are recursion with a measure. Where the environment decides how often a
  loop runs, the model runs over a list of what each round observes (\<open>await_loop\<close>, the pool of
  \<open>TreeMerge\<close>, the refresh rounds), and a termination property gives the number of rounds that is
  enough. The peeling of envelopes and the depth of text targets use the constants of the source.
  Integers of the source stay far below \<open>2 ^ 53\<close> and are \<open>int\<close> or \<open>nat\<close>.

  \<^bold>\<open>Not modelled.\<close> agent-session.ts, index.ts, external-session.ts and admin-api.ts are closures over
  SDK processes, HTTP and files: the state machines they call are modelled from their own modules, the
  orchestration itself is not. Rendering, animation in floating point pixels, localised text, tool
  implementations, plug-ins and the Rust host are left out, since their behaviour is that of libraries and services that are not part of the sources.
  The components of the manifest list each of them.
\<close>

end
